(* ===== verification/Prelude.thy ===== *)
theory Prelude
  imports Complex_Main "HOL-Library.Word" "HOL-Library.Multiset"
begin

text \<open>
  Shared vocabulary of the development. It holds the Python side of the model: exceptions as
  values of a sum type and loops that stop at the first exception, dictionaries that keep
  insertion order, the string functions the sources call (\<open>split\<close>, \<open>startswith\<close>,
  \<open>endswith\<close>, \<open>str\<close>, \<open>int\<close>), list slices, floats with an infinity, and the notion of
  half-open ranges that tile an interval, which layer assignment, tensor-parallel sharding and
  rank assignment all use. The generic lemmas on these are proved here once and carried by the
  collections \<open>err_simps\<close>, \<open>dict_simps\<close> and \<open>str_simps\<close>.
\<close>

named_theorems err_simps \<open>results of computations that may raise\<close>
named_theorems dict_simps \<open>lookup in dictionaries after an update\<close>
named_theorems str_simps \<open>Python string functions\<close>

section \<open>Exceptions as values\<close>

datatype py_error =
    ValueError
  | KeyError
  | IndexError
  | AssertionError
  | ZeroDivisionError
  | RuntimeError
  | TypeError
  | StructError
  | UnboundLocalError
  | OverflowError
  | Timeout

type_synonym 'a py = "py_error + 'a"

definition bindE :: "'a py \<Rightarrow> ('a \<Rightarrow> 'b py) \<Rightarrow> 'b py" where
  "bindE m f = (case m of Inl e \<Rightarrow> Inl e | Inr x \<Rightarrow> f x)"

definition assertE :: "bool \<Rightarrow> py_error \<Rightarrow> unit py" where
  "assertE b e = (if b then Inr () else Inl e)"

text \<open>A \<open>for\<close> loop whose body may raise: it stops at the first exception.\<close>

fun foldE :: "('s \<Rightarrow> 'a \<Rightarrow> 's py) \<Rightarrow> 's \<Rightarrow> 'a list \<Rightarrow> 's py" where
  "foldE f s [] = Inr s"
| "foldE f s (x # xs) = bindE (f s x) (\<lambda>s'. foldE f s' xs)"

text \<open>The same for a loop that builds a list.\<close>

fun mapE :: "('a \<Rightarrow> 'b py) \<Rightarrow> 'a list \<Rightarrow> 'b list py" where
  "mapE f [] = Inr []"
| "mapE f (x # xs) = bindE (f x) (\<lambda>y. bindE (mapE f xs) (\<lambda>ys. Inr (y # ys)))"

text \<open>
  A loop over a state that keeps what was done before an exception: the body returns the new
  state and the exception it raised, if any.
\<close>

fun foldX :: "('s \<Rightarrow> 'a \<Rightarrow> 's \<times> py_error option) \<Rightarrow> 's \<Rightarrow> 'a list \<Rightarrow> 's \<times> py_error option" where
  "foldX f s [] = (s, None)"
| "foldX f s (x # xs) = (case f s x of (s', None) \<Rightarrow> foldX f s' xs | (s', Some e) \<Rightarrow> (s', Some e))"

definition lookupE :: "('k \<Rightarrow> 'v option) \<Rightarrow> 'k \<Rightarrow> 'v py" where
  "lookupE m k = (case m k of None \<Rightarrow> Inl KeyError | Some v \<Rightarrow> Inr v)"

definition nthE :: "'a list \<Rightarrow> nat \<Rightarrow> 'a py" where
  "nthE xs i = (if i < length xs then Inr (xs ! i) else Inl IndexError)"

text \<open>Floor division of Python integers.\<close>

definition floordivE :: "int \<Rightarrow> int \<Rightarrow> int py" where
  "floordivE a b = (if b = 0 then Inl ZeroDivisionError else Inr (a div b))"

section \<open>Methods that change an object and may raise\<close>

text \<open>
  A method is a function from the state of its object to its result, a value or an exception, and
  the state it leaves, which is kept when it raises.
\<close>

type_synonym ('s, 'a) proc = "'s \<Rightarrow> 'a py \<times> 's"

definition retS :: "'a \<Rightarrow> ('s, 'a) proc" where
  "retS x s = (Inr x, s)"

definition raiseS :: "py_error \<Rightarrow> ('s, 'a) proc" where
  "raiseS e s = (Inl e, s)"

definition bindS :: "('s, 'a) proc \<Rightarrow> ('a \<Rightarrow> ('s, 'b) proc) \<Rightarrow> ('s, 'b) proc" where
  "bindS m f s = (case m s of (Inl e, s') \<Rightarrow> (Inl e, s') | (Inr x, s') \<Rightarrow> f x s')"

definition thenS :: "('s, 'a) proc \<Rightarrow> ('s, 'b) proc \<Rightarrow> ('s, 'b) proc" where
  "thenS m n = bindS m (\<lambda>_. n)"

definition getS :: "('s \<Rightarrow> 'a) \<Rightarrow> ('s, 'a) proc" where
  "getS f s = (Inr (f s), s)"

definition modS :: "('s \<Rightarrow> 's) \<Rightarrow> ('s, unit) proc" where
  "modS f s = (Inr (), f s)"

definition liftE :: "'a py \<Rightarrow> ('s, 'a) proc" where
  "liftE m s = (m, s)"

fun forS :: "'a list \<Rightarrow> ('a \<Rightarrow> ('s, unit) proc) \<Rightarrow> ('s, unit) proc" where
  "forS [] f = retS ()"
| "forS (x # xs) f = thenS (f x) (forS xs f)"

text \<open>\<open>try: m except Exception: pass\<close>\<close>

definition ignoreS :: "('s, unit) proc \<Rightarrow> ('s, unit) proc" where
  "ignoreS m s = (Inr (), snd (m s))"

text \<open>
  A polling loop \<open>while not cond(): ...\<close>, for at most \<open>fuel\<close> rounds; running out of fuel, which
  the sources do not do, is the value \<open>Timeout\<close>.
\<close>

fun pollS :: "nat \<Rightarrow> ('s, bool) proc \<Rightarrow> ('s, unit) proc" where
  "pollS 0 cond = raiseS Timeout"
| "pollS (Suc fuel) cond = bindS cond (\<lambda>b. if b then retS () else pollS fuel cond)"

section \<open>Computations that may not end\<close>

text \<open>A computation that may also run forever, which is the value \<open>None\<close>.\<close>

definition bindD :: "'a py option \<Rightarrow> ('a \<Rightarrow> 'b py option) \<Rightarrow> 'b py option" where
  "bindD m f = (case m of None \<Rightarrow> None | Some (Inl e) \<Rightarrow> Some (Inl e) | Some (Inr x) \<Rightarrow> f x)"

fun mapD :: "('a \<Rightarrow> 'b py option) \<Rightarrow> 'a list \<Rightarrow> 'b list py option" where
  "mapD f [] = Some (Inr [])"
| "mapD f (x # xs) = bindD (f x) (\<lambda>y. bindD (mapD f xs) (\<lambda>ys. Some (Inr (y # ys))))"

section \<open>Dictionaries that keep insertion order\<close>

type_synonym ('k, 'v) dict = "('k \<times> 'v) list"

fun dict_set :: "'k \<Rightarrow> 'v \<Rightarrow> ('k, 'v) dict \<Rightarrow> ('k, 'v) dict" where
  "dict_set k v [] = [(k, v)]"
| "dict_set k v ((k', v') # d) = (if k = k' then (k, v) # d else (k', v') # dict_set k v d)"

fun dict_del :: "'k \<Rightarrow> ('k, 'v) dict \<Rightarrow> ('k, 'v) dict" where
  "dict_del k [] = []"
| "dict_del k ((k', v') # d) = (if k = k' then d else (k', v') # dict_del k d)"

abbreviation dict_get :: "('k, 'v) dict \<Rightarrow> 'k \<Rightarrow> 'v option" where
  "dict_get \<equiv> map_of"

abbreviation dict_keys :: "('k, 'v) dict \<Rightarrow> 'k list" where
  "dict_keys d \<equiv> map fst d"

definition dict_wf :: "('k, 'v) dict \<Rightarrow> bool" where
  "dict_wf d \<longleftrightarrow> distinct (dict_keys d)"

section \<open>Strings and slices\<close>

type_synonym byte = "8 word"

definition py_slice :: "nat \<Rightarrow> nat \<Rightarrow> 'a list \<Rightarrow> 'a list" where
  "py_slice s e xs = take (e - s) (drop s xs)"

fun starts_with :: "string \<Rightarrow> string \<Rightarrow> bool" where
  "starts_with s [] = True"
| "starts_with [] (p # ps) = False"
| "starts_with (c # s) (p # ps) = (c = p \<and> starts_with s ps)"

definition ends_with :: "string \<Rightarrow> string \<Rightarrow> bool" where
  "ends_with s p = starts_with (rev s) (rev p)"

text \<open>\<open>s.split(c)\<close> for a one-character separator.\<close>

fun split_on :: "char \<Rightarrow> string \<Rightarrow> string list" where
  "split_on c [] = [[]]"
| "split_on c (x # xs) =
     (if x = c then [] # split_on c xs
      else (case split_on c xs of [] \<Rightarrow> [[x]] | w # ws \<Rightarrow> (x # w) # ws))"

definition digit_char :: "nat \<Rightarrow> char" where
  "digit_char d = char_of (48 + d)"

text \<open>\<open>str(n)\<close> of a natural number, in decimal.\<close>

fun str_nat :: "nat \<Rightarrow> string" where
  "str_nat n = (if n < 10 then [digit_char n] else str_nat (n div 10) @ [digit_char (n mod 10)])"

declare str_nat.simps [simp del]

definition str_int :: "int \<Rightarrow> string" where
  "str_int i = (if i < 0 then CHR ''-'' # str_nat (nat (- i)) else str_nat (nat i))"

text \<open>The same by division of integers, for evaluation.\<close>

function str_digits :: "int \<Rightarrow> string" where
  "str_digits i = (if i < 10 then [digit_char (nat i)] else str_digits (i div 10) @ [digit_char (nat (i mod 10))])"
  by auto
termination
  by (relation "measure nat") auto

declare str_digits.simps [simp del]

lemma str_digits: "0 \<le> i \<Longrightarrow> str_digits i = str_nat (nat i)"
proof (induction i rule: str_digits.induct)
  case (1 i)
  show ?case
  proof (cases "i < 10")
    case False
    then have "\<not> nat i < 10" by simp
    with False 1 show ?thesis
      by (subst str_digits.simps, subst str_nat.simps) (simp add: nat_div_distrib nat_mod_distrib)
  next
    case True
    with 1 have "nat i < 10" by simp
    with True show ?thesis by (subst str_digits.simps, subst str_nat.simps) simp
  qed
qed

lemma str_int_code [code]: "str_int i = (if i < 0 then CHR ''-'' # str_digits (- i) else str_digits i)"
  by (simp add: str_int_def str_digits)

definition is_digit :: "char \<Rightarrow> bool" where
  "is_digit c \<longleftrightarrow> 48 \<le> (of_char c :: nat) \<and> (of_char c :: nat) \<le> 57"

definition digit_val :: "char \<Rightarrow> nat" where
  "digit_val c = of_char c - 48"

text \<open>
  The digits of an integer literal as \<open>int(s)\<close> accepts them: decimal digits with single
  underscores between them. \<open>prev\<close> says that the character before was a digit.
\<close>

fun parse_digits :: "nat \<Rightarrow> bool \<Rightarrow> string \<Rightarrow> nat option" where
  "parse_digits acc prev [] = (if prev then Some acc else None)"
| "parse_digits acc prev (c # cs) =
     (if is_digit c then parse_digits (10 * acc + digit_val c) True cs
      else if c = CHR ''_'' \<and> prev then parse_digits acc False cs
      else None)"

definition is_space :: "char \<Rightarrow> bool" where
  "is_space c \<longleftrightarrow> (of_char c :: nat) \<in> {9, 10, 11, 12, 13, 28, 29, 30, 31, 32}"

definition str_strip :: "string \<Rightarrow> string" where
  "str_strip s = rev (dropWhile is_space (rev (dropWhile is_space s)))"

definition py_int :: "string \<Rightarrow> int py" where
  "py_int s =
     (case str_strip s of
        [] \<Rightarrow> Inl ValueError
      | c # cs \<Rightarrow>
          (if c = CHR ''-'' then
             (case parse_digits 0 False cs of None \<Rightarrow> Inl ValueError | Some n \<Rightarrow> Inr (- int n))
           else if c = CHR ''+'' then
             (case parse_digits 0 False cs of None \<Rightarrow> Inl ValueError | Some n \<Rightarrow> Inr (int n))
           else
             (case parse_digits 0 False (c # cs) of
                None \<Rightarrow> Inl ValueError | Some n \<Rightarrow> Inr (int n))))"

section \<open>Ranges that tile an interval\<close>

fun tiles :: "('a::linorder \<times> 'a) list \<Rightarrow> 'a \<Rightarrow> 'a \<Rightarrow> bool" where
  "tiles [] a b = (a = b)"
| "tiles ((s, e) # rs) a b = (s = a \<and> s \<le> e \<and> tiles rs e b)"

section \<open>Floats with an infinity\<close>

text \<open>
  Python floats are modelled by exact rationals; the sources also use \<open>float('inf')\<close>, and
  negating it gives the other infinity. Rounding and overflow are not modelled.
\<close>

type_synonym py_float = rat

text \<open>\<open>int(x)\<close> of a float: truncation towards zero.\<close>

definition py_trunc :: "py_float \<Rightarrow> int" where
  "py_trunc x = (if 0 \<le> x then \<lfloor>x\<rfloor> else \<lceil>x\<rceil>)"

datatype xrat = NegInf | Fin rat | PosInf

instantiation xrat :: linorder
begin

fun less_eq_xrat :: "xrat \<Rightarrow> xrat \<Rightarrow> bool" where
  "less_eq_xrat NegInf y = True"
| "less_eq_xrat (Fin x) NegInf = False"
| "less_eq_xrat (Fin x) (Fin y) = (x \<le> y)"
| "less_eq_xrat (Fin x) PosInf = True"
| "less_eq_xrat PosInf y = (y = PosInf)"

definition less_xrat :: "xrat \<Rightarrow> xrat \<Rightarrow> bool" where
  "less_xrat x y = (x \<le> y \<and> \<not> y \<le> (x :: xrat))"

instance
proof
  fix x y z :: xrat
  show "(x < y) = (x \<le> y \<and> \<not> y \<le> x)" by (simp add: less_xrat_def)
  show "x \<le> x" by (cases x) auto
  show "x \<le> y \<Longrightarrow> y \<le> z \<Longrightarrow> x \<le> z" by (cases x; cases y; cases z) auto
  show "x \<le> y \<Longrightarrow> y \<le> x \<Longrightarrow> x = y" by (cases x; cases y) auto
  show "x \<le> y \<or> y \<le> x" by (cases x; cases y) auto
qed

end

section \<open>Lemmas: exceptions and loops\<close>

lemma bindE_simps [simp, err_simps]:
  "bindE (Inl e) f = Inl e"
  "bindE (Inr x) f = f x"
  by (simp_all add: bindE_def)

lemma bindE_Inr_iff [err_simps]: "bindE m f = Inr y \<longleftrightarrow> (\<exists>x. m = Inr x \<and> f x = Inr y)"
  by (cases m) auto

lemma bindE_Inl_iff:
  "bindE m f = Inl e \<longleftrightarrow> m = Inl e \<or> (\<exists>x. m = Inr x \<and> f x = Inl e)"
  by (cases m) auto

lemma assertE_simps [simp, err_simps]: "assertE True e = Inr ()" "assertE False e = Inl e"
  by (simp_all add: assertE_def)

lemma assertE_Inr_iff [err_simps]: "assertE b e = Inr u \<longleftrightarrow> b"
  by (simp add: assertE_def)

lemma lookupE_Inr_iff [err_simps]: "lookupE m k = Inr v \<longleftrightarrow> m k = Some v"
  by (simp add: lookupE_def split: option.splits)

lemma nthE_Inr_iff [err_simps]: "nthE xs i = Inr x \<longleftrightarrow> i < length xs \<and> xs ! i = x"
  by (auto simp: nthE_def)

lemma floordivE_Inr_iff [err_simps]: "floordivE a b = Inr q \<longleftrightarrow> b \<noteq> 0 \<and> q = a div b"
  by (auto simp: floordivE_def)

lemma foldE_append: "foldE f s (xs @ ys) = bindE (foldE f s xs) (\<lambda>s'. foldE f s' ys)"
  by (induction xs arbitrary: s) (auto simp: bindE_def split: sum.splits)

text \<open>The invariant rule of a loop that may raise.\<close>

lemma foldE_invariant:
  assumes "foldE f s xs = Inr s'" and "P s"
    and "\<And>s x s'. x \<in> set xs \<Longrightarrow> P s \<Longrightarrow> f s x = Inr s' \<Longrightarrow> P s'"
  shows "P s'"
  using assms
proof (induction xs arbitrary: s)
  case (Cons x xs)
  from Cons.prems(1) obtain t where t: "f s x = Inr t" "foldE f t xs = Inr s'"
    by (auto simp: bindE_Inr_iff)
  have "P t" using Cons.prems(2,3) t(1) by auto
  with t(2) show ?case using Cons.prems(3) by (intro Cons.IH) auto
qed auto

text \<open>A loop whose body never raises is a fold.\<close>

lemma foldE_total: "(\<And>s x. x \<in> set xs \<Longrightarrow> f s x = Inr (g x s)) \<Longrightarrow> foldE f s xs = Inr (fold g xs s)"
  by (induction xs arbitrary: s) auto

lemma foldX_append:
  "foldX f s (xs @ ys) =
     (case foldX f s xs of (s', None) \<Rightarrow> foldX f s' ys | (s', Some e) \<Rightarrow> (s', Some e))"
  by (induction xs arbitrary: s) (auto split: prod.splits option.splits)

text \<open>
  The rule for a loop that ended without an exception: \<open>P\<close> holds throughout, and what an
  iteration establishes for its element (\<open>Q\<close>) is kept by the others.
\<close>

lemma foldX_establishes:
  assumes "foldX f s xs = (s', None)" and "P s"
    and step: "\<And>s x s'. x \<in> set xs \<Longrightarrow> P s \<Longrightarrow> f s x = (s', None) \<Longrightarrow> P s' \<and> Q x s'"
    and keep: "\<And>s x y s'. x \<in> set xs \<Longrightarrow> y \<in> set xs \<Longrightarrow> P s \<Longrightarrow> Q y s \<Longrightarrow> f s x = (s', None) \<Longrightarrow> Q y s'"
  shows "P s' \<and> (\<forall>x \<in> set xs. Q x s')"
proof -
  have "P s' \<and> (\<forall>x \<in> set ys \<union> done. Q x s')"
    if "foldX f t ys = (s', None)" "P t" "\<forall>x \<in> done. Q x t" "set ys \<subseteq> set xs" "done \<subseteq> set xs"
    for t ys "done"
    using that
  proof (induction ys arbitrary: t "done")
    case (Cons y ys)
    obtain u where u: "f t y = (u, None)" "foldX f u ys = (s', None)"
      using Cons.prems(1) by (auto split: prod.splits option.splits)
    have y: "y \<in> set xs" using Cons.prems(4) by simp
    have "P u" "Q y u" using step [OF y Cons.prems(2) u(1)] by auto
    moreover have "\<forall>x \<in> done. Q x u"
      using keep [OF y _ Cons.prems(2) _ u(1)] Cons.prems(3,5) by blast
    ultimately show ?case using Cons.IH [OF u(2), of "insert y done"] Cons.prems(4,5) y by auto
  qed auto
  from this [of s xs "{}"] assms(1,2) show ?thesis by auto
qed

text \<open>A bound on what a loop accumulates, from a bound per iteration.\<close>

lemma foldE_measure:
  assumes "foldE f s xs = Inr s'" and "\<And>s x s'. x \<in> set xs \<Longrightarrow> f s x = Inr s' \<Longrightarrow> m s' \<le> m s + (c::nat)"
  shows "m s' \<le> m s + length xs * c"
  using assms
proof (induction xs arbitrary: s)
  case (Cons x xs)
  then obtain t where t: "f s x = Inr t" "foldE f t xs = Inr s'" by (auto simp: bindE_Inr_iff)
  have "m t \<le> m s + c" using Cons.prems(2) t(1) by auto
  moreover have "m s' \<le> m t + length xs * c" using Cons.IH [OF t(2)] Cons.prems(2) by auto
  ultimately show ?case by simp
qed simp

text \<open>
  The rule for a loop that ended: \<open>P\<close> holds throughout, and what an iteration establishes for
  its element is kept by the later ones.
\<close>

lemma foldE_establishes:
  assumes "foldE f s xs = Inr s'" and "P s"
    and step: "\<And>s x s'. x \<in> set xs \<Longrightarrow> P s \<Longrightarrow> f s x = Inr s' \<Longrightarrow> P s' \<and> Q x s'"
    and keep: "\<And>s x y s'. x \<in> set xs \<Longrightarrow> y \<in> set xs \<Longrightarrow> P s \<Longrightarrow> Q y s \<Longrightarrow> f s x = Inr s' \<Longrightarrow> Q y s'"
  shows "P s' \<and> (\<forall>x \<in> set xs. Q x s')"
proof -
  let ?g = "\<lambda>s x. case f s x of Inl e \<Rightarrow> (s, Some e) | Inr t \<Rightarrow> (t, None)"
  have run: "foldX ?g s xs = (s', None)"
    using assms(1) by (induction xs arbitrary: s) (auto simp: bindE_Inr_iff)
  have conv: "f t x = Inr t'" if "?g t x = (t', None)" for t x t'
    using that by (simp split: sum.splits)
  show ?thesis
  proof (rule foldX_establishes [where P = P and Q = Q, OF run assms(2)])
    show "P t' \<and> Q x t'" if "x \<in> set xs" "P t" "?g t x = (t', None)" for t x t'
      using step [OF that(1,2) conv [OF that(3)]] .
    show "Q y t'" if "x \<in> set xs" "y \<in> set xs" "P t" "Q y t" "?g t x = (t', None)" for t x y t'
      using keep [OF that(1-4) conv [OF that(5)]] .
  qed
qed

lemma mapE_Inr_iff: "mapE f xs = Inr ys \<longleftrightarrow> list_all2 (\<lambda>x y. f x = Inr y) xs ys"
  by (induction xs arbitrary: ys) (auto simp: bindE_Inr_iff list_all2_Cons1)

lemma mapE_length: "mapE f xs = Inr ys \<Longrightarrow> length ys = length xs"
  by (auto simp: mapE_Inr_iff dest: list_all2_lengthD)

lemma mapE_total: "(\<And>x. x \<in> set xs \<Longrightarrow> f x = Inr (g x)) \<Longrightarrow> mapE f xs = Inr (map g xs)"
  by (induction xs) auto


lemma bindD_simps [simp]: "bindD None f = None" "bindD (Some (Inl e)) f = Some (Inl e)" "bindD (Some (Inr x)) f = f x"
  by (simp_all add: bindD_def)

lemma bindD_Inr_iff [err_simps]: "bindD m f = Some (Inr y) \<longleftrightarrow> (\<exists>x. m = Some (Inr x) \<and> f x = Some (Inr y))"
  by (auto simp: bindD_def split: option.splits sum.splits)

lemma mapD_total: "(\<And>x. x \<in> set xs \<Longrightarrow> f x = Some (Inr (v x))) \<Longrightarrow> mapD f xs = Some (Inr (map v xs))"
  by (induction xs) simp_all

lemma mapD_Inr_mem: "mapD f xs = Some (Inr ys) \<Longrightarrow> y \<in> set ys \<Longrightarrow> \<exists>x \<in> set xs. f x = Some (Inr y)"
  by (induction xs arbitrary: ys) (auto simp: err_simps)

lemma mapD_length: "mapD f xs = Some (Inr ys) \<Longrightarrow> length ys = length xs"
  by (induction xs arbitrary: ys) (auto simp: err_simps)

section \<open>Selection of a best element\<close>

text \<open>\<open>min\<close> and \<open>max\<close> with a key keep the first of the best elements; what they need is a strict weak order.\<close>

locale selection =
  fixes better :: "'a \<Rightarrow> 'a \<Rightarrow> bool"
  assumes asym: "better x y \<Longrightarrow> \<not> better y x"
    and neg_trans: "\<not> better x y \<Longrightarrow> \<not> better y z \<Longrightarrow> \<not> better x z"
begin

lemma pick:
  "foldl (\<lambda>b y. if better y b then y else b) x xs \<in> set (x # xs) \<and>
   (\<forall>y \<in> set (x # xs). \<not> better y (foldl (\<lambda>b y. if better y b then y else b) x xs))"
proof (induction xs arbitrary: x)
  case Nil
  then show ?case using asym by auto
next
  case (Cons a xs)
  show ?case
  proof (cases "better a x")
    case True
    let ?r = "foldl (\<lambda>b y. if better y b then y else b) a xs"
    have "\<not> better x ?r" using asym [OF True] Cons [of a] neg_trans [of x a ?r] by simp
    with True Cons [of a] show ?thesis by auto
  next
    case False
    let ?r = "foldl (\<lambda>b y. if better y b then y else b) x xs"
    have "\<not> better a ?r" using False Cons [of x] neg_trans [of a x ?r] by simp
    with False Cons [of x] show ?thesis by auto
  qed
qed

lemmas pick_mem = pick [THEN conjunct1]
lemmas pick_best = pick [THEN conjunct2, rule_format]

end

interpretation smallest: selection "\<lambda>y b. key y < key b" for key :: "'a \<Rightarrow> 'k::linorder"
  by unfold_locales auto

interpretation largest: selection "\<lambda>y b. key b < key y" for key :: "'a \<Rightarrow> 'k::linorder"
  by unfold_locales auto

section \<open>Lemmas: methods\<close>

lemma run_simps [simp]:
  "retS x s = (Inr x, s)" "raiseS e s = (Inl e, s)" "getS f s = (Inr (f s), s)" "modS g s = (Inr (), g s)"
  "liftE m s = (m, s)" "ignoreS n s = (Inr (), snd (n s))"
  by (simp_all add: retS_def raiseS_def getS_def modS_def liftE_def ignoreS_def)

lemma bindS_Inr_iff [err_simps]:
  "bindS m f s = (Inr y, s') \<longleftrightarrow> (\<exists>x t. m s = (Inr x, t) \<and> f x t = (Inr y, s'))"
  by (auto simp: bindS_def split: prod.splits sum.splits)

lemma thenS_Inr_iff [err_simps]:
  "thenS m n s = (Inr y, s') \<longleftrightarrow> (\<exists>x t. m s = (Inr x, t) \<and> n t = (Inr y, s'))"
  by (auto simp: thenS_def bindS_Inr_iff)

lemma bindS_run: "m s = (Inr x, t) \<Longrightarrow> bindS m f s = f x t"
  by (simp add: bindS_def)

lemma thenS_run: "m s = (Inr x, t) \<Longrightarrow> thenS m n s = n t"
  by (simp add: thenS_def bindS_def)

text \<open>
  A property of the object that a method keeps whether or not it raises, with the rules that
  derive it for a composed method from its parts.
\<close>

definition keeps :: "('s \<Rightarrow> bool) \<Rightarrow> ('s, 'a) proc \<Rightarrow> bool" where
  "keeps P m \<longleftrightarrow> (\<forall>s. P s \<longrightarrow> P (snd (m s)))"

named_theorems keeps_intros \<open>rules for methods that keep a property\<close>

lemma keepsI: "(\<And>s. P s \<Longrightarrow> P (snd (m s))) \<Longrightarrow> keeps P m"
  by (simp add: keeps_def)

lemma keepsD: "keeps P m \<Longrightarrow> P s \<Longrightarrow> m s = (r, s') \<Longrightarrow> P s'"
  by (metis keeps_def snd_conv)

lemma keeps_basic [keeps_intros]:
  "keeps P (retS x)" "keeps P (raiseS e)" "keeps P (getS f)" "keeps P (liftE r)" "keeps P (Pair y)"
  by (simp_all add: keeps_def)

lemma keeps_modS [keeps_intros]: "(\<And>s. P s \<Longrightarrow> P (g s)) \<Longrightarrow> keeps P (modS g)"
  by (simp add: keeps_def)

lemma keeps_bindS [keeps_intros]: "keeps P m \<Longrightarrow> (\<And>x. keeps P (f x)) \<Longrightarrow> keeps P (bindS m f)"
  by (simp add: keeps_def bindS_def split: prod.splits sum.splits) (metis snd_conv)

lemma keeps_thenS [keeps_intros]: "keeps P m \<Longrightarrow> keeps P n \<Longrightarrow> keeps P (thenS m n)"
  by (simp add: thenS_def keeps_bindS)

lemma keeps_forS [keeps_intros]: "(\<And>x. x \<in> set xs \<Longrightarrow> keeps P (f x)) \<Longrightarrow> keeps P (forS xs f)"
  by (induction xs) (auto intro: keeps_intros)

lemma keeps_ignoreS [keeps_intros]: "keeps P m \<Longrightarrow> keeps P (ignoreS m)"
  by (simp add: keeps_def)

lemma keeps_pollS [keeps_intros]: "keeps P c \<Longrightarrow> keeps P (pollS fuel c)"
  by (induction fuel) (auto intro!: keeps_intros)

lemma keeps_if [keeps_intros]: "keeps P m \<Longrightarrow> keeps P n \<Longrightarrow> keeps P (if b then m else n)"
  by simp

section \<open>Lemmas: dictionaries\<close>

text \<open>
  The contract of a dictionary, as the components that keep one rely on it: what a lookup
  returns after a store or a deletion, and which keys there are.
\<close>

locale py_dict =
  fixes get :: "'d \<Rightarrow> 'k \<Rightarrow> 'v option"
    and put :: "'k \<Rightarrow> 'v \<Rightarrow> 'd \<Rightarrow> 'd"
    and del :: "'k \<Rightarrow> 'd \<Rightarrow> 'd"
    and ok :: "'d \<Rightarrow> bool"
  assumes get_put: "ok d \<Longrightarrow> get (put k v d) = (get d)(k \<mapsto> v)"
    and get_del: "ok d \<Longrightarrow> get (del k d) = (get d)(k := None)"
    and ok_put: "ok d \<Longrightarrow> ok (put k v d)"
    and ok_del: "ok d \<Longrightarrow> ok (del k d)"
begin

lemma ok_fold_del: "ok d \<Longrightarrow> ok (fold del ks d)"
  by (induction ks arbitrary: d) (auto simp: ok_del)

lemma get_fold_del: "ok d \<Longrightarrow> get (fold del ks d) = (get d) |` (- set ks)"
proof (induction ks arbitrary: d)
  case (Cons k ks)
  then show ?case by (auto simp: ok_del get_del restrict_map_def fun_eq_iff)
qed auto

text \<open>Storing an entry and deleting others, as a fusion of entries under a new key does.\<close>

lemma get_replace:
  "ok d \<Longrightarrow> k \<notin> set ks \<Longrightarrow> get (fold del ks (put k v d)) = ((get d) |` (- set ks))(k \<mapsto> v)"
  by (auto simp: get_fold_del ok_put get_put restrict_map_def fun_eq_iff)

lemma ok_fold_put: "ok d \<Longrightarrow> ok (fold (\<lambda>x. put (f x) (g x)) xs d)"
  by (induction xs arbitrary: d) (auto simp: ok_put)

lemma get_fold_put_other:
  "ok d \<Longrightarrow> k \<notin> f ` set xs \<Longrightarrow> get (fold (\<lambda>x. put (f x) (g x)) xs d) k = get d k"
  by (induction xs arbitrary: d) (auto simp: ok_put get_put)

lemma get_fold_put:
  "ok d \<Longrightarrow> inj_on f (set xs) \<Longrightarrow> x \<in> set xs \<Longrightarrow>
     get (fold (\<lambda>x. put (f x) (g x)) xs d) (f x) = Some (g x)"
proof (induction xs arbitrary: d)
  case (Cons y xs)
  show ?case
  proof (cases "x \<in> set xs")
    case True
    with Cons show ?thesis by (auto simp: ok_put)
  next
    case False
    with Cons.prems have "x = y" and "f x \<notin> f ` set xs" by (auto dest: inj_onD)
    with Cons.prems(1) show ?thesis by (simp add: get_fold_put_other ok_put get_put)
  qed
qed auto

end

lemma restrict_map_replace2:
  "a \<notin> B \<Longrightarrow> ((m |` (- A))(a \<mapsto> x) |` (- B))(b \<mapsto> y) = (m |` (- (A \<union> B)))(a \<mapsto> x, b \<mapsto> y)"
  by (auto simp: fun_eq_iff restrict_map_def)

lemma set_keys_dict_set [dict_simps]: "set (dict_keys (dict_set k v d)) = insert k (set (dict_keys d))"
proof (induction d)
  case (Cons kv d)
  then show ?case by (cases kv) (simp add: insert_commute)
qed simp

lemma map_of_dict_set [dict_simps]: "dict_get (dict_set k v d) = (dict_get d)(k \<mapsto> v)"
  by (induction d) (auto simp: fun_eq_iff)

lemma set_dict_del_subset: "set (dict_del k d) \<subseteq> set d"
  by (induction d) (auto split: if_splits)

lemma keys_dict_del_subset: "set (dict_keys (dict_del k d)) \<subseteq> set (dict_keys d)"
  using set_dict_del_subset by fastforce

lemma dict_wf_Nil [simp]: "dict_wf []"
  by (simp add: dict_wf_def)

lemma dict_wf_set [simp]: "dict_wf d \<Longrightarrow> dict_wf (dict_set k v d)"
  by (induction d) (auto simp: dict_wf_def set_keys_dict_set simp flip: set_map)

lemma dict_wf_del [simp]: "dict_wf d \<Longrightarrow> dict_wf (dict_del k d)"
  by (induction d) (auto simp: dict_wf_def dest!: subsetD [OF set_dict_del_subset])

lemma map_of_dict_del [dict_simps]: "dict_wf d \<Longrightarrow> dict_get (dict_del k d) = (dict_get d)(k := None)"
proof (induction d)
  case (Cons kv d)
  then show ?case
    by (cases kv) (auto simp: dict_wf_def fun_eq_iff map_of_eq_None_iff)
qed auto

lemma length_dict_set:
  "length (dict_set k v d) = length d + (if k \<in> set (dict_keys d) then 0 else 1)"
proof (induction d)
  case (Cons kv d)
  then show ?case by (cases kv) (simp split: if_splits)
qed simp

lemma length_dict_del:
  "length (dict_del k d) = length d - (if k \<in> set (dict_keys d) then 1 else 0)"
proof (induction d)
  case (Cons kv d)
  then show ?case by (cases kv; cases d) (auto split: if_splits)
qed simp

interpretation pd: py_dict map_of dict_set dict_del dict_wf
  by unfold_locales (simp_all add: dict_simps)

section \<open>Lemmas: lists of objects\<close>

text \<open>Reading an object store after an update, in and out of range.\<close>

lemma nth_update_if: "(xs[i := y]) ! j = (if j = i \<and> i < length xs then y else xs ! j)"
  by (cases "i < length xs") (auto simp: list_update_beyond)

lemma sum_list_map_update:
  fixes h :: "'a \<Rightarrow> 'b :: comm_monoid_add"
  assumes "k < length xs"
  shows "sum_list (map h (xs[k := y])) + h (xs ! k) = sum_list (map h xs) + h y"
  using assms
proof (induction xs arbitrary: k)
  case (Cons x xs)
  then show ?case by (cases k) (simp_all add: add.commute add.left_commute)
qed simp

section \<open>Lemmas: slices and strings\<close>

lemma length_py_slice: "length (py_slice s e xs) = min (e - s) (length xs - s)"
  by (simp add: py_slice_def)

lemma py_slice_append: "s \<le> m \<Longrightarrow> m \<le> e \<Longrightarrow> py_slice s m xs @ py_slice m e xs = py_slice s e xs"
proof -
  assume "s \<le> m" "m \<le> e"
  then have "e - s = (m - s) + (e - m)" and "drop m xs = drop (m - s) (drop s xs)" by simp_all
  then show ?thesis by (simp add: py_slice_def take_add)
qed

lemma py_slice_full: "length xs \<le> e \<Longrightarrow> py_slice 0 e xs = xs"
  by (simp add: py_slice_def)

lemma starts_with_iff [str_simps]: "starts_with s p \<longleftrightarrow> (\<exists>t. s = p @ t)"
  by (induction s p rule: starts_with.induct) auto

lemma ends_with_iff [str_simps]: "ends_with s p \<longleftrightarrow> (\<exists>t. s = t @ p)"
  by (auto simp: ends_with_def starts_with_iff) (metis rev_append rev_rev_ident)

lemma split_on_not_Nil [simp]: "split_on c s \<noteq> []"
  by (induction s) (auto split: list.splits)

lemma split_on_no_sep [str_simps]: "c \<notin> set s \<Longrightarrow> split_on c s = [s]"
  by (induction s) auto

lemma split_on_append [str_simps]:
  "c \<notin> set s \<Longrightarrow> split_on c (s @ c # t) = s # split_on c t"
  by (induction s) (auto split: list.splits)

lemma is_digit_digit_char [simp]: "d < 10 \<Longrightarrow> is_digit (digit_char d)"
  by (simp add: is_digit_def digit_char_def)

lemma digit_val_digit_char [simp]: "d < 10 \<Longrightarrow> digit_val (digit_char d) = d"
  by (simp add: digit_val_def digit_char_def)

lemma str_nat_digits: "c \<in> set (str_nat n) \<Longrightarrow> is_digit c"
proof (induction n rule: str_nat.induct)
  case (1 n)
  then show ?case
    by (subst (asm) (2) str_nat.simps) (auto split: if_splits)
qed

lemma str_nat_not_Nil [simp]: "str_nat n \<noteq> []"
  by (subst str_nat.simps) auto

lemma parse_digits_append:
  "\<forall>c \<in> set s. is_digit c \<Longrightarrow> s \<noteq> [] \<Longrightarrow>
     parse_digits acc prev (s @ t) = parse_digits (the (parse_digits acc prev s)) True t"
proof (induction s arbitrary: acc prev)
  case (Cons c s)
  show ?case
  proof (cases "s = []")
    case False
    with Cons.IH [of "10 * acc + digit_val c" True] Cons.prems show ?thesis by simp
  qed (use Cons.prems in simp)
qed simp

lemma parse_digits_str_nat: "parse_digits 0 prev (str_nat n) = Some n"
proof (induction n arbitrary: prev rule: str_nat.induct)
  case (1 n)
  show ?case
  proof (cases "n < 10")
    case True
    then show ?thesis by (simp add: str_nat.simps [of n])
  next
    case False
    have "parse_digits 0 prev (str_nat (n div 10) @ [digit_char (n mod 10)]) =
        parse_digits (the (parse_digits 0 prev (str_nat (n div 10)))) True [digit_char (n mod 10)]"
      by (rule parse_digits_append) (auto dest: str_nat_digits)
    also have "\<dots> = Some n" using 1 [OF False] by simp
    finally show ?thesis using False by (simp add: str_nat.simps [of n])
  qed
qed

lemma is_digit_not_space: "is_digit c \<Longrightarrow> \<not> is_space c"
  by (auto simp: is_digit_def is_space_def)

lemma is_digit_neq: "is_digit c \<Longrightarrow> c \<noteq> CHR ''-'' \<and> c \<noteq> CHR ''+'' \<and> c \<noteq> CHR ''.'' \<and> c \<noteq> CHR ''/'' \<and> c \<noteq> CHR '':''"
  by (auto simp: is_digit_def)

lemma str_nat_no_sep [str_simps]:
  "CHR ''.'' \<notin> set (str_nat n)" "CHR ''/'' \<notin> set (str_nat n)"
  using str_nat_digits is_digit_neq by blast+

lemma strip_str_nat: "str_strip (str_nat n) = str_nat n"
proof -
  have *: "dropWhile is_space s = s" if "\<forall>c \<in> set s. is_digit c" for s
    using that by (cases s) (auto dest: is_digit_not_space)
  have "\<forall>c \<in> set (str_nat n). is_digit c" by (auto dest: str_nat_digits)
  then show ?thesis by (simp add: str_strip_def *)
qed

lemma py_int_str_nat [str_simps]: "py_int (str_nat n) = Inr (int n)"
proof -
  obtain c cs where s: "str_nat n = c # cs" by (cases "str_nat n") auto
  then have "c \<noteq> CHR ''-''" "c \<noteq> CHR ''+''" using str_nat_digits [of c n] is_digit_neq by auto
  moreover have "parse_digits 0 False (c # cs) = Some n"
    using parse_digits_str_nat [of False n] s by simp
  ultimately show ?thesis using s strip_str_nat [of n] by (simp add: py_int_def del: parse_digits.simps)
qed

lemma str_nat_inject [simp]: "str_nat m = str_nat n \<longleftrightarrow> m = n"
  by (metis option.inject parse_digits_str_nat)

lemma str_int_of_nat [simp]: "str_int (int n) = str_nat n"
  by (simp add: str_int_def)

lemma str_int_not_Nil [simp]: "str_int i \<noteq> []"
  by (simp add: str_int_def)

lemma prefix_split:
  "c \<notin> set s \<Longrightarrow> c \<notin> set s' \<Longrightarrow> s @ c # t = s' @ c # t' \<longleftrightarrow> s = s' \<and> t = t'"
proof (induction s arbitrary: s')
  case Nil
  then show ?case by (cases s') auto
next
  case (Cons x s)
  then show ?case by (cases s') auto
qed

section \<open>Lemmas: tilings\<close>

lemma tiles_le: "tiles rs a b \<Longrightarrow> a \<le> b"
  by (induction rs a b rule: tiles.induct) auto

lemma tiles_bounds: "tiles rs a b \<Longrightarrow> (s, e) \<in> set rs \<Longrightarrow> a \<le> s \<and> s \<le> e \<and> e \<le> b"
  by (induction rs a b rule: tiles.induct) (auto dest: tiles_le)

lemma tiles_append: "tiles (rs @ qs) a b \<longleftrightarrow> (\<exists>m. tiles rs a m \<and> tiles qs m b)"
  by (induction rs a b rule: tiles.induct) (auto dest: tiles_le)

text \<open>Every point of the interval is in exactly one of the ranges.\<close>

lemma tiles_unique:
  assumes "tiles rs a b" and "a \<le> k" and "k < b"
  shows "\<exists>!i. i < length rs \<and> fst (rs ! i) \<le> k \<and> k < snd (rs ! i)"
  using assms
proof (induction rs a b rule: tiles.induct)
  case (2 s e rs a b)
  then have t: "tiles rs e b" and s: "s = a" and "s \<le> e" by auto
  show ?case
  proof (cases "k < e")
    case True
    have "fst (rs ! j) \<le> k \<Longrightarrow> False" if "j < length rs" for j
      using tiles_bounds [OF t, of "fst (rs ! j)" "snd (rs ! j)"] that True
      by (metis leD nth_mem order_trans prod.collapse)
    then have "i = 0" if "i < length ((s, e) # rs)" "fst (((s, e) # rs) ! i) \<le> k" for i
      using that by (cases i) auto
    with True s 2(3) show ?thesis by (intro ex1I [of _ 0]) auto
  next
    case False
    then have "e \<le> k" by simp
    from "2.IH" [OF t this "2.prems"(3)] obtain i
      where i: "i < length rs" "fst (rs ! i) \<le> k" "k < snd (rs ! i)"
        and u: "\<And>j. j < length rs \<Longrightarrow> fst (rs ! j) \<le> k \<Longrightarrow> k < snd (rs ! j) \<Longrightarrow> j = i"
      by (elim ex1E) blast
    show ?thesis
    proof (intro ex1I [of _ "Suc i"] conjI)
      fix j
      assume "j < length ((s, e) # rs) \<and> fst (((s, e) # rs) ! j) \<le> k \<and> k < snd (((s, e) # rs) ! j)"
      with False u show "j = Suc i" by (cases j) auto
    qed (use i in auto)
  qed
qed auto

end
