(* ===== verification/TensorFormat.thy ===== *)
theory TensorFormat
  imports Prelude
begin

text \<open>
  The raw binary tensor format (TRAW) of the Shared Tensor Store: the writer
  \<open>save_tensor_raw\<close> of \<^verbatim>\<open>TensorStore/raw_s3_model_uploader.py\<close> and the reader
  \<open>load_tensor_raw\<close> of \<^verbatim>\<open>TensorStore/raw_s3_tensor_store_server.py\<close>. A tensor is its
  shape, element type, device and its elements in row-major order, each element being the bytes
  it has in memory; \<open>contiguous()\<close> and the \<open>uint8\<close> view keep that content, so they have no
  counterpart beyond the order of the bytes. \<open>struct\<close> runs on a little-endian host, as the
  format's description says.

  The lemmas show that reading inverts writing, that whatever the reader accepts is an encoding
  of a well-formed tensor followed by bytes it ignores, and that no proper prefix of a file is
  accepted.
\<close>

section \<open>Tensors\<close>

datatype dtype = Float16 | BFloat16 | Float32 | Float64 | Int8 | Int16 | Int32 | Int64

datatype device = Cpu | Cuda nat

fun element_size :: "dtype \<Rightarrow> nat" where
  "element_size Float16 = 2"
| "element_size BFloat16 = 2"
| "element_size Float32 = 4"
| "element_size Float64 = 8"
| "element_size Int8 = 1"
| "element_size Int16 = 2"
| "element_size Int32 = 4"
| "element_size Int64 = 8"

record tensor =
  tshape :: "nat list"
  tdtype :: dtype
  tdevice :: device
  telems :: "byte list list"

definition numel :: "tensor \<Rightarrow> nat" where
  "numel t = prod_list (tshape t)"

definition tensor_wf :: "tensor \<Rightarrow> bool" where
  "tensor_wf t \<longleftrightarrow>
     length (telems t) = numel t \<and> (\<forall>b \<in> set (telems t). length b = element_size (tdtype t))"

section \<open>Packed integers\<close>

fun le_bytes :: "nat \<Rightarrow> nat \<Rightarrow> byte list" where
  "le_bytes 0 n = []"
| "le_bytes (Suc w) n = of_nat (n mod 256) # le_bytes w (n div 256)"

fun le_nat :: "byte list \<Rightarrow> nat" where
  "le_nat [] = 0"
| "le_nat (b # bs) = unat b + 256 * le_nat bs"

text \<open>\<open>struct.pack\<close> and \<open>struct.unpack\<close> of one unsigned integer of \<open>w\<close> bytes.\<close>

definition pack_uint :: "nat \<Rightarrow> nat \<Rightarrow> byte list py" where
  "pack_uint w n = (if n < 256 ^ w then Inr (le_bytes w n) else Inl StructError)"

definition unpack_uint :: "nat \<Rightarrow> byte list \<Rightarrow> nat py" where
  "unpack_uint w bs = (if length bs = w then Inr (le_nat bs) else Inl StructError)"

definition read_uint :: "nat \<Rightarrow> nat \<Rightarrow> byte list \<Rightarrow> nat py" where
  "read_uint w off bs = unpack_uint w (py_slice off (off + w) bs)"

section \<open>Writer and reader\<close>

definition traw_magic :: "byte list" where
  "traw_magic = [0x54, 0x52, 0x41, 0x57]"

fun dtype_code :: "dtype \<Rightarrow> nat option" where
  "dtype_code Float16 = Some 1"
| "dtype_code BFloat16 = Some 2"
| "dtype_code Float32 = Some 3"
| "dtype_code Float64 = Some 4"
| "dtype_code _ = None"

definition dtype_of_code :: "nat \<Rightarrow> dtype option" where
  "dtype_of_code c =
     (if c = 1 then Some Float16 else if c = 2 then Some BFloat16
      else if c = 3 then Some Float32 else if c = 4 then Some Float64 else None)"

text \<open>
  \<open>save_tensor_raw\<close> returns the bytes of the file it writes and the size it returns. A tensor
  of no dimensions cannot be viewed as \<open>uint8\<close>.
\<close>

definition save_tensor_raw :: "tensor \<Rightarrow> (byte list \<times> nat) py" where
  "save_tensor_raw t =
     bindE (assertE (tdevice t = Cpu) AssertionError) (\<lambda>_.
     let expected_bytes = numel t * element_size (tdtype t) in
     case dtype_code (tdtype t) of None \<Rightarrow> Inl ValueError
     | Some code \<Rightarrow>
         bindE (pack_uint 4 1) (\<lambda>version.
         bindE (pack_uint 4 (length (tshape t))) (\<lambda>ndim.
         bindE (mapE (pack_uint 8) (tshape t)) (\<lambda>dims.
         bindE (pack_uint 4 code) (\<lambda>codeb.
         bindE (pack_uint 8 expected_bytes) (\<lambda>sizeb.
         bindE (assertE (tshape t \<noteq> []) RuntimeError) (\<lambda>_.
         let data_bytes = concat (telems t) in
         bindE (assertE (length data_bytes = expected_bytes) ValueError) (\<lambda>_.
         let file = traw_magic @ version @ ndim @ concat dims @ codeb @ sizeb @ data_bytes;
             header_size = 4 + 4 + 4 + 8 * length (tshape t) + 4 + 8 in
         bindE (assertE (length file = header_size + expected_bytes) ValueError) (\<lambda>_.
         Inr (file, length file))))))))))"

text \<open>One iteration of the shape loop: the offset and the dimensions read so far.\<close>

definition read_dim :: "byte list \<Rightarrow> nat \<times> nat list \<Rightarrow> nat \<Rightarrow> (nat \<times> nat list) py" where
  "read_dim bs st i =
     (case st of (off, shape) \<Rightarrow>
        bindE (read_uint 8 off bs) (\<lambda>dim_size.
        bindE (assertE (dim_size \<noteq> 0) ValueError) (\<lambda>_.
        Inr (off + 8, shape @ [dim_size]))))"

definition chunks :: "nat \<Rightarrow> nat \<Rightarrow> 'a list \<Rightarrow> 'a list list" where
  "chunks w n xs = map (\<lambda>i. py_slice (i * w) (i * w + w) xs) [0..<n]"

definition load_tensor_raw :: "byte list \<Rightarrow> tensor py" where
  "load_tensor_raw bs =
     bindE (assertE (py_slice 0 4 bs = traw_magic) ValueError) (\<lambda>_.
     bindE (read_uint 4 4 bs) (\<lambda>version.
     bindE (assertE (version = 1) ValueError) (\<lambda>_.
     bindE (read_uint 4 8 bs) (\<lambda>ndim.
     bindE (assertE (\<not> (ndim = 0 \<or> ndim > 10)) ValueError) (\<lambda>_.
     bindE (foldE (read_dim bs) (12, []) [0..<ndim]) (\<lambda>(off, shape).
     bindE (read_uint 4 off bs) (\<lambda>code.
     case dtype_of_code code of None \<Rightarrow> Inl ValueError
     | Some dtype \<Rightarrow>
         bindE (read_uint 8 (off + 4) bs) (\<lambda>expected_data_size.
         let num_elements = fold (\<lambda>dim n. n * dim) shape 1;
             calculated_data_size = num_elements * element_size dtype in
         bindE (assertE (expected_data_size = calculated_data_size) ValueError) (\<lambda>_.
         let tensor_data = py_slice (off + 12) (off + 12 + expected_data_size) bs in
         bindE (assertE (length tensor_data = expected_data_size) ValueError) (\<lambda>_.
         Inr \<lparr>tshape = shape, tdtype = dtype, tdevice = Cpu,
              telems = chunks (element_size dtype) num_elements tensor_data\<rparr>))))))))))"

text \<open>The layout of a file, as the format's table gives it.\<close>

definition traw_header :: "nat list \<Rightarrow> nat \<Rightarrow> nat \<Rightarrow> byte list" where
  "traw_header shape code sz =
     traw_magic @ le_bytes 4 1 @ le_bytes 4 (length shape) @ concat (map (le_bytes 8) shape) @
     le_bytes 4 code @ le_bytes 8 sz"

section \<open>Lemmas\<close>

lemma length_le_bytes [simp]: "length (le_bytes w n) = w"
  by (induction w arbitrary: n) auto

lemma le_nat_le_bytes [simp]: "n < 256 ^ w \<Longrightarrow> le_nat (le_bytes w n) = n"
proof (induction w arbitrary: n)
  case (Suc w)
  then have "n div 256 < 256 ^ w" by (simp add: less_mult_imp_div_less mult.commute)
  moreover have "unat (of_nat (n mod 256) :: byte) = n mod 256"
    by (simp add: unat_of_nat)
  ultimately show ?case using Suc.IH by simp
qed simp

lemma unat_byte_less: "unat (b :: byte) < 256"
  by (rule order.strict_trans2 [OF unsigned_less]) simp

lemma le_nat_bound: "le_nat bs < 256 ^ length bs"
proof (induction bs)
  case (Cons b bs)
  with unat_byte_less [of b] show ?case by simp
qed simp

lemma le_bytes_le_nat [simp]: "le_bytes (length bs) (le_nat bs) = bs"
proof (induction bs)
  case (Cons b bs)
  note b = unat_byte_less [of b]
  then have "(of_nat ((unat b + 256 * le_nat bs) mod 256) :: byte) = b" by simp
  moreover have "(unat b + 256 * le_nat bs) div 256 = le_nat bs" using b by simp
  ultimately show ?case using Cons by simp
qed simp

lemma py_slice_append_mid:
  "length pre = s \<Longrightarrow> length mid = e - s \<Longrightarrow> py_slice s e (pre @ mid @ post) = mid"
  by (simp add: py_slice_def)

lemma read_uint_append [simp]:
  "length pre = off \<Longrightarrow> n < 256 ^ w \<Longrightarrow> read_uint w off (pre @ le_bytes w n @ post) = Inr n"
  by (simp add: read_uint_def unpack_uint_def py_slice_append_mid)

text \<open>What a successful read says of the bytes: they are the encoding of what was read.\<close>

lemma read_uint_Inr:
  assumes "read_uint w off bs = Inr n" and "0 < w"
  shows "take (off + w) bs = take off bs @ le_bytes w n" and "off + w \<le> length bs" and "n < 256 ^ w"
proof -
  let ?s = "py_slice off (off + w) bs"
  from assms have l: "length ?s = w" and n: "n = le_nat ?s"
    by (auto simp: read_uint_def unpack_uint_def split: if_splits)
  have "le_bytes w n = ?s" using le_bytes_le_nat [of ?s] l n by simp
  then show "take (off + w) bs = take off bs @ le_bytes w n"
    by (simp add: py_slice_def take_add)
  show "off + w \<le> length bs" using l assms(2) by (auto simp: length_py_slice)
  show "n < 256 ^ w" using le_nat_bound [of ?s] l n by simp
qed

lemma length_concat_le_bytes [simp]: "length (concat (map (le_bytes w) ns)) = w * length ns"
  by (induction ns) auto

lemma length_traw_header: "length (traw_header shape code sz) = 24 + 8 * length shape"
  by (simp add: traw_header_def traw_magic_def)

lemma fold_times_prod_list: "fold (\<lambda>dim n. n * dim) xs (a::nat) = a * prod_list xs"
  by (induction xs arbitrary: a) (auto simp: algebra_simps)

lemma dtype_of_dtype_code: "dtype_code d = Some c \<longleftrightarrow> dtype_of_code c = Some d"
  by (cases d) (auto simp: dtype_of_code_def split: if_splits)

lemma dtype_code_bound: "dtype_code d = Some c \<Longrightarrow> c < 256 ^ 4"
  by (cases d) auto

lemma element_size_pos [simp]: "0 < element_size d"
  by (cases d) auto

lemma length_concat_const: "\<forall>b \<in> set xs. length b = w \<Longrightarrow> length (concat xs) = length xs * w"
  by (induction xs) auto

lemma chunks_concat:
  assumes "\<forall>b \<in> set xs. length b = w" and "n = length xs"
  shows "chunks w n (concat xs) = xs"
  using assms
proof (induction xs arbitrary: n)
  case (Cons x xs)
  have "chunks w (Suc (length xs)) (x @ concat xs) =
      py_slice 0 w (x @ concat xs) # chunks w (length xs) (concat xs)"
    using Cons.prems(1)
    by (simp add: chunks_def upt_conv_Cons py_slice_def map_Suc_upt [symmetric] del: upt_Suc)
  with Cons show ?case by (simp add: py_slice_def)
qed (simp add: chunks_def)

lemma chunks_elems: "length xs = n * w \<Longrightarrow> b \<in> set (chunks w n xs) \<Longrightarrow> length b = w"
proof -
  assume l: "length xs = n * w" and "b \<in> set (chunks w n xs)"
  then obtain i where i: "i < n" "b = py_slice (i * w) (i * w + w) xs" by (auto simp: chunks_def)
  then have "i * w + w \<le> n * w" by (metis Suc_leI add.commute mult_Suc mult_le_mono1)
  with i l show ?thesis by (simp add: length_py_slice)
qed

lemma concat_chunks: "length xs = n * w \<Longrightarrow> concat (chunks w n xs) = xs"
proof (induction n arbitrary: xs)
  case (Suc n)
  let ?ys = "take (n * w) xs"
  have "chunks w n xs = chunks w n ?ys"
  proof -
    have "py_slice (i * w) (i * w + w) xs = py_slice (i * w) (i * w + w) ?ys" if "i < n" for i
    proof -
      from that have "i * w + w \<le> n * w" by (metis Suc_leI add.commute mult_Suc mult_le_mono1)
      then show ?thesis by (simp add: py_slice_def drop_take min_def) 
    qed
    then show ?thesis by (simp add: chunks_def)
  qed
  moreover have "concat (chunks w n ?ys) = ?ys" using Suc by simp
  moreover have "py_slice (n * w) (n * w + w) xs = drop (n * w) xs"
    using Suc.prems by (simp add: py_slice_def)
  moreover have "chunks w (Suc n) xs = chunks w n xs @ [py_slice (n * w) (n * w + w) xs]"
    by (simp add: chunks_def)
  ultimately show ?case by simp
qed (simp add: chunks_def)

text \<open>The shape loop reads back the dimensions that were written.\<close>

lemma read_dims_write:
  assumes "\<forall>d \<in> set dims. 0 < d \<and> d < 256 ^ 8" and "length is = length dims"
  shows "foldE (read_dim (pre @ concat (map (le_bytes 8) dims) @ post)) (length pre, acc) is =
     Inr (length pre + 8 * length dims, acc @ dims)"
  using assms
proof (induction dims arbitrary: pre acc "is")
  case (Cons d dims)
  then obtain i is' where [simp]: "is = i # is'" and l: "length is' = length dims"
    by (cases "is") auto
  have "read_uint 8 (length pre) (pre @ le_bytes 8 d @ concat (map (le_bytes 8) dims) @ post) = Inr d"
    using Cons.prems(1) by (intro read_uint_append) auto
  then have "read_dim (pre @ concat (map (le_bytes 8) (d # dims)) @ post) (length pre, acc) i =
      Inr (length pre + 8, acc @ [d])"
    using Cons.prems(1) by (simp add: read_dim_def)
  moreover have "foldE (read_dim ((pre @ le_bytes 8 d) @ concat (map (le_bytes 8) dims) @ post))
      (length (pre @ le_bytes 8 d), acc @ [d]) is' =
      Inr (length (pre @ le_bytes 8 d) + 8 * length dims, (acc @ [d]) @ dims)"
    using Cons.prems(1) l by (intro Cons.IH) auto
  ultimately show ?case by simp
qed simp

text \<open>And whatever it reads is what the bytes encode.\<close>

lemma read_dim_Inr_iff:
  "read_dim bs (off, sh) i = Inr st \<longleftrightarrow>
     (\<exists>d. read_uint 8 off bs = Inr d \<and> d \<noteq> 0 \<and> st = (off + 8, sh @ [d]))"
  by (auto simp: read_dim_def err_simps)

lemma read_dims_Inr:
  assumes "foldE (read_dim bs) (off, acc) is = Inr (off', shape)" and "off \<le> length bs"
  shows "\<exists>dims. shape = acc @ dims \<and> length dims = length is \<and> off' = off + 8 * length is \<and>
     off' \<le> length bs \<and> (\<forall>d \<in> set dims. 0 < d \<and> d < 256 ^ 8) \<and>
     take off' bs = take off bs @ concat (map (le_bytes 8) dims)"
  using assms
proof (induction "is" arbitrary: off acc)
  case (Cons i "is")
  from Cons.prems(1) obtain d where d: "read_uint 8 off bs = Inr d" "d \<noteq> 0"
    and rest: "foldE (read_dim bs) (off + 8, acc @ [d]) is = Inr (off', shape)"
    by (auto simp: read_dim_Inr_iff bindE_Inr_iff)
  note r = read_uint_Inr [OF d(1)]
  from Cons.IH [OF rest] r(2) obtain dims where "shape = (acc @ [d]) @ dims"
    "length dims = length is" "off' = off + 8 + 8 * length is" "off' \<le> length bs"
    "\<forall>d \<in> set dims. 0 < d \<and> d < 256 ^ 8"
    "take off' bs = take (off + 8) bs @ concat (map (le_bytes 8) dims)" by auto
  with d(2) r show ?case by (intro exI [of _ "d # dims"]) auto
qed auto

text \<open>What the writer puts in the file, when it succeeds.\<close>

lemma save_tensor_raw_Inr:
  assumes "save_tensor_raw t = Inr (file, n)"
  obtains code where "dtype_code (tdtype t) = Some code"
    and "file = traw_header (tshape t) code (numel t * element_size (tdtype t)) @ concat (telems t)"
    and "tdevice t = Cpu" and "tshape t \<noteq> []" and "n = length file"
    and "\<forall>d \<in> set (tshape t). d < 256 ^ 8" and "length (tshape t) < 256 ^ 4"
    and "numel t * element_size (tdtype t) < 256 ^ 8"
proof -
  from assms obtain code dims where
      c: "dtype_code (tdtype t) = Some code" and cpu: "tdevice t = Cpu" and ne: "tshape t \<noteq> []"
    and dims: "mapE (pack_uint 8) (tshape t) = Inr dims"
    and nd: "pack_uint 4 (length (tshape t)) = Inr (le_bytes 4 (length (tshape t)))"
    and sz: "pack_uint 8 (numel t * element_size (tdtype t)) =
       Inr (le_bytes 8 (numel t * element_size (tdtype t)))"
    and fl: "file = traw_magic @ le_bytes 4 1 @ le_bytes 4 (length (tshape t)) @ concat dims @
       le_bytes 4 code @ le_bytes 8 (numel t * element_size (tdtype t)) @ concat (telems t)"
    and n: "n = length file"
    by (auto simp: save_tensor_raw_def Let_def bindE_Inr_iff assertE_Inr_iff pack_uint_def
        split: option.splits if_splits)
  from dims have "dims = map (le_bytes 8) (tshape t) \<and> (\<forall>d \<in> set (tshape t). d < 256 ^ 8)"
    by (auto simp: mapE_Inr_iff pack_uint_def list_all2_conv_all_nth in_set_conv_nth
        intro!: nth_equalityI split: if_splits)
  with fl have "file = traw_header (tshape t) code (numel t * element_size (tdtype t)) @
      concat (telems t)" and "\<forall>d \<in> set (tshape t). d < 256 ^ 8"
    by (simp_all add: traw_header_def)
  with c cpu ne n nd sz show thesis
    by (intro that) (auto simp: pack_uint_def split: if_splits)
qed

text \<open>The reader on a header followed by enough data, with anything after it.\<close>

lemma load_header:
  assumes "length shape \<le> 10" and "shape \<noteq> []" and "\<forall>d \<in> set shape. 0 < d \<and> d < 256 ^ 8"
    and "dtype_code dt = Some code" and "sz = prod_list shape * element_size dt" and "sz < 256 ^ 8"
    and "length data = sz"
  shows "load_tensor_raw (traw_header shape code sz @ data @ rest) =
     Inr \<lparr>tshape = shape, tdtype = dt, tdevice = Cpu,
          telems = chunks (element_size dt) (prod_list shape) data\<rparr>"
proof -
  let ?dims = "concat (map (le_bytes 8) shape)"
  let ?bs = "traw_header shape code sz @ data @ rest"
  have bs: "?bs = traw_magic @ le_bytes 4 1 @ le_bytes 4 (length shape) @ ?dims @
      le_bytes 4 code @ le_bytes 8 sz @ data @ rest"
    by (simp add: traw_header_def)
  have magic: "py_slice 0 4 ?bs = traw_magic"
    unfolding bs by (simp add: py_slice_def traw_magic_def)
  have version: "read_uint 4 4 ?bs = Inr 1"
    unfolding bs by (rule read_uint_append) (simp_all add: traw_magic_def)
  have nd: "read_uint 4 8 ?bs = Inr (length shape)"
    using read_uint_append [of "traw_magic @ le_bytes 4 1" 8 "length shape" 4] assms(1)
    by (simp add: bs traw_magic_def)
  have "foldE (read_dim ((traw_magic @ le_bytes 4 1 @ le_bytes 4 (length shape)) @ ?dims @
        le_bytes 4 code @ le_bytes 8 sz @ data @ rest))
      (length (traw_magic @ le_bytes 4 1 @ le_bytes 4 (length shape)), []) [0..<length shape] =
      Inr (length (traw_magic @ le_bytes 4 1 @ le_bytes 4 (length shape)) + 8 * length shape, [] @ shape)"
    using assms(3) by (intro read_dims_write) auto
  then have dims: "foldE (read_dim ?bs) (12, []) [0..<length shape] = Inr (12 + 8 * length shape, shape)"
    by (simp add: bs traw_magic_def)
  have cd: "read_uint 4 (12 + 8 * length shape) ?bs = Inr code"
    using read_uint_append [of "traw_magic @ le_bytes 4 1 @ le_bytes 4 (length shape) @ ?dims"
        "12 + 8 * length shape" code 4] dtype_code_bound [OF assms(4)]
    by (simp add: bs traw_magic_def)
  have sz: "read_uint 8 (16 + 8 * length shape) ?bs = Inr sz"
    using read_uint_append [of "traw_magic @ le_bytes 4 1 @ le_bytes 4 (length shape) @ ?dims @ le_bytes 4 code"
        "16 + 8 * length shape" sz 8] assms(6)
    by (simp add: bs traw_magic_def)
  have data: "py_slice (24 + 8 * length shape) (24 + 8 * length shape + sz) ?bs = data"
    by (rule py_slice_append_mid) (simp_all add: length_traw_header assms(7))
  show ?thesis
    using assms magic version nd dims cd sz data
    by (simp add: load_tensor_raw_def fold_times_prod_list dtype_of_dtype_code add.commute)
qed

lemma load_save_trailing:
  assumes "save_tensor_raw t = Inr (file, n)" and "tensor_wf t"
    and "length (tshape t) \<le> 10" and "0 \<notin> set (tshape t)"
  shows "load_tensor_raw (file @ rest) = Inr t"
proof -
  obtain code where s: "dtype_code (tdtype t) = Some code"
    "file = traw_header (tshape t) code (numel t * element_size (tdtype t)) @ concat (telems t)"
    "tdevice t = Cpu" "tshape t \<noteq> []" "\<forall>d \<in> set (tshape t). d < 256 ^ 8"
    "numel t * element_size (tdtype t) < 256 ^ 8"
    using save_tensor_raw_Inr [OF assms(1)] by metis
  have len: "length (concat (telems t)) = numel t * element_size (tdtype t)"
    using length_concat_const [of "telems t" "element_size (tdtype t)"] assms(2)
    by (auto simp: tensor_wf_def)
  have "load_tensor_raw (file @ rest) = Inr \<lparr>tshape = tshape t, tdtype = tdtype t, tdevice = Cpu,
      telems = chunks (element_size (tdtype t)) (prod_list (tshape t)) (concat (telems t))\<rparr>"
    unfolding s(2) append.assoc
    using assms s len by (intro load_header) (auto simp: numel_def intro: Nat.gr0I)
  also have "chunks (element_size (tdtype t)) (prod_list (tshape t)) (concat (telems t)) = telems t"
    using assms(2) by (intro chunks_concat) (auto simp: tensor_wf_def numel_def)
  finally show ?thesis using s(3) by simp
qed

lemma load_tensor_raw_parse:
  assumes "load_tensor_raw bs = Inr t"
  obtains off shape code dt sz where "py_slice 0 4 bs = traw_magic" and "read_uint 4 4 bs = Inr 1"
    and "read_uint 4 8 bs = Inr (length shape)" and "shape \<noteq> []" and "length shape \<le> 10"
    and "foldE (read_dim bs) (12, []) [0..<length shape] = Inr (off, shape)"
    and "read_uint 4 off bs = Inr code" and "dtype_of_code code = Some dt"
    and "read_uint 8 (off + 4) bs = Inr sz" and "sz = prod_list shape * element_size dt"
    and "length (py_slice (off + 12) (off + 12 + sz) bs) = sz"
    and "t = \<lparr>tshape = shape, tdtype = dt, tdevice = Cpu,
       telems = chunks (element_size dt) (prod_list shape) (py_slice (off + 12) (off + 12 + sz) bs)\<rparr>"
proof -
  from assms obtain nd off shape code dt sz where
      nd: "py_slice 0 4 bs = traw_magic" "read_uint 4 4 bs = Inr 1"
       "read_uint 4 8 bs = Inr nd" "nd \<noteq> 0" "nd \<le> 10"
       "foldE (read_dim bs) (12, []) [0..<nd] = Inr (off, shape)"
    and r: "read_uint 4 off bs = Inr code" "dtype_of_code code = Some dt"
      "read_uint 8 (off + 4) bs = Inr sz" "sz = prod_list shape * element_size dt"
      "length (py_slice (off + 12) (off + 12 + sz) bs) = sz"
      "t = \<lparr>tshape = shape, tdtype = dt, tdevice = Cpu,
         telems = chunks (element_size dt) (prod_list shape) (py_slice (off + 12) (off + 12 + sz) bs)\<rparr>"
    by (auto simp: load_tensor_raw_def Let_def bindE_Inr_iff assertE_Inr_iff fold_times_prod_list
        split: option.splits)
  have "length shape = nd"
    using read_dims_Inr [OF nd(6)] read_uint_Inr(2) [OF nd(3)] by auto
  with nd r show thesis by (intro that [of shape off code dt sz]) auto
qed

lemma load_tensor_raw_Inr:
  assumes "load_tensor_raw bs = Inr t"
  obtains fl rest where "bs = fl @ rest" and "save_tensor_raw t = Inr (fl, length fl)"
    and "tensor_wf t" and "tshape t \<noteq> []" and "length (tshape t) \<le> 10" and "0 \<notin> set (tshape t)"
proof -
  obtain off shape code dt sz where
      magic: "py_slice 0 4 bs = traw_magic" and v: "read_uint 4 4 bs = Inr 1"
    and nd: "read_uint 4 8 bs = Inr (length shape)" "shape \<noteq> []" "length shape \<le> 10"
    and dims: "foldE (read_dim bs) (12, []) [0..<length shape] = Inr (off, shape)"
    and cd: "read_uint 4 off bs = Inr code" "dtype_of_code code = Some dt"
    and sz: "read_uint 8 (off + 4) bs = Inr sz" "sz = prod_list shape * element_size dt"
    and data: "length (py_slice (off + 12) (off + 12 + sz) bs) = sz"
    and t: "t = \<lparr>tshape = shape, tdtype = dt, tdevice = Cpu,
       telems = chunks (element_size dt) (prod_list shape) (py_slice (off + 12) (off + 12 + sz) bs)\<rparr>"
    using load_tensor_raw_parse [OF assms] by metis
  let ?d = "py_slice (off + 12) (off + 12 + sz) bs"
  define n where "n = off + 12 + sz"
  have shape: "\<forall>d \<in> set shape. 0 < d \<and> d < 256 ^ 8"
    and off: "take off bs = take 12 bs @ concat (map (le_bytes 8) shape)"
    using read_dims_Inr [OF dims] read_uint_Inr(2) [OF nd(1)] by auto
  have t4: "take 4 bs = traw_magic" using magic by (simp add: py_slice_def)
  have t8: "take 8 bs = take 4 bs @ le_bytes 4 1" using read_uint_Inr(1) [OF v] by simp
  have t12: "take 12 bs = take 8 bs @ le_bytes 4 (length shape)"
    using read_uint_Inr(1) [OF nd(1)] by simp
  have c: "take (off + 4) bs = take off bs @ le_bytes 4 code"
    using read_uint_Inr(1) [OF cd(1)] by simp
  have "take (off + 12) bs = take (off + 4) bs @ le_bytes 8 sz"
    using read_uint_Inr(1) [OF sz(1)] by (simp add: add.commute)
  then have header: "take (off + 12) bs = traw_header shape code sz"
    by (simp only: c off t12 t8 t4 traw_header_def append.assoc)
  have fl: "take n bs = traw_header shape code sz @ ?d"
    using header by (simp add: n_def py_slice_def take_add)
  have ld: "length ?d = prod_list shape * element_size dt" using data sz(2) by simp
  have te: "telems t = chunks (element_size dt) (prod_list shape) ?d" by (simp add: t)
  have el: "concat (telems t) = ?d" unfolding te using ld by (rule concat_chunks)
  have "\<forall>b \<in> set (telems t). length b = element_size dt"
    unfolding te using chunks_elems [OF ld] by blast
  then have wf: "tensor_wf t" by (simp add: tensor_wf_def t numel_def chunks_def)
  have "mapE (pack_uint 8) shape = Inr (map (le_bytes 8) shape)"
    using shape by (intro mapE_total) (auto simp: pack_uint_def)
  moreover have "dtype_code dt = Some code" using cd(2) by (simp add: dtype_of_dtype_code)
  ultimately have "save_tensor_raw t = Inr (take n bs, length (take n bs))"
    using nd(2,3) el ld read_uint_Inr(3) [OF sz(1)] sz(2) dtype_code_bound [of dt code]
    unfolding fl
    by (simp add: save_tensor_raw_def Let_def t numel_def pack_uint_def traw_header_def traw_magic_def)
  then show thesis using wf shape nd(2,3) t by (intro that [of "take n bs" "drop n bs"]) auto
qed


text \<open>The shape can be read off the header.\<close>

lemma concat_le_bytes_inject:
  assumes "length xs = length ys" and "\<forall>d \<in> set xs \<union> set ys. d < 256 ^ w"
    and "concat (map (le_bytes w) xs) = concat (map (le_bytes w) ys)"
  shows "xs = ys"
  using assms
proof (induction xs ys rule: list_induct2)
  case (Cons x xs y ys)
  then have "le_bytes w x = le_bytes w y" by simp
  then have "le_nat (le_bytes w x) = le_nat (le_bytes w y)" by (rule arg_cong)
  moreover have "x < 256 ^ w" "y < 256 ^ w" using Cons.prems by auto
  ultimately have "x = y" by simp
  with Cons show ?case by simp
qed simp

lemma traw_header_shape_inject:
  assumes "traw_header s c z @ r = traw_header s' c' z' @ r'"
    and "length s < 256 ^ 4" and "length s' < 256 ^ 4" and "\<forall>d \<in> set s \<union> set s'. d < 256 ^ 8"
  shows "s = s'"
proof -
  from assms(1) have "le_bytes 4 (length s) = le_bytes 4 (length s')"
    and d: "concat (map (le_bytes 8) s) @ le_bytes 4 c @ le_bytes 8 z @ r =
       concat (map (le_bytes 8) s') @ le_bytes 4 c' @ le_bytes 8 z' @ r'"
    by (auto simp: traw_header_def simp del: le_bytes.simps)
  then have "le_nat (le_bytes 4 (length s)) = le_nat (le_bytes 4 (length s'))" by (metis)
  then have l: "length s = length s'" using assms(2,3) by simp
  with d have "concat (map (le_bytes 8) s) = concat (map (le_bytes 8) s')" by simp
  with l assms(4) show ?thesis by (intro concat_le_bytes_inject) auto
qed

section \<open>Properties\<close>

text \<open>
  C20. Reading inverts writing. Whenever \<open>save_tensor_raw\<close> succeeds on a well-formed tensor with
  at most ten dimensions, none of them zero, \<open>load_tensor_raw\<close> on the bytes it wrote returns
  exactly that tensor, also when more bytes follow in the file.
\<close>

theorem traw_roundtrip:
  assumes "save_tensor_raw t = Inr (fl, n)" and "tensor_wf t"
    and "length (tshape t) \<le> 10" and "0 \<notin> set (tshape t)"
  shows "load_tensor_raw (fl @ rest) = Inr t"
  using assms by (rule load_save_trailing)

theorem traw_roundtrip_witness:
  "load_tensor_raw (traw_header [1, 2] 2 4 @ [1, 2, 3, 4] @ [9]) =
     Inr \<lparr>tshape = [1, 2], tdtype = BFloat16, tdevice = Cpu, telems = [[1, 2], [3, 4]]\<rparr>"
proof -
  let ?t = "\<lparr>tshape = [1, 2], tdtype = BFloat16, tdevice = Cpu, telems = [[1, 2], [3, 4]]\<rparr>"
  have "save_tensor_raw ?t = Inr (traw_header [1, 2] 2 4 @ [1, 2, 3, 4], 44)"
    by (simp add: save_tensor_raw_def numel_def pack_uint_def traw_header_def traw_magic_def
        del: le_bytes.simps)
  from traw_roundtrip [OF this, of "[9]"] show ?thesis
    by (simp add: tensor_wf_def numel_def)
qed

text \<open>
  C24. The reader accepts nothing but encodings. Whatever \<open>load_tensor_raw\<close> returns is a
  well-formed tensor with one to ten positive dimensions, and the input is exactly the file that
  \<open>save_tensor_raw\<close> writes for that tensor, followed by bytes the reader ignores.
\<close>

theorem traw_load_sound:
  assumes "load_tensor_raw bs = Inr t"
  shows "tensor_wf t \<and> tshape t \<noteq> [] \<and> length (tshape t) \<le> 10 \<and> 0 \<notin> set (tshape t) \<and>
     (\<exists>fl rest. bs = fl @ rest \<and> save_tensor_raw t = Inr (fl, length fl))"
  using load_tensor_raw_Inr [OF assms] by metis

theorem traw_load_sound_witness:
  "\<exists>fl rest. traw_header [1] 3 4 @ [7, 7, 7, 7, 8] = fl @ rest \<and>
     save_tensor_raw \<lparr>tshape = [1], tdtype = Float32, tdevice = Cpu, telems = [[7, 7, 7, 7]]\<rparr> =
       Inr (fl, length fl)"
proof -
  have "load_tensor_raw (traw_header [1] 3 4 @ [7, 7, 7, 7] @ [8]) =
      Inr \<lparr>tshape = [1], tdtype = Float32, tdevice = Cpu, telems = [[7, 7, 7, 7]]\<rparr>"
    by (subst load_header [where dt = Float32]) (auto simp: chunks_def py_slice_def)
  from traw_load_sound [OF this] show ?thesis by simp
qed

text \<open>
  C25. No truncated file is accepted: of a file that \<open>save_tensor_raw\<close> wrote (for a tensor the
  reader supports), every proper prefix makes \<open>load_tensor_raw\<close> raise.
\<close>

theorem traw_truncation_rejected:
  assumes "save_tensor_raw t = Inr (fl, n)" and "tensor_wf t"
    and "length (tshape t) \<le> 10" and "0 \<notin> set (tshape t)" and "k < length fl"
  shows "\<exists>e. load_tensor_raw (take k fl) = Inl e"
proof (rule ccontr)
  assume "\<not> ?thesis"
  then obtain t' where "load_tensor_raw (take k fl) = Inr t'"
    by (cases "load_tensor_raw (take k fl)") auto
  then obtain fl' rest where t': "take k fl = fl' @ rest" "save_tensor_raw t' = Inr (fl', length fl')"
    "tensor_wf t'" "length (tshape t') \<le> 10" "0 \<notin> set (tshape t')"
    by (rule load_tensor_raw_Inr)
  have "fl = fl' @ (rest @ drop k fl)" using t'(1) by (metis append.assoc append_take_drop_id)
  then have "load_tensor_raw fl = Inr t'" using load_save_trailing [OF t'(2-5)] by metis
  moreover have "load_tensor_raw fl = Inr t"
    using load_save_trailing [OF assms(1-4), of "[]"] by simp
  ultimately have "fl' = fl" using t'(2) assms(1) by simp
  moreover have "length fl' + length rest \<le> k"
    using arg_cong [OF t'(1), of length] by simp
  ultimately show False using assms(5) by simp
qed

theorem traw_truncation_rejected_witness:
  "\<exists>e. load_tensor_raw (take 35 (traw_header [1] 3 4 @ [7, 7, 7, 7])) = Inl e"
proof -
  let ?t = "\<lparr>tshape = [1], tdtype = Float32, tdevice = Cpu, telems = [[7, 7, 7, 7]]\<rparr>"
  have "save_tensor_raw ?t = Inr (traw_header [1] 3 4 @ [7, 7, 7, 7], 36)"
    by (simp add: save_tensor_raw_def numel_def pack_uint_def traw_header_def traw_magic_def
        del: le_bytes.simps)
  from traw_truncation_rejected [OF this, of 35] show ?thesis
    by (simp add: tensor_wf_def numel_def length_traw_header)
qed

text \<open>
  The writer is more permissive than the reader: whatever \<open>save_tensor_raw\<close> writes for a
  tensor with a zero dimension is refused by \<open>load_tensor_raw\<close>.
\<close>

theorem traw_empty_tensor_not_loadable:
  assumes "save_tensor_raw t = Inr (fl, n)" and "0 \<in> set (tshape t)"
  shows "\<exists>e. load_tensor_raw fl = Inl e"
proof (rule ccontr)
  assume "\<not> ?thesis"
  then obtain t' where l: "load_tensor_raw fl = Inr t'" by (cases "load_tensor_raw fl") auto
  obtain fl' rest where t': "fl = fl' @ rest" "save_tensor_raw t' = Inr (fl', length fl')"
    "0 \<notin> set (tshape t')" using load_tensor_raw_Inr [OF l] by metis
  obtain c where c: "fl = traw_header (tshape t) c (numel t * element_size (tdtype t)) @ concat (telems t)"
    "\<forall>d \<in> set (tshape t). d < 256 ^ 8" "length (tshape t) < 256 ^ 4"
    using save_tensor_raw_Inr [OF assms(1)] by metis
  obtain c' where c': "fl' = traw_header (tshape t') c' (numel t' * element_size (tdtype t')) @ concat (telems t')"
    "\<forall>d \<in> set (tshape t'). d < 256 ^ 8" "length (tshape t') < 256 ^ 4"
    using save_tensor_raw_Inr [OF t'(2)] by metis
  have "traw_header (tshape t) c (numel t * element_size (tdtype t)) @ concat (telems t) =
      traw_header (tshape t') c' (numel t' * element_size (tdtype t')) @ (concat (telems t') @ rest)"
    using t'(1) c(1) c'(1) by simp
  then have "tshape t = tshape t'"
    by (rule traw_header_shape_inject) (use c c' in auto)
  with assms(2) t'(3) show False by simp
qed

theorem traw_empty_tensor_not_loadable_witness:
  "\<exists>e. load_tensor_raw (traw_header [0, 8] 1 0) = Inl e"
proof -
  let ?t = "\<lparr>tshape = [0, 8], tdtype = Float16, tdevice = Cpu, telems = []\<rparr>"
  have "save_tensor_raw ?t = Inr (traw_header [0, 8] 1 0, 40)"
    by (simp add: save_tensor_raw_def numel_def pack_uint_def traw_header_def traw_magic_def
        del: le_bytes.simps)
  from traw_empty_tensor_not_loadable [OF this] show ?thesis by simp
qed

end
