(* ===== verification/TensorPartition.thy ===== *)
theory TensorPartition
  imports TensorFormat
begin

text \<open>
  Tensor-parallel partitioning of the model weights, from
  \<^verbatim>\<open>TensorStore/raw_s3_model_uploader.py\<close>: the vocabulary range and the dimension range of a
  rank, and \<open>partition_tensor_for_tp\<close>, which cuts a weight by rows (embedding, LM head,
  column-parallel projections), by columns (row-parallel projections) or replicates it. Slicing,
  zero tensors and slice assignment are written out as PyTorch defines them: slices clamp to the
  tensor, and assigning a single row to several broadcasts it.

  The lemmas show that the ranges of the ranks tile the dimension, and that the shards put back
  together are the original weight, followed by zero rows when the vocabulary is padded.
\<close>

section \<open>Ranges\<close>

definition VOCAB_PADDING_SIZE :: nat where
  "VOCAB_PADDING_SIZE = 64"

definition vocab_size_padded :: "nat \<Rightarrow> nat" where
  "vocab_size_padded vocab_size =
     ((vocab_size + VOCAB_PADDING_SIZE - 1) div VOCAB_PADDING_SIZE) * VOCAB_PADDING_SIZE"

definition get_range_vocabulary_embedding_tensor ::
  "nat \<Rightarrow> nat \<Rightarrow> nat \<Rightarrow> (nat \<times> nat \<times> nat) py" where
  "get_range_vocabulary_embedding_tensor vocab_size tp_size tp_rank =
     (let padded = vocab_size_padded vocab_size in
      bindE (assertE (tp_size \<noteq> 0) ZeroDivisionError) (\<lambda>_.
      bindE (assertE (padded mod tp_size = 0) AssertionError) (\<lambda>_.
      let per_shard = padded div tp_size;
          idx_start = tp_rank * per_shard;
          idx_end = idx_start + per_shard in
      Inr (min idx_start vocab_size, min idx_end vocab_size, per_shard))))"

definition get_tensor_idx_range :: "nat \<Rightarrow> nat \<Rightarrow> nat \<Rightarrow> (nat \<times> nat \<times> nat) py" where
  "get_tensor_idx_range dim_size tp_size tp_rank =
     bindE (assertE (tp_size \<noteq> 0) ZeroDivisionError) (\<lambda>_.
     bindE (assertE (dim_size mod tp_size = 0) AssertionError) (\<lambda>_.
     let per_shard = dim_size div tp_size;
         start = tp_rank * per_shard in
     Inr (start, start + per_shard, per_shard)))"

section \<open>Slices of a matrix\<close>

definition unpack_shape2 :: "tensor \<Rightarrow> (nat \<times> nat) py" where
  "unpack_shape2 t = (case tshape t of [r, c] \<Rightarrow> Inr (r, c) | _ \<Rightarrow> Inl ValueError)"

definition slice_bounds :: "nat \<Rightarrow> nat \<Rightarrow> nat \<Rightarrow> nat \<times> nat" where
  "slice_bounds s e n = (let s' = min s n in (s', max s' (min e n)))"

definition slice_rows :: "nat \<Rightarrow> nat \<Rightarrow> nat \<times> nat \<Rightarrow> tensor \<Rightarrow> tensor" where
  "slice_rows s e rc t =
     (let (r, c) = rc; (s', e') = slice_bounds s e r in
      t\<lparr>tshape := [e' - s', c], telems := py_slice (s' * c) (e' * c) (telems t)\<rparr>)"

definition slice_cols :: "nat \<Rightarrow> nat \<Rightarrow> nat \<times> nat \<Rightarrow> tensor \<Rightarrow> tensor" where
  "slice_cols s e rc t =
     (let (r, c) = rc; (s', e') = slice_bounds s e c in
      t\<lparr>tshape := [r, e' - s'], telems := concat (map (py_slice s' e') (chunks c r (telems t)))\<rparr>)"

definition zero_elem :: "dtype \<Rightarrow> byte list" where
  "zero_elem dt = replicate (element_size dt) 0"

definition zeros :: "nat \<Rightarrow> nat \<Rightarrow> dtype \<Rightarrow> tensor" where
  "zeros r c dt = \<lparr>tshape = [r, c], tdtype = dt, tdevice = Cpu, telems = replicate (r * c) (zero_elem dt)\<rparr>"

text \<open>\<open>dst[:n, :] = src\<close> for matrices of \<open>c\<close> columns.\<close>

definition assign_rows :: "nat \<Rightarrow> nat \<Rightarrow> tensor \<Rightarrow> tensor \<Rightarrow> tensor py" where
  "assign_rows n c src dst =
     (if tshape src = [n, c] then Inr (dst\<lparr>telems := telems src @ drop (n * c) (telems dst)\<rparr>)
      else if tshape src = [1, c]
      then Inr (dst\<lparr>telems := concat (replicate n (telems src)) @ drop (n * c) (telems dst)\<rparr>)
      else Inl RuntimeError)"

section \<open>Partitioning\<close>

definition DIV_COLUMN_WISE_LIST :: "string list" where
  "DIV_COLUMN_WISE_LIST = [''q_proj'', ''k_proj'', ''v_proj'', ''gate_proj'', ''up_proj'']"

definition DIV_ROW_WISE_LIST :: "string list" where
  "DIV_ROW_WISE_LIST = [''o_proj'', ''down_proj'']"

text \<open>\<open>tensor_name.split('.')[-2]\<close>\<close>

definition name_part_minus2 :: "string \<Rightarrow> string py" where
  "name_part_minus2 name =
     (let ws = split_on CHR ''.'' name in
      if length ws < 2 then Inl IndexError else Inr (ws ! (length ws - 2)))"

text \<open>The embedding and the LM head are partitioned by the same code.\<close>

definition partition_vocab :: "tensor \<Rightarrow> nat \<Rightarrow> nat \<Rightarrow> nat \<Rightarrow> tensor py" where
  "partition_vocab full_tensor tp_size tp_rank vocab_size =
     bindE (unpack_shape2 full_tensor) (\<lambda>(vocab_dim, hidden_size).
     bindE (get_range_vocabulary_embedding_tensor vocab_size tp_size tp_rank)
       (\<lambda>(start_idx, end_idx, per_shard).
     if end_idx - start_idx > per_shard then Inl ValueError
     else if end_idx - start_idx < per_shard
     then assign_rows (end_idx - start_idx) hidden_size
            (slice_rows start_idx end_idx (vocab_dim, hidden_size) full_tensor)
            (zeros per_shard hidden_size (tdtype full_tensor))
     else Inr (slice_rows start_idx end_idx (vocab_dim, hidden_size) full_tensor)))"

definition partition_tensor_for_tp ::
  "string \<Rightarrow> tensor \<Rightarrow> nat \<Rightarrow> nat \<Rightarrow> nat \<Rightarrow> tensor py" where
  "partition_tensor_for_tp tensor_name full_tensor tp_size tp_rank vocab_size =
     bindE (name_part_minus2 tensor_name) (\<lambda>part.
     if part = ''embed_tokens'' then partition_vocab full_tensor tp_size tp_rank vocab_size
     else if split_on CHR ''.'' tensor_name ! 0 = ''lm_head''
     then partition_vocab full_tensor tp_size tp_rank vocab_size
     else if part \<in> set DIV_COLUMN_WISE_LIST then
       bindE (unpack_shape2 full_tensor) (\<lambda>(output_dim, input_dim).
       bindE (get_tensor_idx_range output_dim tp_size tp_rank) (\<lambda>(start_idx, end_idx, per_shard).
       Inr (slice_rows start_idx end_idx (output_dim, input_dim) full_tensor)))
     else if part \<in> set DIV_ROW_WISE_LIST then
       bindE (unpack_shape2 full_tensor) (\<lambda>(output_dim, input_dim).
       bindE (get_tensor_idx_range input_dim tp_size tp_rank) (\<lambda>(start_idx, end_idx, per_shard).
       Inr (slice_cols start_idx end_idx (output_dim, input_dim) full_tensor)))
     else Inr full_tensor)"

section \<open>Lemmas\<close>

lemma vocab_size_padded_ge: "vocab_size \<le> vocab_size_padded vocab_size"
  by (simp add: vocab_size_padded_def VOCAB_PADDING_SIZE_def)

text \<open>Equal shares of an interval tile it, also when each is cut off at a bound.\<close>

lemma tiles_shares:
  assumes "N \<le> n * d"
  shows "tiles (map (\<lambda>r. (min (r * d) N, min (r * d + d) N)) [0..<n]) 0 (N::nat)"
proof -
  have "tiles (map (\<lambda>r. (min (r * d) N, min (r * d + d) N)) [0..<n]) 0 (min (n * d) N)"
    by (induction n) (auto simp: tiles_append add.commute)
  then show ?thesis using assms by (simp add: min_absorb2)
qed

lemma slice_bounds_inside: "s \<le> e \<Longrightarrow> e \<le> n \<Longrightarrow> slice_bounds s e n = (s, e)"
  by (simp add: slice_bounds_def min_absorb1)

lemma slice_rows_inside:
  "s \<le> e \<Longrightarrow> e \<le> r \<Longrightarrow> slice_rows s e (r, c) t =
     t\<lparr>tshape := [e - s, c], telems := py_slice (s * c) (e * c) (telems t)\<rparr>"
  by (simp add: slice_rows_def slice_bounds_inside)

lemma slice_cols_inside:
  "s \<le> e \<Longrightarrow> e \<le> c \<Longrightarrow> slice_cols s e (r, c) t =
     t\<lparr>tshape := [r, e - s], telems := concat (map (py_slice s e) (chunks c r (telems t)))\<rparr>"
  by (simp add: slice_cols_def slice_bounds_inside)

lemma set_py_slice: "set (py_slice s e xs) \<subseteq> set xs"
  by (auto simp: py_slice_def dest: in_set_takeD in_set_dropD)

lemma length_zero_elem [simp]: "length (zero_elem dt) = element_size dt"
  by (simp add: zero_elem_def)

text \<open>The rows of a rank, as a chunk of the padded elements.\<close>

lemma py_slice_pad:
  assumes "length xs = V" and "V \<le> P" and "b \<le> P" and "a \<le> b"
  shows "py_slice (min a V) (min b V) xs @ replicate ((b - a) - (min b V - min a V)) z =
     py_slice a b (xs @ replicate (P - V) z)"
proof -
  consider "b \<le> V" | "a \<le> V" "V < b" | "V < a" by linarith
  then show ?thesis
  proof cases
    case 1
    with assms show ?thesis by (simp add: py_slice_def min_absorb1)
  next
    case 2
    then have "b - a = (V - a) + (b - V)" by simp
    with 2 assms show ?thesis by (simp add: py_slice_def take_replicate min_def)
  next
    case 3
    with assms show ?thesis by (simp add: py_slice_def take_replicate min_def)
  qed
qed

lemma split_range_bound: "r < n \<Longrightarrow> r * d + d \<le> n * (d::nat)"
  by (metis Suc_leI add.commute mult_Suc mult_le_mono1)

lemma partition_vocab_of_range:
  assumes range: "get_range_vocabulary_embedding_tensor V tp r = Inr (s, e, d)"
    and sh: "tshape t = [V, h]" and se: "s \<le> e" "e \<le> V" "e - s \<le> d"
  shows "\<exists>x. partition_vocab t tp r V = Inr x \<and> tshape x = [d, h] \<and> tdtype x = tdtype t \<and>
     telems x = py_slice (s * h) (e * h) (telems t) @ replicate ((d - (e - s)) * h) (zero_elem (tdtype t))"
proof (cases "e - s < d")
  case True
  define n where "n = e - s"
  have "d * h - n * h = (d - n) * h" by (simp only: diff_mult_distrib)
  with True show ?thesis
    by (simp add: partition_vocab_def unpack_shape2_def sh range slice_rows_inside [OF se(1,2)]
        assign_rows_def zeros_def flip: n_def)
next
  case False
  with se(3) have d: "d = e - s" by simp
  show ?thesis
    unfolding d using range [unfolded d]
    by (simp add: partition_vocab_def unpack_shape2_def sh slice_rows_inside [OF se(1,2)])
qed

lemma vocab_shard:
  assumes wf: "tensor_wf t" and sh: "tshape t = [V, h]" and P: "P = vocab_size_padded V"
    and tp: "P mod tp = 0" "r < tp"
  shows "\<exists>s. partition_vocab t tp r V = Inr s \<and> tensor_wf s \<and> tshape s = [P div tp, h] \<and>
     tdtype s = tdtype t \<and> telems s = py_slice (r * (P div tp * h)) (r * (P div tp * h) + P div tp * h)
       (telems t @ replicate ((P - V) * h) (zero_elem (tdtype t)))"
proof -
  let ?d = "P div tp" and ?z = "zero_elem (tdtype t)"
  let ?s = "min (r * ?d) V" and ?e = "min (r * ?d + ?d) V"
  let ?all = "telems t @ replicate ((P - V) * h) ?z"
  have VP: "V \<le> P" using P vocab_size_padded_ge by simp
  have tpd: "tp * ?d = P" using tp by (auto simp: mult.commute dvd_eq_mod_eq_0)
  have bnd: "r * ?d + ?d \<le> P" using split_range_bound [OF tp(2), of ?d] tpd by simp
  have len: "length (telems t) = V * h" using wf sh by (simp add: tensor_wf_def numel_def)
  have se: "?s \<le> ?e" "?e \<le> V" "?e - ?s \<le> ?d" by auto
  have sl: "slice_rows ?s ?e (V, h) t =
      t\<lparr>tshape := [?e - ?s, h], telems := py_slice (?s * h) (?e * h) (telems t)\<rparr>"
    by (rule slice_rows_inside [OF se(1,2)])
  have pad: "py_slice (?s * h) (?e * h) (telems t) @ replicate ((?d - (?e - ?s)) * h) ?z =
      py_slice (r * (?d * h)) (r * (?d * h) + ?d * h) ?all"
  proof -
    have mins: "min (r * ?d * h) (V * h) = ?s * h" "min ((r * ?d + ?d) * h) (V * h) = ?e * h"
      by (simp_all add: nat_mult_min_left)
    have "(r * ?d + ?d) * h - r * ?d * h = ?d * h" by (simp add: add_mult_distrib)
    moreover have "?d * h - (?e * h - ?s * h) = (?d - (?e - ?s)) * h" by (simp only: diff_mult_distrib)
    ultimately have w: "((r * ?d + ?d) * h - r * ?d * h) - (?e * h - ?s * h) = (?d - (?e - ?s)) * h"
      by (simp only:)
    have PV: "P * h - V * h = (P - V) * h" by (simp only: diff_mult_distrib)
    have "r * ?d * h \<le> (r * ?d + ?d) * h" by (rule mult_le_mono1) simp
    from py_slice_pad [OF len mult_le_mono1 [OF VP] mult_le_mono1 [OF bnd] this, of ?z]
    have "py_slice (?s * h) (?e * h) (telems t) @ replicate ((?d - (?e - ?s)) * h) ?z =
        py_slice (r * ?d * h) ((r * ?d + ?d) * h) ?all"
      by (simp only: mins w PV)
    then show ?thesis by (simp only: add_mult_distrib mult.assoc)
  qed
  have wf': "\<forall>b \<in> set ?all. length b = element_size (tdtype t)"
    using wf by (auto simp: tensor_wf_def)
  have la: "length ?all = P * h" using len VP by (simp flip: add_mult_distrib)
  have "r * (?d * h) + ?d * h \<le> P * h"
    using mult_le_mono1 [OF bnd, of h] by (simp add: add_mult_distrib mult.assoc)
  then have ls: "length (py_slice (r * (?d * h)) (r * (?d * h) + ?d * h) ?all) = ?d * h"
    by (simp only: length_py_slice la)
  have wfs: "tensor_wf s" if "tshape s = [?d, h]" "tdtype s = tdtype t"
      "telems s = py_slice (r * (?d * h)) (r * (?d * h) + ?d * h) ?all" for s
  proof -
    have "\<forall>b \<in> set (telems s). length b = element_size (tdtype s)"
      unfolding that(2,3) by (rule ballI, rule wf' [rule_format], erule subsetD [OF set_py_slice])
    moreover have "length (telems s) = ?d * h" unfolding that(3) by (rule ls)
    ultimately show ?thesis using that(1) by (simp add: tensor_wf_def numel_def)
  qed
  have range: "get_range_vocabulary_embedding_tensor V tp r = Inr (?s, ?e, ?d)"
    using tp P by (simp add: get_range_vocabulary_embedding_tensor_def Let_def)
  from partition_vocab_of_range [OF range sh se] pad show ?thesis using wfs by (metis (no_types))
qed

lemma tp_share:
  assumes "n mod tp = 0" and "r < tp"
  shows "get_tensor_idx_range n tp r = Inr (r * (n div tp), r * (n div tp) + n div tp, n div tp)"
    and "r * (n div tp) + n div tp \<le> n" and "tp * (n div tp) = (n::nat)"
proof -
  show e: "tp * (n div tp) = n" using assms by (auto simp: dvd_eq_mod_eq_0)
  show "r * (n div tp) + n div tp \<le> n" using split_range_bound [OF assms(2), of "n div tp"] e by simp
  show "get_tensor_idx_range n tp r = Inr (r * (n div tp), r * (n div tp) + n div tp, n div tp)"
    using assms by (simp add: get_tensor_idx_range_def Let_def)
qed

text \<open>Chunks of equal width put back together, over the results of a loop.\<close>

lemma concat_map_chunks:
  "length xs = n * w \<Longrightarrow> concat (map (\<lambda>r. py_slice (r * w) (r * w + w) xs) [0..<n]) = xs"
  using concat_chunks [of xs n w] by (simp add: chunks_def)

lemma chunks_nth: "i < n \<Longrightarrow> chunks w n xs ! i = py_slice (i * w) (i * w + w) xs"
  by (simp add: chunks_def)

lemma length_chunks [simp]: "length (chunks w n xs) = n"
  by (simp add: chunks_def)

lemma name_part_not_single: "name_part_minus2 name = Inr part \<Longrightarrow> 2 \<le> length (split_on CHR ''.'' name)"
  by (auto simp: name_part_minus2_def Let_def split: if_splits)

text \<open>Which branch of the partitioning a name takes.\<close>

definition vocab_name :: "string \<Rightarrow> bool" where
  "vocab_name name \<longleftrightarrow> (\<exists>part. name_part_minus2 name = Inr part \<and>
     (part = ''embed_tokens'' \<or> split_on CHR ''.'' name ! 0 = ''lm_head''))"

definition column_name :: "string \<Rightarrow> bool" where
  "column_name name \<longleftrightarrow> (\<exists>part. name_part_minus2 name = Inr part \<and> part \<in> set DIV_COLUMN_WISE_LIST \<and>
     split_on CHR ''.'' name ! 0 \<noteq> ''lm_head'')"

definition row_name :: "string \<Rightarrow> bool" where
  "row_name name \<longleftrightarrow> (\<exists>part. name_part_minus2 name = Inr part \<and> part \<in> set DIV_ROW_WISE_LIST \<and>
     split_on CHR ''.'' name ! 0 \<noteq> ''lm_head'')"

lemma partition_vocab_name:
  "vocab_name name \<Longrightarrow> partition_tensor_for_tp name t tp r V = partition_vocab t tp r V"
  by (auto simp: vocab_name_def partition_tensor_for_tp_def)

lemma partition_column_name:
  assumes "column_name name" and "tshape t = [R, C]" and "R mod tp = 0" and "r < tp"
  shows "partition_tensor_for_tp name t tp r V =
     Inr (t\<lparr>tshape := [R div tp, C],
       telems := py_slice (r * (R div tp * C)) (r * (R div tp * C) + R div tp * C) (telems t)\<rparr>)"
proof -
  note sh = tp_share [OF assms(3,4)]
  have "slice_rows (r * (R div tp)) (r * (R div tp) + R div tp) (R, C) t =
     t\<lparr>tshape := [R div tp, C], telems := py_slice (r * (R div tp) * C) ((r * (R div tp) + R div tp) * C) (telems t)\<rparr>"
    using slice_rows_inside [OF _ sh(2)] by simp
  then show ?thesis
    using assms(1,2) sh(1)
    by (auto simp: column_name_def partition_tensor_for_tp_def unpack_shape2_def DIV_COLUMN_WISE_LIST_def
        add_mult_distrib mult.assoc)
qed

lemma partition_row_name:
  assumes "row_name name" and "tshape t = [R, C]" and "C mod tp = 0" and "r < tp"
  shows "partition_tensor_for_tp name t tp r V =
     Inr (t\<lparr>tshape := [R, C div tp],
       telems := concat (map (py_slice (r * (C div tp)) (r * (C div tp) + C div tp)) (chunks C R (telems t)))\<rparr>)"
proof -
  note sh = tp_share [OF assms(3,4)]
  have "slice_cols (r * (C div tp)) (r * (C div tp) + C div tp) (R, C) t =
     t\<lparr>tshape := [R, C div tp],
       telems := concat (map (py_slice (r * (C div tp)) (r * (C div tp) + C div tp)) (chunks C R (telems t)))\<rparr>"
    using slice_cols_inside [OF _ sh(2)] by simp
  then show ?thesis
    using assms(1,2) sh(1)
    by (auto simp: row_name_def partition_tensor_for_tp_def unpack_shape2_def DIV_COLUMN_WISE_LIST_def
        DIV_ROW_WISE_LIST_def)
qed

lemma concat_map_telems:
  assumes "\<And>r. r < n \<Longrightarrow> telems (f r) = py_slice (r * w) (r * w + w) xs" and "length xs = n * w"
  shows "concat (map telems (map f [0..<n])) = xs"
proof -
  have m: "map telems (map f [0..<n]) = map (\<lambda>r. py_slice (r * w) (r * w + w) xs) [0..<n]"
    using assms(1) by simp
  show ?thesis by (simp only: m concat_map_chunks [OF assms(2)])
qed

section \<open>Properties\<close>

text \<open>
  The vocabulary ranges of the tensor-parallel ranks tile the vocabulary. When the padded
  vocabulary divides by the tensor-parallel size, \<open>get_range_vocabulary_embedding_tensor\<close>
  succeeds for every rank, the ranges it returns are consecutive, cover \<open>[0, vocab_size)\<close>
  exactly, and none is longer than the shard, so the \<open>ValueError\<close> branch of the partitioning is
  never taken.
\<close>

theorem vocab_ranges_tile:
  assumes "0 < tp" and "vocab_size_padded V mod tp = 0"
  shows "\<exists>rs. mapE (get_range_vocabulary_embedding_tensor V tp) [0..<tp] = Inr rs \<and>
     tiles (map (\<lambda>(s, e, d). (s, e)) rs) 0 V \<and>
     (\<forall>(s, e, d) \<in> set rs. d = vocab_size_padded V div tp \<and> e - s \<le> d)"
proof -
  let ?d = "vocab_size_padded V div tp"
  let ?f = "\<lambda>r. (min (r * ?d) V, min (r * ?d + ?d) V, ?d)"
  have m: "mapE (get_range_vocabulary_embedding_tensor V tp) [0..<tp] = Inr (map ?f [0..<tp])"
    using assms by (intro mapE_total) (simp add: get_range_vocabulary_embedding_tensor_def Let_def)
  have "tp * ?d = vocab_size_padded V" using assms by (auto simp: dvd_eq_mod_eq_0)
  then have "tiles (map (\<lambda>r. (min (r * ?d) V, min (r * ?d + ?d) V)) [0..<tp]) 0 V"
    using vocab_size_padded_ge [of V] by (intro tiles_shares) simp
  then have "tiles (map (\<lambda>(s, e, d). (s, e)) (map ?f [0..<tp])) 0 V"
    by (simp add: comp_def)
  with m show ?thesis by (intro exI [of _ "map ?f [0..<tp]"]) auto
qed

theorem vocab_ranges_tile_witness:
  "\<exists>rs. mapE (get_range_vocabulary_embedding_tensor 100 2) [0..<2] = Inr rs \<and>
     tiles (map (\<lambda>(s, e, d). (s, e)) rs) 0 100 \<and> (\<forall>(s, e, d) \<in> set rs. d = 64 \<and> e - s \<le> d)"
  using vocab_ranges_tile [of 2 100] by (simp add: vocab_size_padded_def VOCAB_PADDING_SIZE_def)

text \<open>
  C26. Partitioning the embedding or the LM head loses nothing. For a well-formed weight with
  \<open>vocab_size\<close> rows, \<open>partition_tensor_for_tp\<close> succeeds on every rank, every shard is a
  well-formed matrix of the same number of rows, and the shards put one under the other are the
  original weight followed by the zero rows that pad the vocabulary to a multiple of 64.
\<close>

theorem vocab_partition_roundtrip:
  assumes "vocab_name name" and "tensor_wf t" and "tshape t = [V, h]"
    and "0 < tp" and "vocab_size_padded V mod tp = 0"
  shows "\<exists>shards. mapE (\<lambda>r. partition_tensor_for_tp name t tp r V) [0..<tp] = Inr shards \<and>
     (\<forall>s \<in> set shards. tensor_wf s \<and> tshape s = [vocab_size_padded V div tp, h]) \<and>
     concat (map telems shards) =
       telems t @ replicate ((vocab_size_padded V - V) * h) (zero_elem (tdtype t))"
proof -
  let ?P = "vocab_size_padded V"
  let ?all = "telems t @ replicate ((?P - V) * h) (zero_elem (tdtype t))"
  define f where "f r = projr (partition_vocab t tp r V)" for r
  have shard: "partition_vocab t tp r V = Inr (f r) \<and> tensor_wf (f r) \<and> tshape (f r) = [?P div tp, h] \<and>
      telems (f r) = py_slice (r * (?P div tp * h)) (r * (?P div tp * h) + ?P div tp * h) ?all"
    if "r < tp" for r
    using vocab_shard [OF assms(2,3) refl assms(5) that] by (auto simp: f_def)
  have "mapE (\<lambda>r. partition_tensor_for_tp name t tp r V) [0..<tp] = Inr (map f [0..<tp])"
    using shard by (intro mapE_total) (simp add: partition_vocab_name [OF assms(1)])
  moreover have "length ?all = tp * (?P div tp * h)"
  proof -
    have "tp * (?P div tp) = ?P" using assms(5) by (auto simp: dvd_eq_mod_eq_0)
    then have a: "tp * (?P div tp * h) = ?P * h" by (simp flip: mult.assoc)
    have b: "length ?all = ?P * h"
      using assms(2,3) vocab_size_padded_ge [of V]
      by (simp add: tensor_wf_def numel_def flip: add_mult_distrib)
    show ?thesis by (simp only: a b)
  qed
  ultimately show ?thesis
    using shard concat_map_telems [of tp f "?P div tp * h" ?all] by (intro exI [of _ "map f [0..<tp]"]) auto
qed

theorem vocab_partition_roundtrip_witness:
  "\<exists>shards. mapE (\<lambda>r. partition_tensor_for_tp ''lm_head.weight'' (zeros 3 1 Float16) 2 r 3) [0..<2] = Inr shards \<and>
     (\<forall>s \<in> set shards. tensor_wf s \<and> tshape s = [32, 1]) \<and>
     concat (map telems shards) = telems (zeros 3 1 Float16) @ replicate 61 (zero_elem Float16)"
proof -
  have n: "vocab_name ''lm_head.weight''" by (simp add: vocab_name_def name_part_minus2_def)
  have w: "tensor_wf (zeros 3 1 Float16)" by (simp add: tensor_wf_def numel_def zeros_def)
  show ?thesis
    using vocab_partition_roundtrip [OF n w, of 3 1 2]
    by (simp add: zeros_def vocab_size_padded_def VOCAB_PADDING_SIZE_def)
qed

text \<open>
  Column-parallel projections: when the output dimension divides by the tensor-parallel size,
  the shards of all ranks put one under the other are exactly the original weight.
\<close>

theorem column_partition_roundtrip:
  assumes "column_name name" and "tensor_wf t" and "tshape t = [R, C]" and "R mod tp = 0" and "0 < tp"
  shows "\<exists>shards. mapE (\<lambda>r. partition_tensor_for_tp name t tp r V) [0..<tp] = Inr shards \<and>
     (\<forall>s \<in> set shards. tshape s = [R div tp, C]) \<and> concat (map telems shards) = telems t"
proof -
  let ?w = "R div tp * C"
  define f where "f r = t\<lparr>tshape := [R div tp, C], telems := py_slice (r * ?w) (r * ?w + ?w) (telems t)\<rparr>" for r
  have "mapE (\<lambda>r. partition_tensor_for_tp name t tp r V) [0..<tp] = Inr (map f [0..<tp])"
    using assms by (intro mapE_total) (simp add: partition_column_name f_def)
  moreover have "concat (map telems (map f [0..<tp])) = telems t"
  proof (rule concat_map_telems)
    have "tp * (R div tp) = R" using assms(4) by (auto simp: dvd_eq_mod_eq_0)
    then have a: "tp * ?w = R * C" by (simp flip: mult.assoc)
    have b: "length (telems t) = R * C" using assms(2,3) by (simp add: tensor_wf_def numel_def)
    show "length (telems t) = tp * ?w" by (simp only: a b)
  qed (simp add: f_def)
  ultimately show ?thesis by (intro exI [of _ "map f [0..<tp]"]) (auto simp: f_def)
qed

theorem column_partition_roundtrip_witness:
  "\<exists>shards. mapE (\<lambda>r. partition_tensor_for_tp ''model.layers.0.self_attn.q_proj.weight''
       (zeros 4 2 Float16) 2 r 7) [0..<2] = Inr shards \<and>
     (\<forall>s \<in> set shards. tshape s = [2, 2]) \<and> concat (map telems shards) = telems (zeros 4 2 Float16)"
proof -
  have n: "column_name ''model.layers.0.self_attn.q_proj.weight''"
    by (simp add: column_name_def name_part_minus2_def DIV_COLUMN_WISE_LIST_def)
  have w: "tensor_wf (zeros 4 2 Float16)" by (simp add: tensor_wf_def numel_def zeros_def)
  show ?thesis using column_partition_roundtrip [OF n w, of 4 2 2 7] by (simp add: zeros_def)
qed

text \<open>
  Row-parallel projections: when the input dimension divides by the tensor-parallel size, the
  shards of all ranks put side by side are exactly the original weight, row by row.
\<close>

theorem row_partition_roundtrip:
  assumes "row_name name" and "tensor_wf t" and "tshape t = [R, C]" and "C mod tp = 0" and "0 < tp"
  shows "\<exists>shards. mapE (\<lambda>r. partition_tensor_for_tp name t tp r V) [0..<tp] = Inr shards \<and>
     (\<forall>s \<in> set shards. tshape s = [R, C div tp]) \<and>
     (\<forall>i < R. concat (map (\<lambda>s. chunks (C div tp) R (telems s) ! i) shards) = chunks C R (telems t) ! i)"
proof -
  let ?d = "C div tp"
  let ?rows = "chunks C R (telems t)"
  define f where "f r = t\<lparr>tshape := [R, ?d], telems := concat (map (py_slice (r * ?d) (r * ?d + ?d)) ?rows)\<rparr>" for r
  have "mapE (\<lambda>r. partition_tensor_for_tp name t tp r V) [0..<tp] = Inr (map f [0..<tp])"
    using assms by (intro mapE_total) (simp add: partition_row_name f_def)
  moreover have "concat (map (\<lambda>s. chunks ?d R (telems s) ! i) (map f [0..<tp])) = ?rows ! i" if i: "i < R" for i
  proof -
    have lt: "length (telems t) = R * C" using assms(2,3) by (simp add: tensor_wf_def numel_def)
    have row: "length row = C" if "row \<in> set ?rows" for row using chunks_elems [OF lt that] .
    have e: "tp * ?d = C" using assms(4) by (auto simp: dvd_eq_mod_eq_0)
    have "chunks ?d R (telems (f r)) = map (py_slice (r * ?d) (r * ?d + ?d)) ?rows" if "r < tp" for r
    proof -
      have "r * ?d + ?d \<le> C" using split_range_bound [OF that, of ?d] e by simp
      then show ?thesis using row by (simp add: f_def) (intro chunks_concat, auto simp: length_py_slice)
    qed
    then have "map (\<lambda>s. chunks ?d R (telems s) ! i) (map f [0..<tp]) =
        map (\<lambda>r. py_slice (r * ?d) (r * ?d + ?d) (?rows ! i)) [0..<tp]"
      using i by simp
    moreover have "length (?rows ! i) = tp * ?d" using row [of "?rows ! i"] i e by simp
    ultimately show ?thesis by (simp only: concat_map_chunks)
  qed
  ultimately show ?thesis by (intro exI [of _ "map f [0..<tp]"]) (auto simp: f_def)
qed

theorem row_partition_roundtrip_witness:
  "\<exists>shards. mapE (\<lambda>r. partition_tensor_for_tp ''model.layers.0.mlp.down_proj.weight''
       (zeros 2 4 Float16) 2 r 7) [0..<2] = Inr shards \<and>
     (\<forall>s \<in> set shards. tshape s = [2, 2]) \<and>
     (\<forall>i < 2. concat (map (\<lambda>s. chunks 2 2 (telems s) ! i) shards) = chunks 4 2 (telems (zeros 2 4 Float16)) ! i)"
proof -
  have n: "row_name ''model.layers.0.mlp.down_proj.weight''"
    by (simp add: row_name_def name_part_minus2_def DIV_ROW_WISE_LIST_def)
  have w: "tensor_wf (zeros 2 4 Float16)" by (simp add: tensor_wf_def numel_def zeros_def)
  show ?thesis using row_partition_roundtrip [OF n w, of 2 4 2 7] by (simp add: zeros_def)
qed

end
