(* ===== verification/S3Layout.thy ===== *)
theory S3Layout
  imports TensorPartition
begin

text \<open>
  Where the shards live in object storage and how they get there: the S3 path arguments, the keys
  of \<^verbatim>\<open>TensorStore/raw_s3_model_uploader.py\<close> and of
  \<^verbatim>\<open>TensorStore/raw_s3_tensor_store_server.py\<close>, and the uploader's loops. S3 itself is a
  parameter: \<open>upload_file\<close> and \<open>get_object\<close>, with \<open>s3_laws\<close> stating that an object read after a
  successful upload is the uploaded one. A file on the uploader's disk is its bytes.

  The lemmas show that keys determine the tensor-parallel size, rank and tensor name, that the
  server looks where the uploader wrote, and that after an upload without an exception every
  shard of every requested size is in the bucket and loads to the partition it was made from.
\<close>

section \<open>Paths and keys\<close>

definition rstrip_slash :: "string \<Rightarrow> string" where
  "rstrip_slash s = rev (dropWhile (\<lambda>c. c = CHR ''/'') (rev s))"

text \<open>\<open>s.split('/', 1)\<close>: the part before the first slash and, if there is one, the part after it.\<close>

definition split_slash1 :: "string \<Rightarrow> string list" where
  "split_slash1 s =
     (case dropWhile (\<lambda>c. c \<noteq> CHR ''/'') s of
        [] \<Rightarrow> [s]
      | _ # rest \<Rightarrow> [takeWhile (\<lambda>c. c \<noteq> CHR ''/'') s, rest])"

definition parse_s3_path :: "string \<Rightarrow> (string \<times> string) py" where
  "parse_s3_path s3_path =
     bindE (assertE (starts_with s3_path ''s3://'') ValueError) (\<lambda>_.
     let s3_parts = split_slash1 (drop 5 s3_path) in
     Inr (s3_parts ! 0, if length s3_parts > 1 then rstrip_slash (s3_parts ! 1) else ''''))"

definition upload_key :: "string \<Rightarrow> string \<Rightarrow> nat \<Rightarrow> nat \<Rightarrow> string \<Rightarrow> string" where
  "upload_key base_s3_path model_name tp_size tp_rank tensor_name =
     (if base_s3_path \<noteq> ''''
      then ''raw/'' @ base_s3_path @ ''/'' @ model_name @ ''/TP'' @ str_nat tp_size @ ''/shard'' @
           str_nat tp_rank @ ''/'' @ tensor_name @ ''.bin''
      else ''raw/'' @ model_name @ ''/TP'' @ str_nat tp_size @ ''/shard'' @ str_nat tp_rank @ ''/'' @
           tensor_name @ ''.bin'')"

definition upload_config_key :: "string \<Rightarrow> string \<Rightarrow> string" where
  "upload_config_key base_s3_path model_name =
     (if base_s3_path \<noteq> '''' then ''raw/'' @ base_s3_path @ ''/'' @ model_name @ ''/config.json''
      else ''raw/'' @ model_name @ ''/config.json'')"

definition list_prefix :: "string \<Rightarrow> int \<Rightarrow> int \<Rightarrow> string" where
  "list_prefix base_s3_path tp_size tp_rank =
     (if base_s3_path \<noteq> ''''
      then ''raw/'' @ base_s3_path @ ''/TP'' @ str_int tp_size @ ''/shard'' @ str_int tp_rank @ ''/''
      else ''raw/TP'' @ str_int tp_size @ ''/shard'' @ str_int tp_rank @ ''/'')"

definition load_key :: "string \<Rightarrow> int \<Rightarrow> int \<Rightarrow> string \<Rightarrow> string" where
  "load_key base_s3_path tp_size tp_rank tensor_name =
     (if base_s3_path \<noteq> ''''
      then ''raw/'' @ base_s3_path @ ''/TP'' @ str_int tp_size @ ''/shard'' @ str_int tp_rank @ ''/'' @
           tensor_name @ ''.bin''
      else ''raw/TP'' @ str_int tp_size @ ''/shard'' @ str_int tp_rank @ ''/'' @ tensor_name @ ''.bin'')"

definition load_config_key :: "string \<Rightarrow> string" where
  "load_config_key base_s3_path =
     (if base_s3_path \<noteq> '''' then ''raw/'' @ base_s3_path @ ''/config.json'' else ''raw/config.json'')"

text \<open>
  The listing of a shard: of the keys the paginator returns for the prefix, those of tensor
  files, without the prefix and the extension.
\<close>

definition list_tensor_files_from_s3_with_boto3 ::
  "(string \<Rightarrow> string list py) \<Rightarrow> string \<Rightarrow> int \<Rightarrow> int \<Rightarrow> string list py" where
  "list_tensor_files_from_s3_with_boto3 list_objects base_s3_path tp_size tp_rank =
     (let prefix = list_prefix base_s3_path tp_size tp_rank in
      bindE (list_objects prefix) (\<lambda>keys.
      Inr (map (\<lambda>key. let rest = drop (length prefix) key in take (length rest - 4) rest)
        (filter (\<lambda>key. ends_with key ''.bin'' \<and> \<not> ends_with key ''config.json'' \<and>
            starts_with key prefix) keys))))"

section \<open>Uploading\<close>

definition get_dtype_from_string :: "string option \<Rightarrow> dtype option py" where
  "get_dtype_from_string dtype_str =
     (case dtype_str of None \<Rightarrow> Inr None
      | Some s \<Rightarrow>
         (case map_of [(''float16'', Float16), (''float32'', Float32), (''bfloat16'', BFloat16),
            (''int8'', Int8), (''int16'', Int16), (''int32'', Int32), (''int64'', Int64)] s of
            None \<Rightarrow> Inl ValueError
          | Some d \<Rightarrow> Inr (Some d)))"

definition parse_tp_sizes :: "string \<Rightarrow> int list py" where
  "parse_tp_sizes s = mapE (\<lambda>x. py_int (str_strip x)) (split_on CHR '','' s)"

text \<open>
  \<open>save_tensor_to_file\<close>: the conversion to the target type, if there is one, is torch's
  (\<open>to_dtype\<close>); the result is the bytes of the file and the size in the profile.
\<close>

definition save_tensor_to_file ::
  "(dtype \<Rightarrow> tensor \<Rightarrow> tensor) \<Rightarrow> tensor \<Rightarrow> dtype option \<Rightarrow> (byte list \<times> nat) py" where
  "save_tensor_to_file to_dtype tensor_data target_dtype =
     save_tensor_raw (case target_dtype of None \<Rightarrow> tensor_data | Some d \<Rightarrow> to_dtype d tensor_data)"

text \<open>The uploader's state: the bucket and the counters.\<close>

record 'b uploader =
  bucket :: 'b
  UPLOADED_COUNT :: nat
  TOTAL_COUNT :: int

definition upload_file_to_s3 ::
  "(string \<Rightarrow> byte list \<Rightarrow> 'b \<Rightarrow> 'b py) \<Rightarrow> 'b uploader \<Rightarrow> byte list \<Rightarrow> string \<Rightarrow>
     'b uploader \<times> py_error option" where
  "upload_file_to_s3 upload_file u file_path s3_key =
     (case upload_file s3_key file_path (bucket u) of
        Inl e \<Rightarrow> (u, Some e)
      | Inr b \<Rightarrow> (u\<lparr>bucket := b, UPLOADED_COUNT := UPLOADED_COUNT u + 1\<rparr>, None))"

definition upload_shard ::
  "(string \<Rightarrow> byte list \<Rightarrow> 'b \<Rightarrow> 'b py) \<Rightarrow> (dtype \<Rightarrow> tensor \<Rightarrow> tensor) \<Rightarrow> string \<Rightarrow> string \<Rightarrow> string \<Rightarrow>
     tensor \<Rightarrow> nat \<Rightarrow> 'b uploader \<Rightarrow> nat \<times> nat \<Rightarrow> 'b uploader \<times> py_error option" where
  "upload_shard upload_file to_dtype base_s3_path model_name tensor_name full_tensor vocab_size u tr =
     (case tr of (tp_size, tp_rank) \<Rightarrow>
      case partition_tensor_for_tp tensor_name full_tensor tp_size tp_rank vocab_size of
        Inl e \<Rightarrow> (u, Some e)
      | Inr partitioned_tensor \<Rightarrow>
         (case save_tensor_to_file to_dtype partitioned_tensor None of
            Inl e \<Rightarrow> (u, Some e)
          | Inr (local_file, profiling_stats) \<Rightarrow>
              upload_file_to_s3 upload_file u local_file
                (upload_key base_s3_path model_name tp_size tp_rank tensor_name)))"

text \<open>The iterations of the two nested loops over sizes and ranks.\<close>

definition tp_iterations :: "int list \<Rightarrow> (nat \<times> nat) list" where
  "tp_iterations tp_sizes =
     concat (map (\<lambda>tp_size. map (\<lambda>tp_rank. (nat tp_size, tp_rank)) [0..<nat tp_size]) tp_sizes)"

definition process_and_upload_tensor ::
  "(string \<Rightarrow> byte list \<Rightarrow> 'b \<Rightarrow> 'b py) \<Rightarrow> (dtype \<Rightarrow> tensor \<Rightarrow> tensor) \<Rightarrow> string \<Rightarrow> string \<Rightarrow>
     dtype option \<Rightarrow> int list \<Rightarrow> nat \<Rightarrow> 'b uploader \<Rightarrow> string \<times> tensor \<Rightarrow>
     'b uploader \<times> py_error option" where
  "process_and_upload_tensor upload_file to_dtype base_s3_path model_name target_dtype tp_sizes vocab_size
     u nt =
     (case nt of (tensor_name, tensor_slice) \<Rightarrow>
      let full_tensor = (case target_dtype of None \<Rightarrow> tensor_slice | Some d \<Rightarrow> to_dtype d tensor_slice) in
      foldX (upload_shard upload_file to_dtype base_s3_path model_name tensor_name full_tensor vocab_size)
        u (tp_iterations tp_sizes))"

text \<open>
  \<open>process_safetensor_file\<close>: one task per tensor; what a task raises is logged and the others go
  on. \<open>tensors\<close> lists the tensors of the file in the order the pool runs them.
\<close>

definition process_safetensor_file ::
  "(string \<Rightarrow> byte list \<Rightarrow> 'b \<Rightarrow> 'b py) \<Rightarrow> (dtype \<Rightarrow> tensor \<Rightarrow> tensor) \<Rightarrow> string \<Rightarrow> string \<Rightarrow>
     dtype option \<Rightarrow> int list \<Rightarrow> nat \<Rightarrow> 'b uploader \<Rightarrow> (string \<times> tensor) list \<Rightarrow> 'b uploader" where
  "process_safetensor_file upload_file to_dtype base_s3_path model_name target_dtype tp_sizes vocab_size
     u tensors =
     foldl (\<lambda>v nt. fst (process_and_upload_tensor upload_file to_dtype base_s3_path model_name
         target_dtype tp_sizes vocab_size v nt))
       (u\<lparr>TOTAL_COUNT := TOTAL_COUNT u + int (length tensors) * sum_list tp_sizes\<rparr>) tensors"

text \<open>What the sources rely on of S3.\<close>

definition s3_laws :: "(string \<Rightarrow> byte list \<Rightarrow> 'b \<Rightarrow> 'b py) \<Rightarrow> ('b \<Rightarrow> string \<Rightarrow> byte list py) \<Rightarrow> bool" where
  "s3_laws upload_file get_object \<longleftrightarrow>
     (\<forall>k v b b'. upload_file k v b = Inr b' \<longrightarrow>
        get_object b' k = Inr v \<and> (\<forall>k'. k' \<noteq> k \<longrightarrow> get_object b' k' = get_object b k'))"

section \<open>Lemmas\<close>

lemma shard_suffix_inject:
  "str_nat tp @ ''/shard'' @ str_nat r @ ''/'' @ n = str_nat tp' @ ''/shard'' @ str_nat r' @ ''/'' @ n'
     \<longleftrightarrow> tp = tp' \<and> r = r' \<and> n = n'"
  using prefix_split [of "CHR ''/''" "str_nat tp" "str_nat tp'" "''shard'' @ str_nat r @ ''/'' @ n"
      "''shard'' @ str_nat r' @ ''/'' @ n'"]
    prefix_split [of "CHR ''/''" "str_nat r" "str_nat r'" n n']
  by (auto simp: str_nat_no_sep)

lemma upload_key_inject [simp]:
  "upload_key b m tp r n = upload_key b m tp' r' n' \<longleftrightarrow> tp = tp' \<and> r = r' \<and> n = n'"
  using shard_suffix_inject [of tp r "n @ ''.bin''" tp' r' "n' @ ''.bin''"]
  by (auto simp: upload_key_def)

text \<open>The base path a server gets for a model below the uploader's base path.\<close>

definition model_base :: "string \<Rightarrow> string \<Rightarrow> string" where
  "model_base base_s3_path model_name =
     (if base_s3_path \<noteq> '''' then base_s3_path @ ''/'' @ model_name else model_name)"

lemma load_key_model_base: "m \<noteq> '''' \<Longrightarrow> load_key (model_base b m) (int tp) (int r) n = upload_key b m tp r n"
  by (simp add: load_key_def upload_key_def model_base_def)

lemma load_config_key_model_base: "m \<noteq> '''' \<Longrightarrow> load_config_key (model_base b m) = upload_config_key b m"
  by (simp add: load_config_key_def upload_config_key_def model_base_def)

lemma load_key_prefix: "load_key b tp r n = list_prefix b tp r @ n @ ''.bin''"
  by (simp add: load_key_def list_prefix_def)

lemma split_slash1_append: "CHR ''/'' \<notin> set s \<Longrightarrow> split_slash1 (s @ CHR ''/'' # t) = [s, t]"
proof -
  assume "CHR ''/'' \<notin> set s"
  then have "\<forall>c \<in> set s. c \<noteq> CHR ''/''" by auto
  then show ?thesis by (simp add: split_slash1_def)
qed

lemma rstrip_slash_last: "s \<noteq> [] \<Longrightarrow> last s \<noteq> CHR ''/'' \<Longrightarrow> rstrip_slash s = s"
  by (cases s rule: rev_cases) (simp_all add: rstrip_slash_def)

lemma parse_s3_path_join:
  assumes "CHR ''/'' \<notin> set bkt" and "b \<noteq> []" and "last b \<noteq> CHR ''/''"
  shows "parse_s3_path (''s3://'' @ bkt @ ''/'' @ b) = Inr (bkt, b)"
  using assms by (simp add: parse_s3_path_def split_slash1_append rstrip_slash_last)

lemma split_slash1_head: "CHR ''/'' \<notin> set (split_slash1 s ! 0)"
  by (auto simp: split_slash1_def dropWhile_eq_Nil_conv dest: set_takeWhileD split: list.splits)

lemma parse_s3_path_bucket: "parse_s3_path p = Inr (bkt, b) \<Longrightarrow> CHR ''/'' \<notin> set bkt"
  using split_slash1_head by (auto simp: parse_s3_path_def Let_def bindE_Inr_iff)

lemma ends_with_after_slash:
  assumes "ends_with (p @ CHR ''/'' # rest) ''.bin''"
  shows "\<exists>n. rest = n @ ''.bin''"
proof -
  from assms obtain t where "t @ ''.bin'' = (p @ [CHR ''/'']) @ rest" by (auto simp: ends_with_iff)
  then obtain us where "t = (p @ [CHR ''/'']) @ us \<and> us @ ''.bin'' = rest \<or>
      t @ us = p @ [CHR ''/''] \<and> ''.bin'' = us @ rest"
    by (simp only: append_eq_append_conv2) blast
  then show ?thesis
  proof
    assume *: "t @ us = p @ [CHR ''/''] \<and> ''.bin'' = us @ rest"
    have "us = []"
    proof (rule ccontr)
      assume "us \<noteq> []"
      with * have "last us = CHR ''/''" by (metis last_appendR last_snoc)
      with \<open>us \<noteq> []\<close> have "CHR ''/'' \<in> set us" by (metis last_in_set)
      with * have "CHR ''/'' \<in> set ''.bin''" by (metis UnCI set_append)
      then show False by simp
    qed
    with * show ?thesis by (metis append_Nil)
  qed metis
qed

lemma list_prefix_slash: "\<exists>p. list_prefix b tp r = p @ [CHR ''/'']"
  by (rule exI [of _ "butlast (list_prefix b tp r)"]) (simp add: list_prefix_def butlast_append)

lemma set_list_tensor_files:
  assumes "list_objects (list_prefix b tp r) = Inr (filter (\<lambda>k. starts_with k (list_prefix b tp r)) keys)"
  shows "\<exists>names. list_tensor_files_from_s3_with_boto3 list_objects b tp r = Inr names \<and>
     (\<forall>n. n \<in> set names \<longleftrightarrow> load_key b tp r n \<in> set keys)"
proof -
  let ?p = "list_prefix b tp r"
  let ?ok = "\<lambda>k. ends_with k ''.bin'' \<and> \<not> ends_with k ''config.json'' \<and> starts_with k ?p"
  let ?nm = "\<lambda>k. take (length (drop (length ?p) k) - 4) (drop (length ?p) k)"
  obtain q where q: "?p = q @ [CHR ''/'']" using list_prefix_slash by metis
  have dir: "?ok (?p @ n @ ''.bin'')" "?nm (?p @ n @ ''.bin'') = n" for n
  proof -
    have "starts_with (?p @ n @ ''.bin'') ?p" by (auto simp: starts_with_iff)
    then show "?ok (?p @ n @ ''.bin'')" by (simp add: ends_with_def)
  qed simp
  have conv: "\<exists>n. k = ?p @ n @ ''.bin''" if ok: "?ok k" for k
  proof -
    from ok obtain rest where k: "k = q @ CHR ''/'' # rest" by (auto simp: starts_with_iff q)
    with ok ends_with_after_slash [of q rest] show ?thesis by (auto simp: q)
  qed
  have mem: "n \<in> ?nm ` {k \<in> set keys. ?ok k} \<longleftrightarrow> ?p @ n @ ''.bin'' \<in> set keys" for n
  proof
    assume "n \<in> ?nm ` {k \<in> set keys. ?ok k}"
    then obtain k where "k \<in> set keys" "?ok k" "n = ?nm k" by blast
    with conv [of k] dir(2) show "?p @ n @ ''.bin'' \<in> set keys" by metis
  next
    assume "?p @ n @ ''.bin'' \<in> set keys"
    then show "n \<in> ?nm ` {k \<in> set keys. ?ok k}"
      using dir [of n] by (intro image_eqI [of _ _ "?p @ n @ ''.bin''"]) auto
  qed
  let ?names = "map ?nm (filter ?ok (filter (\<lambda>k. starts_with k ?p) keys))"
  have "set ?names = ?nm ` {k \<in> set keys. ?ok k}" by auto
  then have "\<forall>n. n \<in> set ?names \<longleftrightarrow> load_key b tp r n \<in> set keys"
    using mem by (simp only: load_key_prefix simp_thms)
  moreover have "list_tensor_files_from_s3_with_boto3 list_objects b tp r = Inr ?names"
    by (simp add: list_tensor_files_from_s3_with_boto3_def Let_def assms)
  ultimately show ?thesis by blast
qed

text \<open>One shard: on success it is in the bucket under its key, and nothing else has changed.\<close>

lemma upload_shard_None:
  assumes "s3_laws upload_file get_object"
    and "upload_shard upload_file to_dtype b m n t V u (tp, r) = (u', None)"
  shows "\<exists>part fl len. partition_tensor_for_tp n t tp r V = Inr part \<and> save_tensor_raw part = Inr (fl, len) \<and>
     get_object (bucket u') (upload_key b m tp r n) = Inr fl \<and>
     (\<forall>k. k \<noteq> upload_key b m tp r n \<longrightarrow> get_object (bucket u') k = get_object (bucket u) k) \<and>
     UPLOADED_COUNT u' = UPLOADED_COUNT u + 1"
  using assms
  by (auto simp: upload_shard_def upload_file_to_s3_def save_tensor_to_file_def s3_laws_def
      split: sum.splits prod.splits)

definition shard_stored ::
  "('b \<Rightarrow> string \<Rightarrow> byte list py) \<Rightarrow> string \<Rightarrow> string \<Rightarrow> string \<Rightarrow> tensor \<Rightarrow> nat \<Rightarrow> nat \<times> nat \<Rightarrow> 'b uploader \<Rightarrow> bool" where
  "shard_stored get_object b m n t V tr u \<longleftrightarrow>
     (\<exists>part fl len. partition_tensor_for_tp n t (fst tr) (snd tr) V = Inr part \<and>
        save_tensor_raw part = Inr (fl, len) \<and>
        get_object (bucket u) (upload_key b m (fst tr) (snd tr) n) = Inr fl)"

lemma upload_shards_stored:
  assumes laws: "s3_laws upload_file get_object"
    and run: "foldX (upload_shard upload_file to_dtype b m n t V) u trs = (u', None)"
  shows "\<forall>tr \<in> set trs. shard_stored get_object b m n t V tr u'"
proof -
  have step: "shard_stored get_object b m n t V tr s'"
    if "upload_shard upload_file to_dtype b m n t V s tr = (s', None)" for tr s s'
    using upload_shard_None [OF laws, of to_dtype b m n t V s "fst tr" "snd tr" s'] that
    by (auto simp: shard_stored_def)
  have keep: "shard_stored get_object b m n t V y s'"
    if "shard_stored get_object b m n t V y s"
      and u: "upload_shard upload_file to_dtype b m n t V s x = (s', None)" for x y s s'
  proof (cases "x = y")
    case True
    with step [OF u] show ?thesis by simp
  next
    case False
    then have "upload_key b m (fst y) (snd y) n \<noteq> upload_key b m (fst x) (snd x) n"
      by (auto simp: prod_eq_iff)
    with that upload_shard_None [OF laws, of to_dtype b m n t V s "fst x" "snd x" s']
    show ?thesis by (auto simp: shard_stored_def)
  qed
  from foldX_establishes [OF run, of "\<lambda>_. True" "shard_stored get_object b m n t V"] step keep
  show ?thesis by blast
qed

lemma tp_iterations_mem: "(tp, r) \<in> set (tp_iterations tp_sizes) \<longleftrightarrow> int tp \<in> set tp_sizes \<and> r < tp"
  by (force simp: tp_iterations_def)

section \<open>Properties\<close>

text \<open>
  The server looks where the uploader wrote. When the uploader's \<open>--s3-path\<close> parses to a
  bucket and a base path, the server started with the path of the model below it parses to the
  same bucket, reads every shard and the configuration under the key the uploader gave them,
  and its listing of a shard directory holds a tensor name exactly when the uploader's key of
  that tensor is in the bucket.
\<close>

theorem server_finds_uploads:
  assumes "parse_s3_path p = Inr (bkt, b)" and "m \<noteq> ''''" and "last m \<noteq> CHR ''/''"
    and "list_objects (list_prefix (model_base b m) (int tp) (int r)) =
       Inr (filter (\<lambda>k. starts_with k (list_prefix (model_base b m) (int tp) (int r))) keys)"
  shows "parse_s3_path (''s3://'' @ bkt @ ''/'' @ model_base b m) = Inr (bkt, model_base b m) \<and>
     load_config_key (model_base b m) = upload_config_key b m \<and>
     (\<forall>n. load_key (model_base b m) (int tp) (int r) n = upload_key b m tp r n) \<and>
     (\<exists>names. list_tensor_files_from_s3_with_boto3 list_objects (model_base b m) (int tp) (int r) = Inr names \<and>
        (\<forall>n. n \<in> set names \<longleftrightarrow> upload_key b m tp r n \<in> set keys))"
proof -
  have "model_base b m \<noteq> []" "last (model_base b m) \<noteq> CHR ''/''"
    using assms(2,3) by (auto simp: model_base_def)
  then show ?thesis
    using set_list_tensor_files [of list_objects "model_base b m" "int tp" "int r" keys] assms(4) parse_s3_path_bucket [OF assms(1)] assms(2)
    by (simp only: parse_s3_path_join load_key_model_base load_config_key_model_base simp_thms not_False_eq_True)
qed

theorem server_finds_uploads_witness:
  "\<exists>names. list_tensor_files_from_s3_with_boto3
       (\<lambda>p. Inr (filter (\<lambda>k. starts_with k p) [''raw/m/config.json'', ''raw/m/TP2/shard1/lm_head.weight.bin'']))
       ''m'' 2 1 = Inr names \<and> ''lm_head.weight'' \<in> set names"
proof -
  let ?keys = "[''raw/m/config.json'', ''raw/m/TP2/shard1/lm_head.weight.bin'']"
  have "parse_s3_path ''s3://bkt'' = Inr (''bkt'', [])" by code_simp
  from server_finds_uploads [OF this, of "''m''" "\<lambda>p. Inr (filter (\<lambda>k. starts_with k p) ?keys)" 2 1 ?keys]
  have "\<exists>names. list_tensor_files_from_s3_with_boto3 (\<lambda>p. Inr (filter (\<lambda>k. starts_with k p) ?keys))
       (model_base [] ''m'') 2 1 = Inr names \<and>
       (\<forall>n. n \<in> set names \<longleftrightarrow> upload_key [] ''m'' 2 1 n \<in> set ?keys)"
    by (simp del: filter.simps)
  moreover have "upload_key [] ''m'' 2 1 ''lm_head.weight'' \<in> set ?keys" by code_simp
  moreover have "model_base [] ''m'' = ''m''" by (simp add: model_base_def)
  ultimately show ?thesis by metis
qed

text \<open>
  C29. Upload and load, end to end. After \<open>process_and_upload_tensor\<close> finished without an
  exception, for every requested tensor-parallel size and every rank below it, S3 holds a file
  under the key the server reads, and parsing that file gives the partition of the (converted)
  weight for that rank, provided that partition is a well-formed tensor the format supports.
\<close>

theorem uploaded_shards_load:
  assumes "s3_laws upload_file get_object" and "m \<noteq> ''''"
    and "process_and_upload_tensor upload_file to_dtype b m target_dtype tp_sizes V u (n, t) = (u', None)"
    and "int tp \<in> set tp_sizes" and "r < tp"
  shows "\<exists>part fl. partition_tensor_for_tp n (case target_dtype of None \<Rightarrow> t | Some d \<Rightarrow> to_dtype d t) tp r V =
       Inr part \<and>
     get_object (bucket u') (load_key (model_base b m) (int tp) (int r) n) = Inr fl \<and>
     (tensor_wf part \<and> length (tshape part) \<le> 10 \<and> 0 \<notin> set (tshape part) \<longrightarrow>
        load_tensor_raw fl = Inr part)"
proof -
  let ?full = "case target_dtype of None \<Rightarrow> t | Some d \<Rightarrow> to_dtype d t"
  have "shard_stored get_object b m n ?full V (tp, r) u'"
    using upload_shards_stored [OF assms(1), of to_dtype b m n ?full V u "tp_iterations tp_sizes" u'] assms(3-5)
    by (simp add: process_and_upload_tensor_def Let_def tp_iterations_mem)
  then obtain part fl len where s: "partition_tensor_for_tp n ?full tp r V = Inr part"
    "save_tensor_raw part = Inr (fl, len)" "get_object (bucket u') (upload_key b m tp r n) = Inr fl"
    by (auto simp: shard_stored_def)
  with load_save_trailing [OF s(2), of "[]"] show ?thesis
    by (auto simp: load_key_model_base [OF assms(2)])
qed

definition dict_upload :: "string \<Rightarrow> byte list \<Rightarrow> (string, byte list) dict \<Rightarrow> (string, byte list) dict py" where
  "dict_upload k v b = Inr (dict_set k v b)"

lemma dict_s3_laws: "s3_laws dict_upload (\<lambda>b k. lookupE (dict_get b) k)"
  by (simp add: s3_laws_def dict_upload_def lookupE_def dict_simps)

theorem uploaded_shards_load_witness:
  "\<exists>part fl. partition_tensor_for_tp ''model.norm.weight''
       \<lparr>tshape = [1], tdtype = BFloat16, tdevice = Cpu, telems = [[1, 2]]\<rparr> 1 0 64 = Inr part \<and>
     lookupE (dict_get (bucket (fst (process_and_upload_tensor dict_upload (\<lambda>d t. t) ''b'' ''m'' None [1] 64
         \<lparr>bucket = [], UPLOADED_COUNT = 0, TOTAL_COUNT = 0\<rparr>
         (''model.norm.weight'', \<lparr>tshape = [1], tdtype = BFloat16, tdevice = Cpu, telems = [[1, 2]]\<rparr>)))))
       (load_key (model_base ''b'' ''m'') 1 0 ''model.norm.weight'') = Inr fl \<and>
     load_tensor_raw fl = Inr part"
proof -
  let ?t = "\<lparr>tshape = [1], tdtype = BFloat16, tdevice = Cpu, telems = [[1, 2]]\<rparr>"
  let ?r = "process_and_upload_tensor dict_upload (\<lambda>d t. t) ''b'' ''m'' None [1] 64
         \<lparr>bucket = [], UPLOADED_COUNT = 0, TOTAL_COUNT = 0\<rparr> (''model.norm.weight'', ?t)"
  have p: "partition_tensor_for_tp ''model.norm.weight'' ?t 1 0 64 = Inr ?t" by code_simp
  have "save_tensor_raw ?t = Inr (traw_header [1] 2 2 @ [1, 2], 34)"
    by (simp add: save_tensor_raw_def numel_def pack_uint_def traw_header_def traw_magic_def
        del: le_bytes.simps)
  moreover have "tp_iterations [1] = [(1, 0)]" by (simp add: tp_iterations_def)
  ultimately have "snd ?r = None" using p
    by (simp add: process_and_upload_tensor_def upload_shard_def save_tensor_to_file_def
        upload_file_to_s3_def dict_upload_def)
  then have "?r = (fst ?r, None)" by (metis prod.collapse)
  from uploaded_shards_load [OF dict_s3_laws _ this, of 1 0] p show ?thesis
    by (simp add: tensor_wf_def numel_def)
qed

end
