(* ===== verification/Protocols.thy ===== *)
theory Protocols
  imports Prelude
begin

text \<open>
  The one-byte messages of \<^verbatim>\<open>protocols.py\<close>, used by the tensor store's status server and by
  the virtual nodes that poll it and shut it down.
\<close>

datatype TensorStoreRequest = STATUS_CHECK | SHUTDOWN

datatype TensorStoreResponse = NOT_READY | READY | OK | ERROR

fun request_value :: "TensorStoreRequest \<Rightarrow> byte list" where
  "request_value STATUS_CHECK = [0x30]"
| "request_value SHUTDOWN = [0x31]"

fun response_value :: "TensorStoreResponse \<Rightarrow> byte list" where
  "response_value NOT_READY = [0x30]"
| "response_value READY = [0x31]"
| "response_value OK = [0x32]"
| "response_value ERROR = [0x33]"

text \<open>Distinct messages are distinct bytes, so a receiver can tell them apart.\<close>

lemma request_value_inject [simp]: "request_value a = request_value b \<longleftrightarrow> a = b"
  by (cases a; cases b) simp_all

lemma response_value_inject [simp]: "response_value a = response_value b \<longleftrightarrow> a = b"
  by (cases a; cases b) simp_all

end
