(* ===== verification/TensorStore.thy ===== *)
theory TensorStore
  imports S3Layout Protocols
begin

text \<open>
  The Shared Tensor Store server of \<^verbatim>\<open>TensorStore/raw_s3_tensor_store_server.py\<close>: its module
  globals as a record, the choice of the tensors a pipeline stage loads, loading, fusion of the
  attention and MLP projections, sizing and allocation of the KV cache, the sequence of
  \<open>main\<close>, and the status server with the one-byte protocol of \<^verbatim>\<open>protocols.py\<close>.
  CUDA and torch calls are parameters: \<open>to_device\<close>, \<open>cat\<close> (concatenation along the first
  dimension), \<open>kv_zeros\<close> and the result of \<open>mem_get_info\<close>. Threads of the loading pool run one
  tensor at a time in an arbitrary order, given as a list.
\<close>

section \<open>State\<close>

record kv_metadata =
  md_num_gpu_blocks :: int
  md_block_size :: int
  md_num_layers :: int
  md_start_layer_id :: int
  md_end_layer_id :: int
  md_shape :: "int list"

datatype entry = Weight tensor | KvCache "int list" "dtype option" | Metadata kv_metadata

record store =
  TENSOR_DICT :: "(string, entry) dict"
  DTYPE :: "dtype option"
  CACHE_DTYPE :: "dtype option"
  DEVICE :: device
  NUM_TENSOR_WORKERS :: int
  START_LAYER_ID :: int
  END_LAYER_ID :: int
  TOTAL_LAYER_NUM :: int
  TENSOR_PARALLEL_SIZE :: int
  TENSOR_PARALLEL_RANK :: int
  LOCAL_RANK :: nat
  BLOCK_SIZE :: int
  GPU_MEMORY_UTILIZATION :: py_float
  SWAP_SPACE_BYTES :: int
  PIPELINE_PARALLEL_SIZE :: int
  PIPELINE_PARALLEL_RANK :: int
  MAX_MODEL_LEN :: int
  TENSOR_INITIALIZE_COMPLETE :: bool
  SHUTDOWN_EVENT :: bool

type_synonym config_dict = "(string, int) dict"

definition initial_store :: store where
  "initial_store = \<lparr>TENSOR_DICT = [], DTYPE = None, CACHE_DTYPE = None, DEVICE = Cuda 0,
     NUM_TENSOR_WORKERS = -1, START_LAYER_ID = -1, END_LAYER_ID = -1, TOTAL_LAYER_NUM = -1,
     TENSOR_PARALLEL_SIZE = -1, TENSOR_PARALLEL_RANK = -1, LOCAL_RANK = 0, BLOCK_SIZE = -1,
     GPU_MEMORY_UTILIZATION = -1, SWAP_SPACE_BYTES = -1, PIPELINE_PARALLEL_SIZE = -1,
     PIPELINE_PARALLEL_RANK = -1, MAX_MODEL_LEN = -1, TENSOR_INITIALIZE_COMPLETE = False,
     SHUTDOWN_EVENT = False\<rparr>"

record server_args =
  arg_tensor_parallel_size :: int
  arg_tensor_parallel_rank :: int
  arg_local_rank :: nat
  arg_start_layer_id :: int
  arg_end_layer_id :: int
  arg_block_size :: int
  arg_gpu_num_blocks :: "int option"
  arg_gpu_memory_utilization :: py_float
  arg_swap_space :: py_float
  arg_pipeline_parallel_size :: int
  arg_pipeline_parallel_rank :: int
  arg_max_model_len :: "int option"
  arg_num_workers :: int

definition set_global_variables :: "server_args \<Rightarrow> config_dict \<Rightarrow> store \<Rightarrow> store py" where
  "set_global_variables args config_dict s =
     bindE (lookupE (dict_get config_dict) ''num_hidden_layers'') (\<lambda>num_hidden_layers.
     Inr (s\<lparr>TENSOR_PARALLEL_SIZE := arg_tensor_parallel_size args,
        LOCAL_RANK := arg_local_rank args,
        TENSOR_PARALLEL_RANK := arg_tensor_parallel_rank args,
        DEVICE := Cuda (arg_local_rank args),
        START_LAYER_ID := arg_start_layer_id args,
        END_LAYER_ID := (if arg_end_layer_id args = -1 then num_hidden_layers else arg_end_layer_id args),
        TOTAL_LAYER_NUM := num_hidden_layers,
        NUM_TENSOR_WORKERS := arg_num_workers args,
        BLOCK_SIZE := arg_block_size args,
        GPU_MEMORY_UTILIZATION := arg_gpu_memory_utilization args,
        SWAP_SPACE_BYTES := py_trunc (arg_swap_space args * 1024 * 1024 * 1024),
        PIPELINE_PARALLEL_SIZE := arg_pipeline_parallel_size args,
        PIPELINE_PARALLEL_RANK := arg_pipeline_parallel_rank args,
        MAX_MODEL_LEN := (case arg_max_model_len args of Some n \<Rightarrow> n
           | None \<Rightarrow> (case dict_get config_dict ''max_position_embeddings'' of
                Some n \<Rightarrow> n | None \<Rightarrow> 4096))\<rparr>))"

section \<open>Which tensors a stage loads\<close>

definition should_load_tensor :: "store \<Rightarrow> string \<Rightarrow> bool \<Rightarrow> bool py" where
  "should_load_tensor s tensor_name tie_word_embeddings =
     (if starts_with tensor_name ''model.layers'' then
        bindE (nthE (split_on CHR ''.'' tensor_name) 2) (\<lambda>part.
        bindE (py_int part) (\<lambda>layer_idx.
        Inr (START_LAYER_ID s \<le> layer_idx \<and> layer_idx < END_LAYER_ID s)))
      else if starts_with tensor_name ''model.embed_tokens'' then
        Inr (if \<not> START_LAYER_ID s \<le> 0 then
               (if \<not> tie_word_embeddings then False
                else if \<not> TOTAL_LAYER_NUM s \<le> END_LAYER_ID s then False else True)
             else True)
      else if starts_with tensor_name ''model.norm'' then
        Inr (if \<not> TOTAL_LAYER_NUM s \<le> END_LAYER_ID s then False else True)
      else if starts_with tensor_name ''lm_head'' then
        Inr (if \<not> TOTAL_LAYER_NUM s \<le> END_LAYER_ID s then False else True)
      else Inr True)"

definition filter_required_tensors :: "store \<Rightarrow> string list \<Rightarrow> bool \<Rightarrow> string list py" where
  "filter_required_tensors s all_tensor_names tie_word_embeddings =
     foldE (\<lambda>required tensor_name.
         bindE (should_load_tensor s tensor_name tie_word_embeddings) (\<lambda>b.
         Inr (if b then required @ [tensor_name] else required)))
       [] all_tensor_names"

section \<open>Loading\<close>

definition load_tensor_from_s3_direct :: "(string \<Rightarrow> byte list py) \<Rightarrow> string \<Rightarrow> tensor py" where
  "load_tensor_from_s3_direct get_object s3_key = bindE (get_object s3_key) load_tensor_raw"

text \<open>
  \<open>load_tensor_to_gpu\<close>: the first tensor fixes \<open>DTYPE\<close>, which stays set when the transfer raises.
\<close>

definition load_tensor_to_gpu ::
  "(device \<Rightarrow> tensor \<Rightarrow> tensor py) \<Rightarrow> store \<Rightarrow> string \<Rightarrow> tensor \<Rightarrow> store \<times> py_error option" where
  "load_tensor_to_gpu to_device s tensor_name partitioned_tensor =
     (let s = (case DTYPE s of None \<Rightarrow> s\<lparr>DTYPE := Some (tdtype partitioned_tensor)\<rparr> | Some _ \<Rightarrow> s) in
      case to_device (DEVICE s) partitioned_tensor of
        Inl e \<Rightarrow> (s, Some e)
      | Inr tensor \<Rightarrow>
          (case tdevice tensor of
             Cpu \<Rightarrow> (s, Some AssertionError)
           | Cuda _ \<Rightarrow>
               (s\<lparr>TENSOR_DICT := dict_set tensor_name (Weight tensor) (TENSOR_DICT s)\<rparr>, None)))"

definition load_and_process_tensor ::
  "(string \<Rightarrow> byte list py) \<Rightarrow> (device \<Rightarrow> tensor \<Rightarrow> tensor py) \<Rightarrow> string \<Rightarrow> store \<Rightarrow> string \<Rightarrow>
     store \<times> py_error option" where
  "load_and_process_tensor get_object to_device base_s3_path s tensor_name =
     (case load_tensor_from_s3_direct get_object
        (load_key base_s3_path (TENSOR_PARALLEL_SIZE s) (TENSOR_PARALLEL_RANK s) tensor_name) of
        Inl e \<Rightarrow> (s, Some e)
      | Inr partitioned_tensor \<Rightarrow> load_tensor_to_gpu to_device s tensor_name partitioned_tensor)"

text \<open>
  \<open>load_required_tensors\<close>: the pool needs at least one worker (\<open>ThreadPoolExecutor\<close> raises
  \<open>ValueError\<close> otherwise); what a task raises is logged and dropped. \<open>order\<close> is the order in which
  the workers take effect.
\<close>

definition load_required_tensors ::
  "(string \<Rightarrow> byte list py) \<Rightarrow> (device \<Rightarrow> tensor \<Rightarrow> tensor py) \<Rightarrow> string \<Rightarrow> store \<Rightarrow> string list \<Rightarrow> store py" where
  "load_required_tensors get_object to_device base_s3_path s order =
     (if order = [] then Inr s
      else if min (NUM_TENSOR_WORKERS s) (int (length order)) \<le> 0 then Inl ValueError
      else Inr (foldl (\<lambda>t tensor_name.
          fst (load_and_process_tensor get_object to_device base_s3_path t tensor_name)) s order))"

section \<open>Fusion\<close>

definition layer_name :: "int \<Rightarrow> string \<Rightarrow> string" where
  "layer_name layer_idx rest = ''model.layers.'' @ str_int layer_idx @ rest"

text \<open>
  One fusion: when all sources are present, their concatenation is stored under the new name and
  then the sources are deleted; \<open>cat\<close> is \<open>torch.cat\<close> along the first dimension.
\<close>

definition fuse_group ::
  "(tensor list \<Rightarrow> tensor py) \<Rightarrow> string list \<Rightarrow> string \<Rightarrow> (string, entry) dict \<Rightarrow> (string, entry) dict py" where
  "fuse_group cat sources target d =
     (if list_all (\<lambda>name. dict_get d name \<noteq> None) sources then
        bindE (mapE (\<lambda>name. case dict_get d name of
            Some (Weight t) \<Rightarrow> Inr t | Some _ \<Rightarrow> Inl TypeError | None \<Rightarrow> Inl KeyError) sources) (\<lambda>ts.
        bindE (cat ts) (\<lambda>fused.
        Inr (fold dict_del sources (dict_set target (Weight fused) d))))
      else Inr d)"

definition fuse_tensor :: "(tensor list \<Rightarrow> tensor py) \<Rightarrow> store \<Rightarrow> int \<Rightarrow> store py" where
  "fuse_tensor cat s layer_idx =
     bindE (fuse_group cat
         [layer_name layer_idx ''.self_attn.q_proj.weight'',
          layer_name layer_idx ''.self_attn.k_proj.weight'',
          layer_name layer_idx ''.self_attn.v_proj.weight'']
         (layer_name layer_idx ''.self_attn.qkv_proj.weight'') (TENSOR_DICT s)) (\<lambda>d.
     bindE (fuse_group cat
         [layer_name layer_idx ''.mlp.gate_proj.weight'',
          layer_name layer_idx ''.mlp.up_proj.weight'']
         (layer_name layer_idx ''.mlp.gate_up_proj.weight'') d) (\<lambda>d'.
     Inr (s\<lparr>TENSOR_DICT := d'\<rparr>)))"

section \<open>KV cache\<close>

definition get_kv_cache_shape :: "int \<Rightarrow> int \<Rightarrow> int \<Rightarrow> int \<Rightarrow> int list" where
  "get_kv_cache_shape num_blocks block_size num_kv_heads head_size =
     [2, num_blocks, block_size, num_kv_heads, head_size]"

text \<open>
  \<open>d.get(k, default)\<close>, where the sources compute the default eagerly, so that its exceptions
  count even when the key is present.
\<close>

definition get_or :: "config_dict \<Rightarrow> string \<Rightarrow> int py \<Rightarrow> int py" where
  "get_or config_dict k deflt =
     bindE deflt (\<lambda>v. Inr (case dict_get config_dict k of Some x \<Rightarrow> x | None \<Rightarrow> v))"

definition num_kv_heads_of :: "store \<Rightarrow> config_dict \<Rightarrow> int py" where
  "num_kv_heads_of s config_dict =
     bindE (get_or config_dict ''num_key_value_heads''
         (lookupE (dict_get config_dict) ''num_attention_heads'')) (\<lambda>num_kv_heads.
     Inr (if TENSOR_PARALLEL_SIZE s > 1 then num_kv_heads div TENSOR_PARALLEL_SIZE s else num_kv_heads))"

definition head_size_of :: "config_dict \<Rightarrow> int py" where
  "head_size_of config_dict =
     get_or config_dict ''head_dim''
       (bindE (lookupE (dict_get config_dict) ''hidden_size'') (\<lambda>hidden_size.
        bindE (lookupE (dict_get config_dict) ''num_attention_heads'') (\<lambda>num_attention_heads.
        floordivE hidden_size num_attention_heads)))"

definition cache_dtype_size :: "store \<Rightarrow> int" where
  "cache_dtype_size s = (case CACHE_DTYPE s of Some d \<Rightarrow> int (element_size d) | None \<Rightarrow> 2)"

definition get_cache_block_size_bytes :: "store \<Rightarrow> config_dict \<Rightarrow> int py" where
  "get_cache_block_size_bytes s config_dict =
     (let num_attention_layers = END_LAYER_ID s - START_LAYER_ID s in
      bindE (num_kv_heads_of s config_dict) (\<lambda>num_kv_heads.
      bindE (head_size_of config_dict) (\<lambda>head_size.
      let key_cache_entry = num_kv_heads * head_size;
          value_cache_entry = key_cache_entry;
          total = num_attention_layers * BLOCK_SIZE s * (key_cache_entry + value_cache_entry) in
      Inr (cache_dtype_size s * total))))"

definition get_model_forward_memory :: "store \<Rightarrow> config_dict \<Rightarrow> int py" where
  "get_model_forward_memory s config_dict =
     bindE (lookupE (dict_get config_dict) ''intermediate_size'') (\<lambda>intermediate_size.
     let intermediate_total_dim = MAX_MODEL_LEN s * intermediate_size * 2 in
     Inr (intermediate_total_dim * cache_dtype_size s))"

text \<open>\<open>mem\<close> is what \<open>torch.cuda.mem_get_info\<close> returns: free and total bytes.\<close>

definition determine_num_available_blocks ::
  "int \<times> int \<Rightarrow> store \<Rightarrow> config_dict \<Rightarrow> (store \<times> int \<times> int) py" where
  "determine_num_available_blocks mem s config_dict =
     (let s = (case CACHE_DTYPE s of None \<Rightarrow> s\<lparr>CACHE_DTYPE := DTYPE s\<rparr> | Some _ \<Rightarrow> s) in
      case mem of (free_memory_after, total_memory) \<Rightarrow>
      let using_memory = total_memory - free_memory_after in
      bindE (get_model_forward_memory s config_dict) (\<lambda>model_forward_memory.
      let available_kv_cache_memory = py_trunc (of_int total_memory * GPU_MEMORY_UTILIZATION s -
            of_int using_memory - of_int model_forward_memory) in
      bindE (assertE (available_kv_cache_memory > 0) AssertionError) (\<lambda>_.
      bindE (get_cache_block_size_bytes s config_dict) (\<lambda>cache_block_size.
      bindE (floordivE available_kv_cache_memory cache_block_size) (\<lambda>gpu.
      bindE (floordivE (SWAP_SPACE_BYTES s) cache_block_size) (\<lambda>cpu.
      let num_gpu_blocks = max 0 gpu; num_cpu_blocks = max 0 cpu in
      bindE (assertE (num_gpu_blocks > 0) AssertionError) (\<lambda>_.
      Inr (s, num_gpu_blocks, num_cpu_blocks))))))))"

definition kv_cache_key :: "nat \<Rightarrow> int \<Rightarrow> string" where
  "kv_cache_key ve layer = ''kv_cache.ve_'' @ str_nat ve @ ''.layer_'' @ str_int layer"

definition kv_metadata_key :: "nat \<Rightarrow> string" where
  "kv_metadata_key ve = ''kv_cache_metadata.ve_'' @ str_nat ve"

text \<open>
  The body of the loop over layers and of the loop over virtual engines. \<open>kv_zeros\<close> says whether
  \<open>torch.zeros\<close> succeeds for a shape and element type.
\<close>

definition kv_layer_step ::
  "(int list \<Rightarrow> dtype option \<Rightarrow> unit py) \<Rightarrow> store \<Rightarrow> int list \<Rightarrow> nat \<Rightarrow>
     (string, entry) dict \<Rightarrow> nat \<Rightarrow> (string, entry) dict py" where
  "kv_layer_step kv_zeros s kv_cache_shape ve d layer_idx =
     bindE (kv_zeros kv_cache_shape (CACHE_DTYPE s)) (\<lambda>_.
     Inr (dict_set (kv_cache_key ve (START_LAYER_ID s + int layer_idx))
       (KvCache kv_cache_shape (CACHE_DTYPE s)) d))"

definition kv_engine_step ::
  "(int list \<Rightarrow> dtype option \<Rightarrow> unit py) \<Rightarrow> store \<Rightarrow> int \<Rightarrow> int list \<Rightarrow>
     (string, entry) dict \<Rightarrow> nat \<Rightarrow> (string, entry) dict py" where
  "kv_engine_step kv_zeros s num_gpu_blocks kv_cache_shape d ve =
     (let num_attention_layers = END_LAYER_ID s - START_LAYER_ID s in
      bindE (foldE (kv_layer_step kv_zeros s kv_cache_shape ve) d [0..<nat num_attention_layers]) (\<lambda>d.
      Inr (dict_set (kv_metadata_key ve)
        (Metadata \<lparr>md_num_gpu_blocks = num_gpu_blocks, md_block_size = BLOCK_SIZE s,
           md_num_layers = num_attention_layers, md_start_layer_id = START_LAYER_ID s,
           md_end_layer_id = END_LAYER_ID s, md_shape = kv_cache_shape\<rparr>) d)))"

definition allocate_kv_cache ::
  "(int list \<Rightarrow> dtype option \<Rightarrow> unit py) \<Rightarrow> store \<Rightarrow> config_dict \<Rightarrow> int \<Rightarrow> (store \<times> int \<times> py_float) py" where
  "allocate_kv_cache kv_zeros s config_dict num_gpu_blocks =
     bindE (num_kv_heads_of s config_dict) (\<lambda>num_kv_heads.
     bindE (head_size_of config_dict) (\<lambda>head_size.
     bindE (floordivE num_gpu_blocks (PIPELINE_PARALLEL_SIZE s)) (\<lambda>num_gpu_blocks.
     let kv_cache_shape = get_kv_cache_shape num_gpu_blocks (BLOCK_SIZE s) num_kv_heads head_size in
     bindE (foldE (kv_engine_step kv_zeros s num_gpu_blocks kv_cache_shape) (TENSOR_DICT s)
         [0..<nat (PIPELINE_PARALLEL_SIZE s)]) (\<lambda>d.
     bindE (get_cache_block_size_bytes s config_dict) (\<lambda>cache_block_size.
     Inr (s\<lparr>TENSOR_DICT := d\<rparr>, num_gpu_blocks,
       of_int (num_gpu_blocks * cache_block_size) / 1024 ^ 3))))))"

section \<open>The sequence of main\<close>

text \<open>
  \<open>log_required_tensors_summary\<close> only logs, but it parses the layer number of every name that
  contains \<open>model.layers.\<close>, and raises when that is not a number.
\<close>

fun str_contains :: "string \<Rightarrow> string \<Rightarrow> bool" where
  "str_contains [] p = (p = [])"
| "str_contains (c # s) p = (starts_with (c # s) p \<or> str_contains s p)"

definition log_required_tensors_summary :: "string list \<Rightarrow> unit py" where
  "log_required_tensors_summary required_tensor_names =
     bindE (mapE (\<lambda>tensor. bindE (nthE (split_on CHR ''.'' tensor) 2) py_int)
       (filter (\<lambda>t. str_contains t ''model.layers.'') required_tensor_names)) (\<lambda>_. Inr ())"

datatype outcome = Returned | Raised py_error | Serving store

text \<open>A call whose exception leaves \<open>main\<close>, and one whose exception is logged before \<open>main\<close> returns.\<close>

definition raised_or :: "'a py \<Rightarrow> ('a \<Rightarrow> outcome) \<Rightarrow> outcome" where
  "raised_or m f = (case m of Inl e \<Rightarrow> Raised e | Inr x \<Rightarrow> f x)"

definition returned_or :: "'a py \<Rightarrow> ('a \<Rightarrow> outcome) \<Rightarrow> outcome" where
  "returned_or m f = (case m of Inl e \<Rightarrow> Returned | Inr x \<Rightarrow> f x)"

text \<open>The part of \<open>main\<close> after the weights are loaded: fusion, cache sizing and allocation.\<close>

definition finish_store ::
  "(tensor list \<Rightarrow> tensor py) \<Rightarrow> (int list \<Rightarrow> dtype option \<Rightarrow> unit py) \<Rightarrow> int \<times> int \<Rightarrow> server_args \<Rightarrow>
     config_dict \<Rightarrow> store \<Rightarrow> store py" where
  "finish_store cat kv_zeros mem args config_dict s =
     bindE (foldE (fuse_tensor cat) s [START_LAYER_ID s..END_LAYER_ID s - 1]) (\<lambda>s.
     bindE (assertE (TENSOR_DICT s \<noteq> []) ValueError) (\<lambda>_.
     let s = (case CACHE_DTYPE s of None \<Rightarrow> s\<lparr>CACHE_DTYPE := DTYPE s\<rparr> | Some _ \<Rightarrow> s) in
     bindE (case arg_gpu_num_blocks args of
         Some num_gpu_blocks \<Rightarrow>
           bindE (get_cache_block_size_bytes s config_dict) (\<lambda>cache_block_size.
           bindE (floordivE (SWAP_SPACE_BYTES s) cache_block_size) (\<lambda>cpu.
           Inr (s, num_gpu_blocks, max 0 cpu)))
       | None \<Rightarrow> determine_num_available_blocks mem s config_dict) (\<lambda>(s, num_gpu_blocks, num_cpu_blocks).
     bindE (allocate_kv_cache kv_zeros s config_dict num_gpu_blocks) (\<lambda>(s, kv_cache_info). Inr s))))"

record s3_client =
  s3_head_bucket :: "unit py"
  s3_list_objects :: "string \<Rightarrow> string list py"
  s3_get_object :: "string \<Rightarrow> byte list py"

text \<open>
  \<open>main\<close>, up to the point where the manager serves. \<open>json_config\<close> parses the configuration and
  reads \<open>tie_word_embeddings\<close>; \<open>schedule\<close> is the order in which the loading pool works;
  \<open>bind_manager\<close> is whether the manager's port can be bound.
\<close>

definition server_main ::
  "s3_client \<Rightarrow> (byte list \<Rightarrow> (config_dict \<times> bool) py) \<Rightarrow> (string list \<Rightarrow> string list) \<Rightarrow>
     (device \<Rightarrow> tensor \<Rightarrow> tensor py) \<Rightarrow> (tensor list \<Rightarrow> tensor py) \<Rightarrow>
     (int list \<Rightarrow> dtype option \<Rightarrow> unit py) \<Rightarrow> int \<times> int \<Rightarrow> bool \<Rightarrow> string \<Rightarrow> server_args \<Rightarrow> outcome" where
  "server_main s3 json_config schedule to_device cat kv_zeros mem bind_manager s3_path args =
     raised_or (parse_s3_path s3_path) (\<lambda>(bucket_name, base_s3_path).
     returned_or (s3_head_bucket s3) (\<lambda>_.
     returned_or (bindE (s3_get_object s3 (load_config_key base_s3_path)) json_config)
       (\<lambda>(config_dict, tie_word_embeddings).
     raised_or (set_global_variables args config_dict initial_store) (\<lambda>s.
     raised_or (list_tensor_files_from_s3_with_boto3 (s3_list_objects s3) base_s3_path
         (TENSOR_PARALLEL_SIZE s) (TENSOR_PARALLEL_RANK s)) (\<lambda>all_tensor_names.
     if all_tensor_names = [] then Returned else
     raised_or (filter_required_tensors s all_tensor_names tie_word_embeddings) (\<lambda>required.
     if required = [] then Returned else
     raised_or (log_required_tensors_summary required) (\<lambda>_.
     raised_or (load_required_tensors (s3_get_object s3) to_device base_s3_path s (schedule required)) (\<lambda>s.
     raised_or (finish_store cat kv_zeros mem args config_dict s) (\<lambda>s.
     if bind_manager then Serving (s\<lparr>TENSOR_INITIALIZE_COMPLETE := True\<rparr>) else Returned)))))))))"

section \<open>The status server\<close>

text \<open>
  What the loop sees: the accept times out or fails, or a connection from which \<open>recv(1)\<close> gives
  at most one byte or times out. \<open>MainReady\<close> is the main thread setting the ready flag.
\<close>

datatype status_event = AcceptTimeout | AcceptError | RecvTimeout | Recv "byte list" | MainReady

definition status_msg :: "store \<Rightarrow> byte list" where
  "status_msg s = response_value (if TENSOR_INITIALIZE_COMPLETE s then READY else NOT_READY)"

fun status_step :: "store \<Rightarrow> status_event \<Rightarrow> store \<times> byte list option" where
  "status_step s AcceptTimeout = (s, None)"
| "status_step s AcceptError = (s, None)"
| "status_step s RecvTimeout = (s, None)"
| "status_step s (Recv data) =
     (if data = [] then (s, Some (status_msg s))
      else if data = request_value STATUS_CHECK then (s, Some (status_msg s))
      else if data = request_value SHUTDOWN then (s\<lparr>SHUTDOWN_EVENT := True\<rparr>, Some (response_value OK))
      else (s, Some (response_value ERROR)))"
| "status_step s MainReady = (s\<lparr>TENSOR_INITIALIZE_COMPLETE := True\<rparr>, None)"

text \<open>The answers of the loop to a sequence of events; it ends when the shutdown flag is set.\<close>

fun status_server :: "store \<Rightarrow> status_event list \<Rightarrow> byte list option list" where
  "status_server s [] = []"
| "status_server s (ev # evs) =
     (if SHUTDOWN_EVENT s then []
      else (case status_step s ev of (s', answer) \<Rightarrow> answer # status_server s' evs))"

section \<open>Lemmas: which tensors\<close>

lemma should_load_layer:
  "should_load_tensor s (layer_name (int k) (CHR ''.'' # rest)) tie =
     Inr (START_LAYER_ID s \<le> int k \<and> int k < END_LAYER_ID s)"
proof -
  let ?n = "layer_name (int k) (CHR ''.'' # rest)"
  have "?n = ''model'' @ CHR ''.'' # ''layers'' @ CHR ''.'' # str_nat k @ CHR ''.'' # rest"
    by (simp add: layer_name_def)
  then have "split_on CHR ''.'' ?n = [''model'', ''layers'', str_nat k] @ split_on CHR ''.'' rest"
    by (simp only: split_on_append str_nat_no_sep) (simp add: str_nat_no_sep split_on_append)
  moreover have "starts_with ?n ''model.layers''" by (simp add: layer_name_def)
  ultimately show ?thesis by (simp add: should_load_tensor_def nthE_def py_int_str_nat)
qed

lemma should_load_boundary:
  "should_load_tensor s (''model.embed_tokens'' @ rest) tie =
     Inr (START_LAYER_ID s \<le> 0 \<or> tie \<and> TOTAL_LAYER_NUM s \<le> END_LAYER_ID s)"
  "should_load_tensor s (''model.norm'' @ rest) tie = Inr (TOTAL_LAYER_NUM s \<le> END_LAYER_ID s)"
  "should_load_tensor s (''lm_head'' @ rest) tie = Inr (TOTAL_LAYER_NUM s \<le> END_LAYER_ID s)"
  by (auto simp: should_load_tensor_def)

lemma tiles_strict_first:
  "tiles rs a b \<Longrightarrow> \<forall>r \<in> set rs. fst r < snd r \<Longrightarrow> i < length rs \<Longrightarrow> fst (rs ! i) \<le> a \<longleftrightarrow> i = 0"
proof (induction rs a b rule: tiles.induct)
  case (2 s e rs a b)
  show ?case
  proof (cases i)
    case (Suc j)
    have "e \<le> fst (rs ! j)"
      using tiles_bounds [of rs e b "fst (rs ! j)" "snd (rs ! j)"] "2.prems" Suc by simp
    with "2.prems" Suc show ?thesis by auto
  qed (use "2.prems" in auto)
qed simp

lemma tiles_strict_last:
  "tiles rs a b \<Longrightarrow> \<forall>r \<in> set rs. fst r < snd r \<Longrightarrow> i < length rs \<Longrightarrow>
     b \<le> snd (rs ! i) \<longleftrightarrow> i = length rs - 1"
proof (induction rs a b arbitrary: i rule: tiles.induct)
  case (2 s e rs a b)
  show ?case
  proof (cases i)
    case 0
    show ?thesis
    proof (cases rs)
      case (Cons r rs')
      with "2.prems" have "e < b" using tiles_le [of rs' "snd r" b] by (cases r) auto
      with 0 Cons show ?thesis by simp
    qed (use "2.prems" 0 in simp)
  next
    case (Suc j)
    then show ?thesis using "2.IH" [of j] "2.prems" by auto
  qed
qed simp

section \<open>Lemmas: loading\<close>

text \<open>The tensor a stage gets for a name, or the exception its task raises.\<close>

definition fetched ::
  "(string \<Rightarrow> byte list py) \<Rightarrow> (device \<Rightarrow> tensor \<Rightarrow> tensor py) \<Rightarrow> string \<Rightarrow> store \<Rightarrow> string \<Rightarrow> tensor py" where
  "fetched get_object to_device b s n =
     bindE (load_tensor_from_s3_direct get_object (load_key b (TENSOR_PARALLEL_SIZE s) (TENSOR_PARALLEL_RANK s) n))
       (\<lambda>t. bindE (to_device (DEVICE s) t) (\<lambda>t'.
         bindE (assertE (tdevice t' \<noteq> Cpu) AssertionError) (\<lambda>_. Inr t')))"

text \<open>The part of the state a loading task reads.\<close>

definition same_config :: "store \<Rightarrow> store \<Rightarrow> bool" where
  "same_config s s' \<longleftrightarrow> TENSOR_PARALLEL_SIZE s' = TENSOR_PARALLEL_SIZE s \<and>
     TENSOR_PARALLEL_RANK s' = TENSOR_PARALLEL_RANK s \<and> DEVICE s' = DEVICE s \<and>
     START_LAYER_ID s' = START_LAYER_ID s"

lemma load_and_process_tensor_dict:
  "same_config s (fst (load_and_process_tensor get_object to_device b s n)) \<and>
   TENSOR_DICT (fst (load_and_process_tensor get_object to_device b s n)) =
     (case fetched get_object to_device b s n of
        Inl e \<Rightarrow> TENSOR_DICT s | Inr t \<Rightarrow> dict_set n (Weight t) (TENSOR_DICT s))"
  by (auto simp: load_and_process_tensor_def load_tensor_to_gpu_def fetched_def same_config_def Let_def
      bindE_def assertE_def split: sum.splits option.splits device.splits)

lemma fetched_same_config: "same_config s s' \<Longrightarrow> fetched get_object to_device b s' = fetched get_object to_device b s"
  by (simp add: fetched_def same_config_def fun_eq_iff)

lemma load_all_dict:
  "dict_get (TENSOR_DICT (foldl (\<lambda>t n. fst (load_and_process_tensor get_object to_device b t n)) s order)) k =
     (if k \<in> set order then
        (case fetched get_object to_device b s k of Inl e \<Rightarrow> dict_get (TENSOR_DICT s) k | Inr t \<Rightarrow> Some (Weight t))
      else dict_get (TENSOR_DICT s) k)"
proof (induction order arbitrary: s)
  case (Cons n order)
  let ?s = "fst (load_and_process_tensor get_object to_device b s n)"
  have s: "same_config s ?s" "TENSOR_DICT ?s = (case fetched get_object to_device b s n of
        Inl e \<Rightarrow> TENSOR_DICT s | Inr t \<Rightarrow> dict_set n (Weight t) (TENSOR_DICT s))"
    using load_and_process_tensor_dict by blast+
  show ?case
    by (simp add: Cons.IH fetched_same_config [OF s(1)] s(2) dict_simps split: sum.splits)
qed simp

section \<open>Lemmas: fusion\<close>

lemma layer_name_inject [simp]: "layer_name l x = layer_name l y \<longleftrightarrow> x = y"
  by (simp add: layer_name_def)

lemma fuse_group_present:
  assumes "dict_wf d" and "list_all2 (\<lambda>n t. dict_get d n = Some (Weight t)) sources ts"
    and "target \<notin> set sources" and "cat ts = Inr fused"
  shows "\<exists>d'. fuse_group cat sources target d = Inr d' \<and> dict_wf d' \<and>
     dict_get d' = ((dict_get d) |` (- set sources))(target \<mapsto> Weight fused)"
proof -
  have "mapE (\<lambda>name. case dict_get d name of
      Some (Weight t) \<Rightarrow> Inr t | Some _ \<Rightarrow> Inl TypeError | None \<Rightarrow> Inl KeyError) sources = Inr ts"
    using assms(2) by (auto simp: mapE_Inr_iff elim: list_all2_mono)
  moreover have "list_all (\<lambda>name. dict_get d name \<noteq> None) sources"
    using assms(2) by (induction rule: list_all2_induct) auto
  ultimately show ?thesis
    using assms pd.get_replace [OF assms(1,3)] by (simp add: fuse_group_def pd.ok_fold_del)
qed

lemma fuse_group_absent:
  "n \<in> set sources \<Longrightarrow> dict_get d n = None \<Longrightarrow> fuse_group cat sources target d = Inr d"
  by (auto simp: fuse_group_def list_all_iff)

section \<open>Lemmas: KV cache\<close>

text \<open>
  Bytes of GPU memory the KV caches in the dictionary take. \<open>torch.zeros\<close> without a dtype
  allocates float32, four bytes per element.
\<close>

fun entry_bytes :: "entry \<Rightarrow> nat" where
  "entry_bytes (KvCache shape dt) =
     nat (prod_list shape) * (case dt of Some d \<Rightarrow> element_size d | None \<Rightarrow> 4)"
| "entry_bytes _ = 0"

definition kv_bytes :: "(string, entry) dict \<Rightarrow> nat" where
  "kv_bytes d = (\<Sum>(k, e)\<leftarrow>d. entry_bytes e)"

lemma kv_bytes_dict_set: "kv_bytes (dict_set k e d) \<le> kv_bytes d + entry_bytes e"
  by (induction d) (auto simp: kv_bytes_def)

lemma kv_engines_bytes:
  assumes "foldE (kv_engine_step kv_zeros s nb shape) d ves = Inr d'"
  shows "kv_bytes d' \<le> kv_bytes d + length ves *
     (nat (END_LAYER_ID s - START_LAYER_ID s) * entry_bytes (KvCache shape (CACHE_DTYPE s)))"
proof (rule foldE_measure [OF assms])
  fix d0 ve d1
  assume "kv_engine_step kv_zeros s nb shape d0 ve = Inr d1"
  then obtain d2 md where d2: "foldE (kv_layer_step kv_zeros s shape ve) d0
      [0..<nat (END_LAYER_ID s - START_LAYER_ID s)] = Inr d2" "d1 = dict_set (kv_metadata_key ve) (Metadata md) d2"
    by (auto simp: kv_engine_step_def Let_def bindE_Inr_iff)
  have "kv_bytes d2 \<le> kv_bytes d0 + length [0..<nat (END_LAYER_ID s - START_LAYER_ID s)] *
      entry_bytes (KvCache shape (CACHE_DTYPE s))"
    by (rule foldE_measure [OF d2(1)])
      (use kv_bytes_dict_set in \<open>auto simp: kv_layer_step_def bindE_Inr_iff simp del: entry_bytes.simps\<close>)
  moreover have "kv_bytes d1 \<le> kv_bytes d2"
    using kv_bytes_dict_set [of "kv_metadata_key ve" "Metadata md" d2] d2(2) by simp
  ultimately show "kv_bytes d1 \<le> kv_bytes d0 +
      nat (END_LAYER_ID s - START_LAYER_ID s) * entry_bytes (KvCache shape (CACHE_DTYPE s))"
    by simp
qed

text \<open>The caches of one layer for all engines take at most the blocks they were sized for.\<close>

lemma engines_blocks_bound:
  fixes nb cbs layers unit pp :: int
  assumes "cbs = layers * unit" and "0 < cbs" and "0 < nb"
  shows "int (nat pp) * (int (nat layers) * int (nat ((nb div pp) * unit))) \<le> nb * cbs"
proof (cases "0 < pp \<and> 0 < layers")
  case True
  then have "0 \<le> unit" using assms(1,2) by (simp add: zero_less_mult_iff)
  then have "0 \<le> (nb div pp) * unit" using True assms(3) by (simp add: pos_imp_zdiv_nonneg_iff)
  then have "int (nat pp) * (int (nat layers) * int (nat ((nb div pp) * unit))) = (pp * (nb div pp)) * cbs"
    using True assms(1) by simp
  also have "\<dots> \<le> nb * cbs"
    using True assms(2) by (intro mult_right_mono) (simp_all add: minus_mod_eq_mult_div [symmetric])
  finally show ?thesis .
next
  case False
  then have "nat pp = 0 \<or> nat layers = 0" by auto
  with assms show ?thesis by auto
qed

lemma determine_num_available_blocksD:
  assumes "determine_num_available_blocks (free, tot) s cfg = Inr (s', gpu, cpu)"
  obtains fwd cbs where "get_model_forward_memory s' cfg = Inr fwd"
    and "get_cache_block_size_bytes s' cfg = Inr cbs" and "0 < cbs" and "0 < gpu"
    and "TENSOR_DICT s' = TENSOR_DICT s"
    and "of_int (gpu * cbs) \<le> of_int tot * GPU_MEMORY_UTILIZATION s - of_int (tot - free) - (of_int fwd :: rat)"
proof -
  let ?s = "case CACHE_DTYPE s of None \<Rightarrow> s\<lparr>CACHE_DTYPE := DTYPE s\<rparr> | Some _ \<Rightarrow> s"
  from assms obtain fwd cbs where r: "s' = ?s" "get_model_forward_memory ?s cfg = Inr fwd"
    "get_cache_block_size_bytes ?s cfg = Inr cbs" "cbs \<noteq> 0"
    and av: "0 < py_trunc (of_int tot * GPU_MEMORY_UTILIZATION ?s - of_int (tot - free) - of_int fwd)"
    and gpu: "gpu = max 0 (py_trunc (of_int tot * GPU_MEMORY_UTILIZATION ?s - of_int (tot - free) -
       of_int fwd) div cbs)" "0 < gpu"
    by (auto simp: determine_num_available_blocks_def Let_def bindE_Inr_iff assertE_Inr_iff floordivE_Inr_iff)
  define a :: rat where "a = of_int tot * GPU_MEMORY_UTILIZATION s - of_int (tot - free) - of_int fwd"
  have same: "GPU_MEMORY_UTILIZATION ?s = GPU_MEMORY_UTILIZATION s" "TENSOR_DICT ?s = TENSOR_DICT s"
    by (simp_all split: option.splits)
  have g: "gpu = py_trunc a div cbs" "0 < py_trunc a" using gpu av same a_def by auto
  have "\<lceil>a\<rceil> \<le> 0" if "\<not> 0 \<le> a" using that by (simp add: ceiling_le_iff)
  with g(2) have t: "py_trunc a = \<lfloor>a\<rfloor>" "0 \<le> a" by (auto simp: py_trunc_def split: if_splits)
  have cbs: "0 < cbs"
  proof (rule ccontr)
    assume "\<not> 0 < cbs"
    with g(2) r(4) have "py_trunc a div cbs \<le> 0" by (simp add: div_nonpos_pos_le0 div_nonneg_neg_le0)
    with g(1) gpu(2) show False by simp
  qed
  have "gpu * cbs \<le> \<lfloor>a\<rfloor>" using g(1) t(1) cbs by (simp add: minus_mod_eq_div_mult [symmetric])
  then have "of_int (gpu * cbs) \<le> a" by (simp only: le_floor_iff)
  with r cbs gpu(2) same show thesis by (intro that [of fwd cbs]) (auto simp: a_def)
qed

lemma nat_times_of_nat: "nat p * e = nat (p * int e)"
  by (cases "0 \<le> p") (simp_all add: nat_mult_distrib mult_nonpos_nonneg)

text \<open>
  The blocks are sized with the dtype of the cache, and with two bytes per element when it is
  not known; in that case the allocated caches are twice as large.
\<close>

definition cache_factor :: "store \<Rightarrow> int" where
  "cache_factor s = (case CACHE_DTYPE s of Some _ \<Rightarrow> 1 | None \<Rightarrow> 2)"

lemma cache_element_size:
  "int (case CACHE_DTYPE s of Some d \<Rightarrow> element_size d | None \<Rightarrow> 4) = cache_factor s * cache_dtype_size s"
  by (simp add: cache_factor_def cache_dtype_size_def split: option.splits)

lemma allocate_kv_cache_bytes:
  assumes "allocate_kv_cache kv_zeros s cfg nb = Inr (s', info)"
    and "get_cache_block_size_bytes s cfg = Inr cbs" and "0 < cbs" and "0 < nb"
  shows "int (kv_bytes (TENSOR_DICT s')) \<le> int (kv_bytes (TENSOR_DICT s)) + cache_factor s * (nb * cbs)"
proof -
  let ?l = "END_LAYER_ID s - START_LAYER_ID s" and ?q = "nb div PIPELINE_PARALLEL_SIZE s"
  obtain kvh hs where k: "num_kv_heads_of s cfg = Inr kvh" "head_size_of cfg = Inr hs"
    "foldE (kv_engine_step kv_zeros s ?q (get_kv_cache_shape ?q (BLOCK_SIZE s) kvh hs)) (TENSOR_DICT s)
       [0..<nat (PIPELINE_PARALLEL_SIZE s)] = Inr (TENSOR_DICT s')"
    using assms(1) by (auto simp: allocate_kv_cache_def Let_def bindE_Inr_iff floordivE_Inr_iff)
  define unit where "unit = 2 * BLOCK_SIZE s * kvh * hs * cache_dtype_size s"
  have cbs: "cbs = ?l * unit"
    using assms(2) k(1,2) by (simp add: get_cache_block_size_bytes_def Let_def unit_def algebra_simps)
  have f: "0 \<le> cache_factor s" by (simp add: cache_factor_def split: option.splits)
  have p: "prod_list (get_kv_cache_shape ?q (BLOCK_SIZE s) kvh hs) * (cache_factor s * cache_dtype_size s) =
      cache_factor s * (?q * unit)"
    by (simp add: get_kv_cache_shape_def unit_def)
  have n: "int (nat (cache_factor s * x)) = cache_factor s * int (nat x)" for x
    by (simp add: nat_mult_distrib [OF f] f)
  have e: "int (entry_bytes (KvCache (get_kv_cache_shape ?q (BLOCK_SIZE s) kvh hs) (CACHE_DTYPE s))) =
      cache_factor s * int (nat (?q * unit))"
    by (simp only: entry_bytes.simps nat_times_of_nat cache_element_size p n)
  have "int (kv_bytes (TENSOR_DICT s')) \<le> int (kv_bytes (TENSOR_DICT s)) +
      int (nat (PIPELINE_PARALLEL_SIZE s)) * (int (nat ?l) * (cache_factor s * int (nat (?q * unit))))"
    using kv_engines_bytes [OF k(3)] unfolding e [symmetric]
    by (simp only: of_nat_le_iff length_upt minus_nat.diff_0 flip: of_nat_mult of_nat_add)
  also have "\<dots> \<le> int (kv_bytes (TENSOR_DICT s)) + cache_factor s * (nb * cbs)"
    using mult_left_mono [OF engines_blocks_bound [OF cbs assms(3,4), of "PIPELINE_PARALLEL_SIZE s"] f]
    by (simp only: mult.left_commute [of _ "cache_factor s"] add_le_cancel_left)
  finally show ?thesis .
qed

lemma kv_cache_key_inject [simp]:
  "kv_cache_key ve (int l) = kv_cache_key ve' (int l') \<longleftrightarrow> ve = ve' \<and> l = l'"
  using prefix_split [of "CHR ''.''" "str_nat ve" "str_nat ve'" "''layer_'' @ str_nat l" "''layer_'' @ str_nat l'"]
  by (auto simp: kv_cache_key_def str_nat_no_sep)

lemma kv_key_not_metadata [simp]: "kv_cache_key ve l \<noteq> kv_metadata_key ve'"
  by (simp add: kv_cache_key_def kv_metadata_key_def)

lemma kv_metadata_key_inject [simp]: "kv_metadata_key ve = kv_metadata_key ve' \<longleftrightarrow> ve = ve'"
  by (simp add: kv_metadata_key_def)

definition engine_ready :: "store \<Rightarrow> int list \<Rightarrow> nat \<Rightarrow> (string, entry) dict \<Rightarrow> bool" where
  "engine_ready s shape ve d \<longleftrightarrow>
     (\<forall>i < nat (END_LAYER_ID s - START_LAYER_ID s).
        dict_get d (kv_cache_key ve (START_LAYER_ID s + int i)) = Some (KvCache shape (CACHE_DTYPE s))) \<and>
     (\<exists>md. dict_get d (kv_metadata_key ve) = Some (Metadata md) \<and> md_shape md = shape \<and>
        md_start_layer_id md = START_LAYER_ID s \<and> md_end_layer_id md = END_LAYER_ID s)"

lemma kv_layers_dict:
  assumes "foldE (kv_layer_step kv_zeros s shape ve) d [0..<n] = Inr d'"
  shows "dict_get d' k = (if \<exists>i < n. k = kv_cache_key ve (START_LAYER_ID s + int i)
     then Some (KvCache shape (CACHE_DTYPE s)) else dict_get d k)"
  using assms
proof (induction n arbitrary: d')
  case (Suc n)
  then obtain e where "foldE (kv_layer_step kv_zeros s shape ve) d [0..<n] = Inr e"
    "d' = dict_set (kv_cache_key ve (START_LAYER_ID s + int n)) (KvCache shape (CACHE_DTYPE s)) e"
    by (auto simp: foldE_append bindE_Inr_iff) (auto simp: kv_layer_step_def bindE_Inr_iff)
  with Suc.IH [of e] show ?case by (auto simp: dict_simps less_Suc_eq)
qed simp

lemma kv_engines_ready:
  assumes "foldE (kv_engine_step kv_zeros s nb shape) d [0..<n] = Inr d'" and "0 \<le> START_LAYER_ID s"
  shows "\<forall>ve < n. engine_ready s shape ve d'"
proof -
  obtain st where st: "START_LAYER_ID s = int st" using assms(2) nonneg_int_cases by blast
  have step: "k \<noteq> kv_metadata_key ve \<Longrightarrow> \<forall>i. k \<noteq> kv_cache_key ve (int (st + i)) \<Longrightarrow> dict_get e' k = dict_get e k"
    "engine_ready s shape ve e'"
    if "kv_engine_step kv_zeros s nb shape e ve = Inr e'" for e e' ve k
  proof -
    from that obtain e1 where e1: "foldE (kv_layer_step kv_zeros s shape ve) e
        [0..<nat (END_LAYER_ID s - START_LAYER_ID s)] = Inr e1"
      and e': "e' = dict_set (kv_metadata_key ve)
        (Metadata \<lparr>md_num_gpu_blocks = nb, md_block_size = BLOCK_SIZE s,
           md_num_layers = END_LAYER_ID s - START_LAYER_ID s, md_start_layer_id = START_LAYER_ID s,
           md_end_layer_id = END_LAYER_ID s, md_shape = shape\<rparr>) e1"
      by (auto simp: kv_engine_step_def Let_def bindE_Inr_iff)
    show "engine_ready s shape ve e'"
      by (auto simp: engine_ready_def e' dict_simps kv_layers_dict [OF e1])
    show "dict_get e' k = dict_get e k"
      if "k \<noteq> kv_metadata_key ve" "\<forall>i. k \<noteq> kv_cache_key ve (int (st + i))"
      using that by (simp add: e' dict_simps kv_layers_dict [OF e1] st)
  qed
  have keep: "engine_ready s shape y e'"
    if "engine_ready s shape y e" and run: "kv_engine_step kv_zeros s nb shape e x = Inr e'" for x y e e'
  proof (cases "x = y")
    case False
    then have "dict_get e' (kv_cache_key y (int (st + i))) = dict_get e (kv_cache_key y (int (st + i)))"
      "dict_get e' (kv_metadata_key y) = dict_get e (kv_metadata_key y)" for i
      by (intro step(1) [OF run]; simp del: of_nat_add add: kv_key_not_metadata [symmetric])+
    with that(1) show ?thesis by (simp add: engine_ready_def st)
  qed (use step(2) [OF run] in simp)
  have "True \<and> (\<forall>ve \<in> set [0..<n]. engine_ready s shape ve d')"
    by (rule foldE_establishes [OF assms(1)]) (use step(2) keep in auto)
  then show ?thesis by simp
qed

section \<open>Lemmas: status server\<close>

text \<open>What the loop answers, from the events alone.\<close>

fun is_shutdown :: "status_event \<Rightarrow> bool" where
  "is_shutdown (Recv data) = (data = request_value SHUTDOWN)"
| "is_shutdown _ = False"

fun is_query :: "status_event \<Rightarrow> bool" where
  "is_query (Recv data) = (data = [] \<or> data = request_value STATUS_CHECK)"
| "is_query _ = False"

lemma status_server_down: "SHUTDOWN_EVENT s \<Longrightarrow> status_server s evs = []"
  by (cases evs) auto

lemma status_server_nth:
  "i < length evs \<Longrightarrow> \<not> SHUTDOWN_EVENT s \<Longrightarrow> \<forall>j < i. \<not> is_shutdown (evs ! j) \<Longrightarrow>
     i < length (status_server s evs) \<and>
     (is_query (evs ! i) \<longrightarrow> status_server s evs ! i =
        Some (response_value (if TENSOR_INITIALIZE_COMPLETE s \<or> MainReady \<in> set (take i evs) then READY else NOT_READY)))"
proof (induction evs arbitrary: s i)
  case (Cons ev evs)
  show ?case
  proof (cases i)
    case 0
    with Cons.prems show ?thesis by (cases ev) (auto simp: status_msg_def split: prod.splits)
  next
    case (Suc j)
    have nsd: "\<not> is_shutdown ev" using Cons.prems(3) Suc by force
    let ?s = "fst (status_step s ev)"
    have "\<not> SHUTDOWN_EVENT ?s" "TENSOR_INITIALIZE_COMPLETE ?s \<longleftrightarrow> TENSOR_INITIALIZE_COMPLETE s \<or> ev = MainReady"
      using nsd Cons.prems(2) by (cases ev; simp)+
    moreover have "\<forall>ja < j. \<not> is_shutdown (evs ! ja)" using Cons.prems(3) Suc by (metis Suc_less_eq nth_Cons_Suc)
    ultimately show ?thesis using Cons.IH [of j ?s] Cons.prems(1,2) Suc
      by (simp add: case_prod_beta eq_commute [of ev])
  qed
qed simp

lemma status_server_length:
  "\<not> SHUTDOWN_EVENT s \<Longrightarrow> i < length evs \<Longrightarrow> is_shutdown (evs ! i) \<Longrightarrow> length (status_server s evs) \<le> Suc i"
proof (induction evs arbitrary: s i)
  case (Cons ev evs)
  show ?case
  proof (cases i)
    case 0
    then have "ev = Recv (request_value SHUTDOWN)" using Cons.prems(3) by (cases ev) auto
    with 0 Cons.prems(1) show ?thesis by (simp add: status_server_down)
  next
    case (Suc j)
    with Cons show ?thesis
      by (cases "SHUTDOWN_EVENT (fst (status_step s ev))") (auto simp: case_prod_beta status_server_down)
  qed
qed simp

section \<open>Lemmas: the sequence of main\<close>

lemma raised_or_Serving:
  "raised_or m f = Serving s \<longleftrightarrow> (\<exists>x. m = Inr x \<and> f x = Serving s)"
  "returned_or m f = Serving s \<longleftrightarrow> (\<exists>x. m = Inr x \<and> f x = Serving s)"
  by (simp_all add: raised_or_def returned_or_def split: sum.splits)

lemma same_config_trans: "same_config s t \<Longrightarrow> same_config t u \<Longrightarrow> same_config s u"
  by (simp add: same_config_def)

lemma load_required_tensors_config:
  assumes "load_required_tensors get_object to_device b s order = Inr s'"
  shows "same_config s s'"
proof -
  let ?f = "\<lambda>t n. fst (load_and_process_tensor get_object to_device b t n)"
  have "same_config s (foldl ?f s order)"
  proof (induction order rule: rev_induct)
    case (snoc n order)
    then show ?case using load_and_process_tensor_dict by (auto intro: same_config_trans)
  qed (simp add: same_config_def)
  with assms show ?thesis
    by (auto simp: load_required_tensors_def same_config_def split: if_splits)
qed

lemma fuse_layers_config:
  assumes "foldE (fuse_tensor cat) s ls = Inr s'"
  shows "same_config s s'"
  by (rule foldE_invariant [OF assms]) (auto simp: same_config_def fuse_tensor_def bindE_Inr_iff)

lemma allocate_kv_cache_ready:
  assumes "allocate_kv_cache kv_zeros s cfg nb = Inr (s', info)" and "0 \<le> START_LAYER_ID s"
  shows "\<exists>shape. \<forall>ve < nat (PIPELINE_PARALLEL_SIZE s'). engine_ready s' shape ve (TENSOR_DICT s')"
proof -
  from assms(1) obtain nb shape d where "foldE (kv_engine_step kv_zeros s nb shape) (TENSOR_DICT s)
      [0..<nat (PIPELINE_PARALLEL_SIZE s)] = Inr d" and s': "s' = s\<lparr>TENSOR_DICT := d\<rparr>"
    by (auto simp: allocate_kv_cache_def Let_def bindE_Inr_iff)
  from kv_engines_ready [OF this(1) assms(2)] show ?thesis
    by (auto simp: s' engine_ready_def)
qed

lemma finish_store_ready:
  assumes "finish_store cat kv_zeros mem args cfg s = Inr s'" and "0 \<le> START_LAYER_ID s"
  shows "\<exists>shape. \<forall>ve < nat (PIPELINE_PARALLEL_SIZE s'). engine_ready s' shape ve (TENSOR_DICT s')"
proof -
  obtain s1 s2 n c info where f: "foldE (fuse_tensor cat) s [START_LAYER_ID s..END_LAYER_ID s - 1] = Inr s1"
    and c: "(case arg_gpu_num_blocks args of
         Some num_gpu_blocks \<Rightarrow>
           bindE (get_cache_block_size_bytes (case CACHE_DTYPE s1 of None \<Rightarrow> s1\<lparr>CACHE_DTYPE := DTYPE s1\<rparr> | Some _ \<Rightarrow> s1) cfg) (\<lambda>cache_block_size.
           bindE (floordivE (SWAP_SPACE_BYTES (case CACHE_DTYPE s1 of None \<Rightarrow> s1\<lparr>CACHE_DTYPE := DTYPE s1\<rparr> | Some _ \<Rightarrow> s1)) cache_block_size) (\<lambda>cpu.
           Inr (case CACHE_DTYPE s1 of None \<Rightarrow> s1\<lparr>CACHE_DTYPE := DTYPE s1\<rparr> | Some _ \<Rightarrow> s1, num_gpu_blocks, max 0 cpu)))
       | None \<Rightarrow> determine_num_available_blocks mem (case CACHE_DTYPE s1 of None \<Rightarrow> s1\<lparr>CACHE_DTYPE := DTYPE s1\<rparr> | Some _ \<Rightarrow> s1) cfg) = Inr (s2, n, c)"
    and a: "allocate_kv_cache kv_zeros s2 cfg n = Inr (s', info)"
    using assms(1) by (auto simp: finish_store_def Let_def bindE_Inr_iff)
  have "START_LAYER_ID s2 = START_LAYER_ID s1"
    using c by (cases mem) (auto simp: determine_num_available_blocks_def Let_def bindE_Inr_iff split: option.splits)
  with fuse_layers_config [OF f] assms(2) allocate_kv_cache_ready [OF a] show ?thesis
    by (simp add: same_config_def)
qed

text \<open>The dtype is set with the first weight, so a store that holds a weight knows it.\<close>

definition dtype_known :: "store \<Rightarrow> bool" where
  "dtype_known s \<longleftrightarrow> (TENSOR_DICT s \<noteq> [] \<longrightarrow> DTYPE s \<noteq> None)"

lemma load_required_tensors_dtype:
  assumes "load_required_tensors get_object to_device b s order = Inr s'" and "dtype_known s"
  shows "dtype_known s'"
proof -
  let ?f = "\<lambda>t n. fst (load_and_process_tensor get_object to_device b t n)"
  have "dtype_known (?f t n)" if "dtype_known t" for t n
    using that by (auto simp: dtype_known_def load_and_process_tensor_def load_tensor_to_gpu_def Let_def
        split: sum.splits option.splits device.splits)
  then have "dtype_known (foldl ?f s order)" using assms(2) by (induction order arbitrary: s) auto
  with assms show ?thesis by (auto simp: load_required_tensors_def split: if_splits)
qed

lemma fuse_layers_dtype:
  assumes "foldE (fuse_tensor cat) s ls = Inr s'" and "dtype_known s"
  shows "dtype_known s'"
  by (rule foldE_invariant [OF assms(1)], rule assms(2))
    (auto simp: dtype_known_def fuse_tensor_def fuse_group_def bindE_Inr_iff split: if_splits)

lemma finish_store_dtype:
  assumes "finish_store cat kv_zeros mem args cfg s = Inr s'" and "dtype_known s"
  shows "CACHE_DTYPE s' \<noteq> None"
proof -
  obtain s1 where "foldE (fuse_tensor cat) s [START_LAYER_ID s..END_LAYER_ID s - 1] = Inr s1" "TENSOR_DICT s1 \<noteq> []"
    using assms(1) by (auto simp: finish_store_def bindE_Inr_iff assertE_Inr_iff)
  with fuse_layers_dtype assms(2) have "DTYPE s1 \<noteq> None" by (auto simp: dtype_known_def)
  then have "CACHE_DTYPE (case CACHE_DTYPE s1 of None \<Rightarrow> s1\<lparr>CACHE_DTYPE := DTYPE s1\<rparr> | Some _ \<Rightarrow> s1) \<noteq> None"
    by (auto split: option.splits)
  with assms(1) \<open>foldE _ _ _ = _\<close> show ?thesis
    by (cases mem) (auto simp: finish_store_def bindE_Inr_iff Let_def allocate_kv_cache_def
        determine_num_available_blocks_def split: option.splits)
qed

lemma server_main_ServingE:
  assumes "server_main s3 json_config schedule to_device cat kv_zeros mem bind_manager path args = Serving s"
  obtains cfg s1 b order s2 s3' where "set_global_variables args cfg initial_store = Inr s1"
    and "load_required_tensors (s3_get_object s3) to_device b s1 order = Inr s2"
    and "finish_store cat kv_zeros mem args cfg s2 = Inr s3'"
    and "s = s3'\<lparr>TENSOR_INITIALIZE_COMPLETE := True\<rparr>"
  using assms by (auto simp: server_main_def raised_or_Serving split: if_splits)

lemma serving_dtype_known:
  assumes "server_main s3 json_config schedule to_device cat kv_zeros mem bind_manager path args = Serving s"
  shows "CACHE_DTYPE s \<noteq> None"
proof -
  obtain cfg s1 b order s2 s3' where m: "set_global_variables args cfg initial_store = Inr s1"
    "load_required_tensors (s3_get_object s3) to_device b s1 order = Inr s2"
    "finish_store cat kv_zeros mem args cfg s2 = Inr s3'" "s = s3'\<lparr>TENSOR_INITIALIZE_COMPLETE := True\<rparr>"
    by (rule server_main_ServingE [OF assms])
  have "dtype_known s1"
    using m(1) by (auto simp: dtype_known_def initial_store_def set_global_variables_def bindE_Inr_iff)
  from finish_store_dtype [OF m(3) load_required_tensors_dtype [OF m(2) this]] m(4) show ?thesis by simp
qed

section \<open>Properties\<close>

text \<open>
  C30. Every layer weight has one home. When the layer ranges of the pipeline's stages tile the
  model's layers, exactly one stage decides to load a given weight of a given layer, whatever
  the weight is called, and no stage raises on its name.
\<close>

theorem layer_loaded_by_one_stage:
  assumes "tiles (map (\<lambda>s. (START_LAYER_ID s, END_LAYER_ID s)) stages) 0 (int L)" and "k < L"
  shows "(\<exists>!i. i < length stages \<and>
       should_load_tensor (stages ! i) (layer_name (int k) (CHR ''.'' # rest)) tie = Inr True) \<and>
     (\<forall>s \<in> set stages. should_load_tensor s (layer_name (int k) (CHR ''.'' # rest)) tie \<in> {Inr True, Inr False})"
  using tiles_unique [OF assms(1), of "int k"] assms(2)
  by (simp add: should_load_layer cong: conj_cong)

definition example_stage :: "int \<Rightarrow> int \<Rightarrow> int \<Rightarrow> store" where
  "example_stage a b total_layers = initial_store\<lparr>START_LAYER_ID := a, END_LAYER_ID := b,
     TOTAL_LAYER_NUM := total_layers, TENSOR_PARALLEL_SIZE := 1, TENSOR_PARALLEL_RANK := 0,
     NUM_TENSOR_WORKERS := 8\<rparr>"

theorem layer_loaded_by_one_stage_witness:
  "\<exists>!i. i < length [example_stage 0 2 3, example_stage 2 3 3] \<and>
     should_load_tensor ([example_stage 0 2 3, example_stage 2 3 3] ! i)
       (layer_name (int 2) ''.mlp.up_proj.weight'') True = Inr True"
  using layer_loaded_by_one_stage [of "[example_stage 0 2 3, example_stage 2 3 3]" 3 2
      "''mlp.up_proj.weight''" True]
  by (simp add: example_stage_def)

text \<open>
  The weights outside the layers. When the ranges of the stages tile the model's layers and
  no stage is empty, the embedding is loaded by the first stage and, if embeddings are tied, by
  the last one too, and the final norm and the LM head by the last stage only.
\<close>

theorem boundary_tensors_loaded:
  assumes "tiles (map (\<lambda>s. (START_LAYER_ID s, END_LAYER_ID s)) stages) 0 (int L)"
    and "\<forall>s \<in> set stages. START_LAYER_ID s < END_LAYER_ID s \<and> TOTAL_LAYER_NUM s = int L"
    and "i < length stages"
  shows "should_load_tensor (stages ! i) (''model.embed_tokens'' @ rest) tie =
       Inr (i = 0 \<or> tie \<and> i = length stages - 1) \<and>
     should_load_tensor (stages ! i) (''model.norm'' @ rest) tie = Inr (i = length stages - 1) \<and>
     should_load_tensor (stages ! i) (''lm_head'' @ rest) tie = Inr (i = length stages - 1)"
proof -
  have s: "\<forall>r \<in> set (map (\<lambda>s. (START_LAYER_ID s, END_LAYER_ID s)) stages). fst r < snd r"
    using assms(2) by auto
  have "START_LAYER_ID (stages ! i) \<le> 0 \<longleftrightarrow> i = 0"
    using tiles_strict_first [OF assms(1) s, of i] assms(3) by simp
  moreover have "int L \<le> END_LAYER_ID (stages ! i) \<longleftrightarrow> i = length stages - 1"
    using tiles_strict_last [OF assms(1) s, of i] assms(3) by simp
  moreover have "TOTAL_LAYER_NUM (stages ! i) = int L" using assms(2,3) by simp
  ultimately show ?thesis by (simp only: should_load_boundary simp_thms)
qed

theorem boundary_tensors_loaded_witness:
  "should_load_tensor (example_stage 2 3 3) ''model.embed_tokens.weight'' True = Inr True \<and>
   should_load_tensor (example_stage 2 3 3) ''lm_head.weight'' False = Inr True"
  using boundary_tensors_loaded [of "[example_stage 0 2 3, example_stage 2 3 3]" 3 1 "''.weight''" True]
    boundary_tensors_loaded [of "[example_stage 0 2 3, example_stage 2 3 3]" 3 1 "''.weight''" False]
  by (simp add: example_stage_def)

text \<open>
  C31. Parallel loading. In whatever order the pool's workers take effect, loading ends without
  an exception and the dictionary afterwards holds, for each requested name, the tensor fetched
  for it if its task did not raise, and is otherwise unchanged: in particular a tensor whose
  download, parsing or transfer failed is silently missing, and two orders of the same names
  give the same dictionary.
\<close>

theorem load_required_tensors_exact:
  assumes "NUM_TENSOR_WORKERS s > 0"
  shows "\<exists>s'. load_required_tensors get_object to_device b s order = Inr s' \<and>
     (\<forall>n. dict_get (TENSOR_DICT s') n =
        (case (if n \<in> set order then fetched get_object to_device b s n else Inl KeyError) of
           Inr t \<Rightarrow> Some (Weight t) | Inl e \<Rightarrow> dict_get (TENSOR_DICT s) n)) \<and>
     (\<forall>order' s''. set order' = set order \<and> load_required_tensors get_object to_device b s order' = Inr s'' \<longrightarrow>
        dict_get (TENSOR_DICT s'') = dict_get (TENSOR_DICT s'))"
proof -
  let ?run = "\<lambda>order. foldl (\<lambda>t n. fst (load_and_process_tensor get_object to_device b t n)) s order"
  have run: "load_required_tensors get_object to_device b s order = Inr (?run order)" for order
    using assms by (auto simp: load_required_tensors_def min_le_iff_disj)
  show ?thesis
    by (intro exI [of _ "?run order"] conjI) (auto simp: run load_all_dict fun_eq_iff)
qed

theorem load_required_tensors_exact_witness:
  "\<exists>s'. load_required_tensors (\<lambda>k. Inl KeyError) (\<lambda>d t. Inr (t\<lparr>tdevice := d\<rparr>)) ''b''
       (example_stage 0 1 1) [''lm_head.weight''] = Inr s' \<and> dict_get (TENSOR_DICT s') ''lm_head.weight'' = None"
proof -
  have "NUM_TENSOR_WORKERS (example_stage 0 1 1) > 0" by (simp add: example_stage_def)
  from load_required_tensors_exact [OF this, of "\<lambda>k. Inl KeyError" "\<lambda>d t. Inr (t\<lparr>tdevice := d\<rparr>)" "''b''"
      "[''lm_head.weight'']"]
  obtain s' where "load_required_tensors (\<lambda>k. Inl KeyError) (\<lambda>d t. Inr (t\<lparr>tdevice := d\<rparr>)) ''b''
       (example_stage 0 1 1) [''lm_head.weight''] = Inr s'"
    "dict_get (TENSOR_DICT s') ''lm_head.weight'' =
        (case fetched (\<lambda>k. Inl KeyError) (\<lambda>d t. Inr (t\<lparr>tdevice := d\<rparr>)) ''b'' (example_stage 0 1 1) ''lm_head.weight'' of
           Inr t \<Rightarrow> Some (Weight t) | Inl e \<Rightarrow> dict_get (TENSOR_DICT (example_stage 0 1 1)) ''lm_head.weight'')"
    by auto
  then show ?thesis
    by (simp add: fetched_def load_tensor_from_s3_direct_def example_stage_def initial_store_def)
qed

text \<open>
  Fusion. When the three attention projections and the two MLP projections of a layer are
  in the dictionary and torch concatenates them, \<open>fuse_tensor\<close> replaces exactly these five
  entries by the two fused ones, with query, key and value and gate and up in this order, and
  keeps all other entries.
\<close>

theorem fuse_tensor_spec:
  assumes "dict_wf (TENSOR_DICT s)"
    and "dict_get (TENSOR_DICT s) (layer_name l ''.self_attn.q_proj.weight'') = Some (Weight q)"
    and "dict_get (TENSOR_DICT s) (layer_name l ''.self_attn.k_proj.weight'') = Some (Weight k)"
    and "dict_get (TENSOR_DICT s) (layer_name l ''.self_attn.v_proj.weight'') = Some (Weight v)"
    and "dict_get (TENSOR_DICT s) (layer_name l ''.mlp.gate_proj.weight'') = Some (Weight g)"
    and "dict_get (TENSOR_DICT s) (layer_name l ''.mlp.up_proj.weight'') = Some (Weight u)"
    and "cat [q, k, v] = Inr qkv" and "cat [g, u] = Inr gu"
  shows "\<exists>d. fuse_tensor cat s l = Inr (s\<lparr>TENSOR_DICT := d\<rparr>) \<and> dict_wf d \<and>
     dict_get d = ((dict_get (TENSOR_DICT s)) |` (- {layer_name l ''.self_attn.q_proj.weight'',
         layer_name l ''.self_attn.k_proj.weight'', layer_name l ''.self_attn.v_proj.weight'',
         layer_name l ''.mlp.gate_proj.weight'', layer_name l ''.mlp.up_proj.weight''}))
       (layer_name l ''.self_attn.qkv_proj.weight'' \<mapsto> Weight qkv,
        layer_name l ''.mlp.gate_up_proj.weight'' \<mapsto> Weight gu)"
proof -
  let ?q = "[layer_name l ''.self_attn.q_proj.weight'', layer_name l ''.self_attn.k_proj.weight'',
      layer_name l ''.self_attn.v_proj.weight'']"
  let ?g = "[layer_name l ''.mlp.gate_proj.weight'', layer_name l ''.mlp.up_proj.weight'']"
  obtain d1 where d1: "fuse_group cat ?q (layer_name l ''.self_attn.qkv_proj.weight'') (TENSOR_DICT s) = Inr d1"
    "dict_wf d1" "dict_get d1 = ((dict_get (TENSOR_DICT s)) |` (- set ?q))
       (layer_name l ''.self_attn.qkv_proj.weight'' \<mapsto> Weight qkv)"
    using fuse_group_present [OF assms(1), of ?q "[q, k, v]" "layer_name l ''.self_attn.qkv_proj.weight''" cat qkv]
      assms(2-4,7) by auto
  have src: "list_all2 (\<lambda>n t. dict_get d1 n = Some (Weight t)) ?g [g, u]"
    using assms(5,6) by (simp add: d1(3))
  obtain d2 where d2: "fuse_group cat ?g (layer_name l ''.mlp.gate_up_proj.weight'') d1 = Inr d2"
    "dict_wf d2" "dict_get d2 = ((dict_get d1) |` (- set ?g))
       (layer_name l ''.mlp.gate_up_proj.weight'' \<mapsto> Weight gu)"
    using fuse_group_present [OF d1(2) src, of "layer_name l ''.mlp.gate_up_proj.weight''" cat gu] assms(8) by auto
  have "dict_get d2 = ((dict_get (TENSOR_DICT s)) |` (- (set ?q \<union> set ?g)))
       (layer_name l ''.self_attn.qkv_proj.weight'' \<mapsto> Weight qkv,
        layer_name l ''.mlp.gate_up_proj.weight'' \<mapsto> Weight gu)"
    unfolding d2(3) d1(3) by (rule restrict_map_replace2) simp
  with d1(1) d2(1,2) show ?thesis
    by (intro exI [of _ d2]) (simp only: fuse_tensor_def bindE_simps list.set Un_insert_left Un_empty_left)
qed

theorem fuse_tensor_spec_witness:
  "\<exists>d. fuse_tensor (\<lambda>ts. Inr (hd ts\<lparr>telems := concat (map telems ts)\<rparr>))
       (initial_store\<lparr>TENSOR_DICT :=
         [(''model.layers.0.self_attn.q_proj.weight'', Weight \<lparr>tshape = [1, 1], tdtype = Int8, tdevice = Cuda 0, telems = [[1]]\<rparr>),
          (''model.layers.0.self_attn.k_proj.weight'', Weight \<lparr>tshape = [1, 1], tdtype = Int8, tdevice = Cuda 0, telems = [[2]]\<rparr>),
          (''model.layers.0.self_attn.v_proj.weight'', Weight \<lparr>tshape = [1, 1], tdtype = Int8, tdevice = Cuda 0, telems = [[3]]\<rparr>),
          (''model.layers.0.mlp.gate_proj.weight'', Weight \<lparr>tshape = [1, 1], tdtype = Int8, tdevice = Cuda 0, telems = [[4]]\<rparr>),
          (''model.layers.0.mlp.up_proj.weight'', Weight \<lparr>tshape = [1, 1], tdtype = Int8, tdevice = Cuda 0, telems = [[5]]\<rparr>)]\<rparr>) 0 =
       Inr (initial_store\<lparr>TENSOR_DICT := d\<rparr>) \<and>
     dict_get d ''model.layers.0.self_attn.qkv_proj.weight'' =
       Some (Weight \<lparr>tshape = [1, 1], tdtype = Int8, tdevice = Cuda 0, telems = [[1], [2], [3]]\<rparr>)"
proof -
  let ?w = "\<lambda>x. \<lparr>tshape = [1, 1], tdtype = Int8, tdevice = Cuda 0, telems = [[x]]\<rparr>"
  let ?d = "[(''model.layers.0.self_attn.q_proj.weight'', Weight (?w 1)),
     (''model.layers.0.self_attn.k_proj.weight'', Weight (?w 2)),
     (''model.layers.0.self_attn.v_proj.weight'', Weight (?w 3)),
     (''model.layers.0.mlp.gate_proj.weight'', Weight (?w 4)),
     (''model.layers.0.mlp.up_proj.weight'', Weight (?w 5))]"
  let ?cat = "\<lambda>ts. Inr (hd ts\<lparr>telems := concat (map telems ts)\<rparr>)"
  have z: "str_int 0 = ''0''" by code_simp
  have wf: "dict_wf (TENSOR_DICT (initial_store\<lparr>TENSOR_DICT := ?d\<rparr>))" by (simp add: dict_wf_def)
  show ?thesis
    using fuse_tensor_spec [OF wf, of 0 "?w 1" "?w 2" "?w 3" "?w 4" "?w 5" ?cat
        "?w 1\<lparr>telems := [[1], [2], [3]]\<rparr>" "?w 4\<lparr>telems := [[4], [5]]\<rparr>"]
    by (auto simp: layer_name_def z)
qed

text \<open>
  C6. The KV cache fits. When the number of blocks was computed by
  \<open>determine_num_available_blocks\<close> from the free and total memory of the device and the
  allocation succeeds, the caches of all virtual engines together with the memory already in use
  and the memory reserved for a forward pass stay within the configured share of the device's
  memory. Should no dtype be known (no weight was loaded, which \<open>serving_dtype_known\<close> excludes for
  a store that serves), torch allocates four bytes per element for blocks sized with two, and
  the caches take at most twice the memory they were given.
\<close>

theorem kv_cache_fits:
  assumes "determine_num_available_blocks (free, tot) s cfg = Inr (s1, gpu, cpu)"
    and "allocate_kv_cache kv_zeros s1 cfg gpu = Inr (s2, info)" and "kv_bytes (TENSOR_DICT s) = 0"
  shows "\<exists>fwd. get_model_forward_memory s1 cfg = Inr fwd \<and>
     (if CACHE_DTYPE s1 \<noteq> None
      then of_int (int (kv_bytes (TENSOR_DICT s2)) + (tot - free) + fwd) \<le> of_int tot * GPU_MEMORY_UTILIZATION s
      else of_int (int (kv_bytes (TENSOR_DICT s2))) \<le>
        2 * (of_int tot * GPU_MEMORY_UTILIZATION s - of_int (tot - free) - of_int fwd))"
proof -
  obtain fwd cbs where d: "get_model_forward_memory s1 cfg = Inr fwd"
    "get_cache_block_size_bytes s1 cfg = Inr cbs" "0 < cbs" "0 < gpu" "TENSOR_DICT s1 = TENSOR_DICT s"
    "of_int (gpu * cbs) \<le> of_int tot * GPU_MEMORY_UTILIZATION s - of_int (tot - free) - (of_int fwd :: rat)"
    by (rule determine_num_available_blocksD [OF assms(1)])
  have "int (kv_bytes (TENSOR_DICT s2)) \<le> cache_factor s1 * (gpu * cbs)"
    using allocate_kv_cache_bytes [OF assms(2) d(2-4)] assms(3) d(5) by simp
  then have "(of_int (int (kv_bytes (TENSOR_DICT s2))) :: rat) \<le> of_int (cache_factor s1) * of_int (gpu * cbs)"
    by (simp only: of_int_le_iff flip: of_int_mult)
  with d(6) have "if CACHE_DTYPE s1 \<noteq> None
      then of_int (int (kv_bytes (TENSOR_DICT s2)) + (tot - free) + fwd) \<le> of_int tot * GPU_MEMORY_UTILIZATION s
      else of_int (int (kv_bytes (TENSOR_DICT s2))) \<le>
        2 * (of_int tot * GPU_MEMORY_UTILIZATION s - of_int (tot - free) - (of_int fwd :: rat))"
    by (auto simp: cache_factor_def)
  with d(1) show ?thesis by blast
qed

definition example_config :: config_dict where
  "example_config = [(''num_attention_heads'', 2), (''hidden_size'', 4), (''intermediate_size'', 3)]"

definition example_kv_store :: store where
  "example_kv_store = (example_stage 0 2 2)\<lparr>DTYPE := Some BFloat16, BLOCK_SIZE := 8,
     GPU_MEMORY_UTILIZATION := 9 / 10, SWAP_SPACE_BYTES := 4096, PIPELINE_PARALLEL_SIZE := 2, MAX_MODEL_LEN := 16\<rparr>"

lemmas example_kv_defs = example_kv_store_def example_stage_def initial_store_def example_config_def

theorem kv_cache_fits_witness:
  "\<exists>s1 gpu cpu s2 info. determine_num_available_blocks (9000, 10000) example_kv_store example_config = Inr (s1, gpu, cpu) \<and>
     allocate_kv_cache (\<lambda>_ _. Inr ()) s1 example_config gpu = Inr (s2, info) \<and>
     (\<exists>fwd. get_model_forward_memory s1 example_config = Inr fwd \<and>
     of_int (int (kv_bytes (TENSOR_DICT s2)) + (10000 - 9000) + fwd) \<le> of_int 10000 * (9 / 10 :: rat))"
proof -
  let ?s = "example_kv_store\<lparr>CACHE_DTYPE := Some BFloat16\<rparr>"
  have d: "determine_num_available_blocks (9000, 10000) example_kv_store example_config = Inr (?s, 30, 16)"
    by (simp add: determine_num_available_blocks_def get_model_forward_memory_def py_trunc_def
        get_cache_block_size_bytes_def num_kv_heads_of_def head_size_of_def get_or_def lookupE_def
        floordivE_def cache_dtype_size_def example_kv_defs)
  have "allocate_kv_cache (\<lambda>_ _. Inr ()) ?s example_config 30 \<noteq> Inl e" for e
    by (simp add: Let_def allocate_kv_cache_def kv_engine_step_def kv_layer_step_def upt_rec
        get_cache_block_size_bytes_def num_kv_heads_of_def head_size_of_def get_or_def lookupE_def
        floordivE_def cache_dtype_size_def example_kv_defs)
  then obtain s2 info where a: "allocate_kv_cache (\<lambda>_ _. Inr ()) ?s example_config 30 = Inr (s2, info)"
    by (metis prod.collapse sum.exhaust)
  have "kv_bytes (TENSOR_DICT example_kv_store) = 0" by (simp add: kv_bytes_def example_kv_defs)
  from kv_cache_fits [OF d a this] d a show ?thesis
    by (auto simp: example_kv_store_def)
qed

text \<open>
  C32. A serving store is complete. Whenever \<open>main\<close> gets as far as serving, for a start layer
  that is not negative, the ready flag is set and every virtual engine has, for every layer of
  the stage, a KV cache of one common shape, and its metadata.
\<close>

theorem serving_store_complete:
  assumes "server_main s3 json_config schedule to_device cat kv_zeros mem bind_manager path args = Serving s"
    and "0 \<le> arg_start_layer_id args"
  shows "TENSOR_INITIALIZE_COMPLETE s \<and>
     (\<exists>shape. \<forall>ve < nat (PIPELINE_PARALLEL_SIZE s). engine_ready s shape ve (TENSOR_DICT s))"
proof -
  obtain cfg s1 b order s2 s3' where s1: "set_global_variables args cfg initial_store = Inr s1"
    and s2: "load_required_tensors (s3_get_object s3) to_device b s1 order = Inr s2"
    and s3: "finish_store cat kv_zeros mem args cfg s2 = Inr s3'"
    and s: "s = s3'\<lparr>TENSOR_INITIALIZE_COMPLETE := True\<rparr>"
    by (rule server_main_ServingE [OF assms(1)])
  have "START_LAYER_ID s1 = arg_start_layer_id args"
    using s1 by (auto simp: set_global_variables_def bindE_Inr_iff)
  then have "0 \<le> START_LAYER_ID s2"
    using load_required_tensors_config [OF s2] assms(2) by (simp add: same_config_def)
  from finish_store_ready [OF s3 this] show ?thesis by (auto simp: s engine_ready_def)
qed

definition example_s3 :: s3_client where
  "example_s3 = \<lparr>s3_head_bucket = Inr (), s3_list_objects = (\<lambda>p. Inr [p @ ''model.norm.weight.bin'']),
     s3_get_object = (\<lambda>k. Inr (if k = ''raw/m/config.json'' then [] else traw_header [1] 2 2 @ [1, 2]))\<rparr>"

definition example_args :: server_args where
  "example_args = \<lparr>arg_tensor_parallel_size = 1, arg_tensor_parallel_rank = 0, arg_local_rank = 0,
     arg_start_layer_id = 0, arg_end_layer_id = -1, arg_block_size = 8, arg_gpu_num_blocks = Some 2,
     arg_gpu_memory_utilization = 9 / 10, arg_swap_space = 4, arg_pipeline_parallel_size = 1,
     arg_pipeline_parallel_rank = 0, arg_max_model_len = None, arg_num_workers = 8\<rparr>"

theorem serving_store_complete_witness:
  "\<exists>s. server_main example_s3 (\<lambda>_. Inr ((''num_hidden_layers'', 1) # example_config, False)) (\<lambda>ns. ns)
       (\<lambda>d t. Inr (t\<lparr>tdevice := d\<rparr>)) (\<lambda>ts. Inl TypeError) (\<lambda>_ _. Inr ()) (0, 0) True ''s3://b/m'' example_args = Serving s \<and>
     TENSOR_INITIALIZE_COMPLETE s"
proof -
  let ?t = "\<lparr>tshape = [1], tdtype = BFloat16, tdevice = Cpu, telems = [[1, 2]]\<rparr>"
  let ?main = "server_main example_s3 (\<lambda>_. Inr ((''num_hidden_layers'', 1) # example_config, False)) (\<lambda>ns. ns)
       (\<lambda>d t. Inr (t\<lparr>tdevice := d\<rparr>)) (\<lambda>ts. Inl TypeError) (\<lambda>_ _. Inr ()) (0, 0) True ''s3://b/m'' example_args"
  have sg: "\<exists>s0. set_global_variables example_args ((''num_hidden_layers'', 1) # example_config) initial_store = Inr s0 \<and>
    TENSOR_PARALLEL_SIZE s0 = 1 \<and> TENSOR_PARALLEL_RANK s0 = 0 \<and> TOTAL_LAYER_NUM s0 = 1 \<and> END_LAYER_ID s0 = 1 \<and>
    START_LAYER_ID s0 = 0 \<and> NUM_TENSOR_WORKERS s0 = 8 \<and> TENSOR_DICT s0 = [] \<and> DTYPE s0 = None \<and> CACHE_DTYPE s0 = None \<and>
    PIPELINE_PARALLEL_SIZE s0 = 1 \<and> BLOCK_SIZE s0 = 8 \<and> DEVICE s0 = Cuda 0"
    by (simp add: set_global_variables_def lookupE_def example_args_def initial_store_def example_config_def)
  then obtain s0 where s0: "set_global_variables example_args ((''num_hidden_layers'', 1) # example_config) initial_store = Inr s0"
    and f: "TENSOR_PARALLEL_SIZE s0 = 1" "TENSOR_PARALLEL_RANK s0 = 0" "TOTAL_LAYER_NUM s0 = 1" "END_LAYER_ID s0 = 1"
    "START_LAYER_ID s0 = 0" "NUM_TENSOR_WORKERS s0 = 8" "TENSOR_DICT s0 = []" "DTYPE s0 = None" "CACHE_DTYPE s0 = None"
    "PIPELINE_PARALLEL_SIZE s0 = 1" "BLOCK_SIZE s0 = 8" "DEVICE s0 = Cuda 0"
    by blast
  have p: "parse_s3_path ''s3://b/m'' = Inr (''b'', ''m'')" by code_simp
  have names: "list_tensor_files_from_s3_with_boto3 (s3_list_objects example_s3) ''m'' 1 0 = Inr [''model.norm.weight'']"
    by (simp add: example_s3_def) code_simp
  have "save_tensor_raw ?t = Inr (traw_header [1] 2 2 @ [1, 2], 34)"
    by (simp add: save_tensor_raw_def numel_def pack_uint_def traw_header_def traw_magic_def
        del: le_bytes.simps)
  from load_save_trailing [OF this, of "[]"] have load: "load_tensor_raw (traw_header [1] 2 2 @ [1, 2]) = Inr ?t"
    by (simp add: tensor_wf_def numel_def)
  have "load_key ''m'' 1 0 ''model.norm.weight'' \<noteq> ''raw/m/config.json''" by code_simp
  then have obj: "s3_get_object example_s3 (load_key ''m'' 1 0 ''model.norm.weight'') = Inr (traw_header [1] 2 2 @ [1, 2])"
    by (simp add: example_s3_def)
  let ?s1 = "s0\<lparr>DTYPE := Some BFloat16, TENSOR_DICT := [(''model.norm.weight'', Weight \<lparr>tshape = [1], tdtype = BFloat16, tdevice = Cuda 0, telems = [[1, 2]]\<rparr>)]\<rparr>"
  have req: "filter_required_tensors s0 [''model.norm.weight''] False = Inr [''model.norm.weight'']"
    using f by (simp add: filter_required_tensors_def should_load_tensor_def)
  have log: "log_required_tensors_summary [''model.norm.weight''] = Inr ()" by code_simp
  have ld: "load_required_tensors (s3_get_object example_s3) (\<lambda>d t. Inr (t\<lparr>tdevice := d\<rparr>)) ''m'' s0
       [''model.norm.weight''] = Inr ?s1"
    using f by (simp add: load_required_tensors_def load_and_process_tensor_def load_tensor_from_s3_direct_def
        obj load load_tensor_to_gpu_def del: One_nat_def)
  have fuse: "fuse_tensor (\<lambda>ts. Inl TypeError) ?s1 0 = Inr ?s1"
    by (simp add: fuse_tensor_def fuse_group_def layer_name_def)
  have "finish_store (\<lambda>ts. Inl TypeError) (\<lambda>_ _. Inr ()) (0, 0) example_args
      ((''num_hidden_layers'', 1) # example_config) ?s1 \<noteq> Inl e" for e
    using f fuse by (simp add: finish_store_def Let_def allocate_kv_cache_def kv_engine_step_def kv_layer_step_def upt_rec
        get_cache_block_size_bytes_def num_kv_heads_of_def head_size_of_def get_or_def lookupE_def
        floordivE_def cache_dtype_size_def example_config_def example_args_def)
  then obtain s2 where fin: "finish_store (\<lambda>ts. Inl TypeError) (\<lambda>_ _. Inr ()) (0, 0) example_args
      ((''num_hidden_layers'', 1) # example_config) ?s1 = Inr s2" by (metis sum.exhaust)
  have hb: "s3_head_bucket example_s3 = Inr ()" "s3_get_object example_s3 (load_config_key ''m'') = Inr []"
    by (simp_all add: example_s3_def load_config_key_def)
  have "?main = Serving (s2\<lparr>TENSOR_INITIALIZE_COMPLETE := True\<rparr>)"
    using f by (simp add: server_main_def p hb s0 names req log ld fin raised_or_def returned_or_def del: One_nat_def)
  with serving_store_complete [OF this] show ?thesis by (auto simp: example_args_def)
qed

text \<open>
  C34. The status protocol. Until it has been told to shut down, the status server answers every
  status check, and every connection closed without a byte, with READY if and only if the main
  thread had set the ready flag by then; so READY is never taken back. After the answer to a
  shutdown request it answers nothing.
\<close>

theorem status_server_answers:
  assumes "\<not> SHUTDOWN_EVENT s" and "i < length evs" and "\<forall>j < i. \<not> is_shutdown (evs ! j)"
  shows "(is_query (evs ! i) \<longrightarrow> status_server s evs ! i = Some (response_value
       (if TENSOR_INITIALIZE_COMPLETE s \<or> MainReady \<in> set (take i evs) then READY else NOT_READY))) \<and>
     i < length (status_server s evs) \<and>
     (is_shutdown (evs ! i) \<longrightarrow> length (status_server s evs) = Suc i)"
  using status_server_nth [OF assms(2,1,3)] status_server_length [OF assms(1,2)]
  by (auto simp: le_antisym Suc_le_eq)

theorem status_server_answers_witness:
  "status_server initial_store [Recv [], MainReady, Recv [0x30], Recv [0x31], Recv []] ! 2 = Some [0x31] \<and>
   length (status_server initial_store [Recv [], MainReady, Recv [0x30], Recv [0x31], Recv []]) = 4"
proof -
  let ?evs = "[Recv [], MainReady, Recv [0x30], Recv [0x31], Recv []]"
  have d: "\<not> SHUTDOWN_EVENT initial_store" by (simp add: initial_store_def)
  have "\<forall>j < 3. \<not> is_shutdown (?evs ! j)" by (simp add: less_Suc_eq numeral_3_eq_3 all_conj_distrib)
  then show ?thesis
    using status_server_answers [OF d, of 2 ?evs] status_server_answers [OF d, of 3 ?evs] by simp
qed

end
