(* ===== verification/Commands.thy ===== *)
theory Commands
  imports Prelude
begin

text \<open>
  The shell commands of \<^verbatim>\<open>GlobalServer/command.py\<close>, as strings. Numbers are printed as Python
  prints integers; the float arguments are given as the text Python prints for them. The option
  names the tensor store's argument parser knows
  (\<^verbatim>\<open>TensorStore/raw_s3_tensor_store_server.py\<close>, \<open>parse_args\<close>) are listed next to them.
\<close>

definition DEFAULT_TENSOR_STORE_BASE_PORT :: int where
  "DEFAULT_TENSOR_STORE_BASE_PORT = 10001"

definition DEFAULT_API_SERVER_BASE_PORT :: int where
  "DEFAULT_API_SERVER_BASE_PORT = 8001"

definition PYTHON :: string where
  "PYTHON = ''/usr/bin/python''"

definition PROJECT_PATH :: string where
  "PROJECT_PATH = ''/home/ubuntu/ShuntServe''"

definition RAY :: string where
  "RAY = ''/home/ubuntu/.local/bin/ray''"

record tensor_store_options =
  o_model_name :: string
  o_tensor_parallel_size :: int
  o_tensor_parallel_rank :: int
  o_local_rank :: int
  o_pipeline_parallel_size :: int
  o_pipeline_parallel_rank :: int
  o_start_layer_id :: int
  o_end_layer_id :: int
  o_block_size :: int
  o_gpu_memory_utilization :: string
  o_swap_space :: string
  o_cache_dtype :: string
  o_max_model_len :: int
  o_status_port :: "int option"
  o_dtype :: "string option"
  o_s3_path :: "string option"
  o_aws_profile :: "string option"
  o_gpu_num_blocks :: "int option"
  o_num_workers :: int

definition final_port :: "int option \<Rightarrow> int \<Rightarrow> int" where
  "final_port status_port local_rank =
     (case status_port of None \<Rightarrow> DEFAULT_TENSOR_STORE_BASE_PORT + local_rank | Some p \<Rightarrow> p + local_rank)"

text \<open>Python prints a missing string as \<open>None\<close>.\<close>

definition str_opt :: "string option \<Rightarrow> string" where
  "str_opt x = (case x of None \<Rightarrow> ''None'' | Some s \<Rightarrow> s)"

text \<open>The options in the order of the command line, with their values.\<close>

definition tensor_store_arguments :: "tensor_store_options \<Rightarrow> (string \<times> string) list" where
  "tensor_store_arguments a =
     [(''--model-name'', o_model_name a),
      (''--s3-path'', str_opt (o_s3_path a)),
      (''--tensor-parallel-size'', str_int (o_tensor_parallel_size a)),
      (''--tensor-parallel-rank'', str_int (o_tensor_parallel_rank a)),
      (''--local-rank'', str_int (o_local_rank a)),
      (''--start-layer-id'', str_int (o_start_layer_id a)),
      (''--end-layer-id'', str_int (o_end_layer_id a)),
      (''--status-port'', str_int (final_port (o_status_port a) (o_local_rank a))),
      (''--pipeline-parallel-size'', str_int (o_pipeline_parallel_size a)),
      (''--pipeline-parallel-rank'', str_int (o_pipeline_parallel_rank a)),
      (''--block-size'', str_int (o_block_size a)),
      (''--gpu-memory-utilization'', o_gpu_memory_utilization a),
      (''--swap-space'', o_swap_space a),
      (''--cache-dtype'', o_cache_dtype a),
      (''--max-model-len'', str_int (o_max_model_len a)),
      (''--num-workers'', str_int (o_num_workers a))] @
     (case o_aws_profile a of Some p \<Rightarrow> if p \<noteq> '''' then [(''--aws-profile'', p)] else [] | None \<Rightarrow> []) @
     (case o_dtype a of Some d \<Rightarrow> [(''--dtype'', d)] | None \<Rightarrow> []) @
     (case o_gpu_num_blocks a of Some n \<Rightarrow> [(''--gpu-num-blocks'', str_int n)] | None \<Rightarrow> [])"

definition get_tensor_store_command :: "tensor_store_options \<Rightarrow> string" where
  "get_tensor_store_command a =
     PYTHON @ '' '' @ PROJECT_PATH @ ''/TensorStore/raw_s3_tensor_store_server.py'' @
     concat (map (\<lambda>(opt, v). '' '' @ opt @ '' '' @ v) (tensor_store_arguments a))"

definition tensor_store_parser_options :: "string list" where
  "tensor_store_parser_options =
     [''--model-name'', ''--s3-path'', ''--tensor-parallel-size'', ''--tensor-parallel-rank'',
      ''--local-rank'', ''--start-layer-id'', ''--end-layer-id'', ''--status-host'', ''--status-port'',
      ''--aws-profile'', ''--block-size'', ''--gpu-num-blocks'', ''--gpu-memory-utilization'',
      ''--swap-space'', ''--cache-dtype'', ''--pipeline-parallel-size'', ''--pipeline-parallel-rank'',
      ''--max-model-len'', ''--num-workers'']"

text \<open>
  \<open>argparse\<close> takes an option that is in the parser's list or an unambiguous prefix of one.
\<close>

definition parser_accepts :: "string \<Rightarrow> bool" where
  "parser_accepts opt \<longleftrightarrow>
     opt \<in> set tensor_store_parser_options \<or>
     length (filter (\<lambda>o'. starts_with o' opt) tensor_store_parser_options) = 1"

section \<open>The API server and Ray\<close>

record api_server_options =
  ap_model_name :: string
  ap_pp_layer_partition :: string
  ap_parallel_strategy :: "int list"
  ap_host :: string
  ap_node_rank_mapping :: string
  ap_nodes :: nat
  ap_ray_address :: string
  ap_num_gpu_blocks_override :: "int option"
  ap_port :: "int option"
  ap_dtype :: "string option"
  ap_max_model_len :: "int option"
  ap_gpu_memory_utilization :: "string option"
  ap_max_num_batched_tokens :: "int option"
  ap_max_num_seqs :: "int option"
  ap_enforce_eager :: bool

fun join_with :: "string \<Rightarrow> string list \<Rightarrow> string" where
  "join_with sep [] = ''''"
| "join_with sep [x] = x"
| "join_with sep (x # y # xs) = x @ sep @ join_with sep (y # xs)"

fun escape_quotes :: "string \<Rightarrow> string" where
  "escape_quotes [] = []"
| "escape_quotes (c # s) = (if c = CHR 0x22 then [CHR 0x5C, CHR 0x22] else [c]) @ escape_quotes s"

definition opt_arg :: "string \<Rightarrow> string option \<Rightarrow> string list" where
  "opt_arg name v = (case v of None \<Rightarrow> [] | Some x \<Rightarrow> [name @ x])"

text \<open>\<open>ap_nodes\<close> is the number of nodes in the JSON text of the rank mapping.\<close>

definition get_api_server_command :: "api_server_options \<Rightarrow> string" where
  "get_api_server_command a =
     (let port = (case ap_port a of None \<Rightarrow> DEFAULT_API_SERVER_BASE_PORT | Some p \<Rightarrow> p);
          parallel_strategy_str = join_with '' '' (map str_int (ap_parallel_strategy a));
          multi_node = ap_nodes a > 1 in
      join_with '' ''
        ([''RAY_DEDUP_LOGS=0'',
          PYTHON @ '' '' @ PROJECT_PATH @ ''/InferenceServer/api_server.py'',
          ''--model='' @ ap_model_name a,
          ''--host='' @ ap_host a,
          ''--port='' @ str_int port,
          ''--pp-layer-partition='' @ [CHR 0x22] @ ap_pp_layer_partition a @ [CHR 0x22],
          ''--parallel-strategy '' @ parallel_strategy_str,
          ''--ray-address='' @ ap_ray_address a] @
         (if multi_node then [''--distributed-executor-backend=ray''] else []) @
         opt_arg ''--dtype='' (ap_dtype a) @
         opt_arg ''--max_model_len='' (map_option str_int (ap_max_model_len a)) @
         [''--node-rank-mapping='' @ [CHR 0x22] @ escape_quotes (ap_node_rank_mapping a) @ [CHR 0x22]] @
         opt_arg ''--gpu-memory-utilization='' (ap_gpu_memory_utilization a) @
         opt_arg ''--max-num-batched-tokens='' (map_option str_int (ap_max_num_batched_tokens a)) @
         opt_arg ''--max-num-seqs='' (map_option str_int (ap_max_num_seqs a)) @
         (if ap_enforce_eager a then [''--enforce-eager''] else []) @
         opt_arg ''--num-gpu-blocks='' (map_option str_int (ap_num_gpu_blocks_override a))))"

definition get_ray_start_worker_command :: "string \<Rightarrow> string" where
  "get_ray_start_worker_command head_address =
     RAY @ '' start --address='' @ head_address @ '' --disable-usage-stats''"

definition get_ray_stop_command :: string where
  "get_ray_stop_command = RAY @ '' stop --force''"

section \<open>Properties\<close>

lemma arguments_fst:
  "map fst (tensor_store_arguments a) =
     [''--model-name'', ''--s3-path'', ''--tensor-parallel-size'', ''--tensor-parallel-rank'', ''--local-rank'',
      ''--start-layer-id'', ''--end-layer-id'', ''--status-port'', ''--pipeline-parallel-size'',
      ''--pipeline-parallel-rank'', ''--block-size'', ''--gpu-memory-utilization'', ''--swap-space'',
      ''--cache-dtype'', ''--max-model-len'', ''--num-workers''] @
     (if o_aws_profile a = None \<or> o_aws_profile a = Some [] then [] else [''--aws-profile'']) @
     (if o_dtype a = None then [] else [''--dtype'']) @
     (if o_gpu_num_blocks a = None then [] else [''--gpu-num-blocks''])"
  by (simp add: tensor_store_arguments_def split: option.split)

lemma fixed_options_accepted:
  "list_all parser_accepts [''--model-name'', ''--s3-path'', ''--tensor-parallel-size'', ''--tensor-parallel-rank'',
      ''--local-rank'', ''--start-layer-id'', ''--end-layer-id'', ''--status-port'', ''--pipeline-parallel-size'',
      ''--pipeline-parallel-rank'', ''--block-size'', ''--gpu-memory-utilization'', ''--swap-space'',
      ''--cache-dtype'', ''--max-model-len'', ''--num-workers'']"
  "parser_accepts ''--aws-profile''" "parser_accepts ''--gpu-num-blocks''" "\<not> parser_accepts ''--dtype''"
  by code_simp+

text \<open>
  The tensor store's argument parser accepts every option of the command it is started with
  exactly when no \<open>dtype\<close> is configured: with one, the command carries \<open>--dtype\<close>, which the parser
  does not know, and the server exits.
\<close>

theorem tensor_store_command_accepted:
  "list_all (\<lambda>(opt, v). parser_accepts opt) (tensor_store_arguments a) \<longleftrightarrow> o_dtype a = None"
proof -
  have "list_all (\<lambda>(opt, v). parser_accepts opt) (tensor_store_arguments a) \<longleftrightarrow>
      list_all parser_accepts (map fst (tensor_store_arguments a))"
    by (simp add: list.pred_map comp_def case_prod_unfold)
  also have "\<dots> \<longleftrightarrow> o_dtype a = None"
    unfolding arguments_fst list_all_append using fixed_options_accepted(2-4)
    by (simp only: fixed_options_accepted(1)) simp
  finally show ?thesis .
qed

end
