(* ===== verification/VNode.thy ===== *)
theory VNode
  imports Commands Protocols
begin

text \<open>
  The virtual nodes of \<^verbatim>\<open>GlobalServer/VNode.py\<close> (class \<open>VNode\<close>). A virtual node is an object
  that the pipeline and the code switching nodes share, so objects live in a store and are named
  by their index in it. What a virtual node does to its machine is recorded as a trace of actions,
  in which a health check of the API server appears with the status code it got; what it learns
  from the machine (replies of servers, return codes) is given by an environment, a function of a
  clock that ticks with every question asked. Sleeping, logging and waiting for local SSH
  processes have no counterpart.
\<close>

section \<open>Environment and state\<close>

record ray_node =
  NodeManagerAddress :: string
  Alive :: bool
  GPU :: int

text \<open>
  \<open>ts_reply\<close>: the byte a tensor store answers to a request, \<open>None\<close> if the connection fails.
  \<open>api_health\<close>: status code of the health check, \<open>None\<close> if the request raises.
  \<open>remote_running\<close>: whether a process that matches a pattern runs on a node, \<open>None\<close> if the SSH
  command raises. \<open>ray_init\<close>: whether connecting to a Ray port succeeds. \<open>join_rc\<close>: return code of
  joining a node.
\<close>

record env =
  ts_reply :: "nat \<Rightarrow> string \<Rightarrow> int \<Rightarrow> byte list \<Rightarrow> byte list option"
  api_health :: "nat \<Rightarrow> string \<Rightarrow> int \<Rightarrow> int option"
  remote_running :: "nat \<Rightarrow> string \<Rightarrow> string \<Rightarrow> bool option"
  ray_init :: "nat \<Rightarrow> int \<Rightarrow> unit py"
  join_rc :: "nat \<Rightarrow> string \<Rightarrow> int"
  ray_nodes :: "nat \<Rightarrow> ray_node list"
  head_ip :: string

datatype action =
    StartTensorStore string tensor_store_options
  | ShutdownTensorStore string int
  | KillTensorStores string
  | StartApiServer string api_server_options
  | ShutdownApiServer string "int option"
  | KillApiServer string "int option"
  | RayJoin string int
  | RayStop string
  | HealthCheck string "int option" "int option"

record vnode =
  node_ip :: string
  tp_size :: int
  start_local_rank :: int
  pipeline_rank :: nat
  layer_start_id :: int
  layer_end_id :: int
  vtotal_layers :: int
  tensor_store_port :: "int option"
  is_tensor_store_ready :: bool
  tensor_store_processes :: nat
  api_server_port :: "int option"
  is_api_server_ready :: bool
  api_server_process :: bool
  is_first_stage :: bool
  is_last_stage :: bool

record world =
  objs :: "vnode list"
  now :: nat
  trace :: "action list"

text \<open>
  The configuration dictionary: entries that the code reads with \<open>[]\<close> and entries that it reads
  with \<open>get\<close>, all optional. The entries with float values are given as the text Python prints.
\<close>

record config =
  cfg_model_name :: "string option"
  cfg_total_num_layers :: "int option"
  cfg_pp_layer_partition :: "string option"
  cfg_parallel_strategy :: "int list option"
  cfg_model_source :: "string option"
  cfg_s3_path :: "string option"
  cfg_tensor_store_base_port :: "int option"
  cfg_api_server_base_port :: "int option"
  cfg_max_batch_size :: "int option"
  cfg_mode :: "string option"
  cfg_dtype :: "string option"
  cfg_aws_profile :: "string option"
  cfg_block_size :: "int option"
  cfg_gpu_memory_utilization :: "string option"
  cfg_swap_space :: "string option"
  cfg_cache_dtype :: "string option"
  cfg_max_model_len :: "int option"
  cfg_num_gpu_blocks :: "int option"
  cfg_host :: "string option"
  cfg_max_num_batched_tokens :: "int option"
  cfg_max_num_seqs :: "int option"

definition config_item :: "'a option \<Rightarrow> 'a py" where
  "config_item x = (case x of None \<Rightarrow> Inl KeyError | Some v \<Rightarrow> Inr v)"

section \<open>Operations\<close>

definition VNode_init :: "string \<Rightarrow> int \<Rightarrow> int \<Rightarrow> nat \<Rightarrow> int \<Rightarrow> int \<Rightarrow> int \<Rightarrow> vnode" where
  "VNode_init ip local_rank tp rank layer_start layer_end layers =
     \<lparr>node_ip = ip, tp_size = tp, start_local_rank = local_rank, pipeline_rank = rank,
      layer_start_id = layer_start, layer_end_id = layer_end, vtotal_layers = layers,
      tensor_store_port = None, is_tensor_store_ready = False, tensor_store_processes = 0,
      api_server_port = None, is_api_server_ready = False, api_server_process = False,
      is_first_stage = (layer_start = 0), is_last_stage = (layer_end \<ge> layers)\<rparr>"

definition the_node :: "nat \<Rightarrow> ('z world_scheme, vnode) proc" where
  "the_node r = getS (\<lambda>w. objs w ! r)"

definition update_node :: "nat \<Rightarrow> (vnode \<Rightarrow> vnode) \<Rightarrow> ('z world_scheme, unit) proc" where
  "update_node r f = modS (\<lambda>w. w\<lparr>objs := (objs w)[r := f (objs w ! r)]\<rparr>)"

definition do_action :: "action \<Rightarrow> ('z world_scheme, unit) proc" where
  "do_action a = modS (\<lambda>w. w\<lparr>trace := trace w @ [a]\<rparr>)"

text \<open>A question to the environment: the answer at the present time, and the clock ticks.\<close>

definition ask :: "(nat \<Rightarrow> 'a) \<Rightarrow> ('z world_scheme, 'a) proc" where
  "ask q w = (Inr (q (now w)), w\<lparr>now := now w + 1\<rparr>)"

text \<open>\<open>config.get\<close> with a default.\<close>

definition config_get :: "'a option \<Rightarrow> 'a \<Rightarrow> 'a" where
  "config_get x d = (case x of None \<Rightarrow> d | Some v \<Rightarrow> v)"

text \<open>The arguments \<open>start_tensor_store\<close> gives to \<open>get_tensor_store_command\<close> for one GPU of a node.\<close>

definition store_options ::
  "config \<Rightarrow> string \<Rightarrow> string option \<Rightarrow> int option \<Rightarrow> int \<Rightarrow> vnode \<Rightarrow> nat \<Rightarrow> tensor_store_options" where
  "store_options cfg name s3_path port pp_size v local_rank_idx =
     \<lparr>o_model_name = name, o_tensor_parallel_size = tp_size v, o_tensor_parallel_rank = int local_rank_idx,
      o_local_rank = start_local_rank v + int local_rank_idx, o_pipeline_parallel_size = pp_size,
      o_pipeline_parallel_rank = int (pipeline_rank v), o_start_layer_id = layer_start_id v,
      o_end_layer_id = layer_end_id v, o_block_size = config_get (cfg_block_size cfg) 16,
      o_gpu_memory_utilization = config_get (cfg_gpu_memory_utilization cfg) ''0.9'',
      o_swap_space = config_get (cfg_swap_space cfg) ''4.0'', o_cache_dtype = config_get (cfg_cache_dtype cfg) ''auto'',
      o_max_model_len = config_get (cfg_max_model_len cfg) 4096, o_status_port = port, o_dtype = cfg_dtype cfg,
      o_s3_path = s3_path,
      o_aws_profile = (if cfg_model_source cfg = Some ''s3'' then cfg_aws_profile cfg else None),
      o_gpu_num_blocks = cfg_num_gpu_blocks cfg, o_num_workers = 16\<rparr>"

definition start_one_tensor_store :: "string \<Rightarrow> nat \<Rightarrow> tensor_store_options \<Rightarrow> ('z world_scheme, unit) proc" where
  "start_one_tensor_store ip r opts =
     thenS (do_action (StartTensorStore ip opts))
       (update_node r (\<lambda>v. v\<lparr>tensor_store_processes := tensor_store_processes v + 1\<rparr>))"

definition start_tensor_store :: "int option \<Rightarrow> config \<Rightarrow> int \<Rightarrow> nat \<Rightarrow> ('z world_scheme, unit) proc" where
  "start_tensor_store port cfg pipeline_parallel_size r =
     thenS (update_node r (\<lambda>v. v\<lparr>tensor_store_port := port, is_tensor_store_ready := False\<rparr>))
     (bindS (liftE (config_item (cfg_model_name cfg))) (\<lambda>model_name.
      let model_source = config_get (cfg_model_source cfg) ''huggingface'';
          s3_path = (if model_source = ''s3'' then cfg_s3_path cfg else None) in
      if model_source = ''s3'' \<and> (s3_path = None \<or> s3_path = Some '''') then raiseS ValueError
      else bindS (the_node r) (\<lambda>v.
        forS [0..<nat (tp_size v)] (\<lambda>local_rank_idx.
          start_one_tensor_store (node_ip v) r
            (store_options cfg model_name s3_path port pipeline_parallel_size v local_rank_idx)))))"

text \<open>\<open>json.dumps\<close> of a rank mapping; an address has no character that JSON escapes.\<close>

definition json_dumps_ranks :: "(string, int list) dict \<Rightarrow> string" where
  "json_dumps_ranks m =
     ''{'' @ join_with '', '' (map (\<lambda>(ip, rs). [CHR 0x22] @ ip @ [CHR 0x22] @ '': ['' @
        join_with '', '' (map str_int rs) @ '']'') m) @ ''}''"

text \<open>The arguments \<open>start_api_server\<close> gives to \<open>get_api_server_command\<close>.\<close>

definition api_options ::
  "config \<Rightarrow> string \<Rightarrow> string \<Rightarrow> int list \<Rightarrow> int option \<Rightarrow> (string, int list) dict \<Rightarrow> string \<Rightarrow> api_server_options" where
  "api_options cfg model_name pp_layer_partition parallel_strategy port node_rank_mapping ray_address =
     \<lparr>ap_model_name = model_name, ap_pp_layer_partition = pp_layer_partition,
      ap_parallel_strategy = parallel_strategy, ap_host = config_get (cfg_host cfg) ''0.0.0.0'',
      ap_node_rank_mapping = json_dumps_ranks node_rank_mapping, ap_nodes = length node_rank_mapping,
      ap_ray_address = ray_address, ap_num_gpu_blocks_override = cfg_num_gpu_blocks cfg, ap_port = port,
      ap_dtype = cfg_dtype cfg, ap_max_model_len = cfg_max_model_len cfg,
      ap_gpu_memory_utilization = cfg_gpu_memory_utilization cfg,
      ap_max_num_batched_tokens = cfg_max_num_batched_tokens cfg, ap_max_num_seqs = cfg_max_num_seqs cfg,
      ap_enforce_eager = True\<rparr>"

definition start_api_server ::
  "int option \<Rightarrow> config \<Rightarrow> (string, int list) dict \<Rightarrow> string \<Rightarrow> nat \<Rightarrow> ('z world_scheme, unit) proc" where
  "start_api_server port cfg node_rank_mapping ray_address r =
     bindS (the_node r) (\<lambda>v.
     if pipeline_rank v \<noteq> 0 then retS ()
     else thenS (update_node r (\<lambda>v. v\<lparr>api_server_port := port, is_api_server_ready := False\<rparr>))
       (bindS (liftE (config_item (cfg_model_name cfg))) (\<lambda>model_name.
        bindS (liftE (config_item (cfg_pp_layer_partition cfg))) (\<lambda>pp_layer_partition.
        bindS (liftE (config_item (cfg_parallel_strategy cfg))) (\<lambda>parallel_strategy.
        thenS (do_action (StartApiServer (node_ip v)
          (api_options cfg model_name pp_layer_partition parallel_strategy port node_rank_mapping ray_address)))
          (update_node r (\<lambda>v. v\<lparr>api_server_process := True\<rparr>)))))))"

text \<open>The ports are asked in order; the first that is not ready ends the loop.\<close>

fun probe_ports :: "env \<Rightarrow> string \<Rightarrow> int list \<Rightarrow> ('z world_scheme, bool) proc" where
  "probe_ports e ip [] = retS True"
| "probe_ports e ip (port # ports) =
     bindS (ask (\<lambda>t. ts_reply e t ip port (request_value STATUS_CHECK))) (\<lambda>resp.
     if resp \<noteq> Some (response_value READY) then retS False else probe_ports e ip ports)"

definition check_tensor_store_status :: "env \<Rightarrow> nat \<Rightarrow> ('z world_scheme, bool) proc" where
  "check_tensor_store_status e r =
     bindS (the_node r) (\<lambda>v.
     case tensor_store_port v of None \<Rightarrow> raiseS ValueError
     | Some base_port \<Rightarrow>
         bindS (probe_ports e (node_ip v) (map (\<lambda>i. base_port + int i) [0..<nat (tp_size v)])) (\<lambda>all_ready.
         thenS (update_node r (\<lambda>v. v\<lparr>is_tensor_store_ready := all_ready\<rparr>)) (retS all_ready)))"

definition check_api_server_status :: "env \<Rightarrow> nat \<Rightarrow> ('z world_scheme, bool) proc" where
  "check_api_server_status e r =
     bindS (the_node r) (\<lambda>v.
     if pipeline_rank v \<noteq> 0 then retS True
     else bindS (ask (\<lambda>t. case api_server_port v of None \<Rightarrow> None | Some p \<Rightarrow> api_health e t (node_ip v) p)) (\<lambda>code.
       let ready = (code = Some 200) in
       thenS (do_action (HealthCheck (node_ip v) (api_server_port v) code))
       (thenS (update_node r (\<lambda>v. v\<lparr>is_api_server_ready := ready\<rparr>)) (retS ready))))"

text \<open>One shutdown request per tensor store; the result counts the stores that accepted it.\<close>

fun shutdown_ports :: "env \<Rightarrow> string \<Rightarrow> int list \<Rightarrow> ('z world_scheme, nat) proc" where
  "shutdown_ports e ip [] = retS 0"
| "shutdown_ports e ip (port # ports) =
     thenS (do_action (ShutdownTensorStore ip port))
     (bindS (ask (\<lambda>t. ts_reply e t ip port (request_value SHUTDOWN))) (\<lambda>resp.
      bindS (shutdown_ports e ip ports) (\<lambda>n.
      retS (if resp = Some (response_value OK) then n + 1 else n))))"

definition kill_if_running :: "env \<Rightarrow> string \<Rightarrow> string \<Rightarrow> action \<Rightarrow> ('z world_scheme, bool) proc" where
  "kill_if_running e ip pattern kill =
     bindS (ask (\<lambda>t. remote_running e t ip pattern)) (\<lambda>running.
     if running = Some True then thenS (do_action kill) (retS False)
     else retS (running = Some False))"

definition stop_tensor_store :: "env \<Rightarrow> nat \<Rightarrow> ('z world_scheme, unit) proc" where
  "stop_tensor_store e r =
     bindS (the_node r) (\<lambda>v.
     case tensor_store_port v of None \<Rightarrow> retS ()
     | Some port \<Rightarrow>
         if \<not> is_tensor_store_ready v then retS ()
         else if tp_size v \<le> 0 then raiseS ValueError
         else bindS (shutdown_ports e (node_ip v)
             (map (\<lambda>i. port + start_local_rank v + int i) [0..<nat (tp_size v)])) (\<lambda>success_count.
           thenS (if int success_count < tp_size v
                  then thenS (kill_if_running e (node_ip v) ''tensor_store'' (KillTensorStores (node_ip v))) (retS ())
                  else retS ())
             (update_node r (\<lambda>v. v\<lparr>is_tensor_store_ready := False\<rparr>))))"

text \<open>
  \<open>assert_tensor_store_stopped\<close>: the cleanup thread checks and kills until a check finds no
  process, at most \<open>attempts\<close> times.
\<close>

fun cleanup_worker :: "env \<Rightarrow> string \<Rightarrow> nat \<Rightarrow> ('z world_scheme, unit) proc" where
  "cleanup_worker e ip 0 = retS ()"
| "cleanup_worker e ip (Suc attempts) =
     bindS (kill_if_running e ip ''tensor_store'' (KillTensorStores ip)) (\<lambda>stopped.
     if stopped then retS () else cleanup_worker e ip attempts)"

definition assert_tensor_store_stopped :: "env \<Rightarrow> nat \<Rightarrow> ('z world_scheme, unit) proc" where
  "assert_tensor_store_stopped e r = bindS (the_node r) (\<lambda>v. cleanup_worker e (node_ip v) 6)"

definition api_pattern :: "int option \<Rightarrow> string" where
  "api_pattern port = ''api_server.py.*--port='' @ (case port of None \<Rightarrow> ''None'' | Some p \<Rightarrow> str_int p)"

definition stop_api_server :: "env \<Rightarrow> int option \<Rightarrow> nat \<Rightarrow> ('z world_scheme, unit) proc" where
  "stop_api_server e port r =
     bindS (the_node r) (\<lambda>v.
     if pipeline_rank v \<noteq> 0 then retS ()
     else let port = (case port of None \<Rightarrow> api_server_port v | Some p \<Rightarrow> Some p) in
       thenS (update_node r (\<lambda>v. v\<lparr>is_api_server_ready := False\<rparr>))
       (thenS (do_action (ShutdownApiServer (node_ip v) port))
       (thenS (kill_if_running e (node_ip v) (api_pattern port) (KillApiServer (node_ip v) port)) (retS ()))))"

definition get_node_resources :: "vnode \<Rightarrow> string \<times> int \<times> nat \<times> string \<times> bool \<times> bool \<times> bool \<times> bool option" where
  "get_node_resources v =
     (node_ip v, tp_size v, pipeline_rank v,
      ''['' @ str_int (layer_start_id v) @ '', '' @ str_int (layer_end_id v) @ '')'',
      is_first_stage v, is_last_stage v, is_tensor_store_ready v,
      if pipeline_rank v = 0 then Some (is_api_server_ready v) else None)"

section \<open>Lemmas\<close>

text \<open>
  No operation changes where a node is, which GPUs, rank and layers it has: it may only change
  ports, flags and processes, and it never drops an object.
\<close>

definition node_id :: "vnode \<Rightarrow> string \<times> int \<times> int \<times> nat \<times> int \<times> int" where
  "node_id v = (node_ip v, tp_size v, start_local_rank v, pipeline_rank v, layer_start_id v, layer_end_id v)"

lemma node_id_eqD:
  assumes "node_id v = node_id v'"
  shows "node_ip v = node_ip v'" "tp_size v = tp_size v'" "start_local_rank v = start_local_rank v'"
    "pipeline_rank v = pipeline_rank v'" "layer_start_id v = layer_start_id v'" "layer_end_id v = layer_end_id v'"
  using assms by (simp_all add: node_id_def)

abbreviation ids :: "'z world_scheme \<Rightarrow> (string \<times> int \<times> int \<times> nat \<times> int \<times> int) list" where
  "ids w \<equiv> map node_id (objs w)"

definition frame :: "(string \<times> int \<times> int \<times> nat \<times> int \<times> int) list \<Rightarrow> 'z \<Rightarrow> 'z world_scheme \<Rightarrow> bool" where
  "frame xs m w \<longleftrightarrow> ids w = xs \<and> world.more w = m"

lemma keeps_update_node_frame [keeps_intros]:
  assumes "\<And>v. node_id (f v) = node_id v"
  shows "keeps (frame xs m) (update_node r f)"
proof (rule keepsI)
  fix w
  assume "frame xs m w"
  then show "frame xs m (snd (update_node r f w))"
    by (cases "r < length (objs w)")
      (auto simp: frame_def update_node_def map_update assms list_update_same_conv list_update_beyond)
qed

lemma keeps_basic_frame [keeps_intros]:
  "keeps (frame xs m) (do_action a)" "keeps (frame xs m) (ask q)" "keeps P (the_node r)"
  by (simp_all add: do_action_def ask_def the_node_def keeps_def frame_def)

lemma keeps_probe_ports [keeps_intros]:
  "(\<And>q. keeps P (ask q :: (_, byte list option) proc)) \<Longrightarrow> keeps P (probe_ports e ip ports)"
  by (induction ports) (auto intro!: keeps_intros)

lemma keeps_kill_if_running [keeps_intros]: "keeps (frame xs m) (kill_if_running e ip pat k)"
  by (auto simp: kill_if_running_def intro!: keeps_intros)

lemma keeps_shutdown_ports [keeps_intros]: "keeps (frame xs m) (shutdown_ports e ip ports)"
  by (induction ports) (auto intro!: keeps_intros)

lemma keeps_cleanup_worker [keeps_intros]: "keeps (frame xs m) (cleanup_worker e ip n)"
  by (induction n) (auto intro!: keeps_intros)

lemma operations_keep_frame [keeps_intros]:
  "keeps (frame xs m) (start_tensor_store port cfg pp r)"
  "keeps (frame xs m) (start_api_server port cfg nrm ra r)"
  "keeps (frame xs m) (check_tensor_store_status e r)"
  "keeps (frame xs m) (check_api_server_status e r)"
  "keeps (frame xs m) (stop_tensor_store e r)"
  "keeps (frame xs m) (assert_tensor_store_stopped e r)"
  "keeps (frame xs m) (stop_api_server e p r)"
  by (auto simp: start_tensor_store_def start_one_tensor_store_def start_api_server_def check_tensor_store_status_def
      check_api_server_status_def stop_tensor_store_def assert_tensor_store_stopped_def stop_api_server_def
      node_id_def Let_def split: option.split intro!: keeps_intros)

text \<open>What an operation that keeps the frame leaves unchanged.\<close>

lemma frameD:
  assumes "\<And>xs m. keeps (frame xs m) op" and "op w = (r, w')"
  shows "ids w' = ids w" and "world.more w' = world.more w"
  using keepsD [OF assms(1), of "ids w" "world.more w" w r w'] assms(2) by (simp_all add: frame_def)

text \<open>Operations that stop nothing: what they add to the trace.\<close>

fun is_stop :: "action \<Rightarrow> bool" where
  "is_stop (ShutdownTensorStore _ _) = True"
| "is_stop (KillTensorStores _) = True"
| "is_stop (ShutdownApiServer _ _) = True"
| "is_stop (KillApiServer _ _) = True"
| "is_stop (RayStop _) = True"
| "is_stop _ = False"

definition starts_only :: "action list \<Rightarrow> 'z world_scheme \<Rightarrow> bool" where
  "starts_only t w \<longleftrightarrow> (\<exists>as. trace w = t @ as \<and> list_all (\<lambda>a. \<not> is_stop a) as)"

lemma keeps_starts_only [keeps_intros]:
  "keeps (starts_only t) (update_node r f)" "keeps (starts_only t) (ask q)"
  "\<not> is_stop a \<Longrightarrow> keeps (starts_only t) (do_action a)"
  by (auto simp: keeps_def starts_only_def update_node_def ask_def do_action_def)

lemma operations_start_only [keeps_intros]:
  "keeps (starts_only t) (start_tensor_store port cfg pp r)"
  "keeps (starts_only t) (start_api_server port cfg nrm ra r)"
  "keeps (starts_only t) (check_tensor_store_status e r)"
  "keeps (starts_only t) (check_api_server_status e r)"
  by (auto simp: start_tensor_store_def start_one_tensor_store_def start_api_server_def check_tensor_store_status_def
      check_api_server_status_def Let_def split: option.split intro!: keeps_intros)

lemma starts_only_refl: "starts_only (trace w) w"
  by (simp add: starts_only_def)

lemma start_stores_run:
  "r < length (objs w) \<Longrightarrow>
   \<exists>w'. forS is (\<lambda>i. start_one_tensor_store ip r (opts i)) w = (Inr (), w') \<and>
     trace w' = trace w @ map (\<lambda>i. StartTensorStore ip (opts i)) is \<and>
     length (objs w') = length (objs w) \<and> node_id (objs w' ! r) = node_id (objs w ! r) \<and>
     tensor_store_port (objs w' ! r) = tensor_store_port (objs w ! r)"
proof (induction "is" arbitrary: w)
  case (Cons i "is")
  let ?w = "snd (start_one_tensor_store ip r (opts i) w)"
  have w: "start_one_tensor_store ip r (opts i) w = (Inr (), ?w)"
    "trace ?w = trace w @ [StartTensorStore ip (opts i)]"
    "length (objs ?w) = length (objs w)" "node_id (objs ?w ! r) = node_id (objs w ! r)"
    "tensor_store_port (objs ?w ! r) = tensor_store_port (objs w ! r)"
    using Cons.prems by (simp_all add: start_one_tensor_store_def thenS_def bindS_def do_action_def
        update_node_def node_id_def)
  from Cons.IH [of ?w] Cons.prems w(3) obtain w' where
    "forS is (\<lambda>i. start_one_tensor_store ip r (opts i)) ?w = (Inr (), w')"
    "trace w' = trace ?w @ map (\<lambda>i. StartTensorStore ip (opts i)) is"
    "length (objs w') = length (objs ?w)" "node_id (objs w' ! r) = node_id (objs ?w ! r)"
    "tensor_store_port (objs w' ! r) = tensor_store_port (objs ?w ! r)" by auto
  moreover from this(1) have "forS (i # is) (\<lambda>i. start_one_tensor_store ip r (opts i)) w = (Inr (), w')"
    using w(1) by (auto simp: thenS_Inr_iff)
  ultimately show ?case using w(2-5) by simp
qed simp

lemma api_options_port [simp]: "ap_port (api_options cfg name pplp ps port nrm ra) = port"
  by (simp add: api_options_def)

lemma store_options_port:
  "final_port (o_status_port (store_options cfg name s3 (Some port) pp v i)) (o_local_rank (store_options cfg name s3 (Some port) pp v i)) =
     port + start_local_rank v + int i"
  by (simp add: store_options_def final_port_def)

text \<open>Starting a node's tensor stores: one process per GPU, on the base port plus the GPU's rank.\<close>

lemma start_tensor_store_trace:
  assumes "start_tensor_store port cfg pp r w = (Inr (), w')" and "r < length (objs w)"
  shows "\<exists>name s3. cfg_model_name cfg = Some name \<and> trace w' = trace w @
       map (\<lambda>i. StartTensorStore (node_ip (objs w ! r)) (store_options cfg name s3 port pp (objs w ! r) i))
         [0..<nat (tp_size (objs w ! r))]"
    and "length (objs w') = length (objs w)" and "node_id (objs w' ! r) = node_id (objs w ! r)"
    and "tensor_store_port (objs w' ! r) = port"
proof -
  let ?w = "w\<lparr>objs := (objs w)[r := (objs w ! r)\<lparr>tensor_store_port := port, is_tensor_store_ready := False\<rparr>]\<rparr>"
  have r: "r < length (objs ?w)" using assms(2) by simp
  have opts: "store_options cfg name s3 port pp (objs ?w ! r) = store_options cfg name s3 port pp (objs w ! r)" for name s3
    using assms(2) by (simp add: fun_eq_iff store_options_def)
  obtain name s3 where run: "cfg_model_name cfg = Some name"
    "forS [0..<nat (tp_size (objs w ! r))] (\<lambda>i. start_one_tensor_store (node_ip (objs w ! r)) r
      (store_options cfg name s3 port pp (objs w ! r) i)) ?w = (Inr (), w')"
    using assms opts by (auto simp: start_tensor_store_def thenS_Inr_iff bindS_Inr_iff update_node_def the_node_def
        Let_def config_item_def split: if_splits option.splits)
  from start_stores_run [OF r, of "[0..<nat (tp_size (objs w ! r))]" "node_ip (objs w ! r)"
      "store_options cfg name s3 port pp (objs w ! r)"] run assms(2)
  show "\<exists>name s3. cfg_model_name cfg = Some name \<and> trace w' = trace w @
       map (\<lambda>i. StartTensorStore (node_ip (objs w ! r)) (store_options cfg name s3 port pp (objs w ! r) i))
         [0..<nat (tp_size (objs w ! r))]"
    "length (objs w') = length (objs w)" "node_id (objs w' ! r) = node_id (objs w ! r)"
    "tensor_store_port (objs w' ! r) = port"
    by (auto simp: node_id_def)
qed

lemma probe_ports_True_iff:
  assumes "\<And>t p. p \<in> set ports \<Longrightarrow> (ts_reply e t ip p (request_value STATUS_CHECK) = Some (response_value READY)) = ok p"
  shows "\<exists>w'. probe_ports e ip ports w = (Inr (list_all ok ports), w') \<and> objs w' = objs w"
  using assms
proof (induction ports arbitrary: w)
  case (Cons p ports)
  let ?w = "w\<lparr>now := now w + 1\<rparr>"
  from Cons.IH [of ?w] Cons.prems obtain w' where
    "probe_ports e ip ports ?w = (Inr (list_all ok ports), w')" "objs w' = objs ?w" by auto
  moreover have "ask (\<lambda>t. ts_reply e t ip p (request_value STATUS_CHECK)) w =
      (Inr (ts_reply e (now w) ip p (request_value STATUS_CHECK)), ?w)" by (simp add: ask_def)
  ultimately show ?case using Cons.prems [of p "now w"]
    by (auto simp: bindS_def)
qed simp

lemma check_tensor_store_status_run:
  assumes "tensor_store_port (objs w ! r) = Some port"
    and "\<And>t p. p \<in> set (map (\<lambda>i. port + int i) [0..<nat (tp_size (objs w ! r))]) \<Longrightarrow>
       (ts_reply e t (node_ip (objs w ! r)) p (request_value STATUS_CHECK) = Some (response_value READY)) = ok p"
  shows "fst (check_tensor_store_status e r w) =
     Inr (list_all ok (map (\<lambda>i. port + int i) [0..<nat (tp_size (objs w ! r))]))"
proof -
  let ?ports = "map (\<lambda>i. port + int i) [0..<nat (tp_size (objs w ! r))]"
  obtain w' where w': "probe_ports e (node_ip (objs w ! r)) ?ports w = (Inr (list_all ok ?ports), w')"
    using probe_ports_True_iff [of ?ports e "node_ip (objs w ! r)" ok w] assms(2) by blast
  show ?thesis
    using w' by (simp add: check_tensor_store_status_def the_node_def bindS_def thenS_def update_node_def assms(1))
qed

section \<open>Properties\<close>

text \<open>
  Readiness of the tensor stores. Take a node whose stores have just been started and an
  environment in which exactly the started stores of this node answer that they are ready. Then
  \<open>check_tensor_store_status\<close> reports the node ready if and only if its first GPU is GPU 0: the
  stores listen on the base port plus the GPU's number on the machine, while the check asks the
  base port plus the number within the node.
\<close>

theorem tensor_store_ready_iff:
  assumes "start_tensor_store (Some port) cfg pp r w = (Inr (), w')" and "r < length (objs w)"
    and "0 < tp_size (objs w ! r)" and "0 \<le> start_local_rank (objs w ! r)"
    and "\<And>t p. ts_reply e t (node_ip (objs w ! r)) p (request_value STATUS_CHECK) =
       (if \<exists>a. StartTensorStore (node_ip (objs w ! r)) a \<in> set (drop (length (trace w)) (trace w')) \<and>
            final_port (o_status_port a) (o_local_rank a) = p
        then Some (response_value READY) else None)"
  shows "fst (check_tensor_store_status e r w') = Inr (start_local_rank (objs w ! r) = 0)"
proof -
  let ?v = "objs w ! r"
  let ?n = "nat (tp_size ?v)" and ?ok = "\<lambda>p. \<exists>i < nat (tp_size ?v). p = port + start_local_rank ?v + int i"
  note st = start_tensor_store_trace [OF assms(1,2)]
  have id: "node_ip (objs w' ! r) = node_ip ?v" "tp_size (objs w' ! r) = tp_size ?v"
    using node_id_eqD [OF st(3)] by simp_all
  from st(1) obtain name s3 where tr: "set (drop (length (trace w)) (trace w')) =
      (\<lambda>i. StartTensorStore (node_ip ?v) (store_options cfg name s3 (Some port) pp ?v i)) ` {0..<?n}" by auto
  have "(\<exists>a. StartTensorStore (node_ip ?v) a \<in> set (drop (length (trace w)) (trace w')) \<and>
      final_port (o_status_port a) (o_local_rank a) = p) \<longleftrightarrow> ?ok p" for p
    unfolding tr image_iff Bex_def by (simp add: conj_commute ex_simps [symmetric] del: ex_simps) (auto simp: store_options_port)
  then have rep: "(ts_reply e t (node_ip ?v) p (request_value STATUS_CHECK) = Some (response_value READY)) = ?ok p" for t p
    using assms(5) by simp
  have "list_all ?ok (map (\<lambda>i. port + int i) [0..<?n]) \<longleftrightarrow> start_local_rank ?v = 0"
  proof
    assume "list_all ?ok (map (\<lambda>i. port + int i) [0..<?n])"
    then have "\<forall>i \<in> {0..<?n}. ?ok (port + int i)" by (simp add: list_all_iff)
    moreover have "0 \<in> {0..<?n}" using assms(3) by simp
    ultimately have "?ok (port + int 0)" by (rule bspec)
    then show "start_local_rank ?v = 0" using assms(4) by auto
  qed (auto simp: list_all_iff)
  with check_tensor_store_status_run [OF st(4), of e ?ok] rep id show ?thesis by simp
qed

definition example_world :: world where
  "example_world = \<lparr>objs = [VNode_init ''10.0.0.1'' 2 1 0 0 8 8], now = 0, trace = []\<rparr>"

definition example_cfg :: config where
  "example_cfg = \<lparr>cfg_model_name = Some ''m'', cfg_total_num_layers = Some 8, cfg_pp_layer_partition = Some ''8'',
     cfg_parallel_strategy = Some [1], cfg_model_source = None, cfg_s3_path = None,
     cfg_tensor_store_base_port = None, cfg_api_server_base_port = None, cfg_max_batch_size = None, cfg_mode = None,
     cfg_dtype = None, cfg_aws_profile = None, cfg_block_size = None, cfg_gpu_memory_utilization = None,
     cfg_swap_space = None, cfg_cache_dtype = None, cfg_max_model_len = None, cfg_num_gpu_blocks = None,
     cfg_host = None, cfg_max_num_batched_tokens = None, cfg_max_num_seqs = None\<rparr>"

definition example_env :: "env" where
  "example_env = \<lparr>ts_reply = (\<lambda>t ip p q. if p = 10003 then Some (response_value READY) else None),
     api_health = (\<lambda>t ip p. Some 200), remote_running = (\<lambda>t ip pat. Some False), ray_init = (\<lambda>t p. Inr ()),
     join_rc = (\<lambda>t ip. 0), ray_nodes = (\<lambda>t. []), head_ip = ''10.0.0.9''\<rparr>"

theorem tensor_store_ready_iff_witness:
  "fst (check_tensor_store_status example_env 0 (snd (start_tensor_store (Some 10001) example_cfg 1 0 example_world))) = Inr False"
proof -
  let ?w = "snd (start_tensor_store (Some 10001) example_cfg 1 0 example_world)"
  have run: "start_tensor_store (Some 10001) example_cfg 1 0 example_world = (Inr (), ?w)"
    and tr: "trace ?w = [StartTensorStore ''10.0.0.1'' (store_options example_cfg ''m'' None (Some 10001) 1
        (objs example_world ! 0) 0)]"
    by (simp_all add: start_tensor_store_def start_one_tensor_store_def thenS_def bindS_def update_node_def
        the_node_def do_action_def config_item_def config_get_def Let_def example_cfg_def example_world_def VNode_init_def
        store_options_def)
  have "fst (check_tensor_store_status example_env 0 ?w) = Inr (start_local_rank (objs example_world ! 0) = 0)"
    by (rule tensor_store_ready_iff [OF run])
      (simp_all add: tr, simp_all add: example_world_def VNode_init_def example_env_def store_options_def final_port_def)
  then show ?thesis by (simp add: example_world_def VNode_init_def)
qed

end
