(* ===== verification/Pipeline.thy ===== *)
theory Pipeline
  imports VNode
begin

text \<open>
  The pipelines of \<^verbatim>\<open>GlobalServer/VNode.py\<close> (class \<open>Pipeline\<close>): creation from a node and layer
  mapping, the check of the GPU allocation, the rank mapping given to the inference engine, the
  Ray cluster, the wait for all services, shutdown, and the replacement of nodes. A pipeline
  extends the store of virtual nodes by its own fields; \<open>vnodes\<close> holds references into the store,
  so that a node that is replaced and a node that stays are different or the same object as in the
  code. Loops that wait for the outside world take a number of rounds as fuel.
\<close>

section \<open>State\<close>

record pipeline = world +
  vnodes :: "nat list"
  model_name :: string
  total_layers :: int
  node_rank_mapping :: "(string, int list) dict"
  ideal_throughput :: py_float
  is_ready :: bool
  ray_port :: "int option"
  ray_head_ip :: "string option"
  api_server_host :: "string option"
  pl_api_server_port :: "int option"
  max_batch_size :: "int option"
  flying_requests :: int
  pl_config :: "config option"
  mode :: string

definition Pipeline_init :: "nat \<Rightarrow> pipeline" where
  "Pipeline_init t = \<lparr>objs = [], now = t, trace = [], vnodes = [], model_name = '''', total_layers = 0,
     node_rank_mapping = [], ideal_throughput = 0, is_ready = False, ray_port = None, ray_head_ip = None,
     api_server_host = None, pl_api_server_port = None, max_batch_size = None, flying_requests = 0,
     pl_config = None, mode = ''default''\<rparr>"

text \<open>An entry of the mapping: a tuple of length two, of length three, or of another length.\<close>

datatype mapping_entry = Auto string int | Manual string int int | OtherLength nat

abbreviation node_of :: "pipeline \<Rightarrow> nat \<Rightarrow> vnode" where
  "node_of p i \<equiv> objs p ! (vnodes p ! i)"

abbreviation nodes_of :: "pipeline \<Rightarrow> vnode list" where
  "nodes_of p \<equiv> map (\<lambda>r. objs p ! r) (vnodes p)"

section \<open>Capacity\<close>

definition has_capacity :: "pipeline \<Rightarrow> bool" where
  "has_capacity p = (case max_batch_size p of None \<Rightarrow> True | Some m \<Rightarrow> flying_requests p < m)"

definition add_flying_request :: "pipeline \<Rightarrow> pipeline" where
  "add_flying_request p = p\<lparr>flying_requests := flying_requests p + 1\<rparr>"

definition remove_flying_request :: "pipeline \<Rightarrow> pipeline" where
  "remove_flying_request p = p\<lparr>flying_requests := max 0 (flying_requests p - 1)\<rparr>"

section \<open>Layout\<close>

definition entry_layers :: "mapping_entry \<Rightarrow> int py" where
  "entry_layers e = (case e of Auto _ l \<Rightarrow> Inr l | Manual _ l _ \<Rightarrow> Inr l | OtherLength _ \<Rightarrow> Inl ValueError)"

definition total_assigned_layers :: "mapping_entry list \<Rightarrow> int py" where
  "total_assigned_layers ms = foldE (\<lambda>acc m. bindE (entry_layers m) (\<lambda>l. Inr (acc + l))) 0 ms"

text \<open>Address, layers and first GPU of an entry, given the next free GPU of each address.\<close>

definition resolve_entry :: "(string, int) dict \<Rightarrow> mapping_entry \<Rightarrow> (string \<times> int \<times> int) py" where
  "resolve_entry start_local_ranks m =
     (case m of
        Auto ip l \<Rightarrow> Inr (ip, l, case dict_get start_local_ranks ip of None \<Rightarrow> 0 | Some s \<Rightarrow> s)
      | Manual ip l s \<Rightarrow> Inr (ip, l, s)
      | OtherLength _ \<Rightarrow> Inl ValueError)"

definition append_node :: "vnode \<Rightarrow> (pipeline, unit) proc" where
  "append_node v = modS (\<lambda>p. p\<lparr>objs := objs p @ [v], vnodes := vnodes p @ [length (objs p)]\<rparr>)"

fun create_vnodes ::
  "config \<Rightarrow> int \<Rightarrow> nat \<Rightarrow> int \<Rightarrow> (string, int) dict \<Rightarrow> mapping_entry list \<Rightarrow> (pipeline, unit) proc" where
  "create_vnodes cfg layers rank start_layer_idx start_local_ranks [] = retS ()"
| "create_vnodes cfg layers rank start_layer_idx start_local_ranks (m # ms) =
     bindS (liftE (resolve_entry start_local_ranks m)) (\<lambda>(ip, layer_partition, local_rank).
     bindS (liftE (bindE (config_item (cfg_parallel_strategy cfg)) (\<lambda>ps. nthE ps rank))) (\<lambda>tp.
     thenS (append_node (VNode_init ip local_rank tp rank start_layer_idx (start_layer_idx + layer_partition) layers))
       (create_vnodes cfg layers (Suc rank) (start_layer_idx + layer_partition)
          (dict_set ip (local_rank + tp) start_local_ranks) ms)))"

definition gpu_range :: "vnode \<Rightarrow> int list" where
  "gpu_range v = [start_local_rank v..start_local_rank v + tp_size v - 1]"

definition mark_gpu :: "string \<Rightarrow> (string \<times> int) list \<Rightarrow> int \<Rightarrow> (string \<times> int) list py" where
  "mark_gpu ip gpu_usage local_rank =
     (if (ip, local_rank) \<in> set gpu_usage then Inl ValueError else Inr ((ip, local_rank) # gpu_usage))"

definition validate_gpu_allocation :: "vnode list \<Rightarrow> (string \<times> int) list py" where
  "validate_gpu_allocation vs =
     foldE (\<lambda>gpu_usage v. foldE (mark_gpu (node_ip v)) gpu_usage (gpu_range v)) [] vs"

definition add_ranks :: "(string, int list) dict \<times> int \<Rightarrow> vnode \<Rightarrow> (string, int list) dict \<times> int" where
  "add_ranks st v =
     (case st of (m, current_rank) \<Rightarrow>
        let ranks = [current_rank..current_rank + tp_size v - 1] in
        (case dict_get m (node_ip v) of
           None \<Rightarrow> dict_set (node_ip v) ranks m
         | Some old \<Rightarrow> dict_set (node_ip v) (old @ ranks) m,
         current_rank + tp_size v))"

definition rank_mapping_of :: "vnode list \<Rightarrow> (string, int list) dict" where
  "rank_mapping_of vs = fst (foldl add_ranks ([], 0) vs)"

definition generate_node_rank_mapping :: "(pipeline, unit) proc" where
  "generate_node_rank_mapping = modS (\<lambda>p. p\<lparr>node_rank_mapping := rank_mapping_of (nodes_of p)\<rparr>)"

section \<open>The Ray cluster\<close>

definition get_alternate_ray_port :: "pipeline \<Rightarrow> int" where
  "get_alternate_ray_port p =
     (if mode p = ''hexgen'' then 6379 else if ray_port p = Some 6379 then 6380 else 6379)"

definition ray_address :: "pipeline \<Rightarrow> int option \<Rightarrow> string" where
  "ray_address p port = str_opt (ray_head_ip p) @ '':'' @ str_opt (map_option str_int port)"

definition connected_ips :: "ray_node list \<Rightarrow> string list" where
  "connected_ips ns = map NodeManagerAddress (filter Alive ns)"

fun join_nodes :: "env \<Rightarrow> int \<Rightarrow> string list \<Rightarrow> (pipeline, string list) proc" where
  "join_nodes e port [] = retS []"
| "join_nodes e port (ip # ips) =
     thenS (do_action (RayJoin ip port))
     (bindS (ask (\<lambda>t. join_rc e t ip)) (\<lambda>rc.
      bindS (join_nodes e port ips) (\<lambda>failed.
      retS (if rc \<noteq> 0 then ip # failed else failed))))"

fun await_connected :: "env \<Rightarrow> string list \<Rightarrow> nat \<Rightarrow> (pipeline, bool) proc" where
  "await_connected e ips 0 = retS False"
| "await_connected e ips (Suc n) =
     bindS (ask (ray_nodes e)) (\<lambda>ns.
     if set ips \<subseteq> set (connected_ips ns) then retS True else await_connected e ips n)"

definition max_attempts :: nat where
  "max_attempts = 10000"

definition start_ray_cluster :: "env \<Rightarrow> int \<Rightarrow> (pipeline, unit) proc" where
  "start_ray_cluster e port =
     (if port \<notin> {6379, 6380} then raiseS ValueError
      else thenS (modS (\<lambda>p. p\<lparr>ray_port := Some port, ray_head_ip := Some (head_ip e)\<rparr>))
      (bindS (ask (\<lambda>t. ray_init e t port)) (\<lambda>init.
       thenS (liftE init)
      (bindS (ask (ray_nodes e)) (\<lambda>ns.
       bindS (getS (\<lambda>p. remdups (map node_ip (nodes_of p)))) (\<lambda>vnode_ips.
       let nodes_to_connect = filter (\<lambda>ip. ip \<notin> set (connected_ips ns)) vnode_ips in
       if nodes_to_connect = [] then retS ()
       else bindS (join_nodes e port nodes_to_connect) (\<lambda>failed_nodes.
         if failed_nodes \<noteq> [] then raiseS RuntimeError
         else bindS (await_connected e vnode_ips max_attempts) (\<lambda>ok.
           if ok then retS () else raiseS RuntimeError))))))))"

text \<open>
  The GPUs Ray reports for a node: the loop ends when the node is listed with at least one.
\<close>

fun wait_gpu_count :: "env \<Rightarrow> nat \<Rightarrow> string \<Rightarrow> (pipeline, int) proc" where
  "wait_gpu_count e 0 ip = raiseS Timeout"
| "wait_gpu_count e (Suc fuel) ip =
     bindS (ask (ray_nodes e)) (\<lambda>ns.
     case find (\<lambda>n. NodeManagerAddress n = ip) ns of
       Some n \<Rightarrow> if GPU n > 0 then retS (GPU n) else wait_gpu_count e fuel ip
     | None \<Rightarrow> wait_gpu_count e fuel ip)"

section \<open>Waiting for the services\<close>

text \<open>One round over the nodes: a node that was ready is not asked again.\<close>

fun poll_nodes :: "env \<Rightarrow> nat list \<Rightarrow> bool list \<Rightarrow> (pipeline, bool list) proc" where
  "poll_nodes e (r # rs) (b # bs) =
     bindS (if b then retS True else check_tensor_store_status e r) (\<lambda>b'.
     bindS (poll_nodes e rs bs) (\<lambda>bs'. retS (b' # bs')))"
| "poll_nodes e _ _ = retS []"

fun services_loop :: "env \<Rightarrow> nat \<Rightarrow> nat list \<Rightarrow> bool list \<Rightarrow> bool \<Rightarrow> (pipeline, unit) proc" where
  "services_loop e 0 rs statuses api =
     (if list_all (\<lambda>b. b) statuses \<and> api then retS () else raiseS Timeout)"
| "services_loop e (Suc fuel) rs statuses api =
     (if list_all (\<lambda>b. b) statuses \<and> api then retS ()
      else bindS (poll_nodes e rs statuses) (\<lambda>statuses'.
        bindS (if \<not> api \<and> rs \<noteq> [] then check_api_server_status e (hd rs) else retS api) (\<lambda>api'.
        services_loop e fuel rs statuses' api')))"

definition wait_for_services :: "env \<Rightarrow> nat \<Rightarrow> (pipeline, unit) proc" where
  "wait_for_services e fuel =
     bindS (getS vnodes) (\<lambda>rs. services_loop e fuel rs (replicate (length rs) False) False)"

section \<open>Creation and shutdown\<close>

definition set_api_from_first :: "(pipeline, unit) proc" where
  "set_api_from_first = modS (\<lambda>p. p\<lparr>api_server_host := Some (node_ip (node_of p 0)),
     pl_api_server_port := api_server_port (node_of p 0)\<rparr>)"

text \<open>The first part of \<open>initialize_pipeline\<close>: checks, fields and the virtual nodes.\<close>

definition build_pipeline :: "mapping_entry list \<Rightarrow> config \<Rightarrow> py_float \<Rightarrow> (pipeline, unit) proc" where
  "build_pipeline node_layer_mapping cfg throughput =
     thenS (liftE (assertE (node_layer_mapping \<noteq> []) AssertionError))
     (thenS (modS (\<lambda>p. p\<lparr>pl_config := Some cfg\<rparr>))
     (bindS (liftE (config_item (cfg_model_name cfg))) (\<lambda>name.
      bindS (liftE (config_item (cfg_total_num_layers cfg))) (\<lambda>total_num_layers.
      bindS (liftE (total_assigned_layers node_layer_mapping)) (\<lambda>assigned.
      thenS (liftE (assertE (assigned = total_num_layers) AssertionError))
      (thenS (modS (\<lambda>p. p\<lparr>mode := (case cfg_mode cfg of None \<Rightarrow> ''default'' | Some m \<Rightarrow> m),
           model_name := name, total_layers := total_num_layers, ideal_throughput := throughput,
           max_batch_size := cfg_max_batch_size cfg\<rparr>))
      (thenS (create_vnodes cfg total_num_layers 0 0 [] node_layer_mapping)
      (bindS (getS nodes_of) (\<lambda>vs. thenS (liftE (validate_gpu_allocation vs)) (retS ()))))))))))"

text \<open>The second part: the Ray cluster, the servers, and the wait until they are ready.\<close>

definition launch_pipeline :: "env \<Rightarrow> nat \<Rightarrow> config \<Rightarrow> (pipeline, unit) proc" where
  "launch_pipeline e fuel cfg =
     bindS (getS get_alternate_ray_port) (\<lambda>port.
      thenS (start_ray_cluster e port)
     (bindS (getS vnodes) (\<lambda>rs.
      thenS (forS rs (\<lambda>r. bindS (the_node r) (\<lambda>v. thenS (wait_gpu_count e fuel (node_ip v)) (retS ()))))
     (bindS (liftE (config_item (cfg_parallel_strategy cfg))) (\<lambda>ps.
      thenS (forS rs (\<lambda>r. start_tensor_store (Some (config_get (cfg_tensor_store_base_port cfg)
          DEFAULT_TENSOR_STORE_BASE_PORT)) cfg (int (length ps)) r))
     (thenS generate_node_rank_mapping
     (bindS (getS (\<lambda>p. (node_rank_mapping p, ray_address p (ray_port p)))) (\<lambda>(nrm, ra).
      thenS (start_api_server (Some (config_get (cfg_api_server_base_port cfg) DEFAULT_API_SERVER_BASE_PORT)) cfg nrm ra
          (hd rs))
     (thenS set_api_from_first
     (thenS (wait_for_services e fuel)
     (thenS set_api_from_first
       (modS (\<lambda>p. p\<lparr>is_ready := True\<rparr>)))))))))))))"

definition initialize_pipeline ::
  "env \<Rightarrow> nat \<Rightarrow> mapping_entry list \<Rightarrow> config \<Rightarrow> py_float \<Rightarrow> (pipeline, unit) proc" where
  "initialize_pipeline e fuel node_layer_mapping cfg throughput =
     thenS (build_pipeline node_layer_mapping cfg throughput) (launch_pipeline e fuel cfg)"

definition stop_pipeline :: "env \<Rightarrow> (pipeline, unit) proc" where
  "stop_pipeline e =
     thenS (modS (\<lambda>p. p\<lparr>is_ready := False\<rparr>))
     (bindS (getS vnodes) (\<lambda>rs.
      if rs = [] then raiseS ValueError
      else thenS (forS rs (\<lambda>r. ignoreS (stop_tensor_store e r)))
        (ignoreS (stop_api_server e None (hd rs)))))"

section \<open>Replacing nodes\<close>

definition find_node :: "pipeline \<Rightarrow> string \<Rightarrow> nat option" where
  "find_node p ip = find (\<lambda>i. node_ip (node_of p i) = ip) [0..<length (vnodes p)]"

definition replacement :: "vnode \<Rightarrow> string \<Rightarrow> vnode" where
  "replacement v ip = VNode_init ip (start_local_rank v) (tp_size v) (pipeline_rank v) (layer_start_id v)
     (layer_end_id v) (vtotal_layers v)"

definition replace_node :: "nat \<Rightarrow> vnode \<Rightarrow> (pipeline, nat) proc" where
  "replace_node i v =
     bindS (getS (\<lambda>p. length (objs p))) (\<lambda>r.
     thenS (modS (\<lambda>p. p\<lparr>objs := objs p @ [v], vnodes := (vnodes p)[i := r]\<rparr>)) (retS r))"

text \<open>
  The port of the new API server: the old one, or the next if the head node stays.
\<close>

definition new_api_port :: "string option \<Rightarrow> string \<Rightarrow> int option \<Rightarrow> int option py" where
  "new_api_port old_host new_host old_port =
     (if old_host = Some new_host
      then (case old_port of None \<Rightarrow> Inl TypeError | Some p \<Rightarrow> Inr (Some (p + 1)))
      else Inr old_port)"

text \<open>The last step of a switch: the old API server is stopped and the new one takes over.\<close>

definition switch_over :: "env \<Rightarrow> nat \<Rightarrow> int option \<Rightarrow> string \<Rightarrow> int option \<Rightarrow> (pipeline, unit) proc" where
  "switch_over e old_first old_port new_host new_port =
     thenS (modS (\<lambda>p. p\<lparr>is_ready := False\<rparr>))
     (thenS (stop_api_server e old_port old_first)
       (modS (\<lambda>p. p\<lparr>api_server_host := Some new_host, pl_api_server_port := new_port, is_ready := True\<rparr>)))"

definition set_tp_size :: "env \<Rightarrow> nat \<Rightarrow> nat \<Rightarrow> (pipeline, unit) proc" where
  "set_tp_size e fuel r =
     bindS (the_node r) (\<lambda>v.
     bindS (wait_gpu_count e fuel (node_ip v)) (\<lambda>n.
     update_node r (\<lambda>v. v\<lparr>tp_size := n\<rparr>)))"

definition config_strategy :: "(pipeline, config \<times> int list) proc" where
  "config_strategy =
     bindS (getS pl_config) (\<lambda>c.
     case c of None \<Rightarrow> raiseS KeyError
     | Some cfg \<Rightarrow> bindS (liftE (config_item (cfg_parallel_strategy cfg))) (\<lambda>ps. retS (cfg, ps)))"

text \<open>The new API server of a switch; the result is its host and port.\<close>

definition start_new_api ::
  "config \<Rightarrow> string option \<Rightarrow> int option \<Rightarrow> int \<Rightarrow> (pipeline, nat \<times> string \<times> int option) proc" where
  "start_new_api cfg old_host old_port new_ray_port =
     bindS (getS (\<lambda>p. (vnodes p ! 0, node_ip (node_of p 0), node_rank_mapping p, ray_address p (Some new_ray_port))))
       (\<lambda>(new_first, new_host, nrm, new_ray_address).
     bindS (liftE (new_api_port old_host new_host old_port)) (\<lambda>new_port.
     thenS (start_api_server new_port cfg nrm new_ray_address new_first) (retS (new_first, new_host, new_port))))"

text \<open>Steps 4 to 7 of \<open>switch_node\<close>: up to the point where the new servers are ready.\<close>

definition bring_up_node ::
  "env \<Rightarrow> nat \<Rightarrow> int option \<Rightarrow> string option \<Rightarrow> int option \<Rightarrow> int \<Rightarrow> nat \<Rightarrow> (pipeline, string \<times> int option) proc" where
  "bring_up_node e fuel store_port old_host old_port new_ray_port new =
     thenS (start_ray_cluster e new_ray_port)
    (thenS (set_tp_size e fuel new)
    (bindS config_strategy (\<lambda>(cfg, ps).
     thenS (start_tensor_store store_port cfg (int (length ps)) new)
    (thenS (pollS fuel (check_tensor_store_status e new))
    (thenS generate_node_rank_mapping
    (bindS (start_new_api cfg old_host old_port new_ray_port) (\<lambda>(new_first, new_host, new_port).
     thenS (pollS fuel (check_api_server_status e new_first))
       (retS (new_host, new_port)))))))))"

definition switch_node :: "env \<Rightarrow> nat \<Rightarrow> string \<Rightarrow> string \<Rightarrow> (pipeline, unit) proc" where
  "switch_node e fuel old_node_ip new_node_ip =
     bindS (getS (\<lambda>p. find_node p old_node_ip)) (\<lambda>found.
     case found of None \<Rightarrow> raiseS ValueError
     | Some target_index \<Rightarrow>
     bindS (getS (\<lambda>p. (vnodes p ! target_index, vnodes p ! 0, get_alternate_ray_port p,
         api_server_host p, pl_api_server_port p)))
       (\<lambda>(target, old_first, new_ray_port, old_host, old_port).
     bindS (the_node target) (\<lambda>target_vnode.
     bindS (replace_node target_index (replacement target_vnode new_node_ip)) (\<lambda>new.
     bindS (bring_up_node e fuel (tensor_store_port target_vnode) old_host old_port new_ray_port new)
       (\<lambda>(new_host, new_port).
     thenS (switch_over e old_first old_port new_host new_port)
    (thenS (do_action (RayStop (node_ip target_vnode)))
    (thenS (stop_tensor_store e target)
      (assert_tensor_store_stopped e target))))))))"

text \<open>The replacements of \<open>switch_nodes\<close>: the old and the new object of each pair.\<close>

fun replace_nodes :: "(nat \<times> nat) list \<Rightarrow> (string \<times> string) list \<Rightarrow> (pipeline, nat list) proc" where
  "replace_nodes ((i, target) # targets) (pair # pairs) =
     bindS (the_node target) (\<lambda>v.
     bindS (replace_node i (replacement v (snd pair))) (\<lambda>new.
     bindS (replace_nodes targets pairs) (\<lambda>news. retS (new # news))))"
| "replace_nodes _ _ = retS []"

text \<open>Tasks of a thread pool: all of them run, then the first exception is raised.\<close>

fun run_all :: "'a list \<Rightarrow> ('a \<Rightarrow> (pipeline, unit) proc) \<Rightarrow> (pipeline, unit) proc" where
  "run_all [] f = retS ()"
| "run_all (x # xs) f =
     (\<lambda>p. case f x p of
        (Inr _, p') \<Rightarrow> run_all xs f p'
      | (Inl err, p') \<Rightarrow> (Inl err, snd (run_all xs f p')))"

fun stores_loop :: "env \<Rightarrow> nat \<Rightarrow> nat list \<Rightarrow> bool list \<Rightarrow> (pipeline, unit) proc" where
  "stores_loop e 0 rs ready = (if list_all (\<lambda>b. b) ready then retS () else raiseS Timeout)"
| "stores_loop e (Suc fuel) rs ready =
     (if list_all (\<lambda>b. b) ready then retS ()
      else bindS (poll_nodes e rs ready) (\<lambda>ready'. stores_loop e fuel rs ready'))"

definition bring_up_nodes ::
  "env \<Rightarrow> nat \<Rightarrow> int option list \<Rightarrow> string option \<Rightarrow> int option \<Rightarrow> int \<Rightarrow> nat list \<Rightarrow>
     (pipeline, string \<times> int option) proc" where
  "bring_up_nodes e fuel store_ports old_host old_port new_ray_port news =
     thenS (start_ray_cluster e new_ray_port)
    (thenS (forS news (set_tp_size e fuel))
    (if news = [] then raiseS ValueError
     else bindS config_strategy (\<lambda>(cfg, ps).
     thenS (run_all (zip news store_ports) (\<lambda>(new, port).
         start_tensor_store port cfg (int (length ps)) new))
    (thenS generate_node_rank_mapping
    (bindS (start_new_api cfg old_host old_port new_ray_port) (\<lambda>(new_first, new_host, new_port).
     thenS (stores_loop e fuel news (replicate (length news) False))
    (thenS (pollS fuel (check_api_server_status e new_first))
       (retS (new_host, new_port)))))))))"

definition switch_nodes :: "env \<Rightarrow> nat \<Rightarrow> (string \<times> string) list \<Rightarrow> (pipeline, unit) proc" where
  "switch_nodes e fuel switch_pairs =
     bindS (getS (\<lambda>p. map (\<lambda>i. (i, vnodes p ! i)) (List.map_filter (\<lambda>(oip, nip). find_node p oip) switch_pairs)))
       (\<lambda>targets.
     if length targets \<noteq> length switch_pairs then raiseS ValueError
     else bindS (getS (\<lambda>p. (vnodes p ! 0, get_alternate_ray_port p, api_server_host p, pl_api_server_port p)))
       (\<lambda>(old_first, new_ray_port, old_host, old_port).
     bindS (getS (\<lambda>p. map (\<lambda>(i, t). tensor_store_port (objs p ! t)) targets)) (\<lambda>store_ports.
     bindS (replace_nodes targets switch_pairs) (\<lambda>news.
     bindS (bring_up_nodes e fuel store_ports old_host old_port new_ray_port news) (\<lambda>(new_host, new_port).
     thenS (switch_over e old_first old_port new_host new_port)
      (forS (map snd targets) (\<lambda>t. thenS (stop_tensor_store e t) (assert_tensor_store_stopped e t))))))))"

section \<open>Lemmas: GPU allocation\<close>

lemma mark_gpus:
  "foldE (mark_gpu ip) used rs =
     (if distinct rs \<and> (\<forall>r \<in> set rs. (ip, r) \<notin> set used) then Inr (rev (map (Pair ip) rs) @ used)
      else Inl ValueError)"
proof (induction rs arbitrary: used)
  case (Cons r rs)
  show ?case
  proof (cases "(ip, r) \<in> set used")
    case False
    then show ?thesis using Cons.IH [of "(ip, r) # used"] by (auto simp: mark_gpu_def)
  qed (simp add: mark_gpu_def)
qed simp

definition gpus_of :: "vnode \<Rightarrow> (string \<times> int) set" where
  "gpus_of v = Pair (node_ip v) ` set (gpu_range v)"

lemma validate_gpus:
  "(\<exists>u. foldE (\<lambda>used v. foldE (mark_gpu (node_ip v)) used (gpu_range v)) used vs = Inr u) \<longleftrightarrow>
     (\<forall>v \<in> set vs. gpus_of v \<inter> set used = {}) \<and>
     (\<forall>i j. i < j \<and> j < length vs \<longrightarrow> gpus_of (vs ! i) \<inter> gpus_of (vs ! j) = {})"
proof (induction vs arbitrary: used)
  case (Cons v vs)
  have d: "distinct (gpu_range v)" by (simp add: gpu_range_def)
  have split: "(\<forall>i j. i < j \<and> j < length (v # vs) \<longrightarrow> gpus_of ((v # vs) ! i) \<inter> gpus_of ((v # vs) ! j) = {}) \<longleftrightarrow>
      (\<forall>u \<in> set vs. gpus_of v \<inter> gpus_of u = {}) \<and>
      (\<forall>i j. i < j \<and> j < length vs \<longrightarrow> gpus_of (vs ! i) \<inter> gpus_of (vs ! j) = {})" (is "?l \<longleftrightarrow> ?r")
  proof
    assume l: ?l
    have "gpus_of v \<inter> gpus_of u = {}" if u: "u \<in> set vs" for u
    proof -
      obtain j where "j < length vs" "vs ! j = u" using u by (auto simp: in_set_conv_nth)
      with l [rule_format, of 0 "Suc j"] show ?thesis by simp
    qed
    moreover have "gpus_of (vs ! i) \<inter> gpus_of (vs ! j) = {}" if "i < j \<and> j < length vs" for i j
      using l [rule_format, of "Suc i" "Suc j"] that by simp
    ultimately show ?r by blast
  next
    assume r: ?r
    show ?l
    proof (intro allI impI)
      fix i j
      assume ij: "i < j \<and> j < length (v # vs)"
      then obtain j' where j': "j = Suc j'" "j' < length vs" by (cases j) auto
      show "gpus_of ((v # vs) ! i) \<inter> gpus_of ((v # vs) ! j) = {}"
        using r ij j' by (cases i) auto
    qed
  qed
  show ?case
  proof (cases "gpus_of v \<inter> set used = {}")
    case True
    then have "foldE (mark_gpu (node_ip v)) used (gpu_range v) = Inr (rev (map (Pair (node_ip v)) (gpu_range v)) @ used)"
      using d by (auto simp: mark_gpus gpus_of_def)
    moreover have "set (rev (map (Pair (node_ip v)) (gpu_range v)) @ used) = gpus_of v \<union> set used"
      by (auto simp: gpus_of_def)
    ultimately show ?thesis
      using True Cons.IH [of "rev (map (Pair (node_ip v)) (gpu_range v)) @ used"]
      unfolding split by (simp add: Int_Un_distrib) blast
  next
    case False
    then show ?thesis by (auto simp: mark_gpus gpus_of_def)
  qed
qed simp

section \<open>Lemmas: rank mapping\<close>

definition rank_offset :: "vnode list \<Rightarrow> nat \<Rightarrow> int" where
  "rank_offset vs i = sum_list (map tp_size (take i vs))"

lemma rank_mapping_snoc:
  "foldl add_ranks ([], 0) vs = (m, c) \<Longrightarrow> c = sum_list (map tp_size vs)"
  by (induction vs arbitrary: m c rule: rev_induct) (auto simp: add_ranks_def Let_def split: prod.splits)

lemma dict_get_rank_mapping:
  "(\<exists>rs. dict_get (rank_mapping_of vs) ip = Some rs \<and> r \<in> set rs) \<longleftrightarrow>
     (\<exists>i < length vs. node_ip (vs ! i) = ip \<and> rank_offset vs i \<le> r \<and> r < rank_offset vs i + tp_size (vs ! i))"
proof (induction vs rule: rev_induct)
  case (snoc v vs)
  obtain m c where mc: "foldl add_ranks ([], 0) vs = (m, c)" by (cases "foldl add_ranks ([], 0) vs")
  have c: "c = rank_offset (vs @ [v]) (length vs)" using rank_mapping_snoc [OF mc] by (simp add: rank_offset_def)
  have m: "rank_mapping_of vs = m" by (simp add: rank_mapping_of_def mc)
  have new: "rank_mapping_of (vs @ [v]) = (case dict_get m (node_ip v) of
      None \<Rightarrow> dict_set (node_ip v) [c..c + tp_size v - 1] m
    | Some old \<Rightarrow> dict_set (node_ip v) (old @ [c..c + tp_size v - 1]) m)"
    by (simp add: rank_mapping_of_def mc add_ranks_def Let_def)
  have old: "(\<exists>i < length vs. node_ip ((vs @ [v]) ! i) = ip \<and> rank_offset (vs @ [v]) i \<le> r \<and>
      r < rank_offset (vs @ [v]) i + tp_size ((vs @ [v]) ! i)) \<longleftrightarrow> (\<exists>rs. dict_get m ip = Some rs \<and> r \<in> set rs)"
    using snoc.IH m by (auto simp: nth_append rank_offset_def)
  show ?case
    unfolding length_append_singleton less_Suc_eq ex_disj_distrib conj_disj_distribR old
    by (auto simp: new c dict_simps split: option.splits)
qed (simp add: rank_mapping_of_def)

lemma rank_mapping_mset:
  assumes "\<forall>v \<in> set vs. 0 \<le> tp_size v"
  shows "mset (concat (map snd (rank_mapping_of vs))) = mset [0..sum_list (map tp_size vs) - 1] \<and>
     dict_wf (rank_mapping_of vs)"
  using assms
proof (induction vs rule: rev_induct)
  case (snoc v vs)
  obtain m c where mc: "foldl add_ranks ([], 0) vs = (m, c)" by (cases "foldl add_ranks ([], 0) vs")
  have c: "c = sum_list (map tp_size vs)" using rank_mapping_snoc [OF mc] .
  have nn: "0 \<le> c" using snoc.prems unfolding c by (intro sum_list_nonneg) auto
  have m: "rank_mapping_of vs = m" by (simp add: rank_mapping_of_def mc)
  have ih: "mset (concat (map snd m)) = mset [0..c - 1]" "dict_wf m" using snoc m c by auto
  have ext: "mset (concat (map snd (dict_set k (the_default @ xs) d))) = mset (concat (map snd d)) + mset xs"
    if "(dict_get d k = None \<and> the_default = []) \<or> dict_get d k = Some the_default" for d :: "(string, int list) dict"
      and k the_default xs
    using that by (induction d) (auto split: if_splits)
  have new: "rank_mapping_of (vs @ [v]) = dict_set (node_ip v)
      ((case dict_get m (node_ip v) of None \<Rightarrow> [] | Some old \<Rightarrow> old) @ [c..c + tp_size v - 1]) m"
    by (simp add: rank_mapping_of_def mc add_ranks_def Let_def split: option.split)
  have "mset [0..c - 1] + mset [c..c + tp_size v - 1] = mset [0..c + tp_size v - 1]"
  proof (cases "tp_size v = 0")
    case False
    with nn snoc.prems upto_split1 [of 0 c "c + tp_size v - 1"] show ?thesis by (simp flip: mset_append)
  qed simp
  then show ?case
    unfolding new using ih ext [of m "node_ip v"] by (auto simp: c split: option.split)
qed (simp add: rank_mapping_of_def)

section \<open>Lemmas: creation\<close>

fun entry_count :: "mapping_entry \<Rightarrow> int" where
  "entry_count (Auto _ l) = l"
| "entry_count (Manual _ l _) = l"
| "entry_count (OtherLength _) = 0"

definition layer_range :: "vnode \<Rightarrow> int \<times> int" where
  "layer_range v = (layer_start_id v, layer_end_id v)"

lemma total_assigned_layers_sum: "total_assigned_layers ms = Inr n \<Longrightarrow> n = sum_list (map entry_count ms)"
proof -
  have aux: "foldE (\<lambda>acc m. bindE (entry_layers m) (\<lambda>l. Inr (acc + l))) a ms = Inr n \<Longrightarrow>
      n = a + sum_list (map entry_count ms)" for a
  proof (induction ms arbitrary: a)
    case (Cons m ms)
    then obtain l where "entry_layers m = Inr l" "n = a + l + sum_list (map entry_count ms)"
      by (auto simp: bindE_Inr_iff)
    then show ?case by (auto simp: entry_layers_def split: mapping_entry.splits)
  qed simp
  show "total_assigned_layers ms = Inr n \<Longrightarrow> ?thesis" using aux [of 0] by (simp add: total_assigned_layers_def)
qed

lemma create_vnodes_run:
  assumes "create_vnodes cfg L rank st lr ms p = (Inr (), p')"
  shows "\<exists>vs. p' = p\<lparr>objs := objs p @ vs, vnodes := vnodes p @ [length (objs p)..<length (objs p) + length vs]\<rparr> \<and>
     length vs = length ms \<and> map pipeline_rank vs = [rank..<rank + length ms] \<and>
     (\<forall>ps i. cfg_parallel_strategy cfg = Some ps \<and> i < length vs \<longrightarrow> rank + i < length ps \<and> tp_size (vs ! i) = ps ! (rank + i)) \<and>
     ((\<forall>m \<in> set ms. 0 \<le> entry_count m) \<longrightarrow> tiles (map layer_range vs) st (st + sum_list (map entry_count ms)))"
  using assms
proof (induction ms arbitrary: rank st lr p)
  case (Cons m ms)
  from Cons.prems obtain ip l s ps where m: "resolve_entry lr m = Inr (ip, l, s)"
    and ps: "cfg_parallel_strategy cfg = Some ps" "rank < length ps"
    and rest: "create_vnodes cfg L (Suc rank) (st + l) (dict_set ip (s + ps ! rank) lr) ms
        (p\<lparr>objs := objs p @ [VNode_init ip s (ps ! rank) rank st (st + l) L], vnodes := vnodes p @ [length (objs p)]\<rparr>) = (Inr (), p')"
    by (auto simp: bindS_Inr_iff thenS_Inr_iff append_node_def config_item_def bindE_Inr_iff nthE_Inr_iff
        split: option.splits)
  let ?v = "VNode_init ip s (ps ! rank) rank st (st + l) L"
  have l: "l = entry_count m" using m by (auto simp: resolve_entry_def split: mapping_entry.splits)
  let ?p = "p\<lparr>objs := objs p @ [?v], vnodes := vnodes p @ [length (objs p)]\<rparr>"
  from Cons.IH [OF rest] obtain vs where
    h: "p' = ?p\<lparr>objs := objs ?p @ vs, vnodes := vnodes ?p @ [length (objs ?p)..<length (objs ?p) + length vs]\<rparr>"
    and vs2: "length vs = length ms" "map pipeline_rank vs = [Suc rank..<Suc rank + length ms]"
    and tp: "\<forall>ps i. cfg_parallel_strategy cfg = Some ps \<and> i < length vs \<longrightarrow>
        Suc rank + i < length ps \<and> tp_size (vs ! i) = ps ! (Suc rank + i)"
    and tl: "(\<forall>m \<in> set ms. 0 \<le> entry_count m) \<longrightarrow> tiles (map layer_range vs) (st + l) (st + l + sum_list (map entry_count ms))"
    by blast
  have h': "p' = p\<lparr>objs := objs p @ ?v # vs, vnodes := vnodes p @ [length (objs p)] @
          [Suc (length (objs p))..<Suc (length (objs p)) + length vs]\<rparr>"
    unfolding h by simp
  have tp': "\<forall>i < length vs. Suc rank + i < length ps \<and> tp_size (vs ! i) = ps ! (Suc rank + i)"
    using tp ps(1) by blast
  have v: "layer_range ?v = (st, st + l)" "pipeline_rank ?v = rank"
    by (simp_all add: VNode_init_def layer_range_def)
  note vs = h' vs2 tp' tl
  have "[length (objs p)] @ [Suc (length (objs p))..<Suc (length (objs p)) + length vs] =
      [length (objs p)..<length (objs p) + length (?v # vs)]"
    by (simp add: upt_rec)
  moreover have "[rank..<rank + length (m # ms)] = rank # [Suc rank..<Suc rank + length ms]"
    by (simp add: upt_rec)
  moreover have "rank + i < length ps \<and> tp_size ((?v # vs) ! i) = ps ! (rank + i)" if "i < length (?v # vs)" for i
    using that vs(4) ps(2) by (cases i) (auto simp: VNode_init_def)
  ultimately show ?case
    using vs l ps(1) v by (intro exI [of _ "?v # vs"] conjI) (auto simp: add.assoc simp del: upt_Suc)
qed auto

text \<open>
  The layout of a pipeline: valid references, ranks in order, and layer ranges that tile the
  model's layers.
\<close>

definition layout_ok :: "pipeline \<Rightarrow> bool" where
  "layout_ok p \<longleftrightarrow> list_all (\<lambda>r. r < length (objs p)) (vnodes p) \<and>
     map pipeline_rank (nodes_of p) = [0..<length (vnodes p)] \<and>
     tiles (map layer_range (nodes_of p)) 0 (total_layers p)"

lemma build_pipeline_run:
  assumes "build_pipeline ms cfg thr p = (Inr (), p')" and "objs p = []" and "vnodes p = []"
    and "\<forall>m \<in> set ms. 0 \<le> entry_count m"
  shows "layout_ok p' \<and> (\<exists>u. validate_gpu_allocation (nodes_of p') = Inr u) \<and>
     length (vnodes p') = length ms \<and> ms \<noteq> [] \<and> cfg_total_num_layers cfg = Some (total_layers p') \<and>
     (\<exists>ps. cfg_parallel_strategy cfg = Some ps \<and> map tp_size (nodes_of p') = take (length ms) ps)"
proof -
  from assms(1) obtain name L where L: "cfg_total_num_layers cfg = Some L" "ms \<noteq> []"
      "total_assigned_layers ms = Inr L"
    and c': "create_vnodes cfg L 0 0 [] ms (p\<lparr>pl_config := Some cfg,
        mode := (case cfg_mode cfg of None \<Rightarrow> ''default'' | Some m \<Rightarrow> m), model_name := name, total_layers := L,
        ideal_throughput := thr, max_batch_size := cfg_max_batch_size cfg\<rparr>) = (Inr (), p')"
    and v: "\<exists>u. validate_gpu_allocation (nodes_of p') = Inr u"
    by (auto simp: build_pipeline_def thenS_Inr_iff bindS_Inr_iff assertE_Inr_iff config_item_def split: option.splits)
  define q where "q = p\<lparr>pl_config := Some cfg,
        mode := (case cfg_mode cfg of None \<Rightarrow> ''default'' | Some m \<Rightarrow> m), model_name := name, total_layers := L,
        ideal_throughput := thr, max_batch_size := cfg_max_batch_size cfg\<rparr>"
  have c: "create_vnodes cfg L 0 0 [] ms q = (Inr (), p')" using c' by (simp only: q_def)
  have q: "objs q = []" "vnodes q = []" "total_layers q = L" using assms(2,3) by (simp_all add: q_def)
  obtain vs where vs: "p' = q\<lparr>objs := vs, vnodes := [0..<length vs]\<rparr>" "length vs = length ms"
    "map pipeline_rank vs = [0..<length ms]"
    "\<forall>ps i. cfg_parallel_strategy cfg = Some ps \<and> i < length vs \<longrightarrow> i < length ps \<and> tp_size (vs ! i) = ps ! i"
    "tiles (map layer_range vs) 0 (sum_list (map entry_count ms))"
    using create_vnodes_run [OF c] q assms(4) by auto
  have n: "nodes_of p' = vs" using vs(1) by (simp add: map_nth)
  obtain ps where ps: "cfg_parallel_strategy cfg = Some ps"
    using c L(2) by (cases ms) (auto simp: bindS_Inr_iff config_item_def bindE_Inr_iff split: option.splits)
  have "map tp_size vs = take (length ms) ps"
    using vs(2,4) ps by (intro nth_equalityI) (auto simp: min_def not_le dest: spec [of _ "length ps"])
  with vs n v L total_assigned_layers_sum [OF L(3)] ps q show ?thesis
    by (simp add: layout_ok_def list_all_iff)
qed

section \<open>Lemmas: what the operations keep\<close>

lemma more_eqD:
  assumes "world.more p' = world.more (p :: pipeline)"
  shows "vnodes p' = vnodes p" "total_layers p' = total_layers p" "is_ready p' = is_ready p"
    "api_server_host p' = api_server_host p" "pl_api_server_port p' = pl_api_server_port p"
    "pl_config p' = pl_config p" "flying_requests p' = flying_requests p" "max_batch_size p' = max_batch_size p"
    "ray_port p' = ray_port p" "node_rank_mapping p' = node_rank_mapping p" "mode p' = mode p"
  using assms by (cases p; cases p'; simp)+

lemma nodes_of_ids:
  assumes "ids p' = ids p" and "vnodes p' = vnodes (p :: pipeline)" and "list_all (\<lambda>r. r < length (objs p)) (vnodes p)"
  shows "map node_id (nodes_of p') = map node_id (nodes_of p)"
proof -
  have "length (objs p') = length (objs p)" using assms(1) by (metis length_map)
  then have "node_id (objs p' ! r) = node_id (objs p ! r)" if "r \<in> set (vnodes p)" for r
    using that assms(1,3) by (metis list_all_iff nth_map)
  with assms(2) show ?thesis by simp
qed

lemma map_layer_ids:
  assumes "map node_id vs = map node_id vs'"
  shows "map layer_range vs = map layer_range vs'" "map pipeline_rank vs = map pipeline_rank vs'"
    "map node_ip vs = map node_ip vs'" "map tp_size vs = map tp_size vs'"
    "map start_local_rank vs = map start_local_rank vs'"
  using assms by (induction vs vs' rule: list_induct2'; auto simp: layer_range_def dest: node_id_eqD)+

lemma keeps_layout:
  assumes "\<And>xs m. keeps (frame xs m) op"
  shows "keeps layout_ok (op :: (pipeline, 'a) proc)"
proof (rule keepsI)
  fix p :: pipeline
  assume l: "layout_ok p"
  obtain r p' where op: "op p = (r, p')" by (cases "op p")
  note f = frameD [OF assms op]
  have "list_all (\<lambda>r. r < length (objs p)) (vnodes p)" using l by (simp add: layout_ok_def)
  then have m: "map node_id (nodes_of p') = map node_id (nodes_of p)"
    by (rule nodes_of_ids [OF f(1) more_eqD(1) [OF f(2)]])
  have "length (objs p') = length (objs p)" using f(1) by (metis length_map)
  then show "layout_ok (snd (op p))"
    using l unfolding layout_ok_def op snd_conv map_layer_ids(1,2) [OF m]
    by (simp only: more_eqD(1,2) [OF f(2)] simp_thms)
qed

lemma keeps_layout_update [keeps_intros]:
  assumes "\<And>v. layer_range (f v) = layer_range v" and "\<And>v. pipeline_rank (f v) = pipeline_rank v"
  shows "keeps layout_ok (update_node r f)"
proof (rule keepsI)
  fix p
  assume l: "layout_ok p"
  let ?p = "snd (update_node r f p)"
  have "layer_range (objs ?p ! k) = layer_range (objs p ! k) \<and> pipeline_rank (objs ?p ! k) = pipeline_rank (objs p ! k)"
    if "k < length (objs p)" for k
    using that assms by (cases "k = r") (simp_all add: update_node_def)
  with l show "layout_ok ?p"
    by (simp add: layout_ok_def update_node_def list_all_iff cong: map_cong)
qed

lemma operations_keep_layout [keeps_intros]:
  "keeps layout_ok (start_tensor_store port cfg pp r)"
  "keeps layout_ok (start_api_server port cfg nrm ra r)"
  "keeps layout_ok (check_tensor_store_status e r)"
  "keeps layout_ok (check_api_server_status e r)"
  "keeps layout_ok (stop_tensor_store e r)"
  "keeps layout_ok (assert_tensor_store_stopped e r)"
  "keeps layout_ok (stop_api_server e q r)"
  "keeps layout_ok (do_action a)"
  "keeps layout_ok (ask (g :: nat \<Rightarrow> 'a))"
  by (rule keeps_layout, rule keeps_intros)+

lemma keeps_layout_fields [keeps_intros]:
  "keeps layout_ok (modS (\<lambda>p. p\<lparr>is_ready := b\<rparr>))"
  "keeps layout_ok (modS (\<lambda>p. p\<lparr>ray_port := x, ray_head_ip := y\<rparr>))"
  "keeps layout_ok (modS (\<lambda>p. p\<lparr>api_server_host := h, pl_api_server_port := z, is_ready := b\<rparr>))"
  "keeps layout_ok generate_node_rank_mapping"
  "keeps layout_ok set_api_from_first"
  by (simp_all add: keeps_def layout_ok_def generate_node_rank_mapping_def set_api_from_first_def)

lemma keeps_starts_only_fields [keeps_intros]:
  "keeps (starts_only t) (modS (\<lambda>p. p\<lparr>ray_port := x, ray_head_ip := y\<rparr>))"
  "keeps (starts_only t) generate_node_rank_mapping"
  "keeps (starts_only t) set_api_from_first"
  by (simp_all add: keeps_def starts_only_def generate_node_rank_mapping_def set_api_from_first_def)

lemma keeps_join_nodes [keeps_intros]:
  "(\<And>ip. keeps P (do_action (RayJoin ip port))) \<Longrightarrow> (\<And>q. keeps P (ask q :: (_, int) proc)) \<Longrightarrow>
     keeps P (join_nodes e port ips)"
  by (induction ips) (auto intro!: keeps_intros)

lemma keeps_ray_loops [keeps_intros]:
  "(\<And>q. keeps P (ask q :: (_, ray_node list) proc)) \<Longrightarrow> keeps P (await_connected e ips n)"
  "(\<And>q. keeps P (ask q :: (_, ray_node list) proc)) \<Longrightarrow> keeps P (wait_gpu_count e n ip)"
  by (induction n) (auto intro!: keeps_intros split: option.split)

lemma keeps_start_ray_cluster [keeps_intros]:
  "keeps layout_ok (start_ray_cluster e port)" "keeps (starts_only t) (start_ray_cluster e port)"
  by (auto simp: start_ray_cluster_def Let_def intro!: keeps_intros)

lemma keeps_set_tp_size [keeps_intros]:
  "keeps layout_ok (set_tp_size e fuel r)" "keeps (starts_only t) (set_tp_size e fuel r)"
  by (auto simp: set_tp_size_def layer_range_def intro!: keeps_intros)

lemma keeps_poll_nodes [keeps_intros]:
  "(\<And>r. keeps P (check_tensor_store_status e r)) \<Longrightarrow> keeps P (poll_nodes e rs bs)"
  by (induction rs bs rule: list_induct2') (auto intro!: keeps_intros)

lemma keeps_waiting [keeps_intros]:
  "keeps layout_ok (services_loop e fuel rs bs api)"
  "keeps (starts_only t) (services_loop e fuel rs bs api)"
  "keeps layout_ok (stores_loop e fuel rs bs)"
  "keeps (starts_only t) (stores_loop e fuel rs bs)"
  by (induction fuel arbitrary: bs api) (auto intro!: keeps_intros)

lemma keeps_config_strategy [keeps_intros]: "keeps P config_strategy"
  by (auto simp: config_strategy_def intro!: keeps_intros split: option.split)

lemma keeps_run_all [keeps_intros]: "(\<And>x. x \<in> set xs \<Longrightarrow> keeps P (f x)) \<Longrightarrow> keeps P (run_all xs f)"
  by (induction xs) (auto simp: keeps_def split: prod.splits sum.splits, (metis snd_conv)+)

lemma keeps_switch_over [keeps_intros]: "keeps layout_ok (switch_over e r port host port')"
  by (auto simp: switch_over_def intro!: keeps_intros)

text \<open>The nodes of a pipeline and what they are assigned, which only a switch changes.\<close>

definition same_nodes :: "pipeline \<Rightarrow> pipeline \<Rightarrow> bool" where
  "same_nodes q p \<longleftrightarrow> vnodes p = vnodes q \<and> ids p = ids q \<and> total_layers p = total_layers q"

lemma keeps_same_nodes:
  assumes "\<And>xs m. keeps (frame xs m) op"
  shows "keeps (same_nodes q) (op :: (pipeline, 'a) proc)"
proof (rule keepsI)
  fix p :: pipeline
  assume l: "same_nodes q p"
  obtain r p' where op: "op p = (r, p')" by (cases "op p")
  note f = frameD [OF assms op]
  from l show "same_nodes q (snd (op p))"
    unfolding same_nodes_def op snd_conv by (simp only: f(1) more_eqD(1,2) [OF f(2)] simp_thms)
qed

lemma operations_same_nodes [keeps_intros]:
  "keeps (same_nodes q) (start_tensor_store port cfg pp r)"
  "keeps (same_nodes q) (start_api_server port cfg nrm ra r)"
  "keeps (same_nodes q) (check_tensor_store_status e r)"
  "keeps (same_nodes q) (check_api_server_status e r)"
  "keeps (same_nodes q) (do_action a)"
  "keeps (same_nodes q) (ask (g :: nat \<Rightarrow> 'a))"
  by (rule keeps_same_nodes, rule keeps_intros)+

lemma keeps_same_nodes_fields [keeps_intros]:
  "keeps (same_nodes q) (modS (\<lambda>p. p\<lparr>is_ready := b\<rparr>))"
  "keeps (same_nodes q) (modS (\<lambda>p. p\<lparr>ray_port := x, ray_head_ip := y\<rparr>))"
  "keeps (same_nodes q) generate_node_rank_mapping"
  "keeps (same_nodes q) set_api_from_first"
  by (simp_all add: keeps_def same_nodes_def generate_node_rank_mapping_def set_api_from_first_def)

lemma keeps_same_nodes_ray [keeps_intros]:
  "keeps (same_nodes q) (start_ray_cluster e port)"
  by (auto simp: start_ray_cluster_def Let_def intro!: keeps_intros)

lemma keeps_same_nodes_waiting [keeps_intros]:
  "keeps (same_nodes q) (services_loop e fuel rs bs api)"
  by (induction fuel arbitrary: bs api) (auto intro!: keeps_intros)

lemma same_nodes_nodes_of:
  assumes "same_nodes q p" and "list_all (\<lambda>r. r < length (objs q)) (vnodes q)"
  shows "map node_id (nodes_of p) = map node_id (nodes_of q)"
  using assms by (intro nodes_of_ids) (simp_all add: same_nodes_def)

lemma same_nodes_layout: "same_nodes q p \<Longrightarrow> layout_ok q \<Longrightarrow> layout_ok p"
proof -
  assume s: "same_nodes q p" and l: "layout_ok q"
  then have m: "map node_id (nodes_of p) = map node_id (nodes_of q)"
    by (intro same_nodes_nodes_of) (simp_all add: layout_ok_def)
  have "length (objs p) = length (objs q)" using s unfolding same_nodes_def by (metis length_map)
  then show "layout_ok p"
    using l s unfolding layout_ok_def same_nodes_def map_layer_ids(1,2) [OF m] by simp
qed

lemma gpu_range_cong: "node_id v = node_id v' \<Longrightarrow> gpu_range v = gpu_range v' \<and> node_ip v = node_ip v'"
  using node_id_eqD [of v v'] by (simp add: gpu_range_def)

lemma validate_cong:
  assumes "map node_id vs = map node_id vs'"
  shows "validate_gpu_allocation vs = validate_gpu_allocation vs'"
proof -
  have "foldE (\<lambda>u v. foldE (mark_gpu (node_ip v)) u (gpu_range v)) u vs =
      foldE (\<lambda>u v. foldE (mark_gpu (node_ip v)) u (gpu_range v)) u vs'" for u
    using assms by (induction vs vs' arbitrary: u rule: list_induct2') (auto simp: bindE_def dest!: gpu_range_cong split: sum.split)
  then show ?thesis by (simp add: validate_gpu_allocation_def)
qed

lemma add_ranks_cong: "node_id v = node_id v' \<Longrightarrow> add_ranks st v = add_ranks st v'"
  using node_id_eqD [of v v'] by (simp add: add_ranks_def Let_def cong: option.case_cong split: prod.split)

lemma rank_mapping_cong:
  assumes "map node_id vs = map node_id vs'"
  shows "rank_mapping_of vs = rank_mapping_of vs'"
proof -
  have "foldl add_ranks st vs = foldl add_ranks st vs'" for st
    using assms
  proof (induction vs vs' arbitrary: st rule: list_induct2')
    case (4 x xs y ys)
    then show ?case using add_ranks_cong [of x y st] by simp
  qed simp_all
  then show ?thesis by (simp add: rank_mapping_of_def)
qed

text \<open>A successful run of a method that keeps \<open>P\<close>.\<close>

lemma keeps_after: "P (snd (m s)) \<Longrightarrow> (\<And>x. keeps P (f x)) \<Longrightarrow> P (snd (bindS m f s))"
  by (auto simp: bindS_def keeps_def split: prod.splits sum.splits)

lemma bindS_getS [simp]: "bindS (getS g) f s = f (g s) s"
  by (simp add: bindS_def getS_def)

lemma keeps_run: "m s = (Inr x, s') \<Longrightarrow> keeps P m \<Longrightarrow> P s \<Longrightarrow> P s'"
  by (rule keepsD)

lemma launch_pipeline_run:
  assumes "launch_pipeline e fuel cfg q = (Inr (), p)"
  shows "same_nodes q p" and "is_ready p" and "api_server_host p = Some (node_ip (node_of p 0))"
    and "pl_api_server_port p = api_server_port (node_of p 0)"
proof -
  have "keeps (same_nodes q) (launch_pipeline e fuel cfg)"
    by (auto simp: launch_pipeline_def wait_for_services_def intro!: keeps_intros)
  from keeps_run [OF assms this] show "same_nodes q p" by (simp add: same_nodes_def)
  from assms show "is_ready p" "api_server_host p = Some (node_ip (node_of p 0))"
    "pl_api_server_port p = api_server_port (node_of p 0)"
    by (auto simp: launch_pipeline_def thenS_Inr_iff bindS_Inr_iff set_api_from_first_def)
qed

section \<open>Lemmas: replacing nodes\<close>

lemma find_nodeD: "find_node p ip = Some i \<Longrightarrow> i < length (vnodes p) \<and> node_ip (node_of p i) = ip"
  by (auto simp: find_node_def find_Some_iff)

lemma keeps_bring_up [keeps_intros]:
  "keeps layout_ok (bring_up_node e fuel sp oh op rp new)"
  "keeps (starts_only t) (bring_up_node e fuel sp oh op rp new)"
  "keeps layout_ok (bring_up_nodes e fuel sps oh op rp news)"
  "keeps (starts_only t) (bring_up_nodes e fuel sps oh op rp news)"
  by (auto simp: bring_up_node_def bring_up_nodes_def start_new_api_def intro!: keeps_intros)

lemma nodes_of_replace:
  assumes "list_all (\<lambda>r. r < length (objs p)) (vnodes p)"
  shows "nodes_of (p\<lparr>objs := objs p @ [v], vnodes := (vnodes p)[i := length (objs p)]\<rparr>) = (nodes_of p)[i := v]"
proof -
  have "map (\<lambda>r. (objs p @ [v]) ! r) (vnodes p) = nodes_of p"
    using assms by (auto simp: list_all_iff nth_append)
  then show ?thesis by (simp add: map_update cong: map_cong)
qed

lemma layout_replace:
  assumes "layout_ok p" and "i < length (vnodes p)"
    and "layer_range v = layer_range (node_of p i)" and "pipeline_rank v = pipeline_rank (node_of p i)"
  shows "layout_ok (p\<lparr>objs := objs p @ [v], vnodes := (vnodes p)[i := length (objs p)]\<rparr>)" (is "layout_ok ?p")
proof -
  have r: "list_all (\<lambda>r. r < length (objs p)) (vnodes p)" using assms(1) by (simp add: layout_ok_def)
  note n = nodes_of_replace [OF r, where v = v and i = i]
  have "map f (nodes_of ?p) = map f (nodes_of p)" if "f v = f (node_of p i)" for f :: "vnode \<Rightarrow> 'a"
    unfolding n map_update using that assms(2) by (intro nth_equalityI) (auto simp: nth_list_update)
  then have "map layer_range (nodes_of ?p) = map layer_range (nodes_of p)"
    "map pipeline_rank (nodes_of ?p) = map pipeline_rank (nodes_of p)"
    using assms(3,4) by blast+
  moreover have "list_all (\<lambda>r. r < length (objs ?p)) (vnodes ?p)"
    using r by (auto simp: list_all_iff dest!: set_update_subset_insert [THEN subsetD])
  ultimately show ?thesis
    using assms(1) unfolding layout_ok_def by simp
qed

lemma replacement_same: "layer_range (replacement v ip) = layer_range v" "pipeline_rank (replacement v ip) = pipeline_rank v"
  by (simp_all add: replacement_def VNode_init_def layer_range_def)

lemma replace_node_run:
  "replace_node i v p = (Inr (length (objs p)),
     p\<lparr>objs := objs p @ [v], vnodes := (vnodes p)[i := length (objs p)]\<rparr>)"
  by (simp add: replace_node_def bindS_def thenS_def)

text \<open>The targets of a switch: an index, and the object there when the switch started.\<close>

definition target_ok :: "pipeline \<Rightarrow> nat \<times> nat \<Rightarrow> bool" where
  "target_ok p it \<longleftrightarrow> fst it < length (vnodes p) \<and> snd it < length (objs p) \<and>
     layer_range (objs p ! snd it) = layer_range (node_of p (fst it)) \<and>
     pipeline_rank (objs p ! snd it) = pipeline_rank (node_of p (fst it))"

lemma layout_replace_nodes:
  "layout_ok p \<Longrightarrow> list_all (target_ok p) targets \<Longrightarrow> layout_ok (snd (replace_nodes targets pairs p))"
proof (induction targets pairs arbitrary: p rule: replace_nodes.induct)
  case (1 i target targets pair pairs)
  let ?v = "replacement (objs p ! target) (snd pair)"
  let ?p = "p\<lparr>objs := objs p @ [?v], vnodes := (vnodes p)[i := length (objs p)]\<rparr>"
  have t: "target_ok p (i, target)" and ts: "list_all (target_ok p) targets" using "1.prems"(2) by simp_all
  have l: "layout_ok ?p"
    using layout_replace [OF "1.prems"(1), of i ?v] t by (simp add: target_ok_def replacement_same)
  have r: "list_all (\<lambda>r. r < length (objs p)) (vnodes p)" using "1.prems"(1) by (simp add: layout_ok_def)
  have "target_ok ?p it" if "target_ok p it" for it
    using that t r by (cases "fst it = i") (auto simp: target_ok_def nth_append replacement_same list_all_iff)
  then have "list_all (target_ok ?p) targets" using ts by (auto simp: list_all_iff)
  from "1.IH" [OF l this] show ?case
    by (auto simp: bindS_def the_node_def replace_node_run split: prod.splits sum.splits)
qed simp_all

text \<open>The object behind a reference: its rank, address and API port.\<close>

definition ref_is :: "nat \<Rightarrow> nat \<Rightarrow> string \<Rightarrow> pipeline \<Rightarrow> bool" where
  "ref_is r k ip p \<longleftrightarrow> r < length (objs p) \<and> pipeline_rank (objs p ! r) = k \<and> node_ip (objs p ! r) = ip"

lemma keeps_ref_is:
  assumes "\<And>xs m. keeps (frame xs m) op"
  shows "keeps (ref_is r k ip) (op :: (pipeline, 'a) proc)"
proof (rule keepsI)
  fix p :: pipeline
  assume l: "ref_is r k ip p"
  obtain x p' where op: "op p = (x, p')" by (cases "op p")
  have "length (objs p') = length (objs p)" using frameD(1) [OF assms op] by (metis length_map)
  moreover have "node_id (objs p' ! r) = node_id (objs p ! r)"
    using frameD(1) [OF assms op] l by (metis calculation nth_map ref_is_def)
  ultimately show "ref_is r k ip (snd (op p))"
    using l node_id_eqD [of "objs p' ! r" "objs p ! r"] by (simp add: ref_is_def op)
qed

lemma keeps_ref_is_update [keeps_intros]:
  assumes "\<And>v. pipeline_rank (f v) = pipeline_rank v" and "\<And>v. node_ip (f v) = node_ip v"
  shows "keeps (ref_is r k ip) (update_node r' f)"
  using assms by (cases "r = r'") (auto simp: keeps_def ref_is_def update_node_def)

lemma operations_ref_is [keeps_intros]:
  "keeps (ref_is r k ip) (start_tensor_store port cfg pp i)"
  "keeps (ref_is r k ip) (start_api_server port cfg nrm ra i)"
  "keeps (ref_is r k ip) (check_tensor_store_status e i)"
  "keeps (ref_is r k ip) (check_api_server_status e i)"
  "keeps (ref_is r k ip) (do_action a)"
  "keeps (ref_is r k ip) (ask (g :: nat \<Rightarrow> 'a))"
  by (rule keeps_ref_is, rule keeps_intros)+

lemma keeps_ref_is_pipeline [keeps_intros]:
  "keeps (ref_is r k ip) (modS (\<lambda>p. p\<lparr>ray_port := x, ray_head_ip := y\<rparr>))"
  "keeps (ref_is r k ip) generate_node_rank_mapping"
  "keeps (ref_is r k ip) (start_ray_cluster e port)"
  "keeps (ref_is r k ip) (set_tp_size e fuel i)"
  by (auto simp: start_ray_cluster_def set_tp_size_def generate_node_rank_mapping_def Let_def intro!: keeps_intros)
    (simp_all add: ref_is_def)

lemma keeps_ref_is_stores [keeps_intros]: "keeps (ref_is r k ip) (stores_loop e fuel rs bs)"
  by (induction fuel arbitrary: bs) (auto intro!: keeps_intros)

lemma keeps_ref_is_bring_up [keeps_intros]:
  "keeps (ref_is r k ip) (bring_up_node e fuel sp oh op rp new)"
  "keeps (ref_is r k ip) (bring_up_nodes e fuel sps oh op rp news)"
  by (auto simp: bring_up_node_def bring_up_nodes_def start_new_api_def intro!: keeps_intros)

lemma pollS_True:
  assumes "pollS fuel c s = (Inr (), s')" and "keeps P c" and "P s"
  shows "\<exists>s0. P s0 \<and> c s0 = (Inr True, s')"
  using assms(1,3)
proof (induction fuel arbitrary: s)
  case (Suc fuel)
  then obtain b t where t: "c s = (Inr b, t)" "(if b then retS () else pollS fuel c) t = (Inr (), s')"
    by (auto simp: bindS_Inr_iff)
  have "P t" using keeps_run [OF t(1) assms(2) Suc.prems(2)] .
  with t Suc show ?case by (cases b) auto
qed simp

definition api_at :: "nat \<Rightarrow> string \<Rightarrow> int option \<Rightarrow> pipeline \<Rightarrow> bool" where
  "api_at r h q p \<longleftrightarrow> ref_is r 0 h p \<and> api_server_port (objs p ! r) = q"

lemma keeps_api_at_check: "keeps (api_at r h q) (check_api_server_status e r)"
proof (rule keepsI)
  fix p
  assume "api_at r h q p"
  then show "api_at r h q (snd (check_api_server_status e r p))"
    by (auto simp: api_at_def ref_is_def check_api_server_status_def bindS_def thenS_def the_node_def ask_def
        do_action_def update_node_def Let_def)
qed

text \<open>
  Polling the API server stops nothing, and when it ends the last action is a health check that
  the server at its address answered with 200.
\<close>

lemma poll_api_ready:
  assumes "pollS fuel (check_api_server_status e r) p = (Inr (), p')" and "api_at r h q p"
  shows "\<exists>t pt as. q = Some pt \<and> api_health e t h pt = Some 200 \<and>
     trace p' = trace p @ as @ [HealthCheck h (Some pt) (Some 200)] \<and> list_all (\<lambda>a. \<not> is_stop a) as"
proof -
  let ?P = "\<lambda>s. api_at r h q s \<and> starts_only (trace p) s"
  have "keeps ?P (check_api_server_status e r)"
    using keeps_api_at_check operations_start_only(4) [of "trace p" e r] by (auto simp: keeps_def)
  with assms(2) obtain s0 where s0: "api_at r h q s0" "starts_only (trace p) s0" "check_api_server_status e r s0 = (Inr True, p')"
    using pollS_True [OF assms(1), of ?P] starts_only_refl by blast
  then have "(case q of None \<Rightarrow> None | Some pt \<Rightarrow> api_health e (now s0) h pt) = Some 200 \<and>
      trace p' = trace s0 @ [HealthCheck h q (Some 200)]"
    by (auto simp: api_at_def ref_is_def check_api_server_status_def bindS_def thenS_def the_node_def ask_def
        do_action_def update_node_def Let_def)
  then show ?thesis using s0(2) by (auto simp: starts_only_def split: option.splits)
qed

lemma start_new_api_run:
  assumes "start_new_api cfg oh op rp p = (Inr (r, h, q), p')" and "layout_ok p" and "vnodes p \<noteq> []"
  shows "r = vnodes p ! 0" and "h = node_ip (node_of p 0)" and "new_api_port oh h op = Inr q"
    and "api_at r h q p'" and "\<exists>a. ap_port a = q \<and> trace p' = trace p @ [StartApiServer h a]"
proof -
  have v0: "vnodes p ! 0 < length (objs p)" "pipeline_rank (node_of p 0) = 0"
  proof -
    show "vnodes p ! 0 < length (objs p)" using assms(2,3) by (cases "vnodes p") (auto simp: layout_ok_def)
    have "map pipeline_rank (nodes_of p) ! 0 = [0..<length (vnodes p)] ! 0"
      using assms(2) by (simp only: layout_ok_def)
    then show "pipeline_rank (node_of p 0) = 0" using assms(3) by (simp add: nth_append)
  qed
  show r: "r = vnodes p ! 0" "h = node_ip (node_of p 0)" "new_api_port oh h op = Inr q"
    using assms(1) by (auto simp: start_new_api_def bindS_Inr_iff thenS_Inr_iff)
  from assms(1) r obtain nrm ra where run: "start_api_server q cfg nrm ra r p = (Inr (), p')"
    by (auto simp: start_new_api_def bindS_Inr_iff thenS_Inr_iff)
  with v0 r show "api_at r h q p'" "\<exists>a. ap_port a = q \<and> trace p' = trace p @ [StartApiServer h a]"
    by (auto simp: start_api_server_def bindS_Inr_iff thenS_Inr_iff the_node_def update_node_def do_action_def
        api_at_def ref_is_def conj_disj_distribL ex_disj_distrib)
qed

definition has_nodes :: "pipeline \<Rightarrow> bool" where
  "has_nodes p \<longleftrightarrow> vnodes p \<noteq> []"

lemma keeps_has_nodes:
  assumes "\<And>xs m. keeps (frame xs m) op"
  shows "keeps has_nodes (op :: (pipeline, 'a) proc)"
proof (rule keepsI)
  fix p :: pipeline
  assume l: "has_nodes p"
  obtain r p' where op: "op p = (r, p')" by (cases "op p")
  from l more_eqD(1) [OF frameD(2) [OF assms op]] show "has_nodes (snd (op p))" by (simp add: has_nodes_def op)
qed

lemma operations_has_nodes [keeps_intros]:
  "keeps has_nodes (start_tensor_store port cfg pp i)"
  "keeps has_nodes (check_tensor_store_status e i)"
  "keeps has_nodes (do_action a)"
  "keeps has_nodes (ask (g :: nat \<Rightarrow> 'a))"
  by (rule keeps_has_nodes, rule keeps_intros)+

lemma keeps_has_nodes_pipeline [keeps_intros]:
  "keeps has_nodes (modS (\<lambda>p. p\<lparr>ray_port := x, ray_head_ip := y\<rparr>))"
  "keeps has_nodes (update_node i f)"
  "keeps has_nodes generate_node_rank_mapping"
  "keeps has_nodes (start_ray_cluster e port)"
  "keeps has_nodes (set_tp_size e fuel i)"
  by (auto simp: start_ray_cluster_def set_tp_size_def generate_node_rank_mapping_def Let_def update_node_def
      intro!: keeps_intros) (simp_all add: has_nodes_def)

lemma new_api_ready:
  assumes "start_new_api cfg oh op rp p = (Inr (r, h, q), p1)" and "layout_ok p" and "has_nodes p"
    and "pollS fuel (check_api_server_status e r) p2 = (Inr (), p3)"
    and "wait p1 = (Inr (), p2)" and "keeps (same_nodes p1) wait" and "keeps (starts_only (trace p1)) wait"
    and "keeps (api_at r h q) wait"
  shows "h = node_ip (node_of p3 0) \<and> new_api_port oh h op = Inr q \<and>
     (\<exists>t pt a as. q = Some pt \<and> api_health e t h pt = Some 200 \<and> ap_port a = Some pt \<and>
        trace p3 = trace p @ [StartApiServer h a] @ as @ [HealthCheck h (Some pt) (Some 200)] \<and> list_all (\<lambda>a. \<not> is_stop a) as)"
proof -
  have ne: "vnodes p \<noteq> []" using assms(3) by (simp add: has_nodes_def)
  note s = start_new_api_run [OF assms(1,2) ne]
  have k: "keeps (same_nodes p) (start_new_api cfg oh op rp)"
    by (auto simp: start_new_api_def intro!: keeps_intros)
  have "same_nodes p p1" using keeps_run [OF assms(1) k] by (simp add: same_nodes_def)
  moreover have "same_nodes p1 p2" using keeps_run [OF assms(5,6)] by (simp add: same_nodes_def)
  moreover have "same_nodes p2 p3"
    using keeps_run [OF assms(4) keeps_pollS [OF operations_same_nodes(4)]] by (simp add: same_nodes_def)
  ultimately have sn: "same_nodes p p3" by (simp add: same_nodes_def)
  have v: "list_all (\<lambda>r. r < length (objs p)) (vnodes p)" using assms(2) by (simp add: layout_ok_def)
  have "map node_ip (nodes_of p3) ! 0 = map node_ip (nodes_of p) ! 0"
    by (simp only: map_layer_ids(3) [OF same_nodes_nodes_of [OF sn v]])
  moreover have "vnodes p3 = vnodes p" using sn by (simp add: same_nodes_def)
  ultimately have "h = node_ip (node_of p3 0)" using ne s(2) by simp
  moreover obtain t pt as where "q = Some pt" "api_health e t h pt = Some 200" "list_all (\<lambda>a. \<not> is_stop a) as"
      "trace p3 = trace p2 @ as @ [HealthCheck h (Some pt) (Some 200)]"
    using poll_api_ready [OF assms(4) keeps_run [OF assms(5,8) s(4)]] by blast
  moreover obtain bs where "trace p2 = trace p1 @ bs" "list_all (\<lambda>a. \<not> is_stop a) bs"
    using keeps_run [OF assms(5,7) starts_only_refl] by (auto simp: starts_only_def)
  moreover obtain a where "ap_port a = q" "trace p1 = trace p @ [StartApiServer h a]" using s(5) by blast
  ultimately show ?thesis
    using s(3) by (intro conjI exI [of _ t] exI [of _ pt] exI [of _ a] exI [of _ "bs @ as"]) auto
qed

lemma bring_up_node_run:
  assumes "bring_up_node e fuel sp oh op rp new p = (Inr (h, q), p')" and "layout_ok p" and "has_nodes p"
  shows "h = node_ip (node_of p' 0) \<and> new_api_port oh h op = Inr q \<and>
     (\<exists>t pt a pre1 pre2. q = Some pt \<and> api_health e t h pt = Some 200 \<and> ap_port a = Some pt \<and>
        trace p' = trace p @ pre1 @ [StartApiServer h a] @ pre2 @ [HealthCheck h (Some pt) (Some 200)] \<and>
        list_all (\<lambda>a. \<not> is_stop a) (pre1 @ pre2))"
proof -
  let ?pre = "\<lambda>cfg (ps :: int list). thenS (start_tensor_store sp cfg (int (length ps)) new)
     (thenS (pollS fuel (check_tensor_store_status e new)) generate_node_rank_mapping)"
  from assms(1) obtain p1 p2 cfg ps p3 p4 r where a: "start_ray_cluster e rp p = (Inr (), p1)"
    and b: "set_tp_size e fuel new p1 = (Inr (), p2)"
    and c: "?pre cfg ps p2 = (Inr (), p3)" and d: "start_new_api cfg oh op rp p3 = (Inr (r, h, q), p4)"
    and f: "pollS fuel (check_api_server_status e r) p4 = (Inr (), p')"
    unfolding bring_up_node_def config_strategy_def
    by (auto simp: thenS_Inr_iff bindS_Inr_iff split: option.splits) blast
  have k: "keeps layout_ok (?pre cfg ps)" "keeps has_nodes (?pre cfg ps)" "keeps (starts_only (trace p)) (?pre cfg ps)"
    by (auto intro!: keeps_intros)
  have "layout_ok p3"
    using keeps_run [OF c k(1) keeps_run [OF b keeps_set_tp_size(1) keeps_run [OF a keeps_start_ray_cluster(1) assms(2)]]] .
  moreover have "has_nodes p3"
    using keeps_run [OF c k(2) keeps_run [OF b keeps_has_nodes_pipeline(5) keeps_run [OF a keeps_has_nodes_pipeline(4) assms(3)]]] .
  ultimately have n: "h = node_ip (node_of p' 0) \<and> new_api_port oh h op = Inr q \<and>
     (\<exists>t pt a as. q = Some pt \<and> api_health e t h pt = Some 200 \<and> ap_port a = Some pt \<and>
        trace p' = trace p3 @ [StartApiServer h a] @ as @ [HealthCheck h (Some pt) (Some 200)] \<and> list_all (\<lambda>a. \<not> is_stop a) as)"
    by (rule new_api_ready [OF d _ _ f, of "retS ()"]) (simp_all add: keeps_basic)
  have "starts_only (trace p) p3"
    using keeps_run [OF c k(3) keeps_run [OF b keeps_set_tp_size(2) keeps_run [OF a keeps_start_ray_cluster(2) starts_only_refl]]] .
  then obtain pre1 where "trace p3 = trace p @ pre1" "list_all (\<lambda>a. \<not> is_stop a) pre1" by (auto simp: starts_only_def)
  with n obtain t pt a as where "q = Some pt" "api_health e t h pt = Some 200" "ap_port a = Some pt"
      "trace p' = trace p @ pre1 @ [StartApiServer h a] @ as @ [HealthCheck h (Some pt) (Some 200)]"
      "list_all (\<lambda>a. \<not> is_stop a) (pre1 @ as)" by auto
  with n show ?thesis by blast
qed

section \<open>Lemmas: the wait for the services ends\<close>

text \<open>What a status check reads of the nodes, and that it leaves it alone.\<close>

definition store_view :: "vnode \<Rightarrow> string \<times> int \<times> int \<times> nat \<times> int option \<times> int option" where
  "store_view v = (node_ip v, tp_size v, start_local_rank v, pipeline_rank v, tensor_store_port v, api_server_port v)"

definition service_view :: "pipeline \<Rightarrow> nat list \<times> (string \<times> int \<times> int \<times> nat \<times> int option \<times> int option) list" where
  "service_view p = (vnodes p, map store_view (objs p))"

text \<open>
  The ports on which the tensor stores of a node listen: the base port plus the number of the GPU on
  its machine (\<open>start_tensor_store_trace\<close>, \<open>store_options_port\<close>). A port of a machine is served when
  a tensor store of some node of the pipeline listens on it.
\<close>

definition listens :: "vnode \<Rightarrow> int \<Rightarrow> bool" where
  "listens v q \<longleftrightarrow> (\<exists>b i. tensor_store_port v = Some b \<and> i < nat (tp_size v) \<and> q = b + start_local_rank v + int i)"

definition served :: "pipeline \<Rightarrow> string \<Rightarrow> int \<Rightarrow> bool" where
  "served p ip q \<longleftrightarrow> (\<exists>r \<in> set (vnodes p). node_ip (objs p ! r) = ip \<and> listens (objs p ! r) q)"

text \<open>
  The servers of a pipeline come up: ports that no tensor store of the pipeline serves never answer
  that they are ready, from time \<open>T\<close> on all served ports do, and the API server is healthy.
\<close>

definition services_up :: "env \<Rightarrow> nat \<Rightarrow> pipeline \<Rightarrow> bool" where
  "services_up e T p \<longleftrightarrow>
     (\<forall>t ip q. ts_reply e t ip q (request_value STATUS_CHECK) = Some (response_value READY) \<longrightarrow> served p ip q) \<and>
     (\<forall>t ip q. T \<le> t \<and> served p ip q \<longrightarrow> ts_reply e t ip q (request_value STATUS_CHECK) = Some (response_value READY)) \<and>
     (\<forall>t q. T \<le> t \<and> api_server_port (node_of p 0) = Some q \<longrightarrow> api_health e t (node_ip (node_of p 0)) q = Some 200)"

text \<open>The ports that the check of a node asks, base port plus number within the node, are served.\<close>

definition polls_served :: "pipeline \<Rightarrow> nat \<Rightarrow> bool" where
  "polls_served p r \<longleftrightarrow> (\<forall>b i. tensor_store_port (objs p ! r) = Some b \<and> i < nat (tp_size (objs p ! r)) \<longrightarrow>
     served p (node_ip (objs p ! r)) (b + int i))"

text \<open>The nodes exist and have their ports.\<close>

definition pollable :: "pipeline \<Rightarrow> bool" where
  "pollable p \<longleftrightarrow> vnodes p \<noteq> [] \<and> api_server_port (node_of p 0) \<noteq> None \<and>
     (\<forall>r \<in> set (vnodes p). r < length (objs p) \<and> tensor_store_port (objs p ! r) \<noteq> None)"

lemma store_view_eqD:
  assumes "store_view v = store_view v'"
  shows "node_ip v = node_ip v'" "tp_size v = tp_size v'" "tensor_store_port v = tensor_store_port v'"
    "api_server_port v = api_server_port v'" "listens v q = listens v' q"
  using assms by (simp_all add: store_view_def listens_def)

lemma service_view_cong:
  assumes "service_view p' = service_view p" and "pollable p"
  shows "vnodes p' = vnodes p" and "pollable p'" and "services_up e T p' = services_up e T p"
    and "r \<in> set (vnodes p) \<Longrightarrow> polls_served p' r = polls_served p r"
proof -
  show v: "vnodes p' = vnodes p" using assms(1) by (simp add: service_view_def)
  have m: "map store_view (objs p') = map store_view (objs p)" using assms(1) by (simp add: service_view_def)
  then have l: "length (objs p') = length (objs p)" by (rule map_eq_imp_length_eq)
  have "store_view (objs p' ! r) = store_view (objs p ! r)" if "r \<in> set (vnodes p)" for r
    using arg_cong [OF m, of "\<lambda>xs. xs ! r"] that assms(2) l by (simp add: pollable_def)
  note n = store_view_eqD [OF this]
  have v0: "vnodes p ! 0 \<in> set (vnodes p)" using assms(2) by (simp add: pollable_def)
  have s: "served p' ip q = served p ip q" for ip q
    using n(1,5) by (simp add: served_def v cong: bex_cong)
  show "pollable p'" using assms(2) n(3) n(4) [OF v0] unfolding pollable_def v l by simp
  show "services_up e T p' = services_up e T p"
    unfolding services_up_def s v n(1,4) [OF v0] by (rule refl)
  show "polls_served p' r = polls_served p r" if "r \<in> set (vnodes p)"
    unfolding polls_served_def s n(1-3) [OF that] by (rule refl)
qed

lemma probe_ports_run:
  "\<exists>b u. probe_ports e ip ports p = (Inr b, p\<lparr>now := u\<rparr>) \<and> now p \<le> u \<and> (\<not> b \<longrightarrow> now p < u) \<and>
     ((\<forall>t \<ge> now p. \<forall>q \<in> set ports. ts_reply e t ip q (request_value STATUS_CHECK) = Some (response_value READY)) \<longrightarrow> b) \<and>
     ((\<exists>q \<in> set ports. \<forall>t. ts_reply e t ip q (request_value STATUS_CHECK) \<noteq> Some (response_value READY)) \<longrightarrow> \<not> b)"
proof (induction ports arbitrary: p)
  case Nil
  show ?case by (intro exI [of _ True] exI [of _ "now p"]) simp
next
  case (Cons q ports)
  let ?p = "p\<lparr>now := now p + 1\<rparr>"
  from Cons.IH [of ?p] obtain b u where "probe_ports e ip ports ?p = (Inr b, p\<lparr>now := u\<rparr>)" "now p < u"
    "(\<forall>t > now p. \<forall>q \<in> set ports. ts_reply e t ip q (request_value STATUS_CHECK) = Some (response_value READY)) \<longrightarrow> b"
    "(\<exists>q \<in> set ports. \<forall>t. ts_reply e t ip q (request_value STATUS_CHECK) \<noteq> Some (response_value READY)) \<longrightarrow> \<not> b"
    by (auto simp: Suc_le_eq)
  note u = this
  have ask: "probe_ports e ip (q # ports) p =
      (if ts_reply e (now p) ip q (request_value STATUS_CHECK) \<noteq> Some (response_value READY)
       then (Inr False, ?p) else probe_ports e ip ports ?p)"
    by (simp add: bindS_def ask_def del: request_value.simps response_value.simps)
  show ?case
  proof (cases "ts_reply e (now p) ip q (request_value STATUS_CHECK) = Some (response_value READY)")
    case True
    with ask u show ?thesis by (intro exI [of _ b] exI [of _ u]) (auto simp del: request_value.simps response_value.simps)
  next
    case False
    with ask show ?thesis
      by (intro exI [of _ False] exI [of _ "now p + 1"]) (auto simp del: request_value.simps response_value.simps)
  qed
qed

lemma service_view_flag:
  "service_view (p\<lparr>objs := (objs p)[r := (objs p ! r)\<lparr>is_tensor_store_ready := b\<rparr>]\<rparr>) = service_view p"
  "service_view (p\<lparr>objs := (objs p)[r := (objs p ! r)\<lparr>is_api_server_ready := b\<rparr>]\<rparr>) = service_view p"
  "service_view (p\<lparr>now := t\<rparr>) = service_view p" "service_view (p\<lparr>trace := as\<rparr>) = service_view p"
  by (cases "r < length (objs p)";
      auto simp: service_view_def store_view_def map_update list_update_same_conv list_update_beyond)+

lemma check_store_run:
  assumes "pollable p" and "r \<in> set (vnodes p)"
  shows "\<exists>b p'. check_tensor_store_status e r p = (Inr b, p') \<and> service_view p' = service_view p \<and> now p \<le> now p' \<and>
     (\<not> b \<longrightarrow> now p < now p') \<and> (T \<le> now p \<and> services_up e T p \<and> polls_served p r \<longrightarrow> b) \<and>
     (services_up e T p \<and> \<not> polls_served p r \<longrightarrow> \<not> b)"
proof -
  let ?v = "objs p ! r"
  obtain base where base: "tensor_store_port ?v = Some base" using assms by (auto simp: pollable_def)
  let ?ports = "map (\<lambda>i. base + int i) [0..<nat (tp_size ?v)]"
  let ?ready = "\<lambda>t q. ts_reply e t (node_ip ?v) q (request_value STATUS_CHECK) = Some (response_value READY)"
  obtain b u where u: "probe_ports e (node_ip ?v) ?ports p = (Inr b, p\<lparr>now := u\<rparr>)" "now p \<le> u" "\<not> b \<longrightarrow> now p < u"
    "(\<forall>t \<ge> now p. \<forall>q \<in> set ?ports. ?ready t q) \<longrightarrow> b" "(\<exists>q \<in> set ?ports. \<forall>t. \<not> ?ready t q) \<longrightarrow> \<not> b"
    using probe_ports_run by blast
  let ?p' = "p\<lparr>now := u, objs := (objs p)[r := ?v\<lparr>is_tensor_store_ready := b\<rparr>]\<rparr>"
  have "check_tensor_store_status e r p = (Inr b, ?p')"
    using u(1) base by (simp add: check_tensor_store_status_def bindS_def thenS_def the_node_def update_node_def)
  moreover have "service_view ?p' = service_view p"
    using service_view_flag(1) [where p = "p\<lparr>now := u\<rparr>" and r = r and b = b]
      service_view_flag(3) [where p = p and t = u] by simp
  moreover have "(\<forall>q \<in> set ?ports. served p (node_ip ?v) q) = polls_served p r"
    using base by (auto simp: polls_served_def)
  then have "T \<le> now p \<and> services_up e T p \<and> polls_served p r \<longrightarrow> b"
    "services_up e T p \<and> \<not> polls_served p r \<longrightarrow> \<not> b"
    using u(4,5) unfolding services_up_def by (meson order_trans)+
  ultimately show ?thesis using u(2,3) by (intro exI [of _ b] exI [of _ ?p']) simp
qed

lemma poll_nodes_run:
  assumes "pollable p" and "set rs \<subseteq> set (vnodes p)" and "length bs = length rs"
  shows "\<exists>bs' p'. poll_nodes e rs bs p = (Inr bs', p') \<and> length bs' = length rs \<and> service_view p' = service_view p \<and>
     now p \<le> now p' \<and> (\<not> list_all (\<lambda>b. b) bs' \<longrightarrow> now p < now p') \<and>
     (T \<le> now p \<and> services_up e T p \<and> (\<forall>r \<in> set rs. polls_served p r) \<longrightarrow> list_all (\<lambda>b. b) bs') \<and>
     (\<forall>k < length rs. services_up e T p \<and> \<not> polls_served p (rs ! k) \<and> \<not> bs ! k \<longrightarrow> \<not> bs' ! k)"
  using assms
proof (induction rs arbitrary: bs p)
  case (Cons r rs)
  then obtain b bs0 where bs: "bs = b # bs0" "length bs0 = length rs" by (cases bs) auto
  have "\<exists>b1 p1. (if b then retS True else check_tensor_store_status e r) p = (Inr b1, p1) \<and>
      service_view p1 = service_view p \<and> now p \<le> now p1 \<and> (\<not> b1 \<longrightarrow> now p < now p1) \<and>
      (T \<le> now p \<and> services_up e T p \<and> polls_served p r \<longrightarrow> b1) \<and>
      (services_up e T p \<and> \<not> polls_served p r \<and> \<not> b \<longrightarrow> \<not> b1)"
  proof (cases b)
    case False
    with check_store_run [of p r e T] Cons.prems(1,2) show ?thesis by auto
  qed auto
  then obtain b1 p1 where b1: "(if b then retS True else check_tensor_store_status e r) p = (Inr b1, p1)"
    "service_view p1 = service_view p" "now p \<le> now p1" "\<not> b1 \<longrightarrow> now p < now p1"
    "T \<le> now p \<and> services_up e T p \<and> polls_served p r \<longrightarrow> b1"
    "services_up e T p \<and> \<not> polls_served p r \<and> \<not> b \<longrightarrow> \<not> b1" by blast
  note c = service_view_cong [OF b1(2) Cons.prems(1)]
  have sub: "set rs \<subseteq> set (vnodes p1)" using Cons.prems(2) c(1) by simp
  from Cons.IH [OF c(2) sub bs(2)] obtain bs' p' where
    p': "poll_nodes e rs bs0 p1 = (Inr bs', p')" "length bs' = length rs" "service_view p' = service_view p1"
      "now p1 \<le> now p'" "\<not> list_all (\<lambda>b. b) bs' \<longrightarrow> now p1 < now p'"
      "T \<le> now p1 \<and> services_up e T p1 \<and> (\<forall>r \<in> set rs. polls_served p1 r) \<longrightarrow> list_all (\<lambda>b. b) bs'"
      "\<forall>k < length rs. services_up e T p1 \<and> \<not> polls_served p1 (rs ! k) \<and> \<not> bs0 ! k \<longrightarrow> \<not> bs' ! k"
    by blast
  have pv: "polls_served p1 x = polls_served p x" if "x \<in> set rs" for x using c(4) that Cons.prems(2) by auto
  have "poll_nodes e (r # rs) bs p = (Inr (b1 # bs'), p')"
    using b1(1) p'(1) unfolding bs(1) poll_nodes.simps by (simp only: bindS_def prod.case sum.case retS_def)
  moreover have "\<forall>k < length (r # rs). services_up e T p \<and> \<not> polls_served p ((r # rs) ! k) \<and> \<not> bs ! k \<longrightarrow> \<not> (b1 # bs') ! k"
    using b1(6) p'(7) c(3) [of e T] pv unfolding bs(1) by (auto simp: nth_Cons split: nat.split)
  moreover have "T \<le> now p \<and> services_up e T p \<and> (\<forall>x \<in> set (r # rs). polls_served p x) \<longrightarrow> list_all (\<lambda>b. b) (b1 # bs')"
    using b1(3,5) p'(6) c(3) [of e T] pv by simp
  ultimately show ?case using b1(2-4) p'(2-5)
    by (intro exI [of _ "b1 # bs'"] exI [of _ p']) auto
qed auto

lemma check_api_run:
  assumes "pollable p"
  shows "\<exists>b p'. check_api_server_status e (vnodes p ! 0) p = (Inr b, p') \<and> service_view p' = service_view p \<and>
     now p \<le> now p' \<and> (\<not> b \<longrightarrow> now p < now p') \<and> (T \<le> now p \<and> services_up e T p \<longrightarrow> b)"
proof (cases "pipeline_rank (node_of p 0) = 0")
  case True
  let ?v = "node_of p 0" and ?r = "vnodes p ! 0"
  obtain q where q: "api_server_port ?v = Some q" using assms by (auto simp: pollable_def)
  let ?b = "api_health e (now p) (node_ip ?v) q = Some 200"
  let ?t = "trace p @ [HealthCheck (node_ip ?v) (Some q) (api_health e (now p) (node_ip ?v) q)]"
  let ?p' = "p\<lparr>now := now p + 1, trace := ?t, objs := (objs p)[?r := ?v\<lparr>is_api_server_ready := ?b\<rparr>]\<rparr>"
  have "check_api_server_status e ?r p = (Inr ?b, ?p')"
    using True q by (simp add: check_api_server_status_def bindS_def thenS_def the_node_def ask_def update_node_def
        do_action_def Let_def)
  moreover have "service_view ?p' = service_view p"
    using service_view_flag(2) [where p = "p\<lparr>now := now p + 1, trace := ?t\<rparr>" and r = ?r and b = ?b]
      service_view_flag(3) [where p = p and t = "now p + 1"] service_view_flag(4) [where p = "p\<lparr>now := now p + 1\<rparr>" and as = ?t]
    by simp
  moreover have "T \<le> now p \<and> services_up e T p \<longrightarrow> ?b" using q by (simp add: services_up_def)
  ultimately show ?thesis by (intro exI [of _ ?b] exI [of _ ?p']) simp
next
  case False
  then show ?thesis
    by (intro exI [of _ True] exI [of _ p]) (simp add: check_api_server_status_def bindS_def the_node_def)
qed

text \<open>One round of the wait: it takes a tick of the clock unless it finds every server ready.\<close>

lemma services_round:
  assumes "pollable p" and "length bs = length (vnodes p)" and "\<not> (list_all (\<lambda>b. b) bs \<and> api)"
  obtains bs1 api' p2 where "services_loop e (Suc fuel) (vnodes p) bs api p = services_loop e fuel (vnodes p) bs1 api' p2"
    "length bs1 = length (vnodes p)" "service_view p2 = service_view p" "now p \<le> now p2"
    "\<not> (list_all (\<lambda>b. b) bs1 \<and> api') \<longrightarrow> now p < now p2"
    "T \<le> now p \<and> services_up e T p \<and> (\<forall>r \<in> set (vnodes p). polls_served p r) \<longrightarrow> list_all (\<lambda>b. b) bs1 \<and> api'"
    "\<forall>k < length (vnodes p). services_up e T p \<and> \<not> polls_served p (vnodes p ! k) \<and> \<not> bs ! k \<longrightarrow> \<not> bs1 ! k"
proof -
  let ?rs = "vnodes p"
  obtain bs1 p1 where p1: "poll_nodes e ?rs bs p = (Inr bs1, p1)" "length bs1 = length ?rs" "service_view p1 = service_view p"
    "now p \<le> now p1" "\<not> list_all (\<lambda>b. b) bs1 \<longrightarrow> now p < now p1"
    "T \<le> now p \<and> services_up e T p \<and> (\<forall>r \<in> set ?rs. polls_served p r) \<longrightarrow> list_all (\<lambda>b. b) bs1"
    "\<forall>k < length ?rs. services_up e T p \<and> \<not> polls_served p (?rs ! k) \<and> \<not> bs ! k \<longrightarrow> \<not> bs1 ! k"
    using poll_nodes_run [OF assms(1) subset_refl assms(2), of e T] by blast
  note c = service_view_cong [OF p1(3) assms(1)]
  have h: "hd ?rs = vnodes p1 ! 0" "?rs \<noteq> []" using assms(1) c(1) by (auto simp: pollable_def hd_conv_nth)
  have "\<exists>api' p2. (if \<not> api \<and> ?rs \<noteq> [] then check_api_server_status e (hd ?rs) else retS api) p1 = (Inr api', p2) \<and>
      service_view p2 = service_view p1 \<and> now p1 \<le> now p2 \<and> (\<not> api' \<longrightarrow> now p1 < now p2) \<and>
      (T \<le> now p1 \<and> services_up e T p1 \<longrightarrow> api')"
  proof (cases api)
    case False
    with check_api_run [OF c(2), of e T] h show ?thesis by simp
  qed auto
  then obtain api' p2 where p2: "(if \<not> api \<and> ?rs \<noteq> [] then check_api_server_status e (hd ?rs) else retS api) p1 = (Inr api', p2)"
    "service_view p2 = service_view p1" "now p1 \<le> now p2" "\<not> api' \<longrightarrow> now p1 < now p2"
    "T \<le> now p1 \<and> services_up e T p1 \<longrightarrow> api'" by blast
  have "services_loop e (Suc fuel) ?rs bs api p = services_loop e fuel ?rs bs1 api' p2"
    using assms(3) p1(1) p2(1) unfolding services_loop.simps by (simp only: bindS_def prod.case sum.case if_False)
  then show thesis using p1(2-) p2(2-) c(3) [of e T] by (intro that [of bs1 api' p2]) auto
qed

text \<open>
  Once the clock has passed the time from which all servers are ready, one round ends the wait if
  every port it asks is served; a node one of whose ports is not served is never found ready.
\<close>

lemma services_loop_ends:
  assumes "pollable p" and "length bs = length (vnodes p)" and "services_up e T p"
    and "\<forall>r \<in> set (vnodes p). polls_served p r" and "T - now p < fuel"
  shows "\<exists>p'. services_loop e fuel (vnodes p) bs api p = (Inr (), p')"
  using assms
proof (induction fuel arbitrary: p bs api)
  case (Suc fuel)
  show ?case
  proof (cases "list_all (\<lambda>b. b) bs \<and> api")
    case False
    obtain bs1 api' p2 where r: "services_loop e (Suc fuel) (vnodes p) bs api p = services_loop e fuel (vnodes p) bs1 api' p2"
      "length bs1 = length (vnodes p)" "service_view p2 = service_view p" "now p \<le> now p2"
      "\<not> (list_all (\<lambda>b. b) bs1 \<and> api') \<longrightarrow> now p < now p2" "T \<le> now p \<longrightarrow> list_all (\<lambda>b. b) bs1 \<and> api'"
      using services_round [OF Suc.prems(1,2) False, of e fuel T] Suc.prems(3,4) by metis
    note c = service_view_cong [OF r(3) Suc.prems(1)]
    show ?thesis
    proof (cases "list_all (\<lambda>b. b) bs1 \<and> api'")
      case True
      then show ?thesis unfolding r(1) by (cases fuel) auto
    next
      case False
      then have "T - now p2 < fuel" using r(5,6) Suc.prems(5) by linarith
      with Suc.IH [OF c(2), of bs1] r(2) c(1) c(3) [of e T] c(4) Suc.prems(3,4) show ?thesis
        unfolding r(1) by simp
    qed
  qed simp
qed simp

lemma services_loop_stuck:
  assumes "pollable p" and "length bs = length (vnodes p)" and "services_up e T p"
    and "k < length (vnodes p)" and "\<not> polls_served p (vnodes p ! k)" and "\<not> bs ! k"
  shows "fst (services_loop e fuel (vnodes p) bs api p) = Inl Timeout"
  using assms
proof (induction fuel arbitrary: p bs api)
  case 0
  then have "\<not> list_all (\<lambda>b. b) bs" by (auto simp: list_all_length)
  then show ?case by (simp add: raiseS_def)
next
  case (Suc fuel)
  have ne: "\<not> (list_all (\<lambda>b. b) bs \<and> api)" using Suc.prems(2,4,6) by (auto simp: list_all_length)
  obtain bs1 api' p2 where r: "services_loop e (Suc fuel) (vnodes p) bs api p = services_loop e fuel (vnodes p) bs1 api' p2"
    "length bs1 = length (vnodes p)" "service_view p2 = service_view p" "\<not> bs1 ! k"
    using services_round [OF Suc.prems(1,2) ne, of e fuel T] Suc.prems(3-6) by metis
  note c = service_view_cong [OF r(3) Suc.prems(1)]
  have "\<not> polls_served p2 (vnodes p2 ! k)" using c(1,4) Suc.prems(4,5) by simp
  with Suc.IH [OF c(2), of bs1 api'] r c(1) c(3) [of e T] Suc.prems(3,4) show ?case by simp
qed

section \<open>Properties\<close>

text \<open>
  The GPU check. \<open>_validate_gpu_allocation\<close> passes exactly when no two virtual nodes of the
  pipeline use the same GPU of the same machine; otherwise it raises \<open>ValueError\<close>. When it passes,
  the tensor stores of the pipeline, which listen on a common base port plus the GPU's number, do
  not share a machine and port.
\<close>

theorem validate_gpu_allocation_iff:
  "((\<exists>u. validate_gpu_allocation vs = Inr u) \<longleftrightarrow>
     (\<forall>i j. i < j \<and> j < length vs \<longrightarrow> gpus_of (vs ! i) \<inter> gpus_of (vs ! j) = {})) \<and>
   (\<forall>err. validate_gpu_allocation vs = Inl err \<longrightarrow> err = ValueError) \<and>
   (\<forall>u base i j a b. validate_gpu_allocation vs = Inr u \<and> i < length vs \<and> j < length vs \<and>
      a \<in> set (gpu_range (vs ! i)) \<and> b \<in> set (gpu_range (vs ! j)) \<and>
      (node_ip (vs ! i), final_port base a) = (node_ip (vs ! j), final_port base b) \<longrightarrow> i = j)"
proof -
  have iff: "(\<exists>u. validate_gpu_allocation vs = Inr u) \<longleftrightarrow>
      (\<forall>i j. i < j \<and> j < length vs \<longrightarrow> gpus_of (vs ! i) \<inter> gpus_of (vs ! j) = {})"
    using validate_gpus [of "[]" vs] by (simp add: validate_gpu_allocation_def)
  have "foldE (\<lambda>used v. foldE (mark_gpu (node_ip v)) used (gpu_range v)) used vs = Inl err \<Longrightarrow> err = ValueError" for used err
    by (induction vs arbitrary: used) (auto simp: bindE_Inl_iff mark_gpus split: if_splits)
  then have err: "\<forall>err. validate_gpu_allocation vs = Inl err \<longrightarrow> err = ValueError"
    by (simp add: validate_gpu_allocation_def)
  have "i = j" if v: "validate_gpu_allocation vs = Inr u" and ij: "i < length vs" "j < length vs"
    and ab: "a \<in> set (gpu_range (vs ! i))" "b \<in> set (gpu_range (vs ! j))"
    and eq: "node_ip (vs ! i) = node_ip (vs ! j)" "final_port base a = final_port base b" for u base i j a b
  proof (rule ccontr)
    assume ne: "i \<noteq> j"
    have "a = b" using eq(2) by (auto simp: final_port_def split: option.splits)
    with ab eq(1) have "(node_ip (vs ! i), a) \<in> gpus_of (vs ! i) \<inter> gpus_of (vs ! j)" by (auto simp: gpus_of_def)
    moreover have "gpus_of (vs ! i) \<inter> gpus_of (vs ! j) = {}"
      using iff v ij ne by (metis Int_commute linorder_neqE_nat)
    ultimately show False by blast
  qed
  with iff err show ?thesis by blast
qed

theorem validate_gpu_allocation_iff_witness:
  "\<exists>u. validate_gpu_allocation [VNode_init ''a'' 0 2 0 0 4 8, VNode_init ''a'' 2 2 1 4 8 8] = Inr u"
proof -
  let ?vs = "[VNode_init ''a'' 0 2 0 0 4 8, VNode_init ''a'' 2 2 1 4 8 8]"
  have "gpus_of (?vs ! 0) \<inter> gpus_of (?vs ! 1) = {}" by (auto simp: gpus_of_def gpu_range_def VNode_init_def)
  then have "\<forall>i j. i < j \<and> j < length ?vs \<longrightarrow> gpus_of (?vs ! i) \<inter> gpus_of (?vs ! j) = {}"
    by (auto simp: less_Suc_eq)
  with validate_gpu_allocation_iff [of ?vs] show ?thesis by blast
qed

text \<open>
  The rank mapping. For nodes with no negative sizes, the mapping generated for the inference
  engine lists every global rank from 0 to the total number of GPUs exactly once, and it lists a
  rank under an address exactly when the virtual node that owns the rank, in pipeline order, is at
  that address.
\<close>

theorem rank_mapping_partitions:
  assumes "\<forall>v \<in> set vs. 0 \<le> tp_size v"
  shows "mset (concat (map snd (rank_mapping_of vs))) = mset [0..sum_list (map tp_size vs) - 1] \<and>
     distinct (map fst (rank_mapping_of vs)) \<and>
     (\<forall>ip r. (\<exists>rs. dict_get (rank_mapping_of vs) ip = Some rs \<and> r \<in> set rs) \<longleftrightarrow>
        (\<exists>i < length vs. node_ip (vs ! i) = ip \<and> rank_offset vs i \<le> r \<and> r < rank_offset vs i + tp_size (vs ! i)))"
  using rank_mapping_mset [OF assms] dict_get_rank_mapping [of vs] unfolding dict_wf_def by blast

theorem rank_mapping_partitions_witness:
  "mset (concat (map snd (rank_mapping_of [VNode_init ''a'' 0 2 0 0 4 8, VNode_init ''b'' 0 1 1 4 8 8]))) = mset [0..2]"
  using rank_mapping_partitions [of "[VNode_init ''a'' 0 2 0 0 4 8, VNode_init ''b'' 0 1 1 4 8 8]"]
  by (simp add: VNode_init_def)

text \<open>
  C38. A created pipeline. When \<open>initialize_pipeline\<close> succeeds on a mapping with no negative layer
  counts, the pipeline is marked ready, its nodes have ranks in the order of the mapping and the
  tensor-parallel sizes of the configured strategy, their layer ranges tile the model's layers,
  no two nodes use the same GPU of the same machine, and the API server's address is that of the
  first node.
\<close>

theorem initialize_pipeline_ok:
  assumes "initialize_pipeline e fuel ms cfg thr (Pipeline_init t) = (Inr (), p)"
    and "\<forall>m \<in> set ms. 0 \<le> entry_count m"
  shows "is_ready p \<and> layout_ok p \<and> length (vnodes p) = length ms \<and>
     cfg_total_num_layers cfg = Some (total_layers p) \<and>
     (\<forall>i j. i < j \<and> j < length ms \<longrightarrow> gpus_of (node_of p i) \<inter> gpus_of (node_of p j) = {}) \<and>
     (\<exists>ps. cfg_parallel_strategy cfg = Some ps \<and> map tp_size (nodes_of p) = take (length ms) ps) \<and>
     api_server_host p = Some (node_ip (node_of p 0)) \<and> pl_api_server_port p = api_server_port (node_of p 0)"
proof -
  from assms(1) obtain q where q: "build_pipeline ms cfg thr (Pipeline_init t) = (Inr (), q)"
    and l: "launch_pipeline e fuel cfg q = (Inr (), p)"
    by (auto simp: initialize_pipeline_def thenS_Inr_iff)
  note b = build_pipeline_run [OF q _ _ assms(2)]
  note r = launch_pipeline_run [OF l]
  have lay: "layout_ok q" using b by (simp add: Pipeline_init_def)
  then have v: "list_all (\<lambda>r. r < length (objs q)) (vnodes q)" by (simp add: layout_ok_def)
  note n = same_nodes_nodes_of [OF r(1) v]
  have eq: "vnodes p = vnodes q" "total_layers p = total_layers q" using r(1) by (simp_all add: same_nodes_def)
  have g: "gpus_of (node_of p i) \<inter> gpus_of (node_of p j) = {}" if "i < j \<and> j < length ms" for i j
  proof -
    have "length (vnodes p) = length ms" using b eq by (simp add: Pipeline_init_def)
    moreover have "\<exists>u. validate_gpu_allocation (nodes_of p) = Inr u" using b validate_cong [OF n] by (simp add: Pipeline_init_def)
    ultimately show ?thesis
      using that validate_gpus [of "[]" "nodes_of p"] by (simp add: validate_gpu_allocation_def)
  qed
  then have "\<forall>i j. i < j \<and> j < length ms \<longrightarrow> gpus_of (node_of p i) \<inter> gpus_of (node_of p j) = {}" by blast
  then show ?thesis
    using b r(2-4) same_nodes_layout [OF r(1) lay] eq map_layer_ids(4) [OF n]
    by (simp only: Pipeline_init_def pipeline.simps world.simps simp_thms)
qed

text \<open>An environment in which two nodes with one GPU each are connected and every server answers.\<close>

definition ready_env :: "env" where
  "ready_env = \<lparr>ts_reply = (\<lambda>t ip p q. Some (response_value READY)),
     api_health = (\<lambda>t ip p. Some 200), remote_running = (\<lambda>t ip pat. Some False), ray_init = (\<lambda>t p. Inr ()),
     join_rc = (\<lambda>t ip. 0), ray_nodes = (\<lambda>t. map (\<lambda>ip. \<lparr>NodeManagerAddress = ip, Alive = True, GPU = 1\<rparr>) [''a'', ''b'']),
     head_ip = ''a''\<rparr>"

definition ready_cfg :: config where
  "ready_cfg = \<lparr>cfg_model_name = Some ''m'', cfg_total_num_layers = Some 8, cfg_pp_layer_partition = Some ''5,3'',
     cfg_parallel_strategy = Some [1, 1], cfg_model_source = None, cfg_s3_path = None,
     cfg_tensor_store_base_port = None, cfg_api_server_base_port = None, cfg_max_batch_size = None, cfg_mode = None,
     cfg_dtype = None, cfg_aws_profile = None, cfg_block_size = None, cfg_gpu_memory_utilization = None,
     cfg_swap_space = None, cfg_cache_dtype = None, cfg_max_model_len = None, cfg_num_gpu_blocks = None,
     cfg_host = None, cfg_max_num_batched_tokens = None, cfg_max_num_seqs = None\<rparr>"

theorem initialize_pipeline_ok_witness:
  "layout_ok (snd (initialize_pipeline ready_env 2 [Auto ''a'' 5, Auto ''b'' 3] ready_cfg 1 (Pipeline_init 0)))"
proof -
  have "fst (initialize_pipeline ready_env 2 [Auto ''a'' 5, Auto ''b'' 3] ready_cfg 1 (Pipeline_init 0)) = Inr ()"
    by code_simp
  then have "initialize_pipeline ready_env 2 [Auto ''a'' 5, Auto ''b'' 3] ready_cfg 1 (Pipeline_init 0) =
      (Inr (), snd (initialize_pipeline ready_env 2 [Auto ''a'' 5, Auto ''b'' 3] ready_cfg 1 (Pipeline_init 0)))"
    by (metis prod.collapse)
  from initialize_pipeline_ok [OF this] show ?thesis by simp
qed

text \<open>
  Whatever happens while nodes are replaced (unknown addresses, Ray failures, servers that never
  become ready), a pipeline whose layer ranges tiled the model still has ranges that tile it.
\<close>

lemma switch_layout:
  assumes "layout_ok p"
  shows "layout_ok (snd (switch_node e fuel old_ip new_ip p)) \<and> layout_ok (snd (switch_nodes e fuel pairs p))"
proof
  show "layout_ok (snd (switch_node e fuel old_ip new_ip p))"
  proof (cases "find_node p old_ip")
    case (Some i)
    let ?v = "node_of p i"
    let ?p = "p\<lparr>objs := objs p @ [replacement ?v new_ip], vnodes := (vnodes p)[i := length (objs p)]\<rparr>"
    let ?rest = "bindS (bring_up_node e fuel (tensor_store_port ?v) (api_server_host p) (pl_api_server_port p)
         (get_alternate_ray_port p) (length (objs p)))
       (\<lambda>(new_host, new_port). thenS (switch_over e (vnodes p ! 0) (pl_api_server_port p) new_host new_port)
        (thenS (do_action (RayStop (node_ip ?v)))
        (thenS (stop_tensor_store e (vnodes p ! i)) (assert_tensor_store_stopped e (vnodes p ! i)))))"
    have "layout_ok ?p"
      using layout_replace [OF assms, of i "replacement ?v new_ip"] find_nodeD [OF Some] replacement_same by simp
    moreover have "keeps layout_ok ?rest" by (auto intro!: keeps_intros)
    ultimately have "layout_ok (snd (?rest ?p))" by (simp only: keeps_def)
    moreover have "switch_node e fuel old_ip new_ip p = ?rest ?p"
      using Some by (simp add: switch_node_def bindS_def the_node_def replace_node_run)
    ultimately show ?thesis by (simp only:)
  qed (use assms in \<open>simp add: switch_node_def bindS_def\<close>)
  let ?targets = "map (\<lambda>i. (i, vnodes p ! i)) (List.map_filter (\<lambda>(oip, nip). find_node p oip) pairs)"
  have "target_ok p it" if it: "it \<in> set ?targets" for it
  proof -
    obtain i where i: "it = (i, vnodes p ! i)" "i \<in> set (List.map_filter (\<lambda>(oip, nip). find_node p oip) pairs)"
      using it by auto
    then have "i < length (vnodes p)" by (auto simp: map_filter_def dest: find_nodeD)
    with i(1) assms show ?thesis by (auto simp: target_ok_def layout_ok_def list_all_iff)
  qed
  then have "layout_ok (snd (replace_nodes ?targets pairs p))"
    by (intro layout_replace_nodes assms) (simp add: list_all_iff)
  then have "layout_ok (snd (bindS (replace_nodes ?targets pairs) (\<lambda>news.
     bindS (bring_up_nodes e fuel sps oh op rp news) (\<lambda>(new_host, new_port).
     thenS (switch_over e old_first op new_host new_port)
      (forS (map snd ?targets) (\<lambda>t. thenS (stop_tensor_store e t) (assert_tensor_store_stopped e t))))) p))"
    for sps oh op rp old_first by (rule keeps_after) (auto intro!: keeps_intros)
  then show "layout_ok (snd (switch_nodes e fuel pairs p))"
    using assms unfolding switch_nodes_def by (subst bindS_def) (simp add: bindS_getS)
qed

lemma switch_over_run:
  assumes "switch_over e r op h q p = (Inr (), p')" and "ref_is r 0 ip p"
  shows "is_ready p' \<and> api_server_host p' = Some h \<and> pl_api_server_port p' = q \<and>
     (\<exists>port bs. trace p' = trace p @ [ShutdownApiServer ip port] @ bs \<and> (\<forall>x. op = Some x \<longrightarrow> port = Some x))"
proof -
  let ?port = "case op of None \<Rightarrow> api_server_port (objs p ! r) | Some x \<Rightarrow> Some x"
  from assms show ?thesis
    by (auto simp: switch_over_def thenS_Inr_iff bindS_Inr_iff stop_api_server_def the_node_def update_node_def
        do_action_def kill_if_running_def ask_def ref_is_def Let_def split: if_splits option.splits)
qed

lemma keeps_trace_extends:
  "keeps (\<lambda>w. \<exists>bs. trace w = t @ bs) (do_action a)"
  "keeps (\<lambda>w. \<exists>bs. trace w = t @ bs) (ask q)"
  "keeps (\<lambda>w. \<exists>bs. trace w = t @ bs) (update_node r f)"
  by (auto simp: keeps_def do_action_def ask_def update_node_def)

lemma keeps_trace_kill: "keeps (\<lambda>w. \<exists>bs. trace w = t @ bs) (kill_if_running e ip pat k)"
  by (auto simp: kill_if_running_def intro!: keeps_intros keeps_trace_extends)

lemma keeps_trace_shutdown: "keeps (\<lambda>w. \<exists>bs. trace w = t @ bs) (shutdown_ports e ip ports)"
  by (induction ports) (auto intro!: keeps_intros keeps_trace_extends)

lemma keeps_trace_cleanup: "keeps (\<lambda>w. \<exists>bs. trace w = t @ bs) (cleanup_worker e ip n)"
  by (induction n) (auto intro!: keeps_intros keeps_trace_kill)

lemma keeps_trace_retire:
  "keeps (\<lambda>w. \<exists>bs. trace w = t @ bs) (stop_tensor_store e r)"
  "keeps (\<lambda>w. \<exists>bs. trace w = t @ bs) (assert_tensor_store_stopped e r)"
  by (auto simp: stop_tensor_store_def assert_tensor_store_stopped_def split: option.split
      intro!: keeps_intros keeps_trace_extends keeps_trace_kill keeps_trace_shutdown keeps_trace_cleanup)

text \<open>The parts of a switch that returns: the new node is brought up, the pipeline is switched over, the old node is retired.\<close>

lemma switch_node_runE:
  assumes "switch_node e fuel old_ip new_ip p = (Inr (), p')"
  obtains i h q p2 p3 p4 p5 where "find_node p old_ip = Some i"
    "bring_up_node e fuel (tensor_store_port (node_of p i)) (api_server_host p) (pl_api_server_port p) (get_alternate_ray_port p) (length (objs p))
       (p\<lparr>objs := objs p @ [replacement (node_of p i) new_ip], vnodes := (vnodes p)[i := length (objs p)]\<rparr>) = (Inr (h, q), p2)"
    "switch_over e (vnodes p ! 0) (pl_api_server_port p) h q p2 = (Inr (), p3)"
    "do_action (RayStop (node_ip (node_of p i))) p3 = (Inr (), p4)"
    "stop_tensor_store e (vnodes p ! i) p4 = (Inr (), p5)" "assert_tensor_store_stopped e (vnodes p ! i) p5 = (Inr (), p')"
proof -
  from assms obtain i where i: "find_node p old_ip = Some i" by (auto simp: switch_node_def bindS_def split: option.splits)
  have "bindS (bring_up_node e fuel (tensor_store_port (node_of p i)) (api_server_host p) (pl_api_server_port p)
         (get_alternate_ray_port p) (length (objs p)))
       (\<lambda>(new_host, new_port). thenS (switch_over e (vnodes p ! 0) (pl_api_server_port p) new_host new_port)
        (thenS (do_action (RayStop (node_ip (node_of p i))))
        (thenS (stop_tensor_store e (vnodes p ! i)) (assert_tensor_store_stopped e (vnodes p ! i)))))
       (p\<lparr>objs := objs p @ [replacement (node_of p i) new_ip], vnodes := (vnodes p)[i := length (objs p)]\<rparr>) = (Inr (), p')"
    using assms i by (simp add: switch_node_def bindS_def the_node_def replace_node_run)
  with i that show thesis by (auto simp: thenS_Inr_iff bindS_Inr_iff)
qed

lemma retire_run:
  assumes "do_action (RayStop ip) p3 = (Inr (), p4)" "stop_tensor_store e r p4 = (Inr (), p5)"
    and "assert_tensor_store_stopped e r p5 = (Inr (), p' :: pipeline)"
  shows "world.more p' = world.more p3" and "\<exists>post. trace p' = trace p3 @ post"
proof -
  have "world.more p4 = world.more p3" "world.more p5 = world.more p4" "world.more p' = world.more p5"
    by (rule frameD(2) [rotated], rule assms, intro keeps_intros)+
  then show "world.more p' = world.more p3" by simp
  show "\<exists>post. trace p' = trace p3 @ post"
    using keeps_run [OF assms(3) keeps_trace_retire(2) keeps_run [OF assms(2) keeps_trace_retire(1) keeps_run [OF assms(1) keeps_trace_extends(1)]]]
    by (metis append_Nil2)
qed

lemma head_ref:
  assumes "layout_ok p" "vnodes p \<noteq> []"
  shows "ref_is (vnodes p ! 0) 0 (node_ip (node_of p 0)) (p\<lparr>objs := objs p @ [v], vnodes := rs\<rparr>)"
proof -
  have "vnodes p ! 0 < length (objs p)" using assms by (cases "vnodes p") (auto simp: layout_ok_def)
  moreover have "map pipeline_rank (nodes_of p) ! 0 = [0..<length (vnodes p)] ! 0" using assms(1) by (simp only: layout_ok_def)
  ultimately show ?thesis using assms(2) by (simp add: ref_is_def nth_append)
qed

text \<open>
  C39. A switch without an exception. After \<open>switch_node\<close> returned, the pipeline is ready and its API
  address differs from the old one. In the trace of the switch, the new API server is started on
  the first node with that port, then it passes a health check, and only then, as the next
  action, the old API server, on the old first node, is shut down; nothing is stopped before.
\<close>

theorem switch_node_ok:
  assumes "layout_ok p" and "switch_node e fuel old_ip new_ip p = (Inr (), p')" and "pl_api_server_port p = Some port"
  shows "\<exists>h q t a pre1 pre2 post. is_ready p' \<and> api_server_host p' = Some h \<and> pl_api_server_port p' = Some q \<and>
     (api_server_host p, pl_api_server_port p) \<noteq> (Some h, Some q) \<and> api_health e t h q = Some 200 \<and> ap_port a = Some q \<and>
     trace p' = trace p @ pre1 @ [StartApiServer h a] @ pre2 @
       [HealthCheck h (Some q) (Some 200), ShutdownApiServer (node_ip (node_of p 0)) (Some port)] @ post \<and>
     list_all (\<lambda>a. \<not> is_stop a) (pre1 @ pre2)"
proof -
  obtain i h q p2 p3 p4 p5 where i: "find_node p old_ip = Some i"
    and b: "bring_up_node e fuel (tensor_store_port (node_of p i)) (api_server_host p) (pl_api_server_port p) (get_alternate_ray_port p) (length (objs p))
       (p\<lparr>objs := objs p @ [replacement (node_of p i) new_ip], vnodes := (vnodes p)[i := length (objs p)]\<rparr>) = (Inr (h, q), p2)"
    and s: "switch_over e (vnodes p ! 0) (pl_api_server_port p) h q p2 = (Inr (), p3)"
    and old: "do_action (RayStop (node_ip (node_of p i))) p3 = (Inr (), p4)"
      "stop_tensor_store e (vnodes p ! i) p4 = (Inr (), p5)" "assert_tensor_store_stopped e (vnodes p ! i) p5 = (Inr (), p')"
    by (rule switch_node_runE [OF assms(2)])
  note fd = find_nodeD [OF i]
  let ?p = "p\<lparr>objs := objs p @ [replacement (node_of p i) new_ip], vnodes := (vnodes p)[i := length (objs p)]\<rparr>"
  have lay: "layout_ok ?p"
    using layout_replace [OF assms(1), of i "replacement (node_of p i) new_ip"] fd replacement_same by simp
  have ne: "has_nodes ?p" "vnodes p \<noteq> []" using fd by (auto simp: has_nodes_def)
  note up = bring_up_node_run [OF b lay ne(1)]
  obtain x t a pre1 pre2 where q: "q = Some x" "api_health e t h x = Some 200" "ap_port a = Some x"
      "trace p2 = trace p @ pre1 @ [StartApiServer h a] @ pre2 @ [HealthCheck h (Some x) (Some 200)]"
      "list_all (\<lambda>a. \<not> is_stop a) (pre1 @ pre2)"
    using up by auto
  from switch_over_run [OF s keeps_run [OF b keeps_ref_is_bring_up(1) head_ref [OF assms(1) ne(2)]]] assms(3) obtain bs where
    s3: "is_ready p3" "api_server_host p3 = Some h" "pl_api_server_port p3 = Some x"
      "trace p3 = trace p2 @ [ShutdownApiServer (node_ip (node_of p 0)) (Some port)] @ bs"
    using q(1) by auto
  note m = more_eqD [OF retire_run(1) [OF old]]
  obtain post where "trace p' = trace p3 @ post" using retire_run(2) [OF old] by blast
  moreover have "(api_server_host p, pl_api_server_port p) \<noteq> (Some h, Some x)"
    using up q(1) assms(3) by (auto simp: new_api_port_def split: if_splits)
  ultimately show ?thesis
    using m s3 q
    by (intro exI [of _ h] exI [of _ x] exI [of _ t] exI [of _ a] exI [of _ pre1] exI [of _ pre2] exI [of _ "bs @ post"]) auto
qed

definition ready_pipeline :: pipeline where
  "ready_pipeline = (Pipeline_init 0)\<lparr>objs := [(VNode_init ''a'' 0 1 0 0 8 8)\<lparr>tensor_store_port := Some 7000\<rparr>],
     vnodes := [0], total_layers := 8, pl_config := Some ready_cfg, api_server_host := Some ''a'', pl_api_server_port := Some 80\<rparr>"

theorem switch_node_ok_witness:
  "is_ready (snd (switch_node ready_env 2 ''a'' ''b'' ready_pipeline))"
proof -
  have "layout_ok ready_pipeline"
    by (simp add: layout_ok_def VNode_init_def layer_range_def Pipeline_init_def ready_pipeline_def)
  moreover have "fst (switch_node ready_env 2 ''a'' ''b'' ready_pipeline) = Inr ()" by code_simp
  then have "switch_node ready_env 2 ''a'' ''b'' ready_pipeline =
      (Inr (), snd (switch_node ready_env 2 ''a'' ''b'' ready_pipeline))" by (metis prod.collapse)
  moreover have "pl_api_server_port ready_pipeline = Some 80" by (simp add: ready_pipeline_def)
  ultimately show ?thesis using switch_node_ok by blast
qed

text \<open>
  C40. When the wait for the services ends. Suppose the tensor stores answer on the ports they
  listen on, from some time on all of them that they are ready, and the API server is healthy from
  then on. If every port that the checks ask is one on which some tensor store of the pipeline
  listens, \<open>_wait_for_services\<close> returns, after at most as many rounds as the clock needs to reach that
  time and one more. Otherwise it never returns, although every server is ready. The first case
  holds when every node begins at GPU 0; the second for a node on a machine of its own that begins
  at another GPU, because the checks leave out the number of its first GPU.
\<close>

theorem wait_for_services_ends:
  assumes "vnodes p \<noteq> []" and "api_server_port (node_of p 0) \<noteq> None"
    and "\<forall>r \<in> set (vnodes p). r < length (objs p) \<and> tensor_store_port (objs p ! r) \<noteq> None"
    and "services_up e T p"
  shows "((\<forall>r \<in> set (vnodes p). polls_served p r) \<longrightarrow> T - now p < fuel \<longrightarrow> (\<exists>p'. wait_for_services e fuel p = (Inr (), p'))) \<and>
     ((\<exists>r \<in> set (vnodes p). \<not> polls_served p r) \<longrightarrow> fst (wait_for_services e fuel p) = Inl Timeout) \<and>
     ((\<forall>r \<in> set (vnodes p). start_local_rank (objs p ! r) = 0) \<longrightarrow> (\<forall>r \<in> set (vnodes p). polls_served p r)) \<and>
     (\<forall>r \<in> set (vnodes p). start_local_rank (objs p ! r) > 0 \<and> tp_size (objs p ! r) > 0 \<and>
        (\<forall>r' \<in> set (vnodes p). node_ip (objs p ! r') = node_ip (objs p ! r) \<longrightarrow> r' = r) \<longrightarrow> \<not> polls_served p r)"
proof -
  have pol: "pollable p" using assms(1-3) by (simp add: pollable_def)
  have w: "wait_for_services e fuel p = services_loop e fuel (vnodes p) (replicate (length (vnodes p)) False) False p"
    by (simp add: wait_for_services_def)
  have "(\<forall>r \<in> set (vnodes p). polls_served p r) \<longrightarrow> T - now p < fuel \<longrightarrow> (\<exists>p'. wait_for_services e fuel p = (Inr (), p'))"
    unfolding w using services_loop_ends [OF pol _ assms(4)] by simp
  moreover have "fst (wait_for_services e fuel p) = Inl Timeout" if r: "r \<in> set (vnodes p)" "\<not> polls_served p r" for r
  proof -
    obtain k where "k < length (vnodes p)" "vnodes p ! k = r" using r(1) by (auto simp: in_set_conv_nth)
    then show ?thesis unfolding w using r(2) services_loop_stuck [OF pol _ assms(4)] by simp
  qed
  moreover have "polls_served p r" if "\<forall>r \<in> set (vnodes p). start_local_rank (objs p ! r) = 0" "r \<in> set (vnodes p)" for r
    using that by (force simp: polls_served_def served_def listens_def)
  moreover have "\<not> polls_served p r" if r: "r \<in> set (vnodes p)" "start_local_rank (objs p ! r) > 0" "tp_size (objs p ! r) > 0"
    and one: "\<forall>r' \<in> set (vnodes p). node_ip (objs p ! r') = node_ip (objs p ! r) \<longrightarrow> r' = r" for r
  proof
    assume ps: "polls_served p r"
    obtain b where b: "tensor_store_port (objs p ! r) = Some b" using r(1) assms(3) by auto
    then have "served p (node_ip (objs p ! r)) (b + int 0)" using ps r(3) unfolding polls_served_def by (metis zero_less_nat_eq)
    with one b r(2) show False by (auto simp: served_def listens_def)
  qed
  ultimately show ?thesis by blast
qed

text \<open>
  A node on GPU 0 of its machine, for which the wait returns, and one on GPU 1, for which it never does.
\<close>

definition one_node :: "int \<Rightarrow> pipeline" where
  "one_node gpu = (Pipeline_init 0)\<lparr>objs := [(VNode_init ''a'' gpu 1 0 0 8 8)\<lparr>tensor_store_port := Some 7000, api_server_port := Some 80\<rparr>],
     vnodes := [0]\<rparr>"

definition store_at :: "int \<Rightarrow> env" where
  "store_at q = ready_env\<lparr>ts_reply := (\<lambda>t ip port req. if ip = ''a'' \<and> port = q then Some (response_value READY) else None)\<rparr>"

theorem wait_for_services_ends_witness:
  "(\<exists>p'. wait_for_services (store_at 7000) 1 (one_node 0) = (Inr (), p')) \<and>
   fst (wait_for_services (store_at 7001) 5 (one_node 1)) = Inl Timeout"
proof
  have s0: "served (one_node 0) ip q \<longleftrightarrow> ip = ''a'' \<and> q = 7000" and s1: "served (one_node 1) ip q \<longleftrightarrow> ip = ''a'' \<and> q = 7001" for ip q
    by (auto simp: served_def listens_def one_node_def VNode_init_def)
  have u: "services_up (store_at 7000) 0 (one_node 0)" "services_up (store_at 7001) 0 (one_node 1)"
    unfolding services_up_def s0 s1 by (auto simp: store_at_def ready_env_def)
  note w = wait_for_services_ends [OF _ _ _ u(1), of 1] wait_for_services_ends [OF _ _ _ u(2), of 5]
  show "\<exists>p'. wait_for_services (store_at 7000) 1 (one_node 0) = (Inr (), p')"
    by (rule w(1) [THEN conjunct1, rule_format]) (simp_all add: polls_served_def s0, simp_all add: one_node_def VNode_init_def)
  show "fst (wait_for_services (store_at 7001) 5 (one_node 1)) = Inl Timeout"
    by (rule w(2) [THEN conjunct2, THEN conjunct1, rule_format]) (simp_all add: polls_served_def s1, simp_all add: one_node_def VNode_init_def)
qed

end
