(* ===== verification/Cluster.thy ===== *)
theory Cluster
  imports Pipeline
begin

text \<open>
  The cluster of pipelines of \<^verbatim>\<open>GlobalServer/VNode.py\<close> (class \<open>Cluster\<close>): creation of pipelines,
  shutdown, removal, and the replacement of nodes in the pipelines that use them. Pipelines are
  objects: requests in flight hold on to the pipeline they were sent to while the list of the
  cluster changes. So the objects live in a store, and the list holds their positions in it. The
  tasks of a thread pool run one after the other, each on its own pipeline.
\<close>

section \<open>State and operations\<close>

record cluster =
  pls :: "pipeline list"
  pipelines :: "nat list"
  cl_mode :: string

definition Cluster_init :: cluster where
  "Cluster_init = \<lparr>pls = [], pipelines = [], cl_mode = ''default''\<rparr>"

abbreviation the_pipeline :: "cluster \<Rightarrow> nat \<Rightarrow> pipeline" where
  "the_pipeline c r \<equiv> pls c ! r"

text \<open>A call of a method of the pipeline object \<open>r\<close>.\<close>

definition on_pipeline :: "nat \<Rightarrow> (pipeline, 'a) proc \<Rightarrow> (cluster, 'a) proc" where
  "on_pipeline r m c = (case m (pls c ! r) of (res, p) \<Rightarrow> (res, c\<lparr>pls := (pls c)[r := p]\<rparr>))"

definition required_keys_present :: "config \<Rightarrow> bool" where
  "required_keys_present cfg \<longleftrightarrow> cfg_model_name cfg \<noteq> None \<and> cfg_total_num_layers cfg \<noteq> None \<and>
     cfg_pp_layer_partition cfg \<noteq> None \<and> cfg_parallel_strategy cfg \<noteq> None"

definition is_pair :: "mapping_entry \<Rightarrow> bool" where
  "is_pair m = (case m of Auto _ _ \<Rightarrow> True | Manual _ _ _ \<Rightarrow> False | OtherLength _ \<Rightarrow> False)"

text \<open>
  \<open>create_pipeline\<close>: a pipeline whose initialisation raises is dropped. The message that is logged
  at the end unpacks every entry of the mapping into two values.
\<close>

definition create_pipeline ::
  "env \<Rightarrow> nat \<Rightarrow> nat \<Rightarrow> mapping_entry list \<Rightarrow> config \<Rightarrow> py_float \<Rightarrow> (cluster, unit) proc" where
  "create_pipeline e fuel t node_layer_mapping cfg throughput =
     thenS (liftE (assertE (required_keys_present cfg) ValueError))
    (thenS (modS (\<lambda>c. if cfg_mode cfg = Some ''hexgen'' then c\<lparr>cl_mode := ''hexgen''\<rparr> else c))
    (case initialize_pipeline e fuel node_layer_mapping cfg throughput (Pipeline_init t) of
       (Inl err, _) \<Rightarrow> raiseS err
     | (Inr _, p) \<Rightarrow>
         thenS (modS (\<lambda>c. c\<lparr>pls := pls c @ [p], pipelines := pipelines c @ [length (pls c)]\<rparr>))
           (liftE (assertE (list_all is_pair node_layer_mapping) ValueError))))"

definition stop_all_pipelines :: "env \<Rightarrow> (cluster, unit) proc" where
  "stop_all_pipelines e =
     bindS (getS pipelines) (\<lambda>rs. forS rs (\<lambda>r. ignoreS (on_pipeline r (stop_pipeline e))))"

definition remove_pipelines :: "int list \<Rightarrow> (cluster, unit) proc" where
  "remove_pipelines remove_pipeline_indices =
     bindS (getS (\<lambda>c. zip [0..<length (pipelines c)] (pipelines c))) (\<lambda>ips.
     thenS (forS ips (\<lambda>(i, r). bindS (getS (\<lambda>c. is_ready (the_pipeline c r))) (\<lambda>ready.
        liftE (assertE (int i \<in> set remove_pipeline_indices \<longrightarrow> \<not> ready) AssertionError))))
      (modS (\<lambda>c. c\<lparr>pipelines := map snd (filter (\<lambda>(i, r). int i \<notin> set remove_pipeline_indices) ips)\<rparr>)))"

definition uses_node :: "pipeline \<Rightarrow> string \<Rightarrow> bool" where
  "uses_node p ip \<longleftrightarrow> list_ex (\<lambda>v. node_ip v = ip) (nodes_of p)"

definition stop_pipeline_include_node_ip :: "env \<Rightarrow> string \<Rightarrow> (cluster, unit) proc" where
  "stop_pipeline_include_node_ip e ip =
     bindS (getS (\<lambda>c. filter (\<lambda>r. uses_node (the_pipeline c r) ip) (pipelines c))) (\<lambda>rs.
     thenS (forS rs (\<lambda>r. ignoreS (on_pipeline r (stop_pipeline e))))
       (modS (\<lambda>c. c\<lparr>pipelines := foldl (\<lambda>ps r. remove1 r ps) (pipelines c) rs\<rparr>)))"

definition cluster_switch_node :: "env \<Rightarrow> nat \<Rightarrow> string \<Rightarrow> string \<Rightarrow> (cluster, unit) proc" where
  "cluster_switch_node e fuel old_node_ip new_node_ip =
     bindS (getS (\<lambda>c. find (\<lambda>r. uses_node (the_pipeline c r) old_node_ip) (pipelines c))) (\<lambda>target.
     case target of None \<Rightarrow> raiseS ValueError
     | Some r \<Rightarrow> on_pipeline r (switch_node e fuel old_node_ip new_node_ip))"

text \<open>The switches of each pipeline, under its position in the cluster's list.\<close>

definition add_switch :: "nat \<Rightarrow> string \<times> string \<Rightarrow> (nat, (string \<times> string) list) dict \<Rightarrow> (nat, (string \<times> string) list) dict" where
  "add_switch i pair m = dict_set i ((case dict_get m i of None \<Rightarrow> [] | Some ps \<Rightarrow> ps) @ [pair]) m"

definition pipeline_switch_map :: "cluster \<Rightarrow> (string \<times> string) list \<Rightarrow> (nat, (string \<times> string) list) dict" where
  "pipeline_switch_map c switch_map =
     foldl (\<lambda>m pair. foldl (\<lambda>m i. if uses_node (the_pipeline c (pipelines c ! i)) (fst pair) then add_switch i pair m else m)
       m [0..<length (pipelines c)]) [] switch_map"

definition cluster_switch_nodes :: "env \<Rightarrow> nat \<Rightarrow> string list \<Rightarrow> string list \<Rightarrow> (cluster, unit) proc" where
  "cluster_switch_nodes e fuel old_node_ips new_node_ips =
     (if length old_node_ips \<noteq> length new_node_ips then raiseS ValueError
      else bindS (getS (\<lambda>c. pipeline_switch_map c (zip old_node_ips new_node_ips))) (\<lambda>m.
        if m = [] then raiseS ValueError
        else forS m (\<lambda>(i, pairs). bindS (getS (\<lambda>c. pipelines c ! i)) (\<lambda>r.
          ignoreS (on_pipeline r (switch_nodes e fuel pairs))))))"

section \<open>Lemmas: the API address and the number of flying requests\<close>

text \<open>
  No operation of a pipeline changes the number of its requests in flight, and none loses the API
  address: \<open>b\<close> tells whether there is one.
\<close>

definition stable :: "bool \<Rightarrow> int \<Rightarrow> pipeline \<Rightarrow> bool" where
  "stable b n p \<longleftrightarrow> flying_requests p = n \<and> (b \<longrightarrow> api_server_host p \<noteq> None)"

lemma keeps_stable:
  assumes "\<And>xs m. keeps (frame xs m) op"
  shows "keeps (stable b n) (op :: (pipeline, 'a) proc)"
proof (rule keepsI)
  fix p :: pipeline
  assume l: "stable b n p"
  obtain r p' where op: "op p = (r, p')" by (cases "op p")
  from l more_eqD [OF frameD(2) [OF assms op]] show "stable b n (snd (op p))" by (simp add: stable_def op)
qed

lemma operations_stable [keeps_intros]:
  "keeps (stable b n) (start_tensor_store port cfg pp r)"
  "keeps (stable b n) (start_api_server port cfg nrm ra r)"
  "keeps (stable b n) (check_tensor_store_status e r)"
  "keeps (stable b n) (check_api_server_status e r)"
  "keeps (stable b n) (stop_tensor_store e r)"
  "keeps (stable b n) (assert_tensor_store_stopped e r)"
  "keeps (stable b n) (stop_api_server e q r)"
  "keeps (stable b n) (do_action a)"
  "keeps (stable b n) (ask (g :: nat \<Rightarrow> 'a))"
  by (rule keeps_stable, rule keeps_intros)+

lemma keeps_stable_fields [keeps_intros]:
  "keeps (stable b n) (update_node r f)"
  "keeps (stable b n) (modS (\<lambda>p. p\<lparr>is_ready := x\<rparr>))"
  "keeps (stable b n) (modS (\<lambda>p. p\<lparr>ray_port := y, ray_head_ip := z\<rparr>))"
  "keeps (stable b n) (modS (\<lambda>p. p\<lparr>api_server_host := Some h, pl_api_server_port := q, is_ready := x\<rparr>))"
  "keeps (stable b n) (replace_node i v)"
  "keeps (stable b n) (append_node v)"
  "keeps (stable b n) generate_node_rank_mapping"
  "keeps (stable b n) set_api_from_first"
  by (simp_all add: keeps_def stable_def generate_node_rank_mapping_def update_node_def replace_node_run
      append_node_def set_api_from_first_def)

lemma keeps_stable_loops [keeps_intros]:
  "keeps (stable b n) (stores_loop e fuel rs bs)"
  "keeps (stable b n) (services_loop e fuel rs bs api)"
  by (induction fuel arbitrary: bs api) (auto intro!: keeps_intros)

lemma keeps_stable_replace [keeps_intros]: "keeps (stable b n) (replace_nodes targets pairs)"
  by (induction targets pairs rule: replace_nodes.induct) (auto intro!: keeps_intros)

lemma keeps_stable_create [keeps_intros]: "keeps (stable b n) (create_vnodes cfg layers rank start ranks ms)"
  by (induction cfg layers rank start ranks ms rule: create_vnodes.induct) (auto intro!: keeps_intros)

lemma keeps_stable_pipeline [keeps_intros]:
  "keeps (stable b n) (start_ray_cluster e port)"
  "keeps (stable b n) (set_tp_size e fuel i)"
  "keeps (stable b n) (switch_over e r op h q)"
  by (auto simp: start_ray_cluster_def set_tp_size_def switch_over_def Let_def intro!: keeps_intros)

lemma keeps_stable_parts [keeps_intros]:
  "keeps (stable b n) (bring_up_node e fuel sp oh op rp new)"
  "keeps (stable b n) (bring_up_nodes e fuel sps oh op rp news)"
  "keeps (stable b n) (launch_pipeline e fuel cfg)"
  by (auto simp: bring_up_node_def bring_up_nodes_def start_new_api_def launch_pipeline_def wait_for_services_def
      intro!: keeps_intros)

lemma keeps_stable_build [keeps_intros]: "keeps (stable b n) (build_pipeline ms cfg thr)"
proof -
  have "stable b n p \<Longrightarrow> stable b n (p\<lparr>pl_config := c\<rparr>)"
    "stable b n p \<Longrightarrow> stable b n (p\<lparr>mode := m, model_name := name, total_layers := l, ideal_throughput := thr,
       max_batch_size := mb\<rparr>)" for p c m name l mb
    by (simp_all add: stable_def)
  then show ?thesis by (auto simp: build_pipeline_def intro!: keeps_intros)
qed

lemma keeps_stable_operations [keeps_intros]:
  "keeps (stable b n) (switch_node e fuel old_ip new_ip)"
  "keeps (stable b n) (switch_nodes e fuel switch_pairs)"
  "keeps (stable b n) (stop_pipeline e)"
  "keeps (stable b n) (initialize_pipeline e fuel ms cfg thr)"
  by (auto simp: switch_node_def switch_nodes_def stop_pipeline_def initialize_pipeline_def split: option.split
      intro!: keeps_intros)

definition addressed :: "pipeline \<Rightarrow> bool" where
  "addressed p \<longleftrightarrow> api_server_host p \<noteq> None"

lemma keeps_addressed: "(\<And>n. keeps (stable True n) m) \<Longrightarrow> keeps addressed m"
  by (auto simp: keeps_def stable_def addressed_def)

section \<open>Lemmas: operations of the cluster\<close>

definition pipeline_wf :: "pipeline \<Rightarrow> bool" where
  "pipeline_wf p \<longleftrightarrow> layout_ok p \<and> addressed p"

lemma keeps_pipeline_wf:
  "keeps pipeline_wf (switch_node e fuel old_ip new_ip)"
  "keeps pipeline_wf (switch_nodes e fuel switch_pairs)"
  "keeps pipeline_wf (stop_pipeline e)"
proof -
  have "keeps layout_ok (stop_pipeline e)" by (auto simp: stop_pipeline_def intro!: keeps_intros)
  then show "keeps pipeline_wf (switch_node e fuel old_ip new_ip)" "keeps pipeline_wf (switch_nodes e fuel switch_pairs)"
    "keeps pipeline_wf (stop_pipeline e)"
    using switch_layout keeps_addressed [OF keeps_stable_operations(1)] keeps_addressed [OF keeps_stable_operations(2)]
      keeps_addressed [OF keeps_stable_operations(3)] by (simp_all add: keeps_def pipeline_wf_def)
qed

text \<open>
  The invariant of the cluster: its list names distinct objects, and each of them is a pipeline
  whose layer ranges tile the model and that has an API address.
\<close>

definition cluster_wf :: "cluster \<Rightarrow> bool" where
  "cluster_wf c \<longleftrightarrow> distinct (pipelines c) \<and> (\<forall>r \<in> set (pipelines c). r < length (pls c) \<and> pipeline_wf (the_pipeline c r))"

lemma keeps_on_pipeline [keeps_intros]:
  assumes "keeps pipeline_wf m"
  shows "keeps cluster_wf (on_pipeline r m)"
proof (rule keepsI)
  fix c
  assume c: "cluster_wf c"
  obtain res p where m: "m (pls c ! r) = (res, p)" by (cases "m (pls c ! r)")
  with assms have "pipeline_wf (pls c ! r) \<Longrightarrow> pipeline_wf p" by (auto simp: keeps_def dest: spec [of _ "pls c ! r"])
  with c show "cluster_wf (snd (on_pipeline r m c))"
    by (auto simp: cluster_wf_def on_pipeline_def m nth_update_if)
qed

lemma foldl_remove1: "distinct ps \<Longrightarrow> foldl (\<lambda>ps r. remove1 r ps) ps rs = filter (\<lambda>r. r \<notin> set rs) ps"
proof (induction rs arbitrary: ps)
  case (Cons r rs)
  then show ?case by (auto simp: distinct_remove1_removeAll distinct_filter removeAll_filter_not_eq intro!: filter_cong)
qed simp

text \<open>
  The numbers of flying requests of the pipeline objects: an operation of the cluster keeps those
  of the existing objects and starts new ones at zero; the list of the cluster names objects.
\<close>

definition flies :: "int list \<Rightarrow> cluster \<Rightarrow> bool" where
  "flies ns c \<longleftrightarrow> (\<exists>k. map flying_requests (pls c) = ns @ replicate k 0) \<and> (\<forall>r \<in> set (pipelines c). r < length (pls c))"

lemma keeps_flies_on_pipeline [keeps_intros]:
  assumes "\<And>n. keeps (stable False n) m"
  shows "keeps (flies ns) (on_pipeline r m)"
proof (rule keepsI)
  fix c
  assume c: "flies ns c"
  obtain res p where m: "m (pls c ! r) = (res, p)" by (cases "m (pls c ! r)")
  with assms [of "flying_requests (pls c ! r)"] have "flying_requests p = flying_requests (pls c ! r)"
    by (auto simp: keeps_def stable_def dest: spec [of _ "pls c ! r"])
  then have "map flying_requests ((pls c)[r := p]) = map flying_requests (pls c)"
    by (cases "r < length (pls c)") (simp_all add: map_update list_update_same_conv list_update_beyond)
  with c show "flies ns (snd (on_pipeline r m c))" by (simp add: flies_def on_pipeline_def m)
qed

lemma flies_pipelines: "flies ns c \<Longrightarrow> set rs \<subseteq> set (pipelines c) \<Longrightarrow> flies ns (c\<lparr>pipelines := rs\<rparr>)"
  by (auto simp: flies_def)

lemma set_foldl_remove1: "set (foldl (\<lambda>ps r. remove1 r ps) ps rs) \<subseteq> set ps"
  by (induction rs arbitrary: ps) (auto dest!: subsetD [OF set_remove1_subset] subsetD)

lemma keeps_flies_stops [keeps_intros]:
  "keeps (flies ns) (stop_all_pipelines e)"
  "keeps (flies ns) (stop_pipeline_include_node_ip e ip)"
  "keeps (flies ns) (cluster_switch_node e fuel old_ip new_ip)"
  "keeps (flies ns) (cluster_switch_nodes e fuel old_ips new_ips)"
  using flies_pipelines [OF _ set_foldl_remove1]
  by (auto simp: stop_all_pipelines_def stop_pipeline_include_node_ip_def cluster_switch_node_def
      cluster_switch_nodes_def split: option.split intro!: keeps_intros)

text \<open>The checks of a removal change nothing, so the list of the cluster is cut down or kept.\<close>

lemma remove_pipelines_run:
  "\<exists>rs. set rs \<subseteq> set (pipelines c) \<and> (distinct (pipelines c) \<longrightarrow> distinct rs) \<and>
     snd (remove_pipelines is c) = c\<lparr>pipelines := rs\<rparr>"
proof -
  let ?ips = "zip [0..<length (pipelines c)] (pipelines c)"
  let ?check = "forS ?ips (\<lambda>(i, r). bindS (getS (\<lambda>c. is_ready (the_pipeline c r))) (\<lambda>ready.
      liftE (assertE (int i \<in> set is \<longrightarrow> \<not> ready) AssertionError)))"
  have k: "keeps ((=) c) ?check" by (auto intro!: keeps_intros)
  then have c: "snd (?check c) = c" by (auto simp: keeps_def)
  let ?rs = "map snd (filter (\<lambda>(i, r). int i \<notin> set is) ?ips)"
  have "distinct (pipelines c) \<longrightarrow> distinct ?rs"
    by (auto simp: distinct_map inj_on_def distinct_zipI1 in_set_zip nth_eq_iff_index_eq)
  moreover have "set ?rs \<subseteq> set (pipelines c)" by (auto dest: set_zip_rightD)
  moreover have "snd (remove_pipelines is c) \<in> {c, c\<lparr>pipelines := ?rs\<rparr>}"
    using c by (cases "?check c") (auto simp: remove_pipelines_def thenS_def bindS_def split: sum.splits)
  moreover have "c = c\<lparr>pipelines := pipelines c\<rparr>" by simp
  ultimately show ?thesis by (metis insertE singletonD subset_refl)
qed

lemma keeps_remove [keeps_intros]:
  "keeps cluster_wf (remove_pipelines is)" "keeps (flies ns) (remove_pipelines is)"
proof -
  have "cluster_wf (c\<lparr>pipelines := rs\<rparr>)"
    if "cluster_wf c" "set rs \<subseteq> set (pipelines c)" "distinct (pipelines c) \<longrightarrow> distinct rs" for c rs
    using that by (auto simp: cluster_wf_def)
  with remove_pipelines_run [of _ "is"] show "keeps cluster_wf (remove_pipelines is)"
    by (auto simp: keeps_def) metis
  from remove_pipelines_run [of _ "is"] flies_pipelines show "keeps (flies ns) (remove_pipelines is)"
    by (auto simp: keeps_def) metis
qed

lemma keeps_flies_create [keeps_intros]: "keeps (flies ns) (create_pipeline e fuel t ms cfg thr)"
proof -
  have "flying_requests p = 0" if "initialize_pipeline e fuel ms cfg thr (Pipeline_init t) = (res, p)" for res p
    using keepsD [OF keeps_stable_operations(4) [of False 0 e fuel ms cfg thr], of "Pipeline_init t" res p] that
    by (simp add: stable_def Pipeline_init_def)
  moreover have "flies ns (c\<lparr>pls := pls c @ [p], pipelines := pipelines c @ [length (pls c)]\<rparr>)"
    if "flies ns c" "flying_requests p = 0" for c p
    using that by (auto simp: flies_def replicate_append_same intro!: exI [of _ "Suc _"])
  moreover have "flies ns c \<Longrightarrow> flies ns (c\<lparr>cl_mode := x\<rparr>)" for c x by (simp add: flies_def)
  ultimately show ?thesis
    by (auto simp: create_pipeline_def split: prod.split sum.split intro!: keeps_intros)
qed

lemma keeps_stop_all [keeps_intros]: "keeps cluster_wf (stop_all_pipelines e)"
  by (auto simp: stop_all_pipelines_def intro!: keeps_intros keeps_pipeline_wf)

lemma keeps_switches [keeps_intros]:
  "keeps cluster_wf (cluster_switch_node e fuel old_ip new_ip)"
  "keeps cluster_wf (cluster_switch_nodes e fuel old_ips new_ips)"
  by (auto simp: cluster_switch_node_def cluster_switch_nodes_def split: option.split
      intro!: keeps_intros keeps_pipeline_wf)

lemma keeps_stop_include [keeps_intros]: "keeps cluster_wf (stop_pipeline_include_node_ip e ip)"
proof -
  have "cluster_wf c \<Longrightarrow> cluster_wf (c\<lparr>pipelines := foldl (\<lambda>ps r. remove1 r ps) (pipelines c) rs\<rparr>)" for rs c
    by (auto simp: cluster_wf_def foldl_remove1)
  then show ?thesis
    by (auto simp: stop_pipeline_include_node_ip_def intro!: keeps_intros keeps_pipeline_wf)
qed

lemma initialize_pipeline_wf:
  assumes "initialize_pipeline e fuel ms cfg thr (Pipeline_init t) = (Inr (), p)"
    and "\<forall>m \<in> set ms. 0 \<le> entry_count m"
  shows "pipeline_wf p" and "is_ready p"
proof -
  from assms(1) obtain q where q: "build_pipeline ms cfg thr (Pipeline_init t) = (Inr (), q)"
    and l: "launch_pipeline e fuel cfg q = (Inr (), p)"
    by (auto simp: initialize_pipeline_def thenS_Inr_iff)
  have "layout_ok q" using build_pipeline_run [OF q _ _ assms(2)] by (simp add: Pipeline_init_def)
  from same_nodes_layout [OF launch_pipeline_run(1) [OF l] this] launch_pipeline_run(2,3) [OF l]
  show "pipeline_wf p" "is_ready p" by (simp_all add: pipeline_wf_def addressed_def)
qed

lemma keeps_create:
  assumes "\<forall>m \<in> set ms. 0 \<le> entry_count m"
  shows "keeps cluster_wf (create_pipeline e fuel t ms cfg thr)"
proof -
  have "cluster_wf c \<Longrightarrow> cluster_wf (c\<lparr>cl_mode := x\<rparr>)" for c x
    by (auto simp: cluster_wf_def)
  moreover have "cluster_wf c \<Longrightarrow> cluster_wf (c\<lparr>pls := pls c @ [p], pipelines := pipelines c @ [length (pls c)]\<rparr>)"
    if "pipeline_wf p" for p c
    using that by (auto simp: cluster_wf_def nth_append)
  ultimately show ?thesis
    using initialize_pipeline_wf [OF _ assms, of e fuel cfg thr t]
    by (auto simp: create_pipeline_def split: prod.split sum.split intro!: keeps_intros)
qed

section \<open>Properties\<close>

datatype cluster_op =
    Create nat "mapping_entry list" config py_float
  | StopAll
  | Remove "int list"
  | StopNode string
  | Switch string string
  | SwitchMany "string list" "string list"

fun run_op :: "env \<times> nat \<times> cluster_op \<Rightarrow> (cluster, unit) proc" where
  "run_op (e, fuel, Create t ms cfg thr) = create_pipeline e fuel t ms cfg thr"
| "run_op (e, fuel, StopAll) = stop_all_pipelines e"
| "run_op (e, fuel, Remove is) = remove_pipelines is"
| "run_op (e, fuel, StopNode ip) = stop_pipeline_include_node_ip e ip"
| "run_op (e, fuel, Switch old_ip new_ip) = cluster_switch_node e fuel old_ip new_ip"
| "run_op (e, fuel, SwitchMany old_ips new_ips) = cluster_switch_nodes e fuel old_ips new_ips"

fun op_ok :: "env \<times> nat \<times> cluster_op \<Rightarrow> bool" where
  "op_ok (e, fuel, Create t ms cfg thr) \<longleftrightarrow> (\<forall>m \<in> set ms. 0 \<le> entry_count m)"
| "op_ok _ \<longleftrightarrow> True"

lemma keeps_flies_op: "keeps (flies ns) (run_op op)"
  by (cases op rule: run_op.cases) (auto intro!: keeps_intros)

lemma keeps_run_op: "op_ok op \<Longrightarrow> keeps cluster_wf (run_op op)"
  by (cases op rule: run_op.cases) (auto intro!: keeps_intros keeps_create)

text \<open>
  C11. The cluster stays well formed. After any sequence of operations on a new cluster, in any
  environment, and whether the operations return or raise, the cluster lists distinct pipelines,
  the layer ranges of each of them tile the model's layers with the ranks in order, and each has
  an API address. The only condition is that no mapping has a negative number of layers.
\<close>

theorem cluster_invariant:
  assumes "\<forall>op \<in> set ops. op_ok op"
  shows "cluster_wf (foldl (\<lambda>c op. snd (run_op op c)) Cluster_init ops)"
  using assms
proof (induction ops rule: rev_induct)
  case (snoc op ops)
  then show ?case using keeps_run_op [of op] by (simp add: keeps_def)
qed (simp add: cluster_wf_def Cluster_init_def)

theorem cluster_invariant_witness:
  "cluster_wf (foldl (\<lambda>c op. snd (run_op op c)) Cluster_init
     [(ready_env, 2, Create 0 [Auto ''a'' 5, Auto ''b'' 3] ready_cfg 1), (ready_env, 2, Switch ''b'' ''a''),
      (ready_env, 2, StopNode ''a'')])"
  by (rule cluster_invariant) simp

text \<open>
  The outcome of a creation. \<open>create_pipeline\<close> returns exactly when the four required keys are
  present, the initialisation succeeds, and every entry of the mapping is a pair. The cluster
  gains a pipeline exactly when the first two hold: with an entry that gives the first GPU, the
  pipeline is started, listed and ready, and then the call raises \<open>ValueError\<close>.
\<close>

theorem create_pipeline_outcome:
  "(fst (create_pipeline e fuel t ms cfg thr c) = Inr () \<longleftrightarrow>
      required_keys_present cfg \<and> fst (initialize_pipeline e fuel ms cfg thr (Pipeline_init t)) = Inr () \<and>
      list_all is_pair ms) \<and>
   pipelines (snd (create_pipeline e fuel t ms cfg thr c)) = pipelines c @
     (if required_keys_present cfg \<and> fst (initialize_pipeline e fuel ms cfg thr (Pipeline_init t)) = Inr ()
      then [length (pls c)] else []) \<and>
   pls (snd (create_pipeline e fuel t ms cfg thr c)) = pls c @
     (if required_keys_present cfg \<and> fst (initialize_pipeline e fuel ms cfg thr (Pipeline_init t)) = Inr ()
      then [snd (initialize_pipeline e fuel ms cfg thr (Pipeline_init t))] else [])"
proof (cases "initialize_pipeline e fuel ms cfg thr (Pipeline_init t)")
  case (Pair res p)
  then show ?thesis
    by (cases res) (auto simp: create_pipeline_def thenS_def bindS_def assertE_def)
qed

definition halted :: "pipeline \<Rightarrow> bool" where
  "halted p \<longleftrightarrow> \<not> is_ready p"

lemma keeps_halted:
  assumes "\<And>xs m. keeps (frame xs m) op"
  shows "keeps halted (op :: (pipeline, 'a) proc)"
proof (rule keepsI)
  fix p :: pipeline
  assume l: "halted p"
  obtain r p' where op: "op p = (r, p')" by (cases "op p")
  from l more_eqD(3) [OF frameD(2) [OF assms op]] show "halted (snd (op p))" by (simp add: op halted_def)
qed

lemma stop_pipeline_halted:
  "halted (snd (stop_pipeline e p))" "same_nodes p (snd (stop_pipeline e p))"
proof -
  have "keeps halted (stop_tensor_store e r)" "keeps halted (stop_api_server e q r)" for q r
    by (rule keeps_halted, rule keeps_intros)+
  then have "keeps halted (bindS (getS vnodes) (\<lambda>rs.
      if rs = [] then raiseS ValueError
      else thenS (forS rs (\<lambda>r. ignoreS (stop_tensor_store e r))) (ignoreS (stop_api_server e None (hd rs)))))"
    by (auto intro!: keeps_intros)
  then show "halted (snd (stop_pipeline e p))"
    unfolding stop_pipeline_def thenS_def [of "modS _"] by (rule keeps_after [rotated]) (simp add: halted_def)
  have "keeps (same_nodes p) (stop_tensor_store e r)" "keeps (same_nodes p) (stop_api_server e q r)" for q r
    by (rule keeps_same_nodes, rule keeps_intros)+
  then have "keeps (same_nodes p) (stop_pipeline e)"
    by (auto simp: stop_pipeline_def intro!: keeps_intros)
  then show "same_nodes p (snd (stop_pipeline e p))" by (simp add: keeps_def same_nodes_def)
qed

lemma on_pipeline_run:
  "ignoreS (on_pipeline r m) c = (Inr (), c\<lparr>pls := (pls c)[r := snd (m (pls c ! r))]\<rparr>)"
  by (simp add: on_pipeline_def case_prod_unfold)

text \<open>Calling a method on several pipelines, each named once.\<close>

lemma on_pipelines_run:
  "distinct rs \<Longrightarrow> \<forall>r \<in> set rs. r < length (pls c) \<Longrightarrow>
   \<exists>ps. forS rs (\<lambda>r. ignoreS (on_pipeline r (m r))) c = (Inr (), c\<lparr>pls := ps\<rparr>) \<and> length ps = length (pls c) \<and>
     (\<forall>k. ps ! k = (if k \<in> set rs then snd (m k (pls c ! k)) else pls c ! k))"
proof (induction rs arbitrary: c)
  case (Cons r rs)
  let ?c = "c\<lparr>pls := (pls c)[r := snd (m r (pls c ! r))]\<rparr>"
  from Cons.IH [of ?c] Cons.prems obtain ps where ps:
    "forS rs (\<lambda>r. ignoreS (on_pipeline r (m r))) ?c = (Inr (), ?c\<lparr>pls := ps\<rparr>)" "length ps = length (pls ?c)"
    "\<forall>k. ps ! k = (if k \<in> set rs then snd (m k (pls ?c ! k)) else pls ?c ! k)" by (auto simp del: run_simps)
  have "forS (r # rs) (\<lambda>r. ignoreS (on_pipeline r (m r))) c = (Inr (), c\<lparr>pls := ps\<rparr>)"
    using ps(1) by (simp add: thenS_def bindS_def on_pipeline_run del: run_simps)
  moreover have "ps ! k = (if k \<in> set (r # rs) then snd (m k (pls c ! k)) else pls c ! k)" for k
    using ps(3) Cons.prems by (cases "k = r") auto
  ultimately show ?case using ps(2) by (intro exI [of _ ps]) (simp del: run_simps)
next
  case Nil
  show ?case by (intro exI [of _ "pls c"]) simp
qed

text \<open>
  C18. Stopping the pipelines of a node. \<open>stop_pipeline_include_node_ip\<close> always returns; afterwards the
  cluster lists exactly the pipelines that do not use the address, in their order and untouched,
  and the objects of the removed pipelines are not ready, so that a request that still holds one
  of them finds it stopped.
\<close>

theorem stop_node_removes_pipelines:
  assumes "cluster_wf c"
  shows "\<exists>c'. stop_pipeline_include_node_ip e ip c = (Inr (), c') \<and>
     pipelines c' = filter (\<lambda>r. \<not> uses_node (the_pipeline c r) ip) (pipelines c) \<and>
     (\<forall>r \<in> set (pipelines c'). the_pipeline c' r = the_pipeline c r) \<and>
     (\<forall>r \<in> set (pipelines c) - set (pipelines c'). \<not> is_ready (the_pipeline c' r))"
proof -
  let ?rs = "filter (\<lambda>r. uses_node (the_pipeline c r) ip) (pipelines c)"
  have d: "distinct (pipelines c)" "\<forall>r \<in> set ?rs. r < length (pls c)" using assms by (auto simp: cluster_wf_def)
  from on_pipelines_run [of ?rs c "\<lambda>_. stop_pipeline e"] d obtain ps where
    ps: "forS ?rs (\<lambda>r. ignoreS (on_pipeline r (stop_pipeline e))) c = (Inr (), c\<lparr>pls := ps\<rparr>)"
      "\<forall>k. ps ! k = (if k \<in> set ?rs then snd (stop_pipeline e (pls c ! k)) else pls c ! k)"
    by (auto simp del: run_simps)
  let ?c = "c\<lparr>pls := ps, pipelines := foldl (\<lambda>ps r. remove1 r ps) (pipelines c) ?rs\<rparr>"
  have "stop_pipeline_include_node_ip e ip c = (Inr (), ?c)"
    using ps(1) by (simp add: stop_pipeline_include_node_ip_def thenS_def [of "forS _ _"] bindS_def [of "forS _ _"]
        del: run_simps(5-))
  moreover have f: "pipelines ?c = filter (\<lambda>r. \<not> uses_node (the_pipeline c r) ip) (pipelines c)"
    using d(1) by (auto simp: foldl_remove1 intro!: filter_cong)
  moreover have "the_pipeline ?c r = the_pipeline c r" if "r \<in> set (pipelines ?c)" for r
    using that ps(2) unfolding f by simp
  moreover have "\<not> is_ready (the_pipeline ?c r)" if "r \<in> set (pipelines c) - set (pipelines ?c)" for r
    using that ps(2) stop_pipeline_halted(1) [of e] unfolding f by (simp add: halted_def)
  ultimately show ?thesis by blast
qed

theorem stop_node_removes_pipelines_witness:
  "\<exists>c'. stop_pipeline_include_node_ip ready_env ''a'' \<lparr>pls = [ready_pipeline], pipelines = [0], cl_mode = ''default''\<rparr>
       = (Inr (), c') \<and> pipelines c' = []"
proof -
  have "cluster_wf \<lparr>pls = [ready_pipeline], pipelines = [0], cl_mode = ''default''\<rparr>"
    by (simp add: cluster_wf_def pipeline_wf_def addressed_def layout_ok_def VNode_init_def layer_range_def
        Pipeline_init_def ready_pipeline_def)
  from stop_node_removes_pipelines [OF this, of ready_env "''a''"] show ?thesis
    by (auto simp: uses_node_def ready_pipeline_def VNode_init_def)
qed

lemma add_switches:
  "dict_get (foldl (\<lambda>m i. if q i then add_switch i pair m else m) m [0..<n]) i =
     (if i < n \<and> q i then Some ((case dict_get m i of None \<Rightarrow> [] | Some ps \<Rightarrow> ps) @ [pair]) else dict_get m i)"
  by (induction n) (auto simp: add_switch_def map_of_dict_set)

text \<open>
  The grouping of switches. The map that \<open>switch_nodes\<close> builds assigns to a pipeline of the
  cluster exactly the requested switches whose old address the pipeline uses, in the order of
  the request, and has no entry for a pipeline that uses none of them.
\<close>

theorem pipeline_switch_map_spec:
  "dict_get (pipeline_switch_map c sm) i =
     (let ps = filter (\<lambda>pair. i < length (pipelines c) \<and> uses_node (the_pipeline c (pipelines c ! i)) (fst pair)) sm in
      if ps = [] then None else Some ps)"
proof (induction sm rule: rev_induct)
  case (snoc pair sm)
  have "dict_get (pipeline_switch_map c (sm @ [pair])) i =
      (if i < length (pipelines c) \<and> uses_node (the_pipeline c (pipelines c ! i)) (fst pair)
       then Some ((case dict_get (pipeline_switch_map c sm) i of None \<Rightarrow> [] | Some ps \<Rightarrow> ps) @ [pair])
       else dict_get (pipeline_switch_map c sm) i)"
    unfolding pipeline_switch_map_def by (simp add: add_switches)
  with snoc show ?case by (auto simp: Let_def)
qed (simp add: pipeline_switch_map_def)

end
