(* ===== verification/RequestHandler.thy ===== *)
theory RequestHandler
  imports Prelude
begin

text \<open>
  Requests and the two clients of \<^verbatim>\<open>GlobalServer/request_handler.py\<close>: \<open>async_request\<close>, which resumes a
  generation that was interrupted (migration), and \<open>async_request_without_migration\<close>, which starts
  it again (re-routing). What comes back from the inference server is given as a response: an
  error status, a failed connection, or a stream of lines. A line is given as what the code
  distinguishes after stripping, decoding and parsing it; a line with choices carries the text of
  the first choice, whether it has a finish reason, and the time at which it was processed.
  Error messages are shortened; times are exact rationals.
\<close>

section \<open>Data\<close>

record request_input =
  prompt :: string
  prompt_len :: int
  expected_output_len :: int
  api_url :: string
  model :: string
  ignore_eos :: bool

record request_output =
  generated_text :: string
  success :: bool
  latency :: py_float
  output_tokens :: int
  ttft :: py_float
  itl :: "py_float list"
  out_prompt_len :: int
  error :: string

definition RequestOutput_init :: request_output where
  "RequestOutput_init = \<lparr>generated_text = '''', success = False, latency = 0, output_tokens = 0, ttft = 0, itl = [],
     out_prompt_len = 0, error = ''''\<rparr>"

record request =
  request_id :: nat
  input :: request_input
  retry_count :: nat
  req_output :: "request_output option"
  sended_at :: "py_float option"
  halted_at :: "py_float option"
  completion_event :: bool

text \<open>\<open>Request.create\<close>: the next number of the global counter.\<close>

definition Request_create :: "nat \<Rightarrow> request_input \<Rightarrow> request \<times> nat" where
  "Request_create request_counter inp =
     (\<lparr>request_id = request_counter, input = inp, retry_count = 0, req_output = None, sended_at = None,
       halted_at = None, completion_event = False\<rparr>, request_counter + 1)"

datatype line =
    Blank
  | DoneMark
  | Malformed
  | NoChoices
  | Choice "string option" bool py_float
  | Drop string

datatype response =
    Http int string
  | Refused string
  | Stream "line list" py_float

section \<open>The stream\<close>

text \<open>
  The output, whether a first chunk was received, and the time of the last one. That time is
  missing when a resumed request was never halted; then the subtraction raises \<open>TypeError\<close>.
\<close>

type_synonym stream_state = "request_output \<times> bool \<times> py_float option"

definition add_text :: "string option \<Rightarrow> request_output \<Rightarrow> request_output" where
  "add_text txt out = (case txt of None \<Rightarrow> out | Some t \<Rightarrow> out\<lparr>generated_text := generated_text out @ t\<rparr>)"

definition count_token :: "bool \<Rightarrow> py_float \<Rightarrow> request_output \<Rightarrow> request_output" where
  "count_token first_chunk_received dt out =
     (if \<not> first_chunk_received then out\<lparr>ttft := dt, output_tokens := output_tokens out + 1\<rparr>
      else out\<lparr>itl := itl out @ [dt], output_tokens := output_tokens out + 1\<rparr>)"

definition finish_choice :: "bool \<Rightarrow> request_output \<Rightarrow> request_output" where
  "finish_choice finished out = (if finished then out\<lparr>output_tokens := int (length (itl out)) + 1\<rparr> else out)"

definition on_choice :: "string option \<Rightarrow> bool \<Rightarrow> py_float \<Rightarrow> py_float \<Rightarrow> request_output \<times> bool \<Rightarrow> request_output" where
  "on_choice txt finished timestamp most_recent st =
     (case st of (out, first_chunk_received) \<Rightarrow>
        finish_choice finished (count_token first_chunk_received (timestamp - most_recent) (add_text txt out)))"

text \<open>
  The loop over the lines: the state when it ends, and the message of the exception that ended
  it, if any. The changes made before an exception stay in the output object.
\<close>

fun stream_loop :: "line list \<Rightarrow> stream_state \<Rightarrow> stream_state \<times> string option" where
  "stream_loop [] st = (st, None)"
| "stream_loop (Blank # ls) st = stream_loop ls st"
| "stream_loop (DoneMark # ls) st = (st, None)"
| "stream_loop (Malformed # ls) st = stream_loop ls st"
| "stream_loop (NoChoices # ls) st = stream_loop ls st"
| "stream_loop (Drop msg # ls) st = (st, Some msg)"
| "stream_loop (Choice txt finished ts # ls) (out, first, recent) =
     (case recent of
        None \<Rightarrow> ((add_text txt out, True, None), Some ''TypeError'')
      | Some r \<Rightarrow> stream_loop ls (on_choice txt finished ts r (out, first), True, Some ts))"

section \<open>The clients\<close>

definition fail :: "string \<Rightarrow> request_output \<Rightarrow> request_output" where
  "fail msg out = out\<lparr>success := False, error := msg\<rparr>"

text \<open>The checks after a complete stream; \<open>check_latency\<close> tells whether the times are compared.\<close>

definition latency_consistent :: "request_output \<Rightarrow> bool" where
  "latency_consistent out \<longleftrightarrow>
     \<bar>ttft out + sum_list (itl out) - latency out\<bar> \<le> max 1 (latency out * (1 / 10))"

definition conclude :: "int \<Rightarrow> py_float \<Rightarrow> bool \<Rightarrow> py_float \<Rightarrow> request_output \<Rightarrow> request_output" where
  "conclude expected sent check_latency end_time out =
     (let out = out\<lparr>success := True, latency := end_time - sent\<rparr> in
      if output_tokens out < expected then fail ''output incomplete'' out
      else if check_latency \<and> \<not> latency_consistent out then fail ''latency consistency check failed'' out
      else out)"

definition receive ::
  "int \<Rightarrow> py_float \<Rightarrow> bool \<Rightarrow> response \<Rightarrow> stream_state \<Rightarrow> request_output" where
  "receive expected sent check_latency resp st =
     (case resp of
        Refused msg \<Rightarrow> fail msg (fst st)
      | Http status text \<Rightarrow> (fst st)\<lparr>error := ''HTTP '' @ str_int status @ '': '' @ text, success := False\<rparr>
      | Stream ls end_time \<Rightarrow>
          (case stream_loop ls st of
             ((out, _, _), Some msg) \<Rightarrow> fail msg out
           | ((out, _, _), None) \<Rightarrow> conclude expected sent check_latency end_time out))"

definition fresh_output :: "request_input \<Rightarrow> request_output" where
  "fresh_output inp = RequestOutput_init\<lparr>out_prompt_len := prompt_len inp\<rparr>"

definition async_request_without_migration :: "py_float \<Rightarrow> request \<Rightarrow> response \<Rightarrow> request_output" where
  "async_request_without_migration sent req resp =
     receive (expected_output_len (input req)) sent True resp (fresh_output (input req), False, Some sent)"

text \<open>
  The payload that is posted; the options that are the same for every request (temperature,
  streaming, usage) are left out. Re-routing always asks for the whole output.
\<close>

record payload =
  pay_model :: string
  pay_prompt :: string
  pay_max_tokens :: int
  pay_ignore_eos :: bool

definition rerouting_payload :: "request_input \<Rightarrow> payload" where
  "rerouting_payload inp = \<lparr>pay_model = model inp, pay_prompt = prompt inp, pay_max_tokens = expected_output_len inp,
     pay_ignore_eos = ignore_eos inp\<rparr>"

text \<open>Prompt and \<open>max_tokens\<close> of the payload of a request that may be a continuation.\<close>

definition continuation :: "request \<Rightarrow> string \<times> int" where
  "continuation req =
     (case req_output req of
        Some out \<Rightarrow> if generated_text out \<noteq> '''' then (prompt (input req) @ generated_text out,
            expected_output_len (input req) - output_tokens out)
          else (prompt (input req), expected_output_len (input req))
      | None \<Rightarrow> (prompt (input req), expected_output_len (input req)))"

definition migration_payload :: "request \<Rightarrow> payload" where
  "migration_payload req = (case continuation req of (p, remaining_tokens) \<Rightarrow>
     \<lparr>pay_model = model (input req), pay_prompt = p, pay_max_tokens = remaining_tokens,
       pay_ignore_eos = ignore_eos (input req)\<rparr>)"

definition resume_state :: "py_float \<Rightarrow> request \<Rightarrow> stream_state" where
  "resume_state sent req =
     (case req_output req of
        Some out \<Rightarrow> (out, True, halted_at req)
      | None \<Rightarrow> (fresh_output (input req), False, Some sent))"

text \<open>\<open>now\<close> is the time at which the client runs, used when no token is left to generate.\<close>

definition async_request :: "py_float \<Rightarrow> py_float \<Rightarrow> request \<Rightarrow> response \<Rightarrow> request_output" where
  "async_request now sent req resp =
     (if snd (continuation req) \<le> 0
      then (fst (resume_state sent req))\<lparr>success := True, latency := now - sent\<rparr>
      else receive (expected_output_len (input req)) sent (retry_count req = 0) resp (resume_state sent req))"

section \<open>Lemmas\<close>

text \<open>What a client has received of a stream: the texts and times of the choices up to its end.\<close>

fun received :: "line list \<Rightarrow> (string option \<times> py_float) list" where
  "received [] = []"
| "received (Blank # ls) = received ls"
| "received (DoneMark # ls) = []"
| "received (Malformed # ls) = received ls"
| "received (NoChoices # ls) = received ls"
| "received (Drop msg # ls) = []"
| "received (Choice txt finished ts # ls) = (txt, ts) # received ls"

fun dropped :: "line list \<Rightarrow> string option" where
  "dropped [] = None"
| "dropped (DoneMark # ls) = None"
| "dropped (Drop msg # ls) = Some msg"
| "dropped (_ # ls) = dropped ls"

definition text_of :: "(string option \<times> py_float) list \<Rightarrow> string" where
  "text_of rs = concat (map (\<lambda>(txt, ts). case txt of None \<Rightarrow> '''' | Some t \<Rightarrow> t) rs)"

lemma text_of_simps [simp]:
  "text_of [] = ''''" "text_of (r # rs) = (case fst r of None \<Rightarrow> '''' | Some t \<Rightarrow> t) @ text_of rs"
  "text_of (rs @ qs) = text_of rs @ text_of qs"
  by (simp_all add: text_of_def case_prod_unfold)

text \<open>
  The counters of an output. A balanced one has a first token and an inter-token latency for every
  further one. A resumed output may be short of the first token's latency: it then counts one
  token more when a choice with a finish reason arrives.
\<close>

definition balanced :: "request_output \<Rightarrow> bool \<Rightarrow> bool" where
  "balanced out first \<longleftrightarrow> (if first then output_tokens out = int (length (itl out)) + 1
     else output_tokens out = 0 \<and> itl out = [])"

definition nearly_balanced :: "request_output \<Rightarrow> bool \<Rightarrow> bool" where
  "nearly_balanced out first \<longleftrightarrow> first \<and> output_tokens out \<in> {int (length (itl out)), int (length (itl out)) + 1}"

lemma on_choice_simps [simp]:
  "generated_text (on_choice txt fin ts r (out, first)) = generated_text out @ (case txt of None \<Rightarrow> '''' | Some t \<Rightarrow> t)"
  "itl (on_choice txt fin ts r (out, first)) = itl out @ (if first then [ts - r] else [])"
  "ttft (on_choice txt fin ts r (out, first)) = (if first then ttft out else ts - r)"
  "output_tokens (on_choice txt fin ts r (out, first)) =
     (if fin then int (length (itl out)) + (if first then 1 else 0) + 1 else output_tokens out + 1)"
  by (auto simp: on_choice_def finish_choice_def count_token_def add_text_def split: option.split)

lemma stream_loop_text:
  "stream_loop ls (out, first, Some r) = ((out', first', recent), err) \<Longrightarrow>
     generated_text out' = generated_text out @ text_of (received ls) \<and> err = dropped ls"
  by (induction ls "(out, first, Some r)" arbitrary: out first r rule: stream_loop.induct) auto

lemma stream_loop_balanced:
  "stream_loop ls (out, first, Some r) = ((out', first', recent), err) \<Longrightarrow> balanced out first \<Longrightarrow>
     output_tokens out' = output_tokens out + int (length (received ls)) \<and> balanced out' (first \<or> received ls \<noteq> [])"
proof (induction ls "(out, first, Some r)" arbitrary: out first r rule: stream_loop.induct)
  case (7 tx fin ts ls out first r)
  let ?out = "on_choice tx fin ts r (out, first)"
  have "balanced ?out True" "output_tokens ?out = output_tokens out + 1"
    using "7.prems"(2) by (auto simp: balanced_def)
  with 7 show ?case by (auto simp: balanced_def)
qed auto

lemma stream_loop_nearly_balanced:
  "stream_loop ls (out, first, Some r) = ((out', first', recent), err) \<Longrightarrow> nearly_balanced out first \<Longrightarrow>
     nearly_balanced out' True \<and> length (itl out') = length (itl out) + length (received ls)"
proof (induction ls "(out, first, Some r)" arbitrary: out first r rule: stream_loop.induct)
  case (7 tx fin ts ls out first r)
  have "nearly_balanced (on_choice tx fin ts r (out, first)) True"
    using "7.prems"(2) by (auto simp: nearly_balanced_def)
  with 7 show ?case by (auto simp: nearly_balanced_def)
qed (auto simp: nearly_balanced_def)

text \<open>The latencies of a stream add up to the time between its start and its last choice.\<close>

lemma stream_loop_times:
  "stream_loop ls (out, first, Some r) = ((out', first', recent), err) \<Longrightarrow>
     (if first then ttft out' + sum_list (itl out') = ttft out + sum_list (itl out) + (last (r # map snd (received ls)) - r)
      else received ls \<noteq> [] \<longrightarrow> ttft out' + sum_list (itl out') = sum_list (itl out) + (last (map snd (received ls)) - r))"
proof (induction ls "(out, first, Some r)" arbitrary: out first r rule: stream_loop.induct)
  case (7 tx fin ts ls out first r)
  then show ?case by (auto split: if_splits)
qed auto

lemma conclude_fields [simp]:
  "generated_text (conclude n sent b t out) = generated_text out" "output_tokens (conclude n sent b t out) = output_tokens out"
  "itl (conclude n sent b t out) = itl out" "ttft (conclude n sent b t out) = ttft out"
  by (auto simp: conclude_def fail_def Let_def)

lemma conclude_success: "success (conclude n sent b t out) \<Longrightarrow> n \<le> output_tokens out"
  by (auto simp: conclude_def fail_def Let_def split: if_splits)

definition choices_of :: "response \<Rightarrow> (string option \<times> py_float) list" where
  "choices_of resp = (case resp of Stream ls _ \<Rightarrow> received ls | _ \<Rightarrow> [])"

text \<open>What a client reports is what its loop over the lines left, whatever the response is.\<close>

lemma receive_loop:
  "\<exists>ls o1 f1 r1 err. stream_loop ls (out0, first, Some r) = ((o1, f1, r1), err) \<and> received ls = choices_of resp \<and>
     generated_text (receive n sent b resp (out0, first, Some r)) = generated_text o1 \<and>
     output_tokens (receive n sent b resp (out0, first, Some r)) = output_tokens o1 \<and>
     itl (receive n sent b resp (out0, first, Some r)) = itl o1"
proof (cases resp)
  case (Stream ls t)
  obtain o1 f1 r1 err where "stream_loop ls (out0, first, Some r) = ((o1, f1, r1), err)" by (metis surj_pair)
  with Stream show ?thesis
    by (intro exI [of _ ls] exI [of _ o1] exI [of _ f1] exI [of _ r1] exI [of _ err])
      (auto simp: receive_def fail_def choices_of_def split: option.split)
qed (auto simp: receive_def fail_def choices_of_def intro!: exI [of _ "[]"])

lemma receive_success: "success (receive n sent b resp st) \<Longrightarrow> n \<le> output_tokens (receive n sent b resp st)"
  by (auto simp: receive_def fail_def split: response.splits option.splits prod.splits dest: conclude_success)

lemma receive_balanced:
  assumes "balanced out0 first" and "out = receive n sent b resp (out0, first, Some r)"
  shows "generated_text out = generated_text out0 @ text_of (choices_of resp)"
    and "output_tokens out = output_tokens out0 + int (length (choices_of resp))"
    and "balanced out (first \<or> choices_of resp \<noteq> [])"
proof -
  obtain ls o1 f1 r1 err where l: "stream_loop ls (out0, first, Some r) = ((o1, f1, r1), err)" "received ls = choices_of resp"
    and o: "generated_text out = generated_text o1" "output_tokens out = output_tokens o1" "itl out = itl o1"
    using receive_loop [of out0 first r resp n sent b] assms(2) by auto
  from stream_loop_balanced [OF l(1) assms(1)] stream_loop_text [OF l(1)] l(2) o
  show "generated_text out = generated_text out0 @ text_of (choices_of resp)"
    "output_tokens out = output_tokens out0 + int (length (choices_of resp))"
    "balanced out (first \<or> choices_of resp \<noteq> [])"
    by (auto simp: balanced_def)
qed

lemma receive_nearly_balanced:
  assumes "nearly_balanced out0 first" and "out = receive n sent b resp (out0, first, Some r)"
  shows "generated_text out = generated_text out0 @ text_of (choices_of resp)"
    and "length (itl out) = length (itl out0) + length (choices_of resp)"
    and "nearly_balanced out True"
proof -
  obtain ls o1 f1 r1 err where l: "stream_loop ls (out0, first, Some r) = ((o1, f1, r1), err)" "received ls = choices_of resp"
    and o: "generated_text out = generated_text o1" "output_tokens out = output_tokens o1" "itl out = itl o1"
    using receive_loop [of out0 first r resp n sent b] assms(2) by auto
  from stream_loop_nearly_balanced [OF l(1) assms(1)] stream_loop_text [OF l(1)] l(2) o
  show "generated_text out = generated_text out0 @ text_of (choices_of resp)"
    "length (itl out) = length (itl out0) + length (choices_of resp)" "nearly_balanced out True"
    by (auto simp: nearly_balanced_def)
qed

section \<open>Properties\<close>

text \<open>
  Accounting of a re-routed request. On a stream, \<open>async_request_without_migration\<close> reports
  exactly the text received and one token per choice, whether or not the stream breaks off; the
  first-token and inter-token latencies add up to the time from sending the request to the last
  choice; and it reports success only if the stream did not break off and brought at least the
  expected number of tokens.
\<close>

theorem rerouting_accounting:
  assumes "out = async_request_without_migration sent req (Stream ls t)"
  shows "generated_text out = text_of (received ls) \<and> output_tokens out = int (length (received ls)) \<and>
     (received ls \<noteq> [] \<longrightarrow> ttft out + sum_list (itl out) = snd (last (received ls)) - sent) \<and>
     (success out \<longrightarrow> dropped ls = None \<and> expected_output_len (input req) \<le> int (length (received ls)))"
proof -
  let ?st = "(fresh_output (input req), False, Some sent)"
  obtain o1 first recent err where l: "stream_loop ls ?st = ((o1, first, recent), err)"
    by (metis prod.collapse)
  have b: "balanced (fresh_output (input req)) False"
    by (simp add: balanced_def fresh_output_def RequestOutput_init_def)
  note b = stream_loop_balanced [OF l b] and tx = stream_loop_text [OF l] and tm = stream_loop_times [OF l]
  have f: "generated_text (fresh_output i) = ''''" "output_tokens (fresh_output i) = 0" "itl (fresh_output i) = []" for i
    by (simp_all add: fresh_output_def RequestOutput_init_def)
  have out: "out = (case err of Some msg \<Rightarrow> fail msg o1
      | None \<Rightarrow> conclude (expected_output_len (input req)) sent True t o1)"
    using assms l by (simp add: async_request_without_migration_def receive_def split: option.split)
  have same: "generated_text out = generated_text o1" "output_tokens out = output_tokens o1" "itl out = itl o1"
    "ttft out = ttft o1" unfolding out by (auto simp: fail_def split: option.split)
  have "success out \<longrightarrow> err = None \<and> expected_output_len (input req) \<le> output_tokens o1"
    unfolding out by (auto simp: fail_def dest: conclude_success split: option.split)
  then show ?thesis using b tx tm f same by (auto simp: last_map)
qed

definition example_request :: request where
  "example_request = fst (Request_create 0 \<lparr>prompt = ''ab'', prompt_len = 2, expected_output_len = 2, api_url = '''', model = ''m'',
     ignore_eos = False\<rparr>)"

theorem rerouting_accounting_witness:
  "output_tokens (async_request_without_migration 0 example_request
     (Stream [Choice (Some ''c'') False 1, Blank, Choice (Some ''d'') True 2, DoneMark] 2)) = 2"
  using rerouting_accounting [OF refl, of 0 example_request
     "[Choice (Some ''c'') False 1, Blank, Choice (Some ''d'') True 2, DoneMark]" 2] by simp

end
