(* ===== verification/GlobalServer.thy ===== *)
theory GlobalServer
  imports Cluster RequestHandler
begin

text \<open>
  The global server of \<^verbatim>\<open>GlobalServer/global_server.py\<close>: selection of a pipeline, the two request
  queues, the tasks that handle requests, and the operations on the cluster. Requests and tasks
  are objects, so both live in stores; a request's number is its position in the store. The
  server is an event loop: a coroutine runs without interruption from one suspension to the next.
  So the steps are one round of the main loop, the start of a task up to the point where it waits
  for the inference server, the end of that wait, a new request, and an operation on the cluster
  (which runs in one step here). Random numbers and times are arguments.
\<close>

section \<open>Queues\<close>

text \<open>The contract of \<open>asyncio.Queue\<close> without a bound: first in, first out, nothing lost.\<close>

locale fifo =
  fixes contents :: "'q \<Rightarrow> 'a list"
    and new :: 'q
    and put :: "'q \<Rightarrow> 'a \<Rightarrow> 'q"
    and get :: "'q \<Rightarrow> ('a \<times> 'q) option"
  assumes contents_new: "contents new = []"
    and contents_put: "contents (put q x) = contents q @ [x]"
    and get_None: "get q = None \<longleftrightarrow> contents q = []"
    and get_Some: "get q = Some (x, q') \<Longrightarrow> contents q = x # contents q'"
begin

lemma mset_put: "mset (contents (put q x)) = add_mset x (mset (contents q))"
  by (simp add: contents_put)

lemma mset_get: "get q = Some (x, q') \<Longrightarrow> mset (contents q) = add_mset x (mset (contents q'))"
  by (simp add: get_Some)

text \<open>A request put into the queue is served after exactly those in front of it.\<close>

fun drain :: "nat \<Rightarrow> 'q \<Rightarrow> 'a list" where
  "drain 0 q = []"
| "drain (Suc n) q = (case get q of None \<Rightarrow> [] | Some (x, q') \<Rightarrow> x # drain n q')"

lemma drain_contents: "drain n q = take n (contents q)"
proof (induction n arbitrary: q)
  case (Suc n)
  then show ?case using get_None [of q] by (cases "get q") (auto dest: get_Some)
qed simp

end

type_synonym 'a queue = "'a list"

definition queue_put :: "'a queue \<Rightarrow> 'a \<Rightarrow> 'a queue" where
  "queue_put q x = q @ [x]"

definition queue_get :: "'a queue \<Rightarrow> ('a \<times> 'a queue) option" where
  "queue_get q = (case q of [] \<Rightarrow> None | x # xs \<Rightarrow> Some (x, xs))"

interpretation q: fifo "\<lambda>q. q" "[]" queue_put queue_get
  by unfold_locales (auto simp: queue_put_def queue_get_def split: list.splits)

section \<open>State\<close>

text \<open>
  A task has not run yet, waits for the inference server with the pipeline object it was sent to,
  or is done: it returned, or it returned at once because its pipeline index was not valid.
\<close>

datatype task_state = Created | Sending nat | Returned | NoPipeline

record task =
  t_request :: nat
  t_index :: nat
  t_state :: task_state

definition task_done :: "task \<Rightarrow> bool" where
  "task_done t \<longleftrightarrow> t_state t \<in> {Returned, NoPipeline}"

datatype handler_mode = Migration | ReRouting

record server =
  gs_cluster :: cluster
  urgent_queue :: "nat queue"
  waiting_queue :: "nat queue"
  inflight_requests :: "(nat, nat \<times> nat) dict"
  request_handler_mode :: handler_mode
  reqs :: "request list"
  tasks :: "task list"

definition GlobalServer_init :: "cluster \<Rightarrow> handler_mode \<Rightarrow> server" where
  "GlobalServer_init c m = \<lparr>gs_cluster = c, urgent_queue = [], waiting_queue = [], inflight_requests = [],
     request_handler_mode = m, reqs = [], tasks = []\<rparr>"

section \<open>Selection of a pipeline\<close>

definition ready_pipelines :: "cluster \<Rightarrow> (nat \<times> pipeline) list" where
  "ready_pipelines c = filter (\<lambda>(i, p). is_ready p \<and> has_capacity p)
     (zip [0..<length (pipelines c)] (map (the_pipeline c) (pipelines c)))"

fun cumulative :: "py_float \<Rightarrow> py_float \<Rightarrow> py_float list \<Rightarrow> py_float list" where
  "cumulative total_weight cumsum [] = []"
| "cumulative total_weight cumsum (w # ws) =
     (cumsum + w / total_weight) # cumulative total_weight (cumsum + w / total_weight) ws"

fun first_above :: "py_float \<Rightarrow> (nat \<times> py_float) list \<Rightarrow> nat option" where
  "first_above rand_val [] = None"
| "first_above rand_val ((i, cum_weight) # xs) = (if rand_val < cum_weight then Some i else first_above rand_val xs)"

text \<open>\<open>pick\<close> is the result of \<open>random.randint\<close>, \<open>rand_val\<close> that of \<open>random.random\<close>.\<close>

definition select_pipeline_index :: "nat \<Rightarrow> py_float \<Rightarrow> cluster \<Rightarrow> int" where
  "select_pipeline_index pick rand_val c =
     (let ready = ready_pipelines c in
      if ready = [] then - 1
      else let weights = map (ideal_throughput \<circ> snd) ready;
               total_weight = sum_list weights in
        if total_weight \<le> 0 then int (fst (ready ! pick))
        else case first_above rand_val (zip (map fst ready) (cumulative total_weight 0 weights)) of
            Some i \<Rightarrow> int i
          | None \<Rightarrow> int (fst (last ready)))"

section \<open>Handling of requests\<close>

definition update_request :: "nat \<Rightarrow> (request \<Rightarrow> request) \<Rightarrow> server \<Rightarrow> server" where
  "update_request i f s = s\<lparr>reqs := (reqs s)[i := f (reqs s ! i)]\<rparr>"

definition update_pipeline :: "nat \<Rightarrow> (pipeline \<Rightarrow> pipeline) \<Rightarrow> server \<Rightarrow> server" where
  "update_pipeline r f s = s\<lparr>gs_cluster := (gs_cluster s)\<lparr>pls := (pls (gs_cluster s))[r := f (pls (gs_cluster s) ! r)]\<rparr>\<rparr>"

definition set_task :: "nat \<Rightarrow> task_state \<Rightarrow> server \<Rightarrow> server" where
  "set_task k st s = s\<lparr>tasks := (tasks s)[k := (tasks s ! k)\<lparr>t_state := st\<rparr>]\<rparr>"

definition add_request :: "request_input \<Rightarrow> bool \<Rightarrow> server \<Rightarrow> nat \<times> server" where
  "add_request inp urgent s =
     (let (req, n) = Request_create (length (reqs s)) inp;
          s = s\<lparr>reqs := reqs s @ [req]\<rparr> in
      (request_id req,
       if urgent then s\<lparr>urgent_queue := queue_put (urgent_queue s) (request_id req)\<rparr>
       else s\<lparr>waiting_queue := queue_put (waiting_queue s) (request_id req)\<rparr>))"

text \<open>The exception branch of \<open>_handle_request\<close>, and its \<open>finally\<close> clause.\<close>

definition requeue :: "py_float \<Rightarrow> nat \<Rightarrow> server \<Rightarrow> server" where
  "requeue time i s =
     (let s = update_request i (\<lambda>q. q\<lparr>halted_at := Some time, retry_count := retry_count q + 1\<rparr>) s in
      s\<lparr>urgent_queue := queue_put (urgent_queue s) i\<rparr>)"

definition leave :: "nat \<Rightarrow> nat \<Rightarrow> server \<Rightarrow> server" where
  "leave k r s = set_task k Returned (update_pipeline r remove_flying_request s)"

text \<open>
  \<open>_handle_request\<close> from its start to the wait for the inference server, with the part of
  \<open>send_request\<close> before it.
\<close>

definition start_task :: "py_float \<Rightarrow> nat \<Rightarrow> server \<Rightarrow> server" where
  "start_task time k s =
     (let t = tasks s ! k; i = t_request t in
      if t_index t \<ge> length (pipelines (gs_cluster s)) then set_task k NoPipeline s
      else let r = pipelines (gs_cluster s) ! t_index t;
               p = the_pipeline (gs_cluster s) r;
               s = update_pipeline r add_flying_request s in
        case (api_server_host p, pl_api_server_port p) of
          (Some host, Some port) \<Rightarrow>
            set_task k (Sending r) (update_request i (\<lambda>q. q\<lparr>
              input := (input q)\<lparr>api_url := ''http://'' @ host @ '':'' @ str_int port @ ''/v1/completions''\<rparr>,
              sended_at := (case sended_at q of None \<Rightarrow> Some time | Some t \<Rightarrow> Some t)\<rparr>) s)
        | _ \<Rightarrow> leave k r (requeue time i s))"

definition send :: "handler_mode \<Rightarrow> py_float \<Rightarrow> request \<Rightarrow> response \<Rightarrow> request_output" where
  "send m time req resp =
     (let sent = (case sended_at req of None \<Rightarrow> 0 | Some t \<Rightarrow> t) in
      case m of ReRouting \<Rightarrow> async_request_without_migration sent req resp
              | Migration \<Rightarrow> async_request time sent req resp)"

text \<open>The rest of \<open>_handle_request\<close>, from the output of the client on.\<close>

definition finish_task :: "py_float \<Rightarrow> response \<Rightarrow> nat \<Rightarrow> nat \<Rightarrow> server \<Rightarrow> server" where
  "finish_task time resp k r s =
     (let i = t_request (tasks s ! k);
          out = send (request_handler_mode s) time (reqs s ! i) resp;
          s = update_request i (\<lambda>q. q\<lparr>req_output := Some out\<rparr>) s in
      if success out then leave k r (update_request i (\<lambda>q. q\<lparr>completion_event := True\<rparr>) s)
      else leave k r (requeue time i s))"

definition cleanup_completed_requests :: "server \<Rightarrow> server" where
  "cleanup_completed_requests s =
     (let completed_ids = map fst (filter (\<lambda>(i, idx, k). task_done (tasks s ! k)) (inflight_requests s)) in
      s\<lparr>inflight_requests := fold dict_del completed_ids (inflight_requests s)\<rparr>)"

text \<open>A request taken from a queue becomes a task and is tracked as in flight.\<close>

definition dispatch :: "nat \<Rightarrow> nat \<Rightarrow> server \<Rightarrow> server" where
  "dispatch i pipeline_index s =
     s\<lparr>tasks := tasks s @ [\<lparr>t_request = i, t_index = pipeline_index, t_state = Created\<rparr>],
       inflight_requests := dict_set (request_id (reqs s ! i)) (pipeline_index, length (tasks s)) (inflight_requests s)\<rparr>"

definition take_request :: "server \<Rightarrow> (nat \<times> server) option" where
  "take_request s =
     (case queue_get (urgent_queue s) of
        Some (i, q) \<Rightarrow> Some (i, s\<lparr>urgent_queue := q\<rparr>)
      | None \<Rightarrow> (case queue_get (waiting_queue s) of
            Some (i, q) \<Rightarrow> Some (i, s\<lparr>waiting_queue := q\<rparr>)
          | None \<Rightarrow> None))"

text \<open>One round of \<open>run_global_server\<close>.\<close>

definition server_round :: "nat \<Rightarrow> py_float \<Rightarrow> server \<Rightarrow> server" where
  "server_round pick rand_val s =
     (let pipeline_index = select_pipeline_index pick rand_val (gs_cluster s) in
      cleanup_completed_requests
        (if pipeline_index \<noteq> - 1
         then (case take_request s of Some (i, s') \<Rightarrow> dispatch i (nat pipeline_index) s' | None \<Rightarrow> s)
         else s))"

section \<open>Operations on the cluster\<close>

definition gs_create_pipeline ::
  "env \<Rightarrow> nat \<Rightarrow> nat \<Rightarrow> mapping_entry list \<Rightarrow> config \<Rightarrow> py_float \<Rightarrow> (cluster, unit) proc" where
  "gs_create_pipeline e fuel t ms cfg thr =
     thenS (create_pipeline e fuel t ms cfg thr)
       (liftE (assertE (list_all (\<lambda>m. case m of OtherLength _ \<Rightarrow> False | _ \<Rightarrow> True) ms) ValueError))"

definition gs_stop_pipeline :: "env \<Rightarrow> int \<Rightarrow> (cluster, unit) proc" where
  "gs_stop_pipeline e pipeline_index =
     bindS (getS pipelines) (\<lambda>rs.
     if \<not> (0 \<le> pipeline_index \<and> pipeline_index < int (length rs)) then raiseS AssertionError
     else on_pipeline (rs ! nat pipeline_index) (stop_pipeline e))"

definition pipelines_with :: "string \<Rightarrow> cluster \<Rightarrow> nat list" where
  "pipelines_with ip c = filter (\<lambda>i. uses_node (the_pipeline c (pipelines c ! i)) ip) [0..<length (pipelines c)]"

definition gs_stop_node :: "env \<Rightarrow> string \<Rightarrow> (cluster, nat option) proc" where
  "gs_stop_node e ip =
     bindS (getS (pipelines_with ip)) (\<lambda>is.
     case is of [] \<Rightarrow> retS None | i # _ \<Rightarrow> thenS (gs_stop_pipeline e (int i)) (retS (Some i)))"

text \<open>
  \<open>stop_nodes\<close> iterates over a set of indices. The order is not specified, so it is an argument: the
  elements in \<open>order\<close> come first.
\<close>

definition in_order :: "nat list \<Rightarrow> nat list \<Rightarrow> nat list" where
  "in_order order xs = filter (\<lambda>i. i \<in> set xs) (remdups order) @ filter (\<lambda>i. i \<notin> set order) xs"

definition gs_stop_nodes :: "env \<Rightarrow> nat list \<Rightarrow> string list \<Rightarrow> (cluster, bool) proc" where
  "gs_stop_nodes e order ips c =
     (let target = in_order order
        (filter (\<lambda>i. list_ex (\<lambda>ip. i \<in> set (pipelines_with ip c)) ips) [0..<length (pipelines c)]) in
      case thenS (forS target (\<lambda>i. gs_stop_pipeline e (int i))) (remove_pipelines (map int target)) c of
        (Inr _, c') \<Rightarrow> (Inr True, c')
      | (Inl _, c') \<Rightarrow> (Inr False, c'))"

definition gs_switch_nodes :: "env \<Rightarrow> nat \<Rightarrow> string list \<Rightarrow> string list \<Rightarrow> (cluster, unit) proc" where
  "gs_switch_nodes e fuel old_ips new_ips =
     (if length old_ips \<noteq> length new_ips then raiseS ValueError else cluster_switch_nodes e fuel old_ips new_ips)"

datatype admin_op =
    GCreate env nat nat "mapping_entry list" config py_float
  | GStopPipeline env int
  | GStopNode env string
  | GStopNodes env "nat list" "string list"
  | GCluster "env \<times> nat \<times> cluster_op"
  | GSwitchNodes env nat "string list" "string list"

fun run_admin :: "admin_op \<Rightarrow> cluster \<Rightarrow> cluster" where
  "run_admin (GCreate e fuel t ms cfg thr) c = snd (gs_create_pipeline e fuel t ms cfg thr c)"
| "run_admin (GStopPipeline e i) c = snd (gs_stop_pipeline e i c)"
| "run_admin (GStopNode e ip) c = snd (gs_stop_node e ip c)"
| "run_admin (GStopNodes e order ips) c = snd (gs_stop_nodes e order ips c)"
| "run_admin (GCluster op) c = snd (run_op op c)"
| "run_admin (GSwitchNodes e fuel as bs) c = snd (gs_switch_nodes e fuel as bs c)"

section \<open>Steps\<close>

inductive gs_step :: "server \<Rightarrow> server \<Rightarrow> bool" where
  Add: "gs_step s (snd (add_request inp urgent s))"
| Round: "pick < length (ready_pipelines (gs_cluster s)) \<or> ready_pipelines (gs_cluster s) = [] \<Longrightarrow>
    gs_step s (server_round pick rand_val s)"
| Start: "k < length (tasks s) \<Longrightarrow> t_state (tasks s ! k) = Created \<Longrightarrow> gs_step s (start_task time k s)"
| Finish: "k < length (tasks s) \<Longrightarrow> t_state (tasks s ! k) = Sending r \<Longrightarrow> gs_step s (finish_task time resp k r s)"
| Admin: "gs_step s (s\<lparr>gs_cluster := run_admin op (gs_cluster s)\<rparr>)"

inductive_cases gs_stepE: "gs_step s s'"

inductive reachable :: "server \<Rightarrow> bool" where
  Init: "reachable (GlobalServer_init Cluster_init m)"
| Step: "reachable s \<Longrightarrow> gs_step s s' \<Longrightarrow> reachable s'"

section \<open>Lemmas: selection\<close>

lemma cumulative_nth:
  "k < length ws \<Longrightarrow> cumulative tot a ws ! k = a + sum_list (take (Suc k) ws) / tot"
proof (induction ws arbitrary: a k)
  case (Cons w ws)
  then show ?case by (cases k) (simp_all add: add_divide_distrib)
qed simp

lemma length_cumulative [simp]: "length (cumulative tot a ws) = length ws"
  by (induction ws arbitrary: a) auto

lemma first_above_Some:
  "first_above x (zip is cs) = Some i \<Longrightarrow> length is = length cs \<Longrightarrow>
     \<exists>k < length is. i = is ! k \<and> x < cs ! k \<and> (\<forall>j < k. cs ! j \<le> x)"
proof (induction "is" cs rule: list_induct2')
  case (4 i' "is" c cs)
  show ?case
  proof (cases "x < c")
    case False
    with 4 obtain k where k: "k < length is" "i = is ! k" "x < cs ! k" "\<forall>j < k. cs ! j \<le> x" by auto
    have "(c # cs) ! j \<le> x" if "j < Suc k" for j using that k(4) False by (cases j) auto
    with k show ?thesis by (intro exI [of _ "Suc k"]) auto
  qed (use 4 in auto)
qed auto

lemma first_above_None: "first_above x (zip is cs) = None \<Longrightarrow> length is = length cs \<Longrightarrow> \<forall>k < length is. cs ! k \<le> x"
proof (induction "is" cs rule: list_induct2')
  case (4 i' "is" c cs)
  then show ?case by (auto simp: less_Suc_eq_0_disj split: if_splits)
qed auto

lemma set_ready_pipelines:
  "(i, p) \<in> set (ready_pipelines c) \<longleftrightarrow>
     i < length (pipelines c) \<and> p = the_pipeline c (pipelines c ! i) \<and> is_ready p \<and> has_capacity p"
  by (auto simp: ready_pipelines_def set_zip intro!: exI [of _ i])

text \<open>
  C9. Selection of a pipeline. For a number drawn from the interval from 0 to 1: with no ready pipeline below its capacity the result is -1; otherwise it is
  the index of one, and when the weights do not sum to zero, of the one whose part of the
  interval, proportional to its weight, contains the number.
\<close>

theorem select_pipeline_index_spec:
  assumes "0 \<le> rand_val" "rand_val < 1" "pick < length (ready_pipelines c) \<or> ready_pipelines c = []"
    and "ws = map (ideal_throughput \<circ> snd) (ready_pipelines c)"
  shows "(select_pipeline_index pick rand_val c = - 1 \<longleftrightarrow> ready_pipelines c = []) \<and>
     (ready_pipelines c \<noteq> [] \<longrightarrow> (\<exists>i k. select_pipeline_index pick rand_val c = int i \<and> i < length (pipelines c) \<and>
        is_ready (the_pipeline c (pipelines c ! i)) \<and> has_capacity (the_pipeline c (pipelines c ! i)) \<and>
        k < length ws \<and> i = fst (ready_pipelines c ! k) \<and>
        (0 < sum_list ws \<longrightarrow> rand_val * sum_list ws < sum_list (take (Suc k) ws) \<and>
           (\<forall>j < k. sum_list (take (Suc j) ws) \<le> rand_val * sum_list ws))))"
proof (cases "ready_pipelines c = []")
  case False
  let ?r = "ready_pipelines c" and ?tot = "sum_list ws"
  have l: "length ws = length ?r" using assms(4) by simp
  have "\<exists>k < length ?r. select_pipeline_index pick rand_val c = int (fst (?r ! k)) \<and>
      (0 < ?tot \<longrightarrow> rand_val * ?tot < sum_list (take (Suc k) ws) \<and> (\<forall>j < k. sum_list (take (Suc j) ws) \<le> rand_val * ?tot))"
  proof (cases "0 < ?tot")
    case True
    show ?thesis
    proof (cases "first_above rand_val (zip (map fst ?r) (cumulative ?tot 0 ws))")
      case None
      have "cumulative ?tot 0 ws ! (length ws - 1) = 1"
        using False True l by (simp add: cumulative_nth)
      moreover have "cumulative ?tot 0 ws ! (length ws - 1) \<le> rand_val"
        using first_above_None [OF None] False l by simp
      ultimately show ?thesis using assms(2) by simp
    next
      case (Some i)
      then obtain k where k: "k < length ?r" "i = fst (?r ! k)" "rand_val < cumulative ?tot 0 ws ! k"
        "\<forall>j < k. cumulative ?tot 0 ws ! j \<le> rand_val" using first_above_Some [OF Some] l by auto
      have "rand_val * ?tot < sum_list (take (Suc k) ws)" "\<forall>j < k. sum_list (take (Suc j) ws) \<le> rand_val * ?tot"
        using k(1,3,4) True l by (auto simp: cumulative_nth pos_less_divide_eq pos_divide_le_eq)
      with k(1,2) Some True False assms(4) show ?thesis
        by (intro exI [of _ k]) (simp add: select_pipeline_index_def Let_def)
    qed
  next
    case tot: False
    with False assms(3,4) show ?thesis
      by (intro exI [of _ pick]) (simp add: select_pipeline_index_def Let_def)
  qed
  then obtain k where k: "k < length ?r" "select_pipeline_index pick rand_val c = int (fst (?r ! k))"
    "0 < ?tot \<longrightarrow> rand_val * ?tot < sum_list (take (Suc k) ws) \<and> (\<forall>j < k. sum_list (take (Suc j) ws) \<le> rand_val * ?tot)"
    by blast
  moreover have "(fst (?r ! k), snd (?r ! k)) \<in> set ?r" using k(1) by simp
  note set_ready_pipelines [THEN iffD1, OF this]
  ultimately show ?thesis using False l by (intro conjI impI exI [of _ "fst (?r ! k)"] exI [of _ k]) auto
qed (simp add: select_pipeline_index_def)

definition two_pipelines :: cluster where
  "two_pipelines = \<lparr>pls = [(Pipeline_init 0)\<lparr>is_ready := True, ideal_throughput := 3\<rparr>,
     (Pipeline_init 0)\<lparr>is_ready := True, ideal_throughput := 1\<rparr>], pipelines = [0, 1], cl_mode = ''default''\<rparr>"

theorem select_pipeline_index_spec_witness:
  "\<exists>i. select_pipeline_index 0 (4 / 5) two_pipelines = int i \<and> is_ready (the_pipeline two_pipelines (pipelines two_pipelines ! i))"
proof -
  have r: "ready_pipelines two_pipelines \<noteq> []"
    by (simp add: ready_pipelines_def two_pipelines_def has_capacity_def Pipeline_init_def upt_rec)
  then have "0 < length (ready_pipelines two_pipelines)" by simp
  with select_pipeline_index_spec [of "4 / 5" 0 two_pipelines, OF _ _ _ refl] r show ?thesis by auto
qed

section \<open>Lemmas: conservation of requests\<close>

text \<open>The request a task is responsible for, the number of a completed request, and the tasks at a pipeline.\<close>

definition holds :: "task \<Rightarrow> nat multiset" where
  "holds t = (if t_state t = Returned then {#} else {#t_request t#})"

definition completed :: "request \<Rightarrow> nat multiset" where
  "completed q = (if completion_event q then {#request_id q#} else {#})"

definition sends_to :: "nat \<Rightarrow> task \<Rightarrow> int" where
  "sends_to r t = (if t_state t = Sending r then 1 else 0)"

definition accounted :: "server \<Rightarrow> nat multiset" where
  "accounted s = mset (urgent_queue s) + mset (waiting_queue s) + sum_list (map holds (tasks s)) +
     sum_list (map completed (reqs s))"

abbreviation all_requests :: "server \<Rightarrow> nat multiset" where
  "all_requests s \<equiv> mset [0..<length (reqs s)]"

lemma completed_update:
  assumes "i < length qs" and "request_id q = request_id (qs ! i)" and "completion_event q = completion_event (qs ! i)"
  shows "sum_list (map completed (qs[i := q])) = sum_list (map completed qs)"
  using sum_list_map_update [OF assms(1), of completed q] assms(2,3) by (simp add: completed_def split: if_splits)

lemma mem_sum_list: "x \<in> set xs \<Longrightarrow> h x \<subseteq># sum_list (map h xs)"
  by (induction xs) (auto intro: subset_mset.add_increasing subset_mset.add_increasing2)

text \<open>The numbers of the requests are their positions.\<close>

definition numbered :: "server \<Rightarrow> bool" where
  "numbered s \<longleftrightarrow> (\<forall>i < length (reqs s). request_id (reqs s ! i) = i)"

text \<open>Tasks, tracked requests and flying requests.\<close>

definition tracked :: "server \<Rightarrow> bool" where
  "tracked s \<longleftrightarrow> dict_wf (inflight_requests s) \<and>
     (\<forall>k < length (tasks s). \<not> task_done (tasks s ! k) \<longrightarrow>
        dict_get (inflight_requests s) (t_request (tasks s ! k)) = Some (t_index (tasks s ! k), k))"

definition counted :: "server \<Rightarrow> bool" where
  "counted s \<longleftrightarrow> (\<forall>r \<in> set (pipelines (gs_cluster s)). r < length (pls (gs_cluster s))) \<and>
     (\<forall>t \<in> set (tasks s). \<forall>r. t_state t = Sending r \<longrightarrow> r < length (pls (gs_cluster s))) \<and>
     map flying_requests (pls (gs_cluster s)) =
       map (\<lambda>r. sum_list (map (sends_to r) (tasks s))) [0..<length (pls (gs_cluster s))]"

definition server_inv :: "server \<Rightarrow> bool" where
  "server_inv s \<longleftrightarrow> numbered s \<and> accounted s = all_requests s \<and> tracked s \<and> counted s"

lemma accounted_count: "accounted s = all_requests s \<Longrightarrow> count (accounted s) i \<le> 1"
  by (simp add: count_mset_set')

lemma task_request:
  assumes "accounted s = all_requests s" "k < length (tasks s)" "t_state (tasks s ! k) \<noteq> Returned"
  shows "t_request (tasks s ! k) < length (reqs s)"
    and "t_request (tasks s ! k) \<notin># mset (urgent_queue s) + mset (waiting_queue s) + sum_list (map completed (reqs s))"
proof -
  let ?i = "t_request (tasks s ! k)"
  have h: "?i \<in># sum_list (map holds (tasks s))"
    using mem_sum_list [of "tasks s ! k" "tasks s" holds] assms(2,3) by (auto simp: holds_def split: if_splits)
  then have "?i \<in># accounted s" by (simp add: accounted_def)
  then show "?i < length (reqs s)" using assms(1) by simp
  show "?i \<notin># mset (urgent_queue s) + mset (waiting_queue s) + sum_list (map completed (reqs s))"
  proof
    define X where "X = mset (urgent_queue s) + mset (waiting_queue s) + sum_list (map completed (reqs s))"
    define H where "H = sum_list (map holds (tasks s))"
    assume "?i \<in># mset (urgent_queue s) + mset (waiting_queue s) + sum_list (map completed (reqs s))"
    then have "1 \<le> count X ?i" "1 \<le> count H ?i" using h unfolding X_def H_def by (simp_all only: count_greater_eq_one_iff)
    moreover have "count (accounted s) ?i = count X ?i + count H ?i" by (simp add: accounted_def X_def H_def)
    ultimately show False using accounted_count [OF assms(1), of ?i] by linarith
  qed
qed

lemma held_once:
  assumes "accounted s = all_requests s" and "k < length (tasks s)" and "k' < length (tasks s)"
    and "t_state (tasks s ! k) \<noteq> Returned" and "t_state (tasks s ! k') \<noteq> Returned"
    and "t_request (tasks s ! k) = t_request (tasks s ! k')"
  shows "k = k'"
proof (rule ccontr)
  assume ne: "k \<noteq> k'"
  let ?i = "t_request (tasks s ! k)"
  define u where "u = (tasks s ! k)\<lparr>t_state := Returned\<rparr>"
  have "sum_list (map holds ((tasks s)[k := u])) + {#?i#} = sum_list (map holds (tasks s))"
    using sum_list_map_update [OF assms(2), of holds u] assms(4) by (simp add: holds_def u_def)
  then have "count (sum_list (map holds (tasks s))) ?i = count (sum_list (map holds ((tasks s)[k := u]))) ?i + 1"
    by (metis Suc_eq_plus1 add.right_neutral add_mset_add_single count_add_mset)
  moreover have "tasks s ! k' \<in> set ((tasks s)[k := u])"
    using ne assms(3) by (metis length_list_update nth_list_update_neq nth_mem)
  from mem_sum_list [OF this, of holds] have "?i \<in># sum_list (map holds ((tasks s)[k := u]))"
    by (rule mset_subset_eqD) (simp add: holds_def assms(5,6))
  then have "1 \<le> count (sum_list (map holds ((tasks s)[k := u]))) ?i" by (simp only: count_greater_eq_one_iff)
  moreover have "count (sum_list (map holds (tasks s))) ?i \<le> count (accounted s) ?i" by (simp add: accounted_def)
  ultimately show False using accounted_count [OF assms(1), of ?i] by linarith
qed

text \<open>A request that its task lets go is queued again or completed.\<close>

lemma accounted_move:
  assumes "sum_list (map holds (tasks s')) + {#i#} = sum_list (map holds (tasks s))"
    and "mset (urgent_queue s') + sum_list (map completed (reqs s')) =
       mset (urgent_queue s) + sum_list (map completed (reqs s)) + {#i#}"
    and "waiting_queue s' = waiting_queue s"
  shows "accounted s' = accounted s"
proof -
  have "accounted s' = (mset (urgent_queue s') + sum_list (map completed (reqs s'))) + mset (waiting_queue s) +
      sum_list (map holds (tasks s'))" by (simp add: accounted_def assms(3) ac_simps)
  also have "\<dots> = mset (urgent_queue s) + sum_list (map completed (reqs s)) + mset (waiting_queue s) +
      (sum_list (map holds (tasks s')) + {#i#})"
    unfolding assms(2) by (simp add: ac_simps)
  finally show ?thesis unfolding assms(1) accounted_def by (simp add: ac_simps)
qed

lemma counted_flying:
  assumes "counted s" and "q < length (pls (gs_cluster s))"
  shows "flying_requests (pls (gs_cluster s) ! q) = sum_list (map (sends_to q) (tasks s))"
proof -
  have "map flying_requests (pls (gs_cluster s)) ! q =
      map (\<lambda>r. sum_list (map (sends_to r) (tasks s))) [0..<length (pls (gs_cluster s))] ! q"
    using assms(1) by (simp add: counted_def)
  then show ?thesis using assms(2) by simp
qed

lemma counted_update:
  assumes "counted s" and "k < length (tasks s)" and "tasks s' = (tasks s)[k := t]"
    and "length (pls (gs_cluster s')) = length (pls (gs_cluster s))"
    and "pipelines (gs_cluster s') = pipelines (gs_cluster s)"
    and "\<And>q. q < length (pls (gs_cluster s)) \<Longrightarrow> flying_requests (pls (gs_cluster s') ! q) =
       flying_requests (pls (gs_cluster s) ! q) + sends_to q t - sends_to q (tasks s ! k)"
    and "\<And>q. t_state t = Sending q \<Longrightarrow> q < length (pls (gs_cluster s))"
  shows "counted s'"
proof -
  have "sum_list (map (sends_to q) (tasks s')) =
      sum_list (map (sends_to q) (tasks s)) + sends_to q t - sends_to q (tasks s ! k)" for q
    using sum_list_map_update [OF assms(2), of "sends_to q" t] unfolding assms(3) by linarith
  then have "map flying_requests (pls (gs_cluster s')) =
      map (\<lambda>r. sum_list (map (sends_to r) (tasks s'))) [0..<length (pls (gs_cluster s'))]"
    using assms(4,6) counted_flying [OF assms(1)] by (intro nth_equalityI) auto
  moreover have "q < length (pls (gs_cluster s'))" if "t' \<in> set (tasks s')" "t_state t' = Sending q" for t' q
  proof -
    have "t' = t \<or> t' \<in> set (tasks s)" using that(1) assms(3) by (auto dest: set_update_subset_insert [THEN subsetD])
    with that(2) assms(1,4,7) show ?thesis by (auto simp: counted_def)
  qed
  ultimately show ?thesis using assms(1,4,5) by (auto simp: counted_def)
qed

lemma sends_to_nonneg: "x \<in> set (map (sends_to r) ts) \<Longrightarrow> 0 \<le> x"
  by (auto simp: sends_to_def)

lemma flying_nonneg:
  assumes "counted s" and "k < length (tasks s)" and "t_state (tasks s ! k) = Sending r"
  shows "1 \<le> flying_requests (pls (gs_cluster s) ! r)"
proof -
  have r: "r < length (pls (gs_cluster s))" using assms by (auto simp: counted_def)
  have "sends_to r (tasks s ! k) \<le> sum_list (map (sends_to r) (tasks s))"
    using assms(2) by (intro member_le_sum_list) (simp_all add: sends_to_nonneg)
  then show ?thesis using counted_flying [OF assms(1) r] assms(3) by (simp add: sends_to_def)
qed

lemma flying_ge_0: "counted s \<Longrightarrow> q < length (pls (gs_cluster s)) \<Longrightarrow> 0 \<le> flying_requests (pls (gs_cluster s) ! q)"
  using counted_flying [of s q] by (auto intro!: sum_list_nonneg simp: sends_to_def)

lemmas server_defs = update_request_def update_pipeline_def set_task_def requeue_def leave_def dispatch_def

lemma tracked_done:
  assumes "tracked s" and "tasks s' = (tasks s)[k := (tasks s ! k)\<lparr>t_state := st\<rparr>]"
    and "inflight_requests s' = inflight_requests s" and "task_done (tasks s ! k) \<longrightarrow> st \<in> {Returned, NoPipeline}"
  shows "tracked s'"
  using assms by (auto simp: tracked_def nth_update_if task_done_def split: if_splits)

lemma numbered_update:
  assumes "numbered s" and "reqs s' = (reqs s)[i := f (reqs s ! i)]" and "\<And>q. request_id (f q) = request_id q"
  shows "numbered s'"
  using assms by (auto simp: numbered_def nth_update_if)

lemma finish_inv:
  assumes inv: "server_inv s" and k: "k < length (tasks s)" "t_state (tasks s ! k) = Sending r"
  shows "server_inv (finish_task time resp k r s)"
proof -
  let ?s' = "finish_task time resp k r s" and ?i = "t_request (tasks s ! k)"
  let ?t = "(tasks s ! k)\<lparr>t_state := Returned\<rparr>"
  have acc: "accounted s = all_requests s" and c: "counted s" using inv by (simp_all add: server_inv_def)
  have i: "?i < length (reqs s)" "?i \<notin># sum_list (map completed (reqs s))"
    using task_request [OF acc k(1)] k(2) by simp_all
  have r: "r < length (pls (gs_cluster s))" using c k by (auto simp: counted_def)
  have t': "tasks ?s' = (tasks s)[k := ?t]" "inflight_requests ?s' = inflight_requests s"
    "pls (gs_cluster ?s') = (pls (gs_cluster s))[r := remove_flying_request (pls (gs_cluster s) ! r)]"
    "pipelines (gs_cluster ?s') = pipelines (gs_cluster s)" "length (reqs ?s') = length (reqs s)"
    "waiting_queue ?s' = waiting_queue s"
    by (simp_all add: finish_task_def Let_def server_defs)
  have "counted ?s'"
    by (rule counted_update [OF c k(1) t'(1)])
      (use flying_nonneg [OF c k] k(2) r t'(3,4) in \<open>auto simp: remove_flying_request_def sends_to_def nth_update_if\<close>)
  moreover have "tracked ?s'"
    using inv t'(1,2) by (intro tracked_done [of s ?s' k Returned]) (auto simp: server_inv_def)
  moreover have "numbered ?s'"
    using inv by (auto simp: server_inv_def finish_task_def Let_def server_defs numbered_def nth_update_if)
  moreover have "accounted ?s' = all_requests ?s'"
  proof -
    have ni: "\<not> completion_event (reqs s ! ?i)"
    proof
      assume "completion_event (reqs s ! ?i)"
      then have "request_id (reqs s ! ?i) \<in># sum_list (map completed (reqs s))"
        using mem_sum_list [of "reqs s ! ?i" "reqs s" completed] i(1) by (auto simp: completed_def)
      with i inv show False by (auto simp: server_inv_def numbered_def)
    qed
    have "sum_list (map holds (tasks ?s')) + {#?i#} = sum_list (map holds (tasks s))"
      using sum_list_map_update [OF k(1), of holds ?t] k(2) unfolding t'(1) by (simp add: holds_def)
    moreover have "mset (urgent_queue ?s') + sum_list (map completed (reqs ?s')) =
        mset (urgent_queue s) + sum_list (map completed (reqs s)) + {#?i#}"
    proof -
      let ?b = "success (send (request_handler_mode s) time (reqs s ! ?i) resp)"
      define q where "q = (let q = (reqs s ! ?i)\<lparr>req_output := Some (send (request_handler_mode s) time (reqs s ! ?i) resp)\<rparr> in
          if ?b then q\<lparr>completion_event := True\<rparr> else q\<lparr>halted_at := Some time, retry_count := retry_count q + 1\<rparr>)"
      have "request_id q = ?i" "completion_event q = ?b"
        using inv i(1) ni by (simp_all add: server_inv_def numbered_def q_def Let_def)
      moreover have "reqs ?s' = (reqs s)[?i := q]"
        using i(1) by (simp add: finish_task_def Let_def server_defs q_def)
      moreover have "urgent_queue ?s' = urgent_queue s @ (if ?b then [] else [?i])"
        by (simp add: finish_task_def Let_def server_defs queue_put_def)
      ultimately show ?thesis
        using sum_list_map_update [OF i(1), of completed q] ni by (simp add: completed_def)
    qed
    ultimately have "accounted ?s' = accounted s" using t'(6) by (rule accounted_move)
    then show ?thesis using acc t'(5) by simp
  qed
  ultimately show ?thesis by (simp add: server_inv_def)
qed

text \<open>The state a task is in after its start, and what the start changes.\<close>

definition started_state :: "server \<Rightarrow> nat \<Rightarrow> task_state" where
  "started_state s k =
     (let c = gs_cluster s; idx = t_index (tasks s ! k); p = the_pipeline c (pipelines c ! idx) in
      if idx \<ge> length (pipelines c) then NoPipeline
      else if api_server_host p \<noteq> None \<and> pl_api_server_port p \<noteq> None then Sending (pipelines c ! idx) else Returned)"

lemma start_task_fields:
  "tasks (start_task time k s) = (tasks s)[k := (tasks s ! k)\<lparr>t_state := started_state s k\<rparr>]"
  "inflight_requests (start_task time k s) = inflight_requests s"
  "pipelines (gs_cluster (start_task time k s)) = pipelines (gs_cluster s)"
  "length (pls (gs_cluster (start_task time k s))) = length (pls (gs_cluster s))"
  "waiting_queue (start_task time k s) = waiting_queue s"
  "length (reqs (start_task time k s)) = length (reqs s)"
  "urgent_queue (start_task time k s) =
     urgent_queue s @ (if started_state s k = Returned then [t_request (tasks s ! k)] else [])"
  "completion_event (reqs (start_task time k s) ! j) = completion_event (reqs s ! j)"
  by (auto simp: start_task_def started_state_def Let_def server_defs queue_put_def nth_update_if split: option.split)

lemma start_inv:
  assumes inv: "server_inv s" and k: "k < length (tasks s)" "t_state (tasks s ! k) = Created"
  shows "server_inv (start_task time k s)"
proof -
  let ?s' = "start_task time k s" and ?i = "t_request (tasks s ! k)" and ?c = "gs_cluster s"
  let ?idx = "t_index (tasks s ! k)"
  let ?r = "pipelines ?c ! ?idx" and ?st = "started_state s k"
  have acc: "accounted s = all_requests s" and c: "counted s" and nb: "numbered s" using inv by (simp_all add: server_inv_def)
  have i: "?i < length (reqs s)" using task_request(1) [OF acc k(1)] k(2) by simp
  have r: "?r < length (pls ?c)" if "?idx < length (pipelines ?c)" using c that by (auto simp: counted_def)
  note t' = start_task_fields [of time k s]
  have "counted ?s'"
  proof (rule counted_update [OF c k(1) t'(1,4,3)])
    show "flying_requests (pls (gs_cluster ?s') ! q) =
       flying_requests (pls ?c ! q) + sends_to q ((tasks s ! k)\<lparr>t_state := ?st\<rparr>) - sends_to q (tasks s ! k)"
      if "q < length (pls ?c)" for q
      using r that flying_ge_0 [OF c that] k(2)
      by (auto simp: start_task_def started_state_def Let_def server_defs sends_to_def add_flying_request_def
          remove_flying_request_def nth_update_if split: option.split)
  qed (use r in \<open>auto simp: started_state_def Let_def split: if_splits\<close>)
  moreover have "tracked ?s'"
    using inv t'(1,2) k(2) by (intro tracked_done [of s ?s' k ?st]) (auto simp: server_inv_def task_done_def)
  moreover have "numbered ?s'"
    using nb by (auto simp: start_task_def Let_def server_defs numbered_def nth_update_if split: option.split)
  moreover have "accounted ?s' = all_requests ?s'"
  proof -
    have "sum_list (map completed (reqs ?s')) = sum_list (map completed (reqs s))"
      using i by (auto simp: start_task_def Let_def server_defs completed_update split: option.split)
    moreover have "sum_list (map holds (tasks ?s')) + (if ?st = Returned then {#?i#} else {#}) = sum_list (map holds (tasks s))"
      using sum_list_map_update [OF k(1), of holds "(tasks s ! k)\<lparr>t_state := ?st\<rparr>"] k(2)
      unfolding t'(1) by (auto simp: holds_def split: if_splits)
    ultimately have "accounted ?s' = accounted s"
      using t'(5,7) by (cases "?st = Returned") (auto simp: accounted_def ac_simps)
    then show ?thesis using acc t'(6) by simp
  qed
  ultimately show ?thesis by (simp add: server_inv_def)
qed

lemma add_inv:
  assumes "server_inv s"
  shows "server_inv (snd (add_request inp urgent s))"
proof -
  let ?s' = "snd (add_request inp urgent s)"
  have "accounted ?s' = add_mset (length (reqs s)) (accounted s)"
    by (simp add: add_request_def Request_create_def Let_def accounted_def completed_def queue_put_def)
  then show ?thesis
    using assms by (auto simp: server_inv_def add_request_def Request_create_def Let_def numbered_def tracked_def
        counted_def nth_append less_Suc_eq atLeast0_lessThan_Suc)
qed

lemma admin_flies: "flies ns c \<Longrightarrow> flies ns (run_admin op c)"
proof -
  have stop: "keeps (flies ns) (gs_stop_pipeline e i)" for e i
    by (auto simp: gs_stop_pipeline_def intro!: keeps_intros)
  have "keeps (flies ns) (thenS (forS target (\<lambda>i. gs_stop_pipeline e (int i))) (remove_pipelines (map int target)))"
    for e target by (auto intro!: keeps_intros stop)
  then have "flies ns c \<Longrightarrow> flies ns (snd (gs_stop_nodes e order ips c))" for e order ips c
    by (auto simp: gs_stop_nodes_def Let_def keeps_def split: prod.split sum.split) (metis snd_conv)+
  moreover have "keeps (flies ns) (gs_stop_node e ip)" "keeps (flies ns) (gs_create_pipeline e fuel t ms cfg thr)"
    "keeps (flies ns) (gs_switch_nodes e fuel as bs)" for e ip fuel t ms cfg thr as bs
    by (auto simp: gs_stop_node_def gs_create_pipeline_def gs_switch_nodes_def split: list.split intro!: keeps_intros stop)
  ultimately show "flies ns c \<Longrightarrow> flies ns (run_admin op c)"
    using stop keeps_flies_op by (cases op) (simp_all add: keeps_def)
qed

lemma admin_inv:
  assumes inv: "server_inv s"
  shows "server_inv (s\<lparr>gs_cluster := run_admin op (gs_cluster s)\<rparr>)"
proof -
  let ?c = "gs_cluster s" and ?c' = "run_admin op (gs_cluster s)"
  have c: "counted s" using inv by (simp add: server_inv_def)
  then have "flies (map flying_requests (pls ?c)) ?c" by (auto simp: flies_def counted_def intro!: exI [of _ 0])
  from admin_flies [OF this, of op] obtain n where
    n: "map flying_requests (pls ?c') = map flying_requests (pls ?c) @ replicate n 0"
    and rs: "\<forall>r \<in> set (pipelines ?c'). r < length (pls ?c')" by (auto simp: flies_def)
  have len: "length (pls ?c') = length (pls ?c) + n" using arg_cong [OF n, of length] by simp
  have zero: "sum_list (map (sends_to q) (tasks s)) = 0" if "length (pls ?c) \<le> q" for q
  proof -
    have "map (sends_to q) (tasks s) = map (\<lambda>_. 0) (tasks s)" using c that by (auto simp: sends_to_def counted_def)
    then show ?thesis by (simp only: sum_list_0)
  qed
  have "map flying_requests (pls ?c') = map (\<lambda>r. sum_list (map (sends_to r) (tasks s))) [0..<length (pls ?c')]"
    unfolding n len using c zero by (auto simp: counted_def map_replicate_const intro!: nth_equalityI simp: nth_append)
  with rs c len show ?thesis
    using inv by (auto simp: server_inv_def numbered_def accounted_def tracked_def counted_def)
qed

lemma cleanup_inv: "server_inv s \<Longrightarrow> server_inv (cleanup_completed_requests s)"
proof -
  assume inv: "server_inv s"
  let ?ids = "map fst (filter (\<lambda>(i, idx, k). task_done (tasks s ! k)) (inflight_requests s))"
  have wf: "dict_wf (inflight_requests s)" using inv by (simp add: server_inv_def tracked_def)
  have "t_request (tasks s ! k) \<notin> set ?ids" if "k < length (tasks s)" "\<not> task_done (tasks s ! k)" for k
  proof
    assume "t_request (tasks s ! k) \<in> set ?ids"
    then obtain idx k' where "(t_request (tasks s ! k), idx, k') \<in> set (inflight_requests s)" "task_done (tasks s ! k')"
      by auto
    then have "dict_get (inflight_requests s) (t_request (tasks s ! k)) = Some (idx, k')" "task_done (tasks s ! k')"
      using wf by (auto simp: dict_wf_def)
    with inv that show False by (auto simp: server_inv_def tracked_def)
  qed
  then show ?thesis
    using inv pd.get_fold_del [OF wf, of ?ids] pd.ok_fold_del [OF wf, of ?ids]
    by (auto simp: server_inv_def numbered_def accounted_def tracked_def counted_def cleanup_completed_requests_def
        Let_def restrict_map_def)
qed

lemma take_request_accounted:
  assumes "take_request s = Some (i, s1)"
  shows "accounted s = accounted s1 + {#i#}" and "tasks s1 = tasks s" and "reqs s1 = reqs s"
    and "inflight_requests s1 = inflight_requests s" and "gs_cluster s1 = gs_cluster s"
    and "request_handler_mode s1 = request_handler_mode s"
  using assms by (auto simp: take_request_def accounted_def dest: q.mset_get split: option.splits)

lemma dispatch_inv:
  assumes inv: "server_inv s" and t: "take_request s = Some (i, s1)"
  shows "server_inv (dispatch i idx s1)"
proof -
  let ?s' = "dispatch i idx s1"
  note tk = take_request_accounted [OF t]
  have acc: "accounted s = all_requests s" and nb: "numbered s" using inv by (simp_all add: server_inv_def)
  have "i \<in># accounted s" by (simp add: tk(1))
  then have i: "i < length (reqs s)" using acc by simp
  have "i \<notin># accounted s1"
    using accounted_count [OF acc, of i] tk(1) by (simp add: not_in_iff)
  then have na: "t_request (tasks s ! k) \<noteq> i" if "k < length (tasks s)" "\<not> task_done (tasks s ! k)" for k
    using that mem_sum_list [of "tasks s ! k" "tasks s" holds]
    by (auto simp: accounted_def tk(2) holds_def task_done_def split: if_splits)
  have "accounted ?s' = accounted s1 + {#i#}"
    by (simp add: accounted_def dispatch_def holds_def)
  moreover have "tracked ?s'"
  proof -
    have "request_id (reqs s ! i) = i" using nb i by (simp add: numbered_def)
    then have "inflight_requests ?s' = dict_set i (idx, length (tasks s)) (inflight_requests s)"
      "tasks ?s' = tasks s @ [\<lparr>t_request = i, t_index = idx, t_state = Created\<rparr>]"
      by (simp_all add: dispatch_def tk)
    with inv na show ?thesis
      by (auto simp: tracked_def server_inv_def map_of_dict_set dict_wf_set nth_append less_Suc_eq)
  qed
  moreover have "counted ?s'"
    using inv by (auto simp: server_inv_def counted_def dispatch_def tk sends_to_def)
  moreover have "numbered ?s'" using nb by (simp add: numbered_def dispatch_def tk)
  moreover have "all_requests ?s' = all_requests s" by (simp add: dispatch_def tk)
  ultimately show ?thesis using acc tk(1) by (simp add: server_inv_def)
qed

lemma round_inv: "server_inv s \<Longrightarrow> server_inv (server_round pick rand_val s)"
  by (auto simp: server_round_def Let_def intro!: cleanup_inv dispatch_inv split: option.split)

lemma step_inv: "gs_step s s' \<Longrightarrow> server_inv s \<Longrightarrow> server_inv s'"
  by (induction rule: gs_step.induct) (auto intro: add_inv round_inv start_inv finish_inv admin_inv)

lemma reachable_inv: "reachable s \<Longrightarrow> server_inv s"
proof (induction rule: reachable.induct)
  case (Init m)
  show ?case
    by (simp add: server_inv_def GlobalServer_init_def numbered_def accounted_def tracked_def counted_def Cluster_init_def)
qed (auto intro: step_inv)

section \<open>Lemmas: attempts of one request\<close>

text \<open>What \<open>_handle_request\<close> does to the request when the client returns.\<close>

definition settle :: "handler_mode \<Rightarrow> py_float \<Rightarrow> response \<Rightarrow> request \<Rightarrow> request" where
  "settle m time resp q =
     (let out = send m time q resp; q = q\<lparr>req_output := Some out\<rparr> in
      if success out then q\<lparr>completion_event := True\<rparr>
      else q\<lparr>halted_at := Some time, retry_count := retry_count q + 1\<rparr>)"

lemma finish_task_settles:
  assumes "t_request (tasks s ! k) < length (reqs s)"
  shows "reqs (finish_task time resp k r s) =
     (reqs s)[t_request (tasks s ! k) := settle (request_handler_mode s) time resp (reqs s ! t_request (tasks s ! k))]"
  using assms by (simp add: finish_task_def Let_def server_defs settle_def)

text \<open>The choices that an attempt to resume a request receives.\<close>

definition got :: "request \<Rightarrow> response \<Rightarrow> (string option \<times> py_float) list" where
  "got q resp = (if snd (continuation q) \<le> 0 then [] else choices_of resp)"

text \<open>
  The attempts of a request under migration: whether the first attempt received a choice, all
  choices received so far, and the request after the last attempt. Between attempts the time of
  the first sending is kept.
\<close>

inductive migrated :: "request \<Rightarrow> bool \<Rightarrow> (string option \<times> py_float) list \<Rightarrow> request \<Rightarrow> bool" for q where
  First: "req_output q = None \<Longrightarrow> sended_at q = Some t \<Longrightarrow>
    migrated q (got q resp \<noteq> []) (got q resp) (settle Migration time resp q)"
| Again: "migrated q b rs q1 \<Longrightarrow> req_output q1 = Some out \<Longrightarrow> \<not> success out \<Longrightarrow>
    migrated q b (rs @ got q1 resp) (settle Migration time resp q1)"

definition attempt_ok :: "request \<Rightarrow> bool \<Rightarrow> (string option \<times> py_float) list \<Rightarrow> request \<Rightarrow> bool" where
  "attempt_ok q b rs q' \<longleftrightarrow> input q' = input q \<and> sended_at q' \<noteq> None \<and>
     (\<exists>out. req_output q' = Some out \<and> generated_text out = text_of rs \<and>
        (if b then balanced out True \<and> output_tokens out = int (length rs)
         else nearly_balanced out True \<and> length (itl out) = length rs) \<and>
        (success out \<longrightarrow> expected_output_len (input q) \<le> output_tokens out) \<and>
        (\<not> success out \<longrightarrow> halted_at q' \<noteq> None))"

lemma settle_fields:
  "input (settle m time resp q) = input q" "sended_at (settle m time resp q) = sended_at q"
  "req_output (settle m time resp q) = Some (send m time q resp)"
  "\<not> success (send m time q resp) \<Longrightarrow> halted_at (settle m time resp q) = Some time"
  by (simp_all add: settle_def Let_def)

lemma first_attempt_ok:
  assumes "req_output q = None" and "sended_at q = Some t"
  shows "attempt_ok q (got q resp \<noteq> []) (got q resp) (settle Migration time resp q)"
proof -
  let ?out = "send Migration time q resp"
  let ?f = "fresh_output (input q)"
  have f: "generated_text ?f = ''''" "output_tokens ?f = 0" "itl ?f = []" "balanced ?f False"
    by (simp_all add: fresh_output_def RequestOutput_init_def balanced_def)
  have c: "continuation q = (prompt (input q), expected_output_len (input q))" "resume_state t q = (?f, False, Some t)"
    using assms by (simp_all add: continuation_def resume_state_def)
  show ?thesis
  proof (cases "expected_output_len (input q) \<le> 0")
    case True
    then have "?out = ?f\<lparr>success := True, latency := time - t\<rparr>" "got q resp = []"
      using assms c by (simp_all add: send_def async_request_def got_def)
    with f True assms show ?thesis by (simp add: attempt_ok_def settle_fields nearly_balanced_def)
  next
    case False
    then have o: "?out = receive (expected_output_len (input q)) t (retry_count q = 0) resp (?f, False, Some t)"
      "got q resp = choices_of resp"
      using assms c by (simp_all add: send_def async_request_def got_def)
    have suc: "success ?out \<Longrightarrow> expected_output_len (input q) \<le> output_tokens ?out"
      unfolding o(1) by (rule receive_success)
    from receive_balanced [OF f(4) o(1)] suc o(2) f(1-3) assms show ?thesis
      by (cases "choices_of resp = []") (simp_all add: attempt_ok_def settle_fields balanced_def nearly_balanced_def)
  qed
qed

lemma next_attempt_ok:
  assumes ok: "attempt_ok q b rs q1" and out: "req_output q1 = Some out" "\<not> success out"
  shows "attempt_ok q b (rs @ got q1 resp) (settle Migration time resp q1)"
proof -
  let ?out = "send Migration time q1 resp" and ?n = "expected_output_len (input q1)"
  obtain t h where th: "sended_at q1 = Some t" "halted_at q1 = Some h" "input q1 = input q"
    and tx: "generated_text out = text_of rs"
    and bal: "if b then balanced out True \<and> output_tokens out = int (length rs)
         else nearly_balanced out True \<and> length (itl out) = length rs"
    using ok out by (auto simp: attempt_ok_def)
  have nonneg: "0 \<le> output_tokens out" using bal by (auto simp: nearly_balanced_def split: if_splits)
  have st: "resume_state t q1 = (out, True, Some h)" using out th by (simp add: resume_state_def)
  show ?thesis
  proof (cases "snd (continuation q1) \<le> 0")
    case True
    then have o: "?out = out\<lparr>success := True, latency := time - t\<rparr>" "got q1 resp = []"
      using th st by (simp_all add: send_def async_request_def got_def)
    moreover have "?n \<le> output_tokens out" using True out nonneg by (auto simp: continuation_def split: if_splits)
    ultimately show ?thesis
      using th tx bal by (auto simp: attempt_ok_def settle_fields balanced_def nearly_balanced_def)
  next
    case False
    then have o: "?out = receive ?n t (retry_count q1 = 0) resp (out, True, Some h)" "got q1 resp = choices_of resp"
      using th st by (simp_all add: send_def async_request_def got_def)
    have suc: "success ?out \<Longrightarrow> ?n \<le> output_tokens ?out" unfolding o(1) by (rule receive_success)
    show ?thesis
    proof (cases b)
      case True
      then have "balanced out True" "output_tokens out = int (length rs)" using bal by simp_all
      with receive_balanced [OF this(1) o(1)] suc o(2) th tx True show ?thesis
        by (simp add: attempt_ok_def settle_fields)
    next
      case False
      then have "nearly_balanced out True" "length (itl out) = length rs" using bal by simp_all
      with receive_nearly_balanced [OF this(1) o(1)] suc o(2) th tx False show ?thesis
        by (simp add: attempt_ok_def settle_fields)
    qed
  qed
qed

lemma migrated_ok: "migrated q b rs q' \<Longrightarrow> attempt_ok q b rs q'"
  by (induction rule: migrated.induct) (auto intro: first_attempt_ok next_attempt_ok)

lemma migrated_retry:
  assumes "migrated q b rs q1" and "req_output q1 = Some out" and "\<not> success out"
  shows "retry_count q1 \<noteq> 0"
  using assms by (cases rule: migrated.cases) (auto simp: settle_def Let_def split: if_splits)

text \<open>A stream that goes on after a first chunk adds a latency for each choice.\<close>

lemma stream_loop_choices:
  "\<exists>o1 r1. length (itl o1) = length (itl out) + length ts \<and>
     (\<forall>ls. stream_loop (map (Choice (Some w) False) ts @ ls) (out, True, Some r) = stream_loop ls (o1, True, Some r1))"
proof (induction ts arbitrary: out r)
  case (Cons t ts)
  from Cons [of "on_choice (Some w) False t r (out, True)" t] show ?case by auto
qed auto

lemma finished_steps:
  assumes "gs_step s s'" and "k < length (tasks s)" and "t_state (tasks s ! k) = NoPipeline"
  shows "k < length (tasks s') \<and> tasks s' ! k = tasks s ! k"
  using assms
  by (induction rule: gs_step.induct)
    (auto simp: add_request_def Request_create_def server_round_def cleanup_completed_requests_def start_task_def
      finish_task_def Let_def server_defs nth_update_if nth_append take_request_def queue_get_def
      split: option.splits list.splits)

lemma select_index:
  assumes "pick < length (ready_pipelines c) \<or> ready_pipelines c = []"
  shows "select_pipeline_index pick rand_val c = - 1 \<or>
     (\<exists>i < length (pipelines c). select_pipeline_index pick rand_val c = int i)"
proof (cases "ready_pipelines c = []")
  case False
  let ?r = "ready_pipelines c" and ?ws = "map (ideal_throughput \<circ> snd) (ready_pipelines c)"
  have "\<exists>k < length ?r. select_pipeline_index pick rand_val c = int (fst (?r ! k))"
  proof (cases "first_above rand_val (zip (map fst ?r) (cumulative (sum_list ?ws) 0 ?ws))")
    case None
    with False assms show ?thesis
      by (cases "sum_list ?ws \<le> 0")
        (auto simp: select_pipeline_index_def Let_def last_conv_nth intro: exI [of _ "length (ready_pipelines c) - 1"])
  next
    case (Some i)
    with first_above_Some [OF Some] False assms show ?thesis
      by (cases "sum_list ?ws \<le> 0") (auto simp: select_pipeline_index_def Let_def)
  qed
  then obtain k where k: "k < length ?r" "select_pipeline_index pick rand_val c = int (fst (?r ! k))" by blast
  have "(fst (?r ! k), snd (?r ! k)) \<in> set ?r" using k(1) by simp
  with k(2) show ?thesis unfolding set_ready_pipelines by blast
qed (simp add: select_pipeline_index_def)

text \<open>States reached without ever shortening the list of pipelines.\<close>

inductive reachable_growing :: "server \<Rightarrow> bool" where
  Init: "reachable_growing (GlobalServer_init Cluster_init m)"
| Step: "reachable_growing s \<Longrightarrow> gs_step s s' \<Longrightarrow>
    length (pipelines (gs_cluster s)) \<le> length (pipelines (gs_cluster s')) \<Longrightarrow> reachable_growing s'"

definition indexed :: "server \<Rightarrow> bool" where
  "indexed s \<longleftrightarrow> (\<forall>t \<in> set (tasks s). t_state t \<noteq> NoPipeline \<and>
     (t_state t = Created \<longrightarrow> t_index t < length (pipelines (gs_cluster s))))"

lemma indexed_update:
  assumes "indexed s" and "tasks s' = (tasks s)[k := t]" and "pipelines (gs_cluster s') = pipelines (gs_cluster s)"
    and "t_state t \<notin> {NoPipeline, Created}"
  shows "indexed s'"
  using assms by (auto simp: indexed_def dest!: set_update_subset_insert [THEN subsetD])

lemma indexed_step:
  assumes "gs_step s s'" and "indexed s"
    and "length (pipelines (gs_cluster s)) \<le> length (pipelines (gs_cluster s'))"
  shows "indexed s'"
  using assms
proof (induction rule: gs_step.induct)
  case (Round pick s rand_val)
  from select_index [OF Round(1), of rand_val] Round.prems(1) show ?case
    by (auto simp: server_round_def cleanup_completed_requests_def Let_def indexed_def take_request_def queue_get_def
        dispatch_def split: option.splits list.splits)
next
  case (Start k s time)
  then have "t_index (tasks s ! k) < length (pipelines (gs_cluster s))" by (auto simp: indexed_def)
  then have "started_state s k \<notin> {NoPipeline, Created}" by (auto simp: started_state_def Let_def)
  then show ?case using indexed_update [OF Start.prems(1) start_task_fields(1,3)] by simp
next
  case (Finish k s r time resp)
  show ?case
    by (rule indexed_update [OF Finish.prems(1), of _ k "(tasks s ! k)\<lparr>t_state := Returned\<rparr>"])
      (simp_all add: finish_task_def Let_def server_defs)
qed (auto simp: add_request_def Request_create_def Let_def indexed_def)

section \<open>Lemmas: the life of a request\<close>

text \<open>
  The abstract view of the server: each request is pending, active, completed or lost. Its steps
  are the arrival of a request and the changes of phase of one request.
\<close>

datatype phase = Pending | Active | Completed | Lost

inductive lifecycle :: "(nat \<rightharpoonup> phase) \<Rightarrow> (nat \<rightharpoonup> phase) \<Rightarrow> bool" where
  Stutter: "lifecycle m m"
| Arrive: "m i = None \<Longrightarrow> lifecycle m (m(i \<mapsto> Pending))"
| Assign: "m i = Some Pending \<Longrightarrow> lifecycle m (m(i \<mapsto> Active))"
| Retry: "m i = Some Active \<Longrightarrow> lifecycle m (m(i \<mapsto> Pending))"
| Complete: "m i = Some Active \<Longrightarrow> lifecycle m (m(i \<mapsto> Completed))"
| Lose: "m i = Some Active \<Longrightarrow> lifecycle m (m(i \<mapsto> Lost))"

definition queued :: "server \<Rightarrow> nat \<Rightarrow> bool" where
  "queued s i \<longleftrightarrow> i \<in> set (urgent_queue s) \<or> i \<in> set (waiting_queue s)"

definition served :: "server \<Rightarrow> nat \<Rightarrow> bool" where
  "served s i \<longleftrightarrow> (\<exists>t \<in> set (tasks s). t_request t = i \<and> \<not> task_done t)"

definition phase_of :: "server \<Rightarrow> nat \<Rightarrow> phase option" where
  "phase_of s i =
     (if i \<ge> length (reqs s) then None
      else if queued s i then Some Pending
      else if completion_event (reqs s ! i) then Some Completed
      else if served s i then Some Active else Some Lost)"

lemma not_completed:
  assumes "server_inv s" and "i < length (reqs s)" and "i \<notin># sum_list (map completed (reqs s))"
  shows "\<not> completion_event (reqs s ! i)"
proof
  assume "completion_event (reqs s ! i)"
  then have "request_id (reqs s ! i) \<in># sum_list (map completed (reqs s))"
    using mem_sum_list [of "reqs s ! i" "reqs s" completed] assms(2) by (auto simp: completed_def)
  with assms show False by (auto simp: server_inv_def numbered_def)
qed

lemma phase_active:
  assumes inv: "server_inv s" and k: "k < length (tasks s)" "\<not> task_done (tasks s ! k)"
  shows "phase_of s (t_request (tasks s ! k)) = Some Active"
    and "k' < length (tasks s) \<Longrightarrow> \<not> task_done (tasks s ! k') \<Longrightarrow>
       t_request (tasks s ! k') = t_request (tasks s ! k) \<Longrightarrow> k' = k"
proof -
  have acc: "accounted s = all_requests s" and tr: "tracked s" using inv by (simp_all add: server_inv_def)
  have nr: "t_state (tasks s ! k) \<noteq> Returned" using k(2) by (simp add: task_done_def)
  note r = task_request [OF acc k(1) nr]
  have "served s (t_request (tasks s ! k))" using k by (auto simp: served_def)
  with not_completed [OF inv r(1)] r show "phase_of s (t_request (tasks s ! k)) = Some Active"
    by (simp add: phase_of_def queued_def)
  show "k' < length (tasks s) \<Longrightarrow> \<not> task_done (tasks s ! k') \<Longrightarrow> t_request (tasks s ! k') = t_request (tasks s ! k) \<Longrightarrow> k' = k"
    using tr k unfolding tracked_def by (metis option.inject prod.inject)
qed

text \<open>After a task is done, its request is served by no other.\<close>

lemma served_update:
  assumes inv: "server_inv s" and k: "k < length (tasks s)" "\<not> task_done (tasks s ! k)"
    and t: "tasks s' = (tasks s)[k := (tasks s ! k)\<lparr>t_state := st\<rparr>]"
  shows "served s' j \<longleftrightarrow> (if j = t_request (tasks s ! k) then st \<notin> {Returned, NoPipeline} else served s j)"
proof -
  have "served s' j \<longleftrightarrow> (\<exists>k' < length (tasks s). t_request (tasks s ! k') = j \<and>
      (if k' = k then st \<notin> {Returned, NoPipeline} else \<not> task_done (tasks s ! k')))"
    unfolding served_def t set_conv_nth using k(1) by (auto simp: nth_update_if task_done_def split: if_splits)
  moreover have "served s j \<longleftrightarrow> (\<exists>k' < length (tasks s). t_request (tasks s ! k') = j \<and> \<not> task_done (tasks s ! k'))"
    unfolding served_def set_conv_nth by auto
  moreover have "k' = k" if "k' < length (tasks s)" "\<not> task_done (tasks s ! k')" "t_request (tasks s ! k') = t_request (tasks s ! k)" for k'
    using phase_active(2) [OF inv k] that by blast
  ultimately show ?thesis using k by (cases "j = t_request (tasks s ! k)") (simp, metis)+
qed

lemma start_lifecycle:
  assumes inv: "server_inv s" and k: "k < length (tasks s)" "t_state (tasks s ! k) = Created"
  shows "lifecycle (phase_of s) (phase_of (start_task time k s))"
proof -
  let ?i = "t_request (tasks s ! k)" and ?s' = "start_task time k s"
  have nd: "\<not> task_done (tasks s ! k)" using k(2) by (simp add: task_done_def)
  note act = phase_active(1) [OF inv k(1) nd]
  let ?st = "started_state s k"
  note t = start_task_fields(1) [of time k s] and u = start_task_fields(7,5) [of time k s]
    and q = start_task_fields(6,8) [of time k s]
  have st: "?st \<noteq> Created" by (simp add: started_state_def Let_def)
  have other: "phase_of ?s' j = phase_of s j" if "j \<noteq> ?i" for j
    using that served_update [OF inv k(1) nd t, of j] u q by (simp add: phase_of_def queued_def)
  have i: "?i < length (reqs s)" "\<not> queued s ?i" "\<not> completion_event (reqs s ! ?i)"
    using act by (auto simp: phase_of_def split: if_splits)
  have "phase_of ?s' ?i = Some (if ?st = Returned then Pending else if ?st = NoPipeline then Lost else Active)"
    using served_update [OF inv k(1) nd t, of ?i] u q i by (auto simp: phase_of_def queued_def)
  then have "phase_of ?s' = (phase_of s)(?i \<mapsto> (if ?st = Returned then Pending else if ?st = NoPipeline then Lost else Active))"
    using other by (auto simp: fun_eq_iff)
  moreover have "phase_of s = (phase_of s)(?i \<mapsto> Active)" using act by (simp add: fun_upd_idem)
  ultimately show ?thesis using act by (auto intro: lifecycle.intros)
qed

lemma finish_lifecycle:
  assumes inv: "server_inv s" and k: "k < length (tasks s)" "t_state (tasks s ! k) = Sending r"
  shows "lifecycle (phase_of s) (phase_of (finish_task time resp k r s))"
proof -
  let ?i = "t_request (tasks s ! k)" and ?s' = "finish_task time resp k r s"
  let ?b = "success (send (request_handler_mode s) time (reqs s ! ?i) resp)"
  have nd: "\<not> task_done (tasks s ! k)" using k(2) by (simp add: task_done_def)
  note act = phase_active(1) [OF inv k(1) nd]
  have t: "tasks ?s' = (tasks s)[k := (tasks s ! k)\<lparr>t_state := Returned\<rparr>]"
    and u: "urgent_queue ?s' = urgent_queue s @ (if ?b then [] else [?i])" "waiting_queue ?s' = waiting_queue s"
    by (simp_all add: finish_task_def Let_def server_defs queue_put_def)
  have i: "?i < length (reqs s)" "\<not> queued s ?i" "\<not> completion_event (reqs s ! ?i)"
    using act by (auto simp: phase_of_def split: if_splits)
  have q: "reqs ?s' = (reqs s)[?i := settle (request_handler_mode s) time resp (reqs s ! ?i)]"
    by (rule finish_task_settles [OF i(1)])
  have ev: "completion_event (settle (request_handler_mode s) time resp (reqs s ! ?i)) = ?b"
    using i(3) by (simp add: settle_def Let_def)
  have other: "phase_of ?s' j = phase_of s j" if "j \<noteq> ?i" for j
    using that served_update [OF inv k(1) nd t, of j] u by (simp add: phase_of_def queued_def q nth_update_if)
  have "phase_of ?s' ?i = Some (if ?b then Completed else Pending)"
    using u i ev by (auto simp: phase_of_def queued_def q)
  then have "phase_of ?s' = (phase_of s)(?i \<mapsto> (if ?b then Completed else Pending))"
    using other by (auto simp: fun_eq_iff)
  then show ?thesis using act by (auto intro: lifecycle.intros)
qed

lemma phase_of_cong:
  assumes "reqs s' = reqs s" and "urgent_queue s' = urgent_queue s" and "waiting_queue s' = waiting_queue s" and "tasks s' = tasks s"
  shows "phase_of s' = phase_of s"
  using assms by (auto simp: fun_eq_iff phase_of_def queued_def served_def)

lemma round_lifecycle:
  assumes inv: "server_inv s"
  shows "lifecycle (phase_of s) (phase_of (server_round pick rand_val s))"
proof (cases "select_pipeline_index pick rand_val (gs_cluster s) = - 1 \<or> take_request s = None")
  case True
  then have "phase_of (server_round pick rand_val s) = phase_of s"
    by (intro phase_of_cong) (auto simp: server_round_def cleanup_completed_requests_def Let_def)
  then show ?thesis by (simp add: lifecycle.Stutter)
next
  case False
  then obtain i s1 where t: "take_request s = Some (i, s1)" by auto
  let ?idx = "nat (select_pipeline_index pick rand_val (gs_cluster s))"
  have "phase_of (server_round pick rand_val s) = phase_of (dispatch i ?idx s1)"
    using False t by (intro phase_of_cong) (auto simp: server_round_def cleanup_completed_requests_def Let_def)
  note tk = take_request_accounted [OF t]
  have acc: "accounted s = all_requests s" using inv by (simp add: server_inv_def)
  have "i \<in># accounted s" by (simp add: tk(1))
  then have i: "i < length (reqs s)" using acc by simp
  have n1: "i \<notin># accounted s1" using accounted_count [OF acc, of i] tk(1) by (simp add: not_in_iff)
  have q: "queued s j \<longleftrightarrow> j = i \<or> queued s1 j" for j
    using t by (auto simp: take_request_def queue_get_def queued_def split: option.splits list.splits)
  have nq: "\<not> queued s1 i" using n1 by (auto simp: queued_def accounted_def)
  have nc: "\<not> completion_event (reqs s ! i)"
    using n1 not_completed [OF inv i] by (auto simp: accounted_def tk(3))
  have sv: "served (dispatch i ?idx s1) j \<longleftrightarrow> j = i \<or> served s j" for j
    by (auto simp: served_def dispatch_def tk(2) task_done_def)
  have "phase_of (dispatch i ?idx s1) j = ((phase_of s)(i \<mapsto> Active)) j" for j
    using i nq nc sv q by (auto simp: phase_of_def queued_def dispatch_def tk(2,3))
  then have "phase_of (dispatch i ?idx s1) = (phase_of s)(i \<mapsto> Active)" by (simp add: fun_eq_iff)
  moreover have "phase_of s i = Some Pending" using i q by (simp add: phase_of_def)
  ultimately show ?thesis
    using \<open>phase_of (server_round pick rand_val s) = phase_of (dispatch i ?idx s1)\<close> by (simp add: lifecycle.Assign)
qed

lemma add_lifecycle: "server_inv s \<Longrightarrow> lifecycle (phase_of s) (phase_of (snd (add_request inp urgent s)))"
proof -
  assume inv: "server_inv s"
  let ?n = "length (reqs s)" and ?s' = "snd (add_request inp urgent s)"
  have "queued ?s' j \<longleftrightarrow> j = ?n \<or> queued s j" for j
    by (auto simp: add_request_def Request_create_def Let_def queued_def queue_put_def)
  moreover have "reqs ?s' ! j = reqs s ! j" if "j < ?n" for j
    using that by (simp add: add_request_def Request_create_def Let_def nth_append)
  moreover have "length (reqs ?s') = Suc ?n" "tasks ?s' = tasks s"
    by (simp_all add: add_request_def Request_create_def Let_def)
  ultimately have "phase_of ?s' j = ((phase_of s)(?n \<mapsto> Pending)) j" for j
    by (cases j ?n rule: linorder_cases) (auto simp: phase_of_def served_def)
  then have "phase_of ?s' = (phase_of s)(?n \<mapsto> Pending)" by (simp add: fun_eq_iff)
  moreover have "phase_of s ?n = None" by (simp add: phase_of_def)
  ultimately show ?thesis by (simp add: lifecycle.Arrive)
qed

section \<open>Properties\<close>

text \<open>
  C1. The server implements the life cycle of requests. In the abstract view each request is
  pending, active, completed or lost; every step of the server, from a reachable state, is a step
  of the life cycle, or changes no request's phase. In particular no step touches two requests,
  and a completed request stays completed.
\<close>

theorem server_refines_lifecycle:
  assumes "reachable s" and "gs_step s s'"
  shows "lifecycle (phase_of s) (phase_of s')"
proof -
  have inv: "server_inv s" by (rule reachable_inv [OF assms(1)])
  from assms(2) show ?thesis
  proof (cases rule: gs_step.cases)
    case (Admin op)
    then have "phase_of s' = phase_of s" by (intro phase_of_cong) simp_all
    then show ?thesis by (simp add: lifecycle.Stutter)
  qed (auto intro: add_lifecycle round_lifecycle start_lifecycle finish_lifecycle inv)
qed

theorem server_refines_lifecycle_witness:
  "lifecycle (phase_of (GlobalServer_init Cluster_init Migration))
     (phase_of (snd (add_request (input example_request) True (GlobalServer_init Cluster_init Migration))))"
  by (rule server_refines_lifecycle [OF reachable.Init gs_step.Add])

text \<open>
  C4. No request is duplicated or forgotten. In every reachable state each request ever added is
  in exactly one place: one of the queues, a task that has not returned (a task that found no
  pipeline included), or completed; and each task that is not done is tracked as in flight, under
  its request's number, with the index it was given.
\<close>

theorem request_conservation:
  assumes "reachable s"
  shows "mset (urgent_queue s) + mset (waiting_queue s) +
       mset (map t_request (filter (\<lambda>t. t_state t \<noteq> Returned) (tasks s))) +
       mset (filter (\<lambda>i. completion_event (reqs s ! i)) [0..<length (reqs s)]) = mset [0..<length (reqs s)] \<and>
     (\<forall>k < length (tasks s). \<not> task_done (tasks s ! k) \<longrightarrow>
        dict_get (inflight_requests s) (t_request (tasks s ! k)) = Some (t_index (tasks s ! k), k))"
proof -
  have inv: "server_inv s" by (rule reachable_inv [OF assms])
  have h: "mset (map t_request (filter (\<lambda>t. t_state t \<noteq> Returned) ts)) = sum_list (map holds ts)" for ts
    by (induction ts) (simp_all add: holds_def)
  have c: "n \<le> length (reqs s) \<Longrightarrow> mset (filter (\<lambda>i. completion_event (reqs s ! i)) [0..<n]) =
      sum_list (map completed (take n (reqs s)))" for n
  proof (induction n)
    case (Suc n)
    then show ?case using inv by (simp add: take_Suc_conv_app_nth completed_def server_inv_def numbered_def)
  qed simp
  show ?thesis
    unfolding h using inv c [of "length (reqs s)"] by (simp add: server_inv_def accounted_def tracked_def)
qed

theorem request_conservation_witness:
  "mset (waiting_queue (snd (add_request (input example_request) False (GlobalServer_init Cluster_init Migration)))) = {#0#}"
proof -
  have "reachable (snd (add_request (input example_request) False (GlobalServer_init Cluster_init Migration)))"
    by (rule reachable.Step [OF reachable.Init gs_step.Add])
  from request_conservation [OF this] show ?thesis
    by (simp add: add_request_def Request_create_def GlobalServer_init_def Let_def)
qed

text \<open>
  C2. Flying requests. In every reachable state the counter of each pipeline object, listed or
  not, is exactly the number of tasks that wait for it, so that no decrement is cut off at zero
  and no capacity is lost when requests fail or pipelines are removed.
\<close>

theorem flying_requests_exact:
  assumes "reachable s" and "r < length (pls (gs_cluster s))"
  shows "flying_requests (the_pipeline (gs_cluster s) r) = int (length (filter (\<lambda>t. t_state t = Sending r) (tasks s)))"
proof -
  have "counted s" using reachable_inv [OF assms(1)] by (simp add: server_inv_def)
  moreover have "sum_list (map (sends_to r) ts) = int (length (filter (\<lambda>t. t_state t = Sending r) ts))" for ts
    by (induction ts) (simp_all add: sends_to_def)
  ultimately show ?thesis using counted_flying [OF _ assms(2)] by simp
qed

text \<open>A run: a pipeline is created, a request arrives and is dispatched to it.\<close>

definition demo_server :: server where
  "demo_server = server_round 0 0 (snd (add_request (input example_request) False
     ((GlobalServer_init Cluster_init Migration)\<lparr>gs_cluster :=
       run_admin (GCreate ready_env 2 0 [Auto ''a'' 5, Auto ''b'' 3] ready_cfg 1) Cluster_init\<rparr>)))"

lemma demo_reachable: "reachable demo_server"
proof -
  let ?s0 = "GlobalServer_init Cluster_init Migration"
  let ?s1 = "?s0\<lparr>gs_cluster := run_admin (GCreate ready_env 2 0 [Auto ''a'' 5, Auto ''b'' 3] ready_cfg 1) (gs_cluster ?s0)\<rparr>"
  let ?s2 = "snd (add_request (input example_request) False ?s1)"
  have c: "gs_cluster ?s0 = Cluster_init" by (simp add: GlobalServer_init_def)
  have "reachable ?s2"
    by (rule reachable.Step [OF reachable.Step [OF reachable.Init gs_step.Admin] gs_step.Add])
  moreover have "0 < length (ready_pipelines (gs_cluster ?s2)) \<or> ready_pipelines (gs_cluster ?s2) = []" by blast
  ultimately have "reachable (server_round 0 0 ?s2)" by (rule reachable.Step [OF _ gs_step.Round])
  then show ?thesis unfolding demo_server_def c .
qed

lemma demo_task:
  "length (tasks demo_server) = 1" "t_state (tasks demo_server ! 0) = Created" "length (pls (gs_cluster demo_server)) = 1"
  by code_simp+

theorem flying_requests_exact_witness:
  "flying_requests (the_pipeline (gs_cluster (start_task 0 0 demo_server)) 0) =
     int (length (filter (\<lambda>t. t_state t = Sending 0) (tasks (start_task 0 0 demo_server))))"
  by (rule flying_requests_exact [OF reachable.Step [OF demo_reachable gs_step.Start]])
    (simp_all add: demo_task start_task_fields)

text \<open>
  C7. Nothing is lost while no pipeline is removed. In a run in which the list of pipelines never
  becomes shorter, whatever else happens to the pipelines, every request is pending, active or
  completed.
\<close>

theorem no_request_lost:
  assumes "reachable_growing s" and "i < length (reqs s)"
  shows "phase_of s i \<in> {Some Pending, Some Active, Some Completed}"
proof -
  have "server_inv s \<and> indexed s"
    using assms(1)
  proof (induction rule: reachable_growing.induct)
    case (Init m)
    then show ?case using reachable_inv [OF reachable.Init] by (simp add: indexed_def GlobalServer_init_def)
  qed (auto intro: step_inv indexed_step)
  then have inv: "server_inv s" and ix: "indexed s" by simp_all
  have "i \<in># accounted s" using inv assms(2) by (simp add: server_inv_def)
  then consider "queued s i" | t where "t \<in> set (tasks s)" "i \<in># holds t" | q where "q \<in> set (reqs s)" "i \<in># completed q"
    by (auto simp: accounted_def queued_def)
  then show ?thesis
  proof cases
    case 2
    then have "served s i" using ix by (auto simp: holds_def served_def indexed_def task_done_def split: if_splits)
    then show ?thesis using assms(2) by (simp add: phase_of_def)
  next
    case 3
    then have "completion_event (reqs s ! i)"
      using inv by (auto simp: completed_def server_inv_def numbered_def in_set_conv_nth split: if_splits)
    then show ?thesis using assms(2) by (simp add: phase_of_def)
  qed (use assms(2) in \<open>simp add: phase_of_def\<close>)
qed

theorem no_request_lost_witness:
  "phase_of (snd (add_request (input example_request) False (GlobalServer_init Cluster_init Migration))) 0
     \<in> {Some Pending, Some Active, Some Completed}"
proof -
  let ?s = "GlobalServer_init Cluster_init Migration"
  have "reachable_growing (snd (add_request (input example_request) False ?s))"
    by (rule reachable_growing.Step [OF reachable_growing.Init gs_step.Add])
      (simp add: add_request_def Request_create_def Let_def)
  then show ?thesis by (rule no_request_lost) (simp add: add_request_def Request_create_def Let_def)
qed

text \<open>
  C36. Removal can lose a request for good. When a task starts after the list of pipelines has
  become too short for its index, \<open>_handle_request\<close> returns without putting the request back. From
  then on the request is lost: in every later state it is in no queue, no task serves it, and its
  completion is never signalled, so that a caller that waits for it waits forever.
\<close>

theorem lost_forever:
  assumes "reachable s" and "k < length (tasks s)" and "t_state (tasks s ! k) = NoPipeline" and "gs_step\<^sup>*\<^sup>* s s'"
  shows "phase_of s' (t_request (tasks s ! k)) = Some Lost"
proof -
  have "reachable s' \<and> k < length (tasks s') \<and> tasks s' ! k = tasks s ! k"
    using assms(4,1-3)
  proof (induction rule: rtranclp_induct)
    case (step s1 s2)
    then show ?case using finished_steps [OF step(2), of k] by (auto intro: reachable.Step)
  qed simp
  then have inv: "server_inv s'" and k: "k < length (tasks s')" "tasks s' ! k = tasks s ! k"
    by (auto intro: reachable_inv)
  let ?i = "t_request (tasks s ! k)"
  have acc: "accounted s' = all_requests s'" using inv by (simp add: server_inv_def)
  note r = task_request [OF acc k(1)]
  have i: "?i < length (reqs s')" "\<not> queued s' ?i" "?i \<notin># sum_list (map completed (reqs s'))"
    using r k(2) assms(3) by (simp_all add: queued_def)
  have "\<not> served s' ?i"
  proof
    assume "served s' ?i"
    then obtain k' where k': "k' < length (tasks s')" "t_request (tasks s' ! k') = ?i" "\<not> task_done (tasks s' ! k')"
      by (auto simp: served_def in_set_conv_nth)
    then have "t_state (tasks s' ! k') \<noteq> Returned" "k' \<noteq> k" using k assms(3) by (auto simp: task_done_def)
    with held_once [OF acc k'(1) k(1)] k'(2) k(2) assms(3) show False by simp
  qed
  with i not_completed [OF inv i(1,3)] show ?thesis by (simp add: phase_of_def)
qed

text \<open>The pipeline of the demonstration run is stopped and removed before the task of its request runs.\<close>

definition demo_lost :: server where
  "demo_lost = start_task 0 0 (demo_server\<lparr>gs_cluster :=
     run_admin (GStopNodes ready_env [] [''a'']) (gs_cluster demo_server)\<rparr>)"

lemma demo_lost_task:
  "length (tasks demo_lost) = 1" "t_state (tasks demo_lost ! 0) = NoPipeline" "t_request (tasks demo_lost ! 0) = 0"
  by code_simp+

lemma demo_lost_reachable: "reachable demo_lost"
  unfolding demo_lost_def
  by (rule reachable.Step [OF reachable.Step [OF demo_reachable gs_step.Admin] gs_step.Start]) (simp_all add: demo_task)

theorem lost_forever_witness: "phase_of (snd (add_request (input example_request) False demo_lost)) 0 = Some Lost"
  using lost_forever [OF demo_lost_reachable, of 0 "snd (add_request (input example_request) False demo_lost)"]
  by (simp add: demo_lost_task r_into_rtranclp gs_step.Add)

text \<open>
  C3. Migration loses no text and generates none twice. After any number of interrupted attempts the output of a
  request is the text of all choices received, in order; if the first attempt received a
  choice, the number of tokens is exactly the number of choices; success means that there are
  at least as many tokens as expected; and the next attempt, if one is needed, asks for the rest: its prompt
  is the original one followed by everything generated.
\<close>

theorem migration_accounting:
  assumes "migrated q b rs q'"
  shows "\<exists>out. req_output q' = Some out \<and> generated_text out = text_of rs \<and>
     (if b then output_tokens out = int (length rs)
      else output_tokens out \<in> {int (length rs), int (length rs) + 1}) \<and>
     (success out \<longrightarrow> expected_output_len (input q) \<le> output_tokens out) \<and>
     pay_prompt (migration_payload q') = prompt (input q) @ text_of rs \<and>
     (text_of rs \<noteq> '''' \<longrightarrow> pay_max_tokens (migration_payload q') = expected_output_len (input q) - output_tokens out)"
proof -
  obtain out where o: "input q' = input q" "req_output q' = Some out" "generated_text out = text_of rs"
    "if b then balanced out True \<and> output_tokens out = int (length rs)
         else nearly_balanced out True \<and> length (itl out) = length rs"
    "success out \<longrightarrow> expected_output_len (input q) \<le> output_tokens out"
    using migrated_ok [OF assms] by (auto simp: attempt_ok_def)
  then have "if b then output_tokens out = int (length rs)
      else output_tokens out \<in> {int (length rs), int (length rs) + 1}"
    by (cases b) (auto simp: nearly_balanced_def)
  with o(1-3,5) show ?thesis by (cases b) (simp_all add: migration_payload_def continuation_def)
qed

text \<open>Two attempts: the first stream breaks off after one choice, the second brings the other.\<close>

definition interrupted :: response where
  "interrupted = Stream [Choice (Some ''c'') False 1, Drop ''closed''] 2"

definition remainder :: response where
  "remainder = Stream [Choice (Some ''d'') True 4, DoneMark] 4"

definition sent_request :: request where
  "sent_request = example_request\<lparr>sended_at := Some 0\<rparr>"

lemma sent_request_attempts:
  "migrated sent_request (got sent_request interrupted \<noteq> []) (got sent_request interrupted)
     (settle Migration 2 interrupted sent_request)"
  "req_output (settle Migration 2 interrupted sent_request) = Some (send Migration 2 sent_request interrupted)"
  "\<not> success (send Migration 2 sent_request interrupted)"
  "got sent_request interrupted = [(Some ''c'', 1)]"
  "got (settle Migration 2 interrupted sent_request) remainder = [(Some ''d'', 4)]"
  by (rule migrated.First [of _ 0], code_simp, code_simp) code_simp+

theorem migration_accounting_witness:
  "\<exists>out. req_output (settle Migration 5 remainder (settle Migration 2 interrupted sent_request)) = Some out \<and>
     generated_text out = ''cd'' \<and> output_tokens out = 2"
  using migration_accounting [OF migrated.Again [OF sent_request_attempts(1-3), of remainder 5]]
  by (auto simp: sent_request_attempts(4,5))

text \<open>
  C37. A request whose first attempt brought nothing is completed one token short. The retry takes
  the empty output for one that has its first token; a finish reason then makes the count one
  more than the number of choices received, and the request passes the check of its length.
\<close>

theorem migration_undercount:
  assumes "migrated q b [] q1" and "req_output q1 = Some out" and "\<not> success out"
    and "expected_output_len (input q) = int (length ts) + 2"
    and "resp = Stream (map (Choice (Some w) False) ts @ [Choice (Some w) True t1, DoneMark]) t2"
  shows "success (send Migration time q1 resp) \<and> length (choices_of resp) = length ts + 1"
proof -
  obtain t h where st: "input q1 = input q" "sended_at q1 = Some t" "halted_at q1 = Some h"
      "generated_text out = ''''" "itl out = []"
    using migrated_ok [OF assms(1)] assms(2,3)
    by (auto simp: attempt_ok_def balanced_def nearly_balanced_def split: if_splits)
  have "retry_count q1 \<noteq> 0" by (rule migrated_retry [OF assms(1-3)])
  then have "send Migration time q1 resp = receive (expected_output_len (input q)) t False resp (out, True, Some h)"
    using st assms(2,4) by (simp add: send_def async_request_def continuation_def resume_state_def)
  moreover obtain o1 r1 where "stream_loop (map (Choice (Some w) False) ts @ ls) (out, True, Some h) =
      stream_loop ls (o1, True, Some r1)" "length (itl o1) = length ts" for ls
    using stream_loop_choices [of out ts w h] st(5) by auto
  moreover have "length (received (map (Choice (Some w) False) ts @ [Choice (Some w) True t1, DoneMark])) = length ts + 1"
    by (induction ts) simp_all
  ultimately show ?thesis using assms(4,5) by (simp add: receive_def conclude_def Let_def choices_of_def)
qed

theorem migration_undercount_witness:
  "success (send Migration 5 (settle Migration 2 (Refused ''down'') sent_request) remainder) \<and>
     length (choices_of remainder) = 1"
proof -
  let ?q1 = "settle Migration 2 (Refused ''down'') sent_request"
  have "migrated sent_request (got sent_request (Refused ''down'') \<noteq> []) (got sent_request (Refused ''down'')) ?q1"
    by (rule migrated.First [of _ 0]) code_simp+
  moreover have "got sent_request (Refused ''down'') = []" by code_simp
  ultimately have "migrated sent_request False [] ?q1" by simp
  moreover have "req_output ?q1 = Some (send Migration 2 sent_request (Refused ''down''))"
    "\<not> success (send Migration 2 sent_request (Refused ''down''))"
    "expected_output_len (input sent_request) = int (length ([] :: py_float list)) + 2" by code_simp+
  ultimately show ?thesis
    using migration_undercount [of sent_request False ?q1 _ "[]" remainder "''d''" 4 4 5] by (simp add: remainder_def)
qed

end
