(* ===== verification/Placement.thy ===== *)
theory Placement
  imports Pipeline
begin

text \<open>
  The placement of the ranks of a pipeline on its nodes, \<open>create_placement_group_and_bundle_indices\<close>
  of \<^verbatim>\<open>utils.py\<close>, which the inference server runs on the rank mapping that the pipeline generated. It
  asks Ray for one bundle per rank, bound to the rank's node, and then assigns a bundle of the
  right node to each rank. Ray is the argument \<open>ray_bundles\<close>: the bundles of the group it makes
  for the requested ones. What is relied on is that they are the requested bundles in some order.
\<close>

section \<open>Operations\<close>

type_synonym ray_bundle = "(string, py_float) dict"

text \<open>The ranks and their addresses; a rank that occurs twice raises.\<close>

definition add_rank :: "string \<Rightarrow> (int, string) dict \<Rightarrow> int \<Rightarrow> (int, string) dict py" where
  "add_rank ip rank_to_ip rank =
     (if rank \<in> set (dict_keys rank_to_ip) then Inl ValueError else Inr (dict_set rank ip rank_to_ip))"

definition rank_to_ip_of :: "(string, int list) dict \<Rightarrow> (nat \<times> (int, string) dict) py" where
  "rank_to_ip_of nrm =
     foldE (\<lambda>(total_ranks, rank_to_ip) (ip, ranks).
       bindE (foldE (add_rank ip) rank_to_ip ranks) (\<lambda>rank_to_ip. Inr (total_ranks + length ranks, rank_to_ip)))
     (0, []) nrm"

definition bundle_for :: "string \<Rightarrow> ray_bundle" where
  "bundle_for ip = [(''GPU'', 1), (''node:'' @ ip, 1 / 1000)]"

definition placement_group_specs :: "nat \<Rightarrow> (int, string) dict \<Rightarrow> ray_bundle list py" where
  "placement_group_specs total_ranks rank_to_ip =
     mapE (\<lambda>rank. bindE (lookupE (dict_get rank_to_ip) (int rank)) (\<lambda>ip. Inr (bundle_for ip))) [0..<total_ranks]"

definition node_of_bundle :: "ray_bundle \<Rightarrow> string option" where
  "node_of_bundle b = map_option (drop 5) (find (\<lambda>k. starts_with k ''node:'') (dict_keys b))"

definition bundle_to_node :: "ray_bundle list \<Rightarrow> (nat, string) dict" where
  "bundle_to_node bundles =
     concat (map (\<lambda>(i, b). case node_of_bundle b of None \<Rightarrow> [] | Some ip \<Rightarrow> [(i, ip)]) (zip [0..<length bundles] bundles))"

record assignment =
  bundle_indices :: "string option list"
  remaining_ranks_for_ip :: "(string, int list) dict"
  assigned_bundles :: "nat list"

text \<open>One round of the assignment loop; after the check of the ranks no index is out of range.\<close>

definition assign_bundle :: "(nat, string) dict \<Rightarrow> assignment \<Rightarrow> nat \<Rightarrow> assignment py" where
  "assign_bundle to_node st bundle_idx =
     (case dict_get to_node bundle_idx of
        None \<Rightarrow> Inl RuntimeError
      | Some ip \<Rightarrow> (case dict_get (remaining_ranks_for_ip st) ip of
          Some (rank # ranks) \<Rightarrow>
            bindE (nthE (bundle_indices st) (nat rank)) (\<lambda>old.
            if old \<noteq> None then Inl RuntimeError
            else Inr (st\<lparr>bundle_indices := (bundle_indices st)[nat rank := Some (str_nat bundle_idx)],
              remaining_ranks_for_ip := (if ranks = [] then dict_del ip (remaining_ranks_for_ip st)
                else dict_set ip ranks (remaining_ranks_for_ip st)),
              assigned_bundles := List.insert bundle_idx (assigned_bundles st)\<rparr>))
        | _ \<Rightarrow> Inl RuntimeError))"

text \<open>The result is the value of \<open>VLLM_RAY_BUNDLE_INDICES\<close> and the group's bundles.\<close>

definition create_placement_group_and_bundle_indices ::
  "(ray_bundle list \<Rightarrow> ray_bundle list) \<Rightarrow> (string, int list) dict \<Rightarrow> (string \<times> ray_bundle list) py" where
  "create_placement_group_and_bundle_indices ray_bundles nrm =
     bindE (rank_to_ip_of nrm) (\<lambda>(total_ranks, rank_to_ip).
     bindE (assertE (set (dict_keys rank_to_ip) = set (map int [0..<total_ranks])) ValueError) (\<lambda>_.
     bindE (placement_group_specs total_ranks rank_to_ip) (\<lambda>specs.
     let bundles = ray_bundles specs in
     bindE (foldE (assign_bundle (bundle_to_node bundles))
       \<lparr>bundle_indices = replicate total_ranks None,
        remaining_ranks_for_ip = map (\<lambda>(ip, ranks). (ip, sort ranks)) nrm,
        assigned_bundles = []\<rparr> [0..<length bundles]) (\<lambda>st.
     bindE (assertE (None \<notin> set (bundle_indices st)) RuntimeError) (\<lambda>_.
     bindE (assertE (remaining_ranks_for_ip st = []) RuntimeError) (\<lambda>_.
     bindE (assertE (length (assigned_bundles st) = length bundles) RuntimeError) (\<lambda>_.
     Inr (join_with '','' (map the (bundle_indices st)), bundles))))))))"

section \<open>Lemmas: the ranks\<close>

definition rank_pairs :: "(string, int list) dict \<Rightarrow> (int, string) dict" where
  "rank_pairs m = concat (map (\<lambda>(ip, ranks). map (\<lambda>r. (r, ip)) ranks) m)"

lemma keys_rank_pairs [simp]: "map fst (rank_pairs m) = concat (map snd m)"
  by (induction m) (auto simp: rank_pairs_def comp_def)

lemma dict_set_fresh: "k \<notin> set (dict_keys d) \<Longrightarrow> dict_set k v d = d @ [(k, v)]"
  by (induction d) auto

lemma foldE_add_rank:
  "foldE (add_rank ip) d ranks =
     (if distinct ranks \<and> set ranks \<inter> set (dict_keys d) = {} then Inr (d @ map (\<lambda>r. (r, ip)) ranks) else Inl ValueError)"
proof (induction ranks arbitrary: d)
  case (Cons r rs)
  show ?case
  proof (cases "r \<in> set (dict_keys d)")
    case False
    then have "add_rank ip d r = Inr (d @ [(r, ip)])" by (simp add: add_rank_def dict_set_fresh)
    with Cons False show ?thesis by auto
  qed (simp add: add_rank_def)
qed simp

lemma rank_to_ip_of_eq:
  "rank_to_ip_of m = (if distinct (concat (map snd m)) then Inr (length (concat (map snd m)), rank_pairs m) else Inl ValueError)"
proof -
  have "foldE (\<lambda>(total_ranks, rank_to_ip) (ip, ranks).
       bindE (foldE (add_rank ip) rank_to_ip ranks) (\<lambda>rank_to_ip. Inr (total_ranks + length ranks, rank_to_ip))) (n, d) m =
     (if distinct (concat (map snd m)) \<and> set (concat (map snd m)) \<inter> set (dict_keys d) = {}
      then Inr (n + length (concat (map snd m)), d @ rank_pairs m) else Inl ValueError)" for n d
  proof (induction m arbitrary: n d)
    case (Cons e m)
    obtain ip ranks where e: "e = (ip, ranks)" by (cases e)
    show ?case
    proof (cases "distinct ranks \<and> set ranks \<inter> set (dict_keys d) = {}")
      case True
      then show ?thesis using Cons [of "n + length ranks" "d @ map (\<lambda>r. (r, ip)) ranks"]
        by (auto simp: e foldE_add_rank rank_pairs_def comp_def)
    qed (auto simp: e foldE_add_rank)
  qed (simp add: rank_pairs_def)
  from this [of 0 "[]"] show ?thesis by (simp add: rank_to_ip_of_def)
qed

lemma node_of_bundle_for [simp]: "node_of_bundle (bundle_for ip) = Some ip"
  by (simp add: node_of_bundle_def bundle_for_def)

lemma bundle_to_node_get:
  assumes "\<And>b. b \<in> set bundles \<Longrightarrow> node_of_bundle b \<noteq> None" and "k < length bundles"
  shows "dict_get (bundle_to_node bundles) k = node_of_bundle (bundles ! k)"
proof -
  have "bundle_to_node bundles = zip [0..<length bundles] (map (the \<circ> node_of_bundle) bundles)"
    using assms(1)
  proof (induction bundles rule: rev_induct)
    case (snoc b bs)
    from snoc.prems [of b] obtain ip where "node_of_bundle b = Some ip" by auto
    with snoc show ?case by (simp add: bundle_to_node_def)
  qed (simp add: bundle_to_node_def)
  moreover from assms obtain ip where "node_of_bundle (bundles ! k) = Some ip" by fastforce
  ultimately show ?thesis using assms(2) by (auto simp: set_zip intro!: exI [of _ k])
qed

text \<open>The number of ranks of an address.\<close>

definition rank_count :: "(string, int list) dict \<Rightarrow> string \<Rightarrow> nat" where
  "rank_count m ip = (case dict_get m ip of None \<Rightarrow> 0 | Some ranks \<Rightarrow> length ranks)"

lemma count_rank_pairs: "dict_wf m \<Longrightarrow> count (mset (map snd (rank_pairs m))) ip = rank_count m ip"
proof (induction m)
  case (Cons e m)
  obtain ip' ranks where e: "e = (ip', ranks)" by (cases e)
  have "dict_wf m" and n: "ip' \<notin> set (dict_keys m)" using Cons.prems by (simp_all add: dict_wf_def e)
  moreover have "dict_get m ip' = None" using n by (simp only: map_of_eq_None_iff not_False_eq_True set_map)
  moreover have "count (mset (map snd (map (\<lambda>r. (r, ip')) ranks))) ip = (if ip = ip' then length ranks else 0)"
    by (induction ranks) auto
  ultimately show ?case using Cons.IH by (simp add: e rank_pairs_def rank_count_def)
qed (simp add: rank_pairs_def rank_count_def)

section \<open>Lemmas: the assignment\<close>

text \<open>
  The invariant of the assignment loop after \<open>k\<close> bundles: \<open>own\<close> is the address of a rank, \<open>ns\<close> the
  addresses of the bundles. Each address has as many bundles to come as it has ranks left.
\<close>

definition assigning :: "nat \<Rightarrow> (nat \<Rightarrow> string) \<Rightarrow> string list \<Rightarrow> nat \<Rightarrow> assignment \<Rightarrow> bool" where
  "assigning n own ns k st \<longleftrightarrow>
     dict_wf (remaining_ranks_for_ip st) \<and>
     (\<forall>ip. count (mset (drop k ns)) ip = rank_count (remaining_ranks_for_ip st) ip) \<and>
     (\<forall>ip ranks. dict_get (remaining_ranks_for_ip st) ip = Some ranks \<longrightarrow> ranks \<noteq> [] \<and> distinct ranks \<and>
        (\<forall>r \<in> set ranks. 0 \<le> r \<and> r < int n \<and> own (nat r) = ip)) \<and>
     length (bundle_indices st) = n \<and>
     (\<forall>r < n. bundle_indices st ! r = None \<longleftrightarrow>
        (\<exists>ranks. dict_get (remaining_ranks_for_ip st) (own r) = Some ranks \<and> int r \<in> set ranks)) \<and>
     (\<forall>r < n. \<forall>s. bundle_indices st ! r = Some s \<longrightarrow> (\<exists>j < k. s = str_nat j \<and> ns ! j = own r)) \<and>
     (\<forall>r < n. \<forall>r' < n. bundle_indices st ! r \<noteq> None \<longrightarrow> bundle_indices st ! r = bundle_indices st ! r' \<longrightarrow> r = r') \<and>
     assigned_bundles st = rev [0..<k]"

lemma assign_bundle_step:
  assumes inv: "assigning n own ns k st" and k: "k < length ns" and node: "dict_get to_node k = Some (ns ! k)"
  shows "\<exists>st'. assign_bundle to_node st k = Inr st' \<and> assigning n own ns (Suc k) st'"
proof -
  let ?ip = "ns ! k" and ?rem = "remaining_ranks_for_ip st" and ?bi = "bundle_indices st"
  have wf: "dict_wf ?rem" and cnt: "count (mset (drop k ns)) ip = rank_count ?rem ip"
    and ent: "dict_get ?rem ip = Some ranks \<Longrightarrow> ranks \<noteq> [] \<and> distinct ranks \<and>
        (\<forall>r \<in> set ranks. 0 \<le> r \<and> r < int n \<and> own (nat r) = ip)"
    and len: "length ?bi = n"
    and none: "r < n \<Longrightarrow> ?bi ! r = None \<longleftrightarrow> (\<exists>ranks. dict_get ?rem (own r) = Some ranks \<and> int r \<in> set ranks)"
    and some: "r < n \<Longrightarrow> ?bi ! r = Some s \<Longrightarrow> \<exists>j < k. s = str_nat j \<and> ns ! j = own r"
    and inj: "r < n \<Longrightarrow> r' < n \<Longrightarrow> ?bi ! r \<noteq> None \<Longrightarrow> ?bi ! r = ?bi ! r' \<Longrightarrow> r = r'"
    and asg: "assigned_bundles st = rev [0..<k]" for ip ranks r r' s
    using inv unfolding assigning_def by blast+
  have split: "drop k ns = ?ip # drop (Suc k) ns" using k by (simp add: Cons_nth_drop_Suc)
  then have "rank_count ?rem ?ip \<noteq> 0" using cnt [of ?ip] by auto
  then obtain r rs where rem: "dict_get ?rem ?ip = Some (r # rs)"
    using ent [of ?ip] by (auto simp: rank_count_def neq_Nil_conv split: option.splits)
  have r: "0 \<le> r" "nat r < n" "own (nat r) = ?ip" "distinct (r # rs)" using ent [OF rem] by auto
  have free: "?bi ! nat r = None" using none [OF r(2)] rem r(1,3) by auto
  define rem' where "rem' = (if rs = [] then dict_del ?ip ?rem else dict_set ?ip rs ?rem)"
  have wf': "dict_wf rem'" and get': "dict_get rem' = (dict_get ?rem)(?ip := if rs = [] then None else Some rs)"
    using wf by (simp_all add: rem'_def dict_simps)
  define st' where "st' = st\<lparr>bundle_indices := ?bi[nat r := Some (str_nat k)], remaining_ranks_for_ip := rem',
      assigned_bundles := List.insert k (assigned_bundles st)\<rparr>"
  have run: "assign_bundle to_node st k = Inr st'"
    using node rem free r(2) len by (simp add: assign_bundle_def nthE_def st'_def rem'_def)
  have st': "bundle_indices st' = ?bi[nat r := Some (str_nat k)]" "remaining_ranks_for_ip st' = rem'"
    "assigned_bundles st' = rev [0..<Suc k]" using asg by (simp_all add: st'_def)
  have len': "length (?bi[nat r := Some (str_nat k)]) = n" using len by simp
  have cnt': "count (mset (drop (Suc k) ns)) ip = rank_count rem' ip" for ip
    using cnt [of ip] rem get' unfolding split by (auto simp: rank_count_def split: if_splits option.splits)
  have ent': "dict_get rem' ip = Some ranks \<Longrightarrow> ranks \<noteq> [] \<and> distinct ranks \<and>
      (\<forall>q \<in> set ranks. 0 \<le> q \<and> q < int n \<and> own (nat q) = ip)" for ip ranks
    using ent [of ip] ent [OF rem] get' by (auto split: if_splits)
  have none': "?bi[nat r := Some (str_nat k)] ! q = None \<longleftrightarrow>
      (\<exists>ranks. dict_get rem' (own q) = Some ranks \<and> int q \<in> set ranks)" if "q < n" for q
  proof (cases "q = nat r")
    case True
    then show ?thesis using r get' len by (auto split: if_splits)
  next
    case False
    then have "int q \<noteq> r" by auto
    with False none [OF that] rem get' len that show ?thesis by (auto simp: nth_update_if split: if_splits)
  qed
  have some': "\<exists>j < Suc k. s = str_nat j \<and> ns ! j = own q"
    if "q < n" "?bi[nat r := Some (str_nat k)] ! q = Some s" for q s
    using that some [of q s] r len by (auto simp: nth_update_if less_Suc_eq split: if_splits)
  have inj': "q = q'" if "q < n" "q' < n" "?bi[nat r := Some (str_nat k)] ! q \<noteq> None"
    "?bi[nat r := Some (str_nat k)] ! q = ?bi[nat r := Some (str_nat k)] ! q'" for q q'
    using that inj [of q q'] some [of q] some [of q'] len
    by (auto simp: nth_update_if split: if_splits)
  have "assigning n own ns (Suc k) st'"
    unfolding assigning_def st' using wf' cnt' ent' len' none' some' inj' by blast
  with run show ?thesis by blast
qed

lemma assign_bundles_loop:
  assumes "assigning n own ns 0 st" and "\<And>k. k < length ns \<Longrightarrow> dict_get to_node k = Some (ns ! k)" and "k \<le> length ns"
  shows "\<exists>st'. foldE (assign_bundle to_node) st [0..<k] = Inr st' \<and> assigning n own ns k st'"
  using assms(3)
proof (induction k)
  case (Suc k)
  then obtain st' where "foldE (assign_bundle to_node) st [0..<k] = Inr st'" "assigning n own ns k st'" by auto
  with assign_bundle_step [OF _ _ assms(2), of n own k st'] Suc.prems show ?case by (auto simp: foldE_append)
qed (use assms(1) in simp)

section \<open>Properties\<close>

definition valid_ranks :: "(string, int list) dict \<Rightarrow> bool" where
  "valid_ranks m \<longleftrightarrow> mset (concat (map snd m)) = mset (map int [0..<length (concat (map snd m))])"

lemma valid_ranks_iff:
  "valid_ranks m \<longleftrightarrow> distinct (concat (map snd m)) \<and>
     set (concat (map snd m)) = set (map int [0..<length (concat (map snd m))])"
proof
  assume "valid_ranks m"
  then have "distinct (concat (map snd m)) = distinct (map int [0..<length (concat (map snd m))])"
    "set (concat (map snd m)) = set (map int [0..<length (concat (map snd m))])"
    unfolding valid_ranks_def by (rule mset_eq_imp_distinct_iff, rule mset_eq_setD)
  then show "distinct (concat (map snd m)) \<and> set (concat (map snd m)) = set (map int [0..<length (concat (map snd m))])"
    by (simp add: distinct_map)
next
  assume "distinct (concat (map snd m)) \<and> set (concat (map snd m)) = set (map int [0..<length (concat (map snd m))])"
  then show "valid_ranks m"
    unfolding valid_ranks_def by (intro set_eq_iff_mset_eq_distinct [THEN iffD1]) (simp_all add: distinct_map)
qed

lemma valid_ranks_range:
  assumes "valid_ranks m" and "r \<in> set (concat (map snd m))"
  shows "0 \<le> r \<and> r < int (length (concat (map snd m)))"
proof -
  have "r \<in> set (map int [0..<length (concat (map snd m))])" using assms by (simp only: valid_ranks_iff)
  then show ?thesis by auto
qed

definition owner :: "(string, int list) dict \<Rightarrow> nat \<Rightarrow> string" where
  "owner m r = the (dict_get (rank_pairs m) (int r))"

lemma dict_get_owner:
  assumes "valid_ranks m" and "r < length (concat (map snd m))"
  shows "dict_get (rank_pairs m) (int r) = Some (owner m r)"
proof -
  have "int r \<in> set (map fst (rank_pairs m))" using assms by (simp only: keys_rank_pairs valid_ranks_iff) auto
  then show ?thesis by (cases "dict_get (rank_pairs m) (int r)") (simp_all only: owner_def map_of_eq_None_iff option.sel set_map simp_thms)
qed

lemma owner_eq:
  assumes "valid_ranks m" and "(ip, ranks) \<in> set m" and "int r \<in> set ranks"
  shows "owner m r = ip"
proof -
  have "(int r, ip) \<in> set (rank_pairs m)" using assms(2,3) by (force simp: rank_pairs_def)
  moreover have "distinct (map fst (rank_pairs m))" using assms(1) by (simp only: keys_rank_pairs valid_ranks_iff)
  ultimately show ?thesis by (simp add: owner_def map_of_eq_Some_iff)
qed

lemma specs_eq:
  assumes "valid_ranks m" and "n = length (concat (map snd m))"
  shows "placement_group_specs n (rank_pairs m) = Inr (map (\<lambda>r. bundle_for (owner m r)) [0..<n])"
  unfolding placement_group_specs_def
  by (rule mapE_total) (use dict_get_owner [OF assms(1)] assms(2) in \<open>simp add: lookupE_def\<close>)

lemma mset_owner:
  assumes "valid_ranks m" and "n = length (concat (map snd m))"
  shows "mset (map (owner m) [0..<n]) = mset (map snd (rank_pairs m))"
proof -
  have "mset (map fst (rank_pairs m)) = mset (map int [0..<n])"
    using assms by (simp only: keys_rank_pairs valid_ranks_def)
  then have "image_mset (owner m \<circ> nat) (mset (map fst (rank_pairs m))) = image_mset (owner m \<circ> nat) (mset (map int [0..<n]))"
    by simp
  then have "mset (map (\<lambda>e. owner m (nat (fst e))) (rank_pairs m)) = mset (map (owner m) [0..<n])"
    unfolding mset_map [symmetric] map_map by (simp only: comp_def nat_int)
  moreover have "owner m (nat (fst e)) = snd e" if mem: "e \<in> set (rank_pairs m)" for e
  proof -
    obtain ip ranks where e: "(ip, ranks) \<in> set m" "fst e \<in> set ranks" "snd e = ip" using mem by (auto simp: rank_pairs_def)
    then have "fst e \<in> set (concat (map snd m))" by force
    then have "0 \<le> fst e" using valid_ranks_range [OF assms(1)] by simp
    with owner_eq [OF assms(1) e(1), of "nat (fst e)"] e show ?thesis by simp
  qed
  then have "map (\<lambda>e. owner m (nat (fst e))) (rank_pairs m) = map snd (rank_pairs m)" by simp
  ultimately show ?thesis by simp
qed

lemma sort_Nil_iff: "sort xs = [] \<longleftrightarrow> xs = []"
  by (metis mset_sort mset_zero_iff_right)

lemma assigning_init:
  assumes "dict_wf m" and "valid_ranks m" and "n = length (concat (map snd m))" and "\<forall>e \<in> set m. snd e \<noteq> []"
    and "mset ns = mset (map (owner m) [0..<n])"
  shows "assigning n (owner m) ns 0
     \<lparr>bundle_indices = replicate n None, remaining_ranks_for_ip = map (\<lambda>(ip, ranks). (ip, sort ranks)) m, assigned_bundles = []\<rparr>"
proof -
  let ?rem = "map (\<lambda>(ip, ranks). (ip, sort ranks)) m"
  have get: "dict_get ?rem ip = map_option sort (dict_get m ip)" for ip by (induction m) auto
  have keys: "dict_keys ?rem = dict_keys m" by (induction m) auto
  have ent: "ranks \<noteq> [] \<and> distinct (sort ranks) \<and> (\<forall>r \<in> set ranks. 0 \<le> r \<and> r < int n \<and> owner m (nat r) = ip)"
    if "dict_get m ip = Some ranks" for ip ranks
  proof -
    have mem: "(ip, ranks) \<in> set m" using that by (rule map_of_SomeD)
    then have sub: "set ranks \<subseteq> set (concat (map snd m))" by force
    have "distinct ranks" using assms(2) mem by (auto simp: valid_ranks_iff distinct_concat_iff)
    moreover have "0 \<le> r \<and> r < int n \<and> owner m (nat r) = ip" if "r \<in> set ranks" for r
      using valid_ranks_range [OF assms(2) subsetD [OF sub that]] that assms(3) owner_eq [OF assms(2) mem, of "nat r"] by simp
    ultimately show ?thesis using assms(4) mem by auto
  qed
  have none: "\<exists>ranks. dict_get m (owner m r) = Some ranks \<and> int r \<in> set ranks" if "r < n" for r
  proof -
    have "(int r, owner m r) \<in> set (rank_pairs m)"
      using dict_get_owner [OF assms(2)] that assms(3) by (auto dest: map_of_SomeD)
    then obtain ranks where "(owner m r, ranks) \<in> set m" "int r \<in> set ranks" by (auto simp: rank_pairs_def)
    with assms(1) show ?thesis by (auto simp: dict_wf_def map_of_eq_Some_iff)
  qed
  have cnt: "count (mset (drop 0 ns)) ip = rank_count ?rem ip" for ip
    using count_rank_pairs [OF assms(1), of ip] assms(5) mset_owner [OF assms(2,3)]
    by (simp add: rank_count_def get split: option.split)
  have wf: "dict_wf ?rem" using assms(1) unfolding dict_wf_def keys .
  have ent': "dict_get ?rem ip = Some ranks \<Longrightarrow> ranks \<noteq> [] \<and> distinct ranks \<and>
      (\<forall>r \<in> set ranks. 0 \<le> r \<and> r < int n \<and> owner m (nat r) = ip)" for ip ranks
    unfolding get using ent [of ip] by (cases "dict_get m ip") (auto simp: sort_Nil_iff simp del: map_of_eq_Some_iff)
  have none': "r < n \<Longrightarrow> (replicate n None ! r = (None :: string option)) \<longleftrightarrow>
      (\<exists>ranks. dict_get ?rem (owner m r) = Some ranks \<and> int r \<in> set ranks)" for r
    unfolding get using none [of r] by (auto simp del: map_of_eq_Some_iff)
  show ?thesis
    unfolding assigning_def assignment.simps using wf cnt ent' none' by auto
qed

lemma placement_run:
  assumes "dict_wf m" and "valid_ranks m" and "n = length (concat (map snd m))" and "\<forall>e \<in> set m. snd e \<noteq> []"
    and "mset bundles = mset (map (\<lambda>r. bundle_for (owner m r)) [0..<n])"
    and "ray (map (\<lambda>r. bundle_for (owner m r)) [0..<n]) = bundles"
  shows "\<exists>idx. create_placement_group_and_bundle_indices ray m = Inr (join_with '','' (map str_nat idx), bundles) \<and>
     length idx = n \<and> distinct idx \<and> (\<forall>r < n. idx ! r < n \<and> bundles ! (idx ! r) = bundle_for (owner m r))"
proof -
  define ns where "ns = map (the \<circ> node_of_bundle) bundles"
  have len: "length bundles = n" using mset_eq_length [OF assms(5)] by simp
  have b: "\<exists>r < n. b = bundle_for (owner m r)" if "b \<in> set bundles" for b
    using that mset_eq_setD [OF assms(5)] by auto
  have nd: "node_of_bundle (bundles ! k) = Some (ns ! k) \<and> bundles ! k = bundle_for (ns ! k)" if "k < n" for k
    using b [of "bundles ! k"] that len by (auto simp: ns_def)
  have "image_mset (the \<circ> node_of_bundle) (mset bundles) = mset (map (owner m) [0..<n])"
    unfolding assms(5) by (simp add: image_mset.compositionality comp_def)
  then have ms: "mset ns = mset (map (owner m) [0..<n])" by (simp add: ns_def)
  have lns: "length ns = n" by (simp add: ns_def len)
  have "dict_get (bundle_to_node bundles) k = Some (ns ! k)" if "k < length ns" for k
    using bundle_to_node_get [of bundles k] b nd [of k] that len lns by fastforce
  from assign_bundles_loop [OF assigning_init [OF assms(1-4) ms] this, of n]
  obtain st where run: "foldE (assign_bundle (bundle_to_node bundles)) \<lparr>bundle_indices = replicate n None,
      remaining_ranks_for_ip = map (\<lambda>(ip, ranks). (ip, sort ranks)) m, assigned_bundles = []\<rparr> [0..<n] = Inr st"
    and inv: "assigning n (owner m) ns n st" using lns by auto
  have "dict_get (remaining_ranks_for_ip st) ip = None" for ip
    using inv lns unfolding assigning_def
    by (cases "dict_get (remaining_ranks_for_ip st) ip") (auto simp: rank_count_def dest: spec [of _ ip])
  then have "dict_get (remaining_ranks_for_ip st) = Map.empty" by (simp add: fun_eq_iff)
  then have fin: "remaining_ranks_for_ip st = []" by simp
  then have "\<forall>r < n. \<exists>j < n. bundle_indices st ! r = Some (str_nat j) \<and> ns ! j = owner m r"
    using inv unfolding assigning_def by fastforce
  then obtain f where f: "\<And>r. r < n \<Longrightarrow> f r < n \<and> bundle_indices st ! r = Some (str_nat (f r)) \<and> ns ! f r = owner m r"
    by metis
  have bi: "bundle_indices st = map (\<lambda>r. Some (str_nat (f r))) [0..<n]"
    using inv f by (intro nth_equalityI) (auto simp: assigning_def)
  have "inj_on f {0..<n}"
    using inv f unfolding assigning_def inj_on_def by (metis atLeastLessThan_iff option.distinct(1))
  then have "distinct (map f [0..<n])" by (simp add: distinct_map)
  moreover have "length (assigned_bundles st) = n" using inv by (simp add: assigning_def)
  moreover have "set (dict_keys (rank_pairs m)) = set (map int [0..<n])" "distinct (concat (map snd m))"
    using assms(2,3) by (simp_all only: keys_rank_pairs valid_ranks_iff)
  moreover have "None \<notin> set (bundle_indices st)" by (auto simp: bi)
  ultimately have "create_placement_group_and_bundle_indices ray m = Inr (join_with '','' (map the (bundle_indices st)), bundles)"
    unfolding create_placement_group_and_bundle_indices_def rank_to_ip_of_eq
    by (simp only: if_True bindE_simps case_prod_conv assms(3) [symmetric] assertE_simps specs_eq [OF assms(2,3)] Let_def
        assms(6) len run fin simp_thms)
  moreover have "map the (bundle_indices st) = map str_nat (map f [0..<n])" by (simp add: bi)
  ultimately show ?thesis using \<open>distinct (map f [0..<n])\<close> f nd by (intro exI [of _ "map f [0..<n]"]) simp
qed

text \<open>The assignment in terms of the mapping's entries.\<close>

lemma placement_valid:
  assumes "dict_wf m" and "valid_ranks m" and "\<forall>e \<in> set m. snd e \<noteq> []" and "\<forall>specs. mset (ray specs) = mset specs"
    and "n = length (concat (map snd m))"
  shows "\<exists>idx bundles. create_placement_group_and_bundle_indices ray m = Inr (join_with '','' (map str_nat idx), bundles) \<and>
       length idx = n \<and> distinct idx \<and>
       (\<forall>(ip, ranks) \<in> set m. \<forall>r. int r \<in> set ranks \<longrightarrow>
          idx ! r < length bundles \<and> node_of_bundle (bundles ! (idx ! r)) = Some ip)"
proof -
  define bundles where "bundles = ray (map (\<lambda>r. bundle_for (owner m r)) [0..<n])"
  have ms: "mset bundles = mset (map (\<lambda>r. bundle_for (owner m r)) [0..<n])" using assms(4) by (simp add: bundles_def)
  from placement_run [OF assms(1,2,5,3) ms, of ray] bundles_def
  obtain idx where i: "create_placement_group_and_bundle_indices ray m = Inr (join_with '','' (map str_nat idx), bundles)"
    "length idx = n" "distinct idx" "\<And>r. r < n \<Longrightarrow> idx ! r < n \<and> bundles ! (idx ! r) = bundle_for (owner m r)" by blast
  have "length bundles = n" using mset_eq_length [OF ms] by simp
  moreover have "r < n \<and> owner m r = ip" if "(ip, ranks) \<in> set m" "int r \<in> set ranks" for ip ranks r
  proof -
    have "int r \<in> set (concat (map snd m))" using that by force
    from valid_ranks_range [OF assms(2) this] show ?thesis using owner_eq [OF assms(2) that] assms(5) by simp
  qed
  ultimately have "\<forall>(ip, ranks) \<in> set m. \<forall>r. int r \<in> set ranks \<longrightarrow>
      idx ! r < length bundles \<and> node_of_bundle (bundles ! (idx ! r)) = Some ip"
    using i(4) by fastforce
  with i(1-3) show ?thesis by blast
qed

text \<open>The mapping that a pipeline generates.\<close>

lemma keys_rank_mapping: "set (dict_keys (rank_mapping_of vs)) = node_ip ` set vs"
proof (induction vs rule: rev_induct)
  case (snoc v vs)
  then show ?case
    by (auto simp: rank_mapping_of_def add_ranks_def Let_def set_keys_dict_set simp del: set_map split: prod.split option.split)
qed (simp add: rank_mapping_of_def)

lemma upto_int: "[0..int n - 1] = map int [0..<n]"
  by (induction n) (simp_all add: upto_rec2)

lemma rank_mapping_valid:
  assumes "\<forall>v \<in> set vs. 0 < tp_size v"
  shows "dict_wf (rank_mapping_of vs)" and "valid_ranks (rank_mapping_of vs)"
    and "\<forall>e \<in> set (rank_mapping_of vs). snd e \<noteq> []"
    and "int (length (concat (map snd (rank_mapping_of vs)))) = sum_list (map tp_size vs)"
proof -
  let ?m = "rank_mapping_of vs"
  have nn: "\<forall>v \<in> set vs. 0 \<le> tp_size v" using assms by auto
  note rm = rank_mapping_mset [OF nn]
  show wf: "dict_wf ?m" using rm by simp
  have pos: "0 \<le> sum_list (map tp_size vs)" using nn by (intro sum_list_nonneg) auto
  have ms: "mset (concat (map snd ?m)) = mset (map int [0..<nat (sum_list (map tp_size vs))])"
    using rm pos upto_int [of "nat (sum_list (map tp_size vs))"] by simp
  from mset_eq_length [OF this] have len: "length (concat (map snd ?m)) = nat (sum_list (map tp_size vs))" by simp
  with ms show "valid_ranks ?m" by (simp add: valid_ranks_def)
  from len pos show "int (length (concat (map snd ?m))) = sum_list (map tp_size vs)" by simp
  show "\<forall>e \<in> set ?m. snd e \<noteq> []"
  proof
    fix e assume e: "e \<in> set ?m"
    then have "fst e \<in> node_ip ` set vs" using keys_rank_mapping [of vs] by force
    then obtain i where i: "i < length vs" "node_ip (vs ! i) = fst e" by (auto simp: in_set_conv_nth)
    then have "\<exists>rs. dict_get ?m (fst e) = Some rs \<and> rank_offset vs i \<in> set rs"
      unfolding dict_get_rank_mapping using assms by auto
    moreover have "dict_get ?m (fst e) = Some (snd e)" using e wf by (simp add: dict_wf_def map_of_eq_Some_iff)
    ultimately show "snd e \<noteq> []" by auto
  qed
qed

text \<open>
  Placement of ranks. Let every address of the mapping have a rank, and let Ray return the
  requested bundles in some order. If the ranks are the numbers from 0 to n - 1, each once, the
  bundle indices that are exported give every rank a bundle of its own on the node of its
  address; otherwise \<open>ValueError\<close> is raised. No other exception occurs.
\<close>

theorem placement_assigns_ranks:
  assumes "dict_wf m" and "\<forall>e \<in> set m. snd e \<noteq> []" and "\<forall>specs. mset (ray specs) = mset specs"
    and "n = length (concat (map snd m))"
  shows "if mset (concat (map snd m)) = mset (map int [0..<n])
     then \<exists>idx bundles. create_placement_group_and_bundle_indices ray m = Inr (join_with '','' (map str_nat idx), bundles) \<and>
       length idx = n \<and> distinct idx \<and>
       (\<forall>(ip, ranks) \<in> set m. \<forall>r. int r \<in> set ranks \<longrightarrow>
          idx ! r < length bundles \<and> node_of_bundle (bundles ! (idx ! r)) = Some ip)
     else create_placement_group_and_bundle_indices ray m = Inl ValueError"
proof (cases "valid_ranks m")
  case True
  then show ?thesis using placement_valid [OF assms(1) True assms(2-4)] assms(4) by (simp add: valid_ranks_def)
next
  case False
  have k: "set (dict_keys (rank_pairs m)) = set (concat (map snd m))" by (simp only: keys_rank_pairs)
  have "create_placement_group_and_bundle_indices ray m = Inl ValueError"
  proof (cases "distinct (concat (map snd m))")
    case True
    with False have "set (dict_keys (rank_pairs m)) \<noteq> set (map int [0..<length (concat (map snd m))])"
      unfolding k valid_ranks_iff by blast
    then show ?thesis
      unfolding create_placement_group_and_bundle_indices_def rank_to_ip_of_eq
      by (simp only: True if_True bindE_simps case_prod_conv assertE_simps simp_thms)
  qed (simp only: create_placement_group_and_bundle_indices_def rank_to_ip_of_eq if_False bindE_simps)
  with False assms(4) show ?thesis unfolding valid_ranks_def by simp
qed

theorem placement_assigns_ranks_witness:
  "\<exists>idx bundles. create_placement_group_and_bundle_indices rev [(''a'', [0, 2]), (''b'', [1])] =
     Inr (join_with '','' (map str_nat idx), bundles) \<and> length idx = 3 \<and> node_of_bundle (bundles ! (idx ! 1)) = Some ''b''"
proof -
  let ?m = "[(''a'', [0, 2]), (''b'', [1])] :: (string, int list) dict"
  have "mset (concat (map snd ?m)) = mset (map int [0..<3])" by (simp add: numeral_3_eq_3 upt_rec)
  then show ?thesis
    using placement_assigns_ranks [of ?m rev 3] by (auto simp: dict_wf_def)
qed

text \<open>
  C33. A pipeline's ranks run where its nodes are. For the rank mapping that a pipeline generates
  from its nodes, the inference server's placement succeeds, and each of the ranks that belong to
  a node gets a bundle, not shared with another rank, on the machine of that node.
\<close>

theorem pipeline_ranks_placed:
  assumes "\<forall>v \<in> set vs. 0 < tp_size v" and "\<forall>specs. mset (ray specs) = mset specs"
  shows "\<exists>idx bundles. create_placement_group_and_bundle_indices ray (rank_mapping_of vs) =
       Inr (join_with '','' (map str_nat idx), bundles) \<and>
     int (length idx) = sum_list (map tp_size vs) \<and> distinct idx \<and>
     (\<forall>i < length vs. \<forall>r. rank_offset vs i \<le> int r \<and> int r < rank_offset vs i + tp_size (vs ! i) \<longrightarrow>
        idx ! r < length bundles \<and> node_of_bundle (bundles ! (idx ! r)) = Some (node_ip (vs ! i)))"
proof -
  let ?m = "rank_mapping_of vs"
  note v = rank_mapping_valid [OF assms(1)]
  from placement_valid [OF v(1-3) assms(2) refl]
  obtain idx bundles where i: "create_placement_group_and_bundle_indices ray ?m = Inr (join_with '','' (map str_nat idx), bundles)"
    "length idx = length (concat (map snd ?m))" "distinct idx"
    "\<forall>(ip, ranks) \<in> set ?m. \<forall>r. int r \<in> set ranks \<longrightarrow>
       idx ! r < length bundles \<and> node_of_bundle (bundles ! (idx ! r)) = Some ip" by blast
  have "idx ! r < length bundles \<and> node_of_bundle (bundles ! (idx ! r)) = Some (node_ip (vs ! k))"
    if "k < length vs" "rank_offset vs k \<le> int r" "int r < rank_offset vs k + tp_size (vs ! k)" for k r
  proof -
    have "\<exists>rs. dict_get ?m (node_ip (vs ! k)) = Some rs \<and> int r \<in> set rs"
      unfolding dict_get_rank_mapping using that by blast
    with i(4) show ?thesis by (auto dest: map_of_SomeD)
  qed
  with i(1-3) v(4) show ?thesis by (metis (no_types, lifting))
qed

theorem pipeline_ranks_placed_witness:
  "\<exists>idx bundles. create_placement_group_and_bundle_indices rev
       (rank_mapping_of [VNode_init ''a'' 0 2 0 0 4 8, VNode_init ''b'' 0 1 1 4 8 8]) =
     Inr (join_with '','' (map str_nat idx), bundles) \<and> length idx = 3 \<and>
     node_of_bundle (bundles ! (idx ! 2)) = Some ''b''"
proof -
  let ?vs = "[VNode_init ''a'' 0 2 0 0 4 8, VNode_init ''b'' 0 1 1 4 8 8]"
  obtain idx bundles where "create_placement_group_and_bundle_indices rev (rank_mapping_of ?vs) =
       Inr (join_with '','' (map str_nat idx), bundles)" "int (length idx) = 3"
     "\<forall>r. rank_offset ?vs 1 \<le> int r \<and> int r < rank_offset ?vs 1 + tp_size (?vs ! 1) \<longrightarrow>
        node_of_bundle (bundles ! (idx ! r)) = Some (node_ip (?vs ! 1))"
    using pipeline_ranks_placed [of ?vs rev] by (auto simp: VNode_init_def less_Suc_eq numeral_2_eq_2)
  moreover from this(3) have "node_of_bundle (bundles ! (idx ! 2)) = Some ''b''"
    by (auto simp: VNode_init_def rank_offset_def dest: spec [of _ 2])
  ultimately show ?thesis by auto
qed

end
