(* ===== verification/ClusterPool.thy ===== *)
theory ClusterPool
  imports Prelude
begin

text \<open>
  The tables of GPUs and instance types of \<^verbatim>\<open>ModelPlacement/hardware_specs.py\<close> and the pool of
  instances of \<^verbatim>\<open>ModelPlacement/cluster_pool.py\<close>: how many instances of each type are available and
  what they cost. The tables are the Python literals with their products computed; the printed
  warnings are left out.
\<close>

section \<open>Hardware\<close>

record gpu_spec =
  memory_size :: int
  FLOPS :: py_float
  memory_bandwidth :: py_float

record instance_spec =
  gpu_type :: string
  gpu_count :: int
  interconnect_bandwidth :: py_float

definition GPU_SPEC :: "(string, gpu_spec) dict" where
  "GPU_SPEC =
    [(''T4'', \<lparr>memory_size = 16000, FLOPS = 65000000000000, memory_bandwidth = 320000000000\<rparr>),
     (''A10G'', \<lparr>memory_size = 22494, FLOPS = 70000000000000, memory_bandwidth = 480000000000\<rparr>),
     (''L4'', \<lparr>memory_size = 22494, FLOPS = 55000000000000, memory_bandwidth = 250000000000\<rparr>),
     (''L40S'', \<lparr>memory_size = 44988, FLOPS = 196000000000000, memory_bandwidth = 700000000000\<rparr>),
     (''A100_40GB'', \<lparr>memory_size = 40000, FLOPS = 265000000000000, memory_bandwidth = 1280000000000\<rparr>),
     (''A100_80GB'', \<lparr>memory_size = 80000, FLOPS = 312000000000000, memory_bandwidth = 2039000000000\<rparr>),
     (''H100'', \<lparr>memory_size = 79647, FLOPS = 989500000000000, memory_bandwidth = 3350000000000\<rparr>),
     (''H200'', \<lparr>memory_size = 141000, FLOPS = 989500000000000, memory_bandwidth = 4800000000000\<rparr>),
     (''B200'', \<lparr>memory_size = 180000, FLOPS = 2250000000000000, memory_bandwidth = 7700000000000\<rparr>),
     (''B300'', \<lparr>memory_size = 270000, FLOPS = 2250000000000000, memory_bandwidth = 8000000000000\<rparr>)]"

definition INSTANCE_SPEC :: "(string, instance_spec) dict" where
  "INSTANCE_SPEC =
    [(''g4dn.xlarge'', \<lparr>gpu_type = ''T4'', gpu_count = 1, interconnect_bandwidth = 6000000000\<rparr>),
     (''g4dn.2xlarge'', \<lparr>gpu_type = ''T4'', gpu_count = 1, interconnect_bandwidth = 6000000000\<rparr>),
     (''g4dn.4xlarge'', \<lparr>gpu_type = ''T4'', gpu_count = 1, interconnect_bandwidth = 6000000000\<rparr>),
     (''g4dn.8xlarge'', \<lparr>gpu_type = ''T4'', gpu_count = 1, interconnect_bandwidth = 6000000000\<rparr>),
     (''g4dn.16xlarge'', \<lparr>gpu_type = ''T4'', gpu_count = 1, interconnect_bandwidth = 6000000000\<rparr>),
     (''g4dn.12xlarge'', \<lparr>gpu_type = ''T4'', gpu_count = 4, interconnect_bandwidth = 6000000000\<rparr>),
     (''g4dn.metal'', \<lparr>gpu_type = ''T4'', gpu_count = 8, interconnect_bandwidth = 6000000000\<rparr>),
     (''g5.xlarge'', \<lparr>gpu_type = ''A10G'', gpu_count = 1, interconnect_bandwidth = 3500000000\<rparr>),
     (''g5.2xlarge'', \<lparr>gpu_type = ''A10G'', gpu_count = 1, interconnect_bandwidth = 3500000000\<rparr>),
     (''g5.4xlarge'', \<lparr>gpu_type = ''A10G'', gpu_count = 1, interconnect_bandwidth = 3500000000\<rparr>),
     (''g5.8xlarge'', \<lparr>gpu_type = ''A10G'', gpu_count = 1, interconnect_bandwidth = 3500000000\<rparr>),
     (''g5.16xlarge'', \<lparr>gpu_type = ''A10G'', gpu_count = 1, interconnect_bandwidth = 3500000000\<rparr>),
     (''g5.12xlarge'', \<lparr>gpu_type = ''A10G'', gpu_count = 4, interconnect_bandwidth = 3500000000\<rparr>),
     (''g5.24xlarge'', \<lparr>gpu_type = ''A10G'', gpu_count = 4, interconnect_bandwidth = 3500000000\<rparr>),
     (''g5.48xlarge'', \<lparr>gpu_type = ''A10G'', gpu_count = 8, interconnect_bandwidth = 1400000000\<rparr>),
     (''g6.xlarge'', \<lparr>gpu_type = ''L4'', gpu_count = 1, interconnect_bandwidth = 3500000000\<rparr>),
     (''g6.2xlarge'', \<lparr>gpu_type = ''L4'', gpu_count = 1, interconnect_bandwidth = 3500000000\<rparr>),
     (''g6.4xlarge'', \<lparr>gpu_type = ''L4'', gpu_count = 1, interconnect_bandwidth = 3500000000\<rparr>),
     (''g6.8xlarge'', \<lparr>gpu_type = ''L4'', gpu_count = 1, interconnect_bandwidth = 3500000000\<rparr>),
     (''g6.16xlarge'', \<lparr>gpu_type = ''L4'', gpu_count = 1, interconnect_bandwidth = 3500000000\<rparr>),
     (''g6.12xlarge'', \<lparr>gpu_type = ''L4'', gpu_count = 4, interconnect_bandwidth = 3500000000\<rparr>),
     (''g6.24xlarge'', \<lparr>gpu_type = ''L4'', gpu_count = 4, interconnect_bandwidth = 3500000000\<rparr>),
     (''g6.48xlarge'', \<lparr>gpu_type = ''L4'', gpu_count = 8, interconnect_bandwidth = 3500000000\<rparr>),
     (''gr6.4xlarge'', \<lparr>gpu_type = ''L4'', gpu_count = 1, interconnect_bandwidth = 3500000000\<rparr>),
     (''gr6.8xlarge'', \<lparr>gpu_type = ''L4'', gpu_count = 1, interconnect_bandwidth = 3500000000\<rparr>),
     (''g6e.xlarge'', \<lparr>gpu_type = ''L40S'', gpu_count = 1, interconnect_bandwidth = 3500000000\<rparr>),
     (''g6e.2xlarge'', \<lparr>gpu_type = ''L40S'', gpu_count = 1, interconnect_bandwidth = 3500000000\<rparr>),
     (''g6e.4xlarge'', \<lparr>gpu_type = ''L40S'', gpu_count = 1, interconnect_bandwidth = 3500000000\<rparr>),
     (''g6e.8xlarge'', \<lparr>gpu_type = ''L40S'', gpu_count = 1, interconnect_bandwidth = 3500000000\<rparr>),
     (''g6e.16xlarge'', \<lparr>gpu_type = ''L40S'', gpu_count = 1, interconnect_bandwidth = 3500000000\<rparr>),
     (''g6e.12xlarge'', \<lparr>gpu_type = ''L40S'', gpu_count = 4, interconnect_bandwidth = 3500000000\<rparr>),
     (''g6e.24xlarge'', \<lparr>gpu_type = ''L40S'', gpu_count = 4, interconnect_bandwidth = 3500000000\<rparr>),
     (''g6e.48xlarge'', \<lparr>gpu_type = ''L40S'', gpu_count = 8, interconnect_bandwidth = 3500000000\<rparr>),
     (''p4d.24xlarge'', \<lparr>gpu_type = ''A100_40GB'', gpu_count = 8, interconnect_bandwidth = 220000000000\<rparr>),
     (''p4de.24xlarge'', \<lparr>gpu_type = ''A100_80GB'', gpu_count = 8, interconnect_bandwidth = 220000000000\<rparr>),
     (''p5.4xlarge'', \<lparr>gpu_type = ''H100'', gpu_count = 1, interconnect_bandwidth = 393000000000\<rparr>),
     (''p5.48xlarge'', \<lparr>gpu_type = ''H100'', gpu_count = 8, interconnect_bandwidth = 393000000000\<rparr>),
     (''g5g.xlarge'', \<lparr>gpu_type = ''T4'', gpu_count = 1, interconnect_bandwidth = 6000000000\<rparr>),
     (''g5g.2xlarge'', \<lparr>gpu_type = ''T4'', gpu_count = 1, interconnect_bandwidth = 6000000000\<rparr>),
     (''g5g.4xlarge'', \<lparr>gpu_type = ''T4'', gpu_count = 1, interconnect_bandwidth = 6000000000\<rparr>),
     (''g5g.8xlarge'', \<lparr>gpu_type = ''T4'', gpu_count = 1, interconnect_bandwidth = 6000000000\<rparr>),
     (''g5g.16xlarge'', \<lparr>gpu_type = ''T4'', gpu_count = 2, interconnect_bandwidth = 6000000000\<rparr>),
     (''g5g.metal'', \<lparr>gpu_type = ''T4'', gpu_count = 2, interconnect_bandwidth = 6000000000\<rparr>),
     (''p5e.48xlarge'', \<lparr>gpu_type = ''H200'', gpu_count = 8, interconnect_bandwidth = 393000000000\<rparr>),
     (''p5en.48xlarge'', \<lparr>gpu_type = ''H200'', gpu_count = 8, interconnect_bandwidth = 393000000000\<rparr>),
     (''p6-b200.48xlarge'', \<lparr>gpu_type = ''B200'', gpu_count = 8, interconnect_bandwidth = 786000000000\<rparr>),
     (''p6-b300.48xlarge'', \<lparr>gpu_type = ''B300'', gpu_count = 8, interconnect_bandwidth = 786000000000\<rparr>),
     (''(spot)g4dn.xlarge'', \<lparr>gpu_type = ''T4'', gpu_count = 1, interconnect_bandwidth = 6000000000\<rparr>),
     (''(spot)g4dn.2xlarge'', \<lparr>gpu_type = ''T4'', gpu_count = 1, interconnect_bandwidth = 6000000000\<rparr>),
     (''(spot)g4dn.4xlarge'', \<lparr>gpu_type = ''T4'', gpu_count = 1, interconnect_bandwidth = 6000000000\<rparr>),
     (''(spot)g4dn.8xlarge'', \<lparr>gpu_type = ''T4'', gpu_count = 1, interconnect_bandwidth = 6000000000\<rparr>),
     (''(spot)g4dn.16xlarge'', \<lparr>gpu_type = ''T4'', gpu_count = 1, interconnect_bandwidth = 6000000000\<rparr>),
     (''(spot)g4dn.12xlarge'', \<lparr>gpu_type = ''T4'', gpu_count = 4, interconnect_bandwidth = 6000000000\<rparr>),
     (''(spot)g4dn.metal'', \<lparr>gpu_type = ''T4'', gpu_count = 8, interconnect_bandwidth = 6000000000\<rparr>),
     (''(spot)g5.xlarge'', \<lparr>gpu_type = ''A10G'', gpu_count = 1, interconnect_bandwidth = 1400000000\<rparr>),
     (''(spot)g5.2xlarge'', \<lparr>gpu_type = ''A10G'', gpu_count = 1, interconnect_bandwidth = 1400000000\<rparr>),
     (''(spot)g5.4xlarge'', \<lparr>gpu_type = ''A10G'', gpu_count = 1, interconnect_bandwidth = 1400000000\<rparr>),
     (''(spot)g5.8xlarge'', \<lparr>gpu_type = ''A10G'', gpu_count = 1, interconnect_bandwidth = 1400000000\<rparr>),
     (''(spot)g5.16xlarge'', \<lparr>gpu_type = ''A10G'', gpu_count = 1, interconnect_bandwidth = 1400000000\<rparr>),
     (''(spot)g5.12xlarge'', \<lparr>gpu_type = ''A10G'', gpu_count = 4, interconnect_bandwidth = 1400000000\<rparr>),
     (''(spot)g5.24xlarge'', \<lparr>gpu_type = ''A10G'', gpu_count = 4, interconnect_bandwidth = 1400000000\<rparr>),
     (''(spot)g5.48xlarge'', \<lparr>gpu_type = ''A10G'', gpu_count = 8, interconnect_bandwidth = 1400000000\<rparr>),
     (''(spot)g6.xlarge'', \<lparr>gpu_type = ''L4'', gpu_count = 1, interconnect_bandwidth = 3500000000\<rparr>),
     (''(spot)g6.2xlarge'', \<lparr>gpu_type = ''L4'', gpu_count = 1, interconnect_bandwidth = 3500000000\<rparr>),
     (''(spot)g6.4xlarge'', \<lparr>gpu_type = ''L4'', gpu_count = 1, interconnect_bandwidth = 3500000000\<rparr>),
     (''(spot)g6.8xlarge'', \<lparr>gpu_type = ''L4'', gpu_count = 1, interconnect_bandwidth = 3500000000\<rparr>),
     (''(spot)g6.16xlarge'', \<lparr>gpu_type = ''L4'', gpu_count = 1, interconnect_bandwidth = 3500000000\<rparr>),
     (''(spot)g6.12xlarge'', \<lparr>gpu_type = ''L4'', gpu_count = 4, interconnect_bandwidth = 3500000000\<rparr>),
     (''(spot)g6.24xlarge'', \<lparr>gpu_type = ''L4'', gpu_count = 4, interconnect_bandwidth = 3500000000\<rparr>),
     (''(spot)g6.48xlarge'', \<lparr>gpu_type = ''L4'', gpu_count = 8, interconnect_bandwidth = 3500000000\<rparr>),
     (''(spot)gr6.4xlarge'', \<lparr>gpu_type = ''L4'', gpu_count = 1, interconnect_bandwidth = 3500000000\<rparr>),
     (''(spot)gr6.8xlarge'', \<lparr>gpu_type = ''L4'', gpu_count = 1, interconnect_bandwidth = 3500000000\<rparr>),
     (''(spot)g6e.xlarge'', \<lparr>gpu_type = ''L40S'', gpu_count = 1, interconnect_bandwidth = 3500000000\<rparr>),
     (''(spot)g6e.2xlarge'', \<lparr>gpu_type = ''L40S'', gpu_count = 1, interconnect_bandwidth = 3500000000\<rparr>),
     (''(spot)g6e.4xlarge'', \<lparr>gpu_type = ''L40S'', gpu_count = 1, interconnect_bandwidth = 3500000000\<rparr>),
     (''(spot)g6e.8xlarge'', \<lparr>gpu_type = ''L40S'', gpu_count = 1, interconnect_bandwidth = 3500000000\<rparr>),
     (''(spot)g6e.16xlarge'', \<lparr>gpu_type = ''L40S'', gpu_count = 1, interconnect_bandwidth = 3500000000\<rparr>),
     (''(spot)g6e.12xlarge'', \<lparr>gpu_type = ''L40S'', gpu_count = 4, interconnect_bandwidth = 3500000000\<rparr>),
     (''(spot)g6e.24xlarge'', \<lparr>gpu_type = ''L40S'', gpu_count = 4, interconnect_bandwidth = 3500000000\<rparr>),
     (''(spot)g6e.48xlarge'', \<lparr>gpu_type = ''L40S'', gpu_count = 8, interconnect_bandwidth = 3500000000\<rparr>),
     (''(spot)g5g.xlarge'', \<lparr>gpu_type = ''T4'', gpu_count = 1, interconnect_bandwidth = 6000000000\<rparr>),
     (''(spot)g5g.2xlarge'', \<lparr>gpu_type = ''T4'', gpu_count = 1, interconnect_bandwidth = 6000000000\<rparr>),
     (''(spot)g5g.4xlarge'', \<lparr>gpu_type = ''T4'', gpu_count = 1, interconnect_bandwidth = 6000000000\<rparr>),
     (''(spot)g5g.8xlarge'', \<lparr>gpu_type = ''T4'', gpu_count = 1, interconnect_bandwidth = 6000000000\<rparr>),
     (''(spot)g5g.16xlarge'', \<lparr>gpu_type = ''T4'', gpu_count = 2, interconnect_bandwidth = 6000000000\<rparr>),
     (''(spot)g5g.metal'', \<lparr>gpu_type = ''T4'', gpu_count = 2, interconnect_bandwidth = 6000000000\<rparr>),
     (''(spot)p4d.24xlarge'', \<lparr>gpu_type = ''A100_40GB'', gpu_count = 8, interconnect_bandwidth = 220000000000\<rparr>),
     (''(spot)p4de.24xlarge'', \<lparr>gpu_type = ''A100_80GB'', gpu_count = 8, interconnect_bandwidth = 220000000000\<rparr>),
     (''(spot)p5.4xlarge'', \<lparr>gpu_type = ''H100'', gpu_count = 1, interconnect_bandwidth = 393000000000\<rparr>),
     (''(spot)p5.48xlarge'', \<lparr>gpu_type = ''H100'', gpu_count = 8, interconnect_bandwidth = 393000000000\<rparr>),
     (''(spot)p5e.48xlarge'', \<lparr>gpu_type = ''H200'', gpu_count = 8, interconnect_bandwidth = 393000000000\<rparr>),
     (''(spot)p5en.48xlarge'', \<lparr>gpu_type = ''H200'', gpu_count = 8, interconnect_bandwidth = 393000000000\<rparr>),
     (''(spot)p6-b200.48xlarge'', \<lparr>gpu_type = ''B200'', gpu_count = 8, interconnect_bandwidth = 786000000000\<rparr>),
     (''(spot)p6-b300.48xlarge'', \<lparr>gpu_type = ''B300'', gpu_count = 8, interconnect_bandwidth = 786000000000\<rparr>),
     (''g5.12xlarge(half)'', \<lparr>gpu_type = ''A10G'', gpu_count = 2, interconnect_bandwidth = 12000000000\<rparr>),
     (''g6.12xlarge(half)'', \<lparr>gpu_type = ''L4'', gpu_count = 2, interconnect_bandwidth = 12000000000\<rparr>),
     (''g6e.12xlarge(half)'', \<lparr>gpu_type = ''L40S'', gpu_count = 2, interconnect_bandwidth = 12000000000\<rparr>),
     (''(spot)g5.12xlarge(half)'', \<lparr>gpu_type = ''A10G'', gpu_count = 2, interconnect_bandwidth = 12000000000\<rparr>),
     (''(spot)g6.12xlarge(half)'', \<lparr>gpu_type = ''L4'', gpu_count = 2, interconnect_bandwidth = 12000000000\<rparr>),
     (''(spot)g6e.12xlarge(half)'', \<lparr>gpu_type = ''L40S'', gpu_count = 2, interconnect_bandwidth = 12000000000\<rparr>)]"

section \<open>Prices\<close>

definition MAX_PRICE :: py_float where
  "MAX_PRICE = 9876"

definition DEFAULT_AVAILABILITY :: int where
  "DEFAULT_AVAILABILITY = 0"

definition DEFAULT_ONDEMAND_PRICES :: "(string, py_float) dict" where
  "DEFAULT_ONDEMAND_PRICES =
    [(''g4dn.xlarge'', 263 / 500),
     (''g4dn.2xlarge'', 94 / 125),
     (''g4dn.4xlarge'', 301 / 250),
     (''g4dn.8xlarge'', 272 / 125),
     (''g4dn.16xlarge'', 544 / 125),
     (''g4dn.12xlarge'', 489 / 125),
     (''g4dn.metal'', 978 / 125),
     (''g5.xlarge'', 503 / 500),
     (''g5.2xlarge'', 303 / 250),
     (''g5.4xlarge'', 203 / 125),
     (''g5.8xlarge'', 306 / 125),
     (''g5.16xlarge'', 512 / 125),
     (''g5.12xlarge'', 709 / 125),
     (''g5.24xlarge'', 1018 / 125),
     (''g5.48xlarge'', 2036 / 125),
     (''g6.xlarge'', 503 / 625),
     (''g6.2xlarge'', 611 / 625),
     (''g6.4xlarge'', 827 / 625),
     (''g6.8xlarge'', 1259 / 625),
     (''g6.16xlarge'', 2123 / 625),
     (''g6.12xlarge'', 2876 / 625),
     (''g6.24xlarge'', 4172 / 625),
     (''g6.48xlarge'', 8344 / 625),
     (''gr6.4xlarge'', 962 / 625),
     (''gr6.8xlarge'', 1529 / 625),
     (''g5g.xlarge'', 21 / 50),
     (''g5g.2xlarge'', 139 / 250),
     (''g5g.4xlarge'', 207 / 250),
     (''g5g.8xlarge'', 343 / 250),
     (''g5g.16xlarge'', 343 / 125),
     (''g5g.metal'', 343 / 125),
     (''g6e.xlarge'', 1861 / 1000),
     (''g6e.2xlarge'', 14013 / 6250),
     (''g6e.4xlarge'', 37553 / 12500),
     (''g6e.8xlarge'', 56607 / 12500),
     (''g6e.16xlarge'', 757719 / 100000),
     (''g6e.12xlarge'', 65579 / 6250),
     (''g6e.24xlarge'', 1506559 / 100000),
     (''g6e.48xlarge'', 1506559 / 50000),
     (''p4d.24xlarge'', 548941 / 25000),
     (''p4de.24xlarge'', 548941 / 20000),
     (''p5.4xlarge'', 172 / 25),
     (''p5.48xlarge'', 1376 / 25),
     (''p5e.48xlarge'', MAX_PRICE),
     (''p5en.48xlarge'', 7912 / 125),
     (''p6-b200.48xlarge'', 71208 / 625),
     (''p6-b300.48xlarge'', 17802 / 125)]"

section \<open>The pool\<close>

record cluster_pool =
  available_resources :: "(string, int) dict"
  prices :: "(string, py_float) dict"

definition default_price :: "string \<Rightarrow> py_float" where
  "default_price instance_type =
     (if \<not> starts_with instance_type ''(spot)''
      then (case dict_get DEFAULT_ONDEMAND_PRICES instance_type of Some p \<Rightarrow> p | None \<Rightarrow> MAX_PRICE)
      else MAX_PRICE)"

definition default_pool :: cluster_pool where
  "default_pool = foldl (\<lambda>c instance_type. c\<lparr>available_resources := dict_set instance_type DEFAULT_AVAILABILITY (available_resources c),
       prices := dict_set instance_type (default_price instance_type) (prices c)\<rparr>)
     \<lparr>available_resources = [], prices = []\<rparr> (dict_keys INSTANCE_SPEC)"

text \<open>The entries of a dictionary of settings that name a known instance type.\<close>

definition known :: "string \<Rightarrow> bool" where
  "known instance_type \<longleftrightarrow> instance_type \<in> set (dict_keys INSTANCE_SPEC)"

definition override_known :: "(string, 'v) dict \<Rightarrow> (string, 'v) dict \<Rightarrow> (string, 'v) dict" where
  "override_known settings d = foldl (\<lambda>d (k, v). if known k then dict_set k v d else d) d settings"

definition ClusterPool_init :: "(string, int) dict \<Rightarrow> (string, py_float) dict \<Rightarrow> cluster_pool" where
  "ClusterPool_init available_spot_nodes spot_prices =
     default_pool\<lparr>available_resources := override_known available_spot_nodes (available_resources default_pool),
       prices := override_known spot_prices (prices default_pool)\<rparr>"

definition manipulate_spot_instance_pool :: "string \<Rightarrow> int \<Rightarrow> py_float option \<Rightarrow> cluster_pool \<Rightarrow> cluster_pool" where
  "manipulate_spot_instance_pool instance_type num_available price c =
     (if \<not> known instance_type then c
      else c\<lparr>available_resources := dict_set instance_type num_available (available_resources c),
        prices := (case price of None \<Rightarrow> prices c | Some p \<Rightarrow> dict_set instance_type p (prices c))\<rparr>)"

definition get_instance_price :: "cluster_pool \<Rightarrow> string \<Rightarrow> py_float" where
  "get_instance_price c instance_type = (case dict_get (prices c) instance_type of Some p \<Rightarrow> p | None \<Rightarrow> MAX_PRICE)"

definition count_stage :: "(string, int) dict \<Rightarrow> string \<Rightarrow> (string, int) dict" where
  "count_stage required_counts instance_type =
     dict_set instance_type ((case dict_get required_counts instance_type of None \<Rightarrow> 0 | Some n \<Rightarrow> n) + 1) required_counts"

definition check_cluster_availability :: "cluster_pool \<Rightarrow> string list \<Rightarrow> bool" where
  "check_cluster_availability c stages =
     list_all (\<lambda>(instance_type, required_count).
        required_count \<le> (case dict_get (available_resources c) instance_type of None \<Rightarrow> 0 | Some n \<Rightarrow> n))
       (foldl count_stage [] stages)"

definition pool_reset :: "(string, int) dict \<Rightarrow> (string, py_float) dict \<Rightarrow> cluster_pool \<Rightarrow> cluster_pool" where
  "pool_reset available_spot_nodes spot_prices c = ClusterPool_init available_spot_nodes spot_prices"

section \<open>Lemmas\<close>

lemma known_specs:
  "list_all (\<lambda>(name, i). (case dict_get GPU_SPEC (gpu_type i) of None \<Rightarrow> False
       | Some g \<Rightarrow> 0 < memory_size g \<and> 0 < FLOPS g \<and> 0 < memory_bandwidth g) \<and>
     0 < gpu_count i \<and> gpu_count i \<le> 8 \<and> 0 < interconnect_bandwidth i) INSTANCE_SPEC"
  by code_simp

lemma dict_wf_override [simp]: "dict_wf d \<Longrightarrow> dict_wf (override_known settings d)"
  unfolding override_known_def by (induction settings arbitrary: d) (auto split: prod.splits)

text \<open>A count of the stages of each type.\<close>

lemma count_stages:
  "dict_wf (foldl count_stage [] stages) \<and> dict_get (foldl count_stage [] stages) t =
     (if t \<in> set stages then Some (int (count_list stages t)) else None)"
proof (induction stages rule: rev_induct)
  case (snoc s stages)
  then show ?case by (auto simp: count_stage_def dict_simps)
qed simp

end
