(* ===== verification/Estimator.thy ===== *)
theory Estimator
  imports ClusterPool
begin

text \<open>
  The performance model of \<^verbatim>\<open>ModelPlacement/estimator_utils.py\<close>: operation and memory access counts of
  a decoder layer, roofline latencies, communication latencies, the latency of a single request,
  the number of requests that fit into the memory of a pipeline, and its throughput. Integers are
  unbounded; the results of true divisions are exact rationals, so rounding is not modelled. A
  division by zero raises. The shape of the model, which the functions take as separate
  parameters, is a record; \<open>itemsize\<close> is the size of the data type. A list of tensor-parallel sizes
  is empty when the parameter is \<open>None\<close>. Messages for debugging are left out.
\<close>

section \<open>Arithmetic\<close>

definition divE :: "py_float \<Rightarrow> py_float \<Rightarrow> py_float py" where
  "divE a b = (if b = 0 then Inl ZeroDivisionError else Inr (a / b))"

text \<open>Floor division of a float; the quotient is integral.\<close>

definition floatdivE :: "py_float \<Rightarrow> py_float \<Rightarrow> int py" where
  "floatdivE a b = (if b = 0 then Inl ZeroDivisionError else Inr \<lfloor>a / b\<rfloor>)"

definition minE :: "int list \<Rightarrow> int py" where
  "minE xs = (if xs = [] then Inl ValueError else Inr (Min (set xs)))"

definition maxE :: "py_float list \<Rightarrow> py_float py" where
  "maxE xs = (if xs = [] then Inl ValueError else Inr (Max (set xs)))"

section \<open>Shape of the model\<close>

record shape =
  hidden_dim :: int
  num_attention_head :: int
  num_kv_cache_head :: int
  intermediate_dim :: int
  vocab_size :: int
  head_dim :: "int option"
  itemsize :: int

definition effective_head_dim :: "shape \<Rightarrow> int py" where
  "effective_head_dim m = (case head_dim m of Some d \<Rightarrow> Inr d | None \<Rightarrow> floordivE (hidden_dim m) (num_attention_head m))"

definition h_kv :: "shape \<Rightarrow> int py" where
  "h_kv m = bindE (effective_head_dim m) (\<lambda>d. Inr (num_kv_cache_head m * d))"

definition h_q :: "shape \<Rightarrow> int py" where
  "h_q m = bindE (effective_head_dim m) (\<lambda>d. Inr (num_attention_head m * d))"

section \<open>Operations\<close>

definition get_prefill_qkv_projection_ops_per_layer :: "shape \<Rightarrow> int \<Rightarrow> int \<Rightarrow> int \<Rightarrow> int py" where
  "get_prefill_qkv_projection_ops_per_layer m input_len tp_size batch_size =
     bindE (h_kv m) (\<lambda>H_kv. bindE (h_q m) (\<lambda>H_q.
     bindE (floordivE (2 * input_len * hidden_dim m * H_q + 4 * input_len * hidden_dim m * H_kv) tp_size) (\<lambda>q.
     Inr (q * batch_size))))"

definition get_prefill_attention_ops_per_layer :: "shape \<Rightarrow> int \<Rightarrow> int \<Rightarrow> int \<Rightarrow> int py" where
  "get_prefill_attention_ops_per_layer m input_len tp_size batch_size =
     bindE (h_q m) (\<lambda>H_q.
     bindE (floordivE (2 * (input_len ^ 2 * H_q * 2 + input_len * H_q ^ 2)) tp_size) (\<lambda>q. Inr (q * batch_size)))"

definition get_prefill_ffn_ops_per_layer :: "shape \<Rightarrow> int \<Rightarrow> int \<Rightarrow> int \<Rightarrow> int py" where
  "get_prefill_ffn_ops_per_layer m input_len tp_size batch_size =
     bindE (floordivE (6 * input_len * hidden_dim m * intermediate_dim m) tp_size) (\<lambda>q. Inr (q * batch_size))"

definition get_prefill_compute_logit_ops :: "shape \<Rightarrow> int \<Rightarrow> int \<Rightarrow> int \<Rightarrow> int py" where
  "get_prefill_compute_logit_ops m input_len tp_size batch_size =
     floordivE (2 * batch_size * input_len * hidden_dim m * vocab_size m) tp_size"

definition get_decoding_qkv_projection_ops_per_layer :: "shape \<Rightarrow> int \<Rightarrow> int \<Rightarrow> int \<Rightarrow> int py" where
  "get_decoding_qkv_projection_ops_per_layer m output_len tp_size batch_size =
     bindE (h_kv m) (\<lambda>H_kv. bindE (h_q m) (\<lambda>H_q.
     bindE (floordivE (2 * (hidden_dim m * H_q + 2 * (hidden_dim m * H_kv))) tp_size) (\<lambda>q.
     Inr (q * batch_size * output_len))))"

definition get_decoding_attention_ops_per_layer :: "shape \<Rightarrow> int \<Rightarrow> int \<Rightarrow> int \<Rightarrow> int \<Rightarrow> int py" where
  "get_decoding_attention_ops_per_layer m input_len output_len tp_size batch_size =
     bindE (h_kv m) (\<lambda>H_kv. bindE (h_q m) (\<lambda>H_q.
     let attention_ops = 4 * input_len * output_len * H_q + 2 * H_q * output_len * (output_len + 1) + 2 * H_q ^ 2 * output_len in
     bindE (floordivE attention_ops tp_size) (\<lambda>q. Inr (q * batch_size))))"

definition get_decoding_ffn_ops_per_layer :: "shape \<Rightarrow> int \<Rightarrow> int \<Rightarrow> int \<Rightarrow> int py" where
  "get_decoding_ffn_ops_per_layer m output_len tp_size batch_size =
     bindE (floordivE (6 * hidden_dim m * intermediate_dim m) tp_size) (\<lambda>q. Inr (q * batch_size * output_len))"

definition get_decoding_compute_logit_ops :: "shape \<Rightarrow> int \<Rightarrow> int \<Rightarrow> int \<Rightarrow> int py" where
  "get_decoding_compute_logit_ops m output_len tp_size batch_size =
     floordivE (2 * batch_size * output_len * hidden_dim m * vocab_size m) tp_size"

section \<open>Memory accesses\<close>

definition get_prefill_qkv_projection_memory_access_count_per_layer :: "shape \<Rightarrow> int \<Rightarrow> int \<Rightarrow> int \<Rightarrow> int py" where
  "get_prefill_qkv_projection_memory_access_count_per_layer m input_len tp_size batch_size =
     bindE (h_kv m) (\<lambda>H_kv. bindE (h_q m) (\<lambda>H_q.
     bindE (floordivE (hidden_dim m * H_q + 2 * hidden_dim m * H_kv) tp_size) (\<lambda>weights.
     Inr (batch_size * input_len * hidden_dim m + weights))))"

definition get_prefill_attention_memory_access_count_per_layer :: "shape \<Rightarrow> int \<Rightarrow> int \<Rightarrow> int \<Rightarrow> int py" where
  "get_prefill_attention_memory_access_count_per_layer m input_len tp_size batch_size =
     bindE (h_kv m) (\<lambda>H_kv. bindE (h_q m) (\<lambda>H_q.
     floordivE (batch_size * input_len * hidden_dim m + 2 * input_len * H_kv + H_q ^ 2) tp_size))"

definition get_prefill_ffn_memory_access_count_per_layer :: "shape \<Rightarrow> int \<Rightarrow> int \<Rightarrow> int \<Rightarrow> int py" where
  "get_prefill_ffn_memory_access_count_per_layer m input_len tp_size batch_size =
     bindE (floordivE (2 * hidden_dim m * intermediate_dim m) tp_size) (\<lambda>up_gate.
     bindE (floordivE (2 * batch_size * input_len * intermediate_dim m) tp_size) (\<lambda>product.
     bindE (floordivE (batch_size * input_len * intermediate_dim m) tp_size) (\<lambda>down_input.
     bindE (floordivE (intermediate_dim m * hidden_dim m) tp_size) (\<lambda>down.
     Inr (batch_size * input_len * hidden_dim m + up_gate + product + down_input + down)))))"

definition get_prefill_compute_logit_memory_access_count :: "shape \<Rightarrow> int \<Rightarrow> int \<Rightarrow> int \<Rightarrow> py_float py" where
  "get_prefill_compute_logit_memory_access_count m input_len tp_size batch_size =
     bindE (divE (of_int (vocab_size m * hidden_dim m)) (of_int tp_size)) (\<lambda>weights.
     Inr (of_int (batch_size * input_len * hidden_dim m) + weights))"

definition get_decoding_qkv_projection_memory_access_count_per_layer :: "shape \<Rightarrow> int \<Rightarrow> int \<Rightarrow> int \<Rightarrow> int py" where
  "get_decoding_qkv_projection_memory_access_count_per_layer m output_len tp_size batch_size =
     bindE (h_kv m) (\<lambda>H_kv. bindE (h_q m) (\<lambda>H_q.
     bindE (floordivE (hidden_dim m * H_q + 2 * hidden_dim m * H_kv) tp_size) (\<lambda>weights.
     Inr ((batch_size * hidden_dim m + weights) * output_len))))"

definition get_decoding_attention_memory_access_count_per_layer :: "shape \<Rightarrow> int \<Rightarrow> int \<Rightarrow> int \<Rightarrow> int \<Rightarrow> int py" where
  "get_decoding_attention_memory_access_count_per_layer m input_len output_len tp_size batch_size =
     bindE (h_kv m) (\<lambda>H_kv. bindE (h_q m) (\<lambda>H_q.
     floordivE (batch_size * hidden_dim m * output_len + 2 * batch_size * input_len * H_kv * output_len +
       batch_size * H_kv * output_len * (output_len + 1) + H_q ^ 2 * output_len) tp_size))"

definition get_decoding_ffn_memory_access_count_per_layer :: "shape \<Rightarrow> int \<Rightarrow> int \<Rightarrow> int \<Rightarrow> int py" where
  "get_decoding_ffn_memory_access_count_per_layer m output_len tp_size batch_size =
     bindE (floordivE (2 * hidden_dim m * intermediate_dim m) tp_size) (\<lambda>up_gate.
     bindE (floordivE (2 * batch_size * intermediate_dim m) tp_size) (\<lambda>product.
     bindE (floordivE (batch_size * intermediate_dim m) tp_size) (\<lambda>down_input.
     bindE (floordivE (intermediate_dim m * hidden_dim m) tp_size) (\<lambda>down.
     Inr ((batch_size * hidden_dim m + up_gate + product + down_input + down) * output_len)))))"

definition get_decoding_compute_logit_memory_access_count :: "shape \<Rightarrow> int \<Rightarrow> int \<Rightarrow> int \<Rightarrow> py_float py" where
  "get_decoding_compute_logit_memory_access_count m output_len tp_size batch_size =
     bindE (divE (of_int (vocab_size m * hidden_dim m)) (of_int tp_size)) (\<lambda>weights.
     Inr (of_int output_len * (of_int (batch_size * hidden_dim m) + weights)))"

section \<open>Communication\<close>

definition or_default :: "'a option \<Rightarrow> 'a \<Rightarrow> 'a" where
  "or_default x d = (case x of None \<Rightarrow> d | Some v \<Rightarrow> v)"

definition get_tp_communication_latency_per_layer ::
  "shape \<Rightarrow> int \<Rightarrow> int \<Rightarrow> int \<Rightarrow> py_float \<Rightarrow> py_float option \<Rightarrow> py_float py" where
  "get_tp_communication_latency_per_layer m tp_size batch_size sequence_len p2p_bandwidth p2p_latency_ms =
     (if tp_size = 1 then Inr 0
      else bindE (divE (of_int (batch_size * sequence_len * hidden_dim m * itemsize m)) (of_int tp_size * p2p_bandwidth / 1000)) (\<lambda>l.
        Inr ((l + or_default p2p_latency_ms 0) * of_int (4 * (tp_size - 1)))))"

definition get_tp_communication_latency_compute_logit ::
  "shape \<Rightarrow> int \<Rightarrow> int \<Rightarrow> int \<Rightarrow> py_float \<Rightarrow> py_float option \<Rightarrow> py_float py" where
  "get_tp_communication_latency_compute_logit m tp_size batch_size sequence_len p2p_bandwidth p2p_latency_ms =
     (if tp_size = 1 then Inr 0
      else bindE (divE (of_int (batch_size * sequence_len * vocab_size m * itemsize m)) (of_int tp_size * p2p_bandwidth / 1000)) (\<lambda>l.
        Inr ((l + or_default p2p_latency_ms 0) * of_int (2 * (tp_size - 1)))))"

definition get_pp_communication_latency_send_recv ::
  "shape \<Rightarrow> int \<Rightarrow> int \<Rightarrow> py_float option \<Rightarrow> py_float option \<Rightarrow> py_float py" where
  "get_pp_communication_latency_send_recv m batch_size sequence_len inter_node_latency_ms inter_node_bandwidth =
     bindE (divE (of_int (batch_size * sequence_len * hidden_dim m * itemsize m)) (or_default inter_node_bandwidth (5 * 10 ^ 9) / 1000)) (\<lambda>l.
     Inr (l + or_default inter_node_latency_ms 1))"

definition get_pp_communication_latency_broadcast ::
  "shape \<Rightarrow> int \<Rightarrow> int \<Rightarrow> int \<Rightarrow> py_float \<Rightarrow> py_float option \<Rightarrow> py_float py" where
  "get_pp_communication_latency_broadcast m batch_size sequence_len tp_size p2p_bandwidth p2p_latency_ms =
     (if 1 < tp_size
      then bindE (divE (of_int (batch_size * sequence_len * hidden_dim m * itemsize m)) (p2p_bandwidth / 1000)) (\<lambda>l.
        Inr ((l + or_default p2p_latency_ms 0) * of_int (tp_size - 1)))
      else Inr 0)"

definition get_pp_communication_latency ::
  "shape \<Rightarrow> int \<Rightarrow> int \<Rightarrow> int \<Rightarrow> py_float \<Rightarrow> py_float option \<Rightarrow> py_float option \<Rightarrow> py_float option \<Rightarrow> py_float py" where
  "get_pp_communication_latency m batch_size sequence_len tp_size_at_receiver p2p_bandwidth p2p_latency_ms
       inter_node_latency_ms inter_node_bandwidth =
     bindE (get_pp_communication_latency_send_recv m batch_size sequence_len inter_node_latency_ms inter_node_bandwidth) (\<lambda>a.
     bindE (get_pp_communication_latency_broadcast m batch_size sequence_len tp_size_at_receiver p2p_bandwidth p2p_latency_ms) (\<lambda>b.
     Inr (a + b)))"

section \<open>Computation\<close>

text \<open>The roofline: the arithmetic intensity decides whether memory or computation is the bound.\<close>

definition roofline :: "gpu_spec \<Rightarrow> py_float \<Rightarrow> py_float \<Rightarrow> py_float py" where
  "roofline g ops bytes =
     bindE (divE ops bytes) (\<lambda>arithmetic_intensity.
     bindE (divE (FLOPS g) (memory_bandwidth g)) (\<lambda>device_arithmetic_intensity.
     if arithmetic_intensity < device_arithmetic_intensity then divE bytes (memory_bandwidth g / 1000)
     else divE ops (FLOPS g / 1000)))"

text \<open>The sum over the parts of a layer, each given by its operations and its memory accesses.\<close>

definition layer_latency :: "shape \<Rightarrow> string \<Rightarrow> (int \<times> int) list \<Rightarrow> py_float py" where
  "layer_latency m gpu parts =
     bindE (lookupE (dict_get GPU_SPEC) gpu) (\<lambda>g.
     foldE (\<lambda>acc (ops, access). bindE (roofline g (of_int ops) (of_int (access * itemsize m))) (\<lambda>l. Inr (acc + l))) 0 parts)"

definition get_prefill_computation_latency_per_layer :: "shape \<Rightarrow> string \<Rightarrow> int \<Rightarrow> int \<Rightarrow> int \<Rightarrow> py_float py" where
  "get_prefill_computation_latency_per_layer m gpu gpus input_len batch_size =
     bindE (get_prefill_qkv_projection_ops_per_layer m input_len gpus batch_size) (\<lambda>qkv_ops.
     bindE (get_prefill_attention_ops_per_layer m input_len gpus batch_size) (\<lambda>attention_ops.
     bindE (get_prefill_ffn_ops_per_layer m input_len gpus batch_size) (\<lambda>ffn_ops.
     bindE (get_prefill_qkv_projection_memory_access_count_per_layer m input_len gpus batch_size) (\<lambda>qkv_access.
     bindE (get_prefill_attention_memory_access_count_per_layer m input_len gpus batch_size) (\<lambda>attention_access.
     bindE (get_prefill_ffn_memory_access_count_per_layer m input_len gpus batch_size) (\<lambda>ffn_access.
     layer_latency m gpu [(qkv_ops, qkv_access), (attention_ops, attention_access), (ffn_ops, ffn_access)]))))))"

definition get_decoding_computation_latency_per_layer :: "shape \<Rightarrow> string \<Rightarrow> int \<Rightarrow> int \<Rightarrow> int \<Rightarrow> int \<Rightarrow> py_float py" where
  "get_decoding_computation_latency_per_layer m gpu gpus input_len output_len batch_size =
     bindE (get_decoding_qkv_projection_ops_per_layer m output_len gpus batch_size) (\<lambda>qkv_ops.
     bindE (get_decoding_attention_ops_per_layer m input_len output_len gpus batch_size) (\<lambda>attention_ops.
     bindE (get_decoding_ffn_ops_per_layer m output_len gpus batch_size) (\<lambda>ffn_ops.
     bindE (get_decoding_qkv_projection_memory_access_count_per_layer m output_len gpus batch_size) (\<lambda>qkv_access.
     bindE (get_decoding_attention_memory_access_count_per_layer m input_len output_len gpus batch_size) (\<lambda>attention_access.
     bindE (get_decoding_ffn_memory_access_count_per_layer m output_len gpus batch_size) (\<lambda>ffn_access.
     layer_latency m gpu [(qkv_ops, qkv_access), (attention_ops, attention_access), (ffn_ops, ffn_access)]))))))"

text \<open>The logits are computed for one position of each prompt: the code passes the length 1.\<close>

definition get_prefill_compute_logit_latency :: "shape \<Rightarrow> string \<Rightarrow> int \<Rightarrow> int \<Rightarrow> py_float py" where
  "get_prefill_compute_logit_latency m gpu gpus batch_size =
     (if batch_size \<le> 0 then Inr 0
      else bindE (get_prefill_compute_logit_ops m 1 gpus batch_size) (\<lambda>ops.
        bindE (get_prefill_compute_logit_memory_access_count m 1 gpus batch_size) (\<lambda>access.
        bindE (lookupE (dict_get GPU_SPEC) gpu) (\<lambda>g. roofline g (of_int ops) (access * of_int (itemsize m))))))"

definition get_decoding_compute_logit_latency :: "shape \<Rightarrow> string \<Rightarrow> int \<Rightarrow> int \<Rightarrow> int \<Rightarrow> py_float py" where
  "get_decoding_compute_logit_latency m gpu gpus output_len batch_size =
     (if batch_size \<le> 0 then Inr 0
      else bindE (get_decoding_compute_logit_ops m output_len gpus batch_size) (\<lambda>ops.
        bindE (get_decoding_compute_logit_memory_access_count m output_len gpus batch_size) (\<lambda>access.
        bindE (lookupE (dict_get GPU_SPEC) gpu) (\<lambda>g. roofline g (of_int ops) (access * of_int (itemsize m))))))"

section \<open>Memory\<close>

definition get_forwarding_memory :: "int \<Rightarrow> int \<Rightarrow> int \<Rightarrow> int option \<Rightarrow> int" where
  "get_forwarding_memory max_len hidden item imd = 2 * max_len * or_default imd (4 * hidden) * item"

definition get_memory_size_embedding_or_lm_head_weight_bytes :: "shape \<Rightarrow> int" where
  "get_memory_size_embedding_or_lm_head_weight_bytes m = vocab_size m * hidden_dim m * itemsize m"

definition get_memory_size_decoder_layer_weight_bytes :: "shape \<Rightarrow> int py" where
  "get_memory_size_decoder_layer_weight_bytes m =
     bindE (if num_kv_cache_head m = 0 then Inl ZeroDivisionError
       else assertE (num_attention_head m mod num_kv_cache_head m = 0) AssertionError) (\<lambda>_.
     bindE (effective_head_dim m) (\<lambda>eff_head_dim.
     let H_q = num_attention_head m * eff_head_dim; kv_cache_dim = num_kv_cache_head m * eff_head_dim;
         num_total_elem = hidden_dim m + hidden_dim m * H_q * 2 + hidden_dim m * kv_cache_dim * 2 + hidden_dim m +
           hidden_dim m * intermediate_dim m * 3 in
     Inr (num_total_elem * itemsize m)))"

section \<open>Stages\<close>

text \<open>
  A stage of a pipeline: the type of its node and its number of layers. The availability zone is
  carried along in the source and not used.
\<close>

type_synonym node_layer = "string \<times> int"

record stage =
  s_gpu :: string
  s_gpus :: int
  s_bandwidth :: py_float
  s_layers :: int
  s_first :: bool
  s_final :: bool
  s_head :: bool

text \<open>\<open>s_head\<close> tells whether the last layer of the model, and with it the head, is on the stage.\<close>

definition stage_of :: "int list \<Rightarrow> int \<Rightarrow> nat \<Rightarrow> nat \<Rightarrow> int \<Rightarrow> node_layer \<Rightarrow> stage py" where
  "stage_of tp_sizes total_num_layers n i processed_layers nl =
     (case nl of (node_type, layer_count) \<Rightarrow>
      bindE (lookupE (dict_get INSTANCE_SPEC) node_type) (\<lambda>spec.
      bindE (if tp_sizes = [] then Inr (gpu_count spec) else nthE tp_sizes i) (\<lambda>num_gpu.
      Inr \<lparr>s_gpu = gpu_type spec, s_gpus = num_gpu, s_bandwidth = interconnect_bandwidth spec, s_layers = layer_count,
        s_first = (i = 0), s_final = (i = n - 1), s_head = (processed_layers = total_num_layers)\<rparr>)))"

text \<open>A loop over the stages that collects a value from each; it counts the layers up to the stage.\<close>

fun loop_stages :: "(stage \<Rightarrow> 'a py) \<Rightarrow> int list \<Rightarrow> int \<Rightarrow> nat \<Rightarrow> nat \<Rightarrow> int \<Rightarrow> node_layer list \<Rightarrow> 'a list py" where
  "loop_stages f tp_sizes total_num_layers n i processed [] = Inr []"
| "loop_stages f tp_sizes total_num_layers n i processed (nl # nls) =
     bindE (stage_of tp_sizes total_num_layers n i (processed + snd nl) nl) (\<lambda>s.
     bindE (f s) (\<lambda>x.
     bindE (loop_stages f tp_sizes total_num_layers n (Suc i) (processed + snd nl) nls) (\<lambda>xs. Inr (x # xs))))"

definition over_stages :: "(stage \<Rightarrow> 'a py) \<Rightarrow> int list \<Rightarrow> int \<Rightarrow> node_layer list \<Rightarrow> 'a list py" where
  "over_stages f tp_sizes total_num_layers comb = loop_stages f tp_sizes total_num_layers (length comb) 0 0 comb"

text \<open>A value that is computed only under a condition, and zero otherwise.\<close>

definition whenE :: "bool \<Rightarrow> py_float py \<Rightarrow> py_float py" where
  "whenE b x = (if b then x else Inr 0)"

definition timesE :: "py_float py \<Rightarrow> int \<Rightarrow> py_float py" where
  "timesE x n = bindE x (\<lambda>v. Inr (v * of_int n))"

definition plusE :: "py_float py \<Rightarrow> py_float py \<Rightarrow> py_float py" where
  "plusE x y = bindE x (\<lambda>a. bindE y (\<lambda>b. Inr (a + b)))"

section \<open>Latency of a single request\<close>

text \<open>Computation of a stage, with the logits, then communication between stages and within the stage.\<close>

definition single_computation :: "shape \<Rightarrow> int \<Rightarrow> int \<Rightarrow> stage \<Rightarrow> py_float py" where
  "single_computation m avg_input_len avg_output_len s =
     plusE (plusE (timesE (get_prefill_computation_latency_per_layer m (s_gpu s) (s_gpus s) avg_input_len 1) (s_layers s))
        (timesE (get_decoding_computation_latency_per_layer m (s_gpu s) (s_gpus s) avg_input_len avg_output_len 1) (s_layers s)))
       (plusE (whenE (s_head s) (get_prefill_compute_logit_latency m (s_gpu s) (s_gpus s) 1))
         (whenE (s_head s) (get_decoding_compute_logit_latency m (s_gpu s) (s_gpus s) avg_output_len 1)))"

definition single_pp_communication :: "shape \<Rightarrow> int \<Rightarrow> int \<Rightarrow> stage \<Rightarrow> py_float py" where
  "single_pp_communication m avg_input_len avg_output_len s =
     plusE (whenE (\<not> s_final s) (plusE (get_pp_communication_latency_send_recv m 1 avg_input_len None None)
         (timesE (get_pp_communication_latency_send_recv m 1 1 None None) avg_output_len)))
       (whenE (\<not> s_first s) (plusE (get_pp_communication_latency_broadcast m 1 avg_input_len (s_gpus s) (s_bandwidth s) None)
         (timesE (get_pp_communication_latency_broadcast m 1 1 (s_gpus s) (s_bandwidth s) None) avg_output_len)))"

definition single_tp_communication :: "shape \<Rightarrow> int \<Rightarrow> int \<Rightarrow> stage \<Rightarrow> py_float py" where
  "single_tp_communication m avg_input_len avg_output_len s =
     plusE (plusE (timesE (get_tp_communication_latency_per_layer m (s_gpus s) 1 avg_input_len (s_bandwidth s) None) (s_layers s))
        (timesE (get_tp_communication_latency_per_layer m (s_gpus s) 1 1 (s_bandwidth s) None) avg_output_len))
       (plusE (whenE (s_head s) (get_tp_communication_latency_compute_logit m (s_gpus s) 1 avg_input_len (s_bandwidth s) None))
        (whenE (s_head s) (timesE (get_tp_communication_latency_compute_logit m (s_gpus s) 1 1 (s_bandwidth s) None) avg_output_len)))"

definition single_stage :: "shape \<Rightarrow> int \<Rightarrow> int \<Rightarrow> stage \<Rightarrow> py_float py" where
  "single_stage m avg_input_len avg_output_len s =
     plusE (single_computation m avg_input_len avg_output_len s)
       (plusE (single_pp_communication m avg_input_len avg_output_len s)
         (single_tp_communication m avg_input_len avg_output_len s))"

definition get_single_request_latency :: "shape \<Rightarrow> int \<Rightarrow> int \<Rightarrow> int \<Rightarrow> node_layer list \<Rightarrow> int list \<Rightarrow> py_float py" where
  "get_single_request_latency m avg_input_len avg_output_len total_num_layers comb tp_sizes =
     bindE (over_stages (single_stage m avg_input_len avg_output_len) tp_sizes total_num_layers comb) (\<lambda>ls. Inr (sum_list ls))"

section \<open>Requests that fit into memory\<close>

record workload =
  avg_input_len :: int
  avg_output_len :: int
  max_model_len :: int
  gpu_mem_utilization :: py_float
  block_size :: int

definition stage_weights :: "shape \<Rightarrow> stage \<Rightarrow> int py" where
  "stage_weights m s =
     bindE (get_memory_size_decoder_layer_weight_bytes m) (\<lambda>layer.
     Inr (layer * s_layers s +
       (if s_first s then get_memory_size_embedding_or_lm_head_weight_bytes m else 0) +
       (if s_head s then get_memory_size_embedding_or_lm_head_weight_bytes m else 0)))"

text \<open>The memory left for the KV cache of a stage.\<close>

definition stage_kv_memory :: "shape \<Rightarrow> workload \<Rightarrow> stage \<Rightarrow> py_float py" where
  "stage_kv_memory m w s =
     bindE (lookupE (dict_get GPU_SPEC) (s_gpu s)) (\<lambda>g.
     let total_memory_available = of_int (memory_size g * 10 ^ 6 * s_gpus s) * gpu_mem_utilization w in
     bindE (stage_weights m s) (\<lambda>model_weight_memory.
     let forwarding_memory = get_forwarding_memory (max_model_len w) (hidden_dim m) (itemsize m) (Some (intermediate_dim m)) in
     Inr (total_memory_available - of_int model_weight_memory - of_int forwarding_memory)))"

text \<open>One round of the loop; \<open>None\<close> if a request of maximal length does not fit.\<close>

definition stage_batch_size :: "shape \<Rightarrow> workload \<Rightarrow> int \<Rightarrow> stage \<Rightarrow> int option py" where
  "stage_batch_size m w dim_kv_head s =
     bindE (stage_kv_memory m w s) (\<lambda>available_kv_cache_memory.
     let kv_memory_needed_per_layer = 2 * max_model_len w * dim_kv_head * itemsize m in
     if available_kv_cache_memory \<le> of_int (kv_memory_needed_per_layer * s_layers s) then Inr None
     else bindE (floatdivE available_kv_cache_memory
         (of_int (2 * (avg_input_len w + avg_output_len w) * dim_kv_head * s_layers s * itemsize m))) (\<lambda>b. Inr (Some b)))"

fun batch_sizes :: "shape \<Rightarrow> workload \<Rightarrow> int \<Rightarrow> int list \<Rightarrow> int \<Rightarrow> nat \<Rightarrow> nat \<Rightarrow> int \<Rightarrow> node_layer list \<Rightarrow> int list py" where
  "batch_sizes m w dim_kv_head tp_sizes total_num_layers n i processed [] = Inr []"
| "batch_sizes m w dim_kv_head tp_sizes total_num_layers n i processed (nl # nls) =
     bindE (stage_of tp_sizes total_num_layers n i (processed + snd nl) nl) (\<lambda>s.
     bindE (stage_batch_size m w dim_kv_head s) (\<lambda>b.
     case b of None \<Rightarrow> Inr [0]
     | Some v \<Rightarrow> bindE (batch_sizes m w dim_kv_head tp_sizes total_num_layers n (Suc i) (processed + snd nl) nls) (\<lambda>vs. Inr (v # vs))))"

definition get_global_batch_size :: "shape \<Rightarrow> workload \<Rightarrow> int \<Rightarrow> node_layer list \<Rightarrow> int list \<Rightarrow> (int \<times> int) py" where
  "get_global_batch_size m w total_num_layers comb tp_sizes =
     bindE (h_kv m) (\<lambda>dim_kv_head.
     bindE (batch_sizes m w dim_kv_head tp_sizes total_num_layers (length comb) 0 0 comb) (\<lambda>global_batch_sizes.
     bindE (minE global_batch_sizes) (\<lambda>min_global_batch_size.
     bindE (floordivE (min_global_batch_size * (avg_input_len w + avg_output_len w)) (block_size w)) (\<lambda>available_num_blocks.
     Inr (min_global_batch_size, available_num_blocks)))))"

section \<open>Throughput\<close>

definition OUT_OF_MEMORY :: py_float where
  "OUT_OF_MEMORY = - 1"

text \<open>
  Micro-batches, as pairs of a number of iterations and a batch size. A batch is spread over the
  stages of the pipeline: some micro-batches of the rounded-down size, the others one larger.
  Those without iterations or without requests are skipped.
\<close>

definition spread :: "int \<Rightarrow> int \<Rightarrow> (int \<times> int) list" where
  "spread pp_size batch =
     filter (\<lambda>(iterations, size). \<not> (iterations = 0 \<or> size = 0))
       [(pp_size - batch mod pp_size, (batch - batch mod pp_size) div pp_size),
        (batch mod pp_size, (batch - batch mod pp_size) div pp_size + 1)]"

definition prefill_batches :: "int \<Rightarrow> int \<Rightarrow> int \<Rightarrow> (int \<times> int) list py" where
  "prefill_batches pp_size max_prefill_batch_size global_batch_size =
     bindE (floordivE global_batch_size (max_prefill_batch_size * pp_size)) (\<lambda>max_batch_iteration.
     let remaining_batch = global_batch_size - max_batch_iteration * max_prefill_batch_size * pp_size in
     Inr ((if max_batch_iteration \<noteq> 0 then [(max_batch_iteration * pp_size, max_prefill_batch_size)] else []) @
       (if remaining_batch \<noteq> 0 then spread pp_size remaining_batch else [])))"

definition prefill_batch_latency :: "shape \<Rightarrow> workload \<Rightarrow> stage \<Rightarrow> int \<times> int \<Rightarrow> py_float py" where
  "prefill_batch_latency m w s batch =
     (case batch of (iterations, batch_size) \<Rightarrow>
      timesE (plusE
        (plusE (timesE (get_prefill_computation_latency_per_layer m (s_gpu s) (s_gpus s) (avg_input_len w) batch_size) (s_layers s))
          (whenE (s_head s) (get_prefill_compute_logit_latency m (s_gpu s) (s_gpus s) batch_size)))
        (plusE (whenE (\<not> s_final s) (get_pp_communication_latency_send_recv m batch_size (avg_input_len w) None None))
          (plusE (timesE (get_tp_communication_latency_per_layer m (s_gpus s) batch_size (avg_input_len w) (s_bandwidth s) None) (s_layers s))
            (whenE (s_head s) (get_tp_communication_latency_compute_logit m (s_gpus s) batch_size (avg_input_len w) (s_bandwidth s) None)))))
       iterations)"

definition decoding_batch_latency :: "shape \<Rightarrow> workload \<Rightarrow> stage \<Rightarrow> int \<times> int \<Rightarrow> py_float py" where
  "decoding_batch_latency m w s batch =
     (case batch of (iterations, batch_size) \<Rightarrow>
      timesE (plusE
        (plusE (timesE (get_decoding_computation_latency_per_layer m (s_gpu s) (s_gpus s) (avg_input_len w) (avg_output_len w) batch_size) (s_layers s))
          (whenE (s_head s) (get_decoding_compute_logit_latency m (s_gpu s) (s_gpus s) (avg_output_len w) batch_size)))
        (plusE (whenE (\<not> s_final s) (timesE (get_pp_communication_latency_send_recv m batch_size 1 None None) (avg_output_len w)))
          (plusE (timesE (timesE (get_tp_communication_latency_per_layer m (s_gpus s) batch_size 1 (s_bandwidth s) None) (s_layers s)) (avg_output_len w))
            (whenE (s_head s) (timesE (get_tp_communication_latency_compute_logit m (s_gpus s) batch_size 1 (s_bandwidth s) None) (avg_output_len w))))))
       iterations)"

definition sumE :: "('a \<Rightarrow> py_float py) \<Rightarrow> 'a list \<Rightarrow> py_float py" where
  "sumE f xs = foldE (\<lambda>acc x. bindE (f x) (\<lambda>l. Inr (acc + l))) 0 xs"

text \<open>The prefill and the decoding latency of a stage for the whole batch.\<close>

definition stage_latencies :: "shape \<Rightarrow> workload \<Rightarrow> int \<Rightarrow> int \<Rightarrow> int \<Rightarrow> stage \<Rightarrow> (py_float \<times> py_float) py" where
  "stage_latencies m w pp_size max_prefill_batch_size global_batch_size s =
     bindE (prefill_batches pp_size max_prefill_batch_size global_batch_size) (\<lambda>batches.
     bindE (sumE (prefill_batch_latency m w s) batches) (\<lambda>prefill.
     bindE (sumE (decoding_batch_latency m w s) (spread pp_size global_batch_size)) (\<lambda>decoding.
     Inr (prefill, decoding))))"

text \<open>The correction for the filling of the pipeline.\<close>

definition bubble_correction :: "workload \<Rightarrow> int \<Rightarrow> int \<Rightarrow> int \<Rightarrow> (py_float \<times> py_float) list \<Rightarrow> (py_float \<times> py_float) py" where
  "bubble_correction w pp_size max_prefill_batch_size global_batch_size ls =
     bindE (maxE (map fst ls)) (\<lambda>max_prefill. bindE (maxE (map snd ls)) (\<lambda>max_decoding.
     let K = min global_batch_size pp_size in
     bindE (floordivE pp_size K) (\<lambda>stage_multiplier.
     let max_prefill = max_prefill * of_int stage_multiplier; max_decoding = max_decoding * of_int stage_multiplier in
     if 1 < K then
       bindE (floordivE global_batch_size max_prefill_batch_size) (\<lambda>q.
       let num_prefill_mbs = max q K in
       bindE (maxE (map (\<lambda>l. fst l / of_int num_prefill_mbs) ls)) (\<lambda>ttft.
       bindE (bindE (maxE (map (\<lambda>l. snd l / of_int K) ls)) (\<lambda>d. divE d (of_int (avg_output_len w)))) (\<lambda>tpot.
       let filling_overhead = of_int (K - 1) * max ttft tpot in
       if tpot \<le> ttft then Inr (max_prefill + filling_overhead, max_decoding)
       else Inr (max_prefill, max_decoding + filling_overhead))))
     else Inr (max_prefill, max_decoding))))"

text \<open>
  \<open>get_throughput\<close>: throughput, latency of the whole batch, and number of cache blocks; the last
  component is the breakdown that is returned with \<open>detail\<close>. \<open>batch_override\<close> replaces the batch
  size and the number of blocks.
\<close>

definition get_throughput :: "shape \<Rightarrow> workload \<Rightarrow> int \<Rightarrow> node_layer list \<Rightarrow> int list \<Rightarrow> (int \<times> int) option \<Rightarrow>
    (py_float \<times> xrat \<times> int \<times> (py_float \<times> py_float) option) py" where
  "get_throughput m w total_num_layers comb tp_sizes batch_override =
     bindE (case batch_override of Some b \<Rightarrow> Inr b | None \<Rightarrow> get_global_batch_size m w total_num_layers comb tp_sizes)
       (\<lambda>(global_batch_size, num_blocks).
     if global_batch_size = 0 then Inr (OUT_OF_MEMORY, PosInf, 0, None)
     else bindE (floordivE (max_model_len w) (avg_input_len w)) (\<lambda>max_prefill_batch_size.
       let pp_size = int (length comb) in
       bindE (over_stages (stage_latencies m w pp_size max_prefill_batch_size global_batch_size) tp_sizes total_num_layers comb) (\<lambda>ls.
       bindE (bubble_correction w pp_size max_prefill_batch_size global_batch_size ls) (\<lambda>(max_prefill, max_decoding).
       bindE (divE (of_int global_batch_size) ((max_prefill + max_decoding) / 1000)) (\<lambda>throughput.
       Inr (throughput, Fin (max_prefill + max_decoding), num_blocks, Some (max_prefill, max_decoding)))))))"

section \<open>Lemmas: results that are positive\<close>

text \<open>A computation that succeeds with a positive or with a non-negative value.\<close>

definition posE :: "('a::linordered_idom) py \<Rightarrow> bool" where
  "posE x \<longleftrightarrow> (\<exists>v. x = Inr v \<and> 0 < v)"

definition nonnegE :: "('a::linordered_idom) py \<Rightarrow> bool" where
  "nonnegE x \<longleftrightarrow> (\<exists>v. x = Inr v \<and> 0 \<le> v)"

named_theorems est_intros \<open>successful computations with positive or non-negative values\<close>

lemma posE_nonneg: "posE x \<Longrightarrow> nonnegE x"
  by (auto simp: posE_def nonnegE_def)

lemma plusE_nonneg [est_intros]: "nonnegE x \<Longrightarrow> nonnegE y \<Longrightarrow> nonnegE (plusE x y)"
  by (auto simp: nonnegE_def plusE_def)

lemma plusE_pos [est_intros]: "posE x \<Longrightarrow> nonnegE y \<Longrightarrow> posE (plusE x y)"
  by (auto simp: posE_def nonnegE_def plusE_def)

lemma timesE_nonneg [est_intros]: "nonnegE x \<Longrightarrow> 0 \<le> n \<Longrightarrow> nonnegE (timesE x n)"
  by (auto simp: nonnegE_def timesE_def)

lemma timesE_pos [est_intros]: "posE x \<Longrightarrow> 0 < n \<Longrightarrow> posE (timesE x n)"
  by (auto simp: posE_def timesE_def)

lemma whenE_nonneg [est_intros]: "nonnegE x \<Longrightarrow> nonnegE (whenE b x)"
  by (auto simp: nonnegE_def whenE_def)

lemma roofline_pos:
  assumes "0 < FLOPS g" "0 < memory_bandwidth g" "0 \<le> ops" "0 < bytes"
  shows "posE (roofline g ops bytes)"
proof (cases "ops / bytes < FLOPS g / memory_bandwidth g")
  case False
  have "0 < FLOPS g / memory_bandwidth g" using assms by simp
  with False have "0 < ops / bytes" by linarith
  then have "0 < ops" using assms by (simp add: zero_less_divide_iff)
  with False assms show ?thesis by (simp add: roofline_def divE_def posE_def)
qed (use assms in \<open>simp add: roofline_def divE_def posE_def\<close>)

lemma sumE_pos:
  assumes "\<And>x. x \<in> set xs \<Longrightarrow> posE (f x)" and "xs \<noteq> []"
  shows "posE (sumE f xs)"
proof -
  have "0 \<le> a \<Longrightarrow> posE (foldE (\<lambda>acc x. bindE (f x) (\<lambda>l. Inr (acc + l))) a xs)"
    if "xs \<noteq> []" "\<And>x. x \<in> set xs \<Longrightarrow> posE (f x)" for a xs
    using that
  proof (induction xs arbitrary: a)
    case (Cons x xs)
    from Cons.prems(3) [of x] obtain v where v: "f x = Inr v" "0 < v" by (auto simp: posE_def)
    show ?case
    proof (cases "xs = []")
      case True
      with v Cons.prems(1) show ?thesis by (simp add: posE_def)
    next
      case False
      with Cons.IH [of "a + v"] Cons.prems v show ?thesis by simp
    qed
  qed simp
  from this [OF assms(2,1), of 0] show ?thesis unfolding sumE_def by simp
qed

text \<open>The shapes and specifications the estimator works on.\<close>

definition shape_ok :: "shape \<Rightarrow> bool" where
  "shape_ok m \<longleftrightarrow> 8 \<le> hidden_dim m \<and> 0 < num_attention_head m \<and> 0 < num_kv_cache_head m \<and>
     num_attention_head m mod num_kv_cache_head m = 0 \<and> 0 < intermediate_dim m \<and> 0 < vocab_size m \<and> 0 < itemsize m \<and>
     (case head_dim m of None \<Rightarrow> num_attention_head m \<le> hidden_dim m | Some d \<Rightarrow> 0 < d)"

lemma shape_okD:
  assumes "shape_ok m"
  obtains d where "effective_head_dim m = Inr d" "0 < d" "h_kv m = Inr (num_kv_cache_head m * d)"
    "h_q m = Inr (num_attention_head m * d)" "0 < num_kv_cache_head m * d" "0 < num_attention_head m * d"
proof -
  obtain d where "effective_head_dim m = Inr d" "0 < d"
    using assms by (cases "head_dim m") (auto simp: shape_ok_def effective_head_dim_def floordivE_def pos_imp_zdiv_pos_iff)
  with that assms show thesis by (simp add: h_kv_def h_q_def shape_ok_def)
qed

definition stage_ok :: "stage \<Rightarrow> bool" where
  "stage_ok s \<longleftrightarrow> (\<exists>g. dict_get GPU_SPEC (s_gpu s) = Some g \<and> 0 < memory_size g \<and> 0 < FLOPS g \<and> 0 < memory_bandwidth g) \<and>
     0 < s_gpus s \<and> s_gpus s \<le> 8 \<and> 0 < s_bandwidth s \<and> 0 < s_layers s"

lemma floordiv_pos: "0 < b \<Longrightarrow> b \<le> a \<Longrightarrow> 0 < a div (b :: int)"
  by (simp add: pos_imp_zdiv_pos_iff)

lemma layer_latency_pos:
  assumes "dict_get GPU_SPEC gpu = Some g" "0 < FLOPS g" "0 < memory_bandwidth g" "0 < itemsize m"
    and "parts \<noteq> []" and "\<forall>(ops, access) \<in> set parts. 0 \<le> ops \<and> 0 < access"
  shows "posE (layer_latency m gpu parts)"
proof -
  have "posE (sumE (\<lambda>(ops, access). roofline g (of_int ops) (of_int (access * itemsize m))) parts)"
    using assms by (intro sumE_pos) (auto intro!: roofline_pos simp del: of_int_mult)
  then show ?thesis using assms(1) by (simp add: layer_latency_def lookupE_def sumE_def case_prod_unfold)
qed

lemma prefill_computation_pos [est_intros]:
  assumes m: "shape_ok m" and s: "stage_ok s" and "0 < n" "0 < b"
  shows "posE (get_prefill_computation_latency_per_layer m (s_gpu s) (s_gpus s) n b)"
proof -
  obtain d where d: "effective_head_dim m = Inr d" "0 < d" "h_kv m = Inr (num_kv_cache_head m * d)"
    "h_q m = Inr (num_attention_head m * d)" "0 < num_kv_cache_head m * d" "0 < num_attention_head m * d"
    using shape_okD [OF m] .
  define K Q where "K = num_kv_cache_head m * d" and "Q = num_attention_head m * d"
  have pos: "0 < K" "0 < Q" "8 \<le> hidden_dim m" "0 < intermediate_dim m" "0 < itemsize m" "0 < s_gpus s" "s_gpus s \<le> 8"
    using d m s by (simp_all add: K_def Q_def shape_ok_def stage_ok_def)
  have big: "s_gpus s \<le> b * n * hidden_dim m + 2 * n * K + Q ^ 2"
  proof -
    have "1 \<le> b * n" using assms(3,4) by (simp add: int_one_le_iff_zero_less)
    then have "1 * hidden_dim m \<le> b * n * hidden_dim m" using pos by (intro mult_right_mono) auto
    moreover have "0 \<le> 2 * n * K" "0 \<le> Q ^ 2" using pos assms(3) by simp_all
    ultimately show ?thesis using pos by linarith
  qed
  have acc: "0 < b * n * hidden_dim m + (hidden_dim m * Q + 2 * hidden_dim m * K) div s_gpus s"
    "0 < (b * n * hidden_dim m + 2 * n * K + Q ^ 2) div s_gpus s"
    "0 < b * n * hidden_dim m + 2 * hidden_dim m * intermediate_dim m div s_gpus s +
       2 * b * n * intermediate_dim m div s_gpus s + b * n * intermediate_dim m div s_gpus s +
       intermediate_dim m * hidden_dim m div s_gpus s"
    using pos assms(3,4) by (simp_all add: floordiv_pos [OF _ big] add_pos_nonneg pos_imp_zdiv_nonneg_iff)
  have ops: "0 \<le> (2 * n * hidden_dim m * Q + 4 * n * hidden_dim m * K) div s_gpus s * b"
    "0 \<le> 2 * (n ^ 2 * Q * 2 + n * Q ^ 2) div s_gpus s * b" "0 \<le> 6 * n * hidden_dim m * intermediate_dim m div s_gpus s * b"
    using pos assms(3,4) by (simp_all add: pos_imp_zdiv_nonneg_iff)
  obtain g where g: "dict_get GPU_SPEC (s_gpu s) = Some g" "0 < FLOPS g" "0 < memory_bandwidth g"
    using s by (auto simp: stage_ok_def)
  show ?thesis
    using layer_latency_pos [OF g pos(5)] acc ops pos(6)
    by (simp add: get_prefill_computation_latency_per_layer_def get_prefill_qkv_projection_ops_per_layer_def
        get_prefill_attention_ops_per_layer_def get_prefill_ffn_ops_per_layer_def
        get_prefill_qkv_projection_memory_access_count_per_layer_def get_prefill_attention_memory_access_count_per_layer_def
        get_prefill_ffn_memory_access_count_per_layer_def d(3,4) floordivE_def flip: K_def Q_def)
qed

lemma decoding_computation_pos [est_intros]:
  assumes m: "shape_ok m" and s: "stage_ok s" and "0 < n" "0 < t" "0 < b"
  shows "posE (get_decoding_computation_latency_per_layer m (s_gpu s) (s_gpus s) n t b)"
proof -
  obtain d where d: "effective_head_dim m = Inr d" "0 < d" "h_kv m = Inr (num_kv_cache_head m * d)"
    "h_q m = Inr (num_attention_head m * d)" "0 < num_kv_cache_head m * d" "0 < num_attention_head m * d"
    using shape_okD [OF m] .
  define K Q where "K = num_kv_cache_head m * d" and "Q = num_attention_head m * d"
  have pos: "0 < K" "0 < Q" "8 \<le> hidden_dim m" "0 < intermediate_dim m" "0 < itemsize m" "0 < s_gpus s" "s_gpus s \<le> 8"
    using d m s by (simp_all add: K_def Q_def shape_ok_def stage_ok_def)
  have big: "s_gpus s \<le> b * hidden_dim m * t + 2 * b * n * K * t + b * K * t * (t + 1) + Q ^ 2 * t"
  proof -
    have "1 \<le> b * t" using assms(4,5) by (simp add: int_one_le_iff_zero_less)
    then have "1 * hidden_dim m \<le> b * t * hidden_dim m" using pos by (intro mult_right_mono) auto
    then have "hidden_dim m \<le> b * hidden_dim m * t" by (simp add: ac_simps)
    moreover have "0 \<le> 2 * b * n * K * t" "0 \<le> b * K * t * (t + 1)" "0 \<le> Q ^ 2 * t" using pos assms(3-5) by simp_all
    ultimately show ?thesis using pos by linarith
  qed
  have acc: "0 < (b * hidden_dim m + (hidden_dim m * Q + 2 * hidden_dim m * K) div s_gpus s) * t"
    "0 < (b * hidden_dim m * t + 2 * b * n * K * t + b * K * t * (t + 1) + Q ^ 2 * t) div s_gpus s"
    "0 < (b * hidden_dim m + 2 * hidden_dim m * intermediate_dim m div s_gpus s +
       2 * b * intermediate_dim m div s_gpus s + b * intermediate_dim m div s_gpus s +
       intermediate_dim m * hidden_dim m div s_gpus s) * t"
    using pos assms(3-5) by (simp_all add: floordiv_pos [OF _ big] add_pos_nonneg pos_imp_zdiv_nonneg_iff)
  have ops: "0 \<le> 2 * (hidden_dim m * Q + 2 * (hidden_dim m * K)) div s_gpus s * b * t"
    "0 \<le> (4 * n * t * Q + 2 * Q * t * (t + 1) + 2 * Q ^ 2 * t) div s_gpus s * b"
    "0 \<le> 6 * hidden_dim m * intermediate_dim m div s_gpus s * b * t"
    using pos assms(3-5) by (simp_all add: pos_imp_zdiv_nonneg_iff)
  obtain g where g: "dict_get GPU_SPEC (s_gpu s) = Some g" "0 < FLOPS g" "0 < memory_bandwidth g"
    using s by (auto simp: stage_ok_def)
  show ?thesis
    using layer_latency_pos [OF g pos(5)] acc ops pos(6)
    by (simp add: get_decoding_computation_latency_per_layer_def get_decoding_qkv_projection_ops_per_layer_def
        get_decoding_attention_ops_per_layer_def get_decoding_ffn_ops_per_layer_def
        get_decoding_qkv_projection_memory_access_count_per_layer_def get_decoding_attention_memory_access_count_per_layer_def
        get_decoding_ffn_memory_access_count_per_layer_def d(3,4) floordivE_def Let_def flip: K_def Q_def)
qed

lemma logit_latencies_nonneg [est_intros]:
  assumes "shape_ok m" "stage_ok s" "0 < t"
  shows "nonnegE (get_prefill_compute_logit_latency m (s_gpu s) (s_gpus s) b)"
    and "nonnegE (get_decoding_compute_logit_latency m (s_gpu s) (s_gpus s) t b)"
proof -
  obtain g where g: "dict_get GPU_SPEC (s_gpu s) = Some g" "0 < FLOPS g" "0 < memory_bandwidth g"
    using assms(2) by (auto simp: stage_ok_def)
  have pos: "0 < hidden_dim m" "0 < vocab_size m" "0 < itemsize m" "0 < s_gpus s"
    using assms by (auto simp: shape_ok_def stage_ok_def)
  have access: "0 < (of_int (b * hidden_dim m) + of_int (vocab_size m * hidden_dim m) / of_int (s_gpus s)) * (of_int (itemsize m) :: rat)"
    if "0 < b" using that pos by (intro mult_pos_pos add_pos_pos divide_pos_pos) (simp_all del: of_int_mult)
  have "posE (roofline g (of_int (2 * b * k * hidden_dim m * vocab_size m div s_gpus s))
      (of_int k * (of_int (b * hidden_dim m) + of_int (vocab_size m * hidden_dim m) / of_int (s_gpus s)) * of_int (itemsize m)))"
    if "0 < b" "0 < k" for k
    using that access pos by (intro roofline_pos g) (simp_all add: pos_imp_zdiv_nonneg_iff mult.assoc)
  note r = this [THEN posE_nonneg]
  from r [of 1] g pos show "nonnegE (get_prefill_compute_logit_latency m (s_gpu s) (s_gpus s) b)"
    by (auto simp: get_prefill_compute_logit_latency_def get_prefill_compute_logit_ops_def lookupE_def floordivE_def divE_def
        get_prefill_compute_logit_memory_access_count_def nonnegE_def)
  from r [of t] g pos assms(3) show "nonnegE (get_decoding_compute_logit_latency m (s_gpu s) (s_gpus s) t b)"
    by (auto simp: get_decoding_compute_logit_latency_def get_decoding_compute_logit_ops_def lookupE_def floordivE_def divE_def
        get_decoding_compute_logit_memory_access_count_def nonnegE_def)
qed

lemma communication_nonneg [est_intros]:
  assumes "shape_ok m" "stage_ok s" "0 < b" "0 < n"
  shows "nonnegE (get_tp_communication_latency_per_layer m (s_gpus s) b n (s_bandwidth s) None)"
    and "nonnegE (get_tp_communication_latency_compute_logit m (s_gpus s) b n (s_bandwidth s) None)"
    and "nonnegE (get_pp_communication_latency_send_recv m b n None None)"
    and "nonnegE (get_pp_communication_latency_broadcast m b n (s_gpus s) (s_bandwidth s) None)"
  using assms
  by (auto simp: nonnegE_def shape_ok_def stage_ok_def divE_def or_default_def get_tp_communication_latency_per_layer_def
      get_tp_communication_latency_compute_logit_def get_pp_communication_latency_send_recv_def
      get_pp_communication_latency_broadcast_def)

lemma single_stage_pos:
  assumes "shape_ok m" "stage_ok s" "0 < n" "0 < t"
  shows "posE (single_stage m n t s)"
proof -
  have "0 < s_layers s" using assms(2) by (simp add: stage_ok_def)
  then show ?thesis
    unfolding single_stage_def single_computation_def single_pp_communication_def single_tp_communication_def
    using assms by (intro est_intros posE_nonneg [OF timesE_pos]) auto
qed

lemma batch_latencies_pos:
  assumes "shape_ok m" "stage_ok s" "0 < avg_input_len w" "0 < avg_output_len w" "0 < fst batch" "0 < snd batch"
  shows "posE (prefill_batch_latency m w s batch)" and "posE (decoding_batch_latency m w s batch)"
proof -
  have "0 < s_layers s" using assms(2) by (simp add: stage_ok_def)
  then show "posE (prefill_batch_latency m w s batch)" "posE (decoding_batch_latency m w s batch)"
    unfolding prefill_batch_latency_def decoding_batch_latency_def case_prod_unfold
    using assms by (intro est_intros; simp)+
qed

section \<open>Lemmas: micro-batches\<close>

text \<open>The requests of a list of micro-batches.\<close>

definition requests_of :: "(int \<times> int) list \<Rightarrow> int" where
  "requests_of bs = sum_list (map (\<lambda>(iterations, size). iterations * size) bs)"

lemma requests_of_filter: "requests_of (filter (\<lambda>(i, s). \<not> (i = 0 \<or> s = 0)) bs) = requests_of bs"
  by (induction bs) (auto simp: requests_of_def)

lemma spread_requests: "pp \<noteq> 0 \<Longrightarrow> requests_of (spread pp b) = b"
proof -
  assume "pp \<noteq> 0"
  have "(b - b mod pp) div pp * pp = b - b mod pp" by (simp add: minus_mod_eq_mult_div)
  then have "(pp - b mod pp) * ((b - b mod pp) div pp) + b mod pp * ((b - b mod pp) div pp + 1) = b"
    by (simp add: algebra_simps)
  then show ?thesis unfolding spread_def requests_of_filter by (simp add: requests_of_def)
qed

lemma spread_sizes:
  assumes "0 < pp" "0 < b" "(i, s) \<in> set (spread pp b)"
  shows "0 < i \<and> 0 < s \<and> (s = b div pp \<or> s = b div pp + 1 \<and> b mod pp \<noteq> 0)"
proof -
  have q: "(b - b mod pp) div pp = b div pp" by (simp add: minus_mod_eq_mult_div)
  have "0 \<le> b div pp" "0 \<le> b mod pp" "b mod pp < pp" using assms by (simp_all add: pos_imp_zdiv_nonneg_iff)
  then show ?thesis using assms(3) unfolding spread_def q set_filter by auto
qed

lemma prefill_batches_ok:
  assumes "0 < pp" "0 < mx" "0 < b"
  shows "\<exists>bs. prefill_batches pp mx b = Inr bs \<and> requests_of bs = b \<and> bs \<noteq> [] \<and>
     (\<forall>(i, s) \<in> set bs. 0 < i \<and> 0 < s \<and> s \<le> mx)"
proof -
  define q where "q = b div (mx * pp)"
  define r where "r = b - q * mx * pp"
  define bs where "bs = (if q \<noteq> 0 then [(q * pp, mx)] else []) @ (if r \<noteq> 0 then spread pp r else [])"
  have mp: "0 < mx * pp" using assms by simp
  have r: "r = b mod (mx * pp)" by (simp add: r_def q_def minus_div_mult_eq_mod [symmetric] mult.assoc)
  have q0: "0 \<le> q" using assms mp by (simp add: q_def pos_imp_zdiv_nonneg_iff)
  have r0: "0 \<le> r" "r < mx * pp" using mp by (simp_all add: r)
  have "r div pp * pp < mx * pp"
    using r0(2) assms(1) div_mult_mod_eq [of r pp] pos_mod_sign [of pp r] by linarith
  then have small: "r div pp < mx" using assms(1) by (simp add: mult_less_cancel_right)
  have run: "prefill_batches pp mx b = Inr bs"
    using assms by (simp add: prefill_batches_def floordivE_def bs_def q_def r_def Let_def)
  have "requests_of bs = q * pp * mx + r"
    using spread_requests [of pp r] assms(1) by (auto simp: bs_def requests_of_def)
  then have total: "requests_of bs = b" by (simp add: r_def algebra_simps)
  have "0 < i \<and> 0 < s \<and> s \<le> mx" if "(i, s) \<in> set bs" for i s
    using that spread_sizes [OF assms(1), of r i s] small q0 r0 assms by (auto simp: bs_def split: if_splits)
  moreover have "bs \<noteq> []" using total assms(3) by (auto simp: requests_of_def)
  ultimately show ?thesis using run total by auto
qed

lemma stage_latencies_ok:
  assumes "shape_ok m" "stage_ok s" "0 < avg_input_len w" "0 < avg_output_len w" "0 < pp" "0 < mx" "0 < b"
  shows "\<exists>x y. stage_latencies m w pp mx b s = Inr (x, y) \<and> 0 < x \<and> 0 < y"
proof -
  obtain bs where bs: "prefill_batches pp mx b = Inr bs" "bs \<noteq> []" "\<forall>(i, s) \<in> set bs. 0 < i \<and> 0 < s \<and> s \<le> mx"
    using prefill_batches_ok [OF assms(5-7)] by blast
  have "posE (sumE (prefill_batch_latency m w s) bs)"
    using bs(2,3) assms by (intro sumE_pos batch_latencies_pos) auto
  moreover have "posE (sumE (decoding_batch_latency m w s) (spread pp b))"
  proof (rule sumE_pos)
    show "spread pp b \<noteq> []" using spread_requests [of pp b] assms by (auto simp: requests_of_def)
    show "posE (decoding_batch_latency m w s x)" if "x \<in> set (spread pp b)" for x
      using that spread_sizes [OF assms(5,7), of "fst x" "snd x"] assms by (intro batch_latencies_pos) auto
  qed
  ultimately show ?thesis using bs(1) by (auto simp: stage_latencies_def posE_def)
qed

section \<open>Lemmas: the loop over the stages\<close>

definition comb_ok :: "node_layer list \<Rightarrow> bool" where
  "comb_ok comb \<longleftrightarrow> comb \<noteq> [] \<and> (\<forall>(node_type, layer_count) \<in> set comb. known node_type \<and> 0 < layer_count)"

lemma known_instance:
  assumes "known t"
  obtains i where "dict_get INSTANCE_SPEC t = Some i" "0 < gpu_count i" "gpu_count i \<le> 8" "0 < interconnect_bandwidth i"
    "\<exists>g. dict_get GPU_SPEC (gpu_type i) = Some g \<and> 0 < memory_size g \<and> 0 < FLOPS g \<and> 0 < memory_bandwidth g"
proof -
  from assms obtain i where "dict_get INSTANCE_SPEC t = Some i"
    by (cases "dict_get INSTANCE_SPEC t") (auto simp: known_def map_of_eq_None_iff)
  moreover from map_of_SomeD [OF this] known_specs have "(case dict_get GPU_SPEC (gpu_type i) of None \<Rightarrow> False
       | Some g \<Rightarrow> 0 < memory_size g \<and> 0 < FLOPS g \<and> 0 < memory_bandwidth g) \<and>
     0 < gpu_count i \<and> gpu_count i \<le> 8 \<and> 0 < interconnect_bandwidth i"
    by (auto simp: list_all_iff)
  ultimately show thesis using that by (auto split: option.splits)
qed

lemma stage_of_ok:
  assumes "known (fst nl)" and "0 < snd nl"
  shows "\<exists>s. stage_of [] total_num_layers n i processed nl = Inr s \<and> stage_ok s \<and> s_layers s = snd nl"
proof -
  obtain spec where "dict_get INSTANCE_SPEC (fst nl) = Some spec" "0 < gpu_count spec" "gpu_count spec \<le> 8"
    "0 < interconnect_bandwidth spec"
    "\<exists>g. dict_get GPU_SPEC (gpu_type spec) = Some g \<and> 0 < memory_size g \<and> 0 < FLOPS g \<and> 0 < memory_bandwidth g"
    using known_instance [OF assms(1)] .
  with assms(2) show ?thesis by (cases nl) (simp add: stage_of_def lookupE_def stage_ok_def)
qed

lemma loop_stages_ok:
  assumes "\<And>s. stage_ok s \<Longrightarrow> \<exists>x. f s = Inr x \<and> P x" and "\<forall>(t, l) \<in> set comb. known t \<and> 0 < l"
  shows "\<exists>xs. loop_stages f [] total_num_layers n i processed comb = Inr xs \<and> length xs = length comb \<and> list_all P xs"
  using assms(2)
proof (induction comb arbitrary: i processed)
  case (Cons nl comb)
  obtain s where s: "stage_of [] total_num_layers n i (processed + snd nl) nl = Inr s" "stage_ok s"
    using stage_of_ok [of nl total_num_layers n i "processed + snd nl"] Cons.prems by (cases nl) auto
  obtain x where "f s = Inr x" "P x" using assms(1) [OF s(2)] by blast
  with Cons.IH [of "Suc i" "processed + snd nl"] Cons.prems s(1) show ?case by auto
qed simp

lemma maxE_pos:
  assumes "xs \<noteq> []" and "\<forall>x \<in> set xs. 0 < x"
  shows "\<exists>v. maxE xs = Inr v \<and> 0 < v \<and> v \<in> set xs \<and> (\<forall>x \<in> set xs. x \<le> v)"
  using assms Max_in [of "set xs"] by (auto simp: maxE_def)

lemma bubble_correction_ok:
  assumes "ls \<noteq> []" and "\<forall>l \<in> set ls. 0 < fst l \<and> 0 < snd l" and "0 < pp" "0 < mx" "0 < b" "0 < avg_output_len w"
  shows "\<exists>x y. bubble_correction w pp mx b ls = Inr (x, y) \<and> 0 < x \<and> 0 < y"
proof -
  obtain x where x: "maxE (map fst ls) = Inr x" "0 < x" using maxE_pos [of "map fst ls"] assms by auto
  obtain y where y: "maxE (map snd ls) = Inr y" "0 < y" using maxE_pos [of "map snd ls"] assms by auto
  define K where "K = min b pp"
  have K: "0 < K" "K \<le> pp" using assms by (auto simp: K_def)
  then have mult: "0 < pp div K" by (intro floordiv_pos) auto
  have xy: "0 < x * of_int (pp div K)" "0 < y * of_int (pp div K)" using x y mult by simp_all
  obtain u where u: "maxE (map (\<lambda>l. fst l / of_int (max (b div mx) K)) ls) = Inr u" "0 < u"
    using maxE_pos [of "map (\<lambda>l. fst l / of_int (max (b div mx) K)) ls"] assms(1,2) K by (auto simp: less_max_iff_disj)
  obtain v where v: "maxE (map (\<lambda>l. snd l / of_int K) ls) = Inr v" "0 < v"
    using maxE_pos [of "map (\<lambda>l. snd l / of_int K) ls"] assms(1,2) K by auto
  have fill: "0 \<le> of_int (K - 1) * max u (v / of_int (avg_output_len w))" if "1 < K"
    using that u v assms by (intro mult_nonneg_nonneg) (auto simp: le_max_iff_disj)
  show ?thesis
  proof (cases "1 < K")
    case True
    with x y u v K assms xy fill show ?thesis
      by (auto simp: bubble_correction_def floordivE_def divE_def Let_def intro: add_pos_nonneg simp flip: K_def)
  next
    case False
    with x y K xy show ?thesis by (simp add: bubble_correction_def floordivE_def Let_def flip: K_def)
  qed
qed

section \<open>Lemmas: memory\<close>

text \<open>The batch size of a stage is the largest number of requests whose KV cache fits.\<close>

lemma stage_batch_size_spec:
  assumes "shape_ok m" "stage_ok s" "0 < kv" "0 < avg_input_len w" "0 < avg_output_len w" "0 \<le> max_model_len w"
    and "c = 2 * (avg_input_len w + avg_output_len w) * kv * s_layers s * itemsize m"
  shows "\<exists>a r. stage_kv_memory m w s = Inr a \<and> stage_batch_size m w kv s = Inr r \<and>
     (r = None \<longleftrightarrow> a \<le> of_int (2 * max_model_len w * kv * itemsize m * s_layers s)) \<and>
     (\<forall>b. r = Some b \<longrightarrow> 0 \<le> b \<and> of_int (b * c) \<le> a \<and> a < of_int ((b + 1) * c))"
proof -
  obtain d where d: "effective_head_dim m = Inr d" using shape_okD [OF assms(1)] by metis
  obtain g where g: "dict_get GPU_SPEC (s_gpu s) = Some g" using assms(2) by (auto simp: stage_ok_def)
  obtain a where a: "stage_kv_memory m w s = Inr a"
    using assms(1) d g by (auto simp: stage_kv_memory_def stage_weights_def get_memory_size_decoder_layer_weight_bytes_def
        lookupE_def shape_ok_def Let_def)
  have c: "0 < c" using assms by (simp add: shape_ok_def stage_ok_def)
  then have c': "0 < (of_int c :: rat)" by simp
  have fl: "of_int (\<lfloor>a / of_int c\<rfloor> * c) \<le> a"
    unfolding of_int_mult by (rule pos_le_divide_eq [OF c', THEN iffD1]) (rule of_int_floor_le)
  have fu: "a < of_int ((\<lfloor>a / of_int c\<rfloor> + 1) * c)"
    unfolding of_int_mult by (rule pos_divide_less_eq [OF c', THEN iffD1]) (use floor_correct [of "a / of_int c"] in simp)
  have need: "0 \<le> 2 * max_model_len w * kv * itemsize m * s_layers s" using assms by (simp add: shape_ok_def stage_ok_def)
  show ?thesis
  proof (cases "a \<le> of_int (2 * max_model_len w * kv * itemsize m * s_layers s)")
    case True
    then have "stage_batch_size m w kv s = Inr None"
      using a by (simp add: stage_batch_size_def Let_def)
    with a True show ?thesis by auto
  next
    case False
    with need have "0 < a" by (meson not_le of_int_0_le_iff order_less_le_trans order_le_less_trans)
    then have "0 \<le> \<lfloor>a / of_int c\<rfloor>" using c' by (simp add: le_floor_iff)
    moreover have "stage_batch_size m w kv s = Inr (Some \<lfloor>a / of_int c\<rfloor>)"
      unfolding stage_batch_size_def Let_def assms(7) [symmetric]
      using a False c' by (simp add: floatdivE_def del: of_int_mult)
    ultimately show ?thesis using a False fl fu by auto
  qed
qed

definition workload_ok :: "workload \<Rightarrow> bool" where
  "workload_ok w \<longleftrightarrow> 0 < avg_input_len w \<and> 0 < avg_output_len w \<and> avg_input_len w \<le> max_model_len w \<and> 0 < block_size w"

lemma stage_batch_size_cases:
  assumes "shape_ok m" "stage_ok s" "0 < kv" "workload_ok w"
  shows "stage_batch_size m w kv s = Inr None \<or> (\<exists>b \<ge> 0. stage_batch_size m w kv s = Inr (Some b))"
  using stage_batch_size_spec [OF assms(1-3) _ _ _ refl, of w] assms(4)
  by (auto simp: workload_ok_def)

lemma batch_sizes_spec:
  assumes "shape_ok m" "workload_ok w" "0 < kv" and "\<forall>(t, l) \<in> set comb. known t \<and> 0 < l"
  shows "\<exists>ss bs. loop_stages Inr [] total_num_layers n i processed comb = Inr ss \<and>
     batch_sizes m w kv [] total_num_layers n i processed comb = Inr bs \<and> length ss = length comb \<and>
     (bs = [] \<longrightarrow> comb = []) \<and> list_all stage_ok ss \<and> (\<forall>b \<in> set bs. 0 \<le> b) \<and>
     (0 \<notin> set bs \<longrightarrow> list_all2 (\<lambda>s b. stage_batch_size m w kv s = Inr (Some b)) ss bs) \<and>
     (\<forall>b \<in> set bs. b = 0 \<and> (\<exists>s \<in> set ss. stage_batch_size m w kv s = Inr None) \<or>
        (\<exists>s \<in> set ss. stage_batch_size m w kv s = Inr (Some b)))"
  using assms(4)
proof (induction comb arbitrary: i processed)
  case (Cons nl comb)
  obtain s where s: "stage_of [] total_num_layers n i (processed + snd nl) nl = Inr s" "stage_ok s"
    using stage_of_ok [of nl total_num_layers n i "processed + snd nl"] Cons.prems by (cases nl) auto
  from Cons.prems have "\<forall>(t, l) \<in> set comb. known t \<and> 0 < l" by simp
  from Cons.IH [OF this, of "Suc i" "processed + snd nl"]
  obtain ss bs where IH: "loop_stages Inr [] total_num_layers n (Suc i) (processed + snd nl) comb = Inr ss"
    "batch_sizes m w kv [] total_num_layers n (Suc i) (processed + snd nl) comb = Inr bs" "length ss = length comb"
    "list_all stage_ok ss" "\<forall>b \<in> set bs. 0 \<le> b"
    "0 \<notin> set bs \<longrightarrow> list_all2 (\<lambda>s b. stage_batch_size m w kv s = Inr (Some b)) ss bs"
    "\<forall>b \<in> set bs. b = 0 \<and> (\<exists>s \<in> set ss. stage_batch_size m w kv s = Inr None) \<or>
        (\<exists>s \<in> set ss. stage_batch_size m w kv s = Inr (Some b))" by blast
  have ss: "loop_stages Inr [] total_num_layers n i processed (nl # comb) = Inr (s # ss)" using s(1) IH(1) by simp
  from stage_batch_size_cases [OF assms(1) s(2) assms(3,2)] show ?case
  proof (elim disjE exE conjE)
    assume "stage_batch_size m w kv s = Inr None"
    with s IH(3,4) ss show ?thesis by (intro exI [of _ "s # ss"] exI [of _ "[0]"]) simp
  next
    fix b assume "0 \<le> b" "stage_batch_size m w kv s = Inr (Some b)"
    with s IH ss show ?thesis by (intro exI [of _ "s # ss"] exI [of _ "b # bs"]) auto
  qed
qed simp

lemma global_batch_run:
  assumes "shape_ok m" "comb_ok comb" "workload_ok w"
  shows "\<exists>kv ss bs b. h_kv m = Inr kv \<and> 0 < kv \<and> over_stages Inr [] total_num_layers comb = Inr ss \<and>
     get_global_batch_size m w total_num_layers comb [] =
       Inr (b, b * (avg_input_len w + avg_output_len w) div block_size w) \<and>
     list_all stage_ok ss \<and> 0 \<le> b \<and> b \<in> set bs \<and> (\<forall>b' \<in> set bs. b \<le> b') \<and>
     (0 < b \<longrightarrow> list_all2 (\<lambda>s b. stage_batch_size m w kv s = Inr (Some b)) ss bs) \<and>
     (b = 0 \<and> (\<exists>s \<in> set ss. stage_batch_size m w kv s = Inr None) \<or>
        (\<exists>s \<in> set ss. stage_batch_size m w kv s = Inr (Some b)))"
proof -
  obtain d where "h_kv m = Inr (num_kv_cache_head m * d)" "0 < num_kv_cache_head m * d" using shape_okD [OF assms(1)] by metis
  then obtain kv where kv: "h_kv m = Inr kv" "0 < kv" by blast
  have c: "\<forall>(t, l) \<in> set comb. known t \<and> 0 < l" "comb \<noteq> []" using assms(2) by (auto simp: comb_ok_def)
  from batch_sizes_spec [OF assms(1,3) kv(2) c(1), of total_num_layers "length comb" 0 0]
  obtain ss bs where ss: "loop_stages Inr [] total_num_layers (length comb) 0 0 comb = Inr ss"
    "batch_sizes m w kv [] total_num_layers (length comb) 0 0 comb = Inr bs" "bs \<noteq> []" "list_all stage_ok ss"
    "\<forall>b \<in> set bs. 0 \<le> b" "0 \<notin> set bs \<longrightarrow> list_all2 (\<lambda>s b. stage_batch_size m w kv s = Inr (Some b)) ss bs"
    "\<forall>b \<in> set bs. b = 0 \<and> (\<exists>s \<in> set ss. stage_batch_size m w kv s = Inr None) \<or>
        (\<exists>s \<in> set ss. stage_batch_size m w kv s = Inr (Some b))"
    using c(2) by blast
  define b where "b = Min (set bs)"
  have b: "b \<in> set bs" "\<forall>b' \<in> set bs. b \<le> b'" using ss(3) by (simp_all add: b_def)
  have run: "get_global_batch_size m w total_num_layers comb [] =
      Inr (b, b * (avg_input_len w + avg_output_len w) div block_size w)"
    using ss(2,3) kv assms(3) by (simp add: get_global_batch_size_def minE_def floordivE_def b_def workload_ok_def)
  have "0 < b \<longrightarrow> 0 \<notin> set bs" using b by auto
  then have all: "0 < b \<longrightarrow> list_all2 (\<lambda>s b. stage_batch_size m w kv s = Inr (Some b)) ss bs" using ss(6) by simp
  have "0 \<le> b" using ss(5) b(1) by simp
  with bspec [OF ss(7) b(1)] all run b ss(1,4) kv show ?thesis
    unfolding over_stages_def by (intro exI [of _ kv] exI [of _ ss] exI [of _ bs] exI [of _ b] conjI)
qed

lemma floordiv_bounds:
  fixes a c :: int
  assumes "0 < c"
  shows "a div c * c \<le> a" and "a < (a div c + 1) * c"
  using div_mult_mod_eq [of a c] pos_mod_sign [OF assms, of a] pos_mod_bound [OF assms, of a]
  unfolding distrib_right mult_1 by linarith+

lemma sum_steps: "0 \<le> n \<Longrightarrow> (\<Sum>t \<in> {1..n}. a + 2 * c * t) = a * n + c * (n * (n + 1))" for n :: int
proof (induction n rule: int_ge_induct)
  case (step n)
  then have "{1..n + 1} = insert (n + 1) {1..n}" by auto
  with step show ?case by (simp add: algebra_simps)
qed simp

section \<open>Properties\<close>

text \<open>
  The closed forms for decoding are the sums over the steps. Step t of decoding attends to the
  input and the t tokens generated so far; the operations and the memory accesses that
  \<open>get_decoding_attention_ops_per_layer\<close> and its counterpart for memory compute without a loop are
  those of all steps together.
\<close>

theorem decoding_attention_is_sum_of_steps:
  assumes "h_q m = Inr Q" and "h_kv m = Inr K" and "0 \<le> output_len" and "tp_size \<noteq> 0"
  shows "get_decoding_attention_ops_per_layer m input_len output_len tp_size batch_size =
       Inr ((\<Sum>t \<in> {1..output_len}. 4 * (input_len + t) * Q + 2 * Q ^ 2) div tp_size * batch_size) \<and>
     get_decoding_attention_memory_access_count_per_layer m input_len output_len tp_size batch_size =
       Inr ((\<Sum>t \<in> {1..output_len}. batch_size * hidden_dim m + 2 * batch_size * (input_len + t) * K + Q ^ 2) div tp_size)"
proof -
  have "(\<Sum>t \<in> {1..output_len}. 4 * (input_len + t) * Q + 2 * Q ^ 2) =
      (\<Sum>t \<in> {1..output_len}. (4 * input_len * Q + 2 * Q ^ 2) + 2 * (2 * Q) * t)"
    by (simp add: algebra_simps)
  also have "\<dots> = 4 * input_len * output_len * Q + 2 * Q * output_len * (output_len + 1) + 2 * Q ^ 2 * output_len"
    unfolding sum_steps [OF assms(3)] by (simp add: algebra_simps)
  finally have ops: "(\<Sum>t \<in> {1..output_len}. 4 * (input_len + t) * Q + 2 * Q ^ 2) =
      4 * input_len * output_len * Q + 2 * Q * output_len * (output_len + 1) + 2 * Q ^ 2 * output_len" .
  have "(\<Sum>t \<in> {1..output_len}. batch_size * hidden_dim m + 2 * batch_size * (input_len + t) * K + Q ^ 2) =
      (\<Sum>t \<in> {1..output_len}. (batch_size * hidden_dim m + 2 * batch_size * input_len * K + Q ^ 2) + 2 * (batch_size * K) * t)"
    by (simp add: algebra_simps)
  also have "\<dots> = batch_size * hidden_dim m * output_len + 2 * batch_size * input_len * K * output_len +
      batch_size * K * output_len * (output_len + 1) + Q ^ 2 * output_len"
    unfolding sum_steps [OF assms(3)] by (simp add: algebra_simps)
  finally have access: "(\<Sum>t \<in> {1..output_len}. batch_size * hidden_dim m + 2 * batch_size * (input_len + t) * K + Q ^ 2) =
      batch_size * hidden_dim m * output_len + 2 * batch_size * input_len * K * output_len +
      batch_size * K * output_len * (output_len + 1) + Q ^ 2 * output_len" .
  show ?thesis
    unfolding ops access using assms
    by (simp add: get_decoding_attention_ops_per_layer_def get_decoding_attention_memory_access_count_per_layer_def
        floordivE_def Let_def)
qed

definition small_shape :: shape where
  "small_shape = \<lparr>hidden_dim = 16, num_attention_head = 4, num_kv_cache_head = 2, intermediate_dim = 32, vocab_size = 64,
     head_dim = None, itemsize = 2\<rparr>"

theorem decoding_attention_is_sum_of_steps_witness:
  "get_decoding_attention_ops_per_layer small_shape 5 2 1 3 =
     Inr ((\<Sum>t \<in> {1..2}. 4 * (5 + t) * 16 + 2 * 16 ^ 2) div 1 * 3)"
  using decoding_attention_is_sum_of_steps [of small_shape 16 8 2 1 5 3]
  by (simp add: small_shape_def h_q_def h_kv_def effective_head_dim_def floordivE_def)

lemma smaller_batch_fits:
  assumes "shape_ok m" "stage_ok s" "0 < kv" "0 < avg_input_len w" "0 < avg_output_len w" "0 \<le> max_model_len w"
    and "stage_batch_size m w kv s = Inr (Some b')" "b \<le> b'"
  shows "\<exists>a. stage_kv_memory m w s = Inr a \<and> of_int (b * (2 * (avg_input_len w + avg_output_len w) * kv * s_layers s * itemsize m)) \<le> a \<and>
     of_int (2 * max_model_len w * kv * itemsize m * s_layers s) < a"
proof -
  let ?c = "2 * (avg_input_len w + avg_output_len w) * kv * s_layers s * itemsize m"
  obtain a where a: "stage_kv_memory m w s = Inr a" "\<not> a \<le> of_int (2 * max_model_len w * kv * itemsize m * s_layers s)" "of_int (b' * ?c) \<le> a"
    using stage_batch_size_spec [OF assms(1-6) refl] assms(7) by auto
  have "0 \<le> ?c" using assms by (simp add: stage_ok_def shape_ok_def)
  then have "b * ?c \<le> b' * ?c" using assms(8) by (intro mult_right_mono) auto
  with a(3) have "of_int (b * ?c) \<le> a" by (meson of_int_le_iff order_trans)
  with a show ?thesis by (intro exI [of _ a]) linarith
qed

text \<open>
  C8. The batch size is the largest that fits. For a pipeline of known instance types with at least
  one layer each, \<open>get_global_batch_size\<close> returns a number of requests such that on every stage the
  weights, the memory for a forward pass and the KV cache of that many requests of average length
  stay within the usable GPU memory, and so does the cache of a request of maximal length; one
  request more would not fit on some stage, or the result is 0 because some stage cannot hold a
  request of maximal length. The blocks are the tokens of these requests, rounded down.
\<close>

theorem global_batch_is_largest:
  assumes "shape_ok m" "comb_ok comb" "workload_ok w"
  shows "\<exists>b blocks kv ss. get_global_batch_size m w total_num_layers comb [] = Inr (b, blocks) \<and>
     over_stages Inr [] total_num_layers comb = Inr ss \<and> h_kv m = Inr kv \<and> 0 \<le> b \<and>
     blocks * block_size w \<le> b * (avg_input_len w + avg_output_len w) \<and>
     b * (avg_input_len w + avg_output_len w) < (blocks + 1) * block_size w \<and>
     (0 < b \<longrightarrow> (\<forall>s \<in> set ss. \<exists>a. stage_kv_memory m w s = Inr a \<and>
        of_int (b * (2 * (avg_input_len w + avg_output_len w) * kv * s_layers s * itemsize m)) \<le> a \<and>
        of_int (2 * max_model_len w * kv * itemsize m * s_layers s) < a)) \<and>
     (\<exists>s \<in> set ss. \<exists>a. stage_kv_memory m w s = Inr a \<and>
        (a < of_int ((b + 1) * (2 * (avg_input_len w + avg_output_len w) * kv * s_layers s * itemsize m)) \<or>
         b = 0 \<and> a \<le> of_int (2 * max_model_len w * kv * itemsize m * s_layers s)))"
proof -
  obtain kv ss bs b where run: "h_kv m = Inr kv" "0 < kv" "over_stages Inr [] total_num_layers comb = Inr ss"
    "get_global_batch_size m w total_num_layers comb [] = Inr (b, b * (avg_input_len w + avg_output_len w) div block_size w)"
    "list_all stage_ok ss" "0 \<le> b" "\<forall>b' \<in> set bs. b \<le> b'"
    "0 < b \<longrightarrow> list_all2 (\<lambda>s b. stage_batch_size m w kv s = Inr (Some b)) ss bs"
    "b = 0 \<and> (\<exists>s \<in> set ss. stage_batch_size m w kv s = Inr None) \<or> (\<exists>s \<in> set ss. stage_batch_size m w kv s = Inr (Some b))"
    using global_batch_run [OF assms, of total_num_layers] by blast
  let ?c = "\<lambda>s. 2 * (avg_input_len w + avg_output_len w) * kv * s_layers s * itemsize m"
  let ?M = "\<lambda>s. of_int (2 * max_model_len w * kv * itemsize m * s_layers s) :: rat"
  have w: "0 < avg_input_len w" "0 < avg_output_len w" "0 \<le> max_model_len w" "0 < block_size w"
    using assms(3) by (auto simp: workload_ok_def)
  have ok: "stage_ok s" if "s \<in> set ss" for s using that run(5) by (simp add: list_all_iff)
  note spec = stage_batch_size_spec [OF assms(1) ok run(2) w(1-3) refl]
  have fits: "\<exists>a. stage_kv_memory m w s = Inr a \<and> of_int (b * ?c s) \<le> a \<and> ?M s < a" if pos: "0 < b" and mem: "s \<in> set ss" for s
  proof -
    obtain k where k: "k < length ss" "s = ss ! k" using mem by (auto simp: in_set_conv_nth)
    have "list_all2 (\<lambda>s b. stage_batch_size m w kv s = Inr (Some b)) ss bs" using run(8) pos by simp
    then have "bs ! k \<in> set bs" "stage_batch_size m w kv s = Inr (Some (bs ! k))"
      using k by (auto simp: list_all2_conv_all_nth)
    with run(7) smaller_batch_fits [OF assms(1) ok [OF mem] run(2) w(1-3)] show ?thesis by blast
  qed
  have tight: "\<exists>s \<in> set ss. \<exists>a. stage_kv_memory m w s = Inr a \<and> (a < of_int ((b + 1) * ?c s) \<or> b = 0 \<and> a \<le> ?M s)"
    using run(9)
  proof (elim disjE conjE bexE)
    fix s assume "b = 0" "s \<in> set ss" "stage_batch_size m w kv s = Inr None"
    with spec [of s] show ?thesis by (intro bexI [of _ s]) auto
  next
    fix s assume "s \<in> set ss" "stage_batch_size m w kv s = Inr (Some b)"
    with spec [of s] show ?thesis by (intro bexI [of _ s]) auto
  qed
  let ?t = "b * (avg_input_len w + avg_output_len w)"
  have "?t div block_size w * block_size w \<le> ?t" "?t < (?t div block_size w + 1) * block_size w"
    by (rule floordiv_bounds [OF w(4)])+
  with run(1,3,4,6) fits tight show ?thesis by blast
qed

definition small_workload :: workload where
  "small_workload = \<lparr>avg_input_len = 5, avg_output_len = 3, max_model_len = 16, gpu_mem_utilization = 9 / 10, block_size = 4\<rparr>"

lemma small_ok:
  "shape_ok small_shape" "workload_ok small_workload" "comb_ok [(''g4dn.xlarge'', 2), (''g4dn.2xlarge'', 1)]"
  by code_simp+

theorem global_batch_is_largest_witness:
  "\<exists>b blocks. get_global_batch_size small_shape small_workload 3 [(''g4dn.xlarge'', 2), (''g4dn.2xlarge'', 1)] [] =
     Inr (b, blocks) \<and> blocks * 4 \<le> b * 8"
  using global_batch_is_largest [OF small_ok(1,3,2), of 3] by (auto simp: small_workload_def)

lemma single_latency_total:
  assumes "shape_ok m" "comb_ok comb" "workload_ok w"
  shows "\<exists>l. get_single_request_latency m (avg_input_len w) (avg_output_len w) total_num_layers comb [] = Inr l \<and> 0 < l"
proof -
  have w: "0 < avg_input_len w" "0 < avg_output_len w" using assms(3) by (auto simp: workload_ok_def)
  have c: "\<forall>(t, l) \<in> set comb. known t \<and> 0 < l" "comb \<noteq> []" using assms(2) by (auto simp: comb_ok_def)
  have "\<exists>x. single_stage m (avg_input_len w) (avg_output_len w) s = Inr x \<and> 0 < x" if "stage_ok s" for s
    using single_stage_pos [OF assms(1) that w] by (simp add: posE_def)
  from loop_stages_ok [of "single_stage m (avg_input_len w) (avg_output_len w)" "\<lambda>x. 0 < x", OF this c(1)]
  obtain xs where xs: "over_stages (single_stage m (avg_input_len w) (avg_output_len w)) [] total_num_layers comb = Inr xs"
    "length xs = length comb" "list_all (\<lambda>x. 0 < x) xs" unfolding over_stages_def by blast
  have "0 < sum_list xs"
    using xs(2,3) c(2) by (cases xs) (auto intro!: add_pos_nonneg sum_list_nonneg simp: list_all_iff less_imp_le)
  then show ?thesis using xs(1) by (simp add: get_single_request_latency_def)
qed

lemma throughput_positive:
  assumes "shape_ok m" "comb_ok comb" "workload_ok w"
    and "get_global_batch_size m w total_num_layers comb [] = Inr (b, blocks)" "0 < b"
  shows "\<exists>r l x y. get_throughput m w total_num_layers comb [] None = Inr (r, Fin l, blocks, Some (x, y)) \<and>
       0 < r \<and> l = x + y \<and> 0 < x \<and> 0 < y \<and> r * l = of_int b * 1000"
proof -
  have w: "0 < avg_input_len w" "0 < avg_output_len w" using assms(3) by (auto simp: workload_ok_def)
  have c: "\<forall>(t, l) \<in> set comb. known t \<and> 0 < l" "comb \<noteq> []" using assms(2) by (auto simp: comb_ok_def)
  define mx where "mx = max_model_len w div avg_input_len w"
  have mx: "0 < mx" using assms(3) by (simp add: mx_def floordiv_pos workload_ok_def)
  let ?pp = "int (length comb)"
  have pp: "0 < ?pp" using c(2) by simp
  have "\<exists>l. stage_latencies m w ?pp mx b s = Inr l \<and> 0 < fst l \<and> 0 < snd l" if "stage_ok s" for s
    using stage_latencies_ok [OF assms(1) that w pp mx assms(5)] by auto
  from loop_stages_ok [of "stage_latencies m w ?pp mx b" "\<lambda>l. 0 < fst l \<and> 0 < snd l", OF this c(1)]
  obtain ls where ls: "over_stages (stage_latencies m w ?pp mx b) [] total_num_layers comb = Inr ls"
    "length ls = length comb" "list_all (\<lambda>l. 0 < fst l \<and> 0 < snd l) ls" unfolding over_stages_def by blast
  obtain x y where xy: "bubble_correction w ?pp mx b ls = Inr (x, y)" "0 < x" "0 < y"
    using bubble_correction_ok [of ls ?pp mx b w] ls(2,3) c(2) pp mx assms(5) w by (cases ls) (auto simp: list_all_iff)
  then have "get_throughput m w total_num_layers comb [] None =
      Inr (of_int b / ((x + y) / 1000), Fin (x + y), blocks, Some (x, y))"
    using assms(4,5) ls(1) w by (simp add: get_throughput_def floordivE_def divE_def Let_def flip: mx_def)
  moreover have "0 < of_int b / ((x + y) / 1000)" "of_int b / ((x + y) / 1000) * (x + y) = of_int b * 1000"
    using xy assms(5) by simp_all
  ultimately show ?thesis using xy by blast
qed

lemma throughput_total:
  assumes "shape_ok m" "comb_ok comb" "workload_ok w"
  shows "\<exists>b blocks. get_global_batch_size m w total_num_layers comb [] = Inr (b, blocks) \<and>
        (if b = 0 then get_throughput m w total_num_layers comb [] None = Inr (OUT_OF_MEMORY, PosInf, 0, None)
         else \<exists>r l x y. get_throughput m w total_num_layers comb [] None = Inr (r, Fin l, blocks, Some (x, y)) \<and>
           0 < r \<and> l = x + y \<and> 0 < x \<and> 0 < y \<and> r * l = of_int b * 1000)"
proof -
  obtain b blocks where b: "get_global_batch_size m w total_num_layers comb [] = Inr (b, blocks)" "0 \<le> b"
    using global_batch_run [OF assms, of total_num_layers] by blast
  have "get_throughput m w total_num_layers comb [] None = Inr (OUT_OF_MEMORY, PosInf, 0, None)" if "b = 0"
    using that b(1) by (simp add: get_throughput_def)
  with b throughput_positive [OF assms b(1)] show ?thesis by auto
qed

text \<open>
  C19. The estimator is total. For a pipeline of known instance types, with at least one layer on each
  stage, a positive shape whose hidden size is at least the largest number of GPUs of an
  instance, and a request that fits the model's length, neither estimate raises: the latency of a
  single request is positive; the throughput is either the value for \<open>OUT_OF_MEMORY\<close>, exactly when
  the batch size is 0, or the positive rate at which the batch is processed in its latency.
\<close>

theorem estimator_total:
  assumes "shape_ok m" "comb_ok comb" "workload_ok w"
  shows "(\<exists>l. get_single_request_latency m (avg_input_len w) (avg_output_len w) total_num_layers comb [] = Inr l \<and> 0 < l) \<and>
     (\<exists>b blocks. get_global_batch_size m w total_num_layers comb [] = Inr (b, blocks) \<and>
        (if b = 0 then get_throughput m w total_num_layers comb [] None = Inr (OUT_OF_MEMORY, PosInf, 0, None)
         else \<exists>r l x y. get_throughput m w total_num_layers comb [] None = Inr (r, Fin l, blocks, Some (x, y)) \<and>
           0 < r \<and> l = x + y \<and> 0 < x \<and> 0 < y \<and> r * l = of_int b * 1000))"
  using single_latency_total [OF assms] throughput_total [OF assms] by blast

theorem estimator_total_witness:
  "\<exists>l. get_single_request_latency small_shape 5 3 3 [(''g4dn.xlarge'', 2), (''g4dn.2xlarge'', 1)] [] = Inr l \<and> 0 < l"
  using estimator_total [OF small_ok(1,3,2), of 3] by (simp add: small_workload_def)

text \<open>
  The micro-batches of the throughput estimate are the batch. The prefill micro-batches together
  have exactly the requests of the batch, none is empty and none exceeds the number of prompts
  that the model's length admits; the decoding micro-batches have the same requests, at most one
  of them per stage, and their sizes differ by at most one.
\<close>

theorem micro_batches_cover:
  assumes "0 < pp_size" "0 < max_prefill_batch_size" "0 < global_batch_size"
  shows "\<exists>bs. prefill_batches pp_size max_prefill_batch_size global_batch_size = Inr bs \<and>
     requests_of bs = global_batch_size \<and> (\<forall>(i, s) \<in> set bs. 0 < i \<and> 0 < s \<and> s \<le> max_prefill_batch_size) \<and>
     requests_of (spread pp_size global_batch_size) = global_batch_size \<and>
     sum_list (map fst (spread pp_size global_batch_size)) = min pp_size global_batch_size \<and>
     (\<forall>(i, s) \<in> set (spread pp_size global_batch_size). \<forall>(i', s') \<in> set (spread pp_size global_batch_size). \<bar>s - s'\<bar> \<le> 1)"
proof -
  let ?b = global_batch_size and ?pp = pp_size
  have q: "(?b - ?b mod ?pp) div ?pp = ?b div ?pp" by (simp add: minus_mod_eq_mult_div)
  have mod: "0 \<le> ?b mod ?pp" "?b mod ?pp < ?pp" using assms(1) by simp_all
  have "sum_list (map fst (spread ?pp ?b)) = min ?pp ?b"
  proof (cases "?b < ?pp")
    case True
    then have "?b div ?pp = 0" "?b mod ?pp = ?b" using assms(3) by simp_all
    with True assms(3) show ?thesis by (simp add: spread_def)
  next
    case False
    then have "0 < ?b div ?pp" using assms(1) by (intro floordiv_pos) auto
    with False mod show ?thesis by (auto simp: spread_def q)
  qed
  moreover have "\<bar>s - s'\<bar> \<le> 1" if "(i, s) \<in> set (spread ?pp ?b)" "(i', s') \<in> set (spread ?pp ?b)" for i s i' s'
    using spread_sizes [OF assms(1,3) that(1)] spread_sizes [OF assms(1,3) that(2)] by auto
  ultimately show ?thesis
    using prefill_batches_ok [OF assms] spread_requests [of ?pp ?b] assms(1) by auto
qed

theorem micro_batches_cover_witness:
  "\<exists>bs. prefill_batches 3 2 11 = Inr bs \<and> requests_of bs = 11"
  using micro_batches_cover [of 3 2 11] by auto

end
