(* ===== verification/Heapq.thy ===== *)
theory Heapq
  imports Prelude
begin

text \<open>
  The binary heap of Python's module \<open>heapq\<close>, as far as the program uses it: \<open>heappush\<close>, \<open>heappop\<close> and
  \<open>heapreplace\<close> on a list, in which the children of position \<open>i\<close> are at \<open>2 * i + 1\<close> and \<open>2 * i + 2\<close>.
  Elements are compared by a key. The order of the elements in the list matters to a client that
  sorts it stably afterwards, so the list operations are those of the module. A locale states
  what a bounded collection of the best elements needs of the heap.
\<close>

section \<open>Operations\<close>

text \<open>\<open>_siftdown\<close> from position 0: the new item moves towards the root until its parent is not larger.\<close>

function siftdown :: "('a \<Rightarrow> 'k::linorder) \<Rightarrow> 'a list \<Rightarrow> 'a \<Rightarrow> nat \<Rightarrow> 'a list" where
  "siftdown key heap newitem pos =
     (if 0 < pos \<and> key newitem < key (heap ! ((pos - 1) div 2))
      then siftdown key (heap[pos := heap ! ((pos - 1) div 2)]) newitem ((pos - 1) div 2)
      else heap[pos := newitem])"
  by pat_completeness auto
termination by (relation "measure (\<lambda>(key, heap, newitem, pos). pos)") auto

declare siftdown.simps [simp del]

definition heappush :: "('a \<Rightarrow> 'k::linorder) \<Rightarrow> 'a list \<Rightarrow> 'a \<Rightarrow> 'a list" where
  "heappush key heap item = siftdown key (heap @ [item]) item (length heap)"

text \<open>The smaller child of a position: the right one only if the left one is not smaller.\<close>

definition smaller_child :: "('a \<Rightarrow> 'k::linorder) \<Rightarrow> 'a list \<Rightarrow> nat \<Rightarrow> nat" where
  "smaller_child key heap pos =
     (if 2 * pos + 2 < length heap \<and> \<not> key (heap ! (2 * pos + 1)) < key (heap ! (2 * pos + 2)) then 2 * pos + 2 else 2 * pos + 1)"

text \<open>The loop of \<open>_siftup\<close>: smaller children move up until a leaf is free; then \<open>_siftdown\<close>.\<close>

function siftup :: "('a \<Rightarrow> 'k::linorder) \<Rightarrow> 'a list \<Rightarrow> 'a \<Rightarrow> nat \<Rightarrow> 'a list" where
  "siftup key heap newitem pos =
     (if 2 * pos + 1 < length heap
      then siftup key (heap[pos := heap ! smaller_child key heap pos]) newitem (smaller_child key heap pos)
      else siftdown key (heap[pos := newitem]) newitem pos)"
  by pat_completeness auto
termination
  by (relation "measure (\<lambda>(key, heap, newitem, pos). length heap - pos)") (auto simp: smaller_child_def)

declare siftup.simps [simp del]

definition heapreplace :: "('a \<Rightarrow> 'k::linorder) \<Rightarrow> 'a list \<Rightarrow> 'a \<Rightarrow> 'a list" where
  "heapreplace key heap item = siftup key (heap[0 := item]) item 0"

text \<open>\<open>heappop\<close> of a list that is not empty: the last element takes the place of the root.\<close>

definition heappop :: "('a \<Rightarrow> 'k::linorder) \<Rightarrow> 'a list \<Rightarrow> 'a \<times> 'a list" where
  "heappop key heap =
     (let lastelt = List.last heap; rest = butlast heap in
      if rest = [] then (lastelt, []) else (rest ! 0, siftup key (rest[0 := lastelt]) lastelt 0))"

section \<open>The heap property\<close>

definition is_heap :: "('a \<Rightarrow> 'k::linorder) \<Rightarrow> 'a list \<Rightarrow> bool" where
  "is_heap key xs \<longleftrightarrow> (\<forall>i < length xs. 0 < i \<longrightarrow> key (xs ! ((i - 1) div 2)) \<le> key (xs ! i))"

text \<open>
  A heap up to the position of a new item: all edges but the one above it hold, and its parent is
  not larger than its children.
\<close>

definition almost_heap :: "('a \<Rightarrow> 'k::linorder) \<Rightarrow> 'a list \<Rightarrow> nat \<Rightarrow> bool" where
  "almost_heap key xs pos \<longleftrightarrow> pos < length xs \<and>
     (\<forall>i < length xs. 0 < i \<longrightarrow> i \<noteq> pos \<longrightarrow> key (xs ! ((i - 1) div 2)) \<le> key (xs ! i)) \<and>
     (\<forall>i < length xs. 0 < i \<longrightarrow> 0 < pos \<longrightarrow> (i - 1) div 2 = pos \<longrightarrow> key (xs ! ((pos - 1) div 2)) \<le> key (xs ! i))"

lemma siftdown_heap:
  "almost_heap key (xs[pos := x]) pos \<Longrightarrow> is_heap key (siftdown key xs x pos)"
proof (induction key xs x pos rule: siftdown.induct)
  case (1 key xs x pos)
  let ?p = "(pos - 1) div 2"
  have pos: "pos < length xs" using "1.prems" by (simp add: almost_heap_def)
  show ?case
  proof (cases "0 < pos \<and> key x < key (xs ! ?p)")
    case True
    let ?ys = "xs[pos := xs ! ?p]"
    have p: "?p < pos" "?p < length xs" using True pos by linarith+
    have edge: "key (xs[pos := x] ! ((i - 1) div 2)) \<le> key (xs[pos := x] ! i)" if "i < length xs" "0 < i" "i \<noteq> pos" for i
      using "1.prems" that by (simp add: almost_heap_def)
    have below: "key (xs ! ?p) \<le> key (xs ! i)" if "i < length xs" "0 < i" "(i - 1) div 2 = pos" for i
    proof -
      have "i \<noteq> pos" using that(2,3) by auto
      then show ?thesis using "1.prems" that True p by (auto simp: almost_heap_def)
    qed
    have "almost_heap key (?ys[?p := x]) ?p"
      unfolding almost_heap_def
    proof (intro conjI allI impI)
      show "?p < length (?ys[?p := x])" using p by simp
    next
      fix i assume i: "i < length (?ys[?p := x])" "0 < i" "i \<noteq> ?p"
      show "key (?ys[?p := x] ! ((i - 1) div 2)) \<le> key (?ys[?p := x] ! i)"
        using edge [of i] below [of i] i True p pos by (auto simp: nth_update_if split: if_splits)
    next
      fix i assume i: "i < length (?ys[?p := x])" "0 < i" "0 < ?p" "(i - 1) div 2 = ?p"
      have q: "(?p - 1) div 2 \<noteq> pos" "(?p - 1) div 2 \<noteq> ?p" "?p \<noteq> pos" using i(3) p by linarith+
      have up: "key (xs ! ((?p - 1) div 2)) \<le> key (xs ! ?p)"
        using edge [of ?p] i(3) p q by simp
      have ip: "i \<noteq> ?p" using i(2,4) by auto
      have "key (xs ! ?p) \<le> key (xs ! i)" if "i \<noteq> pos"
        using edge [of i] i that q(3) ip by (simp add: nth_update_if)
      moreover have "?ys[?p := x] ! ((?p - 1) div 2) = xs ! ((?p - 1) div 2)" using q by simp
      moreover have "?ys[?p := x] ! i = (if i = pos then xs ! ?p else xs ! i)" using ip pos by simp
      moreover have "key (xs ! ((?p - 1) div 2)) \<le> key (if i = pos then xs ! ?p else xs ! i)"
      proof (cases "i = pos")
        case False
        with calculation(1) show ?thesis unfolding if_not_P [OF False] by (intro order_trans [OF up])
      qed (simp only: if_True up refl)
      ultimately show "key (?ys[?p := x] ! ((?p - 1) div 2)) \<le> key (?ys[?p := x] ! i)" by (simp only:)
    qed
    with "1.IH" True show ?thesis by (subst siftdown.simps) simp
  next
    case False
    have "is_heap key (xs[pos := x])"
      unfolding is_heap_def
    proof (intro allI impI)
      fix i assume i: "i < length (xs[pos := x])" "0 < i"
      show "key (xs[pos := x] ! ((i - 1) div 2)) \<le> key (xs[pos := x] ! i)"
      proof (cases "i = pos")
        case True
        then have "(i - 1) div 2 \<noteq> pos" "key (xs ! ?p) \<le> key x" using i(2) False by auto
        with True pos show ?thesis by simp
      qed (use "1.prems" i in \<open>simp add: almost_heap_def\<close>)
    qed
    with False show ?thesis by (subst siftdown.simps) auto
  qed
qed

lemma mset_siftdown: "pos < length xs \<Longrightarrow> mset (siftdown key xs x pos) = mset (xs[pos := x])"
proof (induction key xs x pos rule: siftdown.induct)
  case (1 key xs x pos)
  let ?p = "(pos - 1) div 2"
  show ?case
  proof (cases "0 < pos \<and> key x < key (xs ! ?p)")
    case True
    then have p: "?p < pos" "?p < length xs" using 1(2) by linarith+
    have "mset ((xs[pos := x])[pos := xs[pos := x] ! ?p, ?p := xs[pos := x] ! pos]) = mset (xs[pos := x])"
      using p 1(2) by (intro mset_swap) auto
    then have "mset ((xs[pos := xs ! ?p])[?p := x]) = mset (xs[pos := x])" using p 1(2) by simp
    with "1.IH" True p show ?thesis by (subst siftdown.simps) simp
  qed (subst siftdown.simps, auto)
qed

text \<open>The list while \<open>_siftup\<close> runs: a heap but for the free position.\<close>

definition heap_with_hole :: "('a \<Rightarrow> 'k::linorder) \<Rightarrow> 'a list \<Rightarrow> nat \<Rightarrow> bool" where
  "heap_with_hole key xs pos \<longleftrightarrow> pos < length xs \<and>
     (\<forall>i < length xs. 0 < i \<longrightarrow> i \<noteq> pos \<longrightarrow> (i - 1) div 2 \<noteq> pos \<longrightarrow> key (xs ! ((i - 1) div 2)) \<le> key (xs ! i)) \<and>
     (\<forall>i < length xs. 0 < i \<longrightarrow> 0 < pos \<longrightarrow> (i - 1) div 2 = pos \<longrightarrow> key (xs ! ((pos - 1) div 2)) \<le> key (xs ! i))"

lemma smaller_child:
  assumes "2 * pos + 1 < length xs" and "c = smaller_child key xs pos"
  shows "pos < c" "c < length xs" "(c - 1) div 2 = pos"
    and "i < length xs \<Longrightarrow> 0 < i \<Longrightarrow> (i - 1) div 2 = pos \<Longrightarrow> key (xs ! c) \<le> key (xs ! i)"
proof -
  show c: "pos < c" "c < length xs" "(c - 1) div 2 = pos" using assms by (auto simp: smaller_child_def)
  assume i: "i < length xs" "0 < i" "(i - 1) div 2 = pos"
  then have "i = 2 * pos + 1 \<or> i = 2 * pos + 2" by linarith
  with i(1) assms show "key (xs ! c) \<le> key (xs ! i)" by (auto simp: smaller_child_def)
qed

lemma hole_step:
  assumes hole: "heap_with_hole key xs pos" and ch: "2 * pos + 1 < length xs" and c: "c = smaller_child key xs pos"
  shows "heap_with_hole key (xs[pos := xs ! c]) c"
proof -
  note sc = smaller_child [OF ch c]
  have pos: "pos < length xs"
    and edge: "\<And>i. i < length xs \<Longrightarrow> 0 < i \<Longrightarrow> i \<noteq> pos \<Longrightarrow> (i - 1) div 2 \<noteq> pos \<Longrightarrow> key (xs ! ((i - 1) div 2)) \<le> key (xs ! i)"
    and over: "\<And>i. i < length xs \<Longrightarrow> 0 < i \<Longrightarrow> 0 < pos \<Longrightarrow> (i - 1) div 2 = pos \<Longrightarrow> key (xs ! ((pos - 1) div 2)) \<le> key (xs ! i)"
    using hole by (simp_all add: heap_with_hole_def)
  show ?thesis
    unfolding heap_with_hole_def
  proof (intro conjI allI impI)
    show "c < length (xs[pos := xs ! c])" using sc by simp
  next
    fix i assume i: "i < length (xs[pos := xs ! c])" "0 < i" "i \<noteq> c" "(i - 1) div 2 \<noteq> c"
    show "key (xs[pos := xs ! c] ! ((i - 1) div 2)) \<le> key (xs[pos := xs ! c] ! i)"
    proof (cases "i = pos")
      case True
      then have "(i - 1) div 2 \<noteq> pos" using i(2) by linarith
      with True over [of c] sc i pos show ?thesis by simp
    next
      case False
      then show ?thesis
        using edge [of i] sc(4) [of i] i pos by (cases "(i - 1) div 2 = pos") simp_all
    qed
  next
    fix i assume i: "i < length (xs[pos := xs ! c])" "0 < i" "0 < c" "(i - 1) div 2 = c"
    have "i \<noteq> pos" "c \<noteq> pos" using i(2,4) sc(1) by linarith+
    moreover have "(c - 1) div 2 = pos" by (rule sc(3))
    moreover have "key (xs ! c) \<le> key (xs ! i)" using edge [of i] i sc(1) \<open>i \<noteq> pos\<close> by simp
    ultimately show "key (xs[pos := xs ! c] ! ((c - 1) div 2)) \<le> key (xs[pos := xs ! c] ! i)"
      using pos by simp
  qed
qed

lemma siftup_heap: "heap_with_hole key xs pos \<Longrightarrow> is_heap key (siftup key xs x pos)"
proof (induction key xs x pos rule: siftup.induct)
  case (1 key xs x pos)
  show ?case
  proof (cases "2 * pos + 1 < length xs")
    case True
    with "1.IH" hole_step [OF "1.prems" True refl] show ?thesis by (subst siftup.simps) simp
  next
    case False
    then have "(i - 1) div 2 \<noteq> pos" if "i < length xs" "0 < i" for i using that by linarith
    with "1.prems" have "almost_heap key (xs[pos := x]) pos"
      by (auto simp: heap_with_hole_def almost_heap_def nth_update_if)
    then have "is_heap key (siftdown key (xs[pos := x]) x pos)" by (intro siftdown_heap) simp
    with False show ?thesis by (subst siftup.simps) simp
  qed
qed

lemma mset_siftup: "pos < length xs \<Longrightarrow> mset (siftup key xs x pos) = mset (xs[pos := x])"
proof (induction key xs x pos rule: siftup.induct)
  case (1 key xs x pos)
  show ?case
  proof (cases "2 * pos + 1 < length xs")
    case True
    let ?c = "smaller_child key xs pos"
    note sc = smaller_child [OF True, where key = key, OF refl]
    have "mset ((xs[pos := x])[pos := xs[pos := x] ! ?c, ?c := xs[pos := x] ! pos]) = mset (xs[pos := x])"
      using sc 1(2) by (intro mset_swap) auto
    then have "mset ((xs[pos := xs ! ?c])[?c := x]) = mset (xs[pos := x])" using sc(1,2) 1(2) by simp
    with "1.IH" True sc(2) show ?thesis by (subst siftup.simps) simp
  qed (subst siftup.simps, simp add: mset_siftdown 1(2))
qed

lemma heappush_heap: "is_heap key xs \<Longrightarrow> is_heap key (heappush key xs x)"
  unfolding heappush_def
  by (rule siftdown_heap) (auto simp: is_heap_def almost_heap_def nth_append)

lemma mset_heappush [simp]: "mset (heappush key xs x) = add_mset x (mset xs)"
  by (simp add: heappush_def mset_siftdown)

lemma heapreplace_heap: "is_heap key xs \<Longrightarrow> xs \<noteq> [] \<Longrightarrow> is_heap key (heapreplace key xs x)"
  unfolding heapreplace_def
  by (rule siftup_heap) (auto simp: is_heap_def heap_with_hole_def)

lemma mset_heapreplace [simp]: "xs \<noteq> [] \<Longrightarrow> mset (heapreplace key xs x) = add_mset x (mset xs - {#xs ! 0#})"
  by (simp add: heapreplace_def mset_siftup mset_update)

lemma heap_root: "is_heap key xs \<Longrightarrow> i < length xs \<Longrightarrow> key (xs ! 0) \<le> key (xs ! i)"
proof (induction i rule: less_induct)
  case (less i)
  show ?case
  proof (cases "i = 0")
    case False
    then have "(i - 1) div 2 < i" by linarith
    with less(1) [of "(i - 1) div 2"] less.prems have "key (xs ! 0) \<le> key (xs ! ((i - 1) div 2))" by simp
    also have "\<dots> \<le> key (xs ! i)" using less.prems False by (simp add: is_heap_def)
    finally show ?thesis .
  qed simp
qed

lemma is_heap_butlast: "is_heap key xs \<Longrightarrow> is_heap key (butlast xs)"
  by (auto simp: is_heap_def nth_butlast)

lemma heappop_heap:
  assumes "is_heap key xs" "heappop key xs = (x, ys)"
  shows "is_heap key ys"
proof (cases "butlast xs = []")
  case True
  then show ?thesis using assms(2) by (auto simp: heappop_def is_heap_def)
next
  case False
  then have ys: "ys = siftup key ((butlast xs)[0 := List.last xs]) (List.last xs) 0" using assms(2) by (simp add: heappop_def Let_def)
  show ?thesis
    unfolding ys using is_heap_butlast [OF assms(1)] False
    by (intro siftup_heap) (auto simp: is_heap_def heap_with_hole_def simp flip: length_greater_0_conv)
qed

lemma heappop_root:
  assumes "xs \<noteq> []" "heappop key xs = (x, ys)"
  shows "x = xs ! 0" "mset xs = add_mset x (mset ys)"
proof -
  have xs: "xs = butlast xs @ [List.last xs]" using assms(1) by simp
  show x: "x = xs ! 0" using assms by (cases xs rule: rev_cases) (auto simp: heappop_def Let_def nth_append split: if_splits)
  show "mset xs = add_mset x (mset ys)"
  proof (cases "butlast xs = []")
    case True
    then show ?thesis using assms by (cases xs rule: rev_cases) (auto simp: heappop_def)
  next
    case False
    then have ys: "x = butlast xs ! 0" "ys = siftup key ((butlast xs)[0 := List.last xs]) (List.last xs) 0"
      using assms(2) by (simp_all add: heappop_def Let_def)
    have "0 < length (butlast xs)" using False by blast
    then have "mset ys = add_mset (List.last xs) (mset (butlast xs) - {#butlast xs ! 0#})"
      unfolding ys(2) by (subst mset_siftup) (simp_all add: mset_update)
    moreover have "butlast xs ! 0 \<in># mset (butlast xs)" using nth_mem [OF \<open>0 < length (butlast xs)\<close>] by simp
    moreover have "mset xs = add_mset (List.last xs) (mset (butlast xs))" by (subst xs) simp
    ultimately show ?thesis by (simp add: ys(1))
  qed
qed

lemma heappop_least:
  assumes "is_heap key xs" "xs \<noteq> []" "heappop key xs = (x, ys)" "y \<in> set xs"
  shows "key x \<le> key y"
  using heap_root [OF assms(1)] heappop_root(1) [OF assms(2,3)] assms(4) by (auto simp: in_set_conv_nth)

section \<open>The best elements\<close>

text \<open>
  The contract of a min-heap that is bounded by replacing its smallest element. \<open>elements\<close> is the
  content, \<open>ok\<close> the invariant, \<open>top\<close> the element with the smallest key.
\<close>

locale bounded_heap =
  fixes key :: "'a \<Rightarrow> 'k::linorder"
    and elements :: "'h \<Rightarrow> 'a multiset"
    and ok :: "'h \<Rightarrow> bool"
    and top :: "'h \<Rightarrow> 'a"
    and push :: "'h \<Rightarrow> 'a \<Rightarrow> 'h"
    and replace :: "'h \<Rightarrow> 'a \<Rightarrow> 'h"
  assumes push: "ok h \<Longrightarrow> ok (push h x)" "ok h \<Longrightarrow> elements (push h x) = add_mset x (elements h)"
    and replace: "ok h \<Longrightarrow> elements h \<noteq> {#} \<Longrightarrow> ok (replace h x)"
      "ok h \<Longrightarrow> elements h \<noteq> {#} \<Longrightarrow> elements (replace h x) = add_mset x (elements h - {#top h#})"
    and top: "ok h \<Longrightarrow> elements h \<noteq> {#} \<Longrightarrow> top h \<in># elements h"
      "ok h \<Longrightarrow> y \<in># elements h \<Longrightarrow> key (top h) \<le> key y"
begin

text \<open>Keeping at most \<open>n\<close> elements; \<open>score\<close> decides about a replacement, and the key refines it.\<close>

definition keep :: "nat \<Rightarrow> ('a \<Rightarrow> 's::linorder) \<Rightarrow> 'h \<Rightarrow> 'a \<Rightarrow> 'h" where
  "keep n score h x =
     (if size (elements h) < n then push h x else if score (top h) < score x then replace h x else h)"

lemma keep_best:
  assumes "\<And>x y. key x \<le> key y \<Longrightarrow> score x \<le> score y" and "ok h" and "elements h = {#}" and "0 < n"
  shows "ok (foldl (keep n score) h xs)" and "elements (foldl (keep n score) h xs) \<subseteq># mset xs"
    and "size (elements (foldl (keep n score) h xs)) = min n (length xs)"
    and "\<forall>x \<in># mset xs - elements (foldl (keep n score) h xs). \<forall>y \<in># elements (foldl (keep n score) h xs). score x \<le> score y"
proof -
  have "ok (foldl (keep n score) h xs) \<and> elements (foldl (keep n score) h xs) \<subseteq># mset xs \<and>
     size (elements (foldl (keep n score) h xs)) = min n (length xs) \<and>
     (\<forall>x \<in># mset xs - elements (foldl (keep n score) h xs). \<forall>y \<in># elements (foldl (keep n score) h xs). score x \<le> score y)"
  proof (induction xs rule: rev_induct)
    case Nil
    with assms show ?case by simp
  next
    case (snoc z xs)
    let ?h = "foldl (keep n score) h xs"
    have ok: "ok ?h" and sub: "elements ?h \<subseteq># mset xs" and sz: "size (elements ?h) = min n (length xs)"
      and best: "\<forall>x \<in># mset xs - elements ?h. \<forall>y \<in># elements ?h. score x \<le> score y"
      using snoc by auto
    consider "length xs < n" | "n \<le> length xs" "score (top ?h) < score z" | "n \<le> length xs" "\<not> score (top ?h) < score z"
      by linarith
    then show ?case
    proof cases
      case 1
      then have "size (elements ?h) = size (mset xs)" using sz by simp
      with sub have eq: "elements ?h = mset xs" by (metis mset_subset_size nless_le subset_mset.le_less)
      have st: "foldl (keep n score) h (xs @ [z]) = push ?h z" using 1 sz by (simp add: keep_def)
      show ?thesis unfolding st using push [OF ok, of z] 1 eq by simp
    next
      case 2
      have ne: "elements ?h \<noteq> {#}" using sz 2 assms(4) by auto
      have st: "foldl (keep n score) h (xs @ [z]) = replace ?h z" using 2 sz by (simp add: keep_def)
      define E where "E = elements ?h"
      define t where "t = top ?h"
      have t: "t \<in># E" "y \<in># E \<Longrightarrow> score t \<le> score y" for y
        using top(1) [OF ok ne] top(2) [OF ok] assms(1) by (auto simp: E_def t_def)
      have el: "elements (replace ?h z) = add_mset z (E - {#t#})" using replace(2) [OF ok ne] by (simp add: E_def t_def)
      have diff: "mset (xs @ [z]) - add_mset z (E - {#t#}) = add_mset t (mset xs - E)"
      proof (rule multiset_eqI)
        fix a
        have "count E a \<le> count (mset xs) a" using sub by (simp add: E_def mset_subset_eq_count)
        moreover have "a = t \<Longrightarrow> 0 < count E a" using t(1) by simp
        ultimately show "count (mset (xs @ [z]) - add_mset z (E - {#t#})) a = count (add_mset t (mset xs - E)) a"
          by (cases "a = t"; cases "a = z") simp_all
      qed
      have "add_mset z (E - {#t#}) \<subseteq># mset (xs @ [z])"
        using sub by (simp add: E_def) (meson diff_subset_eq_self subset_mset.order_trans)
      moreover have "size (add_mset z (E - {#t#})) = min n (length (xs @ [z]))"
        using t(1) sz 2(1) assms(4) by (simp add: size_Diff_singleton flip: E_def)
      moreover have "score x \<le> score y" if "x \<in># add_mset t (mset xs - E)" "y \<in># add_mset z (E - {#t#})" for x y
      proof -
        have yt: "score t \<le> score y" using that(2) t(2) 2(2) by (auto simp: t_def dest: in_diffD)
        show ?thesis
        proof (cases "x = t")
          case False
          then have x: "x \<in># mset xs - E" using that(1) by simp
          then have "score x \<le> score t" using best t(1) by (simp add: E_def)
          with yt show ?thesis by simp
        qed (use yt in simp)
      qed
      ultimately show ?thesis unfolding st el diff using replace(1) [OF ok ne] by blast
    next
      case 3
      have ne: "elements ?h \<noteq> {#}" using sz 3 assms(4) by auto
      have st: "foldl (keep n score) h (xs @ [z]) = ?h" using 3 sz by (simp add: keep_def)
      have low: "score z \<le> score y" if "y \<in># elements ?h" for y
        using 3(2) assms(1) [OF top(2) [OF ok that]] by simp
      have diff: "mset (xs @ [z]) - elements ?h = add_mset z (mset xs - elements ?h)"
        by (rule multiset_eqI) (use mset_subset_eq_count [OF sub] in \<open>simp add: Suc_diff_le\<close>)
      have "elements ?h \<subseteq># mset (xs @ [z])" by (rule subset_mset.order_trans [OF sub]) simp
      then show ?thesis unfolding st diff using ok sz 3 best low by auto
    qed
  qed
  then show "ok (foldl (keep n score) h xs)" "elements (foldl (keep n score) h xs) \<subseteq># mset xs"
    "size (elements (foldl (keep n score) h xs)) = min n (length xs)"
    "\<forall>x \<in># mset xs - elements (foldl (keep n score) h xs). \<forall>y \<in># elements (foldl (keep n score) h xs). score x \<le> score y"
    by blast+
qed

end

interpretation heapq: bounded_heap key mset "is_heap key" "\<lambda>h. h ! 0" "heappush key" "heapreplace key" for key :: "'a \<Rightarrow> 'k::linorder"
  by unfold_locales
    (auto simp: heappush_heap heapreplace_heap in_set_conv_nth intro: heap_root)

end
