(* ===== verification/Optimizer.thy ===== *)
theory Optimizer
  imports Estimator Heapq "HOL-Library.Char_ord" "HOL-Library.List_Lexorder" "HOL-Library.Product_Lexorder"
begin

text \<open>
  The placement search of \<^verbatim>\<open>ModelPlacement/shuntserve_optimizer.py\<close>: a dynamic program over the number
  of layers and stages that extends the best partial pipelines by one stage, with caches for the
  estimates, and a heap of the five best complete pipelines. The estimates are those of the
  estimator. The table of partial pipelines is a function of the two indices; all indices that
  occur are within the bounds of the source's lists. Time measurements and messages are left out.
\<close>

section \<open>Pipelines\<close>

record opt_pipeline =
  op_stages :: "string list"
  op_azs :: "string list"
  op_layers :: "int list"
  op_throughput :: py_float
  op_cost :: py_float
  op_global_batch_size :: int
  op_latency_per_global_batch :: xrat
  op_num_blocks :: int
  op_single_request_latency :: xrat

definition OptPipeline_init :: opt_pipeline where
  "OptPipeline_init = \<lparr>op_stages = [], op_azs = [], op_layers = [], op_throughput = 0, op_cost = 0, op_global_batch_size = 0,
     op_latency_per_global_batch = Fin 0, op_num_blocks = 0, op_single_request_latency = PosInf\<rparr>"

text \<open>The block size of the class, which is also the default of the estimator.\<close>

definition BLOCK_SIZE :: int where
  "BLOCK_SIZE = 16"

text \<open>The configuration: the shape of the model, its number of layers, and the expected requests.\<close>

record opt_config =
  c_shape :: shape
  c_num_layers :: nat
  c_expected_input_len :: int
  c_expected_output_len :: int
  c_max_model_len :: int
  c_gpu_mem_utilization :: py_float

definition config_workload :: "opt_config \<Rightarrow> workload" where
  "config_workload c = \<lparr>avg_input_len = c_expected_input_len c, avg_output_len = c_expected_output_len c,
     max_model_len = c_max_model_len c, gpu_mem_utilization = c_gpu_mem_utilization c, block_size = BLOCK_SIZE\<rparr>"

definition node_layer_comb :: "opt_pipeline \<Rightarrow> node_layer list" where
  "node_layer_comb p = zip (op_stages p) (op_layers p)"

definition calculate_throughput :: "opt_config \<Rightarrow> opt_pipeline \<Rightarrow> opt_pipeline py" where
  "calculate_throughput c p =
     bindE (get_throughput (c_shape c) (config_workload c) (int (c_num_layers c)) (node_layer_comb p) [] None)
       (\<lambda>(throughput, latency, num_blocks, _).
     bindE (floordivE (num_blocks * BLOCK_SIZE) (c_expected_input_len c + c_expected_output_len c)) (\<lambda>b.
     Inr (p\<lparr>op_throughput := throughput, op_latency_per_global_batch := latency, op_num_blocks := num_blocks,
       op_global_batch_size := b\<rparr>)))"

definition get_minimum_latency :: "opt_config \<Rightarrow> opt_pipeline \<Rightarrow> py_float py" where
  "get_minimum_latency c p =
     get_single_request_latency (c_shape c) (c_expected_input_len c) (c_expected_output_len c) (int (c_num_layers c))
       (node_layer_comb p) []"

section \<open>The optimizer\<close>

type_synonym cache_key = "(string \<times> int) list"

type_synonym signature = "string list"

record optimizer =
  o_config :: opt_config
  o_budget :: py_float
  o_latency_slo :: py_float
  o_cluster_pool :: cluster_pool
  o_instance_types :: "string list"
  o_max_stages :: nat
  o_top_k :: nat
  o_mode :: string

record search =
  latency_cache :: "(cache_key, py_float) dict"
  throughput_cache :: "(cache_key, py_float \<times> xrat \<times> int \<times> int) dict"
  dp :: "nat \<Rightarrow> nat \<Rightarrow> (signature, opt_pipeline) dict"
  top_pipelines :: "(xrat \<times> nat \<times> opt_pipeline) list"
  entry_counter :: nat

definition affordable :: "py_float \<Rightarrow> cluster_pool \<Rightarrow> string list" where
  "affordable budget pool = map fst (filter (\<lambda>(instance_type, available). get_instance_price pool instance_type \<le> budget \<and> 0 < available)
     (available_resources pool))"

definition BeamSearchDPOptimizer :: "opt_config \<Rightarrow> py_float \<Rightarrow> py_float \<Rightarrow> cluster_pool \<Rightarrow> nat option \<Rightarrow> nat \<Rightarrow> string \<Rightarrow> optimizer" where
  "BeamSearchDPOptimizer config budget latency_slo pool max_stages top_k optimization_mode =
     \<lparr>o_config = config, o_budget = budget, o_latency_slo = latency_slo, o_cluster_pool = pool,
      o_instance_types = affordable budget pool, o_max_stages = or_default max_stages (c_num_layers config), o_top_k = top_k,
      o_mode = optimization_mode\<rparr>"

definition search_init :: search where
  "search_init = \<lparr>latency_cache = [], throughput_cache = [], dp = (\<lambda>_ _. []), top_pipelines = [], entry_counter = 0\<rparr>"

definition get_cache_key :: "opt_pipeline \<Rightarrow> cache_key" where
  "get_cache_key p = sort (zip (op_stages p) (op_layers p))"

text \<open>\<open>_create_pipeline\<close>: a pipeline from its stages, with its cost and estimates; empty for no stages.\<close>

definition create_pipeline_of :: "optimizer \<Rightarrow> (string \<times> int) list \<Rightarrow> opt_pipeline py" where
  "create_pipeline_of opt stages =
     (if stages = [] then Inr OptPipeline_init
      else let p = OptPipeline_init\<lparr>op_stages := map fst stages, op_azs := map (\<lambda>_. ''dummy-az'') stages, op_layers := map snd stages,
               op_cost := sum_list (map (\<lambda>s. get_instance_price (o_cluster_pool opt) (fst s)) stages)\<rparr> in
      bindE (calculate_throughput (o_config opt) p) (\<lambda>p.
      bindE (get_minimum_latency (o_config opt) p) (\<lambda>l. Inr (p\<lparr>op_single_request_latency := Fin l\<rparr>))))"

text \<open>\<open>_add_new_stage\<close>: no pipeline if it would cost too much; the latency comes from the cache.\<close>

definition add_new_stage :: "optimizer \<Rightarrow> opt_pipeline \<Rightarrow> string \<Rightarrow> int \<Rightarrow> search \<Rightarrow> (opt_pipeline option \<times> search) py" where
  "add_new_stage opt p instance_type layers st =
     (if layers \<le> 0 then Inr (None, st)
      else let new_cost = op_cost p + get_instance_price (o_cluster_pool opt) instance_type in
      if o_budget opt < new_cost then Inr (None, st)
      else let q = p\<lparr>op_stages := op_stages p @ [instance_type], op_azs := op_azs p @ [''dummy-az''], op_layers := op_layers p @ [layers],
               op_cost := new_cost\<rparr>;
             cache_key = get_cache_key q in
      bindE (case dict_get (latency_cache st) cache_key of
          Some l \<Rightarrow> Inr (l, st)
        | None \<Rightarrow> bindE (get_minimum_latency (o_config opt) q) (\<lambda>l. Inr (l, st\<lparr>latency_cache := dict_set cache_key l (latency_cache st)\<rparr>)))
      (\<lambda>(l, st). Inr (Some (q\<lparr>op_single_request_latency := Fin l\<rparr>), st)))"

definition recalculate_pipeline_throughput :: "optimizer \<Rightarrow> opt_pipeline \<Rightarrow> search \<Rightarrow> (opt_pipeline \<times> search) py" where
  "recalculate_pipeline_throughput opt p st =
     (let cache_key = get_cache_key p in
      case dict_get (throughput_cache st) cache_key of
        None \<Rightarrow> bindE (calculate_throughput (o_config opt) p) (\<lambda>p.
          Inr (p, st\<lparr>throughput_cache := dict_set cache_key (op_throughput p, op_latency_per_global_batch p, op_num_blocks p,
            op_global_batch_size p) (throughput_cache st)\<rparr>))
      | Some (t, l, n, b) \<Rightarrow> Inr (p\<lparr>op_throughput := t, op_latency_per_global_batch := l, op_num_blocks := n,
          op_global_batch_size := b\<rparr>, st))"

definition check_feasibility_pipeline :: "optimizer \<Rightarrow> opt_pipeline \<Rightarrow> bool" where
  "check_feasibility_pipeline opt p \<longleftrightarrow> \<not> o_budget opt < op_cost p \<and>
     \<not> (o_mode opt = ''hard_slo'' \<and> Fin (o_latency_slo opt) < op_single_request_latency p)"

text \<open>
  \<open>_evaluate_pipeline\<close>. The latency is infinite only for the pipeline without stages, which costs
  nothing and has score 0. A service level objective of zero is excluded where it matters.
\<close>

definition soft_score :: "py_float \<Rightarrow> py_float \<Rightarrow> xrat \<Rightarrow> xrat" where
  "soft_score slo efficiency latency =
     (case latency of
        Fin l \<Rightarrow> Fin (efficiency * (1 - 1 * max 0 ((l - slo) / slo)))
      | PosInf \<Rightarrow> (if 0 < slo then NegInf else Fin efficiency)
      | NegInf \<Rightarrow> (if slo < 0 then NegInf else Fin efficiency))"

definition evaluate_pipeline :: "optimizer \<Rightarrow> opt_pipeline \<Rightarrow> xrat" where
  "evaluate_pipeline opt p =
     (if op_cost p = 0 then Fin 0
      else if op_throughput p \<le> 0 then Fin 0
      else let efficiency = op_throughput p / op_cost p in
        if o_mode opt = ''hard_slo'' then Fin efficiency
        else if o_mode opt = ''soft_slo'' then soft_score (o_latency_slo opt) efficiency (op_single_request_latency p)
        else if o_mode opt = ''only_throughput'' then Fin (op_throughput p)
        else Fin efficiency)"

text \<open>Python's stable sort in descending order.\<close>

definition sorted_desc :: "('a \<Rightarrow> 'k::linorder) \<Rightarrow> 'a list \<Rightarrow> 'a list" where
  "sorted_desc key xs = rev (sort_key key (rev xs))"

section \<open>The search\<close>

definition heap_key :: "xrat \<times> nat \<times> opt_pipeline \<Rightarrow> xrat \<times> nat" where
  "heap_key e = (fst e, fst (snd e))"

definition track_top :: "(xrat \<times> nat \<times> opt_pipeline) list \<Rightarrow> xrat \<times> nat \<times> opt_pipeline \<Rightarrow> (xrat \<times> nat \<times> opt_pipeline) list" where
  "track_top heap e =
     (if length heap < 5 then heappush heap_key heap e
      else if fst (heap ! 0) < fst e then heapreplace heap_key heap e
      else heap)"

definition update_top :: "optimizer \<Rightarrow> nat \<Rightarrow> xrat \<Rightarrow> opt_pipeline \<Rightarrow> search \<Rightarrow> search" where
  "update_top opt pivot_layer score p st =
     (if pivot_layer = c_num_layers (o_config opt)
      then st\<lparr>entry_counter := entry_counter st + 1,
        top_pipelines := track_top (top_pipelines st) (score, entry_counter st + 1, p)\<rparr>
      else st)"

text \<open>The first entry of a cell with the smallest score, as the loop over its items finds it.\<close>

definition min_entry :: "optimizer \<Rightarrow> (signature, opt_pipeline) dict \<Rightarrow> xrat \<times> signature option" where
  "min_entry opt cell = foldl (\<lambda>(min_score, min_sig) (sig, pl).
     if evaluate_pipeline opt pl < min_score then (evaluate_pipeline opt pl, Some sig) else (min_score, min_sig)) (PosInf, None) cell"

definition update_cell :: "optimizer \<Rightarrow> signature \<Rightarrow> xrat \<Rightarrow> opt_pipeline \<Rightarrow> (signature, opt_pipeline) dict \<Rightarrow>
    (signature, opt_pipeline) dict py" where
  "update_cell opt sig score p cell =
     (case dict_get cell sig of
        Some existing \<Rightarrow> Inr (if evaluate_pipeline opt existing < score then dict_set sig p cell else cell)
      | None \<Rightarrow>
          if length cell < o_top_k opt then Inr (dict_set sig p cell)
          else (case min_entry opt cell of
              (min_score, min_sig) \<Rightarrow>
                if min_score < score
                then (case min_sig of None \<Rightarrow> Inl KeyError | Some s \<Rightarrow> Inr (dict_set sig p (dict_del s cell)))
                else Inr cell))"

definition set_cell :: "nat \<Rightarrow> nat \<Rightarrow> (signature, opt_pipeline) dict \<Rightarrow> search \<Rightarrow> search" where
  "set_cell i j cell st = st\<lparr>dp := (dp st)(i := (dp st i)(j := cell))\<rparr>"

text \<open>The body of the innermost loop.\<close>

definition extend :: "optimizer \<Rightarrow> nat \<Rightarrow> nat \<Rightarrow> nat \<Rightarrow> opt_pipeline \<Rightarrow> search \<Rightarrow> string \<Rightarrow> search py" where
  "extend opt pivot_layer new_num_layer current_num_stage prev st instance_type =
     (if \<not> check_cluster_availability (o_cluster_pool opt) (op_stages prev @ [instance_type]) then Inr st
      else bindE (add_new_stage opt prev instance_type (int new_num_layer) st) (\<lambda>(new_pipeline, st).
        case new_pipeline of
          None \<Rightarrow> Inr st
        | Some p \<Rightarrow>
            if \<not> check_feasibility_pipeline opt p then Inr st
            else bindE (recalculate_pipeline_throughput opt p st) (\<lambda>(p, st).
              bindE (assertE (\<not> (o_mode opt = ''soft_slo'' \<and> op_cost p \<noteq> 0 \<and> 0 < op_throughput p \<and> o_latency_slo opt = 0)) ZeroDivisionError) (\<lambda>_.
              let score = evaluate_pipeline opt p;
                  st = update_top opt pivot_layer score p st in
              bindE (update_cell opt (sort (op_stages p)) score p (dp st pivot_layer current_num_stage)) (\<lambda>cell.
              Inr (set_cell pivot_layer current_num_stage cell st))))))"

definition best_entries :: "optimizer \<Rightarrow> (signature, opt_pipeline) dict \<Rightarrow> (signature \<times> opt_pipeline) list" where
  "best_entries opt cell = take (o_top_k opt) (sorted_desc (\<lambda>e. evaluate_pipeline opt (snd e)) cell)"

definition extend_cell :: "optimizer \<Rightarrow> nat \<Rightarrow> nat \<Rightarrow> search \<Rightarrow> nat \<Rightarrow> search py" where
  "extend_cell opt pivot_layer prev_num_layer st prev_num_stage =
     foldE (\<lambda>st (sig, prev).
        foldE (extend opt pivot_layer (pivot_layer - prev_num_layer) (prev_num_stage + 1) prev) st (o_instance_types opt))
       st (best_entries opt (dp st prev_num_layer prev_num_stage))"

definition pivot :: "optimizer \<Rightarrow> search \<Rightarrow> nat \<Rightarrow> search py" where
  "pivot opt st pivot_layer =
     foldE (\<lambda>st prev_num_layer.
        foldE (extend_cell opt pivot_layer prev_num_layer) st [0..<min (prev_num_layer + 1) (o_max_stages opt)])
       st [0..<pivot_layer]"

definition optimize :: "optimizer \<Rightarrow> search \<Rightarrow> (opt_pipeline list \<times> search) py" where
  "optimize opt st =
     bindE (create_pipeline_of opt []) (\<lambda>base.
     bindE (foldE (pivot opt) (set_cell 0 0 (dict_set [] base (dp st 0 0)) (st\<lparr>top_pipelines := [], entry_counter := 0\<rparr>))
       [1..<c_num_layers (o_config opt) + 1]) (\<lambda>st.
     Inr (map (\<lambda>e. snd (snd e)) (sorted_desc fst (top_pipelines st)), st)))"

text \<open>The driver, without its messages: it constructs an optimizer and runs it.\<close>

definition run_test_case :: "opt_config \<Rightarrow> py_float \<Rightarrow> py_float \<Rightarrow> cluster_pool \<Rightarrow> nat \<Rightarrow> nat option \<Rightarrow> string \<Rightarrow>
    (opt_pipeline list \<times> search) py" where
  "run_test_case config budget latency_slo pool top_k max_stages optimization_mode =
     optimize (BeamSearchDPOptimizer config budget latency_slo pool max_stages top_k optimization_mode) search_init"

section \<open>Lemmas: sorting and the pool\<close>

lemma mset_sorted_desc [simp]: "mset (sorted_desc key xs) = mset xs"
  by (simp add: sorted_desc_def)

lemma set_sorted_desc [simp]: "set (sorted_desc key xs) = set xs"
  by (simp add: sorted_desc_def)

lemma length_sorted_desc [simp]: "length (sorted_desc key xs) = length xs"
  by (simp add: sorted_desc_def)

lemma sorted_sorted_desc: "sorted_wrt (\<ge>) (map key (sorted_desc key xs))"
  by (simp add: sorted_desc_def sorted_wrt_rev flip: rev_map)

lemma sorted_desc_unique:
  assumes "mset ys = mset xs" "sorted_wrt (\<ge>) ys"
  shows "ys = sorted_desc (\<lambda>x. x) xs"
proof -
  have "sort (rev xs) = rev ys" using assms by (intro properties_for_sort) (simp_all add: sorted_wrt_rev)
  then show ?thesis by (simp add: sorted_desc_def)
qed

lemma keys_override: "set (dict_keys (override_known s d)) \<subseteq> set (dict_keys d) \<union> {k. known k}"
  unfolding override_known_def
proof (induction s arbitrary: d)
  case (Cons e s)
  obtain k v where e: "e = (k, v)" by (cases e)
  from Cons [of "if known k then dict_set k v d else d"] show ?case
    by (auto simp: e set_keys_dict_set simp del: set_map split: if_splits)
qed simp

lemma keys_default_pool: "set (dict_keys (available_resources default_pool)) \<subseteq> {k. known k}"
proof -
  have "set (dict_keys (available_resources (foldl (\<lambda>c t. c\<lparr>available_resources := dict_set t DEFAULT_AVAILABILITY (available_resources c),
       prices := dict_set t (default_price t) (prices c)\<rparr>) c ts))) = set (dict_keys (available_resources c)) \<union> set ts" for c :: cluster_pool and ts
    by (induction ts arbitrary: c) (auto simp: set_keys_dict_set simp del: set_map)
  then show ?thesis by (simp add: default_pool_def known_def del: set_map)
qed

lemma instance_types_known:
  "t \<in> set (o_instance_types (BeamSearchDPOptimizer c b slo (ClusterPool_init a pr) ms k mode)) \<Longrightarrow> known t"
  using keys_override [of a "available_resources default_pool"] keys_default_pool
  by (auto simp: BeamSearchDPOptimizer_def affordable_def ClusterPool_init_def)

lemma check_cluster_availability_iff:
  "check_cluster_availability pool stages \<longleftrightarrow>
     (\<forall>t \<in> set stages. int (count_list stages t) \<le> (case dict_get (available_resources pool) t of None \<Rightarrow> 0 | Some n \<Rightarrow> n))"
proof -
  let ?d = "foldl count_stage [] stages"
  have wf: "distinct (map fst ?d)" and get: "dict_get ?d t = (if t \<in> set stages then Some (int (count_list stages t)) else None)" for t
    using count_stages [of stages t] by (simp_all add: dict_wf_def)
  have "(t, n) \<in> set ?d \<longleftrightarrow> t \<in> set stages \<and> n = int (count_list stages t)" for t n
    unfolding map_of_eq_Some_iff [OF wf, symmetric] get by auto
  then have "set ?d = (\<lambda>t. (t, int (count_list stages t))) ` set stages" by auto
  then show ?thesis by (simp add: check_cluster_availability_def list_all_iff)
qed

section \<open>Lemmas: the invariant of the search\<close>

abbreviation latency_of :: "optimizer \<Rightarrow> node_layer list \<Rightarrow> py_float py" where
  "latency_of opt comb \<equiv> get_single_request_latency (c_shape (o_config opt)) (c_expected_input_len (o_config opt))
     (c_expected_output_len (o_config opt)) (int (c_num_layers (o_config opt))) comb []"

abbreviation throughput_of :: "optimizer \<Rightarrow> node_layer list \<Rightarrow> (py_float \<times> xrat \<times> int \<times> (py_float \<times> py_float) option) py" where
  "throughput_of opt comb \<equiv> get_throughput (c_shape (o_config opt)) (config_workload (o_config opt))
     (int (c_num_layers (o_config opt))) comb [] None"

text \<open>A pipeline that covers the first \<open>n\<close> layers with \<open>s\<close> stages, within the limits.\<close>

definition placed :: "optimizer \<Rightarrow> nat \<Rightarrow> nat \<Rightarrow> opt_pipeline \<Rightarrow> bool" where
  "placed opt n s p \<longleftrightarrow> length (op_stages p) = s \<and> length (op_layers p) = s \<and> (\<forall>l \<in> set (op_layers p). 0 < l) \<and>
     sum_list (op_layers p) = int n \<and> set (op_stages p) \<subseteq> set (o_instance_types opt) \<and>
     op_cost p = sum_list (map (get_instance_price (o_cluster_pool opt)) (op_stages p)) \<and>
     (0 < s \<longrightarrow> op_cost p \<le> o_budget opt \<and> check_cluster_availability (o_cluster_pool opt) (op_stages p))"

text \<open>Its recorded estimates are those of its stages in some order.\<close>

definition estimated :: "optimizer \<Rightarrow> opt_pipeline \<Rightarrow> bool" where
  "estimated opt p \<longleftrightarrow>
     (\<exists>comb l. mset comb = mset (node_layer_comb p) \<and> latency_of opt comb = Inr l \<and> op_single_request_latency p = Fin l \<and>
        (o_mode opt = ''hard_slo'' \<longrightarrow> l \<le> o_latency_slo opt)) \<and>
     (\<exists>comb det. mset comb = mset (node_layer_comb p) \<and>
        throughput_of opt comb = Inr (op_throughput p, op_latency_per_global_batch p, op_num_blocks p, det))"

definition caches_ok :: "optimizer \<Rightarrow> search \<Rightarrow> bool" where
  "caches_ok opt st \<longleftrightarrow>
     (\<forall>k l. dict_get (latency_cache st) k = Some l \<longrightarrow> (\<exists>comb. mset comb = mset k \<and> latency_of opt comb = Inr l)) \<and>
     (\<forall>k t l n b. dict_get (throughput_cache st) k = Some (t, l, n, b) \<longrightarrow>
        (\<exists>comb det. mset comb = mset k \<and> throughput_of opt comb = Inr (t, l, n, det)))"

definition cells_ok :: "optimizer \<Rightarrow> search \<Rightarrow> bool" where
  "cells_ok opt st \<longleftrightarrow> (\<forall>i j. \<forall>e \<in> set (dp st i j). placed opt i j (snd e))"

definition top_entry :: "optimizer \<Rightarrow> xrat \<times> nat \<times> opt_pipeline \<Rightarrow> bool" where
  "top_entry opt e \<longleftrightarrow> fst e = evaluate_pipeline opt (snd (snd e)) \<and> estimated opt (snd (snd e)) \<and>
     (\<exists>s. 0 < s \<and> s \<le> o_max_stages opt \<and> placed opt (c_num_layers (o_config opt)) s (snd (snd e)))"

definition top_ok :: "optimizer \<Rightarrow> search \<Rightarrow> bool" where
  "top_ok opt st \<longleftrightarrow> length (top_pipelines st) \<le> 5 \<and> (\<forall>e \<in> set (top_pipelines st). top_entry opt e)"

definition search_ok :: "optimizer \<Rightarrow> search \<Rightarrow> bool" where
  "search_ok opt st \<longleftrightarrow> caches_ok opt st \<and> cells_ok opt st \<and> top_ok opt st"

text \<open>The conditions under which the estimates do not raise.\<close>

definition optimizer_ok :: "optimizer \<Rightarrow> bool" where
  "optimizer_ok opt \<longleftrightarrow> shape_ok (c_shape (o_config opt)) \<and> workload_ok (config_workload (o_config opt)) \<and>
     (\<forall>t \<in> set (o_instance_types opt). known t) \<and> (o_mode opt = ''soft_slo'' \<longrightarrow> o_latency_slo opt \<noteq> 0)"

text \<open>What the operations on the caches leave alone.\<close>

definition same_table :: "search \<Rightarrow> search \<Rightarrow> bool" where
  "same_table st st' \<longleftrightarrow> dp st' = dp st \<and> top_pipelines st' = top_pipelines st \<and> entry_counter st' = entry_counter st"

lemma mset_cache_key: "mset (get_cache_key p) = mset (node_layer_comb p)"
  by (simp add: get_cache_key_def node_layer_comb_def)

lemma workload_fields:
  "avg_input_len (config_workload c) = c_expected_input_len c" "avg_output_len (config_workload c) = c_expected_output_len c"
  by (simp_all add: config_workload_def)

lemma placed_comb:
  assumes "optimizer_ok opt" "placed opt n s p" "0 < s"
  shows "comb_ok (node_layer_comb p)"
proof -
  have "length (node_layer_comb p) = s" using assms(2) by (simp add: placed_def node_layer_comb_def)
  then have "node_layer_comb p \<noteq> []" using assms(3) by auto
  moreover have "known t \<and> 0 < l" if "(t, l) \<in> set (node_layer_comb p)" for t l
  proof -
    have "t \<in> set (op_stages p)" "l \<in> set (op_layers p)"
      using that by (auto simp: node_layer_comb_def dest: set_zip_leftD set_zip_rightD)
    then show ?thesis using assms(1,2) by (auto simp: placed_def optimizer_ok_def)
  qed
  ultimately show ?thesis by (auto simp: comb_ok_def)
qed

lemma add_new_stage_ok:
  assumes opt: "optimizer_ok opt" and st: "caches_ok opt st" and p: "placed opt n s p" and "t \<in> set (o_instance_types opt)"
    and "check_cluster_availability (o_cluster_pool opt) (op_stages p @ [t])" and "0 < k"
  shows "\<exists>r st'. add_new_stage opt p t (int k) st = Inr (r, st') \<and> caches_ok opt st' \<and> same_table st st' \<and>
     (\<forall>q. r = Some q \<longrightarrow> placed opt (n + k) (Suc s) q \<and>
        (\<exists>comb l. mset comb = mset (node_layer_comb q) \<and> latency_of opt comb = Inr l \<and> op_single_request_latency q = Fin l))"
proof -
  let ?cost = "op_cost p + get_instance_price (o_cluster_pool opt) t"
  define q where "q = p\<lparr>op_stages := op_stages p @ [t], op_azs := op_azs p @ [''dummy-az''], op_layers := op_layers p @ [int k],
      op_cost := ?cost\<rparr>"
  show ?thesis
  proof (cases "o_budget opt < ?cost")
    case True
    then show ?thesis using st assms(6) by (auto simp: add_new_stage_def Let_def same_table_def)
  next
    case False
    have q: "placed opt (n + k) (Suc s) q" using p assms(4-6) False by (auto simp: placed_def q_def)
    have run: "add_new_stage opt p t (int k) st = bindE (case dict_get (latency_cache st) (get_cache_key q) of
          Some l \<Rightarrow> Inr (l, st)
        | None \<Rightarrow> bindE (get_minimum_latency (o_config opt) q) (\<lambda>l. Inr (l, st\<lparr>latency_cache := dict_set (get_cache_key q) l (latency_cache st)\<rparr>)))
      (\<lambda>(l, st). Inr (Some (q\<lparr>op_single_request_latency := Fin l\<rparr>), st))"
      unfolding q_def add_new_stage_def Let_def using False assms(6) by simp
    have q': "placed opt (n + k) (Suc s) (q\<lparr>op_single_request_latency := Fin l\<rparr>)"
      "node_layer_comb (q\<lparr>op_single_request_latency := Fin l\<rparr>) = node_layer_comb q" for l
      using q by (simp_all add: placed_def node_layer_comb_def)
    show ?thesis
    proof (cases "dict_get (latency_cache st) (get_cache_key q)")
      case None
      have sw: "shape_ok (c_shape (o_config opt))" "workload_ok (config_workload (o_config opt))"
        using opt by (simp_all add: optimizer_ok_def)
      obtain l where l: "get_minimum_latency (o_config opt) q = Inr l"
        using single_latency_total [OF sw(1) placed_comb [OF opt q] sw(2)]
        unfolding get_minimum_latency_def workload_fields by blast
      then have "latency_of opt (node_layer_comb q) = Inr l" by (simp add: get_minimum_latency_def)
      moreover from this have "caches_ok opt (st\<lparr>latency_cache := dict_set (get_cache_key q) l (latency_cache st)\<rparr>)"
        using st by (auto simp: caches_ok_def map_of_dict_set mset_cache_key)
      ultimately show ?thesis using run None l q' by (auto simp: same_table_def)
    next
      case (Some l)
      then obtain comb where "mset comb = mset (node_layer_comb q)" "latency_of opt comb = Inr l"
        using st unfolding caches_ok_def mset_cache_key [symmetric] by blast
      with run Some q' st show ?thesis by (auto simp: same_table_def)
    qed
  qed
qed

lemma recalculate_ok:
  assumes opt: "optimizer_ok opt" and st: "caches_ok opt st" and p: "placed opt n s p" "0 < s"
  shows "\<exists>q st'. recalculate_pipeline_throughput opt p st = Inr (q, st') \<and> caches_ok opt st' \<and> same_table st st' \<and>
     placed opt n s q \<and> node_layer_comb q = node_layer_comb p \<and> op_stages q = op_stages p \<and>
     op_single_request_latency q = op_single_request_latency p \<and>
     (\<exists>comb det. mset comb = mset (node_layer_comb p) \<and>
        throughput_of opt comb = Inr (op_throughput q, op_latency_per_global_batch q, op_num_blocks q, det))"
proof (cases "dict_get (throughput_cache st) (get_cache_key p)")
  case None
  have w: "workload_ok (config_workload (o_config opt))" using opt by (simp add: optimizer_ok_def)
  obtain t l k det where run: "throughput_of opt (node_layer_comb p) = Inr (t, l, k, det)"
    using throughput_total [OF _ placed_comb [OF opt p] w] opt by (metis optimizer_ok_def)
  have "c_expected_input_len (o_config opt) + c_expected_output_len (o_config opt) \<noteq> 0"
    using w by (simp add: workload_ok_def workload_fields)
  then obtain b where calc: "calculate_throughput (o_config opt) p = Inr (p\<lparr>op_throughput := t, op_latency_per_global_batch := l,
      op_num_blocks := k, op_global_batch_size := b\<rparr>)"
    using run by (simp add: calculate_throughput_def floordivE_def)
  have "caches_ok opt (st\<lparr>throughput_cache := dict_set (get_cache_key p) (t, l, k, b) (throughput_cache st)\<rparr>)"
    using st run by (auto simp: caches_ok_def map_of_dict_set mset_cache_key split: if_splits)
  then show ?thesis
    using None calc p run
    by (intro exI [of _ "p\<lparr>op_throughput := t, op_latency_per_global_batch := l, op_num_blocks := k, op_global_batch_size := b\<rparr>"]
        exI [of _ "st\<lparr>throughput_cache := dict_set (get_cache_key p) (t, l, k, b) (throughput_cache st)\<rparr>"])
      (auto simp: recalculate_pipeline_throughput_def Let_def same_table_def placed_def node_layer_comb_def)
next
  case (Some v)
  obtain t l k b where v: "v = (t, l, k, b)" by (metis surj_pair)
  with Some st obtain comb det where "mset comb = mset (node_layer_comb p)" "throughput_of opt comb = Inr (t, l, k, det)"
    unfolding caches_ok_def mset_cache_key [symmetric] by blast
  then show ?thesis
    using Some v p st
    by (intro exI [of _ "p\<lparr>op_throughput := t, op_latency_per_global_batch := l, op_num_blocks := k, op_global_batch_size := b\<rparr>"]
        exI [of _ st])
      (auto simp: recalculate_pipeline_throughput_def Let_def same_table_def placed_def node_layer_comb_def)
qed

lemma min_entry_None: "min_entry opt cell = (s, None) \<Longrightarrow> s = PosInf"
proof -
  have "snd (foldl (\<lambda>(m, k) (sig, pl). if evaluate_pipeline opt pl < m then (evaluate_pipeline opt pl, Some sig) else (m, k)) a cell) = None
      \<Longrightarrow> foldl (\<lambda>(m, k) (sig, pl). if evaluate_pipeline opt pl < m then (evaluate_pipeline opt pl, Some sig) else (m, k)) a cell = a \<and> snd a = None" for a
  proof (induction cell arbitrary: a)
    case (Cons e cell)
    from Cons.IH [of "case a of (m, k) \<Rightarrow> case e of (sig, pl) \<Rightarrow>
        if evaluate_pipeline opt pl < m then (evaluate_pipeline opt pl, Some sig) else (m, k)"] Cons.prems
    show ?case by (auto split: prod.splits if_splits)
  qed simp
  from this [of "(PosInf, None)"] show "min_entry opt cell = (s, None) \<Longrightarrow> s = PosInf" by (simp add: min_entry_def)
qed

lemma not_PosInf_less: "\<not> PosInf < (x :: xrat)"
  by (cases x) (simp_all add: less_xrat_def)

lemma set_dict_set_subset: "set (dict_set k v d) \<subseteq> insert (k, v) (set d)"
  by (induction d) (auto split: if_splits)

lemma update_cell_ok:
  "\<exists>cell'. update_cell opt sig score p cell = Inr cell' \<and> set cell' \<subseteq> insert (sig, p) (set cell)"
proof -
  obtain m k where mk: "min_entry opt cell = (m, k)" by (cases "min_entry opt cell")
  have "k \<noteq> None" if "m < score" using that min_entry_None [of opt cell m] mk not_PosInf_less by auto
  then show ?thesis
    using set_dict_set_subset [of sig p cell] set_dict_set_subset [of sig p "dict_del (the k) cell"]
      set_dict_del_subset [of "the k" cell] mk
    by (cases "dict_get cell sig") (auto simp: update_cell_def split: option.splits)
qed

lemma heappush_list: "length (heappush key h x) = Suc (length h)" "set (heappush key h x) = insert x (set h)"
  by (metis mset_heappush size_mset size_add_mset, metis mset_heappush set_mset_mset set_mset_add_mset_insert)

lemma heapreplace_list:
  assumes "h \<noteq> []"
  shows "length (heapreplace key h x) = length h" "set (heapreplace key h x) \<subseteq> insert x (set h)"
proof -
  have "size (mset (heapreplace key h x)) = size (mset h)"
    using assms unfolding mset_heapreplace [OF assms] by (simp add: size_Diff_singleton)
  then show "length (heapreplace key h x) = length h" by simp
  have "set_mset (mset (heapreplace key h x)) \<subseteq> insert x (set_mset (mset h))"
    unfolding mset_heapreplace [OF assms] set_mset_add_mset_insert by (intro insert_mono) (blast dest: in_diffD)
  then show "set (heapreplace key h x) \<subseteq> insert x (set h)" by simp
qed

lemma track_top_ok:
  assumes "length h \<le> 5"
  shows "length (track_top h e) \<le> 5" "set (track_top h e) \<subseteq> insert e (set h)"
  using assms heapreplace_list [of h heap_key e]
  by (cases "h = []"; auto simp: track_top_def heappush_list)+

lemma extend_ok:
  assumes opt: "optimizer_ok opt" and st: "search_ok opt st" and p: "placed opt n s p" and t: "t \<in> set (o_instance_types opt)"
    and "0 < k" and "s < o_max_stages opt"
  shows "\<exists>st'. extend opt (n + k) k (s + 1) p st t = Inr st' \<and> search_ok opt st'"
proof (cases "check_cluster_availability (o_cluster_pool opt) (op_stages p @ [t])")
  case True
  have ok: "caches_ok opt st" "cells_ok opt st" "top_ok opt st" using st by (simp_all add: search_ok_def)
  obtain r st1 where r: "add_new_stage opt p t (int k) st = Inr (r, st1)" "caches_ok opt st1" "same_table st st1"
    "\<forall>q. r = Some q \<longrightarrow> placed opt (n + k) (Suc s) q \<and>
        (\<exists>comb l. mset comb = mset (node_layer_comb q) \<and> latency_of opt comb = Inr l \<and> op_single_request_latency q = Fin l)"
    using add_new_stage_ok [OF opt ok(1) p t True assms(5)] by blast
  have ok1: "search_ok opt st1" using ok r(2,3) by (simp add: search_ok_def same_table_def cells_ok_def top_ok_def)
  show ?thesis
  proof (cases "\<exists>q. r = Some q \<and> check_feasibility_pipeline opt q")
    case False
    with True r(1) ok1 show ?thesis by (cases r) (auto simp: extend_def)
  next
    case feas: True
    then obtain q where q: "r = Some q" "check_feasibility_pipeline opt q" by blast
    with r(4) obtain comb l where lat: "placed opt (n + k) (Suc s) q" "mset comb = mset (node_layer_comb q)"
      "latency_of opt comb = Inr l" "op_single_request_latency q = Fin l" by blast
    have slo: "o_mode opt = ''hard_slo'' \<longrightarrow> l \<le> o_latency_slo opt"
      using q(2) lat(4) by (auto simp: check_feasibility_pipeline_def less_xrat_def)
    obtain q' st2 where q': "recalculate_pipeline_throughput opt q st1 = Inr (q', st2)" "caches_ok opt st2" "same_table st1 st2"
      "placed opt (n + k) (Suc s) q'" "node_layer_comb q' = node_layer_comb q" "op_stages q' = op_stages q"
      "op_single_request_latency q' = op_single_request_latency q"
      "\<exists>comb det. mset comb = mset (node_layer_comb q) \<and>
        throughput_of opt comb = Inr (op_throughput q', op_latency_per_global_batch q', op_num_blocks q', det)"
      using recalculate_ok [OF opt r(2) lat(1)] by blast
    have est: "estimated opt q'"
      unfolding estimated_def q'(5,7) using lat(2-4) slo q'(8) by blast
    let ?score = "evaluate_pipeline opt q'"
    define st3 where "st3 = update_top opt (n + k) ?score q' st2"
    have tables: "dp st2 = dp st" "top_pipelines st2 = top_pipelines st" using r(3) q'(3) by (simp_all add: same_table_def)
    have st3: "caches_ok opt st3" "dp st3 = dp st"
      using q'(2) tables by (simp_all add: st3_def update_top_def caches_ok_def)
    have top3: "top_ok opt st3"
    proof (cases "n + k = c_num_layers (o_config opt)")
      case True
      let ?e = "(?score, entry_counter st2 + 1, q')"
      have st3_top: "top_pipelines st3 = track_top (top_pipelines st) ?e" using True tables by (simp add: st3_def update_top_def)
      have new: "top_entry opt ?e"
        using q'(4) True assms(6) est unfolding top_entry_def by (auto intro!: exI [of _ "Suc s"])
      have old: "length (top_pipelines st) \<le> 5" "\<forall>e \<in> set (top_pipelines st). top_entry opt e"
        using ok(3) by (simp_all add: top_ok_def)
      have "top_entry opt e" if "e \<in> set (track_top (top_pipelines st) ?e)" for e
        using subsetD [OF track_top_ok(2) [OF old(1)] that] new old(2) by (elim insertE) simp_all
      with st3_top show ?thesis
        using track_top_ok(1) [OF old(1), of ?e] by (simp add: top_ok_def)
    qed (use ok(3) tables in \<open>simp add: st3_def update_top_def top_ok_def\<close>)
    obtain cell where cell: "update_cell opt (sort (op_stages q')) ?score q' (dp st3 (n + k) (s + 1)) = Inr cell"
      "set cell \<subseteq> insert (sort (op_stages q'), q') (set (dp st (n + k) (s + 1)))"
      using update_cell_ok [of opt "sort (op_stages q')" ?score q' "dp st3 (n + k) (s + 1)"] st3(2) by auto
    have "placed opt (n + k) (Suc s) (snd e)" if "e \<in> set cell" for e
      using subsetD [OF cell(2) that] ok(2) q'(4) unfolding cells_ok_def by (elim insertE) (simp_all only: snd_conv Suc_eq_plus1)
    then have "cells_ok opt (set_cell (n + k) (s + 1) cell st3)"
      using ok(2) st3(2) by (simp add: cells_ok_def set_cell_def)
    then have "search_ok opt (set_cell (n + k) (s + 1) cell st3)"
      using st3(1) top3 by (simp add: search_ok_def set_cell_def caches_ok_def top_ok_def)
    moreover have "extend opt (n + k) k (s + 1) p st t = Inr (set_cell (n + k) (s + 1) cell st3)"
      using True r(1) q q'(1) cell(1) opt by (auto simp: extend_def st3_def Let_def optimizer_ok_def)
    ultimately show ?thesis by blast
  qed
qed (use st in \<open>simp add: extend_def\<close>)

lemma foldE_ok:
  assumes "\<And>st x. x \<in> set xs \<Longrightarrow> P st \<Longrightarrow> \<exists>st'. f st x = Inr st' \<and> P st'" and "P st"
  shows "\<exists>st'. foldE f st xs = Inr st' \<and> P st'"
  using assms
proof (induction xs arbitrary: st)
  case (Cons x xs)
  obtain st1 where "f st x = Inr st1" "P st1" using Cons.prems(1) [of x st] Cons.prems(2) by auto
  with Cons.IH [of st1] Cons.prems(1) show ?case by auto
qed simp

lemma extend_cell_ok:
  assumes opt: "optimizer_ok opt" and st: "search_ok opt st" and "n < m" and "s < o_max_stages opt"
  shows "\<exists>st'. extend_cell opt m n st s = Inr st' \<and> search_ok opt st'"
  unfolding extend_cell_def
proof (rule foldE_ok [where P = "search_ok opt", OF _ st])
  fix st1 e assume e: "e \<in> set (best_entries opt (dp st n s))" and st1: "search_ok opt st1"
  have "e \<in> set (dp st n s)" using set_take_subset e by (fastforce simp: best_entries_def)
  then have "placed opt n s (snd e)" using st by (simp add: search_ok_def cells_ok_def)
  then have "\<exists>st'. foldE (extend opt (n + (m - n)) (m - n) (s + 1) (snd e)) st1 (o_instance_types opt) = Inr st' \<and> search_ok opt st'"
    using assms(3,4) by (intro foldE_ok [where P = "search_ok opt", OF _ st1] extend_ok [OF opt]) auto
  then show "\<exists>st'. (case e of (sig, prev) \<Rightarrow> foldE (extend opt m (m - n) (s + 1) prev) st1 (o_instance_types opt)) = Inr st' \<and>
      search_ok opt st'"
    using assms(3) by (cases e) simp
qed

lemma pivot_ok:
  assumes "optimizer_ok opt" "search_ok opt st"
  shows "\<exists>st'. pivot opt st m = Inr st' \<and> search_ok opt st'"
  unfolding pivot_def using assms by (intro foldE_ok extend_cell_ok) auto

lemma optimize_ok:
  assumes "optimizer_ok opt" "caches_ok opt st" "cells_ok opt st"
  shows "\<exists>st'. optimize opt st = Inr (map (\<lambda>e. snd (snd e)) (sorted_desc fst (top_pipelines st')), st') \<and> search_ok opt st'"
proof -
  let ?st = "set_cell 0 0 (dict_set [] OptPipeline_init (dp st 0 0)) (st\<lparr>top_pipelines := [], entry_counter := 0\<rparr>)"
  have "placed opt 0 0 OptPipeline_init" by (simp add: placed_def OptPipeline_init_def)
  then have "placed opt 0 0 (snd e)" if "e \<in> set (dict_set [] OptPipeline_init (dp st 0 0))" for e
    using subsetD [OF set_dict_set_subset that] assms(3) unfolding cells_ok_def by (elim insertE) simp_all
  then have "cells_ok opt ?st" using assms(3) by (simp add: cells_ok_def set_cell_def)
  then have "search_ok opt ?st" using assms(2) by (simp add: search_ok_def set_cell_def caches_ok_def top_ok_def)
  then have "\<exists>st'. foldE (pivot opt) ?st [1..<c_num_layers (o_config opt) + 1] = Inr st' \<and> search_ok opt st'"
    using assms(1) by (intro foldE_ok pivot_ok) auto
  then show ?thesis by (auto simp: optimize_def create_pipeline_of_def)
qed

section \<open>Properties\<close>

text \<open>
  C5. The optimizer returns, and what it returns can be deployed. For a pool made from the instance
  table, the search never raises. It returns at most five pipelines in descending order of their
  scores; each covers all layers of the model with at least one and at most the allowed number of
  stages, every stage has a layer, the instances it uses are affordable, available in the
  required numbers, and together cost what is recorded, which is within the budget. Its recorded
  latency and throughput are the estimates for its stages in some order, and in the mode with a
  hard limit the recorded latency respects it.
\<close>

theorem optimize_sound:
  assumes "opt = BeamSearchDPOptimizer config budget latency_slo (ClusterPool_init available_spot_nodes spot_prices) max_stages top_k mode"
    and "shape_ok (c_shape config)" "workload_ok (config_workload config)" "mode = ''soft_slo'' \<longrightarrow> latency_slo \<noteq> 0"
  shows "\<exists>ps st. optimize opt search_init = Inr (ps, st) \<and> length ps \<le> 5 \<and>
     sorted_wrt (\<ge>) (map (evaluate_pipeline opt) ps) \<and>
     (\<forall>p \<in> set ps. sum_list (op_layers p) = int (c_num_layers config) \<and> (\<forall>l \<in> set (op_layers p). 0 < l) \<and>
        length (op_layers p) = length (op_stages p) \<and> 0 < length (op_stages p) \<and> length (op_stages p) \<le> o_max_stages opt \<and>
        op_cost p = sum_list (map (get_instance_price (o_cluster_pool opt)) (op_stages p)) \<and> op_cost p \<le> budget \<and>
        (\<forall>t \<in> set (op_stages p). int (count_list (op_stages p) t) \<le>
           (case dict_get (available_resources (o_cluster_pool opt)) t of None \<Rightarrow> 0 | Some n \<Rightarrow> n)) \<and>
        estimated opt p)"
proof -
  have ok: "optimizer_ok opt"
    using instance_types_known [of _ config budget latency_slo available_spot_nodes spot_prices max_stages top_k mode] assms
    by (auto simp: optimizer_ok_def BeamSearchDPOptimizer_def)
  have "caches_ok opt search_init" "cells_ok opt search_init" by (simp_all add: caches_ok_def cells_ok_def search_init_def)
  from optimize_ok [OF ok this] obtain st where
    st: "optimize opt search_init = Inr (map (\<lambda>e. snd (snd e)) (sorted_desc fst (top_pipelines st)), st)" "top_ok opt st"
    by (auto simp: search_ok_def)
  let ?ps = "map (\<lambda>e. snd (snd e)) (sorted_desc fst (top_pipelines st))"
  have ent: "top_entry opt e" if "e \<in> set (top_pipelines st)" for e using that st(2) by (simp add: top_ok_def)
  then have "map (evaluate_pipeline opt) ?ps = map fst (sorted_desc fst (top_pipelines st))"
    by (simp add: top_entry_def)
  then have "sorted_wrt (\<ge>) (map (evaluate_pipeline opt) ?ps)" by (simp only: sorted_sorted_desc)
  moreover have "length ?ps \<le> 5" using st(2) by (simp add: top_ok_def)
  moreover have opt: "o_config opt = config" "o_budget opt = budget" by (simp_all add: assms(1) BeamSearchDPOptimizer_def)
  have "sum_list (op_layers p) = int (c_num_layers config) \<and> (\<forall>l \<in> set (op_layers p). 0 < l) \<and>
        length (op_layers p) = length (op_stages p) \<and> 0 < length (op_stages p) \<and> length (op_stages p) \<le> o_max_stages opt \<and>
        op_cost p = sum_list (map (get_instance_price (o_cluster_pool opt)) (op_stages p)) \<and> op_cost p \<le> budget \<and>
        (\<forall>t \<in> set (op_stages p). int (count_list (op_stages p) t) \<le>
           (case dict_get (available_resources (o_cluster_pool opt)) t of None \<Rightarrow> 0 | Some n \<Rightarrow> n)) \<and>
        estimated opt p" if mem: "p \<in> set ?ps" for p
  proof -
    obtain e where "e \<in> set (top_pipelines st)" "p = snd (snd e)" using mem by auto
    then obtain s where "0 < s" "s \<le> o_max_stages opt" "placed opt (c_num_layers config) s p" "estimated opt p"
      using ent [of e] opt by (auto simp: top_entry_def)
    then show ?thesis unfolding placed_def check_cluster_availability_iff opt by simp
  qed
  ultimately show ?thesis using st(1) by blast
qed

definition small_config :: opt_config where
  "small_config = \<lparr>c_shape = small_shape, c_num_layers = 3, c_expected_input_len = 5, c_expected_output_len = 3,
     c_max_model_len = 16, c_gpu_mem_utilization = 9 / 10\<rparr>"

theorem optimize_sound_witness:
  "\<exists>ps st. optimize (BeamSearchDPOptimizer small_config 10 1 (ClusterPool_init [] []) None 3 ''soft_slo'') search_init = Inr (ps, st) \<and>
     length ps \<le> 5 \<and> (\<forall>p \<in> set ps. sum_list (op_layers p) = 3 \<and> op_cost p \<le> 10)"
  using optimize_sound [OF refl, where config = small_config and latency_slo = 1 and budget = 10 and
    available_spot_nodes = "[]" and spot_prices = "[]" and max_stages = None and top_k = 3 and mode = "''soft_slo''"] small_ok(1)
  by (auto simp: small_config_def config_workload_def workload_ok_def BLOCK_SIZE_def)

lemma track_top_keep: "track_top = heapq.keep TYPE(xrat \<times> nat) heap_key 5 fst"
  by (intro ext) (simp add: track_top_def heapq.keep_def)

text \<open>
  C10. The heap keeps the best pipelines. Whatever complete pipelines the search meets, in whatever
  order, the scores of the pipelines that it returns at the end are the first five of the scores of
  all of them, sorted in descending order; so the bounded heap does what sorting all candidates
  would do.
\<close>

theorem top_pipelines_are_best:
  "map fst (sorted_desc fst (foldl track_top [] cs)) = take 5 (sorted_desc (\<lambda>x. x) (map fst cs))"
proof -
  let ?h = "foldl track_top [] cs"
  have mono: "heap_key x \<le> heap_key y \<Longrightarrow> fst x \<le> fst y" for x y by (auto simp: heap_key_def less_eq_prod_def)
  have "is_heap heap_key []" by (simp add: is_heap_def)
  note best = heapq.keep_best [of heap_key fst, OF mono this, of 5 cs, folded track_top_keep, simplified]
  obtain rest where rest: "mset rest = mset cs - mset ?h" by (metis ex_mset)
  let ?k = "map fst (sorted_desc fst ?h)" and ?r = "map fst (sorted_desc fst rest)"
  have "mset (?k @ ?r) = image_mset fst (mset ?h + mset rest)" by simp
  also have "\<dots> = mset (map fst cs)" unfolding rest using best(2) by (simp add: subset_mset.add_diff_inverse)
  finally have eq: "mset (?k @ ?r) = mset (map fst cs)" .
  have "a \<le> b" if "a \<in> set ?r" "b \<in> set ?k" for a b
    using that best(4) unfolding rest [symmetric] by auto
  then have "sorted_wrt (\<ge>) (?k @ ?r)" using sorted_sorted_desc [of fst ?h] sorted_sorted_desc [of fst rest]
    by (simp add: sorted_wrt_append)
  from sorted_desc_unique [OF eq this] have all: "sorted_desc (\<lambda>x. x) (map fst cs) = ?k @ ?r" by simp
  have len: "length ?k = min 5 (length cs)" using best(3) by simp
  moreover have "length (?k @ ?r) = length cs" using arg_cong [OF eq, of size] by simp
  ultimately show ?thesis unfolding all by (auto simp: min_def sorted_desc_def split: if_splits)
qed

text \<open>
  The caches confuse pipelines. The key of a pipeline forgets the order of its stages, but the
  estimate depends on it, since the last stage also computes the logits: the two orders of
  the same two stages have equal keys and different latencies. The search therefore records for the
  second one the latency of the first.
\<close>

definition two_stages :: "string \<times> int \<Rightarrow> string \<times> int \<Rightarrow> opt_pipeline" where
  "two_stages s t = OptPipeline_init\<lparr>op_stages := [fst s, fst t], op_azs := [''dummy-az'', ''dummy-az''], op_layers := [snd s, snd t]\<rparr>"

theorem cache_key_forgets_order:
  "get_cache_key (two_stages (''g4dn.xlarge'', 1) (''g6e.xlarge'', 2)) = get_cache_key (two_stages (''g6e.xlarge'', 2) (''g4dn.xlarge'', 1)) \<and>
   get_minimum_latency small_config (two_stages (''g4dn.xlarge'', 1) (''g6e.xlarge'', 2)) \<noteq>
     get_minimum_latency small_config (two_stages (''g6e.xlarge'', 2) (''g4dn.xlarge'', 1))"
  by code_simp

end
