(* ===== verification/AlpaServe.thy ===== *)
theory AlpaServe
  imports Estimator
begin

text \<open>
  The AlpaServe baseline of \<^verbatim>\<open>ModelPlacement/alpaserve_optimizer.py\<close>: the latency of a range of layers from
  the estimator, the dynamic program that splits the layers into pipeline stages such that the
  slowest stage is as fast as possible, the profiling data made from it, and the choice of a
  configuration. The tables of the dynamic program are functions of the two indices; a negative
  index counts from the end, as in Python. The search is an argument of the optimizer here; \<^verbatim>\<open>AlpaSearch\<close> supplies \<open>ModelParallelismSearch\<close>.
\<close>

section \<open>Latency of a range of layers\<close>

definition get_latency :: "shape \<Rightarrow> int \<Rightarrow> int \<Rightarrow> string \<Rightarrow> int \<Rightarrow> py_float \<Rightarrow> int \<Rightarrow> int \<Rightarrow> int \<Rightarrow> py_float py" where
  "get_latency m start_layer end_layer gpu tp_size p2p_bandwidth input_len output_len total_num_layers =
     (let num_layers = end_layer - start_layer in
      if num_layers \<le> 0 then Inr 0
      else plusE
        (timesE (plusE (plusE (plusE
            (get_prefill_computation_latency_per_layer m gpu tp_size input_len 1)
            (get_tp_communication_latency_per_layer m tp_size 1 input_len p2p_bandwidth None))
            (get_decoding_computation_latency_per_layer m gpu tp_size input_len output_len 1))
            (get_tp_communication_latency_per_layer m tp_size 1 output_len p2p_bandwidth None)) num_layers)
        (plusE (whenE (end_layer = total_num_layers) (get_prefill_compute_logit_latency m gpu tp_size 1))
          (whenE (end_layer = total_num_layers) (get_decoding_compute_logit_latency m gpu tp_size output_len 1))))"

section \<open>The dynamic program\<close>

definition stage_lat :: "py_float \<Rightarrow> py_float \<Rightarrow> int \<Rightarrow> int \<Rightarrow> int \<Rightarrow> py_float" where
  "stage_lat per_layer lm_head num_layers s e =
     (if e = num_layers then of_int (e - s) * per_layer + lm_head else of_int (e - s) * per_layer)"

record tables =
  F :: "nat \<Rightarrow> nat \<Rightarrow> xrat"
  split_at :: "nat \<Rightarrow> nat \<Rightarrow> int"

definition relax :: "(int \<Rightarrow> int \<Rightarrow> py_float) \<Rightarrow> nat \<Rightarrow> nat \<Rightarrow> tables \<Rightarrow> nat \<Rightarrow> tables" where
  "relax lat s k t i =
     (let val = max (F t (s - 1) i) (Fin (lat (int i) (int k))) in
      if val < F t s k
      then t\<lparr>F := (F t)(s := (F t s)(k := val)), split_at := (split_at t)(s := (split_at t s)(k := int i))\<rparr>
      else t)"

definition fill_row :: "(int \<Rightarrow> int \<Rightarrow> py_float) \<Rightarrow> nat \<Rightarrow> tables \<Rightarrow> nat \<Rightarrow> tables" where
  "fill_row lat n t s = foldl (\<lambda>t k. foldl (relax lat s k) t [s - 1..<k]) t [s..<n + 1]"

definition first_row :: "(int \<Rightarrow> int \<Rightarrow> py_float) \<Rightarrow> nat \<Rightarrow> tables" where
  "first_row lat n = foldl (\<lambda>t k. t\<lparr>F := (F t)(1 := (F t 1)(k := Fin (lat 0 (int k))))\<rparr>)
     \<lparr>F = (\<lambda>_ _. PosInf), split_at = (\<lambda>_ _. - 1)\<rparr> [1..<n + 1]"

definition partition_tables :: "(int \<Rightarrow> int \<Rightarrow> py_float) \<Rightarrow> nat \<Rightarrow> nat \<Rightarrow> tables" where
  "partition_tables lat n pp = foldl (fill_row lat n) (first_row lat n) [2..<pp + 1]"

text \<open>Reading a row of \<open>n + 1\<close> entries with an index that may be negative.\<close>

definition row_get :: "nat \<Rightarrow> (nat \<Rightarrow> 'a) \<Rightarrow> int \<Rightarrow> 'a" where
  "row_get n row k = row (nat (if k < 0 then int n + 1 + k else k))"

text \<open>The boundaries of the stages, read from the last stage to the first.\<close>

fun backtrack :: "(nat \<Rightarrow> nat \<Rightarrow> int) \<Rightarrow> nat \<Rightarrow> nat \<Rightarrow> int \<Rightarrow> (int \<times> int) list" where
  "backtrack sp n s k =
     (if s \<le> 1 then [(0, k)] else backtrack sp n (s - 1) (row_get n (sp s) k) @ [(row_get n (sp s) k, k)])"

declare backtrack.simps [simp del]

definition boundaries :: "(int \<Rightarrow> int \<Rightarrow> py_float) \<Rightarrow> nat \<Rightarrow> nat \<Rightarrow> (int \<times> int) list" where
  "boundaries lat n pp = backtrack (split_at (partition_tables lat n pp)) n pp (int n)"

section \<open>Profiling data\<close>

record parallel_config =
  pc_dp :: int
  pc_op :: int
  pc_pp :: int

record latency_mem =
  lm_latency :: "(int, py_float list) dict"
  lm_act_mem :: "(int, py_float list) dict"
  lm_weight_mem :: "py_float list"

type_synonym para_dict = "(parallel_config, latency_mem) dict"

record alpa_config =
  a_shape :: shape
  a_num_layers :: nat
  a_expected_input_len :: int
  a_expected_output_len :: int
  a_tp_size :: int
  a_p2p_bandwidth :: py_float
  a_gpu_mem_utilization :: "py_float option"
  a_rate :: "py_float option"

text \<open>The latency of one layer and of the logits, in seconds.\<close>

definition per_layer_lat_sec :: "alpa_config \<Rightarrow> string \<Rightarrow> py_float py" where
  "per_layer_lat_sec c gpu =
     bindE (get_latency (a_shape c) 0 1 gpu (a_tp_size c) (a_p2p_bandwidth c) (a_expected_input_len c) (a_expected_output_len c)
       (int (a_num_layers c) + 1)) (\<lambda>l. Inr (l / 1000))"

definition lm_head_lat_sec :: "alpa_config \<Rightarrow> string \<Rightarrow> py_float py" where
  "lm_head_lat_sec c gpu =
     bindE (plusE (get_prefill_compute_logit_latency (a_shape c) gpu (a_tp_size c) 1)
       (get_decoding_compute_logit_latency (a_shape c) gpu (a_tp_size c) (a_expected_output_len c) 1)) (\<lambda>l. Inr (l / 1000))"

text \<open>The weights of the stages per GPU; \<open>cumulative\<close> counts the layers of the earlier stages.\<close>

fun stage_weight_mem :: "py_float \<Rightarrow> py_float \<Rightarrow> py_float \<Rightarrow> int \<Rightarrow> bool \<Rightarrow> int \<Rightarrow> int list \<Rightarrow> py_float list" where
  "stage_weight_mem layer_w embedding_w tp num_layers is_first cumulative [] = []"
| "stage_weight_mem layer_w embedding_w tp num_layers is_first cumulative (l # ls) =
     (layer_w * of_int l / tp + (if is_first then embedding_w / tp else 0) + (if cumulative + l = num_layers then embedding_w / tp else 0)) #
       stage_weight_mem layer_w embedding_w tp num_layers False (cumulative + l) ls"

definition profile_entry :: "alpa_config \<Rightarrow> (int \<Rightarrow> int \<Rightarrow> py_float) \<Rightarrow> int \<Rightarrow> nat \<Rightarrow> latency_mem" where
  "profile_entry c lat layer_weight_bytes pp =
     (let bs = boundaries lat (a_num_layers c) pp in
      \<lparr>lm_latency = [(1, map (\<lambda>(s, e). lat s e) bs)], lm_act_mem = [(1, replicate pp 0)],
       lm_weight_mem = stage_weight_mem (of_int layer_weight_bytes) (of_int (get_memory_size_embedding_or_lm_head_weight_bytes (a_shape c)))
         (of_int (a_tp_size c)) (int (a_num_layers c)) True 0 (map (\<lambda>(s, e). e - s) bs)\<rparr>)"

definition config_key :: "alpa_config \<Rightarrow> nat \<Rightarrow> parallel_config" where
  "config_key c pp = \<lparr>pc_dp = 1, pc_op = a_tp_size c, pc_pp = int pp\<rparr>"

definition build_profiling_result :: "alpa_config \<Rightarrow> string \<Rightarrow> nat \<Rightarrow> para_dict py" where
  "build_profiling_result c gpu max_pp =
     bindE (per_layer_lat_sec c gpu) (\<lambda>per_layer.
     bindE (lm_head_lat_sec c gpu) (\<lambda>lm_head.
     bindE (get_memory_size_decoder_layer_weight_bytes (a_shape c)) (\<lambda>layer_weight_bytes.
     bindE (assertE (a_tp_size c \<noteq> 0 \<or> max_pp = 0) ZeroDivisionError) (\<lambda>_.
     Inr (foldl (\<lambda>d pp. dict_set (config_key c pp)
         (profile_entry c (stage_lat per_layer lm_head (int (a_num_layers c))) layer_weight_bytes pp) d) [] [1..<max_pp + 1])))))"

section \<open>The optimizer\<close>

record cluster_env =
  num_devices :: int
  mem_budget :: py_float
  num_devices_per_node :: int

record model_data =
  md_name :: string
  md_slo :: py_float
  md_rate :: py_float
  md_cv :: py_float
  md_para_dict :: para_dict

type_synonym model_placement = "parallel_config list \<times> int list list"

text \<open>\<open>max\<close> of the keys by their number of stages: the first of the largest ones.\<close>

fun max_config :: "parallel_config list \<Rightarrow> parallel_config py" where
  "max_config [] = Inl ValueError"
| "max_config (c # cs) = Inr (foldl (\<lambda>b x. if pc_pp b < pc_pp x then x else b) c cs)"

definition single_request_latency_sec :: "alpa_config \<Rightarrow> para_dict \<Rightarrow> py_float py" where
  "single_request_latency_sec c prof =
     bindE (case dict_get prof (config_key c 1) of
         Some _ \<Rightarrow> Inr (config_key c 1)
       | None \<Rightarrow> max_config (dict_keys prof)) (\<lambda>k.
     bindE (lookupE (dict_get prof) k) (\<lambda>d.
     bindE (lookupE (dict_get (lm_latency d)) 1) (\<lambda>ls. Inr (sum_list ls))))"

text \<open>The configuration of the first group that holds model 0, else the one with the most stages.\<close>

definition chosen_config :: "alpa_config \<Rightarrow> nat \<Rightarrow> para_dict \<Rightarrow> model_placement \<Rightarrow> parallel_config py" where
  "chosen_config c num_stage prof pl =
     (let chosen = (case filter (\<lambda>(gc, gm). 0 \<in> set gm) (zip (fst pl) (snd pl)) of
           [] \<Rightarrow> config_key c num_stage
         | (gc, gm) # _ \<Rightarrow> gc) in
      if dict_get prof chosen = None then max_config (dict_keys prof) else Inr chosen)"

text \<open>The model and the cluster that the search is asked about.\<close>

definition alpaserve_inputs :: "string \<Rightarrow> nat \<Rightarrow> alpa_config \<Rightarrow> (para_dict \<times> model_data list \<times> cluster_env) py" where
  "alpaserve_inputs gpu num_stage c =
     bindE (lookupE (dict_get GPU_SPEC) gpu) (\<lambda>g.
     bindE (build_profiling_result c gpu num_stage) (\<lambda>prof.
     bindE (single_request_latency_sec c prof) (\<lambda>lat.
     Inr (prof, [\<lparr>md_name = ''model'', md_slo = lat * 10, md_rate = or_default (a_rate c) (552 / 100), md_cv = 1, md_para_dict = prof\<rparr>],
       \<lparr>num_devices = int num_stage * a_tp_size c, mem_budget = of_int (memory_size g) * 10 ^ 6 * or_default (a_gpu_mem_utilization c) (9 / 10),
        num_devices_per_node = a_tp_size c\<rparr>))))"

text \<open>The latency of the slowest stage in milliseconds, the layers per stage, and the configuration, from the placement found.\<close>

definition alpaserve_result :: "string \<Rightarrow> nat \<Rightarrow> alpa_config \<Rightarrow> para_dict \<Rightarrow> model_placement \<Rightarrow> (xrat \<times> int list \<times> parallel_config) py" where
  "alpaserve_result gpu num_stage c prof pl =
     bindE (chosen_config c num_stage prof pl) (\<lambda>chosen.
     bindE (per_layer_lat_sec c gpu) (\<lambda>per_layer.
     bindE (lm_head_lat_sec c gpu) (\<lambda>lm_head.
     let n = a_num_layers c; pp = nat (pc_pp chosen); lat = stage_lat per_layer lm_head (int n) in
     Inr (case F (partition_tables lat n pp) pp n of Fin v \<Rightarrow> Fin (v * 1000) | x \<Rightarrow> x,
       map (\<lambda>(s, e). e - s) (boundaries lat n pp), chosen))))"

text \<open>\<open>AlpaServeOptimizer.optimize\<close>, for a search that may not end.\<close>

definition alpaserve_optimize :: "(model_data list \<Rightarrow> cluster_env \<Rightarrow> model_placement py option) \<Rightarrow> string \<Rightarrow> nat \<Rightarrow> alpa_config \<Rightarrow>
    (xrat \<times> int list \<times> parallel_config) py option" where
  "alpaserve_optimize solve_placement gpu num_stage c =
     bindD (Some (alpaserve_inputs gpu num_stage c)) (\<lambda>(prof, models, env).
     bindD (solve_placement models env) (\<lambda>pl. Some (alpaserve_result gpu num_stage c prof pl)))"

section \<open>Lemmas: the tables\<close>

text \<open>What a cell holds: a value not above that of any split, and attained by the recorded one.\<close>

definition cell_ok :: "(int \<Rightarrow> int \<Rightarrow> py_float) \<Rightarrow> tables \<Rightarrow> nat \<Rightarrow> nat \<Rightarrow> nat list \<Rightarrow> bool" where
  "cell_ok lat t s k splits \<longleftrightarrow>
     (\<forall>i \<in> set splits. F t s k \<le> max (F t (s - 1) i) (Fin (lat (int i) (int k)))) \<and>
     (F t s k = PosInf \<or> (\<exists>i \<in> set splits. split_at t s k = int i \<and> F t s k = max (F t (s - 1) i) (Fin (lat (int i) (int k)))))"

definition same_cell :: "tables \<Rightarrow> tables \<Rightarrow> nat \<Rightarrow> nat \<Rightarrow> bool" where
  "same_cell t t' s k \<longleftrightarrow> F t' s k = F t s k \<and> split_at t' s k = split_at t s k"

lemma cell_ok_cong: "(\<And>r c. r = s - 1 \<or> r = s \<and> c = k \<Longrightarrow> same_cell t t' r c) \<Longrightarrow> cell_ok lat t s k js \<Longrightarrow> cell_ok lat t' s k js"
  by (simp add: cell_ok_def same_cell_def)

lemma same_cell_trans: "same_cell t t' s k \<Longrightarrow> same_cell t' t'' s k \<Longrightarrow> same_cell t t'' s k"
  by (simp add: same_cell_def)

lemma relax_other: "(r, c) \<noteq> (s, k) \<Longrightarrow> same_cell t (relax lat s k t i) r c"
  by (auto simp: relax_def same_cell_def Let_def)

lemma relax_fold:
  assumes "1 \<le> s" "F t s k = PosInf"
  shows "cell_ok lat (foldl (relax lat s k) t js) s k js" and "(r, c) \<noteq> (s, k) \<Longrightarrow> same_cell t (foldl (relax lat s k) t js) r c"
proof -
  show other: "(r, c) \<noteq> (s, k) \<Longrightarrow> same_cell t (foldl (relax lat s k) t js) r c" for r c
    by (induction js rule: rev_induct) (auto simp: same_cell_def [of t t] intro: same_cell_trans relax_other)
  show "cell_ok lat (foldl (relax lat s k) t js) s k js"
  proof (induction js rule: rev_induct)
    case Nil
    then show ?case using assms by (simp add: cell_ok_def)
  next
    case (snoc i js)
    let ?t = "foldl (relax lat s k) t js" and ?u = "relax lat s k (foldl (relax lat s k) t js) i"
    have "s - 1 \<noteq> s" using assms(1) by simp
    then have prev: "F ?u (s - 1) j = F ?t (s - 1) j" for j
      using relax_other [of "s - 1" j s k ?t lat i] by (simp add: same_cell_def)
    let ?val = "max (F ?t (s - 1) i) (Fin (lat (int i) (int k)))"
    have u: "F ?u s k = (if ?val < F ?t s k then ?val else F ?t s k)"
      "split_at ?u s k = (if ?val < F ?t s k then int i else split_at ?t s k)"
      by (simp_all add: relax_def Let_def)
    show ?case
    proof (cases "?val < F ?t s k")
      case True
      with snoc have "\<forall>j \<in> set js. ?val \<le> max (F ?t (s - 1) j) (Fin (lat (int j) (int k)))"
        unfolding cell_ok_def by (meson less_le_trans less_imp_le)
      with True u prev show ?thesis by (simp add: cell_ok_def)
    next
      case False
      have same: "F ?u s k = F ?t s k" "split_at ?u s k = split_at ?t s k" unfolding u if_not_P [OF False] by (rule refl)+
      have "F ?t s k \<le> ?val" using False unfolding not_less .
      with snoc show ?thesis unfolding cell_ok_def foldl_append foldl.simps prev same(1,2) by (simp add: bex_Un) blast
    qed
  qed
qed

lemma fill_cells:
  fixes lat :: "int \<Rightarrow> int \<Rightarrow> py_float"
  assumes "1 \<le> s" "distinct ks" "\<forall>k \<in> set ks. F t s k = PosInf"
  defines "t' \<equiv> foldl (\<lambda>t k. foldl (relax lat s k) t [s - 1..<k]) t ks"
  shows "\<forall>k \<in> set ks. cell_ok lat t' s k [s - 1..<k]" and "r \<noteq> s \<or> c \<notin> set ks \<Longrightarrow> same_cell t t' r c"
proof -
  have "(\<forall>k \<in> set ks. cell_ok lat (foldl (\<lambda>t k. foldl (relax lat s k) t [s - 1..<k]) t ks) s k [s - 1..<k]) \<and>
    (\<forall>r c. r \<noteq> s \<or> c \<notin> set ks \<longrightarrow> same_cell t (foldl (\<lambda>t k. foldl (relax lat s k) t [s - 1..<k]) t ks) r c)"
    using assms(2,3)
  proof (induction ks rule: rev_induct)
    case (snoc k ks)
    let ?t = "foldl (\<lambda>t k. foldl (relax lat s k) t [s - 1..<k]) t ks"
    let ?u = "foldl (relax lat s k) ?t [s - 1..<k]"
    have IH: "\<forall>k \<in> set ks. cell_ok lat ?t s k [s - 1..<k]" "r \<noteq> s \<or> c \<notin> set ks \<Longrightarrow> same_cell t ?t r c" for r c
      using snoc by auto
    have new: "F ?t s k = PosInf" using IH(2) [of s k] snoc.prems by (simp add: same_cell_def)
    note fold = relax_fold [OF assms(1) new, where lat = lat and js = "[s - 1..<k]"]
    have "cell_ok lat ?u s j [s - 1..<j]" if "j \<in> set ks" for j
      using IH(1) that snoc.prems assms(1) by (intro cell_ok_cong [OF fold(2)]) auto
    moreover have "same_cell t ?u r c" if "r \<noteq> s \<or> c \<notin> set (ks @ [k])" for r c
      using that by (intro same_cell_trans [OF IH(2) fold(2)]) auto
    ultimately show ?case using fold(1) by auto
  qed (simp add: same_cell_def)
  then show "\<forall>k \<in> set ks. cell_ok lat t' s k [s - 1..<k]" "r \<noteq> s \<or> c \<notin> set ks \<Longrightarrow> same_cell t t' r c"
    by (auto simp: t'_def)
qed

definition tables_ok :: "(int \<Rightarrow> int \<Rightarrow> py_float) \<Rightarrow> nat \<Rightarrow> nat \<Rightarrow> tables \<Rightarrow> bool" where
  "tables_ok lat n p t \<longleftrightarrow> (\<forall>k \<in> {1..n}. F t 1 k = Fin (lat 0 (int k))) \<and>
     (\<forall>s \<in> {2..p}. \<forall>k \<in> {s..n}. cell_ok lat t s k [s - 1..<k]) \<and> (\<forall>s k. max 1 p < s \<longrightarrow> F t s k = PosInf)"

lemma first_row_ok: "tables_ok lat n 1 (first_row lat n)"
proof -
  have "F (foldl (\<lambda>t k. t\<lparr>F := (F t)(1 := (F t 1)(k := Fin (lat 0 (int k))))\<rparr>) t ks) s k =
      (if s = 1 \<and> k \<in> set ks then Fin (lat 0 (int k)) else F t s k)" for t :: tables and ks s k
    by (induction ks rule: rev_induct) auto
  then show ?thesis by (simp add: tables_ok_def first_row_def)
qed

lemma fill_row_ok:
  assumes "tables_ok lat n p t" "1 \<le> p"
  shows "tables_ok lat n (Suc p) (fill_row lat n t (Suc p))"
proof -
  have inf: "\<forall>k \<in> set [Suc p..<n + 1]. F t (Suc p) k = PosInf" using assms by (simp add: tables_ok_def)
  note new = fill_cells [of "Suc p" "[Suc p..<n + 1]", OF _ _ inf, where lat = lat, folded fill_row_def]
  have other: "same_cell t (fill_row lat n t (Suc p)) r c" if "r \<noteq> Suc p" for r c using new(2) that by simp
  have "cell_ok lat (fill_row lat n t (Suc p)) s k [s - 1..<k]" if "s \<in> {2..Suc p}" "k \<in> {s..n}" for s k
  proof (cases "s = Suc p")
    case True
    with new(1) that show ?thesis by (cases "k = n") auto
  next
    case False
    with that assms show ?thesis by (intro cell_ok_cong [OF other]) (auto simp: tables_ok_def)
  qed
  moreover have "F (fill_row lat n t (Suc p)) 1 k = F t 1 k" for k using other [of 1 k] assms(2) by (simp add: same_cell_def)
  moreover have "F (fill_row lat n t (Suc p)) s k = F t s k" if "Suc p < s" for s k using other [of s k] that by (simp add: same_cell_def)
  ultimately show ?thesis using assms by (auto simp: tables_ok_def)
qed

lemma partition_tables_ok: "1 \<le> p \<Longrightarrow> tables_ok lat n p (partition_tables lat n p)"
proof (induction p rule: nat_induct_at_least)
  case base
  then show ?case using first_row_ok by (simp add: partition_tables_def)
next
  case (Suc p)
  then have "[2..<Suc p + 1] = [2..<p + 1] @ [Suc p]" by (simp add: upt_Suc_append)
  with fill_row_ok [OF Suc.IH Suc.hyps] show ?case by (simp add: partition_tables_def)
qed

section \<open>Lemmas: optimal partitions\<close>

text \<open>A partition of \<open>k\<close> layers into \<open>s\<close> stages with at least one layer each, and the latencies of its stages.\<close>

definition composition :: "nat \<Rightarrow> nat \<Rightarrow> int list \<Rightarrow> bool" where
  "composition s k ls \<longleftrightarrow> length ls = s \<and> (\<forall>l \<in> set ls. 0 < l) \<and> sum_list ls = int k"

fun stage_costs :: "(int \<Rightarrow> int \<Rightarrow> py_float) \<Rightarrow> int \<Rightarrow> int list \<Rightarrow> py_float list" where
  "stage_costs lat a [] = []"
| "stage_costs lat a (l # ls) = lat a (a + l) # stage_costs lat (a + l) ls"

definition bottleneck :: "(int \<Rightarrow> int \<Rightarrow> py_float) \<Rightarrow> int list \<Rightarrow> py_float" where
  "bottleneck lat ls = Max (set (stage_costs lat 0 ls))"

lemma stage_costs_snoc: "stage_costs lat a (ls @ [l]) = stage_costs lat a ls @ [lat (a + sum_list ls) (a + sum_list ls + l)]"
  by (induction ls arbitrary: a) (simp_all add: add.assoc)

lemma stage_costs_Nil_iff [simp]: "stage_costs lat a ls = [] \<longleftrightarrow> ls = []"
  by (cases ls) simp_all

lemma bottleneck_snoc:
  "bottleneck lat (ls @ [l]) =
     (if ls = [] then lat 0 l else max (bottleneck lat ls) (lat (sum_list ls) (sum_list ls + l)))"
  by (simp add: bottleneck_def stage_costs_snoc max.commute)

lemma composition_length_le: "composition s k ls \<Longrightarrow> s \<le> k"
proof -
  assume c: "composition s k ls"
  have "(\<forall>l \<in> set ls. 0 < l) \<Longrightarrow> int (length ls) \<le> sum_list ls" for ls :: "int list" by (induction ls) auto
  from this [of ls] c show "s \<le> k" by (simp add: composition_def)
qed

lemma composition_snocE:
  assumes "composition (Suc s) k ls"
  obtains xs j where "ls = xs @ [int k - int j]" "composition s j xs" "s \<le> j" "j < k"
proof -
  obtain xs l where ls: "ls = xs @ [l]" using assms by (cases ls rule: rev_cases) (auto simp: composition_def)
  have "\<forall>x \<in> set xs. 0 \<le> x" using assms ls by (auto simp: composition_def less_imp_le)
  then have "0 \<le> sum_list xs" by (intro sum_list_nonneg) blast
  with assms ls have c: "composition s (nat (sum_list xs)) xs" "l = int k - int (nat (sum_list xs))" "nat (sum_list xs) < k"
    by (auto simp: composition_def)
  with that [of xs "nat (sum_list xs)"] ls composition_length_le show thesis by blast
qed

lemma composition_snoc: "composition s j xs \<Longrightarrow> j < k \<Longrightarrow> composition (Suc s) k (xs @ [int k - int j])"
  by (auto simp: composition_def)

lemma composition_1: "composition (Suc 0) k ls \<longleftrightarrow> ls = [int k] \<and> 0 < k"
  by (auto simp: composition_def length_Suc_conv)

lemma max_Fin [simp]: "max (Fin a) (Fin b) = Fin (max a b)"
  by (simp add: max_def)

lemma row_get_nat [simp]: "row_get n row (int k) = row k"
  by (simp add: row_get_def)

text \<open>Every finished cell holds the smallest bottleneck, and the recorded splits attain it.\<close>

lemma cell_optimal:
  assumes "tables_ok lat n p t" "1 \<le> s" "s \<le> p" "s \<le> k" "k \<le> n"
  shows "\<exists>v. F t s k = Fin v \<and> (\<forall>ls. composition s k ls \<longrightarrow> v \<le> bottleneck lat ls) \<and>
     (let bs = backtrack (split_at t) n s (int k); ls = map (\<lambda>(a, b). b - a) bs in
      composition s k ls \<and> map (\<lambda>(a, b). lat a b) bs = stage_costs lat 0 ls \<and> bottleneck lat ls = v)"
  using assms(2-5)
proof (induction s arbitrary: k rule: nat_induct_at_least)
  case base
  then have "F t 1 k = Fin (lat 0 (int k))" using assms(1) by (simp add: tables_ok_def)
  with base show ?case
    by (auto simp: composition_1 backtrack.simps [of _ _ "Suc 0"] bottleneck_def)
next
  case (Suc s)
  have row: "\<exists>v. F t s j = Fin v \<and> (\<forall>ls. composition s j ls \<longrightarrow> v \<le> bottleneck lat ls)" if "s \<le> j" "j < k" for j
    using Suc.IH [of j] Suc.prems that by auto
  have cell: "cell_ok lat t (Suc s) k [s..<k]"
    using assms(1) Suc.hyps Suc.prems by (auto simp: tables_ok_def dest: bspec [where x = "Suc s"])
  have fin: "F t (Suc s) k \<noteq> PosInf"
  proof -
    obtain v where "F t s s = Fin v" using row [of s] Suc.prems by auto
    then have "F t (Suc s) k \<le> Fin (max v (lat (int s) (int k)))"
      using cell Suc.prems by (auto simp: cell_ok_def dest: bspec [where x = s])
    then show ?thesis by auto
  qed
  then obtain i where i: "s \<le> i" "i < k" "split_at t (Suc s) k = int i" "F t (Suc s) k = max (F t s i) (Fin (lat (int i) (int k)))"
    using cell by (auto simp: cell_ok_def)
  let ?bs = "backtrack (split_at t) n s (int i)"
  let ?ls = "map (\<lambda>(a, b). b - a) ?bs"
  obtain v where v: "F t s i = Fin v" "composition s i ?ls" "map (\<lambda>(a, b). lat a b) ?bs = stage_costs lat 0 ?ls" "bottleneck lat ?ls = v"
    using Suc.IH [of i] Suc.prems i by (auto simp: Let_def)
  have bs: "backtrack (split_at t) n (Suc s) (int k) = ?bs @ [(int i, int k)]"
    using Suc.hyps i(3) by (simp add: backtrack.simps [of _ _ "Suc s"])
  have sum: "sum_list ?ls = int i" "?ls \<noteq> []" using v(2) Suc.hyps by (auto simp: composition_def)
  have "bottleneck lat (?ls @ [int k - int i]) = max v (lat (int i) (int k))"
    using sum v(4) unfolding bottleneck_snoc by simp
  moreover have "stage_costs lat 0 (?ls @ [int k - int i]) = stage_costs lat 0 ?ls @ [lat (int i) (int k)]"
    unfolding stage_costs_snoc sum(1) by simp
  moreover have "max v (lat (int i) (int k)) \<le> bottleneck lat ls" if ls: "composition (Suc s) k ls" for ls
  proof -
    obtain xs j where x: "ls = xs @ [int k - int j]" "composition s j xs" "s \<le> j" "j < k" by (rule composition_snocE [OF ls])
    obtain w where w: "F t s j = Fin w" "w \<le> bottleneck lat xs" using row [OF x(3,4)] x(2) by blast
    have "F t (Suc s) k \<le> max (F t s j) (Fin (lat (int j) (int k)))" using cell x(3,4) by (simp add: cell_ok_def)
    then have "max v (lat (int i) (int k)) \<le> max w (lat (int j) (int k))" unfolding i(4) w(1) v(1) by simp
    also have "\<dots> \<le> max (bottleneck lat xs) (lat (int j) (int k))" by (rule max.mono [OF w(2) order_refl])
    also have "\<dots> = bottleneck lat ls"
      using x(2) Suc.hyps unfolding x(1) bottleneck_snoc by (auto simp: composition_def)
    finally show ?thesis .
  qed
  ultimately show ?case
    unfolding bs using i(4) v(1-3) composition_snoc [OF v(2) i(2)] by (simp add: Let_def)
qed

lemma boundaries_optimal:
  assumes "1 \<le> pp" "pp \<le> n"
  shows "\<exists>v. F (partition_tables lat n pp) pp n = Fin v \<and> (\<forall>ls. composition pp n ls \<longrightarrow> v \<le> bottleneck lat ls) \<and>
     composition pp n (map (\<lambda>(s, e). e - s) (boundaries lat n pp)) \<and>
     bottleneck lat (map (\<lambda>(s, e). e - s) (boundaries lat n pp)) = v"
  using cell_optimal [OF partition_tables_ok [OF assms(1), of lat n] assms(1) order_refl assms(2) order_refl]
  by (auto simp: Let_def boundaries_def)

section \<open>Lemmas: the optimizer returns\<close>

definition alpa_ok :: "alpa_config \<Rightarrow> string \<Rightarrow> bool" where
  "alpa_ok c gpu \<longleftrightarrow> shape_ok (a_shape c) \<and> gpu \<in> set (dict_keys GPU_SPEC) \<and> 0 < a_tp_size c \<and> a_tp_size c \<le> 8 \<and>
     0 < a_p2p_bandwidth c \<and> 0 < a_expected_input_len c \<and> 0 < a_expected_output_len c"

lemma gpu_specs: "dict_get GPU_SPEC gpu = Some g \<Longrightarrow> 0 < memory_size g \<and> 0 < FLOPS g \<and> 0 < memory_bandwidth g"
  by (auto simp: GPU_SPEC_def split: if_splits)

lemma alpa_latencies:
  assumes "alpa_ok c gpu"
  shows "\<exists>l. per_layer_lat_sec c gpu = Inr l" and "\<exists>h. lm_head_lat_sec c gpu = Inr h"
    and "\<exists>g. dict_get GPU_SPEC gpu = Some g" and "\<exists>w. get_memory_size_decoder_layer_weight_bytes (a_shape c) = Inr w"
proof -
  from assms show g: "\<exists>g. dict_get GPU_SPEC gpu = Some g"
    unfolding alpa_ok_def by (metis domIff dom_map_of_conv_image_fst option.collapse set_map)
  define s where "s = \<lparr>s_gpu = gpu, s_gpus = a_tp_size c, s_bandwidth = a_p2p_bandwidth c, s_layers = 1, s_first = True, s_final = True, s_head = True\<rparr>"
  have s: "stage_ok s" using assms g gpu_specs [of gpu] by (auto simp: stage_ok_def alpa_ok_def s_def)
  have fields: "gpu = s_gpu s" "a_tp_size c = s_gpus s" "a_p2p_bandwidth c = s_bandwidth s" by (simp_all add: s_def)
  have ok: "shape_ok (a_shape c)" "0 < a_expected_input_len c" "0 < a_expected_output_len c" using assms by (simp_all add: alpa_ok_def)
  have "posE (get_latency (a_shape c) 0 1 gpu (a_tp_size c) (a_p2p_bandwidth c) (a_expected_input_len c) (a_expected_output_len c) N)" for N
    unfolding get_latency_def Let_def fields using s ok by (simp, intro est_intros posE_nonneg [OF decoding_computation_pos]) auto
  from this [of "int (a_num_layers c) + 1"] show "\<exists>l. per_layer_lat_sec c gpu = Inr l"
    unfolding posE_def per_layer_lat_sec_def by (elim exE conjE) (simp only: bindE_simps, intro exI, rule refl)
  have "nonnegE (plusE (get_prefill_compute_logit_latency (a_shape c) gpu (a_tp_size c) 1)
       (get_decoding_compute_logit_latency (a_shape c) gpu (a_tp_size c) (a_expected_output_len c) 1))"
    unfolding fields using s ok by (intro est_intros) auto
  then show "\<exists>h. lm_head_lat_sec c gpu = Inr h" 
    unfolding nonnegE_def lm_head_lat_sec_def by (elim exE conjE) (simp only: bindE_simps, intro exI, rule refl)
  obtain d where "effective_head_dim (a_shape c) = Inr d" using shape_okD [OF ok(1)] by metis
  with ok(1) show "\<exists>w. get_memory_size_decoder_layer_weight_bytes (a_shape c) = Inr w"
    by (simp add: get_memory_size_decoder_layer_weight_bytes_def shape_ok_def Let_def)
qed

lemma keys_fold_dict_set: "set (dict_keys (foldl (\<lambda>d x. dict_set (k x) (v x) d) d xs)) = set (dict_keys d) \<union> k ` set xs"
  by (induction xs arbitrary: d) (auto simp: set_keys_dict_set simp del: set_map)

lemma build_profiling_result:
  assumes "alpa_ok c gpu"
  obtains prof where "build_profiling_result c gpu n = Inr prof" and "set (dict_keys prof) = config_key c ` {1..n}"
    and "\<forall>k d. dict_get prof k = Some d \<longrightarrow> dict_get (lm_latency d) 1 \<noteq> None"
proof -
  obtain l h w where v: "per_layer_lat_sec c gpu = Inr l" "lm_head_lat_sec c gpu = Inr h"
    "get_memory_size_decoder_layer_weight_bytes (a_shape c) = Inr w" using alpa_latencies [OF assms] by blast
  let ?e = "profile_entry c (stage_lat l h (int (a_num_layers c))) w"
  let ?prof = "foldl (\<lambda>d pp. dict_set (config_key c pp) (?e pp) d) [] [1..<n + 1]"
  have "dict_get (foldl (\<lambda>d pp. dict_set (config_key c pp) (?e pp) d) [] ns) k = Some d \<Longrightarrow> \<exists>pp. d = ?e pp" for k d ns
    by (induction ns rule: rev_induct) (auto simp: map_of_dict_set split: if_splits)
  then have "\<forall>k d. dict_get ?prof k = Some d \<longrightarrow> dict_get (lm_latency d) 1 \<noteq> None"
    by (fastforce simp: profile_entry_def Let_def)
  moreover have "build_profiling_result c gpu n = Inr ?prof"
    using assms v by (simp add: build_profiling_result_def alpa_ok_def)
  moreover have "set (dict_keys ?prof) = config_key c ` {1..n}"
    unfolding keys_fold_dict_set by (auto simp del: upt_Suc)
  ultimately show thesis by (intro that)
qed

lemma max_config_mem:
  assumes "cs \<noteq> []"
  obtains x where "max_config cs = Inr x" "x \<in> set cs"
  using that assms largest.pick_mem [where key = pc_pp] by (cases cs) auto

lemma chosen_config_range:
  assumes "set (dict_keys prof) = config_key c ` {1..n}" "1 \<le> n"
  obtains pp where "chosen_config c n prof pl = Inr (config_key c pp)" "1 \<le> pp" "pp \<le> n"
proof -
  have "dict_keys prof \<noteq> []" using assms by auto
  then obtain x where x: "max_config (dict_keys prof) = Inr x" "x \<in> set (dict_keys prof)" by (rule max_config_mem)
  define y where "y = (case filter (\<lambda>(gc, gm). 0 \<in> set gm) (zip (fst pl) (snd pl)) of [] \<Rightarrow> config_key c n | (gc, gm) # _ \<Rightarrow> gc)"
  have eq: "chosen_config c n prof pl = Inr (if dict_get prof y = None then x else y)"
    using x(1) unfolding chosen_config_def Let_def y_def [symmetric] by simp
  have "(if dict_get prof y = None then x else y) \<in> set (dict_keys prof)"
    using x(2) by (auto simp: map_of_eq_None_iff)
  then obtain pp where "(if dict_get prof y = None then x else y) = config_key c pp" "pp \<in> {1..n}" unfolding assms(1) by blast
  with eq that [of pp] show thesis by simp
qed

lemma single_request_latency_sec:
  assumes "set (dict_keys prof) = config_key c ` {1..n}" "1 \<le> n" "\<forall>k d. dict_get prof k = Some d \<longrightarrow> dict_get (lm_latency d) 1 \<noteq> None"
  shows "\<exists>l. single_request_latency_sec c prof = Inr l"
proof -
  have "config_key c 1 \<in> set (dict_keys prof)" unfolding assms(1) using assms(2) by simp
  then obtain d where d: "dict_get prof (config_key c 1) = Some d"
    by (metis domIff dom_map_of_conv_image_fst option.collapse set_map)
  with assms(3) obtain ls where "dict_get (lm_latency d) 1 = Some ls" by blast
  with d show ?thesis by (simp add: single_request_latency_sec_def lookupE_def)
qed

text \<open>What the search is asked: one model with a profile for every number of stages.\<close>

lemma alpaserve_inputs_ok:
  assumes "alpa_ok c gpu" "1 \<le> num_stage"
  obtains prof g lat where "dict_get GPU_SPEC gpu = Some g" "build_profiling_result c gpu num_stage = Inr prof"
    "set (dict_keys prof) = config_key c ` {1..num_stage}"
    "alpaserve_inputs gpu num_stage c = Inr (prof,
       [\<lparr>md_name = ''model'', md_slo = lat * 10, md_rate = or_default (a_rate c) (552 / 100), md_cv = 1, md_para_dict = prof\<rparr>],
       \<lparr>num_devices = int num_stage * a_tp_size c, mem_budget = of_int (memory_size g) * 10 ^ 6 * or_default (a_gpu_mem_utilization c) (9 / 10),
        num_devices_per_node = a_tp_size c\<rparr>)"
proof -
  obtain g where g: "dict_get GPU_SPEC gpu = Some g" using alpa_latencies [OF assms(1)] by blast
  obtain prof where prof: "build_profiling_result c gpu num_stage = Inr prof" "set (dict_keys prof) = config_key c ` {1..num_stage}"
    "\<forall>k d. dict_get prof k = Some d \<longrightarrow> dict_get (lm_latency d) 1 \<noteq> None" by (rule build_profiling_result [OF assms(1), of num_stage])
  obtain lat where lat: "single_request_latency_sec c prof = Inr lat" using single_request_latency_sec [OF prof(2) assms(2) prof(3)] by blast
  show thesis by (rule that [OF g prof(1,2)]) (simp add: alpaserve_inputs_def lookupE_def g prof(1) lat)
qed

lemma alpaserve_result_ok:
  assumes "alpa_ok c gpu" "1 \<le> num_stage" "num_stage \<le> a_num_layers c" "set (dict_keys prof) = config_key c ` {1..num_stage}"
  shows "\<exists>per_layer lm_head v layers pp. per_layer_lat_sec c gpu = Inr per_layer \<and> lm_head_lat_sec c gpu = Inr lm_head \<and>
     alpaserve_result gpu num_stage c prof pl = Inr (Fin (v * 1000), layers, config_key c pp) \<and>
     1 \<le> pp \<and> pp \<le> num_stage \<and> composition pp (a_num_layers c) layers \<and>
     v = bottleneck (stage_lat per_layer lm_head (int (a_num_layers c))) layers \<and>
     (\<forall>ls. composition pp (a_num_layers c) ls \<longrightarrow> v \<le> bottleneck (stage_lat per_layer lm_head (int (a_num_layers c))) ls)"
proof -
  obtain l h where v: "per_layer_lat_sec c gpu = Inr l" "lm_head_lat_sec c gpu = Inr h" using alpa_latencies [OF assms(1)] by blast
  obtain pp where pp: "chosen_config c num_stage prof pl = Inr (config_key c pp)" "1 \<le> pp" "pp \<le> num_stage"
    by (rule chosen_config_range [OF assms(4,2)])
  let ?lat = "stage_lat l h (int (a_num_layers c))" and ?n = "a_num_layers c"
  have "pp \<le> ?n" using pp(3) assms(3) by simp
  obtain w where w: "F (partition_tables ?lat ?n pp) pp ?n = Fin w" "\<forall>ls. composition pp ?n ls \<longrightarrow> w \<le> bottleneck ?lat ls"
    "composition pp ?n (map (\<lambda>(s, e). e - s) (boundaries ?lat ?n pp))" "bottleneck ?lat (map (\<lambda>(s, e). e - s) (boundaries ?lat ?n pp)) = w"
    using boundaries_optimal [OF pp(2) \<open>pp \<le> ?n\<close>] by blast
  have "alpaserve_result gpu num_stage c prof pl =
      Inr (Fin (w * 1000), map (\<lambda>(s, e). e - s) (boundaries ?lat ?n pp), config_key c pp)"
    using v pp(1) w(1) by (simp add: alpaserve_result_def config_key_def Let_def)
  with v pp(2,3) w(2-4) show ?thesis by blast
qed

section \<open>Properties\<close>

text \<open>
  The AlpaServe baseline finds an optimal split. Whatever placement the search of the library
  returns, for at most as many stages as layers the optimizer returns a number of stages within
  the limit, a split of all layers into that many stages with at least one layer each, and the
  latency of the slowest stage in milliseconds; no other split into as many stages has a faster
  slowest stage.
\<close>

theorem alpaserve_optimal:
  assumes "alpa_ok c gpu" "1 \<le> num_stage" "num_stage \<le> a_num_layers c" "\<And>models env. \<exists>pl. solve_placement models env = Some (Inr pl)"
  shows "\<exists>per_layer lm_head v layers pp. per_layer_lat_sec c gpu = Inr per_layer \<and> lm_head_lat_sec c gpu = Inr lm_head \<and>
     alpaserve_optimize solve_placement gpu num_stage c = Some (Inr (Fin (v * 1000), layers, config_key c pp)) \<and>
     1 \<le> pp \<and> pp \<le> num_stage \<and> composition pp (a_num_layers c) layers \<and>
     v = bottleneck (stage_lat per_layer lm_head (int (a_num_layers c))) layers \<and>
     (\<forall>ls. composition pp (a_num_layers c) ls \<longrightarrow> v \<le> bottleneck (stage_lat per_layer lm_head (int (a_num_layers c))) ls)"
proof -
  obtain prof models env where inp: "alpaserve_inputs gpu num_stage c = Inr (prof, models, env)"
    and keys: "set (dict_keys prof) = config_key c ` {1..num_stage}" using alpaserve_inputs_ok [OF assms(1,2)] by metis
  obtain pl where pl: "solve_placement models env = Some (Inr pl)" using assms(4) by blast
  show ?thesis
    using alpaserve_result_ok [OF assms(1-3) keys, of pl] inp pl by (simp add: alpaserve_optimize_def bindD_def)
qed

definition small_alpa :: alpa_config where
  "small_alpa = \<lparr>a_shape = small_shape, a_num_layers = 3, a_expected_input_len = 5, a_expected_output_len = 3, a_tp_size = 2,
     a_p2p_bandwidth = 10000, a_gpu_mem_utilization = None, a_rate = None\<rparr>"

theorem alpaserve_optimal_witness:
  "\<exists>v layers pp. alpaserve_optimize (\<lambda>_ _. Some (Inr ([], []))) ''T4'' 2 small_alpa = Some (Inr (Fin (v * 1000), layers, config_key small_alpa pp)) \<and>
     pp \<le> 2 \<and> composition pp 3 layers"
proof -
  have "alpa_ok small_alpa ''T4''" using small_ok(1) by (simp add: alpa_ok_def small_alpa_def GPU_SPEC_def)
  from alpaserve_optimal [OF this, of 2 "\<lambda>_ _. Some (Inr ([], []))"] show ?thesis by (auto simp: small_alpa_def)
qed

lemma sum_stage_weight_mem:
  assumes "\<forall>l \<in> set ls. 0 < l" "ls \<noteq> []" "a + sum_list ls = n"
  shows "sum_list (stage_weight_mem w e tp n is_first a ls) =
    w * of_int (sum_list ls) / tp + (if is_first then e / tp else 0) + e / tp"
  using assms
proof (induction ls arbitrary: a is_first)
  case (Cons l ls)
  show ?case
  proof (cases "ls = []")
    case False
    have "0 < sum_list ls" using Cons.prems(1) False by (cases ls) (auto intro!: add_pos_nonneg sum_list_nonneg simp: less_imp_le)
    then have "a + l \<noteq> n" using Cons.prems(3) by simp
    moreover have "sum_list (stage_weight_mem w e tp n False (a + l) ls) = w * of_int (sum_list ls) / tp + e / tp"
      using Cons.IH [of "a + l" False] Cons.prems False by (simp add: add.assoc)
    ultimately show ?thesis by (simp add: add_divide_distrib distrib_left)
  qed (use Cons.prems in simp)
qed simp

text \<open>
  The weights in the profile are the weights of the model. For at most as many stages as layers
  the weights of all stages of a profile entry together, on all GPUs of a stage, are those of all
  layers, the embedding and the head.
\<close>

theorem profile_weights_complete:
  assumes "1 \<le> pp" "pp \<le> a_num_layers c"
  shows "sum_list (lm_weight_mem (profile_entry c lat w pp)) * of_int (a_tp_size c) =
     (if a_tp_size c = 0 then 0
      else of_int (w * int (a_num_layers c) + 2 * get_memory_size_embedding_or_lm_head_weight_bytes (a_shape c)))"
proof -
  let ?ls = "map (\<lambda>(s, e). e - s) (boundaries lat (a_num_layers c) pp)"
  have "composition pp (a_num_layers c) ?ls" using boundaries_optimal [OF assms] by blast
  then have "\<forall>l \<in> set ?ls. 0 < l" "?ls \<noteq> []" "0 + sum_list ?ls = int (a_num_layers c)" using assms(1) by (auto simp: composition_def)
  from sum_stage_weight_mem [OF this] \<open>0 + sum_list ?ls = _\<close> show ?thesis
    by (simp add: profile_entry_def Let_def distrib_right)
qed

theorem profile_weights_complete_witness:
  "sum_list (lm_weight_mem (profile_entry small_alpa (\<lambda>a b. of_int (b - a)) 100 2)) * 2 = 100 * 3 + 2 * (64 * 16 * 2)"
  using profile_weights_complete [of 2 small_alpa "\<lambda>a b. of_int (b - a)" 100]
  by (simp add: small_alpa_def small_shape_def get_memory_size_embedding_or_lm_head_weight_bytes_def)

text \<open>
  With more stages than layers there is no split; the table then holds \<open>-1\<close> and the boundaries are
  read from the wrong end of a row, so a stage with a negative number of layers results.
\<close>

lemma too_many_stages: "map (\<lambda>(s, e). e - s) (boundaries lat 1 2) = [- 1, 2]"
  by (simp add: boundaries_def partition_tables_def fill_row_def first_row_def backtrack.simps [of _ _ 2] backtrack.simps [of _ _ "Suc 0"] row_get_def)

end
