(* ===== verification/GroupConfigs.thy ===== *)
theory GroupConfigs
  imports AlpaServe
begin

text \<open>
  The group configurations that the search of \<^verbatim>\<open>ModelPlacement/alpaserve_lib\<close> tries: the number
  functions of \<open>util.py\<close> (divisors, powers of two, binary decomposition, partitions of the devices) and
  the enumerations of \<open>ModelParallelismSearch\<close> in \<open>placement_policy/model_parallelism.py\<close>. The lemmas show what
  each function lists, and that every enumerated placement uses each device exactly once.
\<close>

section \<open>Numbers\<close>

text \<open>\<open>int(math.sqrt(n))\<close>, counting up.\<close>

function int_sqrt_from :: "int \<Rightarrow> int \<Rightarrow> int" where
  "int_sqrt_from k n = (if 0 \<le> k \<and> (k + 1) * (k + 1) \<le> n then int_sqrt_from (k + 1) n else k)"
  by auto
termination
proof (relation "measure (\<lambda>(k, n). nat (n - k))")
  fix k n :: int
  assume "0 \<le> k \<and> (k + 1) * (k + 1) \<le> n"
  then have "k + 1 \<le> (k + 1) * (k + 1)" "(k + 1) * (k + 1) \<le> n" by (auto simp: algebra_simps)
  then have "k + 1 \<le> n" by (rule order_trans)
  then show "((k + 1, n), k, n) \<in> measure (\<lambda>(k, n). nat (n - k))" by auto
qed simp

declare int_sqrt_from.simps [simp del]

definition int_sqrt :: "int \<Rightarrow> int" where
  "int_sqrt n = int_sqrt_from 0 n"

text \<open>\<open>get_factors\<close>: an odd number has odd divisors only; reducing an empty sequence raises.\<close>

definition get_factors :: "int \<Rightarrow> int list py" where
  "get_factors n =
     (if n < 0 then Inl ValueError else
      let pairs = concat (map (\<lambda>i. [i, n div i])
        (filter (\<lambda>i. (n mod 2 = 0 \<or> i mod 2 = 1) \<and> n mod i = 0) [1..int_sqrt n])) in
      if pairs = [] then Inl TypeError else Inr (sort (remdups pairs)))"

definition is_valid_size :: "int \<Rightarrow> int \<Rightarrow> bool" where
  "is_valid_size n i \<longleftrightarrow> i \<le> n mod 8 \<or> (n - i) mod 8 = 0 \<or> n mod 8 = 0"

function get_partitions :: "int \<Rightarrow> int \<Rightarrow> int list list" where
  "get_partitions n k =
     (if k = 1 then [[n]]
      else concat (map (\<lambda>i. if is_valid_size n i then map (\<lambda>p. p @ [i]) (get_partitions (n - i) (k - 1)) else []) [1..n - 1]))"
  by auto
termination by (relation "measure (\<lambda>(n, k). nat n)") auto

declare get_partitions.simps [simp del]

text \<open>The powers of two from \<open>i\<close> up to \<open>n\<close>.\<close>

function powers_upto :: "int \<Rightarrow> int \<Rightarrow> int list" where
  "powers_upto i n = (if 0 < i \<and> i * 2 \<le> n then i # powers_upto (i * 2) n else [i])"
  by auto
termination by (relation "measure (\<lambda>(i, n). nat (n - i))") auto

declare powers_upto.simps [simp del]

definition get2tok :: "int \<Rightarrow> int list py" where
  "get2tok n = bindE (assertE (0 < n) AssertionError) (\<lambda>_.
     let ret = powers_upto 1 n in Inr (if List.last ret \<noteq> n then ret @ [n] else ret))"

function decompose_from :: "int \<Rightarrow> int \<Rightarrow> int list" where
  "decompose_from i n =
     (if 0 < n then (if n mod 2 = 1 then [i] else []) @ decompose_from (i * 2) (n div 2) else [])"
  by auto
termination by (relation "measure (\<lambda>(i, n). nat n)") auto

declare decompose_from.simps [simp del]

definition decompose2tok :: "int \<Rightarrow> int list" where
  "decompose2tok n = decompose_from 1 n"

section \<open>Enumerations\<close>

record mp_search =
  max_bs :: int
  max_pp :: int
  max_op :: int
  beam_size :: nat
  use_evo_search :: bool
  use_separation :: bool

definition default_search :: mp_search where
  "default_search = \<lparr>max_bs = 1, max_pp = 8, max_op = 4, beam_size = 3, use_evo_search = False, use_separation = False\<rparr>"

definition modE :: "int \<Rightarrow> int \<Rightarrow> int py" where
  "modE a b = (if b = 0 then Inl ZeroDivisionError else Inr (a mod b))"

text \<open>Whether a group size is skipped: more than one node and not a whole number of nodes.\<close>

definition spills :: "int \<Rightarrow> int \<Rightarrow> bool py" where
  "spills group_size per_node =
     (if group_size > per_node then bindE (modE group_size per_node) (\<lambda>r. Inr (r \<noteq> 0)) else Inr False)"

text \<open>Equal groups of one shape, and single-operator pipelines of the given lengths for the rest.\<close>

definition empty_placement :: "int \<Rightarrow> int \<Rightarrow> int \<Rightarrow> int list \<Rightarrow> model_placement" where
  "empty_placement n_groups op pp rest =
     (replicate (nat n_groups) \<lparr>pc_dp = 1, pc_op = op, pc_pp = pp\<rparr> @ map (\<lambda>s. \<lparr>pc_dp = 1, pc_op = 1, pc_pp = s\<rparr>) rest,
      replicate (nat n_groups + length rest) [])"

definition shapes_of :: "mp_search \<Rightarrow> int \<Rightarrow> (int \<times> int) list py" where
  "shapes_of s group_size = bindE (get_factors group_size) (\<lambda>fs.
     Inr (filter (\<lambda>(op, pp). \<not> (max_pp s < pp \<or> max_op s < op)) (map (\<lambda>pp. (group_size div pp, pp)) fs)))"

definition uneven_of_size :: "mp_search \<Rightarrow> cluster_env \<Rightarrow> int \<Rightarrow> model_placement list py" where
  "uneven_of_size s env group_size =
     bindE (spills group_size (num_devices_per_node env)) (\<lambda>skip.
     if skip then Inr [] else
     bindE (shapes_of s group_size) (\<lambda>shapes.
     Inr (map (\<lambda>(op, pp). empty_placement (num_devices env div group_size) op pp (decompose2tok (num_devices env mod group_size))) shapes)))"

definition enumerate_group_configs_uneven :: "mp_search \<Rightarrow> cluster_env \<Rightarrow> model_placement list py" where
  "enumerate_group_configs_uneven s env =
     bindE (get2tok (num_devices env)) (\<lambda>group_sizes.
     bindE (mapE (uneven_of_size s env) group_sizes) (\<lambda>solss. Inr (concat solss)))"

definition even_of_size :: "mp_search \<Rightarrow> cluster_env \<Rightarrow> int \<Rightarrow> model_placement list py" where
  "even_of_size s env group_size =
     bindE (spills group_size (num_devices_per_node env)) (\<lambda>skip.
     if skip then Inr [] else
     bindE (shapes_of s group_size) (\<lambda>shapes.
     Inr (map (\<lambda>(op, pp). empty_placement (num_devices env div group_size) op pp []) shapes)))"

definition enumerate_group_configs :: "mp_search \<Rightarrow> cluster_env \<Rightarrow> model_placement list py" where
  "enumerate_group_configs s env =
     bindE (get_factors (num_devices env)) (\<lambda>group_sizes.
     bindE (mapE (even_of_size s env) group_sizes) (\<lambda>solss. Inr (concat solss)))"

section \<open>Lemmas: numbers\<close>

lemma int_sqrt_from:
  "0 \<le> k \<Longrightarrow> k * k \<le> n \<Longrightarrow>
     0 \<le> int_sqrt_from k n \<and> int_sqrt_from k n * int_sqrt_from k n \<le> n \<and> n < (int_sqrt_from k n + 1) * (int_sqrt_from k n + 1)"
proof (induction k n rule: int_sqrt_from.induct)
  case (1 k n)
  show ?case
  proof (cases "(k + 1) * (k + 1) \<le> n")
    case True
    with 1 show ?thesis by (subst (1 2 3 4 5) int_sqrt_from.simps) simp
  next
    case False
    then show ?thesis using 1(2,3) by (simp add: int_sqrt_from.simps [of k n])
  qed
qed

lemma int_sqrt: "0 \<le> n \<Longrightarrow> 0 \<le> int_sqrt n \<and> int_sqrt n * int_sqrt n \<le> n \<and> n < (int_sqrt n + 1) * (int_sqrt n + 1)"
  using int_sqrt_from [of 0 n] by (simp add: int_sqrt_def)

lemma small_or_cofactor_small:
  fixes d n :: int
  assumes "0 < n" "0 < d" "d dvd n"
  shows "d \<le> int_sqrt n \<or> n div d \<le> int_sqrt n"
proof (rule ccontr)
  assume "\<not> ?thesis"
  then have "int_sqrt n + 1 \<le> d" "int_sqrt n + 1 \<le> n div d" by simp_all
  moreover have "0 \<le> int_sqrt n" using int_sqrt [of n] assms(1) by simp
  ultimately have "(int_sqrt n + 1) * (int_sqrt n + 1) \<le> d * (n div d)" by (intro mult_mono) auto
  then have "(int_sqrt n + 1) * (int_sqrt n + 1) \<le> n" using assms(3) by simp
  then show False using int_sqrt [of n] assms(1) by simp
qed

lemma odd_divisor: "d dvd n \<Longrightarrow> n mod 2 \<noteq> 0 \<Longrightarrow> d mod 2 = (1::int)"
  by (metis dvd_trans dvd_eq_mod_eq_0 not_mod_2_eq_0_eq_1)

lemma cofactor:
  fixes d n :: int
  assumes "0 < n" "0 < d" "d dvd n"
  shows "0 < n div d" "n div d dvd n" "n div (n div d) = d"
  using assms by (auto simp: zero_less_mult_iff)

text \<open>The divisors are exactly the numbers up to the root that divide, and their cofactors.\<close>

lemma get_factors:
  assumes "0 < n"
  shows "\<exists>fs. get_factors n = Inr fs \<and> set fs = {d. 0 < d \<and> d dvd n} \<and> sorted fs \<and> distinct fs"
proof -
  define small where "small = filter (\<lambda>i. (n mod 2 = 0 \<or> i mod 2 = 1) \<and> n mod i = 0) [1..int_sqrt n]"
  define pairs where "pairs = concat (map (\<lambda>i. [i, n div i]) small)"
  have "(n mod 2 = 0 \<or> i mod 2 = 1) \<and> n mod i = 0 \<longleftrightarrow> i dvd n" for i
    using odd_divisor [of i n] unfolding dvd_eq_mod_eq_0 [of i n] by (cases "n mod 2 = 0") auto
  then have small: "set small = {d. 0 < d \<and> d \<le> int_sqrt n \<and> d dvd n}" by (auto simp: small_def)
  have pairs: "d \<in> set pairs \<longleftrightarrow> (\<exists>i \<in> set small. d = i \<or> d = n div i)" for d by (auto simp: pairs_def)
  have "set pairs = {d. 0 < d \<and> d dvd n}" (is "_ = ?D")
  proof (intro set_eqI iffI)
    fix d assume "d \<in> ?D"
    then have d: "0 < d" "d dvd n" by auto
    note co = cofactor [OF assms d]
    from small_or_cofactor_small [OF assms d] show "d \<in> set pairs"
    proof
      assume "n div d \<le> int_sqrt n"
      with co(1,2) have "n div d \<in> set small" unfolding small by simp
      with co(3) show ?thesis unfolding pairs by (intro bexI [of _ "n div d"]) auto
    qed (use d small pairs in auto)
  qed (use pairs small cofactor [OF assms] in auto)
  moreover have "pairs \<noteq> []" using calculation assms by (intro notI) (metis (no_types, lifting) dvd_refl empty_iff list.set(1) mem_Collect_eq)
  then have "get_factors n = Inr (sort (remdups pairs))" using assms by (simp add: get_factors_def Let_def pairs_def small_def)
  ultimately show ?thesis by simp
qed

text \<open>The powers of two up to \<open>n\<close>, and \<open>n\<close>.\<close>

lemma powers_upto:
  "0 < i \<Longrightarrow> i \<le> n \<Longrightarrow> powers_upto i n \<noteq> [] \<and> hd (powers_upto i n) = i \<and> List.last (powers_upto i n) \<le> n \<and>
     set (powers_upto i n) = {i * 2 ^ k | k. i * 2 ^ k \<le> n}"
proof (induction i n rule: powers_upto.induct)
  case (1 i n)
  show ?case
  proof (cases "i * 2 \<le> n")
    case True
    then have IH: "set (powers_upto (i * 2) n) = {i * 2 * 2 ^ k | k. i * 2 * 2 ^ k \<le> n}"
      "powers_upto (i * 2) n \<noteq> []" "List.last (powers_upto (i * 2) n) \<le> n" using 1 by auto
    have "{i * 2 ^ k | k. i * 2 ^ k \<le> n} = insert i {i * 2 * 2 ^ k | k. i * 2 * 2 ^ k \<le> n}" (is "?L = ?R")
    proof (intro set_eqI iffI)
      fix x assume "x \<in> ?L"
      then obtain k where "x = i * 2 ^ k" "i * 2 ^ k \<le> n" by blast
      then show "x \<in> ?R" by (cases k) auto
    next
      fix x assume "x \<in> ?R"
      then consider "x = i" | k where "x = i * 2 ^ Suc k" "i * 2 ^ Suc k \<le> n" by (auto simp: mult.assoc)
      then show "x \<in> ?L" using 1(3) by cases (force intro: exI [of _ "0::nat"], blast)
    qed
    with IH True 1(2) show ?thesis by (simp add: powers_upto.simps [of i n])
  next
    case False
    have "i * 2 ^ k \<le> n \<longleftrightarrow> k = 0" for k
    proof (cases k)
      case (Suc j)
      have "i * 2 \<le> i * 2 ^ Suc j" using 1(2) by simp
      with False have "\<not> i * 2 ^ Suc j \<le> n" using order_trans by blast
      with Suc show ?thesis by simp
    qed (use 1(3) in simp)
    with False 1 show ?thesis by (simp add: powers_upto.simps [of i n])
  qed
qed

lemma get2tok:
  assumes "0 < n"
  shows "\<exists>gs. get2tok n = Inr gs \<and> set gs = insert n {2 ^ k | k. 2 ^ k \<le> n}"
proof -
  note p = powers_upto [of 1 n]
  have "powers_upto 1 n \<noteq> []" using p assms by simp
  then have "List.last (powers_upto 1 n) \<in> set (powers_upto 1 n)" by (rule last_in_set)
  moreover have set: "set (powers_upto 1 n) = {2 ^ k | k. 2 ^ k \<le> n}" using p assms by simp
  ultimately have "n \<in> {2 ^ k | k. 2 ^ k \<le> n}" if "List.last (powers_upto 1 n) = n" using that by simp
  then show ?thesis using assms set by (simp add: get2tok_def Let_def) blast
qed

text \<open>The binary digits: distinct powers of two that add up.\<close>

lemma decompose_from:
  "0 < i \<Longrightarrow> 0 \<le> n \<Longrightarrow> sum_list (decompose_from i n) = i * n \<and> distinct (decompose_from i n) \<and>
     (\<forall>d \<in> set (decompose_from i n). \<exists>k. d = i * 2 ^ k)"
proof (induction i n rule: decompose_from.induct)
  case (1 i n)
  show ?case
  proof (cases "0 < n")
    case True
    then have IH: "sum_list (decompose_from (i * 2) (n div 2)) = i * 2 * (n div 2)"
      "distinct (decompose_from (i * 2) (n div 2))"
      "\<forall>d \<in> set (decompose_from (i * 2) (n div 2)). \<exists>k. d = i * 2 * 2 ^ k"
      using 1 by auto
    have "i * n = i * (n mod 2 + 2 * (n div 2))" by simp
    then have "i * n = i * (n mod 2) + i * 2 * (n div 2)" by (simp only: distrib_left mult.assoc)
    moreover have "n mod 2 = 0 \<or> n mod 2 = 1" by auto
    moreover have "\<exists>k. d = i * 2 ^ k" if "d \<in> set (decompose_from (i * 2) (n div 2))" for d
    proof -
      from bspec [OF IH(3) that] obtain k where "d = i * 2 * 2 ^ k" ..
      then have "d = i * 2 ^ Suc k" unfolding power_Suc mult.assoc .
      then show ?thesis ..
    qed
    moreover have "i \<notin> set (decompose_from (i * 2) (n div 2))"
    proof
      assume "i \<in> set (decompose_from (i * 2) (n div 2))"
      from bspec [OF IH(3) this] obtain k where "i = i * 2 * 2 ^ k" ..
      moreover have "i * 2 * 1 \<le> i * 2 * 2 ^ k" using 1(2) by (intro mult_left_mono) auto
      ultimately show False using 1(2) by simp
    qed
    moreover have "\<exists>k. i = i * 2 ^ k" by (intro exI [of _ "0::nat"]) simp
    ultimately show ?thesis using IH(1,2) True by (simp add: decompose_from.simps [of i n])
  next
    case False
    then show ?thesis using 1 by (simp add: decompose_from.simps [of i 0])
  qed
qed

lemma decompose2tok:
  assumes "0 \<le> n"
  shows "sum_list (decompose2tok n) = n" "distinct (decompose2tok n)" "d \<in> set (decompose2tok n) \<Longrightarrow> \<exists>k. d = 2 ^ k"
  using decompose_from [of 1 n] assms by (auto simp: decompose2tok_def)

lemma decompose2tok_le: "0 \<le> n \<Longrightarrow> d \<in> set (decompose2tok n) \<Longrightarrow> 0 < d \<and> d \<le> n"
proof -
  assume n: "0 \<le> n" and d: "d \<in> set (decompose2tok n)"
  have pos: "\<forall>x \<in> set (decompose2tok n). 0 \<le> x" using decompose2tok(3) [OF n] by fastforce
  obtain k where "d = 2 ^ k" using decompose2tok(3) [OF n d] ..
  moreover have "d \<le> sum_list (decompose2tok n)" using d pos by (intro member_le_sum_list) auto
  ultimately show ?thesis using decompose2tok(1) [OF n] by simp
qed

lemma mem_get_partitions:
  "p \<in> set (get_partitions n k) \<longleftrightarrow>
     (if k = 1 then p = [n] else \<exists>q i. p = q @ [i] \<and> 0 < i \<and> i < n \<and> is_valid_size n i \<and> q \<in> set (get_partitions (n - i) (k - 1)))"
  by (subst get_partitions.simps) auto

text \<open>The sizes of the parts from the last to the first: each is admissible for what was left.\<close>

fun valid_parts :: "int \<Rightarrow> int list \<Rightarrow> bool" where
  "valid_parts n [] = False"
| "valid_parts n [x] = (x = n)"
| "valid_parts n (i # ps) = (0 < i \<and> i < n \<and> is_valid_size n i \<and> valid_parts (n - i) ps)"

lemma sum_valid_parts: "valid_parts n ps \<Longrightarrow> sum_list ps = n \<and> ps \<noteq> [] \<and> (0 < n \<longrightarrow> (\<forall>p \<in> set ps. 0 < p))"
  by (induction n ps rule: valid_parts.induct) auto

lemma get_partitions_iff: "0 < k \<Longrightarrow> p \<in> set (get_partitions n (int k)) \<longleftrightarrow> length p = k \<and> valid_parts n (rev p)"
proof (induction k arbitrary: n p)
  case (Suc k)
  show ?case
  proof (cases "k = 0")
    case True
    then show ?thesis by (auto simp: mem_get_partitions length_Suc_conv)
  next
    case False
    then have IH: "q \<in> set (get_partitions m (int k)) \<longleftrightarrow> length q = k \<and> valid_parts m (rev q)" for q m using Suc.IH by simp
    have "int (Suc k) \<noteq> 1" "int (Suc k) - 1 = int k" using False by simp_all
    then have "p \<in> set (get_partitions n (int (Suc k))) \<longleftrightarrow>
        (\<exists>q i. p = q @ [i] \<and> 0 < i \<and> i < n \<and> is_valid_size n i \<and> length q = k \<and> valid_parts (n - i) (rev q))"
      by (subst mem_get_partitions) (simp only: if_False IH)
    also have "\<dots> \<longleftrightarrow> length p = Suc k \<and> valid_parts n (rev p)"
    proof (cases p rule: rev_cases)
      case (snoc q i)
      then show ?thesis using False by (cases "rev q") auto
    qed simp
    finally show ?thesis .
  qed
qed simp

section \<open>Lemmas: enumerations\<close>

lemma spills: "0 < per_node \<Longrightarrow> spills gs per_node = Inr (\<not> (gs \<le> per_node \<or> per_node dvd gs))"
  by (simp add: spills_def modE_def dvd_eq_mod_eq_0)

lemma shapes_of:
  assumes "0 < gs"
  shows "\<exists>shapes. shapes_of s gs = Inr shapes \<and>
    set shapes = {(op, pp). 0 < op \<and> 0 < pp \<and> op * pp = gs \<and> op \<le> max_op s \<and> pp \<le> max_pp s}"
proof -
  obtain fs where fs: "get_factors gs = Inr fs" "set fs = {d. 0 < d \<and> d dvd gs}" using get_factors [OF assms] by blast
  have "(\<exists>d. 0 < d \<and> d dvd gs \<and> op = gs div d \<and> pp = d) \<longleftrightarrow> 0 < op \<and> 0 < pp \<and> op * pp = gs" for op pp
    using assms cofactor(1) [OF assms, of pp] by (auto simp: zero_less_mult_iff)
  then show ?thesis using fs by (fastforce simp: shapes_of_def image_iff)
qed

definition devices_of :: "model_placement \<Rightarrow> int" where
  "devices_of pl = sum_list (map (\<lambda>c. pc_dp c * pc_op c * pc_pp c) (fst pl))"

lemma devices_empty_placement:
  assumes "0 < op" "0 < pp" "0 \<le> n"
  shows "devices_of (empty_placement (n div (op * pp)) op pp (decompose2tok (n mod (op * pp)))) = n"
proof -
  have gs: "0 < op * pp" using assms by simp
  then have "0 \<le> n div (op * pp)" using assms(3) by (simp add: pos_imp_zdiv_nonneg_iff)
  moreover have "sum_list (decompose2tok (n mod (op * pp))) = n mod (op * pp)" using gs by (intro decompose2tok(1)) simp
  ultimately show ?thesis using div_mult_mod_eq [of n "op * pp"]
    by (simp add: devices_of_def empty_placement_def sum_list_replicate o_def)
qed

text \<open>What the enumeration over given group sizes lists.\<close>

definition admissible :: "mp_search \<Rightarrow> cluster_env \<Rightarrow> int \<Rightarrow> int \<Rightarrow> bool" where
  "admissible s env op pp \<longleftrightarrow> 0 < op \<and> 0 < pp \<and> op \<le> max_op s \<and> pp \<le> max_pp s \<and>
     (op * pp \<le> num_devices_per_node env \<or> num_devices_per_node env dvd op * pp)"

lemma uneven_of_size:
  assumes "0 < gs" "0 < num_devices_per_node env"
  shows "\<exists>sols. uneven_of_size s env gs = Inr sols \<and> set sols =
    {empty_placement (num_devices env div gs) op pp (decompose2tok (num_devices env mod gs)) | op pp. op * pp = gs \<and> admissible s env op pp}"
proof -
  obtain shapes where "shapes_of s gs = Inr shapes"
    "set shapes = {(op, pp). 0 < op \<and> 0 < pp \<and> op * pp = gs \<and> op \<le> max_op s \<and> pp \<le> max_pp s}"
    using shapes_of [OF assms(1)] by blast
  then show ?thesis by (auto simp: uneven_of_size_def spills [OF assms(2)] admissible_def)
qed

lemma UN_by_product: "(\<Union>g \<in> G. {f g op pp | op pp. op * pp = g \<and> A op pp}) = {f (op * pp) op pp | op pp. A op pp \<and> op * pp \<in> G}"
  by blast

lemma enumerate_uneven:
  assumes "0 < num_devices env" "0 < num_devices_per_node env"
  shows "\<exists>sols. enumerate_group_configs_uneven s env = Inr sols \<and> set sols =
    {empty_placement (num_devices env div (op * pp)) op pp (decompose2tok (num_devices env mod (op * pp))) | op pp.
       admissible s env op pp \<and> (op * pp = num_devices env \<or> (\<exists>k. op * pp = 2 ^ k \<and> 2 ^ k \<le> num_devices env))}"
proof -
  obtain gs where gs: "get2tok (num_devices env) = Inr gs" "set gs = insert (num_devices env) {2 ^ k | k. 2 ^ k \<le> num_devices env}"
    using get2tok [OF assms(1)] by blast
  have "\<forall>g \<in> set gs. 0 < g" using gs(2) assms(1) by auto
  then have "\<forall>g \<in> set gs. \<exists>sols. uneven_of_size s env g = Inr sols \<and> set sols =
    {empty_placement (num_devices env div g) op pp (decompose2tok (num_devices env mod g)) | op pp. op * pp = g \<and> admissible s env op pp}"
    using uneven_of_size assms(2) by blast
  from bchoice [OF this] obtain sols where sols: "\<forall>g \<in> set gs. uneven_of_size s env g = Inr (sols g) \<and> set (sols g) =
    {empty_placement (num_devices env div g) op pp (decompose2tok (num_devices env mod g)) | op pp. op * pp = g \<and> admissible s env op pp}" ..
  then have "mapE (uneven_of_size s env) gs = Inr (map sols gs)" by (intro mapE_total) simp
  then have "enumerate_group_configs_uneven s env = Inr (concat (map sols gs))"
    using gs(1) by (simp add: enumerate_group_configs_uneven_def)
  moreover have "set (concat (map sols gs)) = (\<Union>g \<in> set gs. {empty_placement (num_devices env div g) op pp (decompose2tok (num_devices env mod g)) | op pp.
      op * pp = g \<and> admissible s env op pp})"
    using sols by auto
  then have "set (concat (map sols gs)) = {empty_placement (num_devices env div (op * pp)) op pp (decompose2tok (num_devices env mod (op * pp))) | op pp.
      admissible s env op pp \<and> op * pp \<in> set gs}"
    by (simp only: UN_by_product)
  ultimately show ?thesis using gs(2) by auto
qed

lemma enumerate_uneven_shape:
  assumes "0 < num_devices env" "0 < num_devices_per_node env" "1 \<le> max_pp s" "1 \<le> max_op s"
  shows "\<exists>sols. enumerate_group_configs_uneven s env = Inr sols \<and> sols \<noteq> [] \<and>
    (\<forall>pl \<in> set sols. devices_of pl = num_devices env \<and> snd pl = replicate (length (fst pl)) [] \<and>
       (\<forall>c \<in> set (fst pl). pc_dp c = 1 \<and> 1 \<le> pc_op c \<and> pc_op c \<le> max_op s \<and> 1 \<le> pc_pp c))"
proof -
  let ?n = "num_devices env"
  let ?pl = "\<lambda>op pp. empty_placement (?n div (op * pp)) op pp (decompose2tok (?n mod (op * pp)))"
  let ?P = "\<lambda>op pp. admissible s env op pp \<and> (op * pp = ?n \<or> (\<exists>k. op * pp = 2 ^ k \<and> 2 ^ k \<le> ?n))"
  obtain sols where sols: "enumerate_group_configs_uneven s env = Inr sols" "set sols = {?pl op pp | op pp. ?P op pp}"
    using enumerate_uneven [OF assms(1,2)] by blast
  have "?P 1 1" using assms by (auto simp: admissible_def intro: exI [of _ "0::nat"])
  then have "?pl 1 1 \<in> set sols" using sols(2) by blast
  then have "sols \<noteq> []" by auto
  moreover have "devices_of pl = ?n \<and> snd pl = replicate (length (fst pl)) [] \<and>
      (\<forall>c \<in> set (fst pl). pc_dp c = 1 \<and> 1 \<le> pc_op c \<and> pc_op c \<le> max_op s \<and> 1 \<le> pc_pp c)" if "pl \<in> set sols" for pl
  proof -
    from that sols(2) obtain op pp where p: "pl = ?pl op pp" "admissible s env op pp" by blast
    then have pos: "0 < op" "0 < pp" by (simp_all add: admissible_def)
    then have "0 \<le> ?n mod (op * pp)" by simp
    from decompose2tok_le [OF this] have "\<forall>d \<in> set (decompose2tok (?n mod (op * pp))). 1 \<le> d" by force
    then show ?thesis using p pos devices_empty_placement [OF pos, of ?n] assms(1,4)
      by (auto simp: empty_placement_def admissible_def)
  qed
  ultimately show ?thesis using sols(1) by blast
qed

section \<open>Properties\<close>

text \<open>\<open>get_factors\<close> of a positive number lists its divisors, each once and in ascending order, though it tries only the
  numbers up to the square root and for an odd number only every second one.\<close>

theorem get_factors_divisors:
  assumes "0 < n"
  shows "get_factors n = Inr (sorted_list_of_set {d. 0 < d \<and> d dvd n})"
proof -
  obtain fs where fs: "get_factors n = Inr fs" "set fs = {d. 0 < d \<and> d dvd n}" "sorted fs" "distinct fs"
    using get_factors [OF assms] by blast
  moreover have "sorted_list_of_set (set fs) = fs" using fs(3,4) by (rule sorted_list_of_set.idem_if_sorted_distinct)
  ultimately show ?thesis by simp
qed

theorem get_factors_divisors_witness:
  "get_factors 45 = Inr (sorted_list_of_set {d. 0 < d \<and> d dvd 45}) \<and> get_factors 45 = Inr [1, 3, 5, 9, 15, 45]"
proof -
  have "get_factors 45 = Inr [1, 3, 5, 9, 15, 45]" by code_simp
  then show ?thesis using get_factors_divisors [of 45] by simp
qed

text \<open>
  The partitions of \<open>n\<close> devices over \<open>k\<close> clusters are the lists of \<open>k\<close> positive sizes with sum \<open>n\<close> in
  which every size but the first is admissible for the devices left when it is cut off.
\<close>

theorem get_partitions_spec:
  assumes "0 < k" "0 < n"
  shows "p \<in> set (get_partitions n (int k)) \<longleftrightarrow> length p = k \<and> valid_parts n (rev p)"
    and "p \<in> set (get_partitions n (int k)) \<Longrightarrow> sum_list p = n \<and> (\<forall>x \<in> set p. 0 < x)"
  using get_partitions_iff [OF assms(1)] sum_valid_parts [of n "rev p"] assms(2) by auto

text \<open>The enumeration of the group configurations returns a list that is not empty. Every placement in it uses each of
  the devices exactly once, gives every group at least one stage and at most the allowed operator parallelism, and
  starts without models; and every shape within the limits whose size is a power of two or the whole cluster, and that
  fits into a node or fills whole nodes, is the shape of the leading groups of one of them.\<close>

theorem enumerate_group_configs_spec:
  assumes "0 < num_devices env" "0 < num_devices_per_node env" "1 \<le> max_pp s" "1 \<le> max_op s"
  shows "\<exists>sols. enumerate_group_configs_uneven s env = Inr sols \<and> sols \<noteq> [] \<and>
    (\<forall>pl \<in> set sols. devices_of pl = num_devices env \<and> snd pl = replicate (length (fst pl)) [] \<and>
       (\<forall>c \<in> set (fst pl). pc_dp c = 1 \<and> 1 \<le> pc_op c \<and> pc_op c \<le> max_op s \<and> 1 \<le> pc_pp c)) \<and>
    (\<forall>op pp. admissible s env op pp \<longrightarrow> op * pp = num_devices env \<or> (\<exists>k. op * pp = 2 ^ k \<and> 2 ^ k \<le> num_devices env) \<longrightarrow>
       (\<exists>pl \<in> set sols. take (nat (num_devices env div (op * pp))) (fst pl) =
          replicate (nat (num_devices env div (op * pp))) \<lparr>pc_dp = 1, pc_op = op, pc_pp = pp\<rparr>))"
proof -
  let ?n = "num_devices env"
  let ?pl = "\<lambda>op pp. empty_placement (?n div (op * pp)) op pp (decompose2tok (?n mod (op * pp)))"
  obtain sols where sols: "enumerate_group_configs_uneven s env = Inr sols"
    "set sols = {?pl op pp | op pp. admissible s env op pp \<and> (op * pp = ?n \<or> (\<exists>k. op * pp = 2 ^ k \<and> 2 ^ k \<le> ?n))}"
    using enumerate_uneven [OF assms(1,2)] by blast
  have "\<exists>pl \<in> set sols. take (nat (?n div (op * pp))) (fst pl) = replicate (nat (?n div (op * pp))) \<lparr>pc_dp = 1, pc_op = op, pc_pp = pp\<rparr>"
    if "admissible s env op pp" "op * pp = ?n \<or> (\<exists>k. op * pp = 2 ^ k \<and> 2 ^ k \<le> ?n)" for op pp
    using sols(2) that by (intro bexI [of _ "?pl op pp"]) (auto simp: empty_placement_def)
  moreover obtain sols' where "enumerate_group_configs_uneven s env = Inr sols'" "sols' \<noteq> []"
    "\<forall>pl \<in> set sols'. devices_of pl = ?n \<and> snd pl = replicate (length (fst pl)) [] \<and>
       (\<forall>c \<in> set (fst pl). pc_dp c = 1 \<and> 1 \<le> pc_op c \<and> pc_op c \<le> max_op s \<and> 1 \<le> pc_pp c)"
    using enumerate_uneven_shape [OF assms] by blast
  moreover from this sols(1) have "sols' = sols" by simp
  ultimately show ?thesis by blast
qed

theorem enumerate_group_configs_spec_witness:
  "\<exists>sols. enumerate_group_configs_uneven default_search \<lparr>num_devices = 12, mem_budget = 1, num_devices_per_node = 4\<rparr> = Inr sols \<and> sols \<noteq> [] \<and>
    (\<exists>pl \<in> set sols. take 1 (fst pl) = [\<lparr>pc_dp = 1, pc_op = 4, pc_pp = 3\<rparr>])"
proof -
  let ?env = "\<lparr>num_devices = 12, mem_budget = 1, num_devices_per_node = 4\<rparr> :: cluster_env"
  have a: "admissible default_search ?env 4 3" by code_simp
  show ?thesis
    using enumerate_group_configs_spec [of ?env default_search] a by (fastforce simp: default_search_def)
qed

section \<open>Limits of the enumeration\<close>

text \<open>A tensor parallel size above the limit is never enumerated, so that no group fits a profile for that size.\<close>

lemma large_tp_not_enumerated:
  assumes "0 < num_devices env" "0 < num_devices_per_node env" "1 \<le> max_op s" "enumerate_group_configs_uneven s env = Inr sols"
    "pl \<in> set sols" "c \<in> set (fst pl)" "max_op s < tp"
  shows "pc_op c \<noteq> tp"
proof -
  obtain op pp where "pl = empty_placement (num_devices env div (op * pp)) op pp (decompose2tok (num_devices env mod (op * pp)))"
    "admissible s env op pp" using enumerate_uneven [OF assms(1,2), of s] assms(4,5) by auto
  then show ?thesis using assms(3,6,7) by (auto simp: empty_placement_def admissible_def)
qed

text \<open>The groups of the remainder are not checked against the limit on the stages: 16 stages with a limit of 8.\<close>

lemma remainder_exceeds_max_pp:
  "\<exists>pl c. pl \<in> set (projr (enumerate_group_configs_uneven default_search \<lparr>num_devices = 48, mem_budget = 1, num_devices_per_node = 8\<rparr>)) \<and>
     c \<in> set (fst pl) \<and> pc_pp c = 16"
proof -
  let ?r = "enumerate_group_configs_uneven default_search \<lparr>num_devices = 48, mem_budget = 1, num_devices_per_node = 8\<rparr>"
  have "list_ex (\<lambda>pl. list_ex (\<lambda>c. pc_pp c = 16) (fst pl)) (projr ?r)" by code_simp
  then show ?thesis unfolding list_ex_iff by blast
qed

text \<open>The comment on \<open>get_partitions\<close> says that parts are powers of two; they are not.\<close>

lemma partition_not_power: "[13, 3] \<in> set (get_partitions 16 2)"
  by code_simp

end
