(* ===== verification/SimWorkload.thy ===== *)
theory SimWorkload
  imports GroupConfigs
begin

text \<open>
  Workloads of the simulator of \<^verbatim>\<open>ModelPlacement/alpaserve_lib\<close> (\<open>simulator/workload.py\<close>): requests and their arrival times,
  the deterministic and the gamma arrival process, splitting and merging of workloads, and the statistics of a run.
  The random numbers of numpy, the order in which \<open>np.argsort\<close> puts equal keys and the standard deviation are
  parameters. The attributes \<open>rate\<close> and \<open>cv\<close> of a workload, which are only printed, are left out.
\<close>

section \<open>Data\<close>

record sim_request =
  rq_model :: string
  rq_slo :: "py_float option"
  rq_idx :: int

record sim_workload =
  w_arrivals :: "py_float list"
  w_requests :: "sim_request list"

record per_model_stats =
  pm_name :: string
  pm_num_requests :: int
  pm_goodput :: py_float
  pm_throughput :: "xrat option"
  pm_latency_mean :: py_float
  pm_latency_std :: py_float
  pm_latency_p90 :: py_float
  pm_latency_p99 :: py_float
  pm_latency :: "py_float list"
  pm_starts :: "py_float list"
  pm_finishes :: "py_float list"

record sim_stats =
  st_per_model :: "per_model_stats list"
  st_group_num_requests :: "int list option"
  st_goodput :: py_float
  st_latency_mean :: py_float
  st_num_requests :: int
  st_request_rate :: "xrat option"

text \<open>Division of numpy floats: by zero it gives an infinity, or not a number (\<open>None\<close>).\<close>

definition np_divide :: "py_float \<Rightarrow> py_float \<Rightarrow> xrat option" where
  "np_divide a b =
     (if b \<noteq> 0 then Some (Fin (a / b)) else if 0 < a then Some PosInf else if a < 0 then Some NegInf else None)"

definition list_mean :: "py_float list \<Rightarrow> py_float" where
  "list_mean xs = sum_list xs / of_nat (length xs)"

text \<open>The constructor.\<close>

definition make_workload :: "py_float list \<Rightarrow> sim_request list \<Rightarrow> sim_workload py" where
  "make_workload arrivals requests =
     bindE (assertE (length arrivals = length requests) AssertionError) (\<lambda>_. Inr \<lparr>w_arrivals = arrivals, w_requests = requests\<rparr>)"

section \<open>Arrival processes\<close>

definition request_list :: "string \<Rightarrow> py_float option \<Rightarrow> nat \<Rightarrow> sim_request list" where
  "request_list name slo n = map (\<lambda>i. \<lparr>rq_model = name, rq_slo = slo, rq_idx = int i\<rparr>) [0..<n]"

definition deterministic_workload :: "py_float \<Rightarrow> string \<Rightarrow> py_float \<Rightarrow> py_float \<Rightarrow> py_float option \<Rightarrow> sim_workload py" where
  "deterministic_workload rate name start duration slo =
     (let n_requests = nat (py_trunc (duration * rate)) in
      bindE (divE 1 rate) (\<lambda>interval.
      make_workload (map (\<lambda>i. start + of_nat i * interval) [0..<n_requests]) (request_list name slo n_requests)))"

text \<open>\<open>GammaProcess\<close>: the shape and the scale of the gaps.\<close>

definition gamma_params :: "py_float \<Rightarrow> py_float \<Rightarrow> (py_float \<times> py_float) py" where
  "gamma_params rate cv = bindE (divE 1 (cv * cv)) (\<lambda>shape. bindE (divE (cv * cv) rate) (\<lambda>scale. Inr (shape, scale)))"

text \<open>
  The loop of \<open>generate_arrivals\<close>: \<open>draw i\<close> is the array that the \<open>i\<close>-th call of \<open>np.random.gamma\<close>
  returns. It may run forever.
\<close>

partial_function (option) gamma_loop :: "(nat \<Rightarrow> py_float list) \<Rightarrow> nat \<Rightarrow> py_float \<Rightarrow> nat \<Rightarrow> nat \<Rightarrow> py_float \<Rightarrow> py_float list \<Rightarrow> py_float list option" where
  [code]: "gamma_loop draw batch_size end_time calls pt cur ticks =
     (if cur < end_time
      then (if batch_size \<le> pt + 1
            then gamma_loop draw batch_size end_time (calls + 1) 0 (cur + draw (calls + 1) ! 0) (ticks @ [cur])
            else gamma_loop draw batch_size end_time calls (pt + 1) (cur + draw calls ! (pt + 1)) (ticks @ [cur]))
      else Some ticks)"

text \<open>\<open>np.random.gamma\<close> after \<open>np.random.seed\<close>, by seed, shape, scale, size and number of the call. It rejects a negative
  shape or scale.\<close>

type_synonym gamma_source = "int \<Rightarrow> py_float \<Rightarrow> py_float \<Rightarrow> nat \<Rightarrow> nat \<Rightarrow> py_float list"

definition gamma_batch :: "py_float \<Rightarrow> py_float \<Rightarrow> nat" where
  "gamma_batch rate duration = nat (max (py_trunc (rate * duration * (6 / 5))) 1)"

definition generate_arrivals :: "gamma_source \<Rightarrow> py_float \<Rightarrow> py_float \<Rightarrow> py_float \<Rightarrow> py_float \<Rightarrow> int \<Rightarrow> py_float list py option" where
  "generate_arrivals gamma rate cv start duration seed =
     bindD (Some (gamma_params rate cv)) (\<lambda>(shape, scale).
     if shape < 0 \<or> scale < 0 then Some (Inl ValueError)
     else let batch_size = gamma_batch rate duration; draw = gamma seed shape scale batch_size in
     map_option Inr (gamma_loop draw batch_size (start + duration) 0 0 (start + draw 0 ! 0) []))"

definition gamma_workload :: "gamma_source \<Rightarrow> py_float \<Rightarrow> py_float \<Rightarrow> string \<Rightarrow> py_float \<Rightarrow> py_float \<Rightarrow> py_float option \<Rightarrow> int \<Rightarrow> sim_workload py option" where
  "gamma_workload gamma rate cv name start duration slo seed =
     bindD (generate_arrivals gamma rate cv start duration seed) (\<lambda>ticks.
     Some (make_workload ticks (request_list name slo (length ticks))))"

section \<open>Slices and merging\<close>

text \<open>\<open>xs[i::k]\<close> for a positive step.\<close>

definition step_slice :: "nat \<Rightarrow> nat \<Rightarrow> 'a list \<Rightarrow> 'a list" where
  "step_slice i k xs = map (nth xs) (filter (\<lambda>j. i \<le> j \<and> (j - i) mod k = 0) [0..<length xs])"

definition split_round_robin :: "nat \<Rightarrow> sim_workload \<Rightarrow> sim_workload list" where
  "split_round_robin number w =
     map (\<lambda>i. \<lparr>w_arrivals = step_slice i number (w_arrivals w), w_requests = step_slice i number (w_requests w)\<rparr>) [0..<number]"

text \<open>The start indices of the segments of \<open>split_time_interval\<close>.\<close>

fun segment_starts :: "py_float \<Rightarrow> py_float \<Rightarrow> nat \<Rightarrow> py_float list \<Rightarrow> nat list" where
  "segment_starts interval start_time i [] = []"
| "segment_starts interval start_time i (a # as) =
     (if start_time + interval < a then i # segment_starts interval a (i + 1) as else segment_starts interval start_time (i + 1) as)"

definition slice_workload :: "nat \<Rightarrow> nat \<Rightarrow> sim_workload \<Rightarrow> sim_workload" where
  "slice_workload s e w = \<lparr>w_arrivals = py_slice s e (w_arrivals w), w_requests = py_slice s e (w_requests w)\<rparr>"

definition split_time_interval :: "py_float \<Rightarrow> sim_workload \<Rightarrow> sim_workload list" where
  "split_time_interval interval w =
     (case w_arrivals w of [] \<Rightarrow> []
      | a # _ \<Rightarrow> let starts = segment_starts interval a 0 (w_arrivals w); n = length (w_arrivals w) in
          map (\<lambda>(s, e). slice_workload s e w) (zip (0 # starts) (starts @ [n])))"

text \<open>\<open>Workload.merge\<close>: the requests in the order of their arrivals, numbered anew.\<close>

definition merge_workloads :: "(py_float list \<Rightarrow> nat list) \<Rightarrow> sim_workload list \<Rightarrow> sim_workload py" where
  "merge_workloads argsort ws =
     (case ws of [w] \<Rightarrow> Inr w
      | [] \<Rightarrow> Inl ValueError
      | _ \<Rightarrow> let arrivals = concat (map w_arrivals ws); requests = concat (map w_requests ws); order = argsort arrivals in
          make_workload (map (nth arrivals) order)
            (map (\<lambda>(i, j). (requests ! j)\<lparr>rq_idx := int i\<rparr>) (zip [0..<length order] order)))"

section \<open>Statistics\<close>

text \<open>
  \<open>Workload.compute_stats\<close>. Dividing by a time span of zero gives a float that has no integer part. The local variable \<open>requests\<close> is assigned only when some requests are skipped.
\<close>

definition skip_count :: "py_float \<Rightarrow> py_float list \<Rightarrow> int py" where
  "skip_count warmup arrivals =
     (let span = List.last arrivals - hd arrivals in
      if span = 0 then Inl (if warmup = 0 then ValueError else OverflowError) else Inr (py_trunc (warmup / span * of_nat (length arrivals))))"

definition inner_slice :: "nat \<Rightarrow> 'a list \<Rightarrow> 'a list" where
  "inner_slice skip xs = py_slice skip (length xs - skip) xs"

text \<open>The models by number of requests, each with the indices of its requests.\<close>

definition model_indices :: "sim_request list \<Rightarrow> (string, nat list) dict" where
  "model_indices rs = foldl (\<lambda>d i. let m = rq_model (rs ! i) in
     dict_set m ((case dict_get d m of None \<Rightarrow> [] | Some is \<Rightarrow> is) @ [i]) d) [] [0..<length rs]"

definition model_stats :: "(py_float list \<Rightarrow> py_float) \<Rightarrow> py_float list \<Rightarrow> py_float list \<Rightarrow> bool list \<Rightarrow> string \<Rightarrow> nat list \<Rightarrow> per_model_stats" where
  "model_stats np_std start finish good name is =
     (let served = filter (nth good) is; tmp_start = map (nth start) served; tmp_finish = map (nth finish) served;
          latency = (if served = [] then [0] else map2 (\<lambda>f s. f - s) tmp_finish tmp_start);
          sorted_latency = sort latency; n = length latency in
      \<lparr>pm_name = name, pm_num_requests = int (length is), pm_goodput = of_nat (length served) / of_nat (length is),
       pm_throughput = (if served = [] then Some (Fin 0) else np_divide (of_nat (length served)) (List.last tmp_start - hd tmp_start)),
       pm_latency_mean = list_mean latency, pm_latency_std = np_std latency,
       pm_latency_p90 = sorted_latency ! nat (py_trunc (9 / 10 * of_nat n)), pm_latency_p99 = sorted_latency ! nat (py_trunc (99 / 100 * of_nat n)),
       pm_latency = latency, pm_starts = tmp_start, pm_finishes = tmp_finish\<rparr>)"

definition compute_stats :: "(py_float list \<Rightarrow> py_float) \<Rightarrow> sim_workload \<Rightarrow> py_float list \<Rightarrow> py_float list \<Rightarrow> bool list \<Rightarrow> py_float \<Rightarrow> sim_stats py" where
  "compute_stats np_std w start finish good warmup =
     (if length (w_arrivals w) \<le> 1 then Inl UnboundLocalError else
      bindE (skip_count warmup (w_arrivals w)) (\<lambda>skip.
      if skip \<le> 0 then Inl UnboundLocalError else
      let k = nat skip; start = inner_slice k start; finish = inner_slice k finish; good = inner_slice k good;
          indices = model_indices (inner_slice k (w_requests w));
          names = sort_key (\<lambda>name. length (the (dict_get indices name))) (dict_keys indices) in
      if start = [] then Inl IndexError else
      Inr \<lparr>st_per_model = map (\<lambda>name. model_stats np_std start finish good name (the (dict_get indices name))) names,
        st_group_num_requests = None, st_goodput = of_nat (length (filter id good)) / of_nat (length good),
        st_latency_mean = list_mean (map2 (\<lambda>f s. f - s) finish start), st_num_requests = int (length start),
        st_request_rate = np_divide (of_nat (length start)) (List.last start - hd start)\<rparr>))"

section \<open>Lemmas: arrivals\<close>

text \<open>The gaps in the order in which the loop uses them, and the arrivals they give.\<close>

definition gap :: "(nat \<Rightarrow> py_float list) \<Rightarrow> nat \<Rightarrow> nat \<Rightarrow> py_float" where
  "gap draw batch_size i = draw (i div batch_size) ! (i mod batch_size)"

definition tick :: "(nat \<Rightarrow> py_float list) \<Rightarrow> nat \<Rightarrow> py_float \<Rightarrow> nat \<Rightarrow> py_float" where
  "tick draw batch_size start n = start + (\<Sum>i\<le>n. gap draw batch_size i)"

lemma tick_Suc: "tick draw b start (Suc n) = tick draw b start n + gap draw b (Suc n)"
  by (simp add: tick_def)

lemma next_index:
  assumes "0 < b"
  shows "b \<le> i mod b + 1 \<Longrightarrow> Suc i div b = i div b + 1 \<and> Suc i mod b = 0"
    and "\<not> b \<le> i mod b + 1 \<Longrightarrow> Suc i div b = i div b \<and> Suc i mod b = i mod b + 1"
  using assms mod_less_divisor [OF assms, of i] by (auto simp: div_Suc mod_Suc)

lemma gamma_loop_step:
  assumes "0 < b"
  shows "gamma_loop draw b e (n div b) (n mod b) (tick draw b start n) ticks =
    (if tick draw b start n < e
     then gamma_loop draw b e (Suc n div b) (Suc n mod b) (tick draw b start (Suc n)) (ticks @ [tick draw b start n])
     else Some ticks)"
proof (cases "b \<le> n mod b + 1")
  case True
  with next_index(1) [OF assms] show ?thesis
    by (subst gamma_loop.simps) (simp add: tick_Suc gap_def)
next
  case False
  with next_index(2) [OF assms] show ?thesis
    by (subst gamma_loop.simps) (simp add: tick_Suc gap_def)
qed

lemma gamma_loop_ends:
  assumes "0 < b" "\<forall>k < n. tick draw b start (m + k) < e" "e \<le> tick draw b start (m + n)"
  shows "gamma_loop draw b e (m div b) (m mod b) (tick draw b start m) ticks = Some (ticks @ map (tick draw b start) [m..<m + n])"
  using assms(2,3)
proof (induction n arbitrary: m ticks)
  case 0
  then show ?case by (subst gamma_loop_step [OF assms(1)]) simp
next
  case (Suc n)
  have "tick draw b start m < e" using Suc.prems(1) by (metis add_0_right zero_less_Suc)
  moreover have "\<forall>k < n. tick draw b start (Suc m + k) < e" using Suc.prems(1) by (metis Suc_mono add_Suc_shift)
  moreover have "[m..<m + Suc n] = m # [Suc m..<Suc m + n]" by (simp add: upt_conv_Cons)
  ultimately show ?case
    using Suc.IH [of "Suc m"] Suc.prems(2) by (subst gamma_loop_step [OF assms(1)]) simp
qed

text \<open>A loop that returned met a tick that is not before the end.\<close>

lemma gamma_loop_Some:
  assumes "0 < b" "gamma_loop draw b e (m div b) (m mod b) (tick draw b start m) ticks = Some r"
  shows "\<exists>n. e \<le> tick draw b start n"
proof -
  let ?P = "\<lambda>dr bs en calls pt cur (ts :: py_float list) (r :: py_float list). dr = draw \<longrightarrow> bs = b \<longrightarrow> en = e \<longrightarrow>
    (\<forall>m. calls = m div b \<longrightarrow> pt = m mod b \<longrightarrow> cur = tick draw b start m \<longrightarrow> (\<exists>n. e \<le> tick draw b start n))"
  have "?P draw b e (m div b) (m mod b) (tick draw b start m) ticks r"
  proof (rule gamma_loop.raw_induct [where P = ?P, OF _ assms(2)], intro impI allI)
    fix loop dr bs en calls pt cur ts r m
    assume IH: "\<And>dr bs en calls pt cur ts r. loop dr bs en calls pt cur ts = Some r \<Longrightarrow> ?P dr bs en calls pt cur ts r"
      and r: "(if cur < en then if bs \<le> pt + 1 then loop dr bs en (calls + 1) 0 (cur + dr (calls + 1) ! 0) (ts @ [cur])
          else loop dr bs en calls (pt + 1) (cur + dr calls ! (pt + 1)) (ts @ [cur]) else Some ts) = Some r"
      and eq: "dr = draw" "bs = b" "en = e" "calls = m div b" "pt = m mod b" "cur = tick draw b start m"
    show "\<exists>n. e \<le> tick draw b start n"
    proof (cases "cur < e")
      case True
      have "\<exists>ts'. loop draw b e (Suc m div b) (Suc m mod b) (tick draw b start (Suc m)) ts' = Some r"
        using r True next_index [OF assms(1), of m] unfolding eq
        by (cases "b \<le> m mod b + 1") (auto simp: tick_Suc gap_def)
      then show ?thesis using IH by blast
    qed (use eq in \<open>auto simp: not_less\<close>)
  qed
  then show ?thesis by blast
qed

lemma sorted_ticks: "(\<And>i. 0 \<le> gap draw b i) \<Longrightarrow> sorted (map (tick draw b start) [0..<n])"
proof (induction n)
  case (Suc n)
  have mono: "tick draw b start k \<le> tick draw b start n" if "k \<le> n" for k
    using that Suc.prems by (auto simp: tick_def intro!: sum_mono2)
  then show ?case using Suc by (auto simp: sorted_append)
qed simp

section \<open>Lemmas: splitting\<close>

lemma segment_starts: "sorted (i # segment_starts interval t i as) \<and> (\<forall>s \<in> set (segment_starts interval t i as). s < i + length as)"
proof (induction interval t i as rule: segment_starts.induct)
  case (2 interval t i a as)
  then show ?case by (cases "t + interval < a") fastforce+
qed simp

lemma concat_slices:
  assumes "sorted (s # cuts)" "\<forall>c \<in> set cuts. c \<le> length xs" "s \<le> length xs"
  shows "concat (map (\<lambda>(a, e). py_slice a e xs) (zip (s # cuts) (cuts @ [length xs]))) = drop s xs"
  using assms
proof (induction cuts arbitrary: s)
  case (Cons c cuts)
  have "py_slice s c xs @ drop c xs = drop s xs"
    using Cons.prems by (simp add: py_slice_def) (metis append_take_drop_id drop_drop le_add_diff_inverse2)
  then show ?case using Cons by simp
qed (simp add: py_slice_def)

section \<open>Lemmas: merging\<close>

text \<open>What \<open>np.argsort\<close> documents: the indices in an order that sorts the array. The order of equal keys is open.\<close>

definition argsort_ok :: "(py_float list \<Rightarrow> nat list) \<Rightarrow> bool" where
  "argsort_ok f \<longleftrightarrow> (\<forall>xs. mset (f xs) = mset [0..<length xs] \<and> sorted (map (nth xs) (f xs)))"

definition stable_argsort :: "py_float list \<Rightarrow> nat list" where
  "stable_argsort xs = sort_key (nth xs) [0..<length xs]"

lemma stable_argsort_ok: "argsort_ok stable_argsort"
  by (simp add: argsort_ok_def stable_argsort_def)

lemma argsort_facts:
  assumes "argsort_ok f"
  shows "mset (f xs) = mset [0..<length xs]" "set (f xs) = {..<length xs}" "length (f xs) = length xs" "distinct (f xs)" "sorted (map (nth xs) (f xs))"
proof -
  show m: "mset (f xs) = mset [0..<length xs]" "sorted (map (nth xs) (f xs))" using assms unfolding argsort_ok_def by simp_all
  show "set (f xs) = {..<length xs}" unfolding mset_eq_setD [OF m(1)] by auto
  show "length (f xs) = length xs" using mset_eq_length [OF m(1)] by simp
  show "distinct (f xs)" using mset_eq_imp_distinct_iff [OF m(1)] by simp
qed

definition rq_content :: "sim_request \<Rightarrow> string \<times> py_float option" where
  "rq_content r = (rq_model r, rq_slo r)"

definition w_content :: "sim_workload \<Rightarrow> (py_float \<times> string \<times> py_float option) multiset" where
  "w_content w = mset (zip (w_arrivals w) (map rq_content (w_requests w)))"

lemma zip_concat: "(\<And>x. x \<in> set xs \<Longrightarrow> length (f x) = length (g x)) \<Longrightarrow> zip (concat (map f xs)) (concat (map g xs)) = concat (map (\<lambda>x. zip (f x) (g x)) xs)"
  by (induction xs) simp_all

lemma mset_concat_map: "mset (concat (map f xs)) = (\<Sum>x\<leftarrow>xs. mset (f x))"
  by (induction xs) simp_all

lemma map_nth_perm: "mset is = mset [0..<length xs] \<Longrightarrow> mset (map (nth xs) is) = mset xs"
proof -
  assume "mset is = mset [0..<length xs]"
  then have "mset (map (nth xs) is) = mset (map (nth xs) [0..<length xs])" by simp
  then show ?thesis by (simp only: map_nth)
qed

text \<open>The generation of the arrivals as a loop over the ticks.\<close>

lemma generate_arrivals_loop:
  fixes gamma :: gamma_source and rate cv start duration :: py_float and seed :: int
  assumes "0 < rate" "cv \<noteq> 0"
  defines "b \<equiv> gamma_batch rate duration"
  defines "draw \<equiv> gamma seed (1 / (cv * cv)) (cv * cv / rate) b"
  shows "0 < b" "generate_arrivals gamma rate cv start duration seed =
      map_option Inr (gamma_loop draw b (start + duration) (0 div b) (0 mod b) (tick draw b start 0) [])"
proof -
  show b: "0 < b" by (simp add: b_def gamma_batch_def)
  have gap: "\<not> cv * cv / rate < 0" using assms(1) by (simp add: not_less)
  have par: "gamma_params rate cv = Inr (1 / (cv * cv), cv * cv / rate)" using assms(1,2) by (simp add: gamma_params_def divE_def)
  have "tick draw b start 0 = start + draw 0 ! 0" using b by (simp add: tick_def gap_def)
  then show "generate_arrivals gamma rate cv start duration seed =
      map_option Inr (gamma_loop draw b (start + duration) (0 div b) (0 mod b) (tick draw b start 0) [])"
    using gap by (simp add: generate_arrivals_def par bindD_def Let_def b_def draw_def)
qed

lemma generate_arrivals_run:
  fixes gamma :: gamma_source and rate cv start duration :: py_float and seed :: int
  assumes "0 < rate" "cv \<noteq> 0"
  defines "b \<equiv> gamma_batch rate duration"
  defines "t \<equiv> tick (gamma seed (1 / (cv * cv)) (cv * cv / rate) b) b start"
  assumes "\<forall>k < n. t k < start + duration" "start + duration \<le> t n"
  shows "generate_arrivals gamma rate cv start duration seed = Some (Inr (map t [0..<n]))"
  using gamma_loop_ends [OF generate_arrivals_loop(1) [OF assms(1,2), where duration = duration], of n _ start 0 "start + duration" "[]"] assms(5,6)
  unfolding generate_arrivals_loop(2) [OF assms(1,2)] by (simp add: t_def b_def)

section \<open>Properties\<close>

text \<open>C28. The generation of the arrivals of a gamma process with a positive rate ends exactly if some arrival is not before the end of the period.
  Then it returns all arrivals before the first such one, which are the sums of the gaps drawn so far, over all batches
  of random numbers. With a negative rate it raises \<open>ValueError\<close>.\<close>

theorem generate_arrivals_spec:
  fixes gamma :: gamma_source and rate cv start duration :: py_float and seed :: int
  assumes "rate \<noteq> 0" "cv \<noteq> 0"
  defines "b \<equiv> gamma_batch rate duration"
  defines "t \<equiv> tick (gamma seed (1 / (cv * cv)) (cv * cv / rate) b) b start"
  shows "if rate < 0 then generate_arrivals gamma rate cv start duration seed = Some (Inl ValueError)
    else ((\<exists>r. generate_arrivals gamma rate cv start duration seed = Some r) \<longleftrightarrow> (\<exists>n. start + duration \<le> t n)) \<and>
      (\<forall>n. (\<forall>k < n. t k < start + duration) \<and> start + duration \<le> t n \<longrightarrow>
        generate_arrivals gamma rate cv start duration seed = Some (Inr (map t [0..<n])))"
proof (cases "rate < 0")
  case True
  have "0 < cv * cv" using assms(2) by (auto simp: zero_less_mult_iff)
  then have "cv * cv / rate < 0" using True by (rule divide_pos_neg)
  then show ?thesis using True assms(1,2) by (simp add: generate_arrivals_def gamma_params_def divE_def bindD_def)
next
  case False
  then have rate: "0 < rate" using assms(1) by simp
  note run = generate_arrivals_run [OF rate assms(2), where duration = duration and gamma = gamma and seed = seed and start = start, folded b_def, folded t_def]
  note pos = generate_arrivals_loop(1) [OF rate assms(2), where duration = duration, folded b_def]
  note loop = generate_arrivals_loop(2) [OF rate assms(2), where duration = duration and gamma = gamma and seed = seed, folded b_def]
  have "(\<exists>r. generate_arrivals gamma rate cv start duration seed = Some r) \<longleftrightarrow> (\<exists>n. start + duration \<le> t n)"
  proof
    assume "\<exists>r. generate_arrivals gamma rate cv start duration seed = Some r"
    then obtain r where "gamma_loop (gamma seed (1 / (cv * cv)) (cv * cv / rate) b) b (start + duration) (0 div b) (0 mod b)
        (tick (gamma seed (1 / (cv * cv)) (cv * cv / rate) b) b start 0) [] = Some r" unfolding loop by auto
    then show "\<exists>n. start + duration \<le> t n" unfolding t_def by (rule gamma_loop_Some [OF pos])
  next
    assume "\<exists>n. start + duration \<le> t n"
    then obtain n where "start + duration \<le> t n" "\<forall>k < n. \<not> start + duration \<le> t k"
      unfolding exists_least_iff [of "\<lambda>n. start + duration \<le> t n"] by auto
    with run [of n] show "\<exists>r. generate_arrivals gamma rate cv start duration seed = Some r" by (auto simp: not_le)
  qed
  with run False show ?thesis by simp
qed

theorem generate_arrivals_spec_witness:
  "generate_arrivals (\<lambda>seed shape scale size call. replicate size 2) 1 1 0 5 0 = Some (Inr [2, 4])"
proof -
  let ?g = "\<lambda>(seed :: int) (shape :: py_float) (scale :: py_float) size (call :: nat). replicate size (2 :: py_float)"
  let ?t = "tick (\<lambda>call. replicate 6 2) 6 0"
  have b: "gamma_batch 1 5 = 6" by code_simp
  have t: "?t 0 = 2" "?t (Suc 0) = 4" "?t 2 = 6" by code_simp+
  have "?t k < 5" if "k < 2" for k
  proof -
    have "k = 0 \<or> k = Suc 0" using that by auto
    then show ?thesis using t by auto
  qed
  then have "\<forall>k < 2. ?t k < 5" by blast
  moreover have "5 \<le> ?t 2" using t by simp
  ultimately have "generate_arrivals ?g 1 1 0 5 0 = Some (Inr (map ?t [0..<2]))"
    using generate_arrivals_spec [of 1 1 ?g 0 5 0] b by simp
  then show ?thesis using t by (simp add: numeral_2_eq_2)
qed

text \<open>Merging workloads keeps every request with its arrival time, model and objective, puts them in the order of
  arrival, and numbers them by their positions.\<close>

theorem merge_workloads_spec:
  assumes "argsort_ok argsort" "2 \<le> length ws" "\<forall>w \<in> set ws. length (w_arrivals w) = length (w_requests w)"
  shows "\<exists>w. merge_workloads argsort ws = Inr w \<and> w_content w = (\<Sum>v\<leftarrow>ws. w_content v) \<and> sorted (w_arrivals w) \<and>
    map rq_idx (w_requests w) = map int [0..<length (w_requests w)]"
proof -
  define arr where "arr = concat (map w_arrivals ws)"
  define req where "req = concat (map w_requests ws)"
  let ?order = "argsort arr"
  note arg = argsort_facts [OF assms(1), of arr]
  have len: "length arr = length req"
    using assms(3) unfolding arr_def req_def length_concat map_map by (intro arg_cong [of _ _ sum_list] map_cong) auto
  obtain u v vs where ws: "ws = u # v # vs" using assms(2) by (cases ws; cases "tl ws") auto
  let ?rs = "map (\<lambda>(i, j). (req ! j)\<lparr>rq_idx := int i\<rparr>) (zip [0..<length ?order] ?order)"
  have merged: "merge_workloads argsort ws = Inr \<lparr>w_arrivals = map (nth arr) ?order, w_requests = ?rs\<rparr>"
    unfolding merge_workloads_def arr_def req_def by (subst ws) (simp add: make_workload_def Let_def ws)
  have ord: "?order ! i < length arr" if "i < length ?order" for i using nth_mem [OF that] unfolding arg(2) by simp
  have "map rq_content ?rs = map (nth (map rq_content req)) ?order"
    by (rule nth_equalityI) (simp_all add: rq_content_def ord flip: len)
  then have "zip (map (nth arr) ?order) (map rq_content ?rs) = map (nth (zip arr (map rq_content req))) ?order"
    by (intro nth_equalityI) (simp_all add: ord flip: len)
  then have "w_content \<lparr>w_arrivals = map (nth arr) ?order, w_requests = ?rs\<rparr> = mset (zip arr (map rq_content req))"
    unfolding w_content_def sim_workload.simps using arg(1) len by (simp only:) (intro map_nth_perm, simp)
  moreover have "zip arr (map rq_content req) = concat (map (\<lambda>w. zip (w_arrivals w) (map rq_content (w_requests w))) ws)"
    unfolding arr_def req_def map_concat map_map by (subst zip_concat) (use assms(3) in \<open>auto simp: o_def\<close>)
  then have "mset (zip arr (map rq_content req)) = (\<Sum>v\<leftarrow>ws. w_content v)" by (simp only: mset_concat_map w_content_def)
  moreover have "map rq_idx ?rs = map int [0..<length ?rs]" by (auto intro!: nth_equalityI)
  ultimately show ?thesis using arg(5) merged by (intro exI [of _ "\<lparr>w_arrivals = map (nth arr) ?order, w_requests = ?rs\<rparr>"]) simp
qed

theorem merge_workloads_spec_witness:
  "\<exists>w. merge_workloads stable_argsort
      [\<lparr>w_arrivals = [1, 3], w_requests = request_list ''a'' None 2\<rparr>, \<lparr>w_arrivals = [2], w_requests = request_list ''b'' None 1\<rparr>] = Inr w \<and>
    sorted (w_arrivals w)"
  using merge_workloads_spec [OF stable_argsort_ok,
    of "[\<lparr>w_arrivals = [1, 3], w_requests = request_list ''a'' None 2\<rparr>, \<lparr>w_arrivals = [2], w_requests = request_list ''b'' None 1\<rparr>]"]
  by (auto simp: request_list_def)

text \<open>Splitting by time loses no request and keeps their order.\<close>

lemma split_time_interval_concat:
  assumes "length (w_arrivals w) = length (w_requests w)"
  shows "concat (map w_arrivals (split_time_interval interval w)) = w_arrivals w"
    and "concat (map w_requests (split_time_interval interval w)) = w_requests w"
proof -
  have "concat (map w_arrivals (split_time_interval interval w)) = w_arrivals w \<and>
      concat (map w_requests (split_time_interval interval w)) = w_requests w"
  proof (cases "w_arrivals w")
    case (Cons a as)
    let ?cuts = "segment_starts interval a 0 (w_arrivals w)"
    have cuts: "sorted (0 # ?cuts)" "\<forall>c \<in> set ?cuts. c \<le> length (w_arrivals w)"
      using segment_starts [of 0 interval a "w_arrivals w"] by auto
    have sp: "split_time_interval interval w = map (\<lambda>(s, e). slice_workload s e w) (zip (0 # ?cuts) (?cuts @ [length (w_arrivals w)]))"
      unfolding split_time_interval_def by (subst Cons) (simp only: list.case Let_def)
    have fields: "w_arrivals \<circ> (\<lambda>(s, e). slice_workload s e w) = (\<lambda>(s, e). py_slice s e (w_arrivals w))"
      "w_requests \<circ> (\<lambda>(s, e). slice_workload s e w) = (\<lambda>(s, e). py_slice s e (w_requests w))"
      by (auto simp: slice_workload_def)
    have "concat (map (\<lambda>(s, e). py_slice s e (w_requests w)) (zip (0 # ?cuts) (?cuts @ [length (w_requests w)]))) = w_requests w"
      using concat_slices [OF cuts(1), of "w_requests w"] cuts(2) assms by simp
    then show ?thesis
      unfolding sp map_map fields using concat_slices [OF cuts(1), of "w_arrivals w"] cuts(2) assms by simp
  qed (use assms in \<open>simp add: split_time_interval_def\<close>)
  then show "concat (map w_arrivals (split_time_interval interval w)) = w_arrivals w"
    "concat (map w_requests (split_time_interval interval w)) = w_requests w" by auto
qed

text \<open>
  The statistics need requests to skip: without a warm-up, and for a workload that is long against it, the
  variable \<open>requests\<close> has no value when it is read.
\<close>

lemma compute_stats_unbound:
  assumes "2 \<le> length (w_arrivals w)" "hd (w_arrivals w) < List.last (w_arrivals w)" "0 \<le> warmup"
    "warmup * of_nat (length (w_arrivals w)) < List.last (w_arrivals w) - hd (w_arrivals w)"
  shows "compute_stats np_std w start finish good warmup = Inl UnboundLocalError"
proof -
  let ?a = "w_arrivals w"
  have "warmup / (List.last ?a - hd ?a) * of_nat (length ?a) < 1" using assms by (simp add: field_simps)
  moreover have "0 \<le> warmup / (List.last ?a - hd ?a) * of_nat (length ?a)" using assms by simp
  ultimately have "py_trunc (warmup / (List.last ?a - hd ?a) * of_nat (length ?a)) = 0"
    by (simp add: py_trunc_def floor_eq_iff)
  then show ?thesis using assms(1,2) by (simp add: compute_stats_def skip_count_def Let_def)
qed

end
