(* ===== verification/ReplicaPlacement.thy ===== *)
theory ReplicaPlacement
  imports SimWorkload "HOL-Library.List_Lexorder"
begin

text \<open>
  Placing replicas of models on groups of devices, from \<open>placement_policy/base_policy.py\<close> of
  \<^verbatim>\<open>ModelPlacement/alpaserve_lib\<close>: the operations of \<open>ModelPlacement\<close>, and the round-robin and the greedy placement. The
  greedy placement asks an evaluator for the statistics of a placement; a locale states what it relies on.
\<close>

section \<open>Placements\<close>

text \<open>A Python list index: a negative one counts from the end.\<close>

definition py_nthE :: "'a list \<Rightarrow> int \<Rightarrow> 'a py" where
  "py_nthE xs i = (let j = (if i < 0 then i + int (length xs) else i) in if j < 0 then Inl IndexError else nthE xs (nat j))"

text \<open>\<open>inf\<close> of \<open>util.py\<close>, a large number.\<close>

definition mem_inf :: py_float where
  "mem_inf = 10 ^ 100"

definition add_model :: "nat \<Rightarrow> int \<Rightarrow> model_placement \<Rightarrow> model_placement py" where
  "add_model group_id model_id pl =
     bindE (nthE (snd pl) group_id) (\<lambda>ms. Inr (fst pl, (snd pl)[group_id := ms @ [model_id]]))"

definition normalize_placement :: "model_placement \<Rightarrow> model_placement py" where
  "normalize_placement pl =
     (let group_models = map sort (snd pl); n = length (fst pl) in
      bindE (assertE (n \<le> length group_models) IndexError) (\<lambda>_.
      let indices = sort_key (nth group_models) [0..<n] in
      Inr (map (nth (fst pl)) indices, map (nth group_models) indices)))"

text \<open>The weights of a model on the fullest device of a group.\<close>

definition weight_entry :: "parallel_config \<Rightarrow> model_data \<Rightarrow> py_float py" where
  "weight_entry c x = (case dict_get (md_para_dict x) c of None \<Rightarrow> Inr mem_inf | Some d \<Rightarrow> maxE (lm_weight_mem d))"

type_synonym weight_table = "(parallel_config, py_float list) dict"

definition weight_mem :: "model_data list \<Rightarrow> parallel_config list \<Rightarrow> weight_table py" where
  "weight_mem model_datas cs = foldE (\<lambda>d c. bindE (mapE (weight_entry c) model_datas) (\<lambda>ws. Inr (dict_set c ws d))) [] cs"

definition weight_of :: "weight_table \<Rightarrow> parallel_config \<Rightarrow> int \<Rightarrow> py_float py" where
  "weight_of wm c m_id = bindE (lookupE (dict_get wm) c) (\<lambda>ws. py_nthE ws m_id)"

definition group_mem :: "weight_table \<Rightarrow> model_placement \<Rightarrow> py_float list py" where
  "group_mem wm pl = mapE (\<lambda>(c, ms). bindE (mapE (weight_of wm c) ms) (\<lambda>ws. Inr (sum_list ws))) (zip (fst pl) (snd pl))"

definition verify :: "model_data list \<Rightarrow> cluster_env \<Rightarrow> model_placement \<Rightarrow> unit py" where
  "verify model_datas env pl =
     bindE (weight_mem model_datas (fst pl)) (\<lambda>wm.
     bindE (group_mem wm pl) (\<lambda>mems.
     bindE (assertE (list_all (\<lambda>mem. mem \<le> mem_budget env) mems) AssertionError) (\<lambda>_.
     assertE (list_all (\<lambda>ms. length (remdups ms) = length ms) (snd pl)) AssertionError)))"

section \<open>Round robin\<close>

record rr_state =
  rr_sol :: model_placement
  rr_mem :: "py_float list"
  rr_group :: nat
  rr_found :: bool

definition rr_model :: "model_data list \<Rightarrow> cluster_env \<Rightarrow> weight_table \<Rightarrow> nat \<Rightarrow> rr_state \<Rightarrow> nat \<Rightarrow> rr_state py" where
  "rr_model model_datas env wm num_groups s model_id =
     (let g = rr_group s; sol = rr_sol s in
      bindE (nthE (fst sol) g) (\<lambda>c.
      bindE (nthE (snd sol) g) (\<lambda>ms.
      if int model_id \<in> set ms then Inr s else
      bindE (weight_of wm c (int model_id)) (\<lambda>w.
      bindE (nthE (rr_mem s) g) (\<lambda>mem.
      if w + mem \<le> mem_budget env
      then bindE (add_model g (int model_id) sol) (\<lambda>sol'.
           bindE (verify model_datas env sol') (\<lambda>_.
           Inr \<lparr>rr_sol = sol', rr_mem = (rr_mem s)[g := mem + w], rr_group = (g + 1) mod num_groups, rr_found = True\<rparr>))
      else Inr s)))))"

partial_function (option) rr_loop :: "model_data list \<Rightarrow> cluster_env \<Rightarrow> weight_table \<Rightarrow> nat \<Rightarrow> rr_state \<Rightarrow> model_placement py option" where
  [code]: "rr_loop model_datas env wm num_groups s =
     (case foldE (rr_model model_datas env wm num_groups) (s\<lparr>rr_found := False\<rparr>) [0..<length model_datas] of
        Inl e \<Rightarrow> Some (Inl e)
      | Inr s' \<Rightarrow> if rr_found s' then rr_loop model_datas env wm num_groups s' else Some (Inr (rr_sol s')))"

definition replica_placement_round_robin :: "model_data list \<Rightarrow> cluster_env \<Rightarrow> model_placement \<Rightarrow> model_placement py option" where
  "replica_placement_round_robin model_datas env init_sol =
     bindD (Some (assertE (length (fst init_sol) = length (snd init_sol)) AssertionError)) (\<lambda>_.
     bindD (Some (weight_mem model_datas (fst init_sol))) (\<lambda>wm.
     bindD (Some (group_mem wm init_sol)) (\<lambda>mems.
     rr_loop model_datas env wm (length (fst init_sol)) \<lparr>rr_sol = init_sol, rr_mem = mems, rr_group = 0, rr_found = True\<rparr>)))"

section \<open>Greedy placement\<close>

text \<open>The first model in the given order that is not in the group and fits.\<close>

fun find_model :: "weight_table \<Rightarrow> py_float \<Rightarrow> parallel_config \<Rightarrow> int list \<Rightarrow> py_float \<Rightarrow> nat list \<Rightarrow> nat option py" where
  "find_model wm budget c ms mem [] = Inr None"
| "find_model wm budget c ms mem (m # ids) =
     (if int m \<in> set ms then find_model wm budget c ms mem ids
      else bindE (weight_of wm c (int m)) (\<lambda>w. if w + mem \<le> budget then Inr (Some m) else find_model wm budget c ms mem ids))"

fun find_slot :: "weight_table \<Rightarrow> py_float \<Rightarrow> model_placement \<Rightarrow> py_float list \<Rightarrow> nat list \<Rightarrow> nat list \<Rightarrow> (nat \<times> nat) option py" where
  "find_slot wm budget sol mems model_ids [] = Inr None"
| "find_slot wm budget sol mems model_ids (g # gs) =
     bindE (nthE (fst sol) g) (\<lambda>c. bindE (nthE (snd sol) g) (\<lambda>ms. bindE (nthE mems g) (\<lambda>mem.
     bindE (find_model wm budget c ms mem model_ids) (\<lambda>r.
     case r of Some m \<Rightarrow> Inr (Some (g, m)) | None \<Rightarrow> find_slot wm budget sol mems model_ids gs))))"

definition model_num_unserved :: "sim_stats \<Rightarrow> py_float list" where
  "model_num_unserved st = map (\<lambda>s. of_int (pm_num_requests s) * (1 - pm_goodput s)) (st_per_model st)"

text \<open>One iteration: the new placement, or nothing if no replica can be added.\<close>

definition greedy_step :: "(py_float list \<Rightarrow> nat list) \<Rightarrow> (model_placement \<Rightarrow> sim_stats py) \<Rightarrow> weight_table \<Rightarrow> py_float \<Rightarrow>
    model_placement \<Rightarrow> model_placement option py" where
  "greedy_step argsort get_stats wm budget sol =
     bindE (get_stats sol) (\<lambda>st.
     bindE (case st_group_num_requests st of None \<Rightarrow> Inl TypeError | Some ns \<Rightarrow> Inr ns) (\<lambda>ns.
     bindE (group_mem wm sol) (\<lambda>mems.
     bindE (find_slot wm budget sol mems (rev (argsort (model_num_unserved st))) (argsort (map of_int ns))) (\<lambda>slot.
     case slot of None \<Rightarrow> Inr None
     | Some (g, m) \<Rightarrow> bindE (add_model g (int m) sol) (\<lambda>sol'. bindE (normalize_placement sol') (\<lambda>sol''. Inr (Some sol'')))))))"

partial_function (option) greedy_loop :: "(py_float list \<Rightarrow> nat list) \<Rightarrow> (model_placement \<Rightarrow> sim_stats py) \<Rightarrow> weight_table \<Rightarrow> py_float \<Rightarrow>
    model_placement \<Rightarrow> model_placement py option" where
  [code]: "greedy_loop argsort get_stats wm budget sol =
     (case greedy_step argsort get_stats wm budget sol of
        Inl e \<Rightarrow> Some (Inl e)
      | Inr None \<Rightarrow> Some (Inr sol)
      | Inr (Some sol') \<Rightarrow> greedy_loop argsort get_stats wm budget sol')"

definition replica_placement_fast_greedy :: "(py_float list \<Rightarrow> nat list) \<Rightarrow> (model_placement \<Rightarrow> sim_stats py) \<Rightarrow>
    model_data list \<Rightarrow> cluster_env \<Rightarrow> model_placement \<Rightarrow> model_placement py option" where
  "replica_placement_fast_greedy argsort get_stats model_datas env init_sol =
     bindD (Some (weight_mem model_datas (fst init_sol))) (\<lambda>wm. greedy_loop argsort get_stats wm (mem_budget env) init_sol)"

section \<open>Lemmas: memory\<close>

text \<open>What the tables hold, as functions of the profiles.\<close>

definition mem_of :: "parallel_config \<Rightarrow> model_data \<Rightarrow> py_float" where
  "mem_of c x = (case dict_get (md_para_dict x) c of None \<Rightarrow> mem_inf | Some d \<Rightarrow> Max (set (lm_weight_mem d)))"

definition model_mem :: "model_data list \<Rightarrow> parallel_config \<Rightarrow> int \<Rightarrow> py_float" where
  "model_mem mds c m = mem_of c (mds ! nat m)"

definition used_mem :: "model_data list \<Rightarrow> parallel_config \<Rightarrow> int list \<Rightarrow> py_float" where
  "used_mem mds c ms = (\<Sum>m\<leftarrow>ms. model_mem mds c m)"

text \<open>Every profile has weights, and a latency for each stage at batch size one.\<close>

definition profiled :: "model_data list \<Rightarrow> bool" where
  "profiled mds \<longleftrightarrow> (\<forall>x \<in> set mds. \<forall>(c, d) \<in> set (md_para_dict x). lm_weight_mem d \<noteq> [] \<and>
     (case dict_get (lm_latency d) 1 of None \<Rightarrow> False | Some ls \<Rightarrow> ls \<noteq> [] \<and> nat (pc_pp c) \<le> length ls))"

definition table_ok :: "model_data list \<Rightarrow> parallel_config set \<Rightarrow> weight_table \<Rightarrow> bool" where
  "table_ok mds cs wm \<longleftrightarrow> (\<forall>c \<in> cs. dict_get wm c = Some (map (mem_of c) mds))"

lemma weight_entry_ok: "profiled mds \<Longrightarrow> x \<in> set mds \<Longrightarrow> weight_entry c x = Inr (mem_of c x)"
  by (fastforce simp: profiled_def weight_entry_def mem_of_def maxE_def dest: map_of_SomeD split: option.splits)

lemma weight_mem_ok:
  assumes "profiled mds"
  shows "\<exists>wm. weight_mem mds cs = Inr wm \<and> table_ok mds (set cs) wm"
proof (induction cs rule: rev_induct)
  case (snoc c cs)
  have "mapE (weight_entry c) mds = Inr (map (mem_of c) mds)" using weight_entry_ok [OF assms] by (intro mapE_total)
  with snoc show ?case by (auto simp: weight_mem_def foldE_append table_ok_def dict_simps)
qed (simp add: weight_mem_def table_ok_def)

lemma weight_of_ok: "table_ok mds cs wm \<Longrightarrow> c \<in> cs \<Longrightarrow> 0 \<le> m \<Longrightarrow> m < int (length mds) \<Longrightarrow> weight_of wm c m = Inr (model_mem mds c m)"
  by (simp add: table_ok_def weight_of_def lookupE_def py_nthE_def nthE_def model_mem_def)

definition valid_placement :: "nat \<Rightarrow> model_placement \<Rightarrow> bool" where
  "valid_placement n pl \<longleftrightarrow> length (fst pl) = length (snd pl) \<and> (\<forall>ms \<in> set (snd pl). distinct ms \<and> set ms \<subseteq> {0..<int n})"

definition within_budget :: "model_data list \<Rightarrow> py_float \<Rightarrow> model_placement \<Rightarrow> bool" where
  "within_budget mds budget pl \<longleftrightarrow> (\<forall>(c, ms) \<in> set (zip (fst pl) (snd pl)). used_mem mds c ms \<le> budget)"

lemma group_mem_ok:
  assumes "table_ok mds (set (fst pl)) wm" "\<forall>ms \<in> set (snd pl). set ms \<subseteq> {0..<int (length mds)}"
  shows "group_mem wm pl = Inr (map (\<lambda>(c, ms). used_mem mds c ms) (zip (fst pl) (snd pl)))"
proof -
  have "bindE (mapE (weight_of wm c) ms) (\<lambda>ws. Inr (sum_list ws)) = Inr (used_mem mds c ms)"
    if "(c, ms) \<in> set (zip (fst pl) (snd pl))" for c ms
  proof -
    have "c \<in> set (fst pl)" "ms \<in> set (snd pl)" using that by (auto dest: set_zip_leftD set_zip_rightD)
    then have "mapE (weight_of wm c) ms = Inr (map (model_mem mds c) ms)"
      using assms by (intro mapE_total weight_of_ok) (auto simp: subset_iff)
    then show ?thesis by (simp add: used_mem_def)
  qed
  then show ?thesis unfolding group_mem_def by (intro mapE_total) auto
qed

lemma verify_iff:
  assumes "profiled mds" "\<forall>ms \<in> set (snd pl). set ms \<subseteq> {0..<int (length mds)}"
  shows "verify mds env pl = Inr () \<longleftrightarrow> within_budget mds (mem_budget env) pl \<and> (\<forall>ms \<in> set (snd pl). distinct ms)"
proof -
  obtain wm where wm: "weight_mem mds (fst pl) = Inr wm" "table_ok mds (set (fst pl)) wm" using weight_mem_ok [OF assms(1)] by blast
  have "length (remdups ms) = length ms \<longleftrightarrow> distinct ms" for ms :: "int list"
    by (metis distinct_card length_remdups_card_conv card_distinct)
  then show ?thesis using wm group_mem_ok [OF wm(2) assms(2)]
    by (auto simp: verify_def within_budget_def assertE_def list_all_iff bindE_def)
qed

section \<open>Lemmas: adding and normalizing\<close>

definition replicas :: "model_placement \<Rightarrow> nat" where
  "replicas pl = sum_list (map length (snd pl))"

lemma replicas_bound: "valid_placement n pl \<Longrightarrow> replicas pl \<le> n * length (fst pl)"
proof -
  assume v: "valid_placement n pl"
  have "length ms \<le> n" if "ms \<in> set (snd pl)" for ms
  proof -
    have "card (set ms) \<le> card {0..<int n}" using v that by (intro card_mono) (auto simp: valid_placement_def)
    then show ?thesis using v that by (simp add: valid_placement_def distinct_card)
  qed
  then have "sum_list (map length (snd pl)) \<le> sum_list (map (\<lambda>_. n) (snd pl))" by (intro sum_list_mono)
  then show ?thesis using v by (simp add: replicas_def valid_placement_def sum_list_triv mult.commute)
qed

lemma zip_update_snd: "g < length xs \<Longrightarrow> length xs = length ys \<Longrightarrow> zip xs (ys[g := y]) = (zip xs ys)[g := (xs ! g, y)]"
  by (metis list_update_id zip_update)

lemma ball_list_update: "\<forall>x \<in> set xs. P x \<Longrightarrow> P y \<Longrightarrow> \<forall>x \<in> set (xs[i := y]). P x"
  using set_update_subset_insert [of xs i y] by blast

lemma used_mem_append: "used_mem mds c (ms @ [m]) = used_mem mds c ms + model_mem mds c m"
  by (simp add: used_mem_def)

text \<open>Adding a replica that is new in its group and fits.\<close>

lemma add_model_ok:
  assumes "valid_placement n pl" "g < length (fst pl)" "m < n" "int m \<notin> set (snd pl ! g)"
    "within_budget mds budget pl" "model_mem mds (fst pl ! g) (int m) + used_mem mds (fst pl ! g) (snd pl ! g) \<le> budget"
  shows "\<exists>pl'. add_model g (int m) pl = Inr pl' \<and> valid_placement n pl' \<and> within_budget mds budget pl' \<and> fst pl' = fst pl \<and> replicas pl' = Suc (replicas pl)"
proof -
  let ?ms = "snd pl ! g @ [int m]"
  let ?pl = "(fst pl, (snd pl)[g := ?ms])"
  have g: "g < length (snd pl)" "length (fst pl) = length (snd pl)" using assms(1,2) by (auto simp: valid_placement_def)
  then have "add_model g (int m) pl = Inr ?pl" by (simp add: add_model_def nthE_def)
  moreover have "distinct ?ms \<and> set ?ms \<subseteq> {0..<int n}" using assms(1,3,4) g by (auto simp: valid_placement_def)
  from ball_list_update [where P = "\<lambda>ms. distinct ms \<and> set ms \<subseteq> {0..<int n}", OF _ this, of "snd pl" g] have "valid_placement n ?pl"
    using assms(1) unfolding valid_placement_def fst_conv snd_conv length_list_update by blast
  moreover have "within_budget mds budget ?pl"
    using assms(5,6) set_update_subset_insert [of "zip (fst pl) (snd pl)" g "(fst pl ! g, ?ms)"]
    by (auto simp: within_budget_def zip_update_snd [OF assms(2) g(2)] used_mem_append add.commute)
  moreover have "replicas ?pl = Suc (replicas pl)"
    using sum_list_map_update [OF g(1), of length ?ms] by (simp add: replicas_def)
  ultimately show ?thesis by auto
qed

lemma normalize_pairs:
  assumes "length (fst pl) = length (snd pl)"
  shows "\<exists>pl'. normalize_placement pl = Inr pl' \<and> length (fst pl') = length (snd pl') \<and>
    mset (zip (fst pl') (snd pl')) = image_mset (map_prod id sort) (mset (zip (fst pl) (snd pl)))"
proof -
  let ?gms = "map sort (snd pl)" and ?n = "length (fst pl)"
  let ?is = "sort_key (nth ?gms) [0..<?n]"
  let ?pairs = "map (map_prod id sort) (zip (fst pl) (snd pl))"
  have "zip (map (nth (fst pl)) ?is) (map (nth ?gms) ?is) = map (\<lambda>i. (fst pl ! i, ?gms ! i)) ?is"
    by (simp only: zip_map_map zip_same_conv_map map_map o_def prod.case)
  also have "\<dots> = map (nth ?pairs) ?is" using assms by (intro map_cong) auto
  finally have "zip (map (nth (fst pl)) ?is) (map (nth ?gms) ?is) = map (nth ?pairs) ?is" .
  moreover have "mset (map (nth ?pairs) ?is) = mset ?pairs" using assms by (intro map_nth_perm) simp
  ultimately show ?thesis using assms
    by (intro exI [of _ "(map (nth (fst pl)) ?is, map (nth ?gms) ?is)"]) (simp add: normalize_placement_def Let_def)
qed

text \<open>What is known of every group is known of the groups in any order and with sorted models.\<close>

lemma normalize_ok:
  assumes "valid_placement n pl" "within_budget mds budget pl"
  shows "\<exists>pl'. normalize_placement pl = Inr pl' \<and> valid_placement n pl' \<and> within_budget mds budget pl' \<and>
    mset (fst pl') = mset (fst pl) \<and> replicas pl' = replicas pl"
proof -
  have len: "length (fst pl) = length (snd pl)" using assms(1) by (simp add: valid_placement_def)
  obtain pl' where p: "normalize_placement pl = Inr pl'" "length (fst pl') = length (snd pl')"
    "mset (zip (fst pl') (snd pl')) = image_mset (map_prod id sort) (mset (zip (fst pl) (snd pl)))"
    using normalize_pairs [OF len] by blast
  have f: "mset (fst pl') = mset (fst pl)"
    using arg_cong [OF p(3), of "image_mset fst"] len p(2) by (simp flip: mset_map add: multiset.map_comp o_def)
  have g: "mset (snd pl') = image_mset sort (mset (snd pl))"
  proof -
    have "image_mset snd (mset (zip (fst pl') (snd pl'))) = image_mset sort (image_mset snd (mset (zip (fst pl) (snd pl))))"
      unfolding p(3) by (simp add: multiset.map_comp o_def)
    then show ?thesis using len p(2) by (simp flip: mset_map)
  qed
  have "set (snd pl') = sort ` set (snd pl)" using arg_cong [OF g, of set_mset] by simp
  then have "valid_placement n pl'" using assms(1) p(2) by (auto simp: valid_placement_def)
  moreover have "set (zip (fst pl') (snd pl')) = map_prod id sort ` set (zip (fst pl) (snd pl))"
    using arg_cong [OF p(3), of set_mset] by simp
  moreover have "used_mem mds c (sort ms) = used_mem mds c ms" for c ms
    unfolding used_mem_def by (metis mset_map mset_sort sum_mset_sum_list)
  ultimately have "valid_placement n pl' \<and> within_budget mds budget pl'" using assms(2) by (force simp: within_budget_def)
  moreover have "replicas pl' = replicas pl"
  proof -
    have "mset (map length (snd pl')) = mset (map length (snd pl))" using g by (simp add: multiset.map_comp o_def)
    then show ?thesis unfolding replicas_def by (metis sum_mset_sum_list)
  qed
  ultimately show ?thesis using p(1) f by blast
qed

section \<open>Lemmas: greedy placement\<close>

lemma find_model_ok:
  assumes "table_ok mds cs wm" "c \<in> cs" "set ids \<subseteq> {..<length mds}"
  shows "find_model wm budget c ms mem ids = Inr (find (\<lambda>m. int m \<notin> set ms \<and> model_mem mds c (int m) + mem \<le> budget) ids)"
  using assms by (induction ids) (auto simp: weight_of_ok)

text \<open>A replica that could be added.\<close>

definition open_slot :: "model_data list \<Rightarrow> py_float \<Rightarrow> model_placement \<Rightarrow> nat \<Rightarrow> nat \<Rightarrow> bool" where
  "open_slot mds budget pl g m \<longleftrightarrow> g < length (fst pl) \<and> m < length mds \<and> int m \<notin> set (snd pl ! g) \<and>
     model_mem mds (fst pl ! g) (int m) + used_mem mds (fst pl ! g) (snd pl ! g) \<le> budget"

lemma find_slot_ok:
  assumes "table_ok mds (set (fst pl)) wm" "length (fst pl) = length (snd pl)" "set ids \<subseteq> {..<length mds}" "set gs \<subseteq> {..<length (fst pl)}"
  defines "mems \<equiv> map (\<lambda>(c, ms). used_mem mds c ms) (zip (fst pl) (snd pl))"
  shows "\<exists>r. find_slot wm budget pl mems ids gs = Inr r \<and>
    (case r of Some (g, m) \<Rightarrow> open_slot mds budget pl g m | None \<Rightarrow> \<forall>g \<in> set gs. \<forall>m \<in> set ids. \<not> open_slot mds budget pl g m)"
  using assms(4)
proof (induction gs)
  case (Cons g gs)
  then have g: "g < length (fst pl)" "g < length (snd pl)" using assms(2) by auto
  let ?P = "\<lambda>m. int m \<notin> set (snd pl ! g) \<and> model_mem mds (fst pl ! g) (int m) + used_mem mds (fst pl ! g) (snd pl ! g) \<le> budget"
  have "mems ! g = used_mem mds (fst pl ! g) (snd pl ! g)" "g < length mems" using g assms(2) by (simp_all add: mems_def)
  then have mem: "find_slot wm budget pl mems ids (g # gs) =
      (case find ?P ids of Some m \<Rightarrow> Inr (Some (g, m)) | None \<Rightarrow> find_slot wm budget pl mems ids gs)"
    using g by (simp add: nthE_def find_model_ok [OF assms(1) _ assms(3)])
  show ?case
  proof (cases "find ?P ids")
    case None
    then have "\<forall>m \<in> set ids. \<not> open_slot mds budget pl g m" unfolding find_None_iff open_slot_def by blast
    then show ?thesis using Cons.IH Cons.prems None unfolding mem by (auto split: option.splits)
  next
    case (Some m)
    then have "m \<in> set ids" "?P m" unfolding find_Some_iff by auto
    then have "open_slot mds budget pl g m" using g assms(3) by (auto simp: open_slot_def)
    then show ?thesis using Some unfolding mem by simp
  qed
qed simp

section \<open>The evaluator\<close>

text \<open>
  What the searches rely on: for placements with at least one group, at least one stage per group and known models,
  and for a workload that is not empty, the statistics list every model and every group.
\<close>

definition simulable :: "model_data list \<Rightarrow> sim_workload \<Rightarrow> bool" where
  "simulable mds w \<longleftrightarrow> mds \<noteq> [] \<and> profiled mds \<and> distinct (map md_name mds) \<and>
     w_arrivals w \<noteq> [] \<and> length (w_arrivals w) = length (w_requests w)"

definition runnable :: "nat \<Rightarrow> model_placement \<Rightarrow> bool" where
  "runnable n pl \<longleftrightarrow> valid_placement n pl \<and> fst pl \<noteq> [] \<and> (\<forall>c \<in> set (fst pl). 1 \<le> pc_pp c)"

locale placement_evaluator =
  fixes get_stats :: "model_data list \<Rightarrow> sim_workload \<Rightarrow> model_placement \<Rightarrow> sim_stats py"
  assumes stats_shape: "simulable mds w \<Longrightarrow> runnable (length mds) pl \<Longrightarrow>
    \<exists>st ns. get_stats mds w pl = Inr st \<and> length (st_per_model st) = length mds \<and>
      st_group_num_requests st = Some ns \<and> length ns = length (fst pl)"
begin

lemma greedy_step_ok:
  assumes "argsort_ok argsort" "simulable mds w" "table_ok mds (set (fst pl)) wm" "runnable (length mds) pl" "within_budget mds budget pl"
  shows "\<exists>r. greedy_step argsort (get_stats mds w) wm budget pl = Inr r \<and>
    (case r of None \<Rightarrow> \<forall>g m. \<not> open_slot mds budget pl g m
     | Some pl' \<Rightarrow> runnable (length mds) pl' \<and> within_budget mds budget pl' \<and> mset (fst pl') = mset (fst pl) \<and> replicas pl' = Suc (replicas pl))"
proof -
  obtain st ns where st: "get_stats mds w pl = Inr st" "length (st_per_model st) = length mds"
    "st_group_num_requests st = Some ns" "length ns = length (fst pl)"
    using stats_shape [OF assms(2,4)] by blast
  have v: "valid_placement (length mds) pl" using assms(4) by (simp add: runnable_def)
  let ?ids = "rev (argsort (model_num_unserved st))" and ?gs = "argsort (map of_int ns)"
  let ?mems = "map (\<lambda>(c, ms). used_mem mds c ms) (zip (fst pl) (snd pl))"
  have ids: "set ?ids = {..<length mds}" and gs: "set ?gs = {..<length (fst pl)}"
    using argsort_facts(2) [OF assms(1)] st(2,4) by (simp_all add: model_num_unserved_def)
  have mems: "group_mem wm pl = Inr ?mems" using assms(3) v by (intro group_mem_ok) (auto simp: valid_placement_def)
  obtain r where r: "find_slot wm budget pl ?mems ?ids ?gs = Inr r"
    "case r of Some (g, m) \<Rightarrow> open_slot mds budget pl g m | None \<Rightarrow> \<forall>g \<in> set ?gs. \<forall>m \<in> set ?ids. \<not> open_slot mds budget pl g m"
    using find_slot_ok [OF assms(3), of ?ids ?gs budget] ids gs v by (auto simp: valid_placement_def)
  note step = greedy_step_def [of argsort "get_stats mds w" wm budget pl, unfolded st(1,3) mems bindE_simps option.case, unfolded r(1) bindE_simps]
  show ?thesis
  proof (cases r)
    case None
    then have "\<forall>g m. \<not> open_slot mds budget pl g m" using r(2) ids gs by (auto simp: open_slot_def)
    then show ?thesis unfolding step None by simp
  next
    case (Some gm)
    obtain g m where gm: "gm = (g, m)" by fastforce
    with Some r(2) have slot: "open_slot mds budget pl g m" by simp
    obtain pl1 where pl1: "add_model g (int m) pl = Inr pl1" "valid_placement (length mds) pl1" "within_budget mds budget pl1"
      "fst pl1 = fst pl" "replicas pl1 = Suc (replicas pl)"
      using add_model_ok [OF v _ _ _ assms(5)] slot unfolding open_slot_def by blast
    obtain pl2 where pl2: "normalize_placement pl1 = Inr pl2" "valid_placement (length mds) pl2" "within_budget mds budget pl2"
      "mset (fst pl2) = mset (fst pl1)" "replicas pl2 = replicas pl1"
      using normalize_ok [OF pl1(2,3)] by blast
    have "set (fst pl2) = set (fst pl)" using mset_eq_setD [OF pl2(4)] pl1(4) by simp
    moreover from this have "fst pl2 \<noteq> []" using assms(4) by (auto simp: runnable_def)
    ultimately have "runnable (length mds) pl2" using assms(4) pl2(2) unfolding runnable_def by blast
    then show ?thesis unfolding step Some gm using pl1 pl2 by simp
  qed
qed

text \<open>Every iteration adds a replica, and there are at most as many as models times groups.\<close>

lemma greedy_loop_ok:
  assumes "argsort_ok argsort" "simulable mds w" "table_ok mds (set (fst pl)) wm" "runnable (length mds) pl" "within_budget mds budget pl"
  shows "\<exists>r. greedy_loop argsort (get_stats mds w) wm budget pl = Some (Inr r) \<and> runnable (length mds) r \<and> within_budget mds budget r \<and>
    mset (fst r) = mset (fst pl) \<and> (\<forall>g m. \<not> open_slot mds budget r g m)"
  using assms(3-5)
proof (induction "length mds * length (fst pl) - replicas pl" arbitrary: pl rule: less_induct)
  case less
  obtain r where r: "greedy_step argsort (get_stats mds w) wm budget pl = Inr r"
    "case r of None \<Rightarrow> \<forall>g m. \<not> open_slot mds budget pl g m
     | Some pl' \<Rightarrow> runnable (length mds) pl' \<and> within_budget mds budget pl' \<and> mset (fst pl') = mset (fst pl) \<and> replicas pl' = Suc (replicas pl)"
    using greedy_step_ok [OF assms(1,2) less.prems] by blast
  show ?case
  proof (cases r)
    case None
    then show ?thesis using r less.prems by (subst greedy_loop.simps) simp
  next
    case (Some pl')
    with r(2) have pl': "runnable (length mds) pl'" "within_budget mds budget pl'" "mset (fst pl') = mset (fst pl)" "replicas pl' = Suc (replicas pl)" by auto
    have "length (fst pl') = length (fst pl)" "set (fst pl') = set (fst pl)" using mset_eq_length [OF pl'(3)] mset_eq_setD [OF pl'(3)] by auto
    moreover have "replicas pl' \<le> length mds * length (fst pl')" using pl'(1) by (intro replicas_bound) (simp add: runnable_def)
    ultimately have "length mds * length (fst pl') - replicas pl' < length mds * length (fst pl) - replicas pl"
      "table_ok mds (set (fst pl')) wm" using pl'(4) less.prems(1) by simp_all
    from less.hyps [OF this pl'(1,2)]
    obtain r' where "greedy_loop argsort (get_stats mds w) wm budget pl' = Some (Inr r')" "runnable (length mds) r'"
      "within_budget mds budget r'" "mset (fst r') = mset (fst pl')" "\<forall>g m. \<not> open_slot mds budget r' g m" by blast
    then show ?thesis using Some r(1) pl'(3) by (subst greedy_loop.simps) simp
  qed
qed

lemma greedy_ok:
  assumes "argsort_ok argsort" "simulable mds w" "runnable (length mds) pl" "within_budget mds (mem_budget env) pl"
  shows "\<exists>r. replica_placement_fast_greedy argsort (get_stats mds w) mds env pl = Some (Inr r) \<and> runnable (length mds) r \<and>
    verify mds env r = Inr () \<and> mset (fst r) = mset (fst pl) \<and> (\<forall>g m. \<not> open_slot mds (mem_budget env) r g m)"
proof -
  have prof: "profiled mds" using assms(2) by (simp add: simulable_def)
  obtain wm where wm: "weight_mem mds (fst pl) = Inr wm" "table_ok mds (set (fst pl)) wm" using weight_mem_ok [OF prof] by blast
  obtain r where r: "greedy_loop argsort (get_stats mds w) wm (mem_budget env) pl = Some (Inr r)" "runnable (length mds) r"
    "within_budget mds (mem_budget env) r" "mset (fst r) = mset (fst pl)" "\<forall>g m. \<not> open_slot mds (mem_budget env) r g m"
    using greedy_loop_ok [OF assms(1,2) wm(2) assms(3,4)] by blast
  then have "verify mds env r = Inr ()" using verify_iff [OF prof] by (auto simp: runnable_def valid_placement_def)
  then show ?thesis using r wm(1) by (simp add: replica_placement_fast_greedy_def bindD_def)
qed

end

section \<open>Lemmas: round robin\<close>

definition rr_ok :: "model_data list \<Rightarrow> py_float \<Rightarrow> parallel_config list \<Rightarrow> rr_state \<Rightarrow> bool" where
  "rr_ok mds budget cs s \<longleftrightarrow> fst (rr_sol s) = cs \<and> valid_placement (length mds) (rr_sol s) \<and> within_budget mds budget (rr_sol s) \<and>
     rr_group s < length cs \<and> rr_mem s = map (\<lambda>(c, ms). used_mem mds c ms) (zip (fst (rr_sol s)) (snd (rr_sol s)))"

lemma rr_model_ok:
  assumes "profiled mds" "table_ok mds (set cs) wm" "rr_ok mds (mem_budget env) cs s" "m < length mds"
  shows "\<exists>s'. rr_model mds env wm (length cs) s m = Inr s' \<and> rr_ok mds (mem_budget env) cs s' \<and>
    (s' = s \<or> rr_found s' \<and> replicas (rr_sol s') = Suc (replicas (rr_sol s)))"
proof -
  let ?pl = "rr_sol s" and ?g = "rr_group s"
  have s: "fst ?pl = cs" "valid_placement (length mds) ?pl" "within_budget mds (mem_budget env) ?pl" "?g < length cs"
    "rr_mem s = map (\<lambda>(c, ms). used_mem mds c ms) (zip (fst ?pl) (snd ?pl))"
    using assms(3) by (auto simp: rr_ok_def)
  have len: "length (snd ?pl) = length cs" using s(1,2) by (simp add: valid_placement_def)
  let ?c = "cs ! ?g" and ?ms = "snd ?pl ! ?g"
  have mem: "rr_mem s ! ?g = used_mem mds ?c ?ms" "length (rr_mem s) = length cs" using s len by simp_all
  have w: "weight_of wm ?c (int m) = Inr (model_mem mds ?c (int m))" using assms(2,4) s(4) by (intro weight_of_ok) auto
  show ?thesis
  proof (cases "int m \<notin> set ?ms \<and> model_mem mds ?c (int m) + used_mem mds ?c ?ms \<le> mem_budget env")
    case True
    then have fit: "?g < length (fst ?pl)" "int m \<notin> set (snd ?pl ! ?g)"
      "model_mem mds (fst ?pl ! ?g) (int m) + used_mem mds (fst ?pl ! ?g) (snd ?pl ! ?g) \<le> mem_budget env" using s(4) unfolding s(1) by auto
    obtain pl' where pl': "add_model ?g (int m) ?pl = Inr pl'" "valid_placement (length mds) pl'" "within_budget mds (mem_budget env) pl'"
      "fst pl' = fst ?pl" "replicas pl' = Suc (replicas ?pl)"
      using add_model_ok [OF s(2) fit(1) assms(4) fit(2) s(3) fit(3)] by blast
    have eq: "pl' = (cs, (snd ?pl)[?g := ?ms @ [int m]])"
      using pl'(1) s(1,4) len by (simp add: add_model_def nthE_def)
    have "verify mds env pl' = Inr ()" using verify_iff [OF assms(1)] pl'(2,3) by (auto simp: valid_placement_def)
    then have "rr_model mds env wm (length cs) s m =
        Inr \<lparr>rr_sol = pl', rr_mem = (rr_mem s)[?g := used_mem mds ?c ?ms + model_mem mds ?c (int m)], rr_group = (?g + 1) mod length cs, rr_found = True\<rparr>"
      using True s(1,4) len mem w pl'(1) by (simp add: rr_model_def Let_def nthE_def)
    moreover have "(rr_mem s)[?g := used_mem mds ?c ?ms + model_mem mds ?c (int m)] = map (\<lambda>(c, ms). used_mem mds c ms) (zip (fst pl') (snd pl'))"
      using s(1,4) len unfolding s(5) eq by (simp add: zip_update_snd map_update used_mem_append)
    moreover have "(?g + 1) mod length cs < length cs" using s(4) by (intro mod_less_divisor) auto
    ultimately show ?thesis using pl' s(1) by (auto simp: rr_ok_def)
  next
    case False
    then have "rr_model mds env wm (length cs) s m = Inr s"
      using s(1,4) len mem w by (auto simp: rr_model_def Let_def nthE_def)
    then show ?thesis using assms(3) by blast
  qed
qed

lemma rr_pass_ok:
  assumes "profiled mds" "table_ok mds (set cs) wm" "rr_ok mds (mem_budget env) cs s" "set ms \<subseteq> {..<length mds}"
  shows "\<exists>s'. foldE (rr_model mds env wm (length cs)) s ms = Inr s' \<and> rr_ok mds (mem_budget env) cs s' \<and>
    (s' = s \<or> rr_found s' \<and> replicas (rr_sol s) < replicas (rr_sol s'))"
  using assms(3,4)
proof (induction ms arbitrary: s)
  case (Cons m ms)
  obtain t where t: "rr_model mds env wm (length cs) s m = Inr t" "rr_ok mds (mem_budget env) cs t"
    "t = s \<or> rr_found t \<and> replicas (rr_sol t) = Suc (replicas (rr_sol s))"
    using rr_model_ok [OF assms(1,2) Cons.prems(1), of m] Cons.prems(2) by auto
  obtain u where "foldE (rr_model mds env wm (length cs)) t ms = Inr u" "rr_ok mds (mem_budget env) cs u"
    "u = t \<or> rr_found u \<and> replicas (rr_sol t) < replicas (rr_sol u)"
    using Cons.IH [OF t(2)] Cons.prems(2) by auto
  then show ?case using t by auto
qed simp

lemma rr_loop_ok:
  assumes "profiled mds" "table_ok mds (set cs) wm" "rr_ok mds (mem_budget env) cs s"
  shows "\<exists>r. rr_loop mds env wm (length cs) s = Some (Inr r) \<and> fst r = cs \<and> valid_placement (length mds) r \<and> within_budget mds (mem_budget env) r"
  using assms(3)
proof (induction "length mds * length cs - replicas (rr_sol s)" arbitrary: s rule: less_induct)
  case less
  let ?s = "s\<lparr>rr_found := False\<rparr>"
  have "rr_ok mds (mem_budget env) cs ?s" using less.prems by (simp add: rr_ok_def)
  moreover have "set [0..<length mds] \<subseteq> {..<length mds}" by auto
  ultimately obtain s' where s': "foldE (rr_model mds env wm (length cs)) ?s [0..<length mds] = Inr s'" "rr_ok mds (mem_budget env) cs s'"
    "s' = ?s \<or> rr_found s' \<and> replicas (rr_sol ?s) < replicas (rr_sol s')"
    using rr_pass_ok [OF assms(1,2)] by blast
  have ok: "fst (rr_sol s') = cs" "valid_placement (length mds) (rr_sol s')" "within_budget mds (mem_budget env) (rr_sol s')"
    using s'(2) by (simp_all add: rr_ok_def)
  show ?case
  proof (cases "rr_found s'")
    case True
    then have "replicas (rr_sol s) < replicas (rr_sol s')" using s'(3) by auto
    moreover have "replicas (rr_sol s') \<le> length mds * length cs" using replicas_bound [OF ok(2)] ok(1) by simp
    ultimately have "length mds * length cs - replicas (rr_sol s') < length mds * length cs - replicas (rr_sol s)" by simp
    from less.hyps [OF this s'(2)] show ?thesis using True s'(1) by (subst rr_loop.simps) simp
  next
    case False
    then show ?thesis using s'(1) ok by (subst rr_loop.simps) simp
  qed
qed

section \<open>Properties\<close>

text \<open>The round-robin placement ends for every start that passes the check and has a group. It keeps the groups, and
  its result passes the check: no model is twice in a group, and the weights in every group fit the memory budget.\<close>

theorem round_robin_verified:
  assumes "profiled mds" "fst pl \<noteq> []" "length (fst pl) = length (snd pl)"
    "\<forall>ms \<in> set (snd pl). set ms \<subseteq> {0..<int (length mds)}" "verify mds env pl = Inr ()"
  shows "\<exists>r. replica_placement_round_robin mds env pl = Some (Inr r) \<and> fst r = fst pl \<and> verify mds env r = Inr ()"
proof -
  have pl: "within_budget mds (mem_budget env) pl" "\<forall>ms \<in> set (snd pl). distinct ms" using verify_iff [OF assms(1,4)] assms(5) by auto
  obtain wm where wm: "weight_mem mds (fst pl) = Inr wm" "table_ok mds (set (fst pl)) wm" using weight_mem_ok [OF assms(1)] by blast
  let ?mems = "map (\<lambda>(c, ms). used_mem mds c ms) (zip (fst pl) (snd pl))"
  let ?s = "\<lparr>rr_sol = pl, rr_mem = ?mems, rr_group = 0, rr_found = True\<rparr>"
  have "rr_ok mds (mem_budget env) (fst pl) ?s" using assms(2-4) pl by (auto simp: rr_ok_def valid_placement_def)
  from rr_loop_ok [OF assms(1) wm(2) this] obtain r where
    "rr_loop mds env wm (length (fst pl)) ?s = Some (Inr r)" "fst r = fst pl" "valid_placement (length mds) r" "within_budget mds (mem_budget env) r"
    by blast
  moreover from this have "verify mds env r = Inr ()" using verify_iff [OF assms(1)] by (auto simp: valid_placement_def)
  moreover have "group_mem wm pl = Inr ?mems" using wm(2) assms(4) by (rule group_mem_ok)
  ultimately show ?thesis using wm(1) assms(3) by (simp add: replica_placement_round_robin_def bindD_def)
qed

text \<open>Two models that fit on a pipeline of four devices together, but not on a single device.\<close>

definition demo_profile :: para_dict where
  "demo_profile = [(\<lparr>pc_dp = 1, pc_op = 1, pc_pp = 4\<rparr>, \<lparr>lm_latency = [(1, [1, 1, 1, 1])], lm_act_mem = [], lm_weight_mem = [1, 1, 1, 1]\<rparr>),
     (\<lparr>pc_dp = 1, pc_op = 1, pc_pp = 1\<rparr>, \<lparr>lm_latency = [(1, [4])], lm_act_mem = [], lm_weight_mem = [4]\<rparr>)]"

definition demo_models :: "model_data list" where
  "demo_models = [\<lparr>md_name = ''a'', md_slo = 50, md_rate = 1, md_cv = 1, md_para_dict = demo_profile\<rparr>,
     \<lparr>md_name = ''b'', md_slo = 50, md_rate = 1, md_cv = 1, md_para_dict = demo_profile\<rparr>]"

definition demo_env :: cluster_env where
  "demo_env = \<lparr>num_devices = 5, mem_budget = 2, num_devices_per_node = 8\<rparr>"

definition demo_start :: model_placement where
  "demo_start = empty_placement 1 1 4 [1]"

theorem round_robin_verified_witness:
  "\<exists>r. replica_placement_round_robin demo_models demo_env demo_start = Some (Inr r) \<and> fst r = fst demo_start \<and> verify demo_models demo_env r = Inr ()"
proof -
  have "profiled demo_models" "fst demo_start \<noteq> []" "length (fst demo_start) = length (snd demo_start)"
    "\<forall>ms \<in> set (snd demo_start). set ms \<subseteq> {0..<int (length demo_models)}" "verify demo_models demo_env demo_start = Inr ()" by code_simp+
  then show ?thesis by (rule round_robin_verified)
qed

text \<open>
  The round-robin placement stops at the first group without room: here model 1 would still fit into group 0, but
  the placement ends because no model fits into group 1.
\<close>

lemma round_robin_stops_early:
  "replica_placement_round_robin demo_models demo_env demo_start = Some (Inr (fst demo_start, [[0], []]))"
  "open_slot demo_models (mem_budget demo_env) (fst demo_start, [[0], []]) 0 1"
  by code_simp+

end
