(* ===== verification/FastSimulator.thy ===== *)
theory FastSimulator
  imports ReplicaPlacement
begin

text \<open>
  The fast simulator of \<open>simulator/controller.py\<close> in \<^verbatim>\<open>ModelPlacement/alpaserve_lib\<close>, which scores the placements of the
  search: the tables made from a placement and the profiles, the loop over the requests with one clock per stage
  (\<open>simulate_requests_mixed\<close>) and with one clock per group (\<open>simulate_requests\<close>), the fast statistics, and the scores and
  statistics that \<open>PlacementEvaluator\<close> derives. Clocks and latencies are exact; the counters are unbounded. A latency without
  a profile is infinite in the arrays of single precision.
\<close>

section \<open>Tables\<close>

definition fixed_overhead :: py_float where
  "fixed_overhead = 11 / 1000"

definition sim_eps :: py_float where
  "sim_eps = 1 / 10 ^ 6"

text \<open>The position of a Python index.\<close>

definition idxE :: "nat \<Rightarrow> int \<Rightarrow> nat py" where
  "idxE n i = (let j = (if i < 0 then i + int n else i) in if 0 \<le> j \<and> j < int n then Inr (nat j) else Inl IndexError)"

text \<open>\<open>m_id2g_id\<close>: for every model the groups with a replica, then -1; and the number of replicas.\<close>

definition place_replica :: "nat \<Rightarrow> nat \<Rightarrow> int list list \<times> nat list \<Rightarrow> int \<Rightarrow> (int list list \<times> nat list) py" where
  "place_replica num_groups g_id t m_id =
     (case t of (tab, num_replicas) \<Rightarrow>
      bindE (idxE (length num_replicas) m_id) (\<lambda>i.
      let k = num_replicas ! i in
      bindE (assertE (k < num_groups) IndexError) (\<lambda>_. Inr (tab[i := (tab ! i)[k := int g_id]], num_replicas[i := k + 1]))))"

definition replica_table :: "nat \<Rightarrow> nat \<Rightarrow> int list list \<Rightarrow> int list list py" where
  "replica_table num_models num_groups group_models =
     bindE (foldE (\<lambda>t (g_id, m_ids). foldE (place_replica num_groups g_id) t m_ids)
        (replicate num_models (replicate num_groups (- 1)), replicate num_models 0) (zip [0..<length group_models] group_models))
       (\<lambda>(tab, num_replicas). Inr tab)"

text \<open>\<open>g_id2m_id\<close>, its inverse: for every group its models, then -1.\<close>

definition place_instance :: "nat \<Rightarrow> nat \<Rightarrow> int list list \<times> nat list \<Rightarrow> int \<Rightarrow> (int list list \<times> nat list) py" where
  "place_instance num_models m_id t g_id =
     (case t of (tab, num_instances) \<Rightarrow>
      if g_id < 0 then Inr t else
      bindE (idxE (length num_instances) g_id) (\<lambda>g.
      let k = num_instances ! g in
      bindE (assertE (k < num_models) IndexError) (\<lambda>_. Inr (tab[g := (tab ! g)[k := int m_id]], num_instances[g := k + 1]))))"

definition instance_table :: "nat \<Rightarrow> nat \<Rightarrow> int list list \<Rightarrow> int list list py" where
  "instance_table num_models num_groups tab =
     bindE (foldE (\<lambda>t (m_id, g_ids). foldE (place_instance num_models m_id) t g_ids)
        (replicate num_groups (replicate num_models (- 1)), replicate num_groups 0) (zip [0..<length tab] tab))
       (\<lambda>(tab, num_instances). Inr tab)"

text \<open>The largest stage latency and the latency of all stages, with a penalty for the number of stages.\<close>

definition stage_penalty :: "py_float list \<Rightarrow> py_float" where
  "stage_penalty ls = 9 / 1000 * of_nat (length ls)"

definition group_latency :: "para_dict \<Rightarrow> parallel_config \<Rightarrow> (xrat \<times> xrat) py" where
  "group_latency prof c =
     (case dict_get prof c of None \<Rightarrow> Inr (PosInf, PosInf)
      | Some d \<Rightarrow> bindE (lookupE (dict_get (lm_latency d)) 1) (\<lambda>ls. bindE (maxE ls) (\<lambda>mx.
          Inr (Fin (mx * (1 + stage_penalty ls)), Fin (sum_list ls * (1 + stage_penalty ls))))))"

definition stage_latency :: "nat \<Rightarrow> para_dict \<Rightarrow> parallel_config \<Rightarrow> xrat list py" where
  "stage_latency max_num_stages prof c =
     (case dict_get prof c of None \<Rightarrow> Inr (replicate max_num_stages PosInf)
      | Some d \<Rightarrow> bindE (lookupE (dict_get (lm_latency d)) 1) (\<lambda>ls.
          mapE (\<lambda>k. bindE (nthE ls k) (\<lambda>l. Inr (Fin (l * (1 + stage_penalty ls))))) [0..<nat (pc_pp c)]))"

section \<open>Simulation\<close>

fun plusX :: "xrat \<Rightarrow> xrat \<Rightarrow> xrat" where
  "plusX (Fin a) (Fin b) = Fin (a + b)"
| "plusX PosInf b = PosInf"
| "plusX a PosInf = PosInf"
| "plusX NegInf b = NegInf"
| "plusX a NegInf = NegInf"

fun fin_of :: "xrat \<Rightarrow> py_float" where
  "fin_of (Fin x) = x"
| "fin_of _ = 0"

record sim_state =
  ss_clocks :: "py_float list list"
  ss_group_requests :: "int list"
  ss_group_good :: "int list"
  ss_model_requests :: "int list"
  ss_model_good :: "int list"
  ss_finish :: "py_float list"
  ss_good :: "bool list"

definition bump :: "nat \<Rightarrow> int list \<Rightarrow> int list" where
  "bump i xs = xs[i := xs ! i + 1]"

text \<open>A request that is not served counts as finished when it arrives.\<close>

definition reject :: "py_float \<Rightarrow> sim_state \<Rightarrow> sim_state" where
  "reject tstamp s = s\<lparr>ss_finish := ss_finish s @ [tstamp], ss_good := ss_good s @ [False]\<rparr>"

text \<open>The first group of a row with the smallest clock below \<open>inf\<close>, or -1.\<close>

definition select_group :: "(nat \<Rightarrow> py_float) \<Rightarrow> int list \<Rightarrow> int" where
  "select_group clock row =
     fst (foldl (\<lambda>(g_id, mn) j. if clock (nat j) < mn then (j, clock (nat j)) else (g_id, mn)) (- 1, mem_inf) (takeWhile (\<lambda>j. 0 \<le> j) row))"

text \<open>The times at which a request leaves the stages of a pipeline.\<close>

fun walk :: "xrat \<Rightarrow> py_float list \<Rightarrow> xrat list \<Rightarrow> xrat list" where
  "walk t (c # cs) (l # ls) = (let t' = plusX (max t (Fin c)) l in t' # walk t' cs ls)"
| "walk t cs ls = []"

definition meets :: "xrat \<Rightarrow> py_float \<Rightarrow> py_float option \<Rightarrow> bool" where
  "meets finish_time tstamp slo = (case finish_time of Fin f \<Rightarrow> (case slo of Some q \<Rightarrow> f - tstamp \<le> q | None \<Rightarrow> False) | _ \<Rightarrow> False)"

definition last_clock :: "nat list \<Rightarrow> py_float list list \<Rightarrow> nat \<Rightarrow> py_float" where
  "last_clock num_stages clocks j = clocks ! j ! (if num_stages ! j = 0 then length (clocks ! j) - 1 else num_stages ! j - 1)"

definition mixed_request :: "int list list \<Rightarrow> nat list \<Rightarrow> xrat list list list \<Rightarrow> sim_state \<Rightarrow> py_float \<times> int \<times> py_float option \<Rightarrow> sim_state" where
  "mixed_request tab num_stages lat s r =
     (case r of (tstamp, m_id, slo) \<Rightarrow>
      if m_id < 0 then reject tstamp s else
      let m = nat m_id; s = s\<lparr>ss_model_requests := bump m (ss_model_requests s)\<rparr>;
          g_id = select_group (last_clock num_stages (ss_clocks s)) (tab ! m) in
      if g_id < 0 then reject tstamp s else
      let g = nat g_id; n = num_stages ! g; times = walk (Fin tstamp) (take n (ss_clocks s ! g)) (take n (lat ! m ! g));
          finish_time = plusX (if times = [] then Fin tstamp else List.last times) (Fin fixed_overhead);
          s = s\<lparr>ss_group_requests := bump g (ss_group_requests s)\<rparr> in
      if meets finish_time tstamp slo
      then s\<lparr>ss_finish := ss_finish s @ [fin_of finish_time], ss_good := ss_good s @ [True],
             ss_clocks := (ss_clocks s)[g := map fin_of times @ drop n (ss_clocks s ! g)],
             ss_group_good := bump g (ss_group_good s), ss_model_good := bump m (ss_model_good s)\<rparr>
      else reject tstamp s)"

definition sim_start :: "nat \<Rightarrow> nat \<Rightarrow> nat \<Rightarrow> sim_state" where
  "sim_start num_models num_groups stages =
     \<lparr>ss_clocks = replicate num_groups (replicate stages 0), ss_group_requests = replicate num_groups 0, ss_group_good = replicate num_groups 0,
      ss_model_requests = replicate num_models 0, ss_model_good = replicate num_models 0, ss_finish = [], ss_good = []\<rparr>"

definition simulate_requests_mixed :: "nat \<Rightarrow> nat \<Rightarrow> nat \<Rightarrow> int list list \<Rightarrow> nat list \<Rightarrow> xrat list list list \<Rightarrow>
    (py_float \<times> int \<times> py_float option) list \<Rightarrow> sim_state" where
  "simulate_requests_mixed num_models num_groups max_num_stages tab num_stages lat rs =
     foldl (mixed_request tab num_stages lat) (sim_start num_models num_groups max_num_stages) rs"

text \<open>\<open>simulate_requests\<close>: one clock per group, which is free again after the slowest stage.\<close>

definition single_request :: "int list list \<Rightarrow> (xrat \<times> xrat) list list \<Rightarrow> sim_state \<Rightarrow> py_float \<times> int \<times> py_float option \<Rightarrow> sim_state" where
  "single_request tab lat s r =
     (case r of (tstamp, m_id, slo) \<Rightarrow>
      if m_id < 0 then reject tstamp s else
      let m = nat m_id; s = s\<lparr>ss_model_requests := bump m (ss_model_requests s)\<rparr>;
          g_id = select_group (\<lambda>j. ss_clocks s ! j ! 0) (tab ! m) in
      if g_id < 0 then reject tstamp s else
      let g = nat g_id; start_time = max (ss_clocks s ! g ! 0) tstamp; (max_latency, sum_latency) = lat ! m ! g;
          finish_time = plusX (plusX (Fin start_time) sum_latency) (Fin fixed_overhead);
          s = s\<lparr>ss_group_requests := bump g (ss_group_requests s)\<rparr> in
      if meets finish_time tstamp slo
      then s\<lparr>ss_finish := ss_finish s @ [fin_of finish_time], ss_good := ss_good s @ [True],
             ss_clocks := (ss_clocks s)[g := [fin_of (plusX (Fin start_time) max_latency)]],
             ss_group_good := bump g (ss_group_good s), ss_model_good := bump m (ss_model_good s)\<rparr>
      else reject tstamp s)"

definition simulate_requests :: "nat \<Rightarrow> nat \<Rightarrow> int list list \<Rightarrow> (xrat \<times> xrat) list list \<Rightarrow> (py_float \<times> int \<times> py_float option) list \<Rightarrow> sim_state" where
  "simulate_requests num_models num_groups tab lat rs = foldl (single_request tab lat) (sim_start num_models num_groups 1) rs"

section \<open>One case\<close>

text \<open>\<open>approximate_one_case_one_placement\<close> without batching.\<close>

definition approximate_one_case_one_placement :: "bool \<Rightarrow> model_placement \<Rightarrow> para_dict list \<Rightarrow> int list \<Rightarrow> py_float option list \<Rightarrow> py_float list \<Rightarrow> sim_state py" where
  "approximate_one_case_one_placement mixed pl profs model_ids slos arrivals =
     (let cs = fst pl; num_groups = length cs; num_models = length profs; num_stages = map (\<lambda>c. nat (pc_pp c)) cs;
          rs = zip arrivals (zip model_ids slos) in
      bindE (replica_table num_models num_groups (snd pl)) (\<lambda>tab.
      bindE (instance_table num_models num_groups tab) (\<lambda>_.
      bindE (mapE (\<lambda>prof. mapE (group_latency prof) cs) profs) (\<lambda>glat.
      if mixed then
        bindE (assertE (num_stages \<noteq> []) ValueError) (\<lambda>_.
        let max_num_stages = Max (set num_stages) in
        bindE (mapE (\<lambda>prof. mapE (stage_latency max_num_stages prof) cs) profs) (\<lambda>lat.
        Inr (simulate_requests_mixed num_models num_groups max_num_stages tab num_stages lat rs)))
      else Inr (simulate_requests num_models num_groups tab glat rs)))))"

text \<open>The input of the simulator, which is cached with the workload: the models by name, and the model and the objective of each request.\<close>

definition name2profiling :: "model_data list \<Rightarrow> (string, para_dict) dict" where
  "name2profiling mds = foldl (\<lambda>d x. dict_set (md_name x) (md_para_dict x) d) [] mds"

definition name2model_id :: "string list \<Rightarrow> (string, int) dict" where
  "name2model_id names = foldl (\<lambda>d (i, m). dict_set m (int i) d) [] (zip [0..<length names] names)"

definition sim_input :: "model_data list \<Rightarrow> sim_workload \<Rightarrow> (int list \<times> py_float option list \<times> string list \<times> para_dict list) py" where
  "sim_input mds w =
     (let d = name2profiling mds; names = dict_keys d in
      bindE (assertE (d \<noteq> []) ValueError) (\<lambda>_.
      Inr (map (\<lambda>r. case dict_get (name2model_id names) (rq_model r) of None \<Rightarrow> - 1 | Some i \<Rightarrow> i) (w_requests w),
        map rq_slo (w_requests w), names, map snd d)))"

definition fast_stats :: "string list \<Rightarrow> py_float list \<Rightarrow> sim_state \<Rightarrow> sim_stats py" where
  "fast_stats names start s =
     bindE (assertE (start \<noteq> []) IndexError) (\<lambda>_.
     let interval = List.last start - hd start in
     Inr \<lparr>st_per_model = map (\<lambda>i. \<lparr>pm_name = names ! i, pm_num_requests = ss_model_requests s ! i,
            pm_goodput = of_int (ss_model_good s ! i) / (of_int (ss_model_requests s ! i) + sim_eps),
            pm_throughput = np_divide (of_int (ss_model_requests s ! i)) interval,
            pm_latency_mean = 0, pm_latency_std = 0, pm_latency_p90 = 0, pm_latency_p99 = 0,
            pm_latency = [], pm_starts = [], pm_finishes = []\<rparr>) [0..<length names],
       st_group_num_requests = Some (ss_group_requests s),
       st_goodput = of_nat (length (filter id (ss_good s))) / of_nat (length (ss_good s)),
       st_latency_mean = list_mean (map2 (\<lambda>f a. f - a) (ss_finish s) start),
       st_num_requests = int (length start), st_request_rate = np_divide (of_nat (length start)) interval\<rparr>)"

definition approximate_one_case :: "model_data list \<Rightarrow> sim_workload \<Rightarrow> model_placement \<Rightarrow> sim_stats py" where
  "approximate_one_case mds w pl =
     bindE (sim_input mds w) (\<lambda>(model_ids, slos, names, profs).
     bindE (approximate_one_case_one_placement True pl profs model_ids slos (w_arrivals w)) (\<lambda>s.
     fast_stats names (w_arrivals w) s))"

definition get_stats_simulation :: "model_data list \<Rightarrow> sim_workload \<Rightarrow> model_placement \<Rightarrow> sim_stats py" where
  "get_stats_simulation mds w pl = approximate_one_case mds w pl"

definition get_goodput_simulation :: "model_data list \<Rightarrow> sim_workload \<Rightarrow> model_placement \<Rightarrow> py_float py" where
  "get_goodput_simulation mds w pl =
     bindE (approximate_one_case mds w pl) (\<lambda>st.
     Inr (st_goodput st - st_latency_mean st / 10000 + of_nat (sum_list (map length (snd pl))) / 1000000))"

section \<open>Lemmas: choice and walk\<close>

lemma select_fold:
  fixes clock :: "nat \<Rightarrow> py_float"
  defines "f \<equiv> \<lambda>(g_id, mn) j. if clock (nat j) < mn then (j, clock (nat j)) else (g_id, mn)"
  shows "foldl f (g0, mn0) js = (g0, mn0) \<and> (\<forall>j \<in> set js. mn0 \<le> clock (nat j)) \<or>
    (\<exists>g \<in> set js. foldl f (g0, mn0) js = (g, clock (nat g)) \<and> clock (nat g) < mn0 \<and> (\<forall>j \<in> set js. clock (nat g) \<le> clock (nat j)))"
proof (induction js rule: rev_induct)
  case (snoc k js)
  let ?r = "foldl f (g0, mn0) js"
  have step: "foldl f (g0, mn0) (js @ [k]) = (if clock (nat k) < snd ?r then (k, clock (nat k)) else ?r)"
    by (simp add: f_def split: prod.splits)
  from snoc show ?case
  proof
    assume "?r = (g0, mn0) \<and> (\<forall>j \<in> set js. mn0 \<le> clock (nat j))"
    then show ?thesis unfolding step by (cases "clock (nat k) < mn0") auto
  next
    assume "\<exists>g \<in> set js. ?r = (g, clock (nat g)) \<and> clock (nat g) < mn0 \<and> (\<forall>j \<in> set js. clock (nat g) \<le> clock (nat j))"
    then obtain g where g: "g \<in> set js" "?r = (g, clock (nat g))" "clock (nat g) < mn0" "\<forall>j \<in> set js. clock (nat g) \<le> clock (nat j)" by blast
    show ?thesis
    proof (cases "clock (nat k) < clock (nat g)")
      case True
      then have "foldl f (g0, mn0) (js @ [k]) = (k, clock (nat k))" "clock (nat k) < mn0" using g step by auto
      moreover have "\<forall>j \<in> set (js @ [k]). clock (nat k) \<le> clock (nat j)" using g(4) True by force
      ultimately show ?thesis by auto
    next
      case False
      then show ?thesis using g step by (intro disjI2 bexI [of _ g]) auto
    qed
  qed
qed simp

lemma select_group:
  assumes "0 \<le> select_group clock row"
  shows "select_group clock row \<in> set row" "clock (nat (select_group clock row)) < mem_inf"
    "\<forall>j \<in> set (takeWhile (\<lambda>j. 0 \<le> j) row). clock (nat (select_group clock row)) \<le> clock (nat j)"
proof -
  let ?js = "takeWhile (\<lambda>j. 0 \<le> j) row"
  obtain g where g: "g \<in> set ?js" "select_group clock row = g" "clock (nat g) < mem_inf" "\<forall>j \<in> set ?js. clock (nat g) \<le> clock (nat j)"
    using select_fold [of clock "- 1" mem_inf ?js] assms unfolding select_group_def by auto
  then show "select_group clock row \<in> set row" "clock (nat (select_group clock row)) < mem_inf"
    "\<forall>j \<in> set ?js. clock (nat (select_group clock row)) \<le> clock (nat j)" by (auto dest: set_takeWhileD)
qed

lemma select_group_none:
  assumes "select_group clock row < 0" "j \<in> set (takeWhile (\<lambda>j. 0 \<le> j) row)"
  shows "mem_inf \<le> clock (nat j)"
proof -
  let ?js = "takeWhile (\<lambda>j. 0 \<le> j) row"
  have "0 \<le> g" if "g \<in> set ?js" for g using that by (auto dest: set_takeWhileD)
  then show ?thesis using select_fold [of clock "- 1" mem_inf ?js] assms unfolding select_group_def by fastforce
qed

lemma plusX_mono: "a \<le> b \<Longrightarrow> plusX a l \<le> plusX b l"
  by (cases a; cases b; cases l) auto

lemma plusX_foldl_mono: "a \<le> b \<Longrightarrow> foldl plusX a ls \<le> foldl plusX b ls"
  by (induction ls arbitrary: a b) (auto intro: plusX_mono)

definition walk_end :: "xrat \<Rightarrow> py_float list \<Rightarrow> xrat list \<Rightarrow> xrat" where
  "walk_end t cs ls = (if walk t cs ls = [] then t else List.last (walk t cs ls))"

lemma walk_end_simps [simp]:
  "walk_end t (c # cs) (l # ls) = walk_end (plusX (max t (Fin c)) l) cs ls"
  "walk_end t [] ls = t" "walk_end t cs [] = t"
  by (simp_all add: walk_end_def Let_def)

lemma length_walk [simp]: "length (walk t cs ls) = min (length cs) (length ls)"
  by (induction t cs ls rule: walk.induct) (simp_all add: Let_def)

text \<open>A pipeline takes at least the latencies of its stages.\<close>

lemma walk_end_ge: "length cs = length ls \<Longrightarrow> foldl plusX t ls \<le> walk_end t cs ls"
proof (induction t cs ls rule: walk.induct)
  case (1 t c cs l ls)
  have "foldl plusX (plusX t l) ls \<le> foldl plusX (plusX (max t (Fin c)) l) ls"
    by (intro plusX_foldl_mono plusX_mono) simp
  with 1 show ?case by (auto intro: order_trans)
qed simp_all

section \<open>Lemmas: the loop over the requests\<close>

text \<open>The tables fit together.\<close>

definition sim_tables :: "nat \<Rightarrow> nat \<Rightarrow> nat \<Rightarrow> int list list \<Rightarrow> nat list \<Rightarrow> xrat list list list \<Rightarrow> bool" where
  "sim_tables nm ng stages tab num_stages lat \<longleftrightarrow>
     length tab = nm \<and> (\<forall>row \<in> set tab. set row \<subseteq> {- 1..<int ng}) \<and> length num_stages = ng \<and> (\<forall>n \<in> set num_stages. n \<le> stages) \<and>
     length lat = nm \<and> (\<forall>r \<in> set lat. length r = ng \<and> (\<forall>g < ng. num_stages ! g \<le> length (r ! g)))"

text \<open>
  What a request gets: in time and not before its stages have run on some group with a replica, or finished
  on arrival.
\<close>

definition outcome_ok :: "int list list \<Rightarrow> nat list \<Rightarrow> xrat list list list \<Rightarrow> py_float \<times> int \<times> py_float option \<Rightarrow> py_float \<Rightarrow> bool \<Rightarrow> bool" where
  "outcome_ok tab num_stages lat r f g =
     (case r of (a, m, slo) \<Rightarrow>
      if g then 0 \<le> m \<and> (\<exists>q. slo = Some q \<and> f - a \<le> q) \<and>
        (\<exists>j \<in> set (tab ! nat m). 0 \<le> j \<and> foldl plusX (Fin a) (take (num_stages ! nat j) (lat ! nat m ! nat j)) \<le> Fin (f - fixed_overhead))
      else f = a)"

definition counts_ok :: "nat \<Rightarrow> nat \<Rightarrow> sim_state \<Rightarrow> bool" where
  "counts_ok nm ng s \<longleftrightarrow>
     length (ss_group_requests s) = ng \<and> length (ss_group_good s) = ng \<and> length (ss_model_requests s) = nm \<and> length (ss_model_good s) = nm \<and>
     (\<forall>g < ng. 0 \<le> ss_group_good s ! g \<and> ss_group_good s ! g \<le> ss_group_requests s ! g) \<and>
     (\<forall>m < nm. 0 \<le> ss_model_good s ! m \<and> ss_model_good s ! m \<le> ss_model_requests s ! m) \<and>
     sum_list (ss_group_good s) = int (length (filter id (ss_good s))) \<and> sum_list (ss_model_good s) = int (length (filter id (ss_good s))) \<and>
     sum_list (ss_group_requests s) \<le> sum_list (ss_model_requests s) \<and> sum_list (ss_model_requests s) \<le> int (length (ss_good s))"

lemma sum_list_bump: "i < length xs \<Longrightarrow> sum_list (bump i xs) = sum_list xs + 1"
  unfolding bump_def by (induction xs arbitrary: i) (auto split: nat.splits)

lemma bump_simps [simp]: "length (bump i xs) = length xs" "i < length xs \<Longrightarrow> bump i xs ! j = (if j = i then xs ! i + 1 else xs ! j)"
  by (simp_all add: bump_def nth_list_update)

definition clocks_ok :: "nat \<Rightarrow> nat \<Rightarrow> sim_state \<Rightarrow> bool" where
  "clocks_ok ng stages s \<longleftrightarrow> length (ss_clocks s) = ng \<and> (\<forall>row \<in> set (ss_clocks s). length row = stages)"

definition outcomes_ok :: "int list list \<Rightarrow> nat list \<Rightarrow> xrat list list list \<Rightarrow> (py_float \<times> int \<times> py_float option) list \<Rightarrow> sim_state \<Rightarrow> bool" where
  "outcomes_ok tab num_stages lat rs s \<longleftrightarrow>
     list_all2 (\<lambda>r (f, g). outcome_ok tab num_stages lat r f g) rs (zip (ss_finish s) (ss_good s)) \<and> length (ss_finish s) = length (ss_good s)"

lemma outcomes_snoc:
  assumes "outcomes_ok tab num_stages lat rs s" "outcome_ok tab num_stages lat r f g" "ss_finish s' = ss_finish s @ [f]" "ss_good s' = ss_good s @ [g]"
  shows "outcomes_ok tab num_stages lat (rs @ [r]) s'"
  using assms by (simp add: outcomes_ok_def list_all2_appendI)

lemma sim_start_ok:
  "counts_ok nm ng (sim_start nm ng stages)" "clocks_ok ng stages (sim_start nm ng stages)" "outcomes_ok tab num_stages lat [] (sim_start nm ng stages)"
  by (auto simp: counts_ok_def clocks_ok_def outcomes_ok_def sim_start_def sum_list_replicate)

text \<open>One request: the three ways to treat it.\<close>

lemma mixed_request_cases:
  fixes tab :: "int list list" and lat :: "xrat list list list" and num_stages :: "nat list"
  defines "g_of \<equiv> \<lambda>s m. select_group (last_clock num_stages (ss_clocks s)) (tab ! m)"
  defines "times_of \<equiv> \<lambda>s t m g. walk (Fin t) (take (num_stages ! g) (ss_clocks s ! g)) (take (num_stages ! g) (lat ! m ! g))"
  defines "end_of \<equiv> \<lambda>s t m g. walk_end (Fin t) (take (num_stages ! g) (ss_clocks s ! g)) (take (num_stages ! g) (lat ! m ! g))"
  obtains (unknown) "m_id < 0" "mixed_request tab num_stages lat s (t, m_id, slo) = reject t s"
  | (unplaced) "0 \<le> m_id" "g_of s (nat m_id) < 0"
      "mixed_request tab num_stages lat s (t, m_id, slo) = reject t (s\<lparr>ss_model_requests := bump (nat m_id) (ss_model_requests s)\<rparr>)"
  | (late) g where "0 \<le> m_id" "g_of s (nat m_id) = int g" "\<not> meets (plusX (end_of s t (nat m_id) g) (Fin fixed_overhead)) t slo"
      "mixed_request tab num_stages lat s (t, m_id, slo) =
         reject t (s\<lparr>ss_model_requests := bump (nat m_id) (ss_model_requests s), ss_group_requests := bump g (ss_group_requests s)\<rparr>)"
  | (served) g f where "0 \<le> m_id" "g_of s (nat m_id) = int g" "plusX (end_of s t (nat m_id) g) (Fin fixed_overhead) = Fin f" "meets (Fin f) t slo"
      "mixed_request tab num_stages lat s (t, m_id, slo) =
         s\<lparr>ss_model_requests := bump (nat m_id) (ss_model_requests s), ss_group_requests := bump g (ss_group_requests s),
           ss_finish := ss_finish s @ [f], ss_good := ss_good s @ [True],
           ss_clocks := (ss_clocks s)[g := map fin_of (times_of s t (nat m_id) g) @ drop (num_stages ! g) (ss_clocks s ! g)],
           ss_group_good := bump g (ss_group_good s), ss_model_good := bump (nat m_id) (ss_model_good s)\<rparr>"
proof (cases "m_id < 0")
  case True
  with unknown show ?thesis by (simp add: mixed_request_def)
next
  case m: False
  show ?thesis
  proof (cases "g_of s (nat m_id) < 0")
    case True
    with m unplaced show ?thesis by (simp add: mixed_request_def Let_def g_of_def)
  next
    case False
    then obtain g where g: "g_of s (nat m_id) = int g" by (metis nat_0_le not_less)
    let ?f = "plusX (end_of s t (nat m_id) g) (Fin fixed_overhead)"
    show ?thesis
    proof (cases "meets ?f t slo")
      case True
      then obtain f where f: "?f = Fin f" by (auto simp: meets_def split: xrat.splits)
      show ?thesis using True m g f by (intro served [of g f]) (simp_all add: mixed_request_def Let_def g_of_def end_of_def times_of_def walk_end_def)
    next
      case False
      then show ?thesis using m g by (intro late [of g]) (simp_all add: mixed_request_def Let_def g_of_def end_of_def walk_end_def)
    qed
  qed
qed

lemma plusX_Fin_eq: "plusX a (Fin b) = Fin c \<Longrightarrow> a = Fin (c - b)"
  by (cases a) auto

lemma meets_iff: "meets x t slo \<longleftrightarrow> (\<exists>f q. x = Fin f \<and> slo = Some q \<and> f - t \<le> q)"
  by (auto simp: meets_def split: xrat.splits option.splits)

lemma mixed_request_ok:
  assumes tables: "sim_tables nm ng stages tab num_stages lat" and r: "fst (snd r) < int nm"
    and inv: "counts_ok nm ng s" "clocks_ok ng stages s" "outcomes_ok tab num_stages lat rs s"
  shows "counts_ok nm ng (mixed_request tab num_stages lat s r) \<and> clocks_ok ng stages (mixed_request tab num_stages lat s r) \<and>
    outcomes_ok tab num_stages lat (rs @ [r]) (mixed_request tab num_stages lat s r)"
proof -
  obtain t m_id slo where req: "r = (t, m_id, slo)" by (metis surj_pair)
  have known: "int g < int ng" "int g \<in> set (tab ! nat m_id)"
    if "select_group (last_clock num_stages (ss_clocks s)) (tab ! nat m_id) = int g" "0 \<le> m_id" for g
  proof -
    show mem: "int g \<in> set (tab ! nat m_id)" using select_group(1) [of "last_clock num_stages (ss_clocks s)" "tab ! nat m_id"] that(1) by simp
    have "tab ! nat m_id \<in> set tab" using tables r req that(2) by (simp add: sim_tables_def)
    with mem show "int g < int ng" using tables by (force simp: sim_tables_def)
  qed
  have rejected: "outcome_ok tab num_stages lat (t, m_id, slo) t False" by (simp add: outcome_ok_def)
  show ?thesis unfolding req
  proof (cases rule: mixed_request_cases [of m_id tab num_stages lat s t slo])
    case unknown
    then show "counts_ok nm ng (mixed_request tab num_stages lat s (t, m_id, slo)) \<and> clocks_ok ng stages (mixed_request tab num_stages lat s (t, m_id, slo)) \<and>
      outcomes_ok tab num_stages lat (rs @ [(t, m_id, slo)]) (mixed_request tab num_stages lat s (t, m_id, slo))"
      using inv outcomes_snoc [OF inv(3) rejected] by (simp add: reject_def counts_ok_def clocks_ok_def)
  next
    case unplaced
    then have "nat m_id < nm" using r req by simp
    with unplaced show "counts_ok nm ng (mixed_request tab num_stages lat s (t, m_id, slo)) \<and> clocks_ok ng stages (mixed_request tab num_stages lat s (t, m_id, slo)) \<and>
      outcomes_ok tab num_stages lat (rs @ [(t, m_id, slo)]) (mixed_request tab num_stages lat s (t, m_id, slo))"
      using inv outcomes_snoc [OF inv(3) rejected] by (auto simp: reject_def counts_ok_def clocks_ok_def sum_list_bump)
  next
    case (late g)
    then have "nat m_id < nm" "g < ng" using r req known(1) [OF late(2,1)] by simp_all
    with late show "counts_ok nm ng (mixed_request tab num_stages lat s (t, m_id, slo)) \<and> clocks_ok ng stages (mixed_request tab num_stages lat s (t, m_id, slo)) \<and>
      outcomes_ok tab num_stages lat (rs @ [(t, m_id, slo)]) (mixed_request tab num_stages lat s (t, m_id, slo))"
      using inv outcomes_snoc [OF inv(3) rejected] by (auto simp: reject_def counts_ok_def clocks_ok_def sum_list_bump)
  next
    case (served g f)
    have m: "nat m_id < nm" and g: "g < ng" using r req served(1) known(1) [OF served(2,1)] by simp_all
    let ?n = "num_stages ! g" and ?row = "ss_clocks s ! g" and ?lat = "lat ! nat m_id ! g"
    have n: "?n \<le> stages" "?n \<le> length ?lat" using tables m g by (auto simp: sim_tables_def)
    have row: "length ?row = stages" using inv(2) g by (simp add: clocks_ok_def)
    have "walk_end (Fin t) (take ?n ?row) (take ?n ?lat) = Fin (f - fixed_overhead)" using served(3) by (rule plusX_Fin_eq)
    then have "foldl plusX (Fin t) (take ?n ?lat) \<le> Fin (f - fixed_overhead)"
      using walk_end_ge [of "take ?n ?row" "take ?n ?lat" "Fin t"] n row by simp
    then have out: "outcome_ok tab num_stages lat (t, m_id, slo) f True"
      using served(1,4) known(2) [OF served(2,1)] by (auto simp: outcome_ok_def meets_iff intro!: bexI [of _ "int g"])
    show "counts_ok nm ng (mixed_request tab num_stages lat s (t, m_id, slo)) \<and> clocks_ok ng stages (mixed_request tab num_stages lat s (t, m_id, slo)) \<and>
      outcomes_ok tab num_stages lat (rs @ [(t, m_id, slo)]) (mixed_request tab num_stages lat s (t, m_id, slo))"
    proof (intro conjI)
      show "counts_ok nm ng (mixed_request tab num_stages lat s (t, m_id, slo))"
        using inv(1) m g unfolding served(5) by (auto simp: counts_ok_def sum_list_bump)
      have "length (map fin_of (walk (Fin t) (take ?n ?row) (take ?n ?lat)) @ drop ?n ?row) = stages" using n row by simp
      then show "clocks_ok ng stages (mixed_request tab num_stages lat s (t, m_id, slo))"
        using inv(2) unfolding served(5) clocks_ok_def by (auto dest: set_update_subset_insert [THEN subsetD])
      show "outcomes_ok tab num_stages lat (rs @ [(t, m_id, slo)]) (mixed_request tab num_stages lat s (t, m_id, slo))"
        unfolding served(5) by (rule outcomes_snoc [OF inv(3) out]) simp_all
    qed
  qed
qed

lemma simulate_requests_mixed_ok:
  assumes "sim_tables nm ng stages tab num_stages lat" "\<forall>r \<in> set rs. fst (snd r) < int nm"
  defines "s \<equiv> simulate_requests_mixed nm ng stages tab num_stages lat rs"
  shows "counts_ok nm ng s" "clocks_ok ng stages s" "outcomes_ok tab num_stages lat rs s"
proof -
  have "counts_ok nm ng s \<and> clocks_ok ng stages s \<and> outcomes_ok tab num_stages lat rs s"
    using assms(2) unfolding s_def simulate_requests_mixed_def
  proof (induction rs rule: rev_induct)
    case (snoc r rs)
    then show ?case using mixed_request_ok [OF assms(1), of r _ rs] by (simp del: split_paired_All)
  qed (simp add: sim_start_ok)
  then show "counts_ok nm ng s" "clocks_ok ng stages s" "outcomes_ok tab num_stages lat rs s" by auto
qed

section \<open>Lemmas: the tables of a placement\<close>

text \<open>Rows that are filled from the left, the rest of a row being -1.\<close>

definition padded :: "nat \<Rightarrow> int list list \<Rightarrow> int list list" where
  "padded width rows = map (\<lambda>r. r @ replicate (width - length r) (- 1)) rows"

definition rows_with :: "nat \<Rightarrow> int list list \<Rightarrow> int list list" where
  "rows_with n xss = map (\<lambda>i. map int (filter (\<lambda>k. int i \<in> set (xss ! k)) [0..<length xss])) [0..<n]"

lemma place_instance_padded:
  assumes "i < length rows" "length (rows ! i) < width"
  shows "place_instance width k (padded width rows, map length rows) (int i) =
    Inr (padded width (rows[i := rows ! i @ [int k]]), map length (rows[i := rows ! i @ [int k]]))"
proof -
  have "replicate (width - length (rows ! i)) (- 1 :: int) = - 1 # replicate (width - Suc (length (rows ! i))) (- 1)"
    using assms(2) by (metis Suc_diff_Suc replicate_Suc)
  then show ?thesis using assms by (simp add: place_instance_def idxE_def padded_def map_update Let_def)
qed

lemma place_instances_padded:
  assumes "distinct (filter (\<lambda>i. 0 \<le> i) is)" "\<forall>i \<in> set is. i < int (length rows)" "\<forall>i < length rows. int i \<in> set is \<longrightarrow> length (rows ! i) < width"
  shows "foldE (place_instance width k) (padded width rows, map length rows) is =
    (let rows' = map (\<lambda>i. if int i \<in> set is then rows ! i @ [int k] else rows ! i) [0..<length rows] in Inr (padded width rows', map length rows'))"
  using assms
proof (induction "is" arbitrary: rows)
  case Nil
  then show ?case by (simp add: map_nth)
next
  case (Cons j js)
  show ?case
  proof (cases "0 \<le> j")
    case True
    then obtain i where i: "j = int i" by (metis nat_0_le)
    let ?rows = "rows[i := rows ! i @ [int k]]"
    have fit: "i < length rows" "length (rows ! i) < width" using Cons.prems i by auto
    have new: "int i \<notin> set js" using Cons.prems(1) i by auto
    have "\<forall>x < length ?rows. int x \<in> set js \<longrightarrow> length (?rows ! x) < width"
    proof (intro allI impI)
      fix x assume "x < length ?rows" "int x \<in> set js"
      moreover from this new have "x \<noteq> i" by auto
      ultimately show "length (?rows ! x) < width" using Cons.prems(3) by simp
    qed
    then have "foldE (place_instance width k) (padded width ?rows, map length ?rows) js =
      (let rows' = map (\<lambda>x. if int x \<in> set js then ?rows ! x @ [int k] else ?rows ! x) [0..<length ?rows] in Inr (padded width rows', map length rows'))"
      using Cons.prems i by (intro Cons.IH) auto
    moreover have "map (\<lambda>x. if int x \<in> set js then ?rows ! x @ [int k] else ?rows ! x) [0..<length ?rows] =
        map (\<lambda>x. if int x \<in> set (j # js) then rows ! x @ [int k] else rows ! x) [0..<length rows]"
      using new i fit(1) by (auto simp: nth_list_update)
    moreover have "foldE (place_instance width k) (padded width rows, map length rows) (j # js) =
        foldE (place_instance width k) (padded width ?rows, map length ?rows) js"
      using place_instance_padded [OF fit, of k] i by simp
    ultimately show ?thesis by (simp only: Let_def)
  next
    case False
    then have "int x \<in> set (j # js) \<longleftrightarrow> int x \<in> set js" for x by auto
    moreover have "place_instance width k t j = Inr t" for t using False by (cases t) (simp add: place_instance_def)
    ultimately show ?thesis using Cons False by simp
  qed
qed

lemma fill_table:
  assumes "\<forall>is \<in> set xss. distinct (filter (\<lambda>i. 0 \<le> i) is) \<and> (\<forall>i \<in> set is. i < int n)" "length xss \<le> width"
  shows "foldE (\<lambda>t (k, is). foldE (place_instance width k) t is) (replicate n (replicate width (- 1)), replicate n 0) (zip [0..<length xss] xss) =
    Inr (padded width (rows_with n xss), map length (rows_with n xss))"
  using assms
proof (induction xss rule: rev_induct)
  case Nil
  then show ?case by (simp add: rows_with_def padded_def map_replicate_const)
next
  case (snoc xs xss)
  let ?rows = "rows_with n xss"
  have len: "length (?rows ! i) < width" if "i < n" for i
  proof -
    have "length (?rows ! i) \<le> length xss" using that length_filter_le [of "\<lambda>k. int i \<in> set (xss ! k)" "[0..<length xss]"] by (simp add: rows_with_def)
    then show ?thesis using snoc.prems(2) by simp
  qed
  have "foldE (place_instance width (length xss)) (padded width ?rows, map length ?rows) xs =
    (let rows' = map (\<lambda>i. if int i \<in> set xs then ?rows ! i @ [int (length xss)] else ?rows ! i) [0..<length ?rows] in Inr (padded width rows', map length rows'))"
    using snoc.prems len by (intro place_instances_padded) (auto simp: rows_with_def)
  moreover have "filter (\<lambda>k. int i \<in> set ((xss @ [xs]) ! k)) [0..<length xss] = filter (\<lambda>k. int i \<in> set (xss ! k)) [0..<length xss]" for i
    by (intro filter_cong) (auto simp: nth_append)
  then have "map (\<lambda>i. if int i \<in> set xs then ?rows ! i @ [int (length xss)] else ?rows ! i) [0..<length ?rows] = rows_with n (xss @ [xs])"
    by (auto simp: rows_with_def)
  moreover have "zip [0..<length (xss @ [xs])] (xss @ [xs]) = zip [0..<length xss] xss @ [(length xss, xs)]" by (simp add: zip_append1)
  ultimately show ?case using snoc by (simp add: foldE_append Let_def)
qed

lemma foldE_cong: "(\<And>s x. x \<in> set xs \<Longrightarrow> f s x = g s x) \<Longrightarrow> foldE f s xs = foldE g s xs"
proof (induction xs arbitrary: s)
  case (Cons x xs)
  then have "f s x = g s x" "foldE f t xs = foldE g t xs" for t by auto
  then show ?case by simp
qed simp

text \<open>For every model the groups that hold it in ascending order, and for every group its models.\<close>

lemma replica_table_ok:
  assumes "valid_placement nm pl" "length (fst pl) = ng"
  shows "replica_table nm ng (snd pl) = Inr (padded ng (rows_with nm (snd pl)))"
proof -
  have v: "length (snd pl) = ng" "\<forall>ms \<in> set (snd pl). distinct ms \<and> (\<forall>i \<in> set ms. 0 \<le> i \<and> i < int nm)"
    using assms by (auto simp: valid_placement_def subset_iff)
  let ?start = "(replicate nm (replicate ng (- 1)), replicate nm 0)"
  have inner: "foldE (place_replica ng g) t ms = foldE (place_instance ng g) t ms" if "ms \<in> set (snd pl)" for g t ms
    using v(2) that by (intro foldE_cong) (force simp: place_replica_def place_instance_def split: prod.splits)
  have "foldE (\<lambda>t (g_id, m_ids). foldE (place_replica ng g_id) t m_ids) ?start (zip [0..<length (snd pl)] (snd pl)) =
      foldE (\<lambda>t (g_id, m_ids). foldE (place_instance ng g_id) t m_ids) ?start (zip [0..<length (snd pl)] (snd pl))"
    by (intro foldE_cong) (auto intro: inner dest: set_zip_rightD)
  also have "\<dots> = Inr (padded ng (rows_with nm (snd pl)), map length (rows_with nm (snd pl)))"
    using v by (intro fill_table) auto
  finally show ?thesis by (simp add: replica_table_def)
qed

lemma padded_rows: "row \<in> set (padded ng (rows_with nm xss)) \<Longrightarrow> length xss \<le> ng \<Longrightarrow> set row \<subseteq> {- 1..<int ng} \<and> distinct (filter (\<lambda>i. 0 \<le> i) row)"
  by (auto simp: padded_def rows_with_def filter_map distinct_map o_def)

lemma instance_table_ok:
  assumes "length xss = ng"
  shows "\<exists>t. instance_table nm ng (padded ng (rows_with nm xss)) = Inr t"
proof -
  let ?tab = "padded ng (rows_with nm xss)"
  have len: "length ?tab = nm" by (simp add: padded_def rows_with_def)
  have "\<forall>row \<in> set ?tab. distinct (filter (\<lambda>i. 0 \<le> i) row) \<and> (\<forall>i \<in> set row. i < int ng)"
    using padded_rows [of _ ng nm xss] assms by fastforce
  from fill_table [OF this, of nm] show ?thesis using len by (simp add: instance_table_def)
qed

lemma nth_padded: "m < nm \<Longrightarrow> length xss = ng \<Longrightarrow> 0 \<le> j \<Longrightarrow> j \<in> set (padded ng (rows_with nm xss) ! m) \<longleftrightarrow> nat j < ng \<and> int m \<in> set (xss ! nat j)"
  by (auto simp: padded_def rows_with_def intro!: image_eqI [of _ _ "nat j"])

section \<open>Lemmas: one case\<close>

lemma latency_entry_ok:
  assumes "\<forall>(c, d) \<in> set prof. case dict_get (lm_latency d) 1 of None \<Rightarrow> False | Some ls \<Rightarrow> ls \<noteq> [] \<and> nat (pc_pp c) \<le> length ls"
    "nat (pc_pp c) \<le> stages"
  shows "\<exists>gl. group_latency prof c = Inr gl" "\<exists>sl. stage_latency stages prof c = Inr sl \<and> nat (pc_pp c) \<le> length sl"
proof -
  consider "dict_get prof c = None" | d ls where "dict_get prof c = Some d" "dict_get (lm_latency d) 1 = Some ls" "ls \<noteq> []" "nat (pc_pp c) \<le> length ls"
    using assms(1) by (cases "dict_get prof c") (fastforce dest: map_of_SomeD split: option.splits)+
  then have "(\<exists>gl. group_latency prof c = Inr gl) \<and> (\<exists>sl. stage_latency stages prof c = Inr sl \<and> nat (pc_pp c) \<le> length sl)"
  proof cases
    case 1
    then show ?thesis using assms(2) by (simp add: group_latency_def stage_latency_def)
  next
    case 2
    have "mapE (\<lambda>k. bindE (nthE ls k) (\<lambda>l. Inr (Fin (l * (1 + stage_penalty ls))))) [0..<nat (pc_pp c)] =
        Inr (map (\<lambda>k. Fin (ls ! k * (1 + stage_penalty ls))) [0..<nat (pc_pp c)])"
      using 2(4) by (intro mapE_total) (simp add: nthE_def)
    with 2 show ?thesis by (simp add: group_latency_def stage_latency_def lookupE_def maxE_def)
  qed
  then show "\<exists>gl. group_latency prof c = Inr gl" "\<exists>sl. stage_latency stages prof c = Inr sl \<and> nat (pc_pp c) \<le> length sl" by auto
qed

lemma mapE_exists: "\<forall>x \<in> set xs. \<exists>y. f x = Inr y \<and> P x y \<Longrightarrow> \<exists>ys. mapE f xs = Inr ys \<and> list_all2 P xs ys"
  by (induction xs) auto

definition profiles_ok :: "para_dict list \<Rightarrow> bool" where
  "profiles_ok profs \<longleftrightarrow> (\<forall>prof \<in> set profs. \<forall>(c, d) \<in> set prof.
     case dict_get (lm_latency d) 1 of None \<Rightarrow> False | Some ls \<Rightarrow> ls \<noteq> [] \<and> nat (pc_pp c) \<le> length ls)"

text \<open>The simulation of a placement of known models on groups returns, and its tables fit together.\<close>

lemma approximate_ok:
  assumes "profiles_ok profs" "valid_placement (length profs) pl" "fst pl \<noteq> []"
  defines "nm \<equiv> length profs" and "ng \<equiv> length (fst pl)" and "num_stages \<equiv> map (\<lambda>c. nat (pc_pp c)) (fst pl)"
  shows "\<exists>lat. mapE (\<lambda>prof. mapE (stage_latency (Max (set num_stages)) prof) (fst pl)) profs = Inr lat \<and>
    sim_tables nm ng (Max (set num_stages)) (padded ng (rows_with nm (snd pl))) num_stages lat \<and>
    approximate_one_case_one_placement True pl profs ids slos arrivals =
      Inr (simulate_requests_mixed nm ng (Max (set num_stages)) (padded ng (rows_with nm (snd pl))) num_stages lat (zip arrivals (zip ids slos)))"
proof -
  let ?mx = "Max (set num_stages)" and ?tab = "padded ng (rows_with nm (snd pl))"
  have ng: "length (snd pl) = ng" "num_stages \<noteq> []" "length num_stages = ng" using assms(2,3) by (auto simp: valid_placement_def ng_def num_stages_def)
  have entry: "(\<exists>gl. group_latency prof c = Inr gl) \<and> (\<exists>sl. stage_latency ?mx prof c = Inr sl \<and> nat (pc_pp c) \<le> length sl)"
    if "prof \<in> set profs" "c \<in> set (fst pl)" for prof c
    using assms(1) that latency_entry_ok [of prof c ?mx] by (simp add: profiles_ok_def num_stages_def)
  have "\<forall>prof \<in> set profs. \<exists>r. mapE (group_latency prof) (fst pl) = Inr r \<and> True"
  proof
    fix prof assume "prof \<in> set profs"
    then have "\<forall>c \<in> set (fst pl). \<exists>gl. group_latency prof c = Inr gl \<and> True" using entry by blast
    from mapE_exists [OF this] show "\<exists>r. mapE (group_latency prof) (fst pl) = Inr r \<and> True" by blast
  qed
  from mapE_exists [OF this] obtain glat where glat: "mapE (\<lambda>prof. mapE (group_latency prof) (fst pl)) profs = Inr glat" by blast
  have "\<forall>prof \<in> set profs. \<exists>r. mapE (stage_latency ?mx prof) (fst pl) = Inr r \<and> list_all2 (\<lambda>c sl. nat (pc_pp c) \<le> length sl) (fst pl) r"
  proof
    fix prof assume "prof \<in> set profs"
    then have "\<forall>c \<in> set (fst pl). \<exists>sl. stage_latency ?mx prof c = Inr sl \<and> nat (pc_pp c) \<le> length sl" using entry by blast
    from mapE_exists [OF this] show "\<exists>r. mapE (stage_latency ?mx prof) (fst pl) = Inr r \<and> list_all2 (\<lambda>c sl. nat (pc_pp c) \<le> length sl) (fst pl) r" .
  qed
  from mapE_exists [OF this] obtain lat where lat: "mapE (\<lambda>prof. mapE (stage_latency ?mx prof) (fst pl)) profs = Inr lat"
    "list_all2 (\<lambda>prof r. list_all2 (\<lambda>c sl. nat (pc_pp c) \<le> length sl) (fst pl) r) profs lat" by blast
  have "sim_tables nm ng ?mx ?tab num_stages lat"
    unfolding sim_tables_def
  proof (intro conjI)
    show "\<forall>row \<in> set ?tab. set row \<subseteq> {- 1..<int ng}" using padded_rows ng(1) by blast
    show "\<forall>n \<in> set num_stages. n \<le> ?mx" by simp
    show "length lat = nm" using list_all2_lengthD [OF lat(2)] by (simp add: nm_def)
    show "\<forall>r \<in> set lat. length r = ng \<and> (\<forall>g < ng. num_stages ! g \<le> length (r ! g))"
    proof
      fix r assume "r \<in> set lat"
      then have "list_all2 (\<lambda>c sl. nat (pc_pp c) \<le> length sl) (fst pl) r" using lat(2) by (auto simp: list_all2_conv_all_nth in_set_conv_nth)
      then show "length r = ng \<and> (\<forall>g < ng. num_stages ! g \<le> length (r ! g))" by (simp add: list_all2_conv_all_nth ng_def num_stages_def)
    qed
  qed (use ng in \<open>simp_all add: padded_def rows_with_def\<close>)
  moreover have "replica_table nm ng (snd pl) = Inr ?tab" using assms(2) by (intro replica_table_ok) (simp_all add: nm_def ng_def)
  moreover obtain t where "instance_table nm ng ?tab = Inr t" using instance_table_ok [OF ng(1)] by blast
  ultimately have "approximate_one_case_one_placement True pl profs ids slos arrivals =
      Inr (simulate_requests_mixed nm ng ?mx ?tab num_stages lat (zip arrivals (zip ids slos)))"
    unfolding approximate_one_case_one_placement_def Let_def nm_def [symmetric] ng_def [symmetric] num_stages_def [symmetric]
    using lat(1) glat ng(2) by simp
  with lat(1) \<open>sim_tables nm ng ?mx ?tab num_stages lat\<close> show ?thesis by blast
qed

lemma dict_set_new: "k \<notin> set (dict_keys d) \<Longrightarrow> dict_set k v d = d @ [(k, v)]"
  by (induction d) auto

lemma name2profiling_distinct: "distinct (map md_name mds) \<Longrightarrow> name2profiling mds = map (\<lambda>x. (md_name x, md_para_dict x)) mds"
proof (induction mds rule: rev_induct)
  case (snoc x mds)
  then show ?case by (auto simp: name2profiling_def intro!: dict_set_new)
qed (simp add: name2profiling_def)

lemma name2model_id:
  assumes "distinct names"
  shows "dict_get (name2model_id names) n = Some i \<longleftrightarrow> (\<exists>k < length names. i = int k \<and> names ! k = n)"
  using assms
proof (induction names arbitrary: i rule: rev_induct)
  case (snoc m names)
  have "name2model_id (names @ [m]) = dict_set m (int (length names)) (name2model_id names)"
    by (simp add: name2model_id_def zip_append1)
  moreover have "m = n \<Longrightarrow> k < length names \<Longrightarrow> names ! k \<noteq> n" for k using snoc.prems nth_mem by fastforce
  ultimately show ?case using snoc by (auto simp: dict_simps nth_append less_Suc_eq)
qed (simp add: name2model_id_def)

lemma sim_input_ok:
  assumes "simulable mds w"
  shows "\<exists>ids. sim_input mds w = Inr (ids, map rq_slo (w_requests w), map md_name mds, map md_para_dict mds) \<and> length ids = length (w_requests w) \<and>
    (\<forall>i < length ids. ids ! i < int (length mds) \<and> (0 \<le> ids ! i \<longrightarrow> md_name (mds ! nat (ids ! i)) = rq_model (w_requests w ! i)))"
proof -
  let ?names = "map md_name mds"
  define id_of where "id_of r = (case dict_get (name2model_id ?names) (rq_model r) of None \<Rightarrow> - 1 | Some i \<Rightarrow> i)" for r :: sim_request
  have ev: "distinct ?names" "mds \<noteq> []" using assms by (simp_all add: simulable_def)
  have id: "id_of r < int (length mds)" "0 \<le> id_of r \<Longrightarrow> md_name (mds ! nat (id_of r)) = rq_model r" for r
    using name2model_id [OF ev(1), of "rq_model r"] unfolding id_of_def by (auto split: option.splits)
  have "sim_input mds w = Inr (map id_of (w_requests w), map rq_slo (w_requests w), ?names, map md_para_dict mds)"
    using ev by (simp add: sim_input_def name2profiling_distinct Let_def o_def id_of_def [abs_def])
  then show ?thesis using id by simp
qed

lemma simulable_profiles: "simulable mds w \<Longrightarrow> profiles_ok (map md_para_dict mds)"
  by (fastforce simp: simulable_def profiled_def profiles_ok_def)

lemma second_of_zip: "r \<in> set (zip xs (zip ys zs)) \<Longrightarrow> fst (snd r) \<in> set ys"
  by (cases r) (auto elim!: in_set_zipE)

text \<open>The statistics are those of counters that agree.\<close>

lemma get_stats_run:
  assumes "simulable mds w" "runnable (length mds) pl"
  shows "\<exists>s. get_stats_simulation mds w pl = fast_stats (map md_name mds) (w_arrivals w) s \<and> counts_ok (length mds) (length (fst pl)) s"
proof -
  let ?profs = "map md_para_dict mds"
  obtain ids where ids: "sim_input mds w = Inr (ids, map rq_slo (w_requests w), map md_name mds, ?profs)" "length ids = length (w_requests w)"
    "\<forall>i < length ids. ids ! i < int (length mds)"
    using sim_input_ok [OF assms(1)] by blast
  let ?rs = "zip (w_arrivals w) (zip ids (map rq_slo (w_requests w)))" and ?num_stages = "map (\<lambda>c. nat (pc_pp c)) (fst pl)"
  let ?nm = "length ?profs" and ?ng = "length (fst pl)"
  have pl: "valid_placement ?nm pl" "fst pl \<noteq> []" using assms(2) by (simp_all add: runnable_def)
  obtain lat where lat: "sim_tables ?nm ?ng (Max (set ?num_stages)) (padded ?ng (rows_with ?nm (snd pl))) ?num_stages lat"
    "approximate_one_case_one_placement True pl ?profs ids (map rq_slo (w_requests w)) (w_arrivals w) =
      Inr (simulate_requests_mixed ?nm ?ng (Max (set ?num_stages)) (padded ?ng (rows_with ?nm (snd pl))) ?num_stages lat ?rs)"
    using approximate_ok [OF simulable_profiles [OF assms(1)] pl, of ids "map rq_slo (w_requests w)" "w_arrivals w"] by blast
  have "m < int ?nm" if "m \<in> set ids" for m using that ids(3) by (auto simp: in_set_conv_nth)
  then have "\<forall>r \<in> set ?rs. fst (snd r) < int ?nm" using second_of_zip by blast
  from simulate_requests_mixed_ok(1) [OF lat(1) this] show ?thesis
    using ids(1) lat(2) by (auto simp: get_stats_simulation_def approximate_one_case_def)
qed

lemma get_stats_shape:
  assumes "simulable mds w" "runnable (length mds) pl"
  shows "\<exists>st ns. get_stats_simulation mds w pl = Inr st \<and> length (st_per_model st) = length mds \<and>
    st_group_num_requests st = Some ns \<and> length ns = length (fst pl)"
  using get_stats_run [OF assms] assms(1) by (auto simp: fast_stats_def simulable_def counts_ok_def Let_def)

text \<open>
  No model has a negative number of unserved requests, and a model with requests has unserved ones, because the simulator
  divides by slightly more than the number of requests.
\<close>

lemma get_stats_unserved:
  assumes "simulable mds w" "runnable (length mds) pl"
  shows "\<exists>st. get_stats_simulation mds w pl = Inr st \<and> length (model_num_unserved st) = length mds \<and> 0 \<le> st_goodput st \<and>
    (\<forall>u \<in> set (model_num_unserved st). 0 \<le> u) \<and> (\<forall>m \<in> set (st_per_model st). 0 < pm_num_requests m \<longrightarrow> sum_list (model_num_unserved st) \<noteq> 0)"
proof -
  obtain s where s: "get_stats_simulation mds w pl = fast_stats (map md_name mds) (w_arrivals w) s" "counts_ok (length mds) (length (fst pl)) s"
    using get_stats_run [OF assms] by blast
  let ?rest = "\<lambda>i. of_int (ss_model_requests s ! i) * (1 - of_int (ss_model_good s ! i) / (of_int (ss_model_requests s ! i) + sim_eps))"
  obtain st where st: "get_stats_simulation mds w pl = Inr st" "model_num_unserved st = map ?rest [0..<length mds]" "0 \<le> st_goodput st"
    "st_per_model st \<noteq> [] \<longrightarrow> map pm_num_requests (st_per_model st) = map (nth (ss_model_requests s)) [0..<length mds]"
    using s(1) assms(1) by (auto simp: fast_stats_def simulable_def Let_def model_num_unserved_def)
  have rest: "0 \<le> ?rest i" "0 < ss_model_requests s ! i \<Longrightarrow> 0 < ?rest i" if "i < length mds" for i
  proof -
    have c: "0 \<le> ss_model_good s ! i" "ss_model_good s ! i \<le> ss_model_requests s ! i" using s(2) that by (simp_all add: counts_ok_def)
    then have "of_int (ss_model_good s ! i) < of_int (ss_model_requests s ! i) + sim_eps" "0 < of_int (ss_model_requests s ! i) + sim_eps"
      by (simp_all add: sim_eps_def add_nonneg_pos less_le_trans [OF less_add_same_cancel1 [THEN iffD2]] add_le_less_mono)
    then have "of_int (ss_model_good s ! i) / (of_int (ss_model_requests s ! i) + sim_eps) < 1" by simp
    with c show "0 \<le> ?rest i" "0 < ss_model_requests s ! i \<Longrightarrow> 0 < ?rest i" by simp_all
  qed
  have "sum_list (model_num_unserved st) \<noteq> 0" if m: "m \<in> set (st_per_model st)" "0 < pm_num_requests m" for m
  proof -
    have "pm_num_requests m \<in> set (map (nth (ss_model_requests s)) [0..<length mds])"
      using st(4) m(1) by (metis empty_iff empty_set image_eqI list.set_map)
    then obtain i where i: "i < length mds" "0 < ss_model_requests s ! i" using m(2) by auto
    then have "?rest i \<le> sum_list (model_num_unserved st)" unfolding st(2) using rest(1) by (intro member_le_sum_list) auto
    with rest(2) [OF i] show ?thesis by linarith
  qed
  then show ?thesis using st rest(1) by auto
qed

interpretation fast_sim: placement_evaluator get_stats_simulation
  by unfold_locales (rule get_stats_shape)

section \<open>Properties\<close>

text \<open>The time of a request alone in a pipeline, by its profile.\<close>

definition run_time :: "para_dict \<Rightarrow> parallel_config \<Rightarrow> py_float option" where
  "run_time prof c =
     (case dict_get prof c of None \<Rightarrow> None | Some d \<Rightarrow>
      (case dict_get (lm_latency d) 1 of None \<Rightarrow> None | Some ls \<Rightarrow>
        Some (sum_list (take (nat (pc_pp c)) ls) * (1 + stage_penalty ls) + fixed_overhead)))"

lemma foldl_plusX_Fin: "foldl plusX (Fin a) (map Fin xs) = Fin (a + sum_list xs)"
  by (induction xs arbitrary: a) (simp_all add: add.assoc)

lemma foldl_plusX_PosInf: "foldl plusX (Fin a) (replicate (Suc n) PosInf) = PosInf"
proof -
  have "foldl plusX PosInf (replicate n PosInf) = PosInf" by (induction n) simp_all
  then show ?thesis by simp
qed

lemma stage_latency_total:
  assumes "stage_latency stages prof c = Inr sl" "foldl plusX (Fin a) (take (nat (pc_pp c)) sl) \<le> Fin b" "1 \<le> pc_pp c" "nat (pc_pp c) \<le> stages"
  shows "\<exists>t. run_time prof c = Some (t + fixed_overhead) \<and> a + t \<le> b"
proof (cases "dict_get prof c")
  case None
  then have "sl = replicate stages PosInf" using assms(1) by (simp add: stage_latency_def)
  moreover obtain n where "nat (pc_pp c) = Suc n" using assms(3) by (cases "nat (pc_pp c)") auto
  ultimately have "take (nat (pc_pp c)) sl = replicate (Suc n) PosInf" using assms(4) by (simp add: min_def)
  with assms(2) have "foldl plusX (Fin a) (replicate (Suc n) PosInf) \<le> Fin b" by (simp only:)
  then show ?thesis unfolding foldl_plusX_PosInf by simp
next
  case (Some d)
  then obtain ls where ls: "dict_get (lm_latency d) 1 = Some ls"
    "mapE (\<lambda>k. bindE (nthE ls k) (\<lambda>l. Inr (Fin (l * (1 + stage_penalty ls))))) [0..<nat (pc_pp c)] = Inr sl"
    using assms(1) by (auto simp: stage_latency_def bindE_Inr_iff lookupE_Inr_iff)
  then have "list_all2 (\<lambda>k y. k < length ls \<and> y = Fin (ls ! k * (1 + stage_penalty ls))) [0..<nat (pc_pp c)] sl"
    by (simp add: mapE_Inr_iff bindE_Inr_iff nthE_Inr_iff) (auto elim: list_all2_mono)
  then have "length sl = nat (pc_pp c)" "\<forall>k < nat (pc_pp c). k < length ls \<and> sl ! k = Fin (ls ! k * (1 + stage_penalty ls))"
    by (auto simp: list_all2_conv_all_nth)
  moreover from this(2) assms(3) have "nat (pc_pp c) - 1 < length ls" by simp
  ultimately have sl: "sl = map Fin (map (\<lambda>l. l * (1 + stage_penalty ls)) (take (nat (pc_pp c)) ls))"
    by (intro nth_equalityI) auto
  have "take (nat (pc_pp c)) sl = sl" using \<open>length sl = nat (pc_pp c)\<close> by simp
  with assms(2) have "foldl plusX (Fin a) sl \<le> Fin b" by simp
  then have "a + sum_list (take (nat (pc_pp c)) ls) * (1 + stage_penalty ls) \<le> b"
    unfolding sl foldl_plusX_Fin by (simp add: sum_list_mult_const)
  then show ?thesis using Some ls(1) by (simp add: run_time_def)
qed

text \<open>C16. The fast simulation of a placement returns for every list of requests. A request counted as good meets its objective,
  and is not faster than its stages on some group that holds a replica of its model; any other one is recorded as
  finished on arrival. The counters agree: every good request is counted once for its group and its model, no
  group or model has more good requests than requests, and no more requests reach the groups than the models.\<close>

theorem fast_simulation_sound:
  assumes "profiles_ok profs" "runnable (length profs) pl" "\<forall>m \<in> set ids. m < int (length profs)"
    "length ids = length arrivals" "length slos = length arrivals"
  shows "\<exists>s. approximate_one_case_one_placement True pl profs ids slos arrivals = Inr s \<and>
    length (ss_finish s) = length arrivals \<and> length (ss_good s) = length arrivals \<and> counts_ok (length profs) (length (fst pl)) s \<and>
    (\<forall>i < length arrivals.
       if ss_good s ! i then (\<exists>q. slos ! i = Some q \<and> ss_finish s ! i - arrivals ! i \<le> q) \<and>
         (\<exists>g < length (fst pl). ids ! i \<in> set (snd pl ! g) \<and>
            (\<exists>t. run_time (profs ! nat (ids ! i)) (fst pl ! g) = Some t \<and> t \<le> ss_finish s ! i - arrivals ! i))
       else ss_finish s ! i = arrivals ! i)"
proof -
  let ?nm = "length profs" and ?ng = "length (fst pl)" and ?num_stages = "map (\<lambda>c. nat (pc_pp c)) (fst pl)"
  let ?mx = "Max (set ?num_stages)" and ?rs = "zip arrivals (zip ids slos)" and ?tab = "padded ?ng (rows_with ?nm (snd pl))"
  have pl: "valid_placement ?nm pl" "fst pl \<noteq> []" "\<forall>c \<in> set (fst pl). 1 \<le> pc_pp c" using assms(2) by (simp_all add: runnable_def)
  then have snd_len: "length (snd pl) = ?ng" by (simp add: valid_placement_def)
  obtain lat where lat: "mapE (\<lambda>prof. mapE (stage_latency ?mx prof) (fst pl)) profs = Inr lat" "sim_tables ?nm ?ng ?mx ?tab ?num_stages lat"
    "approximate_one_case_one_placement True pl profs ids slos arrivals = Inr (simulate_requests_mixed ?nm ?ng ?mx ?tab ?num_stages lat ?rs)"
    using approximate_ok [OF assms(1) pl(1,2), of ids slos arrivals] by blast
  let ?s = "simulate_requests_mixed ?nm ?ng ?mx ?tab ?num_stages lat ?rs"
  have "\<forall>r \<in> set ?rs. fst (snd r) < int ?nm" using assms(3) using second_of_zip by blast
  note sim = simulate_requests_mixed_ok [OF lat(2) this]
  have len: "length ?rs = length arrivals" using assms(4,5) by simp
  have out: "list_all2 (\<lambda>r (f, g). outcome_ok ?tab ?num_stages lat r f g) ?rs (zip (ss_finish ?s) (ss_good ?s))"
    "length (ss_finish ?s) = length (ss_good ?s)" using sim(3) by (simp_all add: outcomes_ok_def)
  have lens: "length (ss_finish ?s) = length arrivals" "length (ss_good ?s) = length arrivals"
    using list_all2_lengthD [OF out(1)] out(2) len by simp_all
  have "if ss_good ?s ! i then (\<exists>q. slos ! i = Some q \<and> ss_finish ?s ! i - arrivals ! i \<le> q) \<and>
         (\<exists>g < ?ng. ids ! i \<in> set (snd pl ! g) \<and>
            (\<exists>t. run_time (profs ! nat (ids ! i)) (fst pl ! g) = Some t \<and> t \<le> ss_finish ?s ! i - arrivals ! i))
       else ss_finish ?s ! i = arrivals ! i" if i: "i < length arrivals" for i
  proof -
    have o_i: "outcome_ok ?tab ?num_stages lat (arrivals ! i, ids ! i, slos ! i) (ss_finish ?s ! i) (ss_good ?s ! i)"
      using list_all2_nthD [OF out(1), of i] i len lens assms(4,5) by simp
    show ?thesis
    proof (cases "ss_good ?s ! i")
      case True
      then obtain q j where j: "0 \<le> ids ! i" "slos ! i = Some q" "ss_finish ?s ! i - arrivals ! i \<le> q" "0 \<le> j" "j \<in> set (?tab ! nat (ids ! i))"
        "foldl plusX (Fin (arrivals ! i)) (take (?num_stages ! nat j) (lat ! nat (ids ! i) ! nat j)) \<le> Fin (ss_finish ?s ! i - fixed_overhead)"
        using o_i by (auto simp: outcome_ok_def)
      let ?m = "nat (ids ! i)" and ?g = "nat j"
      have m: "?m < ?nm" using assms(3,4) i j(1) by (auto simp: nat_less_iff)
      have g: "?g < ?ng" "ids ! i \<in> set (snd pl ! ?g)" using j(5) unfolding nth_padded [OF m snd_len j(4)] using j(1) by auto
      have "mapE (stage_latency ?mx (profs ! ?m)) (fst pl) = Inr (lat ! ?m)"
        using lat(1) m by (auto simp: mapE_Inr_iff dest: list_all2_nthD)
      then have "stage_latency ?mx (profs ! ?m) (fst pl ! ?g) = Inr (lat ! ?m ! ?g)"
        using g(1) by (auto simp: mapE_Inr_iff dest: list_all2_nthD)
      from stage_latency_total [OF this, of "arrivals ! i" "ss_finish ?s ! i - fixed_overhead"]
      obtain t where "run_time (profs ! ?m) (fst pl ! ?g) = Some (t + fixed_overhead)" "arrivals ! i + t \<le> ss_finish ?s ! i - fixed_overhead"
        using j(6) g(1) pl(3) by auto
      then have "\<exists>t. run_time (profs ! ?m) (fst pl ! ?g) = Some t \<and> t \<le> ss_finish ?s ! i - arrivals ! i" by (intro exI conjI) (assumption, simp)
      with True j(2,3) g show ?thesis by auto
    qed (use o_i in \<open>simp add: outcome_ok_def\<close>)
  qed
  then show ?thesis using lat(3) lens sim(1) by blast
qed

theorem fast_simulation_sound_witness:
  "\<exists>s. approximate_one_case_one_placement True (fst demo_start, [[0], [1]]) [demo_profile, demo_profile] [0, 1] [Some 50, Some 1] [1, 2] = Inr s \<and>
    length (ss_finish s) = 2"
proof -
  have "profiles_ok [demo_profile, demo_profile]" "runnable 2 (fst demo_start, [[0], [1]])" by code_simp+
  then show ?thesis
    using fast_simulation_sound [of "[demo_profile, demo_profile]" "(fst demo_start, [[0], [1]])" "[0, 1]" "[1, 2]" "[Some 50, Some 1]"] by (auto simp: numeral_2_eq_2)
qed

section \<open>One stage per group\<close>

lemma select_group_cong:
  assumes "\<And>j. j \<in> set row \<Longrightarrow> 0 \<le> j \<Longrightarrow> f (nat j) = g (nat j)"
  shows "select_group f row = select_group g row"
proof -
  have "foldl (\<lambda>(g_id, mn) j. if f (nat j) < mn then (j, f (nat j)) else (g_id, mn)) a js =
      foldl (\<lambda>(g_id, mn) j. if g (nat j) < mn then (j, g (nat j)) else (g_id, mn)) a js"
    if "set js \<subseteq> set (takeWhile (\<lambda>j. 0 \<le> j) row)" for a and js :: "int list"
    using that by (induction js arbitrary: a) (auto simp: assms dest!: set_takeWhileD)
  then show ?thesis by (simp add: select_group_def)
qed

text \<open>Tables of groups with a single stage: the one latency is the largest and the sum.\<close>

definition same_latency :: "nat \<Rightarrow> nat \<Rightarrow> xrat list list list \<Rightarrow> (xrat \<times> xrat) list list \<Rightarrow> bool" where
  "same_latency nm ng lat glat \<longleftrightarrow> (\<forall>m < nm. \<forall>g < ng. \<exists>x. lat ! m ! g = [x] \<and> glat ! m ! g = (x, x))"

lemma one_stage_request:
  assumes "sim_tables nm ng 1 tab num_stages lat" "\<forall>n \<in> set num_stages. n = 1" "same_latency nm ng lat glat"
    "clocks_ok ng 1 s" "fst (snd r) < int nm"
  shows "mixed_request tab num_stages lat s r = single_request tab glat s r"
proof -
  obtain t m_id slo where req: "r = (t, m_id, slo)" by (metis surj_pair)
  show ?thesis
  proof (cases "m_id < 0")
    case False
    let ?m = "nat m_id"
    have m: "?m < nm" "tab ! ?m \<in> set tab" using assms(1,5) req False by (auto simp: sim_tables_def)
    have row: "\<exists>c. ss_clocks s ! g = [c]" if "g < ng" for g
      using assms(4) that by (auto simp: clocks_ok_def length_Suc_conv)
    have "set (tab ! ?m) \<subseteq> {- 1..<int ng}" using assms(1) m(2) by (simp add: sim_tables_def)
    then have entry: "nat j < ng" if "j \<in> set (tab ! ?m)" "0 \<le> j" for j using that by (auto simp: nat_less_iff)
    have stages: "num_stages ! g = 1" if "g < ng" for g
    proof -
      have "num_stages ! g \<in> set num_stages" using assms(1) that by (simp add: sim_tables_def)
      with assms(2) show ?thesis by blast
    qed
    have sel: "select_group (last_clock num_stages (ss_clocks s)) (tab ! ?m) = select_group (\<lambda>j. ss_clocks s ! j ! 0) (tab ! ?m)"
      by (rule select_group_cong) (simp add: last_clock_def stages entry)
    show ?thesis
    proof (cases "select_group (\<lambda>j. ss_clocks s ! j ! 0) (tab ! ?m) < 0")
      case False
      then obtain g where g: "select_group (\<lambda>j. ss_clocks s ! j ! 0) (tab ! ?m) = int g" by (metis nat_0_le not_less)
      then have ng: "g < ng" using select_group(1) [of "\<lambda>j. ss_clocks s ! j ! 0" "tab ! ?m"] entry by fastforce
      obtain c where c: "ss_clocks s ! g = [c]" using row [OF ng] ..
      obtain x where x: "lat ! ?m ! g = [x]" "glat ! ?m ! g = (x, x)" using assms(3) m(1) ng by (auto simp: same_latency_def)
      show ?thesis
        using \<open>\<not> m_id < 0\<close> g c x stages [OF ng] sel
        by (simp add: req mixed_request_def single_request_def Let_def max.commute)
    qed (use \<open>\<not> m_id < 0\<close> sel in \<open>simp add: req mixed_request_def single_request_def Let_def\<close>)
  qed (simp add: req mixed_request_def single_request_def)
qed

lemma one_stage_simulation:
  assumes "sim_tables nm ng 1 tab num_stages lat" "\<forall>n \<in> set num_stages. n = 1" "same_latency nm ng lat glat" "\<forall>r \<in> set rs. fst (snd r) < int nm"
  shows "simulate_requests_mixed nm ng 1 tab num_stages lat rs = simulate_requests nm ng tab glat rs"
  using assms(4)
proof (induction rs rule: rev_induct)
  case (snoc r rs)
  then have "\<forall>r \<in> set rs. fst (snd r) < int nm" by simp
  from simulate_requests_mixed_ok(2) [OF assms(1) this]
  have "clocks_ok ng 1 (simulate_requests_mixed nm ng 1 tab num_stages lat rs)" .
  from one_stage_request [OF assms(1-3) this, of r] snoc show ?case
    by (simp add: simulate_requests_mixed_def simulate_requests_def)
qed (simp add: simulate_requests_mixed_def simulate_requests_def)

text \<open>C27. For groups of a single stage the simulation with a clock per stage and the one with a clock per group give the
  same clocks, counters and outcomes for every list of requests.\<close>

theorem one_stage_simulations_agree:
  assumes "profiles_ok profs" "valid_placement (length profs) pl" "fst pl \<noteq> []" "\<forall>m \<in> set ids. m < int (length profs)"
    "\<forall>c \<in> set (fst pl). pc_pp c = 1"
    "\<forall>prof \<in> set profs. \<forall>(c, d) \<in> set prof. pc_pp c = 1 \<longrightarrow> (\<exists>l. dict_get (lm_latency d) 1 = Some [l])"
  shows "approximate_one_case_one_placement True pl profs ids slos arrivals = approximate_one_case_one_placement False pl profs ids slos arrivals"
proof -
  let ?nm = "length profs" and ?ng = "length (fst pl)" and ?num_stages = "map (\<lambda>c. nat (pc_pp c)) (fst pl)"
  let ?rs = "zip arrivals (zip ids slos)" and ?tab = "padded ?ng (rows_with ?nm (snd pl))"
  have "set ?num_stages = {1}" using assms(3,5) by (cases "fst pl") auto
  then have mx: "Max (set ?num_stages) = 1" "\<forall>n \<in> set ?num_stages. n = 1" by simp_all
  obtain lat where lat: "mapE (\<lambda>prof. mapE (stage_latency 1 prof) (fst pl)) profs = Inr lat" "sim_tables ?nm ?ng 1 ?tab ?num_stages lat"
    "approximate_one_case_one_placement True pl profs ids slos arrivals = Inr (simulate_requests_mixed ?nm ?ng 1 ?tab ?num_stages lat ?rs)"
    using approximate_ok [OF assms(1-3), of ids slos arrivals] unfolding mx(1) by blast
  have entry: "\<exists>x. stage_latency 1 prof c = Inr [x] \<and> group_latency prof c = Inr (x, x)" if "prof \<in> set profs" "c \<in> set (fst pl)" for prof c
  proof (cases "dict_get prof c")
    case (Some d)
    have "(c, d) \<in> set prof" using Some by (rule map_of_SomeD)
    moreover have "pc_pp c = 1" using assms(5) that(2) by blast
    moreover have "\<forall>(c, d) \<in> set prof. pc_pp c = 1 \<longrightarrow> (\<exists>l. dict_get (lm_latency d) 1 = Some [l])" using assms(6) that(1) ..
    ultimately obtain l where "dict_get (lm_latency d) 1 = Some [l]" by fast
    then show ?thesis using Some assms(5) that(2) by (simp add: stage_latency_def group_latency_def lookupE_def nthE_def maxE_def)
  qed (simp add: stage_latency_def group_latency_def)
  define x where "x prof c = fst (projr (group_latency prof c))" for prof c
  have x: "stage_latency 1 prof c = Inr [x prof c] \<and> group_latency prof c = Inr (x prof c, x prof c)"
    if "prof \<in> set profs" "c \<in> set (fst pl)" for prof c
    using entry [OF that] by (auto simp: x_def)
  let ?glat = "map (\<lambda>prof. map (\<lambda>c. (x prof c, x prof c)) (fst pl)) profs"
  have g: "mapE (group_latency prof) (fst pl) = Inr (map (\<lambda>c. (x prof c, x prof c)) (fst pl))" if "prof \<in> set profs" for prof
    using x [OF that] by (intro mapE_total) auto
  have l: "mapE (stage_latency 1 prof) (fst pl) = Inr (map (\<lambda>c. [x prof c]) (fst pl))" if "prof \<in> set profs" for prof
    using x [OF that] by (intro mapE_total) auto
  have glat: "mapE (\<lambda>prof. mapE (group_latency prof) (fst pl)) profs = Inr ?glat" by (rule mapE_total) (rule g)
  have "mapE (\<lambda>prof. mapE (stage_latency 1 prof) (fst pl)) profs = Inr (map (\<lambda>prof. map (\<lambda>c. [x prof c]) (fst pl)) profs)"
    by (rule mapE_total) (rule l)
  with lat(1) have "same_latency ?nm ?ng lat ?glat" by (simp add: same_latency_def)
  moreover have "\<forall>r \<in> set ?rs. fst (snd r) < int ?nm" using assms(4) using second_of_zip by blast
  ultimately have "simulate_requests_mixed ?nm ?ng 1 ?tab ?num_stages lat ?rs = simulate_requests ?nm ?ng ?tab ?glat ?rs"
    by (rule one_stage_simulation [OF lat(2) mx(2)])
  moreover have "replica_table ?nm ?ng (snd pl) = Inr ?tab" using assms(2) by (intro replica_table_ok) simp_all
  moreover obtain t where "instance_table ?nm ?ng ?tab = Inr t" using instance_table_ok assms(2) by (metis valid_placement_def)
  ultimately show ?thesis using lat(3) glat by (simp add: approximate_one_case_one_placement_def Let_def)
qed

theorem one_stage_simulations_agree_witness:
  "approximate_one_case_one_placement True ([\<lparr>pc_dp = 1, pc_op = 1, pc_pp = 1\<rparr>], [[0]]) [demo_profile] [0, 0] [Some 50, Some 1] [1, 2] =
   approximate_one_case_one_placement False ([\<lparr>pc_dp = 1, pc_op = 1, pc_pp = 1\<rparr>], [[0]]) [demo_profile] [0, 0] [Some 50, Some 1] [1, 2]"
proof -
  let ?pl = "([\<lparr>pc_dp = 1, pc_op = 1, pc_pp = 1\<rparr>], [[0]]) :: model_placement"
  have "profiles_ok [demo_profile]" "valid_placement (length [demo_profile]) ?pl" "fst ?pl \<noteq> []" "\<forall>m \<in> set [0, 0]. m < int (length [demo_profile])"
    "\<forall>c \<in> set (fst ?pl). pc_pp c = 1" by code_simp+
  moreover have "\<forall>prof \<in> set [demo_profile]. \<forall>(c, d) \<in> set prof. pc_pp c = 1 \<longrightarrow> (\<exists>l. dict_get (lm_latency d) 1 = Some [l])"
    by (simp add: demo_profile_def)
  ultimately show ?thesis by (rule one_stage_simulations_agree)
qed

end
