(* ===== verification/EvoSearch.thy ===== *)
theory EvoSearch
  imports ReplicaPlacement
begin

text \<open>
  The evolutionary search over placements in \<open>placement_policy/base_policy.py\<close> of \<^verbatim>\<open>ModelPlacement/alpaserve_lib\<close>: fitting the models
  of a group into its memory, merging and splitting groups, mutating models, and the loop over the
  generations. The random numbers of numpy are a parameter, indexed by the number of draws made before; that
  number is the state the operations thread.
\<close>

section \<open>Random choices\<close>

record np_random =
  rnd_choice :: "nat \<Rightarrow> nat \<Rightarrow> nat"
  rnd_weighted :: "nat \<Rightarrow> py_float list \<Rightarrow> nat"
  rnd_uniform :: "nat \<Rightarrow> py_float"
  set_list :: "int list \<Rightarrow> int list"

definition choice_n :: "np_random \<Rightarrow> nat \<Rightarrow> (nat, nat) proc" where
  "choice_n R n s = (if n = 0 then (Inl ValueError, s) else (Inr (rnd_choice R s n), s + 1))"

definition uniform_draw :: "np_random \<Rightarrow> (nat, py_float) proc" where
  "uniform_draw R s = (Inr (rnd_uniform R s), s + 1)"

text \<open>A choice with probabilities, which are numbers only if the sum they are divided by is not zero.\<close>

definition shares :: "py_float list \<Rightarrow> py_float list option" where
  "shares xs = (if sum_list xs = 0 then None else Some (map (\<lambda>x. x / sum_list xs) xs))"

definition choice_p :: "np_random \<Rightarrow> nat \<Rightarrow> py_float list option \<Rightarrow> (nat, nat) proc" where
  "choice_p R n p s =
     (case p of None \<Rightarrow> (Inl ValueError, s)
      | Some ps \<Rightarrow> if length ps \<noteq> n \<or> list_ex (\<lambda>x. x < 0) ps then (Inl ValueError, s) else (Inr (rnd_weighted R s ps), s + 1))"

section \<open>Fitting the memory budget\<close>

text \<open>The weights by configuration, for all configurations of any model.\<close>

definition evo_weight_mem :: "model_data list \<Rightarrow> weight_table py" where
  "evo_weight_mem mds =
     foldE (\<lambda>wm (m_id, x). foldE (\<lambda>wm (c, d).
        let ws = (case dict_get wm c of None \<Rightarrow> replicate (length mds) mem_inf | Some ws \<Rightarrow> ws) in
        bindE (maxE (lm_weight_mem d)) (\<lambda>w. Inr (dict_set c (ws[m_id := w]) wm))) wm (md_para_dict x)) [] (zip [0..<length mds] mds)"

text \<open>The models by their number of unserved requests; if they are not numbers, all models are alike.\<close>

definition sort_models :: "py_float list option \<Rightarrow> int list \<Rightarrow> int list py" where
  "sort_models unserved ms =
     (case unserved of None \<Rightarrow> Inr ms
      | Some us \<Rightarrow> bindE (mapE (py_nthE us) ms) (\<lambda>ks. Inr (map snd (sort_key fst (zip ks ms)))))"

fun drop_models :: "weight_table \<Rightarrow> py_float \<Rightarrow> parallel_config \<Rightarrow> int list \<Rightarrow> py_float \<Rightarrow> (int list \<times> py_float) py" where
  "drop_models wm budget c [] mem = (if budget < mem then Inl IndexError else Inr ([], mem))"
| "drop_models wm budget c (m # ms) mem =
     (if budget < mem then bindE (weight_of wm c m) (\<lambda>w. drop_models wm budget c ms (mem - w)) else Inr (m # ms, mem))"

fun add_models :: "weight_table \<Rightarrow> py_float \<Rightarrow> parallel_config \<Rightarrow> int list \<Rightarrow> int list \<Rightarrow> py_float \<Rightarrow> int list py" where
  "add_models wm budget c [] ms mem = Inr ms"
| "add_models wm budget c (m # ids) ms mem =
     (if m \<in> set ms then add_models wm budget c ids ms mem
      else bindE (weight_of wm c m) (\<lambda>w. if mem + w \<le> budget then add_models wm budget c ids (ms @ [m]) (mem + w) else Inr ms))"

definition order_of :: "(py_float list \<Rightarrow> nat list) \<Rightarrow> nat \<Rightarrow> py_float list option \<Rightarrow> nat list" where
  "order_of argsort n unserved = argsort (case unserved of None \<Rightarrow> replicate n 0 | Some us \<Rightarrow> us)"

definition fit_mem_budget :: "(py_float list \<Rightarrow> nat list) \<Rightarrow> nat \<Rightarrow> py_float list option \<Rightarrow> weight_table \<Rightarrow> py_float \<Rightarrow> parallel_config \<Rightarrow> int list \<Rightarrow> int list py" where
  "fit_mem_budget argsort n unserved wm budget c ms =
     bindE (sort_models unserved ms) (\<lambda>ms.
     bindE (mapE (weight_of wm c) ms) (\<lambda>ws.
     bindE (drop_models wm budget c ms (sum_list ws)) (\<lambda>(ms, mem).
     add_models wm budget c (map int (rev (order_of argsort n unserved))) ms mem)))"

section \<open>Changing groups\<close>

definition del_nth :: "nat \<Rightarrow> 'a list \<Rightarrow> 'a list" where
  "del_nth i xs = take i xs @ drop (Suc i) xs"

text \<open>At most ten attempts to find two groups of the same shape.\<close>

fun pick_pair :: "np_random \<Rightarrow> nat \<Rightarrow> model_placement \<Rightarrow> (nat, (nat \<times> nat) option) proc" where
  "pick_pair R 0 pl = retS None"
| "pick_pair R (Suc k) pl =
     bindS (choice_n R (length (snd pl))) (\<lambda>g1. bindS (choice_n R (length (snd pl))) (\<lambda>g2.
     if g1 = g2 then pick_pair R k pl else
     bindS (liftE (nthE (fst pl) g1)) (\<lambda>c1. bindS (liftE (nthE (fst pl) g2)) (\<lambda>c2.
     if c1 = c2 then retS (Some (g1, g2)) else pick_pair R k pl))))"

definition merge_two_groups :: "np_random \<Rightarrow> (py_float list \<Rightarrow> nat list) \<Rightarrow> nat \<Rightarrow> py_float list option \<Rightarrow> weight_table \<Rightarrow> py_float \<Rightarrow>
    model_placement \<Rightarrow> (nat, model_placement) proc" where
  "merge_two_groups R argsort n unserved wm budget pl =
     bindS (pick_pair R 10 pl) (\<lambda>r. case r of None \<Rightarrow> retS pl | Some (g1, g2) \<Rightarrow>
     let old = fst pl ! g1; new = old\<lparr>pc_pp := pc_pp old * 2\<rparr> in
     bindS (liftE (fit_mem_budget argsort n unserved wm budget new (set_list R (remdups (snd pl ! g1 @ snd pl ! g2))))) (\<lambda>ms.
     retS (del_nth g2 ((fst pl)[g1 := new]), del_nth g2 ((snd pl)[g1 := ms]))))"

fun pick_even :: "np_random \<Rightarrow> nat \<Rightarrow> model_placement \<Rightarrow> (nat, nat option) proc" where
  "pick_even R 0 pl = retS None"
| "pick_even R (Suc k) pl =
     bindS (choice_n R (length (snd pl))) (\<lambda>g. bindS (liftE (nthE (fst pl) g)) (\<lambda>c.
     if pc_pp c mod 2 = 0 then retS (Some g) else pick_even R k pl))"

definition split_one_group :: "np_random \<Rightarrow> (py_float list \<Rightarrow> nat list) \<Rightarrow> nat \<Rightarrow> py_float list option \<Rightarrow> weight_table \<Rightarrow> py_float \<Rightarrow>
    model_placement \<Rightarrow> (nat, model_placement) proc" where
  "split_one_group R argsort n unserved wm budget pl =
     bindS (pick_even R 10 pl) (\<lambda>r. case r of None \<Rightarrow> retS pl | Some g \<Rightarrow>
     let old = fst pl ! g; new = old\<lparr>pc_pp := pc_pp old div 2\<rparr> in
     bindS (liftE (sort_models unserved (snd pl ! g))) (\<lambda>ms.
     bindS (liftE (fit_mem_budget argsort n unserved wm budget new (step_slice 0 2 ms))) (\<lambda>ms1.
     bindS (liftE (fit_mem_budget argsort n unserved wm budget new (step_slice 1 2 ms))) (\<lambda>ms2.
     retS ((fst pl)[g := new] @ [new], (snd pl)[g := ms1] @ [ms2])))))"

text \<open>Every model of every group may be replaced by a random one that the group does not hold.\<close>

definition mutate_model :: "np_random \<Rightarrow> nat \<Rightarrow> py_float list option \<Rightarrow> int list \<Rightarrow> nat \<Rightarrow> (nat, int list) proc" where
  "mutate_model R n unserved ms i =
     bindS (uniform_draw R) (\<lambda>u.
     if u < 5 / 100
     then bindS (choice_p R n unserved) (\<lambda>m. retS (if int m \<in> set ms then ms else ms[i := int m]))
     else retS ms)"

fun mutate_group :: "np_random \<Rightarrow> nat \<Rightarrow> py_float list option \<Rightarrow> int list \<Rightarrow> nat list \<Rightarrow> (nat, int list) proc" where
  "mutate_group R n unserved ms [] = retS ms"
| "mutate_group R n unserved ms (i # is) = bindS (mutate_model R n unserved ms i) (\<lambda>ms. mutate_group R n unserved ms is)"

fun mutate_groups :: "np_random \<Rightarrow> nat \<Rightarrow> py_float list option \<Rightarrow> int list list \<Rightarrow> (nat, int list list) proc" where
  "mutate_groups R n unserved [] = retS []"
| "mutate_groups R n unserved (ms # mss) =
     bindS (mutate_group R n unserved ms [0..<length ms]) (\<lambda>ms. bindS (mutate_groups R n unserved mss) (\<lambda>mss. retS (ms # mss)))"

section \<open>Generations\<close>

definition unserved_shares :: "sim_stats \<Rightarrow> py_float list option" where
  "unserved_shares st = shares (model_num_unserved st)"

definition sometimes :: "np_random \<Rightarrow> py_float \<Rightarrow> ('a \<Rightarrow> (nat, 'a) proc) \<Rightarrow> 'a \<Rightarrow> (nat, 'a) proc" where
  "sometimes R p f x = bindS (uniform_draw R) (\<lambda>u. if u < p then f x else retS x)"

text \<open>A new placement from one of the current ones, chosen by its score.\<close>

definition new_candidate :: "np_random \<Rightarrow> (py_float list \<Rightarrow> nat list) \<Rightarrow> nat \<Rightarrow> weight_table \<Rightarrow> py_float \<Rightarrow>
    (model_placement \<times> sim_stats) list \<Rightarrow> (nat, model_placement) proc" where
  "new_candidate R argsort n wm budget cur =
     bindS (choice_p R (length cur) (shares (map (st_goodput \<circ> snd) cur))) (\<lambda>idx.
     bindS (liftE (nthE cur idx)) (\<lambda>p.
     let unserved = unserved_shares (snd p) in
     bindS (sometimes R (8 / 100) (merge_two_groups R argsort n unserved wm budget) (fst p)) (\<lambda>sol.
     bindS (sometimes R (8 / 100) (split_one_group R argsort n unserved wm budget) sol) (\<lambda>sol.
     bindS (mutate_groups R n unserved (snd sol)) (\<lambda>mss.
     liftE (normalize_placement (fst sol, mss)))))))"

fun repeatS :: "nat \<Rightarrow> ('s, 'a) proc \<Rightarrow> ('s, 'a list) proc" where
  "repeatS 0 m = retS []"
| "repeatS (Suc k) m = bindS m (\<lambda>x. bindS (repeatS k m) (\<lambda>xs. retS (x # xs)))"

record evo_state =
  evo_score :: py_float
  evo_best :: "model_placement option"
  evo_current :: "model_placement list"

definition argmaxE :: "py_float list \<Rightarrow> nat py" where
  "argmaxE xs = (if xs = [] then Inl ValueError else Inr (length (takeWhile (\<lambda>x. x \<noteq> Max (set xs)) xs)))"

definition evo_generation :: "np_random \<Rightarrow> (py_float list \<Rightarrow> nat list) \<Rightarrow> (model_placement \<Rightarrow> sim_stats py) \<Rightarrow> nat \<Rightarrow> weight_table \<Rightarrow> py_float \<Rightarrow> nat \<Rightarrow>
    evo_state \<Rightarrow> (nat, evo_state) proc" where
  "evo_generation R argsort get_stats n wm budget pop_size st =
     bindS (liftE (mapE get_stats (evo_current st))) (\<lambda>stats.
     let scores = map st_goodput stats; cur = zip (evo_current st) stats in
     bindS (liftE (argmaxE scores)) (\<lambda>i.
     let st = (if evo_score st < scores ! i then st\<lparr>evo_score := scores ! i, evo_best := Some (evo_current st ! i)\<rparr> else st) in
     bindS (repeatS pop_size (new_candidate R argsort n wm budget cur)) (\<lambda>next_sols.
     case evo_best st of None \<Rightarrow> raiseS TypeError | Some b \<Rightarrow> retS (st\<lparr>evo_current := next_sols @ [b]\<rparr>))))"

fun evo_loop :: "(evo_state \<Rightarrow> (nat, evo_state) proc) \<Rightarrow> nat \<Rightarrow> evo_state \<Rightarrow> (nat, evo_state) proc" where
  "evo_loop step 0 st = retS st"
| "evo_loop step (Suc k) st = bindS (step st) (\<lambda>st. evo_loop step k st)"

definition evolutionary_search :: "np_random \<Rightarrow> (py_float list \<Rightarrow> nat list) \<Rightarrow> (model_placement \<Rightarrow> sim_stats py) \<Rightarrow> model_data list \<Rightarrow> cluster_env \<Rightarrow>
    nat \<Rightarrow> model_placement list \<Rightarrow> (nat, model_placement option) proc" where
  "evolutionary_search R argsort get_stats mds env num_iter init_sols =
     bindS (liftE (evo_weight_mem mds)) (\<lambda>wm.
     bindS (evo_loop (evo_generation R argsort get_stats (length mds) wm (mem_budget env) 1024) num_iter
        \<lparr>evo_score = - 1, evo_best = None, evo_current = init_sols\<rparr>) (\<lambda>st. retS (evo_best st)))"

section \<open>Lemmas: fitting\<close>

text \<open>The weights of the models for one configuration.\<close>

definition evo_weights :: "weight_table \<Rightarrow> parallel_config \<Rightarrow> nat \<Rightarrow> py_float list \<Rightarrow> bool" where
  "evo_weights wm c n ws \<longleftrightarrow> dict_get wm c = Some ws \<and> length ws = n \<and> (\<forall>w \<in> set ws. 0 \<le> w)"

definition models_ok :: "nat \<Rightarrow> int list \<Rightarrow> bool" where
  "models_ok n ms \<longleftrightarrow> distinct ms \<and> set ms \<subseteq> {0..<int n}"

definition total_weight :: "py_float list \<Rightarrow> int list \<Rightarrow> py_float" where
  "total_weight ws ms = (\<Sum>m\<leftarrow>ms. ws ! nat m)"

lemma evo_weight_of: "evo_weights wm c n ws \<Longrightarrow> 0 \<le> m \<Longrightarrow> m < int n \<Longrightarrow> weight_of wm c m = Inr (ws ! nat m)"
  by (simp add: evo_weights_def weight_of_def lookupE_def py_nthE_def nthE_def)

lemma drop_models_ok:
  assumes "evo_weights wm c n ws" "0 \<le> budget" "models_ok n ms"
  shows "\<exists>ms'. drop_models wm budget c ms (total_weight ws ms) = Inr (ms', total_weight ws ms') \<and> models_ok n ms' \<and> total_weight ws ms' \<le> budget"
  using assms(3)
proof (induction ms)
  case (Cons m ms)
  then have "weight_of wm c m = Inr (ws ! nat m)" "models_ok n ms" using evo_weight_of [OF assms(1)] by (auto simp: models_ok_def)
  with Cons show ?case by (auto simp: total_weight_def)
qed (use assms(2) in \<open>simp add: total_weight_def models_ok_def\<close>)

lemma add_models_ok:
  assumes "evo_weights wm c n ws" "set ids \<subseteq> {0..<int n}" "models_ok n ms" "total_weight ws ms \<le> budget"
  shows "\<exists>ms'. add_models wm budget c ids ms (total_weight ws ms) = Inr ms' \<and> models_ok n ms' \<and> total_weight ws ms' \<le> budget"
  using assms(2-4)
proof (induction ids arbitrary: ms)
  case (Cons m ids)
  have w: "weight_of wm c m = Inr (ws ! nat m)" using Cons.prems(1) evo_weight_of [OF assms(1)] by simp
  show ?case
  proof (cases "m \<notin> set ms \<and> total_weight ws ms + ws ! nat m \<le> budget")
    case True
    then have "models_ok n (ms @ [m])" "total_weight ws (ms @ [m]) = total_weight ws ms + ws ! nat m"
      using Cons.prems by (auto simp: models_ok_def total_weight_def)
    with Cons.IH [of "ms @ [m]"] True Cons.prems(1) w show ?thesis by simp
  next
    case False
    with Cons w show ?thesis by auto
  qed
qed auto

lemma sort_models_ok:
  assumes "case unserved of None \<Rightarrow> True | Some us \<Rightarrow> length us = n" "set ms \<subseteq> {0..<int n}"
  shows "\<exists>ms'. sort_models unserved ms = Inr ms' \<and> mset ms' = mset ms"
proof (cases unserved)
  case (Some us)
  have "mapE (py_nthE us) ms = Inr (map (\<lambda>m. us ! nat m) ms)"
    using assms Some by (intro mapE_total) (auto simp: py_nthE_def nthE_def subset_iff)
  moreover have "mset (map snd (sort_key fst (zip ks ms))) = mset ms" if "length ks = length ms" for ks :: "py_float list"
  proof -
    have "mset (map snd (sort_key fst (zip ks ms))) = image_mset snd (mset (zip ks ms))" by simp
    then show ?thesis using that by (simp flip: mset_map)
  qed
  ultimately show ?thesis using Some by (simp add: sort_models_def)
qed (simp add: sort_models_def)

text \<open>Fitting a group into the memory budget ends without an exception, for weights that are not negative. The models it
  returns are different known models whose weights together fit the budget.\<close>

theorem fit_mem_budget_fits:
  assumes "argsort_ok argsort" "evo_weights wm c n ws" "0 \<le> budget" "models_ok n ms"
    "case unserved of None \<Rightarrow> True | Some us \<Rightarrow> length us = n"
  shows "\<exists>ms'. fit_mem_budget argsort n unserved wm budget c ms = Inr ms' \<and> models_ok n ms' \<and> total_weight ws ms' \<le> budget"
proof -
  obtain ms1 where ms1: "sort_models unserved ms = Inr ms1" "mset ms1 = mset ms"
    using sort_models_ok [OF assms(5)] assms(4) unfolding models_ok_def by blast
  have "models_ok n ms1" using assms(4) mset_eq_setD [OF ms1(2)] mset_eq_imp_distinct_iff [OF ms1(2)] by (simp add: models_ok_def)
  moreover from this have "mapE (weight_of wm c) ms1 = Inr (map (\<lambda>m. ws ! nat m) ms1)"
    using evo_weight_of [OF assms(2)] by (intro mapE_total) (auto simp: models_ok_def subset_iff)
  moreover obtain ms2 where ms2: "drop_models wm budget c ms1 (total_weight ws ms1) = Inr (ms2, total_weight ws ms2)" "models_ok n ms2" "total_weight ws ms2 \<le> budget"
    using drop_models_ok [OF assms(2,3)] calculation(1) by blast
  moreover have ids: "set (map int (rev (order_of argsort n unserved))) \<subseteq> {0..<int n}"
  proof -
    define us where "us = (case unserved of None \<Rightarrow> replicate n 0 | Some us \<Rightarrow> us)"
    have "length us = n" using assms(5) by (cases unserved) (simp_all add: us_def)
    moreover have "set (order_of argsort n unserved) = {..<length us}" unfolding order_of_def us_def by (rule argsort_facts(2) [OF assms(1)])
    ultimately have "m < n" if "m \<in> set (order_of argsort n unserved)" for m using that by (simp only: lessThan_iff)
    then show ?thesis by auto
  qed
  moreover from add_models_ok [OF assms(2) ids ms2(2,3)]
  obtain ms3 where "add_models wm budget c (map int (rev (order_of argsort n unserved))) ms2 (total_weight ws ms2) = Inr ms3"
    "models_ok n ms3" "total_weight ws ms3 \<le> budget" by blast
  ultimately show ?thesis using ms1(1) by (simp add: fit_mem_budget_def total_weight_def)
qed

theorem fit_mem_budget_fits_witness:
  "\<exists>ms'. fit_mem_budget stable_argsort 2 (Some [1, 2]) [(\<lparr>pc_dp = 1, pc_op = 1, pc_pp = 1\<rparr>, [4, 3])] 5 \<lparr>pc_dp = 1, pc_op = 1, pc_pp = 1\<rparr> [0, 1] = Inr ms' \<and>
    total_weight [4, 3] ms' \<le> 5"
proof -
  have "evo_weights [(\<lparr>pc_dp = 1, pc_op = 1, pc_pp = 1\<rparr>, [4, 3])] \<lparr>pc_dp = 1, pc_op = 1, pc_pp = 1\<rparr> 2 [4, 3]" "models_ok 2 [0, 1]" by code_simp+
  from fit_mem_budget_fits [OF stable_argsort_ok this(1) _ this(2), of 5 "Some [1, 2]"] show ?thesis by auto
qed

section \<open>Lemmas: placements\<close>

lemma sum_list_del_nth:
  fixes f :: "'a \<Rightarrow> int"
  shows "i < length xs \<Longrightarrow> sum_list (map f (del_nth i xs)) = sum_list (map f xs) - f (xs ! i)"
  unfolding del_nth_def by (induction xs arbitrary: i) (auto split: nat.splits simp: less_Suc_eq_0_disj)

lemma sum_list_map_update_int:
  fixes f :: "'a \<Rightarrow> int"
  shows "i < length xs \<Longrightarrow> sum_list (map f (xs[i := y])) = sum_list (map f xs) - f (xs ! i) + f y"
  using sum_list_map_update [of i xs f y] by simp

lemma length_del_nth [simp]: "i < length xs \<Longrightarrow> length (del_nth i xs) = length xs - 1"
  by (simp add: del_nth_def)

lemma set_del_nth: "set (del_nth i xs) \<subseteq> set xs"
  by (auto simp: del_nth_def dest: in_set_takeD in_set_dropD)

lemma two_of_sum:
  fixes f :: "'a \<Rightarrow> int"
  assumes "i < length xs" "j < length xs" "i \<noteq> j" "\<And>x. x \<in> set xs \<Longrightarrow> 0 \<le> f x"
  shows "f (xs ! i) + f (xs ! j) \<le> sum_list (map f xs)"
proof -
  have "(\<Sum>k \<in> {i, j}. f (xs ! k)) \<le> (\<Sum>k \<in> {..<length xs}. f (xs ! k))"
    using assms by (intro sum_mono2) auto
  then show ?thesis using assms(3) by (simp add: sum_list_sum_nth atLeast0LessThan)
qed

text \<open>
  A set of configurations that merging and splitting do not leave: it has every half of a configuration with an even number of stages
  and every double that fits on \<open>D\<close> devices. The placements of the search: configurations of this
  set, different known models in each group, and \<open>D\<close> devices in total.
\<close>

definition config_size :: "parallel_config \<Rightarrow> int" where
  "config_size c = pc_dp c * pc_op c * pc_pp c"

definition closed_configs :: "parallel_config set \<Rightarrow> int \<Rightarrow> bool" where
  "closed_configs B D \<longleftrightarrow> (\<forall>c \<in> B. 1 \<le> pc_dp c \<and> 1 \<le> pc_op c \<and> 1 \<le> pc_pp c \<and>
     (pc_pp c mod 2 = 0 \<longrightarrow> c\<lparr>pc_pp := pc_pp c div 2\<rparr> \<in> B) \<and> (2 * config_size c \<le> D \<longrightarrow> c\<lparr>pc_pp := pc_pp c * 2\<rparr> \<in> B))"

definition placed :: "nat \<Rightarrow> parallel_config set \<Rightarrow> int \<Rightarrow> model_placement \<Rightarrow> bool" where
  "placed n B D pl \<longleftrightarrow> valid_placement n pl \<and> fst pl \<noteq> [] \<and> devices_of pl = D \<and> set (fst pl) \<subseteq> B"

lemma placed_iff:
  "placed n B D pl \<longleftrightarrow> length (fst pl) = length (snd pl) \<and> fst pl \<noteq> [] \<and> sum_list (map config_size (fst pl)) = D \<and>
     (\<forall>c \<in> set (fst pl). c \<in> B) \<and> (\<forall>ms \<in> set (snd pl). models_ok n ms)"
  by (auto simp: placed_def valid_placement_def devices_of_def config_size_def [abs_def] models_ok_def)

lemma config_size_pos: "closed_configs B D \<Longrightarrow> c \<in> B \<Longrightarrow> 0 \<le> config_size c"
proof -
  assume "closed_configs B D" "c \<in> B"
  then have "1 \<le> pc_dp c" "1 \<le> pc_op c" "1 \<le> pc_pp c" by (simp_all add: closed_configs_def)
  then show ?thesis by (simp add: config_size_def)
qed

section \<open>Lemmas: steps that may draw\<close>

text \<open>
  Numpy's random numbers, as documented: a choice is in its range, and \<open>list(set(..))\<close> lists the elements in some order.
\<close>

definition random_ok :: "np_random \<Rightarrow> bool" where
  "random_ok R \<longleftrightarrow> (\<forall>k n. 0 < n \<longrightarrow> rnd_choice R k n < n) \<and>
     (\<forall>k ps. (\<forall>p \<in> set ps. 0 \<le> p) \<and> sum_list ps = 1 \<longrightarrow> rnd_weighted R k ps < length ps) \<and>
     (\<forall>xs. distinct xs \<longrightarrow> mset (set_list R xs) = mset xs)"

text \<open>
  A step yields \<open>P\<close>: from every number of draws it returns a value with \<open>P\<close>, or it raises \<open>ValueError\<close> and then \<open>X\<close> holds.
\<close>

definition yields :: "bool \<Rightarrow> ('s, 'a) proc \<Rightarrow> ('a \<Rightarrow> bool) \<Rightarrow> bool" where
  "yields X m P \<longleftrightarrow> (\<forall>s. case fst (m s) of Inr x \<Rightarrow> P x | Inl e \<Rightarrow> X \<and> e = ValueError)"

lemma yields_ret: "P x \<Longrightarrow> yields X (retS x) P"
  by (simp add: yields_def retS_def)

lemma yields_lift: "x = Inr v \<Longrightarrow> P v \<Longrightarrow> yields X (liftE x) P"
  by (simp add: yields_def liftE_def)

lemma yields_bind:
  assumes "yields X m P" "\<And>x. P x \<Longrightarrow> yields X (f x) Q"
  shows "yields X (bindS m f) Q"
  unfolding yields_def
proof
  fix s
  obtain r t where m: "m s = (r, t)" by fastforce
  have "case r of Inr x \<Rightarrow> P x | Inl e \<Rightarrow> X \<and> e = ValueError" using assms(1) m unfolding yields_def by (metis fst_conv)
  then show "case fst (bindS m f s) of Inr x \<Rightarrow> Q x | Inl e \<Rightarrow> X \<and> e = ValueError"
    using assms(2) m by (cases r) (auto simp: bindS_def yields_def)
qed

lemma yields_bind_lift: "x = Inr v \<Longrightarrow> yields X (f v) Q \<Longrightarrow> yields X (bindS (liftE x) f) Q"
  by (simp add: yields_def bindS_def liftE_def)

lemma yields_uniform: "yields X (uniform_draw R) (\<lambda>_. True)"
  by (simp add: yields_def uniform_draw_def)

lemma yields_choice: "random_ok R \<Longrightarrow> 0 < n \<Longrightarrow> yields X (choice_n R n) (\<lambda>i. i < n)"
  by (simp add: yields_def choice_n_def random_ok_def)

lemma yields_sometimes: "yields X (f x) P \<Longrightarrow> P x \<Longrightarrow> yields X (sometimes R p f x) P"
  unfolding sometimes_def by (intro yields_bind [OF yields_uniform]) (simp add: yields_ret)

text \<open>Probabilities: none, if the numbers add up to zero (this is where \<open>X\<close> comes in), or shares of a total.\<close>

definition shares_ok :: "bool \<Rightarrow> nat \<Rightarrow> py_float list option \<Rightarrow> bool" where
  "shares_ok X n p \<longleftrightarrow> (case p of None \<Rightarrow> X | Some ps \<Rightarrow> length ps = n \<and> (\<forall>x \<in> set ps. 0 \<le> x) \<and> sum_list ps = 1)"

lemma shares_shares_ok:
  assumes "length xs = n" "\<forall>x \<in> set xs. 0 \<le> x" "sum_list xs = 0 \<Longrightarrow> X"
  shows "shares_ok X n (shares xs)"
proof -
  have "0 \<le> sum_list xs" using assms(2) by (intro sum_list_nonneg) simp
  moreover have "sum_list (map (\<lambda>x. x / sum_list xs) xs) = 1" if "sum_list xs \<noteq> 0"
    using that sum_list_mult_const [of id "1 / sum_list xs" xs] by simp
  ultimately show ?thesis using assms by (auto simp: shares_ok_def shares_def)
qed

lemma yields_weighted: "random_ok R \<Longrightarrow> shares_ok X n p \<Longrightarrow> yields X (choice_p R n p) (\<lambda>i. i < n)"
  by (auto simp: yields_def choice_p_def random_ok_def shares_ok_def list_ex_iff not_less split: option.splits)

lemma shares_ok_length: "shares_ok X n p \<Longrightarrow> case p of None \<Rightarrow> True | Some us \<Rightarrow> length us = n"
  by (auto simp: shares_ok_def split: option.splits)

section \<open>Lemmas: merging, splitting and mutating\<close>

text \<open>The table has the weights of every configuration of the set.\<close>

definition weights_ok :: "nat \<Rightarrow> parallel_config set \<Rightarrow> weight_table \<Rightarrow> bool" where
  "weights_ok n B wm \<longleftrightarrow> (\<forall>c \<in> B. \<exists>ws. evo_weights wm c n ws)"

lemma fit_yields:
  assumes "argsort_ok argsort" "0 \<le> budget" "weights_ok n B wm" "c \<in> B" "models_ok n ms" "shares_ok X n unserved"
  shows "yields X (liftE (fit_mem_budget argsort n unserved wm budget c ms)) (models_ok n)"
proof -
  obtain ws where ws: "evo_weights wm c n ws" using assms(3,4) by (auto simp: weights_ok_def)
  from fit_mem_budget_fits [OF assms(1) ws assms(2,5) shares_ok_length [OF assms(6)]] show ?thesis
    by (auto intro: yields_lift)
qed

lemma bindS_nth: "i < length xs \<Longrightarrow> bindS (liftE (nthE xs i)) f = f (xs ! i)"
  by (simp add: fun_eq_iff bindS_def liftE_def nthE_def)

lemma pick_pair_yields:
  assumes "random_ok R" "length (fst pl) = length (snd pl)" "fst pl \<noteq> []"
  shows "yields X (pick_pair R k pl) (\<lambda>r. case r of None \<Rightarrow> True | Some (g1, g2) \<Rightarrow>
    g1 \<noteq> g2 \<and> g1 < length (fst pl) \<and> g2 < length (fst pl) \<and> fst pl ! g1 = fst pl ! g2)"
proof (induction k)
  case 0
  show ?case unfolding pick_pair.simps by (rule yields_ret) simp
next
  case (Suc k)
  have n: "0 < length (fst pl)" using assms(3) by simp
  show ?case unfolding pick_pair.simps assms(2) [symmetric]
    by (intro yields_bind [OF yields_choice [OF assms(1) n]]) (use Suc in \<open>auto simp: bindS_nth intro!: yields_ret\<close>)
qed

lemma pick_even_yields:
  assumes "random_ok R" "length (fst pl) = length (snd pl)" "fst pl \<noteq> []"
  shows "yields X (pick_even R k pl) (\<lambda>r. case r of None \<Rightarrow> True | Some g \<Rightarrow> g < length (fst pl) \<and> pc_pp (fst pl ! g) mod 2 = 0)"
proof (induction k)
  case 0
  show ?case unfolding pick_even.simps by (rule yields_ret) simp
next
  case (Suc k)
  have n: "0 < length (fst pl)" using assms(3) by simp
  show ?case unfolding pick_even.simps assms(2) [symmetric]
    by (intro yields_bind [OF yields_choice [OF assms(1) n]]) (use Suc in \<open>auto simp: bindS_nth intro!: yields_ret\<close>)
qed

lemma merge_yields:
  assumes "random_ok R" "argsort_ok argsort" "0 \<le> budget" "closed_configs B D" "weights_ok n B wm" "shares_ok X n unserved" "placed n B D pl"
  shows "yields X (merge_two_groups R argsort n unserved wm budget pl) (placed n B D)"
  unfolding merge_two_groups_def
proof (rule yields_bind [OF pick_pair_yields [OF assms(1)]])
  show pl: "length (fst pl) = length (snd pl)" "fst pl \<noteq> []" using assms(7) by (simp_all add: placed_iff)
  fix r
  assume r: "case r of None \<Rightarrow> True | Some (g1, g2) \<Rightarrow> g1 \<noteq> g2 \<and> g1 < length (fst pl) \<and> g2 < length (fst pl) \<and> fst pl ! g1 = fst pl ! g2"
  show "yields X (case r of None \<Rightarrow> retS pl | Some (g1, g2) \<Rightarrow>
     let old = fst pl ! g1; new = old\<lparr>pc_pp := pc_pp old * 2\<rparr> in
     bindS (liftE (fit_mem_budget argsort n unserved wm budget new (set_list R (remdups (snd pl ! g1 @ snd pl ! g2))))) (\<lambda>ms.
     retS (del_nth g2 ((fst pl)[g1 := new]), del_nth g2 ((snd pl)[g1 := ms])))) (placed n B D)"
  proof (cases r)
    case None
    then show ?thesis using assms(7) by (auto intro: yields_ret)
  next
    case (Some gs)
    obtain g1 g2 where gs: "gs = (g1, g2)" by fastforce
    let ?old = "fst pl ! g1"
    let ?new = "?old\<lparr>pc_pp := pc_pp ?old * 2\<rparr>" and ?ms = "set_list R (remdups (snd pl ! g1 @ snd pl ! g2))"
    have g: "g1 \<noteq> g2" "g1 < length (fst pl)" "g2 < length (fst pl)" "fst pl ! g2 = ?old" using r Some gs by auto
    have c: "?old \<in> B" "\<And>c. c \<in> set (fst pl) \<Longrightarrow> 0 \<le> config_size c"
      using assms(7) g(2) config_size_pos [OF assms(4)] by (auto simp: placed_iff)
    have double: "config_size ?new = 2 * config_size ?old" by (simp add: config_size_def)
    have "2 * config_size ?old \<le> D"
      using two_of_sum [of g1 "fst pl" g2 config_size] g c(2) assms(7) by (simp add: placed_iff)
    then have new: "?new \<in> B" using assms(4) c(1) by (simp add: closed_configs_def)
    have "models_ok n (snd pl ! g1)" "models_ok n (snd pl ! g2)" using assms(7) g(2,3) pl(1) by (simp_all add: placed_iff)
    moreover have m: "mset ?ms = mset (remdups (snd pl ! g1 @ snd pl ! g2))" using assms(1) by (simp add: random_ok_def)
    ultimately have ms: "models_ok n ?ms"
      using mset_eq_setD [OF m] mset_eq_imp_distinct_iff [OF m] by (auto simp: models_ok_def)
    have new_placed: "placed n B D (del_nth g2 ((fst pl)[g1 := ?new]), del_nth g2 ((snd pl)[g1 := ms']))" if "models_ok n ms'" for ms'
    proof -
      have "sum_list (map config_size (del_nth g2 ((fst pl)[g1 := ?new]))) = D"
        using assms(7) g double by (simp add: placed_iff sum_list_del_nth sum_list_map_update_int)
      moreover have "0 < length (del_nth g2 ((fst pl)[g1 := ?new]))" using g(1-3) by (subst length_del_nth) auto
      then have "del_nth g2 ((fst pl)[g1 := ?new]) \<noteq> []" by (rule length_greater_0_conv [THEN iffD1])
      moreover have "\<forall>c \<in> set (del_nth g2 ((fst pl)[g1 := ?new])). c \<in> B"
        using assms(7) new set_del_nth set_update_subset_insert unfolding placed_iff by fastforce
      moreover have "\<forall>ms \<in> set (del_nth g2 ((snd pl)[g1 := ms'])). models_ok n ms"
        using assms(7) that set_del_nth set_update_subset_insert unfolding placed_iff by fastforce
      ultimately show ?thesis using pl(1) g(2,3) by (auto simp: placed_iff)
    qed
    show ?thesis unfolding Some gs option.case prod.case Let_def
      by (intro yields_bind [OF fit_yields [OF assms(2,3,5) new ms assms(6)]] yields_ret new_placed)
  qed
qed

lemma step_slice_models: "models_ok n ms \<Longrightarrow> models_ok n (step_slice i k ms)"
  by (auto simp: models_ok_def step_slice_def distinct_map inj_on_def nth_eq_iff_index_eq)

lemma split_yields:
  assumes "random_ok R" "argsort_ok argsort" "0 \<le> budget" "closed_configs B D" "weights_ok n B wm" "shares_ok X n unserved" "placed n B D pl"
  shows "yields X (split_one_group R argsort n unserved wm budget pl) (placed n B D)"
  unfolding split_one_group_def
proof (rule yields_bind [OF pick_even_yields [OF assms(1)]])
  show pl: "length (fst pl) = length (snd pl)" "fst pl \<noteq> []" using assms(7) by (simp_all add: placed_iff)
  fix r
  assume r: "case r of None \<Rightarrow> True | Some g \<Rightarrow> g < length (fst pl) \<and> pc_pp (fst pl ! g) mod 2 = 0"
  show "yields X (case r of None \<Rightarrow> retS pl | Some g \<Rightarrow>
     let old = fst pl ! g; new = old\<lparr>pc_pp := pc_pp old div 2\<rparr> in
     bindS (liftE (sort_models unserved (snd pl ! g))) (\<lambda>ms.
     bindS (liftE (fit_mem_budget argsort n unserved wm budget new (step_slice 0 2 ms))) (\<lambda>ms1.
     bindS (liftE (fit_mem_budget argsort n unserved wm budget new (step_slice 1 2 ms))) (\<lambda>ms2.
     retS ((fst pl)[g := new] @ [new], (snd pl)[g := ms1] @ [ms2]))))) (placed n B D)"
  proof (cases r)
    case None
    then show ?thesis using assms(7) by (auto intro: yields_ret)
  next
    case (Some g)
    let ?old = "fst pl ! g"
    let ?new = "?old\<lparr>pc_pp := pc_pp ?old div 2\<rparr>"
    have g: "g < length (fst pl)" "pc_pp ?old mod 2 = 0" using r Some by auto
    have "?old \<in> B" using assms(7) g(1) by (auto simp: placed_iff)
    then have new: "?new \<in> B" using assms(4) g(2) by (simp add: closed_configs_def)
    define half where "half = pc_pp ?old div 2"
    have "pc_pp ?old = 2 * half" using g(2) by (simp add: half_def) presburger
    then have double: "config_size ?old = 2 * config_size ?new" by (simp add: config_size_def)
    have old: "models_ok n (snd pl ! g)" using assms(7) g(1) pl(1) by (simp add: placed_iff)
    obtain ms where ms: "sort_models unserved (snd pl ! g) = Inr ms" "mset ms = mset (snd pl ! g)"
      using sort_models_ok [OF shares_ok_length [OF assms(6)], of "snd pl ! g"] old by (auto simp: models_ok_def)
    have "models_ok n ms" using old mset_eq_setD [OF ms(2)] mset_eq_imp_distinct_iff [OF ms(2)] by (simp add: models_ok_def)
    note halves = step_slice_models [OF this]
    have new_placed: "placed n B D ((fst pl)[g := ?new] @ [?new], (snd pl)[g := ms1] @ [ms2])" if "models_ok n ms1" "models_ok n ms2" for ms1 ms2
    proof -
      have "sum_list (map config_size ((fst pl)[g := ?new])) + config_size ?new = D"
        using assms(7) g(1) double by (simp add: placed_iff sum_list_map_update_int)
      moreover have "\<forall>c \<in> set ((fst pl)[g := ?new]). c \<in> B"
        using assms(7) new set_update_subset_insert unfolding placed_iff by fastforce
      moreover have "\<forall>ms \<in> set ((snd pl)[g := ms1]). models_ok n ms"
        using assms(7) that(1) set_update_subset_insert unfolding placed_iff by fastforce
      ultimately show ?thesis using pl(1) new that(2) by (simp add: placed_iff)
    qed
    show ?thesis unfolding Some option.case Let_def
      by (intro yields_bind_lift [OF ms(1)] yields_bind [OF fit_yields [OF assms(2,3,5) new halves assms(6)]] yields_ret new_placed)
  qed
qed

lemma mutate_model_yields:
  assumes "random_ok R" "shares_ok X n unserved" "models_ok n ms" "i < length ms"
  shows "yields X (mutate_model R n unserved ms i) (\<lambda>ms'. models_ok n ms' \<and> length ms' = length ms)"
proof -
  have "models_ok n (if int m \<in> set ms then ms else ms[i := int m])" if "m < n" for m
    using assms(3) that set_update_subset_insert [of ms i "int m"] by (auto simp: models_ok_def intro!: distinct_list_update)
  then show ?thesis unfolding mutate_model_def
    by (intro yields_bind [OF yields_uniform]) (use assms in \<open>auto intro!: yields_bind [OF yields_weighted] yields_ret\<close>)
qed

lemma mutate_group_yields:
  "random_ok R \<Longrightarrow> shares_ok X n unserved \<Longrightarrow> models_ok n ms \<Longrightarrow> \<forall>i \<in> set is. i < length ms \<Longrightarrow>
     yields X (mutate_group R n unserved ms is) (models_ok n)"
proof (induction "is" arbitrary: ms)
  case Nil
  then show ?case unfolding mutate_group.simps by (intro yields_ret)
next
  case (Cons i "is")
  have "i < length ms" using Cons.prems(4) by simp
  then show ?case unfolding mutate_group.simps
    by (intro yields_bind [OF mutate_model_yields [OF Cons.prems(1-3)]] Cons.IH) (use Cons.prems in auto)
qed

lemma mutate_groups_yields:
  assumes "random_ok R" "shares_ok X n unserved" "\<forall>ms \<in> set mss. models_ok n ms"
  shows "yields X (mutate_groups R n unserved mss) (\<lambda>mss'. length mss' = length mss \<and> (\<forall>ms \<in> set mss'. models_ok n ms))"
  using assms(3)
proof (induction mss)
  case Nil
  then show ?case unfolding mutate_groups.simps by (intro yields_ret) simp
next
  case (Cons ms mss)
  then have "models_ok n ms" "\<forall>ms \<in> set mss. models_ok n ms" by simp_all
  note g = mutate_group_yields [OF assms(1,2) this(1)] Cons.IH [OF this(2)]
  show ?case unfolding mutate_groups.simps
    by (intro yields_bind [OF g(1)] yields_bind [OF g(2)] yields_ret) auto
qed

lemma normalize_placed:
  assumes "placed n B D pl"
  shows "\<exists>pl'. normalize_placement pl = Inr pl' \<and> placed n B D pl'"
proof -
  have len: "length (fst pl) = length (snd pl)" using assms by (simp add: placed_iff)
  obtain pl' where p: "normalize_placement pl = Inr pl'" "length (fst pl') = length (snd pl')"
    "mset (zip (fst pl') (snd pl')) = image_mset (map_prod id sort) (mset (zip (fst pl) (snd pl)))"
    using normalize_pairs [OF len] by blast
  have c: "mset (fst pl') = mset (fst pl)"
    using arg_cong [OF p(3), of "image_mset fst"] len p(2) by (simp flip: mset_map add: multiset.map_comp o_def)
  have m: "mset (snd pl') = mset (map sort (snd pl))"
  proof -
    have "mset (map snd (zip (fst pl') (snd pl'))) = mset (map sort (map snd (zip (fst pl) (snd pl))))"
      using arg_cong [OF p(3), of "image_mset snd"] by (simp add: multiset.map_comp o_def)
    then show ?thesis using len p(2) by (simp only: map_snd_zip)
  qed
  have "sum_list (map config_size (fst pl')) = sum_list (map config_size (fst pl))"
    using arg_cong [OF c, of "\<lambda>M. sum_mset (image_mset config_size M)"] by (simp flip: mset_map add: sum_mset_sum_list)
  moreover have "fst pl' \<noteq> []" using assms c by (auto simp: placed_iff)
  ultimately show ?thesis using assms p(1,2) mset_eq_setD [OF c] mset_eq_setD [OF m] by (auto simp: placed_iff models_ok_def)
qed

section \<open>Lemmas: generations\<close>

text \<open>Statistics of a simulation of \<open>n\<close> models: the unserved requests of each, and a goodput.\<close>

definition stats_ok :: "nat \<Rightarrow> sim_stats \<Rightarrow> bool" where
  "stats_ok n st \<longleftrightarrow> length (model_num_unserved st) = n \<and> (\<forall>u \<in> set (model_num_unserved st). 0 \<le> u) \<and> 0 \<le> st_goodput st"

definition all_served :: "sim_stats \<Rightarrow> bool" where
  "all_served st \<longleftrightarrow> sum_list (model_num_unserved st) = 0"

lemma unserved_shares_ok: "stats_ok n st \<Longrightarrow> (all_served st \<Longrightarrow> X) \<Longrightarrow> shares_ok X n (unserved_shares st)"
  unfolding unserved_shares_def by (intro shares_shares_ok) (auto simp: stats_ok_def all_served_def)

lemma candidate_yields:
  assumes "random_ok R" "argsort_ok argsort" "0 \<le> budget" "closed_configs B D" "weights_ok n B wm"
    and "\<And>pl st. (pl, st) \<in> set cur \<Longrightarrow> placed n B D pl \<and> stats_ok n st \<and> (all_served st \<longrightarrow> X)"
    and "(pl0, st0) \<in> set cur" "0 < st_goodput st0"
  shows "yields X (new_candidate R argsort n wm budget cur) (placed n B D)"
proof -
  have nn: "\<forall>x \<in> set (map (st_goodput \<circ> snd) cur). 0 \<le> x" using assms(6) by (fastforce simp: stats_ok_def)
  have "st_goodput st0 \<le> sum_list (map (st_goodput \<circ> snd) cur)"
    using nn assms(7) by (intro member_le_sum_list) force+
  then have sh: "shares_ok X (length cur) (shares (map (st_goodput \<circ> snd) cur))"
    using nn assms(8) by (intro shares_shares_ok) auto
  have "yields X (bindS (liftE (nthE cur idx)) (\<lambda>p.
     let unserved = unserved_shares (snd p) in
     bindS (sometimes R (8 / 100) (merge_two_groups R argsort n unserved wm budget) (fst p)) (\<lambda>sol.
     bindS (sometimes R (8 / 100) (split_one_group R argsort n unserved wm budget) sol) (\<lambda>sol.
     bindS (mutate_groups R n unserved (snd sol)) (\<lambda>mss.
     liftE (normalize_placement (fst sol, mss))))))) (placed n B D)" if idx: "idx < length cur" for idx
  proof -
    obtain pl st where p: "cur ! idx = (pl, st)" "(pl, st) \<in> set cur" using idx by (metis nth_mem prod.collapse)
    have pl: "placed n B D pl" and u: "shares_ok X n (unserved_shares st)"
      using assms(6) [OF p(2)] unserved_shares_ok [of n st X] by auto
    note steps = merge_yields [OF assms(1-5) u] split_yields [OF assms(1-5) u]
    have norm: "yields X (liftE (normalize_placement (fst sol, mss))) (placed n B D)"
      if "placed n B D sol" "length mss = length (snd sol) \<and> (\<forall>ms \<in> set mss. models_ok n ms)" for sol mss
    proof -
      have "placed n B D (fst sol, mss)" using that by (simp add: placed_iff)
      from normalize_placed [OF this] show ?thesis by (auto intro: yields_lift)
    qed
    have "yields X (bindS (mutate_groups R n (unserved_shares st) (snd sol)) (\<lambda>mss. liftE (normalize_placement (fst sol, mss)))) (placed n B D)"
      if "placed n B D sol" for sol
      using that by (intro yields_bind [OF mutate_groups_yields [OF assms(1) u]] norm) (auto simp: placed_iff)
    then show ?thesis unfolding bindS_nth [OF idx] p(1) Let_def fst_conv snd_conv
      by (intro yields_bind [OF yields_sometimes [where P = "placed n B D"]] steps pl)
  qed
  then show ?thesis unfolding new_candidate_def by (intro yields_bind [OF yields_weighted [OF assms(1) sh]])
qed

lemma repeatS_yields: "yields X m P \<Longrightarrow> yields X (repeatS k m) (\<lambda>xs. \<forall>x \<in> set xs. P x)"
proof (induction k)
  case 0
  then show ?case unfolding repeatS.simps by (intro yields_ret) simp
next
  case (Suc k)
  then show ?case unfolding repeatS.simps
    by (intro yields_bind [OF Suc.prems] yields_bind [OF Suc.IH [OF Suc.prems]] yields_ret) simp
qed

lemma argmaxE:
  assumes "argmaxE xs = Inr i"
  shows "i < length xs" "\<forall>x \<in> set xs. x \<le> xs ! i" "\<forall>j < i. xs ! j < xs ! i"
proof -
  let ?m = "Max (set xs)"
  have ne: "xs \<noteq> []" and i: "i = length (takeWhile (\<lambda>x. x \<noteq> ?m) xs)" using assms by (auto simp: argmaxE_def split: if_splits)
  have "?m \<in> set xs" using ne by simp
  then have "takeWhile (\<lambda>x. x \<noteq> ?m) xs \<noteq> xs" by (metis set_takeWhileD)
  then show len: "i < length xs" unfolding i by (metis length_takeWhile_le nat_less_le takeWhile_eq_take take_all order_refl)
  have m: "xs ! i = ?m" using nth_length_takeWhile [of "\<lambda>x. x \<noteq> ?m" xs] len unfolding i by blast
  then show "\<forall>x \<in> set xs. x \<le> xs ! i" by simp
  show "\<forall>j < i. xs ! j < xs ! i"
  proof (intro allI impI)
    fix j assume j: "j < i"
    then have "xs ! j = takeWhile (\<lambda>x. x \<noteq> ?m) xs ! j" unfolding i by (rule takeWhile_nth [symmetric])
    then have "xs ! j \<noteq> ?m" using nth_mem [of j "takeWhile (\<lambda>x. x \<noteq> ?m) xs"] j set_takeWhileD unfolding i by metis
    moreover have "xs ! j \<le> ?m" using j len by simp
    ultimately show "xs ! j < xs ! i" using m by simp
  qed
qed

text \<open>
  The state between two generations: the current placements, one of which is at least as good as \<open>base\<close>, and
  the best one so far, which is at least as good once there is one.
\<close>

definition evo_ok :: "(model_placement \<Rightarrow> sim_stats py) \<Rightarrow> (model_placement \<Rightarrow> bool) \<Rightarrow> py_float \<Rightarrow> evo_state \<Rightarrow> bool" where
  "evo_ok get_stats ok base st \<longleftrightarrow> (\<forall>pl \<in> set (evo_current st). ok pl) \<and>
     (\<exists>pl \<in> set (evo_current st). \<exists>s. get_stats pl = Inr s \<and> base \<le> st_goodput s) \<and>
     (case evo_best st of None \<Rightarrow> evo_score st < 0
      | Some b \<Rightarrow> ok b \<and> base \<le> evo_score st \<and> (\<exists>s. get_stats b = Inr s \<and> st_goodput s = evo_score st))"

lemma evo_generation_yields:
  assumes "random_ok R" "argsort_ok argsort" "0 \<le> budget" "closed_configs B D" "weights_ok n B wm"
    and stats: "\<And>pl. placed n B D pl \<Longrightarrow> \<exists>st. get_stats pl = Inr st \<and> stats_ok n st \<and> (all_served st \<longrightarrow> X)"
    and "0 < base" and inv: "evo_ok get_stats (placed n B D) base st"
  shows "yields X (evo_generation R argsort get_stats n wm budget pop st) (\<lambda>st'. evo_ok get_stats (placed n B D) base st' \<and> evo_best st' \<noteq> None)"
proof -
  let ?f = "\<lambda>pl. projr (get_stats pl)" and ?cs = "evo_current st"
  have f: "get_stats pl = Inr (?f pl) \<and> stats_ok n (?f pl) \<and> (all_served (?f pl) \<longrightarrow> X)" if "placed n B D pl" for pl
    using stats [OF that] by auto
  have cs: "\<forall>pl \<in> set ?cs. placed n B D pl" using inv by (simp add: evo_ok_def)
  obtain pl0 where pl0: "pl0 \<in> set ?cs" "base \<le> st_goodput (?f pl0)" using inv unfolding evo_ok_def by (metis sum.sel(2))
  let ?scores = "map st_goodput (map ?f ?cs)"
  have run: "mapE get_stats ?cs = Inr (map ?f ?cs)" using cs f by (intro mapE_total) blast
  obtain i where i: "argmaxE ?scores = Inr i" using pl0(1) by (cases ?cs) (auto simp: argmaxE_def)
  have il: "i < length ?cs" using argmaxE(1) [OF i] by simp
  have top: "base \<le> ?scores ! i" using argmaxE(2) [OF i] pl0 by (metis (no_types, lifting) imageI image_set order_trans)
  have best: "placed n B D (?cs ! i)" using cs il by simp
  define st1 where "st1 = (if evo_score st < ?scores ! i then st\<lparr>evo_score := ?scores ! i, evo_best := Some (?cs ! i)\<rparr> else st)"
  obtain b where b: "evo_best st1 = Some b" "placed n B D b" "base \<le> evo_score st1" "get_stats b = Inr (?f b)" "st_goodput (?f b) = evo_score st1"
  proof (cases "evo_score st < ?scores ! i")
    case True
    then show thesis using that [of "?cs ! i"] best f [OF best] top il by (simp add: st1_def)
  next
    case False
    then have "st1 = st" "0 < evo_score st" using top assms(7) by (simp add: st1_def, linarith)
    moreover from this inv have "evo_best st \<noteq> None" by (cases "evo_best st") (auto simp: evo_ok_def)
    ultimately show thesis using inv that by (auto simp: evo_ok_def split: option.splits)
  qed
  let ?cur = "zip ?cs (map ?f ?cs)"
  have cur: "s = ?f pl \<and> pl \<in> set ?cs" if "(pl, s) \<in> set ?cur" for pl s
    using that by (auto simp: zip_map2 zip_same_conv_map)
  have "(pl0, ?f pl0) \<in> set ?cur" using pl0(1) by (auto simp: zip_map2 zip_same_conv_map)
  then have cand: "yields X (new_candidate R argsort n wm budget ?cur) (placed n B D)"
    by (rule candidate_yields [OF assms(1-5), rotated]) (use cur cs f pl0(2) assms(7) in force)+
  have "evo_ok get_stats (placed n B D) base (st1\<lparr>evo_current := next_sols @ [b]\<rparr>)" if "\<forall>pl \<in> set next_sols. placed n B D pl" for next_sols
    unfolding evo_ok_def using that b by auto
  then show ?thesis unfolding evo_generation_def
    by (intro yields_bind_lift [OF run])
      (auto simp: Let_def st1_def [symmetric] b(1) simp del: map_map intro!: yields_bind_lift [OF i] yields_bind [OF repeatS_yields [OF cand]] yields_ret)
qed

lemma evo_loop_yields:
  assumes "\<And>st. P st \<Longrightarrow> yields X (step st) (\<lambda>st'. P st' \<and> Q st')" "P st" "0 < k"
  shows "yields X (evo_loop step k st) (\<lambda>st'. P st' \<and> Q st')"
proof -
  have "yields X (evo_loop step k st) (\<lambda>st'. P st' \<and> Q st')" if "P st" "Q st" for k st
    using that
  proof (induction k arbitrary: st)
    case 0
    then show ?case unfolding evo_loop.simps by (intro yields_ret) simp
  next
    case (Suc k)
    show ?case unfolding evo_loop.simps by (intro yields_bind [OF assms(1) [OF Suc.prems(1)]]) (use Suc.IH in auto)
  qed
  moreover obtain j where "k = Suc j" using assms(3) by (cases k) auto
  ultimately show ?thesis using assms(1) [OF assms(2)] by (auto intro: yields_bind)
qed

text \<open>The table of weights of the search has every configuration that a profile has.\<close>

definition weights_profiled :: "model_data list \<Rightarrow> bool" where
  "weights_profiled mds \<longleftrightarrow> (\<forall>x \<in> set mds. \<forall>(c, d) \<in> set (md_para_dict x). lm_weight_mem d \<noteq> [] \<and> (\<forall>w \<in> set (lm_weight_mem d). 0 \<le> w))"

definition rows_ok :: "nat \<Rightarrow> weight_table \<Rightarrow> bool" where
  "rows_ok n wm \<longleftrightarrow> (\<forall>c ws. dict_get wm c = Some ws \<longrightarrow> evo_weights wm c n ws)"

lemma evo_weight_rows:
  assumes "\<forall>(c, d) \<in> set ps. lm_weight_mem d \<noteq> [] \<and> (\<forall>w \<in> set (lm_weight_mem d). 0 \<le> w)" "rows_ok n wm" "m < n"
  shows "\<exists>wm'. foldE (\<lambda>wm (c, d).
        let ws = (case dict_get wm c of None \<Rightarrow> replicate n mem_inf | Some ws \<Rightarrow> ws) in
        bindE (maxE (lm_weight_mem d)) (\<lambda>w. Inr (dict_set c (ws[m := w]) wm))) wm ps = Inr wm' \<and> rows_ok n wm' \<and>
     (\<forall>c. dict_get wm c \<noteq> None \<or> c \<in> fst ` set ps \<longrightarrow> dict_get wm' c \<noteq> None)"
  using assms(1,2)
proof (induction ps arbitrary: wm)
  case (Cons p ps)
  obtain c d where p: "p = (c, d)" by fastforce
  let ?ws = "case dict_get wm c of None \<Rightarrow> replicate n mem_inf | Some ws \<Rightarrow> ws"
  let ?w = "Max (set (lm_weight_mem d))"
  have d: "lm_weight_mem d \<noteq> []" "\<forall>w \<in> set (lm_weight_mem d). 0 \<le> w" using Cons.prems(1) p by auto
  then have w: "maxE (lm_weight_mem d) = Inr ?w" "0 \<le> ?w" by (simp_all add: maxE_def)
  have "length ?ws = n \<and> (\<forall>x \<in> set ?ws. 0 \<le> x)"
    using Cons.prems(2) by (auto simp: rows_ok_def evo_weights_def mem_inf_def split: option.splits)
  then have "length (?ws[m := ?w]) = n \<and> (\<forall>x \<in> set (?ws[m := ?w]). 0 \<le> x)" using w(2) set_update_subset_insert by fastforce
  then have r: "rows_ok n (dict_set c (?ws[m := ?w]) wm)"
    using Cons.prems(2) by (auto simp: rows_ok_def evo_weights_def dict_simps split: if_splits)
  from Cons.IH [OF _ r] Cons.prems(1) obtain wm' where
    "foldE (\<lambda>wm (c, d).
        let ws = (case dict_get wm c of None \<Rightarrow> replicate n mem_inf | Some ws \<Rightarrow> ws) in
        bindE (maxE (lm_weight_mem d)) (\<lambda>w. Inr (dict_set c (ws[m := w]) wm))) (dict_set c (?ws[m := ?w]) wm) ps = Inr wm'"
    "rows_ok n wm'" "\<forall>x. dict_get (dict_set c (?ws[m := ?w]) wm) x \<noteq> None \<or> x \<in> fst ` set ps \<longrightarrow> dict_get wm' x \<noteq> None"
    by auto
  then show ?case using w(1) by (intro exI [of _ wm']) (auto simp: p Let_def dict_simps)
qed simp

lemma evo_weight_mem_ok:
  assumes "weights_profiled mds"
  shows "\<exists>wm. evo_weight_mem mds = Inr wm \<and> rows_ok (length mds) wm \<and> (\<forall>x \<in> set mds. \<forall>c \<in> fst ` set (md_para_dict x). dict_get wm c \<noteq> None)"
proof -
  let ?n = "length mds"
  define add where "add wm p = (case p of (m_id, x) \<Rightarrow> foldE (\<lambda>wm (c, d).
        let ws = (case dict_get wm c of None \<Rightarrow> replicate ?n mem_inf | Some ws \<Rightarrow> ws) in
        bindE (maxE (lm_weight_mem d)) (\<lambda>w. Inr (dict_set c (ws[m_id := w]) wm))) wm (md_para_dict x))"
    for wm :: weight_table and p :: "nat \<times> model_data"
  have add: "\<exists>wm'. add wm (m, x) = Inr wm' \<and> rows_ok ?n wm' \<and>
      (\<forall>c. dict_get wm c \<noteq> None \<or> c \<in> fst ` set (md_para_dict x) \<longrightarrow> dict_get wm' c \<noteq> None)"
    if "rows_ok ?n wm" "m < ?n" "x \<in> set mds" for wm m x
    using evo_weight_rows [OF _ that(1,2), of "md_para_dict x"] assms that(3) by (simp add: weights_profiled_def add_def)
  have loop: "\<exists>wm'. foldE add wm xs = Inr wm' \<and> rows_ok ?n wm' \<and>
      (\<forall>c. dict_get wm c \<noteq> None \<or> (\<exists>(m, x) \<in> set xs. c \<in> fst ` set (md_para_dict x)) \<longrightarrow> dict_get wm' c \<noteq> None)"
    if "rows_ok ?n wm" "\<forall>(m, x) \<in> set xs. m < ?n \<and> x \<in> set mds" for wm xs
    using that
  proof (induction xs arbitrary: wm)
    case (Cons y xs)
    obtain m x where y: "y = (m, x)" by fastforce
    have "m < ?n" "x \<in> set mds" using Cons.prems(2) y by auto
    from add [OF Cons.prems(1) this] obtain wm1 where wm1: "add wm y = Inr wm1" "rows_ok ?n wm1"
      "\<forall>c. dict_get wm c \<noteq> None \<or> c \<in> fst ` set (md_para_dict x) \<longrightarrow> dict_get wm1 c \<noteq> None" unfolding y by blast
    have "\<forall>(m, x) \<in> set xs. m < ?n \<and> x \<in> set mds" using Cons.prems(2) by simp
    from Cons.IH [OF wm1(2) this] obtain wm' where "foldE add wm1 xs = Inr wm'" "rows_ok ?n wm'"
      "\<forall>c. dict_get wm1 c \<noteq> None \<or> (\<exists>(m, x) \<in> set xs. c \<in> fst ` set (md_para_dict x)) \<longrightarrow> dict_get wm' c \<noteq> None" by blast
    then show ?case using wm1(1,3) by (intro exI [of _ wm']) (auto simp: y)
  qed simp
  have "evo_weight_mem mds = foldE add [] (zip [0..<?n] mds)" by (simp add: evo_weight_mem_def add_def [abs_def])
  moreover have "rows_ok ?n []" "\<forall>(m, x) \<in> set (zip [0..<?n] mds). m < ?n \<and> x \<in> set mds"
    by (simp add: rows_ok_def) (auto dest: set_zip_leftD set_zip_rightD)
  moreover have "\<exists>m. (m, x) \<in> set (zip [0..<?n] mds)" if x: "x \<in> set mds" for x
  proof -
    obtain j where "j < ?n" "mds ! j = x" using x by (auto simp: in_set_conv_nth)
    then have "(j, x) \<in> set (zip [0..<?n] mds)" unfolding in_set_zip by (intro exI [of _ j]) simp
    then show ?thesis by blast
  qed
  ultimately show ?thesis using loop [of "[]" "zip [0..<?n] mds"] by (metis (mono_tags, lifting) case_prodI)
qed

section \<open>Properties of the search\<close>


text \<open>
  One model with profiles for one, two and four stages; from two pipelines of two stages the search merges, splits
  and mutates with every draw.
\<close>

definition pp_config :: "int \<Rightarrow> parallel_config" where
  "pp_config k = \<lparr>pc_dp = 1, pc_op = 1, pc_pp = k\<rparr>"

definition demo_random :: np_random where
  "demo_random = \<lparr>rnd_choice = (\<lambda>k n. k mod n), rnd_weighted = (\<lambda>k ps. 0), rnd_uniform = (\<lambda>k. 0), set_list = id\<rparr>"

definition demo_staged :: model_data where
  "demo_staged = \<lparr>md_name = ''a'', md_slo = 50, md_rate = 1, md_cv = 1, md_para_dict = map (\<lambda>k.
     (pp_config k, \<lparr>lm_latency = [], lm_act_mem = [], lm_weight_mem = [1]\<rparr>)) [1, 2, 4]\<rparr>"

text \<open>Half of the requests are served; fewer groups are better.\<close>

definition demo_stats :: "model_placement \<Rightarrow> sim_stats py" where
  "demo_stats pl = Inr \<lparr>st_per_model = [\<lparr>pm_name = ''a'', pm_num_requests = 2, pm_goodput = 1 / 2, pm_throughput = None, pm_latency_mean = 1,
     pm_latency_std = 0, pm_latency_p90 = 0, pm_latency_p99 = 0, pm_latency = [], pm_starts = [], pm_finishes = []\<rparr>],
     st_group_num_requests = None, st_goodput = 1 / (1 + of_nat (length (fst pl))), st_latency_mean = 1, st_num_requests = 2, st_request_rate = None\<rparr>"

definition demo_starts :: "model_placement list" where
  "demo_starts = [([pp_config 2, pp_config 2], [[0], []]), ([pp_config 1, pp_config 1, pp_config 2], [[0], [0], []])]"

lemma demo_candidate:
  "new_candidate demo_random stable_argsort 1 [(pp_config 1, [1]), (pp_config 2, [1]), (pp_config 4, [1])] 2
     (map (\<lambda>pl. (pl, projr (demo_stats pl))) demo_starts) 0 = (Inr ([pp_config 2, pp_config 2], [[0], [0]]), 10)"
  "merge_two_groups demo_random stable_argsort 1 (Some [1]) [(pp_config 1, [1]), (pp_config 2, [1]), (pp_config 4, [1])] 2 (hd demo_starts) 0 =
     (Inr ([pp_config 4], [[0]]), 2)"
  by code_simp+


section \<open>Unchecked steps\<close>

text \<open>A mutation puts a model into a group without regard to its memory: model 1 needs 9 of a budget of 5.\<close>

lemma mutation_ignores_budget:
  "mutate_groups \<lparr>rnd_choice = \<lambda>k n. 0, rnd_weighted = \<lambda>k ps. 1, rnd_uniform = \<lambda>k. 0, set_list = id\<rparr> 2 (Some [0, 1]) [[0]] 0 = (Inr [[1]], 2)"
  "total_weight [1, 9] [1] = 9"
  by code_simp+

text \<open>
  Merging two groups needs the weights for twice as many stages, which a profile need not have: the
  search then ends with an exception.
\<close>

lemma merge_needs_profile:
  "merge_two_groups \<lparr>rnd_choice = \<lambda>k n. k, rnd_weighted = \<lambda>k ps. 0, rnd_uniform = \<lambda>k. 0, set_list = id\<rparr> stable_argsort 1 (Some [1])
     [(\<lparr>pc_dp = 1, pc_op = 1, pc_pp = 8\<rparr>, [1])] 5 ([\<lparr>pc_dp = 1, pc_op = 1, pc_pp = 8\<rparr>, \<lparr>pc_dp = 1, pc_op = 1, pc_pp = 8\<rparr>], [[0], [0]]) 0 = (Inl KeyError, 2)"
  by code_simp

end
