(* ===== verification/AlpaSearch.thy ===== *)
theory AlpaSearch
  imports FastSimulator EvoSearch
begin

text \<open>
  The placement search \<open>ModelParallelismSearch\<close> of \<^verbatim>\<open>ModelPlacement/alpaserve_lib\<close> (\<open>placement_policy/model_parallelism.py\<close>) and the
  AlpaServe optimizer with it: the training workload, the greedy placement for every enumerated group configuration, the choice of
  the best score, the separation of unequal models, and the evolutionary search. The random numbers of numpy and
  the order of equal keys in \<open>np.argsort\<close> are parameters.
\<close>

section \<open>Training workload\<close>

record alpa_numpy =
  an_gamma :: gamma_source
  an_argsort :: "py_float list \<Rightarrow> nat list"
  an_random :: np_random

definition train_duration :: "model_data list \<Rightarrow> py_float py" where
  "train_duration mds = bindE (divE 30000 (\<Sum>x\<leftarrow>mds. md_rate x)) (\<lambda>d. Inr (max 100 d))"

definition gen_train_workload :: "alpa_numpy \<Rightarrow> model_data list \<Rightarrow> sim_workload py option" where
  "gen_train_workload np mds =
     bindD (Some (train_duration mds)) (\<lambda>duration.
     bindD (mapD (\<lambda>(i, x). gamma_workload (an_gamma np) (md_rate x) (md_cv x) (md_name x) 0 duration (Some (md_slo x)) (int i))
       (zip [0..<length mds] mds)) (\<lambda>ws.
     Some (merge_workloads (an_argsort np) ws)))"

section \<open>One ecosystem\<close>

definition get_scores :: "model_data list \<Rightarrow> sim_workload \<Rightarrow> model_placement list \<Rightarrow> py_float list py" where
  "get_scores mds w sols = mapE (get_goodput_simulation mds w) sols"

definition solve_placement_one_eco :: "mp_search \<Rightarrow> alpa_numpy \<Rightarrow> model_data list \<Rightarrow> cluster_env \<Rightarrow> sim_workload \<Rightarrow> model_placement py option" where
  "solve_placement_one_eco s np mds env w =
     bindD (Some (enumerate_group_configs_uneven s env)) (\<lambda>initial_sols.
     bindD (mapD (replica_placement_fast_greedy (an_argsort np) (get_stats_simulation mds w) mds env) initial_sols) (\<lambda>sols.
     bindD (Some (get_scores mds w sols)) (\<lambda>scores.
     bindD (Some (argmaxE scores)) (\<lambda>best_idx.
     Some (nthE sols best_idx)))))"

section \<open>Separation of unequal models\<close>

definition unit_config :: parallel_config where
  "unit_config = \<lparr>pc_dp = 1, pc_op = 1, pc_pp = 1\<rparr>"

definition unit_latency :: "model_data \<Rightarrow> py_float py" where
  "unit_latency x =
     bindE (lookupE (dict_get (md_para_dict x)) unit_config) (\<lambda>d. bindE (lookupE (dict_get (lm_latency d)) 1) maxE)"

fun find_cluster :: "py_float \<Rightarrow> nat \<Rightarrow> model_data list list \<Rightarrow> nat option py" where
  "find_cluster cur i [] = Inr None"
| "find_cluster cur i (cluster # clusters) =
     bindE (unit_latency (hd cluster)) (\<lambda>l. bindE (divE \<bar>cur - l\<bar> l) (\<lambda>q.
     if q < 38 / 100 then Inr (Some i) else find_cluster cur (i + 1) clusters))"

record separation_state =
  sp_map :: "(nat \<times> int, int) dict"
  sp_ecos :: "model_data list list"
  sp_latencies :: "py_float list"

definition add_to_cluster :: "separation_state \<Rightarrow> nat \<times> model_data \<Rightarrow> separation_state py" where
  "add_to_cluster st m =
     (case m of (model_id, x) \<Rightarrow>
      bindE (unit_latency x) (\<lambda>cur.
      bindE (find_cluster cur 0 (sp_ecos st)) (\<lambda>r.
      case r of
        Some i \<Rightarrow> Inr (st\<lparr>sp_map := dict_set (i, int (length (sp_ecos st ! i))) (int model_id) (sp_map st),
          sp_ecos := (sp_ecos st)[i := sp_ecos st ! i @ [x]]\<rparr>)
      | None \<Rightarrow> Inr (st\<lparr>sp_map := dict_set (length (sp_ecos st), 0) (int model_id) (sp_map st),
          sp_ecos := sp_ecos st @ [[x]], sp_latencies := sp_latencies st @ [cur]\<rparr>))))"

text \<open>How far the devices of a partition are from the shares of the request rates; \<open>None\<close> is not a number.\<close>

definition partition_distance :: "py_float list option \<Rightarrow> py_float list \<Rightarrow> int list \<Rightarrow> py_float option py" where
  "partition_distance ratio latencies p =
     bindE (mapE (\<lambda>(x, l). divE (of_int x) l) (zip p latencies)) (\<lambda>throughputs.
     case (ratio, shares throughputs) of
       (Some rs, Some ts) \<Rightarrow> bindE (maxE (map2 (\<lambda>r t. \<bar>r - t\<bar>) rs ts)) (\<lambda>d. Inr (Some d))
     | _ \<Rightarrow> Inr None)"

fun reduce_partitions :: "(int list \<times> py_float option) list \<Rightarrow> py_float list \<Rightarrow> int list list" where
  "reduce_partitions ps [] = []"
| "reduce_partitions ps (t # ts) =
     (let r = map fst (filter (\<lambda>(p, d). case d of None \<Rightarrow> False | Some x \<Rightarrow> x < t) ps) in
      if length r < 100 \<or> ts = [] then r else reduce_partitions ps ts)"

definition enumerate_separations :: "model_data list \<Rightarrow> cluster_env \<Rightarrow> ((model_data list \<times> cluster_env) list list \<times> (nat \<times> int, int) dict) py" where
  "enumerate_separations mds env =
     bindE (foldE add_to_cluster \<lparr>sp_map = [], sp_ecos = [], sp_latencies = []\<rparr> (zip [0..<length mds] mds)) (\<lambda>st.
     let ecos = sp_ecos st; partitions = get_partitions (num_devices env) (int (length ecos));
         ratio = shares (map (\<lambda>eco. \<Sum>x\<leftarrow>eco. md_rate x) ecos) in
     bindE (mapE (partition_distance ratio (sp_latencies st)) partitions) (\<lambda>ds.
     let reduced = reduce_partitions (zip partitions ds) [1, 5 / 10, 3 / 10, 2 / 10, 1 / 10] in
     Inr (map (\<lambda>p. map (\<lambda>(i, n). (ecos ! i, \<lparr>num_devices = n, mem_budget = mem_budget env, num_devices_per_node = 8\<rparr>)) (zip [0..<length p] p)) reduced,
       sp_map st)))"

text \<open>Each ecosystem on its own devices; the models get their numbers in the whole list.\<close>

fun solve_separation :: "mp_search \<Rightarrow> alpa_numpy \<Rightarrow> (nat \<times> int, int) dict \<Rightarrow> sim_workload \<Rightarrow> nat \<Rightarrow> (model_data list \<times> cluster_env) list \<Rightarrow> model_placement py option" where
  "solve_separation s np ids w i [] = Some (Inr ([], []))"
| "solve_separation s np ids w i ((mds, env) # ecos) =
     bindD (solve_placement_one_eco s np mds env w) (\<lambda>sol.
     bindD (Some (mapE (mapE (\<lambda>m. lookupE (dict_get ids) (i, m))) (snd sol))) (\<lambda>models.
     bindD (solve_separation s np ids w (i + 1) ecos) (\<lambda>rest.
     Some (Inr (fst sol @ fst rest, models @ snd rest)))))"

definition separate_if_better :: "mp_search \<Rightarrow> alpa_numpy \<Rightarrow> model_data list \<Rightarrow> cluster_env \<Rightarrow> sim_workload \<Rightarrow> model_placement \<Rightarrow> model_placement py option" where
  "separate_if_better s np mds env w best_sol =
     bindD (Some (enumerate_separations mds env)) (\<lambda>(separations, ids).
     bindD (mapD (solve_separation s np ids w 0) separations) (\<lambda>sols.
     bindD (Some (get_scores mds w sols)) (\<lambda>scores.
     bindD (Some (argmaxE scores)) (\<lambda>best_idx.
     bindD (Some (get_goodput_simulation mds w best_sol)) (\<lambda>score_mixed.
     Some (Inr (if score_mixed < scores ! best_idx then sols ! best_idx else best_sol)))))))"

section \<open>The search\<close>

text \<open>Without the separation the evolutionary search reads a variable that has no value.\<close>

definition solve_placement :: "mp_search \<Rightarrow> alpa_numpy \<Rightarrow> model_data list \<Rightarrow> cluster_env \<Rightarrow> model_placement py option" where
  "solve_placement s np mds env =
     bindD (gen_train_workload np mds) (\<lambda>w.
     bindD (solve_placement_one_eco s np mds env w) (\<lambda>best_sol.
     bindD (if use_separation s then separate_if_better s np mds env w best_sol else Some (Inr best_sol)) (\<lambda>best_sol.
     if use_evo_search s then
       (if use_separation s
        then bindD (Some (fst (evolutionary_search (an_random np) (an_argsort np) (get_stats_simulation mds w) mds env 200 [best_sol] 0)))
          (\<lambda>r. case r of None \<Rightarrow> Some (Inl TypeError) | Some sol \<Rightarrow> Some (Inr sol))
        else Some (Inl UnboundLocalError))
     else Some (Inr best_sol))))"

text \<open>The optimizer with the search it uses.\<close>

definition alpaserve :: "alpa_numpy \<Rightarrow> string \<Rightarrow> nat \<Rightarrow> alpa_config \<Rightarrow> (xrat \<times> int list \<times> parallel_config) py option" where
  "alpaserve np gpu num_stage c = alpaserve_optimize (solve_placement default_search np) gpu num_stage c"

section \<open>Lemmas: one ecosystem\<close>

lemma mapD_exists: "\<forall>x \<in> set xs. \<exists>y. f x = Some (Inr y) \<and> P x y \<Longrightarrow> \<exists>ys. mapD f xs = Some (Inr ys) \<and> list_all2 P xs ys"
  by (induction xs) (auto simp: bindD_def)

lemma score_exists:
  assumes "simulable mds w" "runnable (length mds) pl"
  shows "\<exists>q. get_goodput_simulation mds w pl = Inr q"
  using get_stats_shape [OF assms] by (auto simp: get_goodput_simulation_def get_stats_simulation_def)

text \<open>
  The fast simulator is an evaluator as the evolutionary search needs it (\<open>evolutionary_search_keeps_devices\<close>), and
  it finds a placement to serve every request only if no model has one.
\<close>

lemma simulator_evaluates:
  assumes "simulable mds w" "closed_configs B D"
  shows "\<forall>pl. placed (length mds) B D pl \<longrightarrow> (\<exists>st. get_stats_simulation mds w pl = Inr st \<and> stats_ok (length mds) st)"
    and "placed (length mds) B D pl \<Longrightarrow> get_stats_simulation mds w pl = Inr st \<Longrightarrow> m \<in> set (st_per_model st) \<Longrightarrow>
      0 < pm_num_requests m \<Longrightarrow> \<not> all_served st"
proof -
  have run: "runnable (length mds) pl" if "placed (length mds) B D pl" for pl
    using that assms(2) by (auto simp: runnable_def placed_def closed_configs_def)
  note st = get_stats_unserved [OF assms(1) run]
  show "\<forall>pl. placed (length mds) B D pl \<longrightarrow> (\<exists>st. get_stats_simulation mds w pl = Inr st \<and> stats_ok (length mds) st)"
    using st by (fastforce simp: stats_ok_def)
  show "placed (length mds) B D pl \<Longrightarrow> get_stats_simulation mds w pl = Inr st \<Longrightarrow> m \<in> set (st_per_model st) \<Longrightarrow>
      0 < pm_num_requests m \<Longrightarrow> \<not> all_served st"
    using st [of pl] by (auto simp: all_served_def)
qed

text \<open>The greedy result from a start without models on the given groups.\<close>

definition greedy_result :: "alpa_numpy \<Rightarrow> model_data list \<Rightarrow> cluster_env \<Rightarrow> sim_workload \<Rightarrow> model_placement \<Rightarrow> model_placement \<Rightarrow> bool" where
  "greedy_result np mds env w init r \<longleftrightarrow>
     replica_placement_fast_greedy (an_argsort np) (get_stats_simulation mds w) mds env init = Some (Inr r)"

lemma greedy_from_start:
  assumes "argsort_ok (an_argsort np)" "simulable mds w" "0 \<le> mem_budget env" "fst init \<noteq> []"
    "snd init = replicate (length (fst init)) []" "\<forall>c \<in> set (fst init). 1 \<le> pc_pp c"
  shows "\<exists>r. greedy_result np mds env w init r \<and> runnable (length mds) r \<and> verify mds env r = Inr () \<and>
    mset (fst r) = mset (fst init) \<and> (\<forall>g m. \<not> open_slot mds (mem_budget env) r g m)"
proof -
  have "runnable (length mds) init" using assms(4-6) by (simp add: runnable_def valid_placement_def)
  moreover have "within_budget mds (mem_budget env) init"
    using assms(3,5) by (auto simp: within_budget_def used_mem_def dest: set_zip_rightD)
  ultimately show ?thesis unfolding greedy_result_def by (rule fast_sim.greedy_ok [OF assms(1,2)])
qed

lemma devices_of_mset: "mset (fst a) = mset (fst b) \<Longrightarrow> devices_of a = devices_of b"
proof -
  assume "mset (fst a) = mset (fst b)"
  from arg_cong [OF this, of "\<lambda>M. sum_mset (image_mset (\<lambda>c. pc_dp c * pc_op c * pc_pp c) M)"]
  show "devices_of a = devices_of b" unfolding devices_of_def mset_map [symmetric] sum_mset_sum_list .
qed

text \<open>The result of the search in one ecosystem: the greedy placement with the best score.\<close>

definition searched :: "mp_search \<Rightarrow> alpa_numpy \<Rightarrow> model_data list \<Rightarrow> cluster_env \<Rightarrow> sim_workload \<Rightarrow> model_placement \<Rightarrow> bool" where
  "searched s np mds env w pl \<longleftrightarrow>
     runnable (length mds) pl \<and> devices_of pl = num_devices env \<and> verify mds env pl = Inr () \<and> (\<forall>g m. \<not> open_slot mds (mem_budget env) pl g m) \<and>
     (\<exists>sols score. enumerate_group_configs_uneven s env = Inr sols \<and> get_goodput_simulation mds w pl = Inr score \<and>
       (\<exists>init \<in> set sols. greedy_result np mds env w init pl \<and> mset (fst pl) = mset (fst init)) \<and>
       (\<forall>init \<in> set sols. \<exists>r q. greedy_result np mds env w init r \<and> get_goodput_simulation mds w r = Inr q \<and> q \<le> score))"

lemma one_eco_ok:
  assumes "argsort_ok (an_argsort np)" "simulable mds w" "0 \<le> mem_budget env"
    "0 < num_devices env" "0 < num_devices_per_node env" "1 \<le> max_pp s" "1 \<le> max_op s"
  shows "\<exists>pl. solve_placement_one_eco s np mds env w = Some (Inr pl) \<and> searched s np mds env w pl"
proof -
  obtain sols where sols: "enumerate_group_configs_uneven s env = Inr sols" "sols \<noteq> []"
    "\<forall>pl \<in> set sols. devices_of pl = num_devices env \<and> snd pl = replicate (length (fst pl)) [] \<and>
       (\<forall>c \<in> set (fst pl). pc_dp c = 1 \<and> 1 \<le> pc_op c \<and> pc_op c \<le> max_op s \<and> 1 \<le> pc_pp c)"
    using enumerate_uneven_shape [OF assms(4-7)] by blast
  let ?greedy = "replica_placement_fast_greedy (an_argsort np) (get_stats_simulation mds w) mds env"
  let ?P = "\<lambda>init r. greedy_result np mds env w init r \<and> runnable (length mds) r \<and> verify mds env r = Inr () \<and>
      mset (fst r) = mset (fst init) \<and> (\<forall>g m. \<not> open_slot mds (mem_budget env) r g m)"
  have "\<forall>init \<in> set sols. \<exists>r. ?greedy init = Some (Inr r) \<and> ?P init r"
  proof
    fix init assume "init \<in> set sols"
    then have init: "devices_of init = num_devices env" "snd init = replicate (length (fst init)) []" "\<forall>c \<in> set (fst init). 1 \<le> pc_pp c"
      using sols(3) by auto
    have "fst init \<noteq> []" using init(1) assms(4) by (auto simp: devices_of_def)
    from greedy_from_start [OF assms(1-3) this init(2,3)]
    show "\<exists>r. ?greedy init = Some (Inr r) \<and> ?P init r" unfolding greedy_result_def by blast
  qed
  from mapD_exists [OF this] obtain rs where rs: "mapD ?greedy sols = Some (Inr rs)" "list_all2 ?P sols rs" by blast
  have len: "length rs = length sols" using list_all2_lengthD [OF rs(2)] by simp
  have all: "?P (sols ! i) (rs ! i)" if "i < length sols" for i using list_all2_nthD [OF rs(2) that] .
  have "\<forall>r \<in> set rs. \<exists>q. get_goodput_simulation mds w r = Inr q \<and> True"
    using all len score_exists [OF assms(2)] by (metis in_set_conv_nth)
  from mapE_exists [OF this] obtain qs where qs: "get_scores mds w rs = Inr qs" unfolding get_scores_def by blast
  then have rel: "list_all2 (\<lambda>r q. get_goodput_simulation mds w r = Inr q) rs qs" by (simp add: get_scores_def mapE_Inr_iff)
  have lenq: "length qs = length sols" using list_all2_lengthD [OF rel] len by simp
  have score: "get_goodput_simulation mds w (rs ! i) = Inr (qs ! i)" if "i < length sols" for i
    using list_all2_nthD [OF rel, of i] that len by simp
  have "qs \<noteq> []" using sols(2) lenq by auto
  then obtain i where i: "argmaxE qs = Inr i" by (simp add: argmaxE_def)
  note max = argmaxE [OF i]
  have il: "i < length sols" using max(1) lenq by simp
  have "solve_placement_one_eco s np mds env w = Some (Inr (rs ! i))"
    using sols(1) rs(1) qs i il len by (simp add: solve_placement_one_eco_def bindD_def nthE_def)
  moreover have "searched s np mds env w (rs ! i)"
    unfolding searched_def
  proof (intro conjI exI)
    show "runnable (length mds) (rs ! i)" "verify mds env (rs ! i) = Inr ()" "\<forall>g m. \<not> open_slot mds (mem_budget env) (rs ! i) g m"
      using all [OF il] by simp_all
    have "devices_of (rs ! i) = devices_of (sols ! i)" using all [OF il] by (intro devices_of_mset) simp
    then show "devices_of (rs ! i) = num_devices env" using sols(3) nth_mem [OF il] by simp
    show "enumerate_group_configs_uneven s env = Inr sols" by (rule sols(1))
    show "get_goodput_simulation mds w (rs ! i) = Inr (qs ! i)" by (rule score [OF il])
    show "\<exists>init \<in> set sols. greedy_result np mds env w init (rs ! i) \<and> mset (fst (rs ! i)) = mset (fst init)"
      using all [OF il] nth_mem [OF il] by blast
    show "\<forall>init \<in> set sols. \<exists>r q. greedy_result np mds env w init r \<and> get_goodput_simulation mds w r = Inr q \<and> q \<le> qs ! i"
    proof
      fix init assume "init \<in> set sols"
      then obtain j where j: "j < length sols" "init = sols ! j" by (auto simp: in_set_conv_nth)
      have "qs ! j \<le> qs ! i" using max(2) j(1) lenq by simp
      then show "\<exists>r q. greedy_result np mds env w init r \<and> get_goodput_simulation mds w r = Inr q \<and> q \<le> qs ! i"
        using all [OF j(1)] score [OF j(1)] unfolding j(2) by blast
    qed
  qed
  ultimately show ?thesis by blast
qed

section \<open>Lemmas: the optimizer\<close>

lemma length_backtrack: "1 \<le> s \<Longrightarrow> length (backtrack sp n s k) = s"
proof (induction sp n s k rule: backtrack.induct)
  case (1 sp n s k)
  then show ?case by (subst backtrack.simps) auto
qed

lemma length_stage_weight_mem [simp]: "length (stage_weight_mem w e tp n f a ls) = length ls"
  by (induction w e tp n f a ls rule: stage_weight_mem.induct) simp_all

lemma mem_fold_dict_set: "(a, d) \<in> set (foldl (\<lambda>d x. dict_set (k x) (v x) d) d0 xs) \<Longrightarrow> (a, d) \<in> set d0 \<or> (\<exists>x \<in> set xs. a = k x \<and> d = v x)"
proof (induction xs arbitrary: d0)
  case (Cons x xs)
  have "(a, d) \<in> set (dict_set (k x) (v x) d0) \<Longrightarrow> (a, d) \<in> set d0 \<or> a = k x \<and> d = v x" by (induction d0) (auto split: if_splits)
  with Cons show ?case by fastforce
qed simp

text \<open>Every entry of the profile has a latency and a weight per stage.\<close>

lemma profile_entries:
  assumes "build_profiling_result c gpu n = Inr prof" "(k, d) \<in> set prof"
  shows "\<exists>pp \<in> {1..n}. k = config_key c pp \<and> length (lm_weight_mem d) = pp \<and> (\<exists>ls. dict_get (lm_latency d) 1 = Some ls \<and> length ls = pp)"
proof -
  obtain lat w where prof: "prof = foldl (\<lambda>d pp. dict_set (config_key c pp) (profile_entry c lat w pp) d) [] [1..<n + 1]"
    using assms(1) by (auto simp: build_profiling_result_def bindE_Inr_iff)
  have "(k, d) \<in> set [] \<or> (\<exists>pp \<in> set [1..<n + 1]. k = config_key c pp \<and> d = profile_entry c lat w pp)"
    using assms(2) unfolding prof by (rule mem_fold_dict_set)
  moreover have "(k, d) \<notin> set []" by simp
  ultimately obtain pp where pp: "pp \<in> set [1..<n + 1]" "k = config_key c pp" "d = profile_entry c lat w pp" by blast
  have "pp \<in> {1..n}" using pp(1) by (simp del: upt_Suc)
  then show ?thesis unfolding pp(2,3) by (intro bexI [of _ pp]) (auto simp: profile_entry_def Let_def boundaries_def length_backtrack)
qed

text \<open>The random gaps of the training workload: the first request is before the end of the period, and some request after it.\<close>

definition train_tick :: "alpa_numpy \<Rightarrow> py_float \<Rightarrow> nat \<Rightarrow> py_float" where
  "train_tick np rate = (let b = gamma_batch rate (max 100 (30000 / rate)) in tick (an_gamma np 0 1 (1 / rate) b) b 0)"

definition train_ok :: "alpa_numpy \<Rightarrow> py_float \<Rightarrow> bool" where
  "train_ok np rate \<longleftrightarrow> 0 < rate \<and> train_tick np rate 0 < max 100 (30000 / rate) \<and> (\<exists>n. max 100 (30000 / rate) \<le> train_tick np rate n)"

lemma gen_train_workload_one:
  assumes "train_ok np (md_rate x)" "md_cv x = 1"
  shows "\<exists>n. 0 < n \<and> gen_train_workload np [x] =
    Some (Inr \<lparr>w_arrivals = map (train_tick np (md_rate x)) [0..<n], w_requests = request_list (md_name x) (Some (md_slo x)) n\<rparr>)"
proof -
  let ?t = "train_tick np (md_rate x)" and ?d = "max 100 (30000 / md_rate x)"
  have rate: "0 < md_rate x" using assms(1) by (simp add: train_ok_def)
  obtain n where n: "?d \<le> ?t n" "\<forall>k < n. \<not> ?d \<le> ?t k"
    using assms(1) unfolding train_ok_def exists_least_iff [of "\<lambda>n. ?d \<le> ?t n"] by blast
  have "0 < n" using n(1) assms(1) by (cases n) (auto simp: train_ok_def)
  have "\<forall>k < n. ?t k < 0 + ?d" "0 + ?d \<le> ?t n" using n by (auto simp: not_le)
  then have "generate_arrivals (an_gamma np) (md_rate x) (md_cv x) 0 ?d 0 = Some (Inr (map ?t [0..<n]))"
    using generate_arrivals_run [OF rate, of "md_cv x" n "an_gamma np" 0 ?d 0] assms(2) by (simp add: train_tick_def Let_def)
  then show ?thesis using rate \<open>0 < n\<close>
    by (intro exI [of _ n]) (simp add: gen_train_workload_def train_duration_def divE_def bindD_def gamma_workload_def make_workload_def
      request_list_def merge_workloads_def)
qed

text \<open>What the optimizer asks has an answer.\<close>

lemma alpaserve_search:
  assumes "alpa_ok c gpu" "1 \<le> num_stage" "argsort_ok (an_argsort np)" "train_ok np (or_default (a_rate c) (552 / 100))"
    "0 \<le> or_default (a_gpu_mem_utilization c) (9 / 10)"
  shows "\<exists>prof mds env w pl. alpaserve_inputs gpu num_stage c = Inr (prof, mds, env) \<and> build_profiling_result c gpu num_stage = Inr prof \<and>
    set (dict_keys prof) = config_key c ` {1..num_stage} \<and> length mds = 1 \<and> md_para_dict (mds ! 0) = prof \<and>
    num_devices env = int num_stage * a_tp_size c \<and> num_devices_per_node env = a_tp_size c \<and>
    (\<exists>g. dict_get GPU_SPEC gpu = Some g \<and> mem_budget env = of_int (memory_size g) * 10 ^ 6 * or_default (a_gpu_mem_utilization c) (9 / 10)) \<and>
    simulable mds w \<and> solve_placement default_search np mds env = Some (Inr pl) \<and> searched default_search np mds env w pl"
proof -
  obtain prof g lat where inp: "dict_get GPU_SPEC gpu = Some g" "build_profiling_result c gpu num_stage = Inr prof"
    "set (dict_keys prof) = config_key c ` {1..num_stage}"
    "alpaserve_inputs gpu num_stage c = Inr (prof,
       [\<lparr>md_name = ''model'', md_slo = lat * 10, md_rate = or_default (a_rate c) (552 / 100), md_cv = 1, md_para_dict = prof\<rparr>],
       \<lparr>num_devices = int num_stage * a_tp_size c, mem_budget = of_int (memory_size g) * 10 ^ 6 * or_default (a_gpu_mem_utilization c) (9 / 10),
        num_devices_per_node = a_tp_size c\<rparr>)" by (rule alpaserve_inputs_ok [OF assms(1,2)])
  define x where "x = \<lparr>md_name = ''model'', md_slo = lat * 10, md_rate = or_default (a_rate c) (552 / 100), md_cv = 1, md_para_dict = prof\<rparr>"
  define env where "env = \<lparr>num_devices = int num_stage * a_tp_size c,
     mem_budget = of_int (memory_size g) * 10 ^ 6 * or_default (a_gpu_mem_utilization c) (9 / 10), num_devices_per_node = a_tp_size c\<rparr>"
  obtain n where n: "0 < n" "gen_train_workload np [x] =
      Some (Inr \<lparr>w_arrivals = map (train_tick np (md_rate x)) [0..<n], w_requests = request_list (md_name x) (Some (md_slo x)) n\<rparr>)"
    using gen_train_workload_one [of np x] assms(4) by (auto simp: x_def)
  let ?w = "\<lparr>w_arrivals = map (train_tick np (md_rate x)) [0..<n], w_requests = request_list (md_name x) (Some (md_slo x)) n\<rparr>"
  have "lm_weight_mem d \<noteq> [] \<and> (case dict_get (lm_latency d) 1 of None \<Rightarrow> False | Some ls \<Rightarrow> ls \<noteq> [] \<and> nat (pc_pp k) \<le> length ls)"
    if "(k, d) \<in> set prof" for k d
    using profile_entries [OF inp(2) that] by (auto simp: config_key_def)
  then have ev: "simulable [x] ?w" using n(1) by (auto simp: simulable_def profiled_def request_list_def x_def)
  have tp: "0 < a_tp_size c" using assms(1) by (simp add: alpa_ok_def)
  have "0 \<le> mem_budget env" using gpu_specs [OF inp(1)] assms(5) by (simp add: env_def)
  moreover have "0 < num_devices env" "0 < num_devices_per_node env" using tp assms(2) by (simp_all add: env_def)
  ultimately obtain pl where pl: "solve_placement_one_eco default_search np [x] env ?w = Some (Inr pl)" "searched default_search np [x] env ?w pl"
    using one_eco_ok [OF assms(3) ev, of env default_search] by (auto simp: default_search_def)
  then have "solve_placement default_search np [x] env = Some (Inr pl)"
    using n(2) by (simp add: solve_placement_def bindD_def) (simp add: default_search_def)
  then show ?thesis using inp ev pl(2)
    by (intro exI [of _ prof] exI [of _ "[x]"] exI [of _ env] exI [of _ ?w] exI [of _ pl]) (simp add: x_def env_def)
qed

lemma max_config_largest:
  assumes "set cs = config_key c ` {1..n}" "1 \<le> n"
  shows "max_config cs = Inr (config_key c n)"
proof -
  have "cs \<noteq> []" using assms by auto
  then obtain x where x: "max_config cs = Inr x" "x \<in> set cs" by (rule max_config_mem)
  obtain a as where cs: "cs = a # as" using \<open>cs \<noteq> []\<close> by (cases cs) auto
  have "config_key c n \<in> set (a # as)" using assms unfolding cs [symmetric] by auto
  from largest.pick_best [where key = pc_pp, OF this] have "pc_pp (config_key c n) \<le> pc_pp x" using x(1) unfolding cs by (simp add: not_less)
  with x assms show ?thesis by (auto simp: config_key_def)
qed

text \<open>The configuration chosen from a placement: that with the most stages, or that of a group with the model.\<close>

lemma chosen_config_cases:
  assumes "set (dict_keys prof) = config_key c ` {1..n}" "1 \<le> n" "chosen_config c n prof pl = Inr k"
  shows "k = config_key c n \<or> (\<exists>gm d. (k, gm) \<in> set (zip (fst pl) (snd pl)) \<and> 0 \<in> set gm \<and> dict_get prof k = Some d)"
proof -
  define y where "y = (case filter (\<lambda>(gc, gm). 0 \<in> set gm) (zip (fst pl) (snd pl)) of [] \<Rightarrow> config_key c n | (gc, gm) # _ \<Rightarrow> gc)"
  have k: "k = (if dict_get prof y = None then config_key c n else y)"
    using assms(3) max_config_largest [OF assms(1,2)] unfolding chosen_config_def Let_def y_def [symmetric] by (auto split: if_splits)
  show ?thesis
  proof (cases "filter (\<lambda>(gc, gm). 0 \<in> set gm) (zip (fst pl) (snd pl))")
    case Nil
    then show ?thesis using k by (simp add: y_def)
  next
    case (Cons p ps)
    obtain gc gm where p: "p = (gc, gm)" by fastforce
    have "p \<in> set (filter (\<lambda>(gc, gm). 0 \<in> set gm) (zip (fst pl) (snd pl)))" unfolding Cons by simp
    then have "(gc, gm) \<in> set (zip (fst pl) (snd pl))" "0 \<in> set gm" unfolding p by auto
    then show ?thesis using k Cons p by (auto simp: y_def)
  qed
qed

section \<open>Properties\<close>

text \<open>C13. The search for one ecosystem returns, for every cluster, every list of profiled models with different names and every
  workload that is not empty. Its placement uses each device exactly once, passes the check of the weights and of double
  models, leaves no room for another replica in any group, and is the greedy result with the best score of all
  enumerated group configurations.\<close>

theorem search_returns_best_greedy:
  assumes "argsort_ok (an_argsort np)" "simulable mds w" "0 \<le> mem_budget env"
    "0 < num_devices env" "0 < num_devices_per_node env" "1 \<le> max_pp s" "1 \<le> max_op s"
  shows "\<exists>pl sols score. solve_placement_one_eco s np mds env w = Some (Inr pl) \<and> devices_of pl = num_devices env \<and> verify mds env pl = Inr () \<and>
    (\<forall>g m. \<not> open_slot mds (mem_budget env) pl g m) \<and>
    enumerate_group_configs_uneven s env = Inr sols \<and> get_goodput_simulation mds w pl = Inr score \<and> (\<exists>init \<in> set sols. greedy_result np mds env w init pl) \<and>
    (\<forall>init \<in> set sols. \<exists>r q. greedy_result np mds env w init r \<and> get_goodput_simulation mds w r = Inr q \<and> q \<le> score)"
proof -
  obtain pl where pl: "solve_placement_one_eco s np mds env w = Some (Inr pl)" "searched s np mds env w pl"
    using one_eco_ok [OF assms] by blast
  then obtain sols score where "enumerate_group_configs_uneven s env = Inr sols" "get_goodput_simulation mds w pl = Inr score"
    "\<exists>init \<in> set sols. greedy_result np mds env w init pl"
    "\<forall>init \<in> set sols. \<exists>r q. greedy_result np mds env w init r \<and> get_goodput_simulation mds w r = Inr q \<and> q \<le> score"
    unfolding searched_def by blast
  then show ?thesis using pl unfolding searched_def by blast
qed

definition demo_numpy :: alpa_numpy where
  "demo_numpy = \<lparr>an_gamma = \<lambda>seed shape scale size call. replicate size scale, an_argsort = stable_argsort, an_random = demo_random\<rparr>"

theorem search_returns_best_greedy_witness:
  "\<exists>pl. solve_placement_one_eco default_search demo_numpy demo_models demo_env \<lparr>w_arrivals = [1], w_requests = request_list ''a'' (Some 5) 1\<rparr> = Some (Inr pl) \<and>
    devices_of pl = 5"
proof -
  let ?w = "\<lparr>w_arrivals = [1], w_requests = request_list ''a'' (Some 5) 1\<rparr> :: sim_workload"
  have "simulable demo_models ?w" by code_simp
  from search_returns_best_greedy [OF _ this, of demo_numpy demo_env default_search] stable_argsort_ok show ?thesis
    by (auto simp: demo_numpy_def demo_env_def default_search_def)
qed

text \<open>C12. The AlpaServe optimizer with its search returns, for every model and instance type it can estimate, up to as many stages
  as layers, and for random gaps that reach the end of the training period. It splits all layers over at most the given
  number of stages such that no split into as many stages has a faster slowest stage. It takes fewer stages than
  given only if the weights of every stage then fit the memory budget, and never with more than four GPUs per
  stage, as the search tries no such group.\<close>

theorem alpaserve_with_search:
  assumes "alpa_ok c gpu" "1 \<le> num_stage" "num_stage \<le> a_num_layers c" "argsort_ok (an_argsort np)"
    "train_ok np (or_default (a_rate c) (552 / 100))" "0 \<le> or_default (a_gpu_mem_utilization c) (9 / 10)"
  shows "\<exists>per_layer lm_head v layers pp. per_layer_lat_sec c gpu = Inr per_layer \<and> lm_head_lat_sec c gpu = Inr lm_head \<and>
     alpaserve np gpu num_stage c = Some (Inr (Fin (v * 1000), layers, config_key c pp)) \<and>
     1 \<le> pp \<and> pp \<le> num_stage \<and> composition pp (a_num_layers c) layers \<and>
     v = bottleneck (stage_lat per_layer lm_head (int (a_num_layers c))) layers \<and>
     (\<forall>ls. composition pp (a_num_layers c) ls \<longrightarrow> v \<le> bottleneck (stage_lat per_layer lm_head (int (a_num_layers c))) ls) \<and>
     (pp \<noteq> num_stage \<longrightarrow> a_tp_size c \<le> 4 \<and>
       (\<exists>g prof d. dict_get GPU_SPEC gpu = Some g \<and> build_profiling_result c gpu num_stage = Inr prof \<and> dict_get prof (config_key c pp) = Some d \<and>
         (\<forall>w \<in> set (lm_weight_mem d). w \<le> of_int (memory_size g) * 10 ^ 6 * or_default (a_gpu_mem_utilization c) (9 / 10))))"
proof -
  obtain prof mds env w pl where s: "alpaserve_inputs gpu num_stage c = Inr (prof, mds, env)" "build_profiling_result c gpu num_stage = Inr prof"
    "set (dict_keys prof) = config_key c ` {1..num_stage}" "length mds = 1" "md_para_dict (mds ! 0) = prof"
    "\<exists>g. dict_get GPU_SPEC gpu = Some g \<and> mem_budget env = of_int (memory_size g) * 10 ^ 6 * or_default (a_gpu_mem_utilization c) (9 / 10)"
    "simulable mds w" "solve_placement default_search np mds env = Some (Inr pl)" "searched default_search np mds env w pl"
    "num_devices env = int num_stage * a_tp_size c" "num_devices_per_node env = a_tp_size c"
    using alpaserve_search [OF assms(1,2,4-6)] by blast
  obtain l h v layers pp where r: "per_layer_lat_sec c gpu = Inr l" "lm_head_lat_sec c gpu = Inr h"
    "alpaserve_result gpu num_stage c prof pl = Inr (Fin (v * 1000), layers, config_key c pp)"
    "1 \<le> pp" "pp \<le> num_stage" "composition pp (a_num_layers c) layers" "v = bottleneck (stage_lat l h (int (a_num_layers c))) layers"
    "\<forall>ls. composition pp (a_num_layers c) ls \<longrightarrow> v \<le> bottleneck (stage_lat l h (int (a_num_layers c))) ls"
    using alpaserve_result_ok [OF assms(1-3) s(3), of pl] by blast
  have out: "alpaserve np gpu num_stage c = Some (Inr (Fin (v * 1000), layers, config_key c pp))"
    using s(1,8) r(3) by (simp add: alpaserve_def alpaserve_optimize_def bindD_def)
  have chosen: "chosen_config c num_stage prof pl = Inr (config_key c pp)"
    using r(3) by (auto simp: alpaserve_result_def bindE_Inr_iff Let_def)
  have "a_tp_size c \<le> 4 \<and> (\<exists>g prof d. dict_get GPU_SPEC gpu = Some g \<and> build_profiling_result c gpu num_stage = Inr prof \<and> dict_get prof (config_key c pp) = Some d \<and>
      (\<forall>w \<in> set (lm_weight_mem d). w \<le> of_int (memory_size g) * 10 ^ 6 * or_default (a_gpu_mem_utilization c) (9 / 10)))" if "pp \<noteq> num_stage"
  proof -
    have "config_key c pp \<noteq> config_key c num_stage" using that by (simp add: config_key_def)
    with chosen_config_cases [OF s(3) assms(2) chosen] obtain gm d where group: "(config_key c pp, gm) \<in> set (zip (fst pl) (snd pl))" "0 \<in> set gm"
      "dict_get prof (config_key c pp) = Some d" by blast
    have mem: "config_key c pp \<in> set (fst pl)" "gm \<in> set (snd pl)" using group(1) by (auto dest: set_zip_leftD set_zip_rightD)
    obtain sols init where init: "enumerate_group_configs_uneven default_search env = Inr sols" "init \<in> set sols" "mset (fst pl) = mset (fst init)"
      using s(9) unfolding searched_def by blast
    have "0 < num_devices env" "0 < num_devices_per_node env" using assms(1,2) s(10,11) by (simp_all add: alpa_ok_def)
    from enumerate_uneven_shape [OF this, of default_search] init(1,2)
    have "\<forall>c \<in> set (fst init). pc_op c \<le> 4" by (auto simp: default_search_def)
    moreover have "config_key c pp \<in> set (fst init)" using mem(1) mset_eq_setD [OF init(3)] by simp
    ultimately have "pc_op (config_key c pp) \<le> 4" by blast
    then have tp: "a_tp_size c \<le> 4" by (simp add: config_key_def)
    have v: "valid_placement 1 pl" "verify mds env pl = Inr ()" "profiled mds" using s(4,7,9) by (simp_all add: searched_def runnable_def simulable_def)
    have "\<forall>ms \<in> set (snd pl). set ms \<subseteq> {0..<int (length mds)}" using v(1) s(4) unfolding valid_placement_def by simp
    from verify_iff [OF v(3) this] v(2) group(1) have budget: "used_mem mds (config_key c pp) gm \<le> mem_budget env" by (auto simp: within_budget_def)
    have gm: "distinct gm" "set gm \<subseteq> {0..<int 1}" using v(1) mem(2) unfolding valid_placement_def by blast+
    then have "set gm = {0}" using group(2) by fastforce
    with gm(1) have "gm = [0]" by (cases gm; cases "tl gm") auto
    then have "Max (set (lm_weight_mem d)) \<le> mem_budget env" using budget group(3) s(5) by (simp add: used_mem_def model_mem_def mem_of_def)
    then have "\<forall>w \<in> set (lm_weight_mem d). w \<le> mem_budget env" by (meson List.finite_set Max_ge order_trans)
    with tp s(2,6) group(3) show ?thesis by auto
  qed
  with r out show ?thesis by blast
qed

lemma demo_train_ok: "train_ok demo_numpy (552 / 100)"
proof -
  have tick: "train_tick demo_numpy (552 / 100) n = of_nat (n + 1) * (100 / 552)" for n
    by (simp add: train_tick_def tick_def gap_def demo_numpy_def Let_def gamma_batch_def)
  have "max 100 (30000 / (552 / 100)) \<le> train_tick demo_numpy (552 / 100) 30000" unfolding tick by simp
  then show ?thesis unfolding train_ok_def using tick [of 0] by auto
qed

theorem alpaserve_with_search_witness:
  "\<exists>v layers pp. alpaserve demo_numpy ''T4'' 2 small_alpa = Some (Inr (Fin (v * 1000), layers, config_key small_alpa pp)) \<and>
     pp \<le> 2 \<and> composition pp 3 layers"
proof -
  have ok: "alpa_ok small_alpa ''T4''" using small_ok(1) by (simp add: alpa_ok_def small_alpa_def GPU_SPEC_def)
  have "train_ok demo_numpy (or_default (a_rate small_alpa) (552 / 100))" "0 \<le> or_default (a_gpu_mem_utilization small_alpa) (9 / 10)"
    using demo_train_ok by (simp_all add: small_alpa_def or_default_def)
  moreover have "argsort_ok (an_argsort demo_numpy)" "a_num_layers small_alpa = 3" using stable_argsort_ok by (simp_all add: demo_numpy_def small_alpa_def)
  ultimately show ?thesis using alpaserve_with_search [OF ok, of 2 demo_numpy] by auto
qed

end
