(* ===== verification/LayerSplit.thy ===== *)
theory LayerSplit
  imports Prelude
begin

text \<open>
  The distribution of layers over pipeline stages of \<^verbatim>\<open>ModelPlacement/hexgen/gen_pp_layer_list.py\<close>: a uniform
  distribution that is shifted by a bias, one layer at a time. The loops over the bias may not end;
  they are partial functions with values in an option type, and \<open>None\<close> means that the loop runs
  forever. A potential, the number of shifts that are still possible, decides when they end.
\<close>

section \<open>Operations\<close>

definition uniform :: "int \<Rightarrow> nat \<Rightarrow> int list" where
  "uniform layers stages =
     replicate (stages - nat (layers mod int stages)) (layers div int stages) @
     replicate (nat (layers mod int stages)) (layers div int stages + 1)"

text \<open>One pass of the loop over the stages: a layer moves from stage \<open>i\<close> to the next one, up or down.\<close>

fun shift_pass :: "(nat \<Rightarrow> nat) \<Rightarrow> nat list \<Rightarrow> nat \<Rightarrow> int list \<Rightarrow> nat \<times> int list" where
  "shift_pass nxt [] bias ds = (bias, ds)"
| "shift_pass nxt (i # js) bias ds =
     (if 1 < ds ! i
      then let ds' = ds[i := ds ! i - 1, nxt i := ds ! nxt i + 1] in
        if bias - 1 = 0 then (0, ds') else shift_pass nxt js (bias - 1) ds'
      else shift_pass nxt js bias ds)"

partial_function (option) shift_loop :: "(nat \<Rightarrow> nat) \<Rightarrow> nat list \<Rightarrow> nat \<Rightarrow> int list \<Rightarrow> int list option" where
  [code]: "shift_loop nxt js bias ds =
     (if bias = 0 then Some ds else (case shift_pass nxt js bias ds of (bias', ds') \<Rightarrow> shift_loop nxt js bias' ds'))"

text \<open>
  \<open>partition_layers\<close>. A positive bias moves layers to later stages, a negative one to earlier stages;
  both loops stop exactly when the bias reaches zero, so the bias is counted as a natural number.
\<close>

definition partition_layers :: "int \<Rightarrow> nat \<Rightarrow> int \<Rightarrow> int list py option" where
  "partition_layers layers stages bias =
     (if stages = 1 then Some (Inr [layers])
      else if stages = 0 then Some (Inl ZeroDivisionError)
      else if 0 < bias then map_option Inr (shift_loop Suc [0..<stages - 1] (nat bias) (uniform layers stages))
      else map_option Inr (shift_loop (\<lambda>i. i - 1) (rev [1..<stages]) (nat (- bias)) (uniform layers stages)))"

section \<open>Lemmas: the potential\<close>

text \<open>
  The potential of a distribution: every layer but the first of a stage can be moved on from there
  to the end, \<open>room i\<close> steps away.
\<close>

definition potential :: "(nat \<Rightarrow> nat) \<Rightarrow> int list \<Rightarrow> int" where
  "potential room ds = (\<Sum>i < length ds. int (room i) * (ds ! i - 1))"

text \<open>Distributions of all layers with at least one on each stage.\<close>

definition distribution :: "nat \<Rightarrow> int \<Rightarrow> int list \<Rightarrow> bool" where
  "distribution stages layers ds \<longleftrightarrow> length ds = stages \<and> (\<forall>d \<in> set ds. 1 \<le> d) \<and> sum_list ds = layers"

text \<open>What both directions have in common: the next stage is one step nearer to the end.\<close>

locale direction =
  fixes stages :: nat and nxt room :: "nat \<Rightarrow> nat" and js :: "nat list"
  assumes step: "i \<in> set js \<Longrightarrow> i < stages \<and> nxt i < stages \<and> nxt i \<noteq> i \<and> room i = Suc (room (nxt i))"
    and final: "i < stages \<Longrightarrow> i \<notin> set js \<Longrightarrow> room i = 0"
begin

lemma move:
  assumes "i \<in> set js" "distribution stages layers ds" "1 < ds ! i"
  defines "ds' \<equiv> ds[i := ds ! i - 1, nxt i := ds ! nxt i + 1]"
  shows "distribution stages layers ds'" and "potential room ds' = potential room ds - 1"
proof -
  have i: "i < length ds" "nxt i < length ds" "nxt i \<noteq> i" "room i = Suc (room (nxt i))"
    using step [OF assms(1)] assms(2) by (simp_all add: distribution_def)
  have nth: "ds' ! j = (if j = i then ds ! i - 1 else if j = nxt i then ds ! nxt i + 1 else ds ! j)" for j
    using i by (auto simp: ds'_def nth_update_if)
  have len: "length ds' = length ds" by (simp add: ds'_def)
  have pos: "1 \<le> ds ! j" if "j < length ds" for j using assms(2) that by (simp add: distribution_def)
  have "1 \<le> d" if "d \<in> set ds'" for d
    using that pos i assms(3) by (auto simp: in_set_conv_nth len nth; force)
  then have ge: "\<forall>d \<in> set ds'. 1 \<le> d" by blast
  have two: "(\<Sum>j < length ds. f j * ds' ! j) = (\<Sum>j < length ds. f j * ds ! j) - f i + f (nxt i)" for f :: "nat \<Rightarrow> int"
  proof -
    have "(\<Sum>j < length ds. f j * ds' ! j) = (\<Sum>j < length ds. f j * ds ! j + (if j = i then - f i else 0) + (if j = nxt i then f (nxt i) else 0))"
      using i by (intro sum.cong) (auto simp: nth algebra_simps)
    then show ?thesis using i by (simp add: sum.distrib)
  qed
  have "sum_list ds' = (\<Sum>j < length ds. 1 * ds' ! j)" by (simp add: sum_list_sum_nth len atLeast0LessThan)
  also have "\<dots> = sum_list ds" unfolding two by (simp add: sum_list_sum_nth atLeast0LessThan)
  finally have "sum_list ds' = sum_list ds" .
  with ge show "distribution stages layers ds'" using assms(2) by (simp add: distribution_def len)
  show "potential room ds' = potential room ds - 1"
    using two [of "\<lambda>j. int (room j)"] i(4)
    by (simp add: potential_def len right_diff_distrib sum_subtractf)
qed

text \<open>A pass lowers the bias and the potential alike, and makes a move if it can.\<close>

lemma pass:
  assumes "set ks \<subseteq> set js" "0 < bias" "distribution stages layers ds" "shift_pass nxt ks bias ds = (bias', ds')"
  shows "bias' \<le> bias" and "distribution stages layers ds'"
    and "potential room ds' = potential room ds - int (bias - bias')"
    and "(\<exists>i \<in> set ks. 1 < ds ! i) \<Longrightarrow> bias' < bias"
proof -
  have "bias' \<le> bias \<and> distribution stages layers ds' \<and> potential room ds' = potential room ds - int (bias - bias') \<and>
     ((\<exists>i \<in> set ks. 1 < ds ! i) \<longrightarrow> bias' < bias)"
    using assms
  proof (induction ks arbitrary: bias ds)
    case (Cons i ks)
    have i: "i \<in> set js" "set ks \<subseteq> set js" using Cons.prems(1) by simp_all
    show ?case
    proof (cases "1 < ds ! i")
      case True
      let ?ds = "ds[i := ds ! i - 1, nxt i := ds ! nxt i + 1]"
      note mv = move [OF i(1) Cons.prems(3) True]
      show ?thesis
      proof (cases "bias = 1")
        case False
        then have "shift_pass nxt ks (bias - 1) ?ds = (bias', ds')" "0 < bias - 1"
          using Cons.prems(2,4) True by (simp_all add: Let_def)
        with Cons.IH [OF i(2) _ mv(1), of "bias - 1"] Cons.prems(2) mv(2) show ?thesis by auto
      qed (use Cons.prems(4) True mv in \<open>auto simp: Let_def\<close>)
    next
      case False
      with Cons.IH [OF i(2) Cons.prems(2,3)] Cons.prems(4) show ?thesis by auto
    qed
  qed simp
  then show "bias' \<le> bias" "distribution stages layers ds'"
    "potential room ds' = potential room ds - int (bias - bias')" "(\<exists>i \<in> set ks. 1 < ds ! i) \<Longrightarrow> bias' < bias" by blast+
qed

lemma potential_nonneg: "distribution stages layers ds \<Longrightarrow> 0 \<le> potential room ds"
  unfolding potential_def distribution_def by (intro sum_nonneg mult_nonneg_nonneg) (auto simp: all_set_conv_all_nth)

lemma potential_pos:
  assumes "distribution stages layers ds" "0 < potential room ds"
  shows "\<exists>i \<in> set js. 1 < ds ! i"
proof (rule ccontr)
  assume none: "\<not> (\<exists>i \<in> set js. 1 < ds ! i)"
  have "int (room i) * (ds ! i - 1) = 0" if "i < length ds" for i
  proof (cases "i \<in> set js")
    case True
    with none assms(1) that have "ds ! i = 1" by (auto simp: distribution_def) (metis linorder_neqE not_less nth_mem)
    then show ?thesis by simp
  qed (use final assms(1) that in \<open>simp add: distribution_def\<close>)
  then have "potential room ds = 0" unfolding potential_def by (intro sum.neutral) blast
  with assms(2) show False by simp
qed

text \<open>The loop ends if and only if the potential admits as many moves as the bias asks for.\<close>

lemma loop_ends:
  "distribution stages layers ds \<Longrightarrow> int bias \<le> potential room ds \<Longrightarrow>
     \<exists>ds'. shift_loop nxt js bias ds = Some ds' \<and> distribution stages layers ds' \<and> potential room ds' = potential room ds - int bias"
proof (induction bias arbitrary: ds rule: less_induct)
  case (less bias)
  show ?case
  proof (cases "bias = 0")
    case False
    obtain bias' ds' where p: "shift_pass nxt js bias ds = (bias', ds')" by fastforce
    note ps = pass [OF order_refl _ less.prems(1) p]
    have "\<exists>i \<in> set js. 1 < ds ! i" using less.prems False by (intro potential_pos) auto
    then have "bias' < bias" using ps(4) False by simp
    with less.IH [OF this ps(2)] ps(3) less.prems(2) False p show ?thesis by (subst shift_loop.simps) auto
  qed (use less.prems in \<open>simp add: shift_loop.simps\<close>)
qed

lemma loop_diverges:
  assumes "shift_loop nxt js bias ds = Some ds'" "distribution stages layers ds"
  shows "int bias \<le> potential room ds"
proof -
  let ?P = "\<lambda>nx ks b d (_ :: int list). nx = nxt \<longrightarrow> ks = js \<longrightarrow> distribution stages layers d \<longrightarrow> int b \<le> potential room d"
  have "?P nxt js bias ds ds'"
  proof (rule shift_loop.raw_induct [where P = ?P, OF _ assms(1)], intro impI)
    fix loop nx ks b d r
    assume IH: "\<And>nx ks b d r. loop nx ks b d = Some r \<Longrightarrow> ?P nx ks b d r"
      and r: "(if b = 0 then Some d else case shift_pass nx ks b d of (b', d') \<Rightarrow> loop nx ks b' d') = Some r"
      and eq: "nx = nxt" "ks = js" and d: "distribution stages layers d"
    show "int b \<le> potential room d"
    proof (cases "b = 0")
      case False
      obtain b' d' where p: "shift_pass nxt js b d = (b', d')" by fastforce
      note ps = pass [OF order_refl _ d p]
      have "int b' \<le> potential room d'" using IH [of nxt js b' d' r] r False eq p ps(2) by simp
      with ps(1,3) False show ?thesis by auto
    qed (use d in \<open>simp add: potential_nonneg\<close>)
  qed
  with assms(2) show ?thesis by blast
qed

end

interpretation right: direction stages Suc "\<lambda>i. stages - 1 - i" "[0..<stages - 1]" for stages
  by unfold_locales auto

interpretation left: direction stages "\<lambda>i. i - 1" "\<lambda>i. i" "rev [1..<stages]" for stages
  by unfold_locales auto

text \<open>How far a distribution leans to the later stages; a shift changes it by one.\<close>

definition moment :: "int list \<Rightarrow> int" where
  "moment ds = (\<Sum>i < length ds. int i * ds ! i)"

lemma potential_left: "distribution stages layers ds \<Longrightarrow> potential (\<lambda>i. i) ds = moment ds - (\<Sum>i < stages. int i)"
  by (simp add: potential_def moment_def distribution_def right_diff_distrib sum_subtractf)

lemma potential_right:
  assumes "distribution stages layers ds"
  shows "potential (\<lambda>i. stages - 1 - i) ds = int (stages - 1) * (layers - int stages) - potential (\<lambda>i. i) ds"
proof -
  have "potential (\<lambda>i. stages - 1 - i) ds + potential (\<lambda>i. i) ds = (\<Sum>i < length ds. int (stages - 1) * (ds ! i - 1))"
    unfolding potential_def sum.distrib [symmetric] using assms
    by (intro sum.cong) (auto simp: distribution_def distrib_right [symmetric] simp flip: of_nat_add)
  also have "\<dots> = int (stages - 1) * ((\<Sum>i < length ds. ds ! i) - int (length ds))"
    unfolding sum_distrib_left [symmetric] by (simp add: sum_subtractf)
  also have "(\<Sum>i < length ds. ds ! i) = layers" using assms by (auto simp: distribution_def sum_list_sum_nth atLeast0LessThan)
  finally show ?thesis using assms by (simp add: distribution_def)
qed

lemma distribution_uniform:
  assumes "0 < stages" "int stages \<le> layers"
  shows "distribution stages layers (uniform layers stages)"
proof -
  let ?q = "layers div int stages" and ?r = "layers mod int stages"
  have r: "0 \<le> ?r" "?r < int stages" using assms by simp_all
  have "0 < ?q" using assms by (simp add: pos_imp_zdiv_pos_iff)
  then have "1 \<le> ?q" by simp
  moreover have "sum_list (uniform layers stages) = int (stages - nat ?r) * ?q + ?r * (?q + 1)"
    using r(1) by (simp add: uniform_def sum_list_replicate)
  then have "sum_list (uniform layers stages) = int stages * ?q + ?r"
    using r by (simp add: of_nat_diff nat_le_iff algebra_simps)
  ultimately show ?thesis using r by (auto simp: distribution_def uniform_def nat_le_iff)
qed

lemma partition_layers_result:
  assumes "2 \<le> stages" "int stages \<le> layers"
  shows "(partition_layers layers stages bias = None \<longleftrightarrow>
       potential (\<lambda>i. stages - 1 - i) (uniform layers stages) < bias \<or> potential (\<lambda>i. i) (uniform layers stages) < - bias) \<and>
     (\<forall>r. partition_layers layers stages bias = Some r \<longrightarrow>
       (\<exists>ds. r = Inr ds \<and> distribution stages layers ds \<and> moment ds = moment (uniform layers stages) + bias))"
proof -
  let ?u = "uniform layers stages"
  have u: "distribution stages layers ?u" using assms by (intro distribution_uniform) auto
  have nonneg: "0 \<le> potential (\<lambda>i. stages - 1 - i) ?u" "0 \<le> potential (\<lambda>i. i) ?u"
    using right.potential_nonneg [OF u] left.potential_nonneg [OF u] by simp_all
  show ?thesis
  proof (cases "0 < bias")
    case True
    then have p: "partition_layers layers stages bias = map_option Inr (shift_loop Suc [0..<stages - 1] (nat bias) ?u)"
      using assms(1) by (simp add: partition_layers_def)
    show ?thesis
    proof (cases "bias \<le> potential (\<lambda>i. stages - 1 - i) ?u")
      case le: True
      with True obtain ds where ds: "shift_loop Suc [0..<stages - 1] (nat bias) ?u = Some ds" "distribution stages layers ds"
        "potential (\<lambda>i. stages - 1 - i) ds = potential (\<lambda>i. stages - 1 - i) ?u - bias"
        using right.loop_ends [OF u, of "nat bias"] by auto
      then have "moment ds = moment ?u + bias"
        unfolding potential_right [OF ds(2)] potential_right [OF u] potential_left [OF ds(2)] potential_left [OF u] by simp
      with p ds le True nonneg show ?thesis by auto
    next
      case False
      then have "shift_loop Suc [0..<stages - 1] (nat bias) ?u = None"
        using right.loop_diverges [OF _ u, of "nat bias"] True by (cases "shift_loop Suc [0..<stages - 1] (nat bias) ?u") auto
      with p False show ?thesis by simp
    qed
  next
    case False
    then have p: "partition_layers layers stages bias = map_option Inr (shift_loop (\<lambda>i. i - 1) (rev [1..<stages]) (nat (- bias)) ?u)"
      using assms(1) by (simp add: partition_layers_def)
    show ?thesis
    proof (cases "- bias \<le> potential (\<lambda>i. i) ?u")
      case le: True
      with False obtain ds where ds: "shift_loop (\<lambda>i. i - 1) (rev [1..<stages]) (nat (- bias)) ?u = Some ds" "distribution stages layers ds"
        "potential (\<lambda>i. i) ds = potential (\<lambda>i. i) ?u + bias"
        using left.loop_ends [OF u, of "nat (- bias)"] by auto
      then have "moment ds = moment ?u + bias" unfolding potential_left [OF ds(2)] potential_left [OF u] by simp
      with p ds le False nonneg show ?thesis by auto
    next
      case gt: False
      then have "shift_loop (\<lambda>i. i - 1) (rev [1..<stages]) (nat (- bias)) ?u = None"
        using left.loop_diverges [OF _ u, of "nat (- bias)"] False
        by (cases "shift_loop (\<lambda>i. i - 1) (rev [1..<stages]) (nat (- bias)) ?u") auto
      with p gt show ?thesis by simp
    qed
  qed
qed

section \<open>Properties\<close>

text \<open>
  C21. When \<open>partition_layers\<close> ends, and what it returns. For at least two stages and at least as many
  layers as stages, it ends if and only if the uniform distribution admits as many shifts of a
  single layer in the direction of the bias as the bias asks for; otherwise its loop runs forever. If it ends, every
  stage has a layer, the stages have all layers together, and the distribution is the uniform one
  with exactly as many shifts to the next stage as the bias says.
\<close>

theorem partition_layers_ends:
  assumes "2 \<le> stages" "int stages \<le> layers"
  shows "(partition_layers layers stages bias = None \<longleftrightarrow>
       potential (\<lambda>i. stages - 1 - i) (uniform layers stages) < bias \<or> potential (\<lambda>i. i) (uniform layers stages) < - bias) \<and>
     (\<forall>r. partition_layers layers stages bias = Some r \<longrightarrow>
       (\<exists>ds. r = Inr ds \<and> distribution stages layers ds \<and> moment ds = moment (uniform layers stages) + bias))"
  by (rule partition_layers_result [OF assms])

theorem partition_layers_ends_witness:
  "partition_layers 2 2 1 = None \<and> (\<exists>ds. partition_layers 80 3 2 = Some (Inr ds) \<and> distribution 3 80 ds)"
proof
  have "potential (\<lambda>i. 2 - 1 - i) (uniform 2 2) < 1" by code_simp
  then show "partition_layers 2 2 1 = None" using partition_layers_ends [of 2 2 1] by simp
  have "\<not> (potential (\<lambda>i. 3 - 1 - i) (uniform 80 3) < 2 \<or> potential (\<lambda>i. i) (uniform 80 3) < - 2)" by code_simp
  then obtain r where "partition_layers 80 3 2 = Some r" using partition_layers_ends [of 3 80 2] by auto
  then show "\<exists>ds. partition_layers 80 3 2 = Some (Inr ds) \<and> distribution 3 80 ds" using partition_layers_ends [of 3 80 2] by auto
qed

end
