(* ===== verification/HexGen.thy ===== *)
theory HexGen
  imports LayerSplit
begin

text \<open>
  The genes of the HexGen baseline (\<^verbatim>\<open>ModelPlacement/hexgen_optimizer.py\<close> and \<^verbatim>\<open>ModelPlacement/hexgen\<close>). A gene is a
  group of pipelines, each a list with the number of GPUs that it uses of every node; the genes of
  an individual distribute all GPUs over the pipelines. Mutations move, merge and split; an
  adjustment restores the column sums. The random choices of a mutation are arguments, and the
  loops that end when a random choice succeeds are step relations. Loops that may run forever are
  partial functions; a computation that may also raise has the type \<open>'a py option\<close>.
\<close>

section \<open>Adjustment of the column sums\<close>

type_synonym group = "int list"

definition column :: "nat \<Rightarrow> group list \<Rightarrow> int" where
  "column i rows = sum_list (map (\<lambda>row. row ! i) rows)"

text \<open>
  One pass over the groups for column \<open>i\<close>. The difference is always the current sum minus the
  target, so the two conditions of the source on the sum and the difference agree.
\<close>

definition adjust_row :: "nat \<Rightarrow> int \<Rightarrow> group \<Rightarrow> int \<times> group" where
  "adjust_row i difference row =
     (if difference < 0 then (difference + 1, row[i := row ! i + 1])
      else if 0 < difference \<and> 0 < row ! i
      then (difference - min (row ! i) difference, row[i := row ! i - min (row ! i) difference])
      else (difference, row))"

fun adjust_pass :: "nat \<Rightarrow> int \<Rightarrow> group list \<Rightarrow> int \<times> group list" where
  "adjust_pass i difference [] = (difference, [])"
| "adjust_pass i difference (row # rows) =
     (case adjust_row i difference row of (difference', row') \<Rightarrow>
        if difference' = 0 then (0, row' # rows)
        else (case adjust_pass i difference' rows of (d, rows') \<Rightarrow> (d, row' # rows')))"

partial_function (option) adjust_loop :: "nat \<Rightarrow> int \<Rightarrow> group list \<Rightarrow> group list option" where
  [code]: "adjust_loop i difference rows =
     (if difference = 0 then Some rows
      else (case adjust_pass i difference rows of (d, rows') \<Rightarrow> adjust_loop i d rows'))"

definition adjust_column :: "nat \<Rightarrow> int \<Rightarrow> group list \<Rightarrow> group list py option" where
  "adjust_column i target rows =
     (if list_ex (\<lambda>row. length row \<le> i) rows then Some (Inl IndexError)
      else map_option Inr (adjust_loop i (column i rows - target) rows))"

fun adjust_columns :: "nat \<Rightarrow> int list \<Rightarrow> group list \<Rightarrow> group list py option" where
  "adjust_columns i [] rows = Some (Inr rows)"
| "adjust_columns i (target # targets) rows = bindD (adjust_column i target rows) (adjust_columns (Suc i) targets)"

definition validate_and_adjust :: "group list \<Rightarrow> int list \<Rightarrow> group list py option" where
  "validate_and_adjust individual target_sums = adjust_columns 0 target_sums individual"

section \<open>Mutation of genes\<close>

definition is_group_valid :: "py_float \<Rightarrow> py_float list \<Rightarrow> group \<Rightarrow> bool" where
  "is_group_valid model_weight_size_gb gpu_mem_list g \<longleftrightarrow>
     model_weight_size_gb * (3 / 2) \<le> sum_list (map (\<lambda>(a, b). of_int a * b) (zip g gpu_mem_list))"

text \<open>The index of the first largest element.\<close>

definition dominant :: "group \<Rightarrow> nat" where
  "dominant g = length (takeWhile (\<lambda>x. x \<noteq> Max (set g)) g)"

definition valid_dims :: "group \<Rightarrow> nat list" where
  "valid_dims g = filter (\<lambda>i. 0 < g ! i) [0..<length g]"

text \<open>
  The random choices of one round: two groups for a transfer and the dimension if the dominant one
  cannot be given, two groups to merge, a group to split and a coin for each of its entries, or
  a transfer that is skipped as there is only one group.
\<close>

datatype choice = Transfer nat nat nat | Merge nat nat | Split nat "bool list" | Idle

definition transfer :: "(group \<Rightarrow> bool) \<Rightarrow> nat \<Rightarrow> nat \<Rightarrow> nat \<Rightarrow> group list \<Rightarrow> (group list \<times> bool) option py" where
  "transfer valid i1 i2 pick genes =
     (let g1 = genes ! i1; g2 = genes ! i2 in
      if g2 = [] then Inl ValueError
      else bindE (nthE g1 (dominant g2)) (\<lambda>v.
        if \<not> 0 < v \<and> valid_dims g1 = [] then Inr None
        else let d = (if 0 < v then dominant g2 else pick) in
          bindE (nthE g2 d) (\<lambda>w.
          let g1' = g1[d := g1 ! d - 1]; g2' = g2[d := w + 1] in
          if valid g1' \<and> valid g2' then Inr (Some (genes[i1 := g1', i2 := g2'], True)) else Inr (Some (genes, False)))))"

definition remove_nth :: "nat \<Rightarrow> 'a list \<Rightarrow> 'a list" where
  "remove_nth i xs = take i xs @ drop (Suc i) xs"

definition merge_groups :: "nat \<Rightarrow> nat \<Rightarrow> group list \<Rightarrow> group list" where
  "merge_groups i1 i2 genes = remove_nth i2 (genes[i1 := map (\<lambda>(x, y). x + y) (zip (genes ! i1) (genes ! i2))])"

definition split_entry :: "int \<times> bool \<Rightarrow> int py" where
  "split_entry e = (case e of (node_count, coin) \<Rightarrow>
     if 1 < node_count then Inr (node_count div 2)
     else if 0 \<le> node_count \<and> node_count \<le> 1 then Inr (if coin then node_count else 0)
     else Inl ValueError)"

definition split_group :: "(group \<Rightarrow> bool) \<Rightarrow> nat \<Rightarrow> bool list \<Rightarrow> group list \<Rightarrow> (group list \<times> bool) py" where
  "split_group valid idx coins genes =
     (let g = genes ! idx in
      bindE (mapE split_entry (zip g coins)) (\<lambda>new_group.
      let parent_group = map (\<lambda>(x, y). x - y) (zip g new_group) in
      if valid new_group \<and> valid parent_group
      then Inr (take idx genes @ [parent_group, new_group] @ drop (Suc idx) genes, True)
      else Inr (genes, length genes = 1)))"

fun apply_choice :: "(group \<Rightarrow> bool) \<Rightarrow> group list \<Rightarrow> choice \<Rightarrow> (group list \<times> bool) option py" where
  "apply_choice valid genes (Transfer i1 i2 pick) = transfer valid i1 i2 pick genes"
| "apply_choice valid genes (Merge i1 i2) = Inr (Some (merge_groups i1 i2 genes, True))"
| "apply_choice valid genes (Split idx coins) = bindE (split_group valid idx coins genes) (\<lambda>r. Inr (Some r))"
| "apply_choice valid genes Idle = Inr (Some (genes, False))"

text \<open>What the calls of the random module can return.\<close>

fun offered :: "group list \<Rightarrow> choice \<Rightarrow> bool" where
  "offered genes (Transfer i1 i2 pick) \<longleftrightarrow> i1 < length genes \<and> i2 < length genes \<and> i1 \<noteq> i2 \<and>
     (valid_dims (genes ! i1) = [] \<or> pick \<in> set (valid_dims (genes ! i1)))"
| "offered genes (Merge i1 i2) \<longleftrightarrow> i1 < length genes \<and> i2 < length genes \<and> i1 \<noteq> i2"
| "offered genes (Split idx coins) \<longleftrightarrow> idx < length genes \<and> length coins = length (genes ! idx)"
| "offered genes Idle \<longleftrightarrow> length genes \<le> 1"

text \<open>A round of the inner loop: the choice, then the adjustment; \<open>None\<close> above is the \<open>continue\<close> of the source.\<close>

definition mutation_round :: "(group \<Rightarrow> bool) \<Rightarrow> int list \<Rightarrow> group list \<Rightarrow> choice \<Rightarrow> (group list \<times> bool) py option" where
  "mutation_round valid targets genes c =
     bindD (Some (apply_choice valid genes c)) (\<lambda>r.
       case r of
         None \<Rightarrow> Some (Inr (genes, False))
       | Some (genes', valid_mutation) \<Rightarrow>
           bindD (validate_and_adjust genes' targets) (\<lambda>genes''.
           Some (Inr (genes'', valid_mutation \<and> list_all (list_ex (\<lambda>x. 0 < x)) genes''))))"

section \<open>The cost that guides the mutation\<close>

text \<open>The communication matrix; \<open>total_gpus\<close> is its dimension, and reading outside of it raises.\<close>

type_synonym matrix = "nat \<Rightarrow> nat \<Rightarrow> py_float"

definition fill_device :: "nat \<Rightarrow> nat \<Rightarrow> nat \<Rightarrow> matrix \<Rightarrow> nat \<Rightarrow> matrix" where
  "fill_device first_idx end_idx device m i =
     foldl (\<lambda>m j. if i div device \<noteq> j div device then (m(i := (m i)(j := 800)))(j := ((m(i := (m i)(j := 800))) j)(i := 800)) else m)
       (\<lambda>a b. if i \<le> a \<and> a < i + device \<and> i \<le> b \<and> b < i + device then 1 else m a b) [first_idx..<end_idx]"

fun fill_regions :: "nat \<Rightarrow> (nat \<times> nat) list \<Rightarrow> matrix \<Rightarrow> matrix py" where
  "fill_regions first_idx [] m = Inr m"
| "fill_regions first_idx ((region, device) # rs) m =
     (if device = 0 then Inl ValueError
      else fill_regions (first_idx + region) rs
        (foldl (fill_device first_idx (first_idx + region) device) m
          (map (\<lambda>k. first_idx + k * device) [0..<(region + device - 1) div device])))"

definition generate_communication_matrix :: "nat list \<Rightarrow> nat list \<Rightarrow> matrix py" where
  "generate_communication_matrix region_gpus device_gpus =
     (if length region_gpus \<noteq> length device_gpus then Inl ValueError
      else fill_regions 0 (zip region_gpus device_gpus) (\<lambda>_ _. 10))"

definition entryE :: "nat \<Rightarrow> matrix \<Rightarrow> nat \<Rightarrow> nat \<Rightarrow> py_float py" where
  "entryE total_gpus m i j = (if i < total_gpus \<and> j < total_gpus then Inr (m i j) else Inl IndexError)"

definition group_comm_cost :: "nat \<Rightarrow> nat list \<Rightarrow> matrix \<Rightarrow> int \<times> py_float \<Rightarrow> group \<Rightarrow> (int \<times> py_float) py" where
  "group_comm_cost total_gpus device_gpus m acc g =
     (case acc of (inter_region, inter_device) \<Rightarrow>
      let regions_present = int (length (filter (\<lambda>x. 0 < x) g)) in
      bindE (foldE (\<lambda>c i. bindE (nthE device_gpus i) (\<lambda>d.
          if int d < g ! i then bindE (entryE total_gpus m i (d + 1)) (\<lambda>x. Inr (c + x)) else Inr c))
        inter_device [0..<length g]) (\<lambda>c.
      Inr (inter_region + (regions_present * (regions_present - 1) div 2 - 1), c)))"

definition compute_grouping_comm_cost :: "nat \<Rightarrow> nat list \<Rightarrow> matrix \<Rightarrow> group list \<Rightarrow> py_float py" where
  "compute_grouping_comm_cost total_gpus device_gpus m groupings =
     bindE (foldE (group_comm_cost total_gpus device_gpus m) (0, 0) groupings) (\<lambda>(inter_region, inter_device).
     bindE (entryE total_gpus m 0 (total_gpus - 1)) (\<lambda>x. Inr (of_int inter_region * x + inter_device)))"

definition balance :: "py_float list \<Rightarrow> group list \<Rightarrow> py_float py" where
  "balance abilities groupings =
     (let group_abilities = map (\<lambda>g. sum_list (map (\<lambda>(a, b). of_int a * b) (zip g abilities))) groupings in
      if group_abilities = [] then Inl ValueError else Inr (Max (set group_abilities) - Min (set group_abilities)))"

definition cost_function :: "nat list \<Rightarrow> nat list \<Rightarrow> group list \<Rightarrow> py_float list \<Rightarrow> py_float list \<Rightarrow> py_float py" where
  "cost_function region_gpus device_gpus groupings comp_abilities mem_abilities =
     bindE (generate_communication_matrix region_gpus device_gpus) (\<lambda>m.
     bindE (compute_grouping_comm_cost (sum_list region_gpus) device_gpus m groupings) (\<lambda>comm_overhead.
     bindE (balance comp_abilities groupings) (\<lambda>comp_balance.
     bindE (balance mem_abilities groupings) (\<lambda>mem_balance.
     Inr (comm_overhead * 10 + comp_balance * 10 + mem_balance * 10)))))"

section \<open>Individuals\<close>

record hexgen =
  h_initial :: "nat list list"
  h_restriction :: "nat list list"
  h_mem_limits :: "py_float list list"
  h_comp :: "py_float list list"
  h_comm :: "py_float list list"
  h_weight :: py_float

definition set_cluster_config :: "nat list list \<Rightarrow> nat list list option \<Rightarrow> py_float list list \<Rightarrow> py_float list list option \<Rightarrow>
    py_float list list option \<Rightarrow> py_float \<Rightarrow> hexgen" where
  "set_cluster_config initial restriction limits comps comms weight =
     \<lparr>h_initial = initial, h_restriction = (case restriction of None \<Rightarrow> initial | Some r \<Rightarrow> r), h_mem_limits = limits,
      h_comp = (case comps of None \<Rightarrow> map (\<lambda>g. replicate (length g) 1) initial | Some c \<Rightarrow> c),
      h_comm = (case comms of None \<Rightarrow> map (\<lambda>g. replicate (length g) 1) initial | Some c \<Rightarrow> c), h_weight = weight\<rparr>"

record individual =
  genes :: "group list list"
  pp_bias :: "int list"
  batch :: "int list"
  iteration :: nat
  goodput_store :: py_float

definition BATCH_SIZE :: int where
  "BATCH_SIZE = 1"

definition initialize_individual :: "hexgen \<Rightarrow> individual" where
  "initialize_individual h =
     \<lparr>genes = map (\<lambda>g. [map int g]) (h_initial h), pp_bias = replicate (length (h_initial h)) 0,
      batch = replicate (length (h_initial h)) BATCH_SIZE, iteration = 0, goodput_store = 0\<rparr>"

text \<open>The inner loop of the mutation: rounds until one is valid.\<close>

inductive settles :: "(group \<Rightarrow> bool) \<Rightarrow> int list \<Rightarrow> group list \<Rightarrow> group list \<Rightarrow> bool" for valid targets where
  settles_valid: "offered g c \<Longrightarrow> mutation_round valid targets g c = Some (Inr (g', True)) \<Longrightarrow> settles valid targets g g'"
| settles_again: "offered g c \<Longrightarrow> mutation_round valid targets g c = Some (Inr (g1, False)) \<Longrightarrow> settles valid targets g1 g' \<Longrightarrow>
    settles valid targets g g'"

text \<open>The outer loop: at most a number of attempts, until the cost is below that of the start.\<close>

inductive climbs :: "(group \<Rightarrow> bool) \<Rightarrow> int list \<Rightarrow> (group list \<Rightarrow> py_float py) \<Rightarrow> py_float \<Rightarrow> nat \<Rightarrow> group list \<Rightarrow> group list \<Rightarrow> bool"
  for valid targets cost pre_cost where
  climbs_end: "climbs valid targets cost pre_cost 0 g g"
| climbs_better: "validate_and_adjust g targets = Some (Inr g1) \<Longrightarrow> settles valid targets g1 g2 \<Longrightarrow> cost g2 = Inr post \<Longrightarrow> post < pre_cost \<Longrightarrow>
    climbs valid targets cost pre_cost (Suc attempts) g g2"
| climbs_on: "validate_and_adjust g targets = Some (Inr g1) \<Longrightarrow> settles valid targets g1 g2 \<Longrightarrow> cost g2 = Inr post \<Longrightarrow> \<not> post < pre_cost \<Longrightarrow>
    climbs valid targets cost pre_cost attempts g2 g' \<Longrightarrow> climbs valid targets cost pre_cost (Suc attempts) g g'"

definition sub_group_cost :: "hexgen \<Rightarrow> nat \<Rightarrow> group list \<Rightarrow> py_float py" where
  "sub_group_cost h k g = cost_function (h_initial h ! k) (h_restriction h ! k) g (h_comp h ! k) (h_mem_limits h ! k)"

text \<open>
  \<open>mutate\<close>: the genes of each sub-group climb from their present cost with at most 1000 attempts; then,
  by the toss of a coin, each bias changes by one.
\<close>

definition mutates :: "hexgen \<Rightarrow> individual \<Rightarrow> individual \<Rightarrow> bool" where
  "mutates h ind ind' \<longleftrightarrow>
     length (genes ind') = length (genes ind) \<and> batch ind' = batch ind \<and> iteration ind' = iteration ind \<and> goodput_store ind' = goodput_store ind \<and>
     (\<forall>k < length (genes ind). k < length (h_initial h) \<and> (\<exists>pre. sub_group_cost h k (genes ind ! k) = Inr pre \<and>
        climbs (is_group_valid (h_weight h) (h_mem_limits h ! k)) (map int (h_initial h ! k)) (sub_group_cost h k) pre 1000
          (genes ind ! k) (genes ind' ! k))) \<and>
     (pp_bias ind' = pp_bias ind \<or> list_all2 (\<lambda>b b'. b' = b - 1 \<or> b' = b + 1) (pp_bias ind) (pp_bias ind'))"

text \<open>
  \<open>validate_individual\<close>: no pipeline of any sub-group is empty; the sums are compared after the loop,
  hence only for the last sub-group.
\<close>

definition group_sums :: "nat \<Rightarrow> group list \<Rightarrow> int list" where
  "group_sums n g = map (\<lambda>i. sum_list (map (\<lambda>row. if i < length row then row ! i else 0) g)) [0..<n]"

fun validate_sub_groups :: "nat list list \<Rightarrow> group list list \<Rightarrow> bool option \<Rightarrow> bool py" where
  "validate_sub_groups initials [] same = (case same of None \<Rightarrow> Inl UnboundLocalError | Some b \<Rightarrow> Inr b)"
| "validate_sub_groups [] (g # gs) same = Inl IndexError"
| "validate_sub_groups (initial # initials) (g # gs) same =
     (if list_ex (\<lambda>row. length initial < length row) g then Inl IndexError
      else if list_ex (list_all (\<lambda>x. x = 0)) g then Inr False
      else validate_sub_groups initials gs (Some (group_sums (length initial) g = map int initial)))"

definition validate_individual :: "hexgen \<Rightarrow> individual \<Rightarrow> bool py" where
  "validate_individual h ind = validate_sub_groups (h_initial h) (genes ind) None"

section \<open>Lemmas: the adjustment\<close>

definition nonneg_rows :: "nat \<Rightarrow> group list \<Rightarrow> bool" where
  "nonneg_rows n rows \<longleftrightarrow> (\<forall>row \<in> set rows. length row = n \<and> (\<forall>x \<in> set row. 0 \<le> x))"

text \<open>The genes of a sub-group use all GPUs of every node.\<close>

definition covers :: "int list \<Rightarrow> group list \<Rightarrow> bool" where
  "covers targets rows \<longleftrightarrow> rows \<noteq> [] \<and> nonneg_rows (length targets) rows \<and> (\<forall>i < length targets. column i rows = targets ! i)"

lemma column_simps [simp]: "column i [] = 0" "column i (row # rows) = row ! i + column i rows"
  by (simp_all add: column_def)

lemma nonneg_rows_simps [simp]:
  "nonneg_rows n []" "nonneg_rows n (row # rows) \<longleftrightarrow> length row = n \<and> (\<forall>x \<in> set row. 0 \<le> x) \<and> nonneg_rows n rows"
  by (auto simp: nonneg_rows_def)

lemma column_nonneg: "nonneg_rows n rows \<Longrightarrow> i < n \<Longrightarrow> 0 \<le> column i rows"
  by (induction rows) auto

lemma set_update_nonneg: "\<forall>x \<in> set row. 0 \<le> x \<Longrightarrow> 0 \<le> y \<Longrightarrow> \<forall>x \<in> set (row[i := y]). (0 :: int) \<le> x"
  using set_update_subset_insert [of row i y] by auto

lemma adjust_row:
  assumes "adjust_row i d row = (d', row')" "length row = n" "i < n" "\<forall>x \<in> set row. 0 \<le> x"
  shows "length row' = n" "\<forall>x \<in> set row'. 0 \<le> x" "row' ! i = row ! i - (d - d')" "\<And>j. j \<noteq> i \<Longrightarrow> row' ! j = row ! j"
    and "d < 0 \<Longrightarrow> d' = d + 1" "0 < d \<Longrightarrow> d' = d - min (row ! i) d" "d = 0 \<Longrightarrow> d' = 0"
proof -
  have nn: "0 \<le> row ! i" using assms by simp
  show "length row' = n" "row' ! i = row ! i - (d - d')" "\<And>j. j \<noteq> i \<Longrightarrow> row' ! j = row ! j"
    "d < 0 \<Longrightarrow> d' = d + 1" "0 < d \<Longrightarrow> d' = d - min (row ! i) d" "d = 0 \<Longrightarrow> d' = 0"
    using assms(1-3) nn by (auto simp: adjust_row_def split: if_splits)
  have "row' = row \<or> row' = row[i := row ! i + 1] \<or> row' = row[i := row ! i - min (row ! i) d]"
    using assms(1) by (auto simp: adjust_row_def split: if_splits)
  moreover have "0 \<le> row ! i + 1" "0 \<le> row ! i - min (row ! i) d" using nn by auto
  ultimately show "\<forall>x \<in> set row'. 0 \<le> x" using assms(4) set_update_nonneg [OF assms(4)] by metis
qed

lemma adjust_pass:
  assumes "adjust_pass i d rows = (d', rows')" "nonneg_rows n rows" "i < n"
  shows "length rows' = length rows" "nonneg_rows n rows'" "column i rows' = column i rows - (d - d')"
    "j \<noteq> i \<Longrightarrow> column j rows' = column j rows"
    and "d < 0 \<Longrightarrow> d' \<le> 0 \<and> (rows \<noteq> [] \<longrightarrow> d < d')" "0 < d \<Longrightarrow> d' = max 0 (d - column i rows)"
proof -
  have "length rows' = length rows \<and> nonneg_rows n rows' \<and> column i rows' = column i rows - (d - d') \<and>
     (\<forall>j. j \<noteq> i \<longrightarrow> column j rows' = column j rows) \<and> (d < 0 \<longrightarrow> d' \<le> 0 \<and> (rows \<noteq> [] \<longrightarrow> d < d')) \<and>
     (0 < d \<longrightarrow> d' = max 0 (d - column i rows))"
    using assms(1,2)
  proof (induction rows arbitrary: d d' rows')
    case (Cons row rows)
    obtain d1 row1 where r: "adjust_row i d row = (d1, row1)" by fastforce
    have row: "length row = n" "\<forall>x \<in> set row. 0 \<le> x" "nonneg_rows n rows" using Cons.prems(2) by simp_all
    note ar = adjust_row [OF r row(1) assms(3) row(2)]
    have nn: "0 \<le> column i rows" "0 \<le> row ! i" using column_nonneg row assms(3) by auto
    show ?case
    proof (cases "d1 = 0")
      case True
      with Cons.prems(1) r have "d' = 0" "rows' = row1 # rows" by auto
      with ar row nn True show ?thesis by (auto simp: max_def min_def split: if_splits)
    next
      case False
      obtain d2 rows2 where p: "adjust_pass i d1 rows = (d2, rows2)" by fastforce
      with Cons.prems(1) r False have eq: "d' = d2" "rows' = row1 # rows2" by auto
      note IH = Cons.IH [OF p row(3)]
      have "d < 0 \<Longrightarrow> d1 < 0" "0 < d \<Longrightarrow> 0 < d1 \<and> d1 = d - row ! i" using ar(5,6) False by auto
      with IH eq ar row nn show ?thesis by auto
    qed
  qed auto
  then show "length rows' = length rows" "nonneg_rows n rows'" "column i rows' = column i rows - (d - d')"
    "j \<noteq> i \<Longrightarrow> column j rows' = column j rows" "d < 0 \<Longrightarrow> d' \<le> 0 \<and> (rows \<noteq> [] \<longrightarrow> d < d')"
    "0 < d \<Longrightarrow> d' = max 0 (d - column i rows)" by blast+
qed

lemma adjust_loop_total:
  assumes "nonneg_rows n rows" "i < n" "rows \<noteq> []" "0 \<le> target"
  shows "\<exists>rows'. adjust_loop i (column i rows - target) rows = Some rows' \<and> length rows' = length rows \<and> nonneg_rows n rows' \<and>
     column i rows' = target \<and> (\<forall>j. j \<noteq> i \<longrightarrow> column j rows' = column j rows)"
  using assms(1,3)
proof (induction "nat (target - column i rows)" arbitrary: rows rule: less_induct)
  case less
  let ?d = "column i rows - target"
  obtain d' rows' where p: "adjust_pass i ?d rows = (d', rows')" by fastforce
  note ap = adjust_pass [OF p less.prems(1) assms(2)]
  have c: "column i rows' - target = d'" using ap(3) by simp
  consider "?d = 0" | "0 < ?d" | "?d < 0" by linarith
  then show ?case
  proof cases
    case 1
    with less.prems show ?thesis by (auto simp: adjust_loop.simps)
  next
    case 2
    then have "d' = 0" using ap(6) assms(4) by simp
    with 2 p ap(1-4) show ?thesis by (subst adjust_loop.simps) (auto simp: adjust_loop.simps [of i 0])
  next
    case 3
    then have d': "d' \<le> 0" "?d < d'" using ap(5) less.prems(2) by auto
    then have "nat (target - column i rows') < nat (target - column i rows)" using c by simp
    from less.hyps [OF this ap(2)] ap(1) less.prems(2) obtain rows'' where
      "adjust_loop i d' rows' = Some rows''" "length rows'' = length rows'" "nonneg_rows n rows''" "column i rows'' = target"
      "\<forall>j. j \<noteq> i \<longrightarrow> column j rows'' = column j rows'" unfolding c by (metis length_0_conv)
    with 3 p ap(1,4) show ?thesis by (subst adjust_loop.simps) auto
  qed
qed

lemma adjust_columns_total:
  assumes "nonneg_rows (i + length targets) rows" "rows \<noteq> []" "\<forall>t \<in> set targets. 0 \<le> t"
  shows "\<exists>rows'. adjust_columns i targets rows = Some (Inr rows') \<and> length rows' = length rows \<and> nonneg_rows (i + length targets) rows' \<and>
     (\<forall>j < i + length targets. column j rows' = (if j < i then column j rows else targets ! (j - i)))"
  using assms
proof (induction targets arbitrary: i rows)
  case (Cons t ts)
  have n: "i < i + length (t # ts)" by simp
  obtain rows1 where r: "adjust_loop i (column i rows - t) rows = Some rows1" "length rows1 = length rows"
    "nonneg_rows (i + length (t # ts)) rows1" "column i rows1 = t" "\<forall>j. j \<noteq> i \<longrightarrow> column j rows1 = column j rows"
    using adjust_loop_total [OF Cons.prems(1) n Cons.prems(2), of t] Cons.prems(3) by auto
  have "\<not> list_ex (\<lambda>row. length row \<le> i) rows" using Cons.prems(1) by (auto simp: list_ex_iff nonneg_rows_def)
  with r(1) have ac: "adjust_column i t rows = Some (Inr rows1)" by (simp add: adjust_column_def)
  have "rows1 \<noteq> []" using r(2) Cons.prems(2) by auto
  with Cons.IH [of "Suc i" rows1] r(3) Cons.prems(3) obtain rows2 where
    "adjust_columns (Suc i) ts rows1 = Some (Inr rows2)" "length rows2 = length rows1" "nonneg_rows (i + length (t # ts)) rows2"
    "\<forall>j < i + length (t # ts). column j rows2 = (if j < Suc i then column j rows1 else ts ! (j - Suc i))" by auto
  with ac r show ?case by (auto simp: nth_Cons' less_Suc_eq)
qed auto

lemma validate_and_adjust_total:
  assumes "nonneg_rows (length targets) rows" "rows \<noteq> []" "\<forall>t \<in> set targets. 0 \<le> t"
  obtains rows' where "validate_and_adjust rows targets = Some (Inr rows')" "covers targets rows'" "length rows' = length rows"
proof -
  obtain rows' where r: "adjust_columns 0 targets rows = Some (Inr rows')" "length rows' = length rows" "nonneg_rows (length targets) rows'"
    "\<forall>j < length targets. column j rows' = targets ! j" using adjust_columns_total [of 0 targets rows] assms by auto
  then have "rows' \<noteq> []" using assms(2) by auto
  with r that [of rows'] show thesis by (simp add: validate_and_adjust_def covers_def)
qed

lemma adjust_columns_id:
  assumes "nonneg_rows (i + length targets) rows" "\<forall>j < length targets. column (i + j) rows = targets ! j"
  shows "adjust_columns i targets rows = Some (Inr rows)"
  using assms
proof (induction targets arbitrary: i)
  case (Cons t ts)
  have "\<not> list_ex (\<lambda>row. length row \<le> i) rows" using Cons.prems(1) by (auto simp: list_ex_iff nonneg_rows_def)
  moreover have "column i rows = t" using Cons.prems(2) [rule_format, of 0] by simp
  ultimately have "adjust_column i t rows = Some (Inr rows)" by (simp add: adjust_column_def adjust_loop.simps)
  moreover have "column (Suc i + j) rows = ts ! j" if "j < length ts" for j using Cons.prems(2) [rule_format, of "Suc j"] that by simp
  ultimately show ?case using Cons.IH [of "Suc i"] Cons.prems(1) by simp
qed simp

lemma validate_and_adjust_id: "covers targets rows \<Longrightarrow> validate_and_adjust rows targets = Some (Inr rows)"
  using adjust_columns_id [of 0] by (simp add: covers_def validate_and_adjust_def)

section \<open>Lemmas: mutations\<close>

lemma nonneg_rows_update:
  "nonneg_rows n rows \<Longrightarrow> length row = n \<Longrightarrow> \<forall>x \<in> set row. 0 \<le> x \<Longrightarrow> nonneg_rows n (rows[i := row])"
  using set_update_subset_insert [of rows i row] by (auto simp: nonneg_rows_def)

lemma nonneg_rows_nth: "nonneg_rows n rows \<Longrightarrow> i < length rows \<Longrightarrow> length (rows ! i) = n \<and> (\<forall>x \<in> set (rows ! i). 0 \<le> x)"
  unfolding nonneg_rows_def by (meson nth_mem)

lemma nonneg_rows_subset: "nonneg_rows n rows \<Longrightarrow> set rows' \<subseteq> set rows \<Longrightarrow> nonneg_rows n rows'"
  by (auto simp: nonneg_rows_def)

lemma transfer_rows:
  assumes "transfer valid i1 i2 pick g = Inr (Some (g', b))" "offered g (Transfer i1 i2 pick)" "nonneg_rows n g"
  shows "nonneg_rows n g'" "g' \<noteq> []"
proof -
  let ?g1 = "g ! i1" and ?g2 = "g ! i2"
  have i: "i1 < length g" "i2 < length g" using assms(2) by simp_all
  have r1: "length ?g1 = n" "\<forall>x \<in> set ?g1. 0 \<le> x" and r2: "length ?g2 = n" "\<forall>x \<in> set ?g2. 0 \<le> x"
    using nonneg_rows_nth [OF assms(3)] i by blast+
  define d where "d = (if 0 < ?g1 ! dominant ?g2 then dominant ?g2 else pick)"
  have "g' = g \<or> g' = g[i1 := ?g1[d := ?g1 ! d - 1], i2 := ?g2[d := ?g2 ! d + 1]] \<and> d < n \<and> (0 < ?g1 ! dominant ?g2 \<or> valid_dims ?g1 \<noteq> [])"
    using assms(1) r2(1) by (auto simp: transfer_def d_def Let_def err_simps split: if_splits)
  moreover have "0 < ?g1 ! d" if "0 < ?g1 ! dominant ?g2 \<or> valid_dims ?g1 \<noteq> []"
    using that assms(2) by (auto simp: d_def valid_dims_def)
  ultimately consider "g' = g" | "g' = g[i1 := ?g1[d := ?g1 ! d - 1], i2 := ?g2[d := ?g2 ! d + 1]]" "0 < ?g1 ! d" "d < n" by blast
  then show "nonneg_rows n g'"
  proof cases
    case 2
    have "0 \<le> ?g2 ! d" using r2 2(3) by simp
    then have "0 \<le> ?g1 ! d - 1" "0 \<le> ?g2 ! d + 1" using 2(2) by linarith+
    then have "\<forall>x \<in> set (?g1[d := ?g1 ! d - 1]). 0 \<le> x" "\<forall>x \<in> set (?g2[d := ?g2 ! d + 1]). 0 \<le> x"
      using set_update_nonneg [OF r1(2)] set_update_nonneg [OF r2(2)] by blast+
    then show ?thesis unfolding 2(1) using assms(3) r1(1) r2(1) by (intro nonneg_rows_update) (simp_all only: length_list_update)
  qed (use assms(3) in simp)
  show "g' \<noteq> []" using \<open>i1 < length g\<close> assms(1)
    by (auto simp: transfer_def Let_def err_simps split: if_splits)
qed

lemma merge_rows:
  assumes "offered g (Merge i1 i2)" "nonneg_rows n g"
  shows "nonneg_rows n (merge_groups i1 i2 g)" "merge_groups i1 i2 g \<noteq> []"
proof -
  have i: "i1 < length g" "i2 < length g" "i1 \<noteq> i2" using assms(1) by simp_all
  let ?m = "map (\<lambda>(x, y). x + y) (zip (g ! i1) (g ! i2))"
  have "\<forall>x \<in> set ?m. 0 \<le> x" using nonneg_rows_nth [OF assms(2)] i by (auto simp: set_zip)
  moreover have "length ?m = n" using nonneg_rows_nth [OF assms(2)] i by simp
  ultimately have "nonneg_rows n (g[i1 := ?m])" using assms(2) by (intro nonneg_rows_update)
  then show "nonneg_rows n (merge_groups i1 i2 g)"
    by (rule nonneg_rows_subset) (auto simp: merge_groups_def remove_nth_def dest: in_set_takeD in_set_dropD)
  have "length (merge_groups i1 i2 g) = length g - 1" "2 \<le> length g" using i by (auto simp: merge_groups_def remove_nth_def)
  then show "merge_groups i1 i2 g \<noteq> []" by auto
qed

lemma split_entries:
  "mapE split_entry (zip g coins) = Inr new \<Longrightarrow> length coins = length g \<Longrightarrow>
     length new = length g \<and> list_all2 (\<lambda>x y. 0 \<le> y \<and> y \<le> x) g new"
  unfolding mapE_Inr_iff
proof
  assume m: "list_all2 (\<lambda>x y. split_entry x = Inr y) (zip g coins) new" and c: "length coins = length g"
  then show l: "length new = length g" by (auto dest: list_all2_lengthD)
  have "0 \<le> new ! i \<and> new ! i \<le> g ! i" if "i < length g" for i
    using list_all2_nthD [OF m, of i] that c by (auto simp: split_entry_def split: if_splits)
  with l show "list_all2 (\<lambda>x y. 0 \<le> y \<and> y \<le> x) g new" by (simp add: list_all2_conv_all_nth)
qed

lemma split_rows:
  assumes "split_group valid idx coins g = Inr (g', b)" "offered g (Split idx coins)" "nonneg_rows n g"
  shows "nonneg_rows n g'" "g' \<noteq> []"
proof -
  have i: "idx < length g" "length coins = length (g ! idx)" using assms(2) by simp_all
  obtain new where new: "mapE split_entry (zip (g ! idx) coins) = Inr new" using assms(1) by (auto simp: split_group_def Let_def err_simps)
  note se = split_entries [OF new i(2)]
  let ?p = "map (\<lambda>(x, y). x - y) (zip (g ! idx) new)"
  have n: "length (g ! idx) = n" using nonneg_rows_nth [OF assms(3) i(1)] by simp
  have "0 \<le> new ! j \<and> new ! j \<le> g ! idx ! j" if "j < length (g ! idx)" for j
    using conjunct2 [OF se] that by (simp add: list_all2_conv_all_nth)
  then have "\<forall>x \<in> set ?p. 0 \<le> x" "\<forall>x \<in> set new. 0 \<le> x"
    using conjunct1 [OF se] by (simp_all add: all_set_conv_all_nth)
  then have "nonneg_rows n [?p, new]" using se n by simp
  then have "nonneg_rows n (take idx g @ [?p, new] @ drop (Suc idx) g)"
    using assms(3) by (auto simp: nonneg_rows_def dest: in_set_takeD in_set_dropD)
  then show "nonneg_rows n g'" "g' \<noteq> []"
    using assms(1,3) i(1) new by (auto simp: split_group_def Let_def split: if_splits)
qed

lemma apply_choice_rows:
  assumes "apply_choice valid g c = Inr (Some (g', b))" "offered g c" "nonneg_rows n g" "g \<noteq> []"
  shows "nonneg_rows n g' \<and> g' \<noteq> []"
proof (cases c)
  case (Transfer i1 i2 pick)
  with assms transfer_rows [of valid i1 i2 pick g g' b n] show ?thesis by simp
next
  case (Merge i1 i2)
  with assms merge_rows [of g i1 i2 n] show ?thesis by auto
next
  case (Split idx coins)
  with assms split_rows [of valid idx coins g g' b n] show ?thesis by (auto simp: err_simps)
qed (use assms in auto)

definition no_empty_pipeline :: "group list \<Rightarrow> bool" where
  "no_empty_pipeline g \<longleftrightarrow> (\<forall>row \<in> set g. \<exists>x \<in> set row. 0 < x)"

lemma mutation_round_covers:
  assumes "mutation_round valid targets g c = Some (Inr (g', b))" "offered g c" "covers targets g" "\<forall>t \<in> set targets. 0 \<le> t"
  shows "covers targets g'" and "b \<Longrightarrow> no_empty_pipeline g'"
proof -
  have "covers targets g' \<and> (b \<longrightarrow> no_empty_pipeline g')"
  proof (cases "apply_choice valid g c")
    case (Inr r)
    show ?thesis
    proof (cases r)
      case None
      with Inr assms show ?thesis by (auto simp: mutation_round_def)
    next
      case (Some p)
      obtain g1 b1 where p: "p = (g1, b1)" by fastforce
      have "nonneg_rows (length targets) g1 \<and> g1 \<noteq> []"
        using apply_choice_rows [of valid g c g1 b1] Inr Some p assms(2,3) by (auto simp: covers_def)
      then obtain g2 where g2: "validate_and_adjust g1 targets = Some (Inr g2)" "covers targets g2"
        using validate_and_adjust_total [of targets g1] assms(4) by metis
      with Inr Some p assms(1) have "g' = g2" "b \<longleftrightarrow> b1 \<and> list_all (list_ex (\<lambda>x. 0 < x)) g2" by (auto simp: mutation_round_def)
      with g2 show ?thesis by (auto simp: no_empty_pipeline_def list_all_iff list_ex_iff)
    qed
  qed (use assms(1) in \<open>simp add: mutation_round_def\<close>)
  then show "covers targets g'" "b \<Longrightarrow> no_empty_pipeline g'" by blast+
qed

lemma settles_covers:
  "settles valid targets g g' \<Longrightarrow> covers targets g \<Longrightarrow> \<forall>t \<in> set targets. 0 \<le> t \<Longrightarrow> covers targets g' \<and> no_empty_pipeline g'"
  by (induction rule: settles.induct) (use mutation_round_covers in blast)+

lemma climbs_covers:
  "climbs valid targets cost pre n g g' \<Longrightarrow> covers targets g \<Longrightarrow> \<forall>t \<in> set targets. 0 \<le> t \<Longrightarrow>
     covers targets g' \<and> (0 < n \<or> no_empty_pipeline g \<longrightarrow> no_empty_pipeline g')"
proof (induction rule: climbs.induct)
  case (climbs_better g g1 g2 post attempts)
  then show ?case using settles_covers [of valid targets g1 g2] by (simp add: validate_and_adjust_id)
next
  case (climbs_on g g1 g2 post attempts g')
  then show ?case using settles_covers [of valid targets g1 g2] by (simp add: validate_and_adjust_id)
qed simp

text \<open>An empty individual can never reach a positive sum: the loop of the adjustment runs forever.\<close>

lemma adjust_loop_empty: "d \<noteq> 0 \<Longrightarrow> adjust_loop i d [] = None"
proof (rule ccontr)
  let ?P = "\<lambda>(i :: nat) (d :: int) (rows :: group list) (_ :: group list). rows = [] \<longrightarrow> d = 0"
  assume "d \<noteq> 0" "adjust_loop i d [] \<noteq> None"
  then obtain r where r: "adjust_loop i d [] = Some r" by blast
  have "?P i d [] r"
  proof (rule adjust_loop.raw_induct [where P = ?P, OF _ r], intro impI)
    fix loop i d rows r
    assume "\<And>i d rows r. loop i d rows = Some r \<Longrightarrow> ?P i d rows r" "rows = []"
      "(if d = 0 then Some rows else case adjust_pass i d rows of (d', rows') \<Rightarrow> loop i d' rows') = Some r"
    then show "d = 0" by (auto split: if_splits)
  qed
  with \<open>d \<noteq> 0\<close> show False by simp
qed

text \<open>The individuals of the algorithm: with a crossover probability of zero every child is a mutated parent.\<close>

inductive evolves :: "hexgen \<Rightarrow> nat \<Rightarrow> individual \<Rightarrow> bool" for h where
  evolves_init: "evolves h 0 (initialize_individual h)"
| evolves_mutate: "evolves h n ind \<Longrightarrow> mutates h ind ind' \<Longrightarrow> evolves h (Suc n) ind'"
| evolves_label: "evolves h n ind \<Longrightarrow> evolves h n (ind\<lparr>pp_bias := b, batch := bs, iteration := i, goodput_store := gp\<rparr>)"

lemma initial_covers: "covers (map int g) [map int g]"
  by (simp add: covers_def)

lemma evolves_covers:
  "evolves h n ind \<Longrightarrow> length (genes ind) = length (h_initial h) \<and>
     (\<forall>k < length (h_initial h). covers (map int (h_initial h ! k)) (genes ind ! k) \<and> (0 < n \<longrightarrow> no_empty_pipeline (genes ind ! k)))"
proof (induction rule: evolves.induct)
  case evolves_init
  then show ?case by (simp add: initialize_individual_def initial_covers)
next
  case (evolves_mutate n ind ind')
  have "covers (map int (h_initial h ! k)) (genes ind' ! k) \<and> no_empty_pipeline (genes ind' ! k)" if k: "k < length (h_initial h)" for k
  proof -
    obtain pre where "climbs (is_group_valid (h_weight h) (h_mem_limits h ! k)) (map int (h_initial h ! k)) (sub_group_cost h k) pre 1000
        (genes ind ! k) (genes ind' ! k)" using evolves_mutate k by (auto simp: mutates_def)
    from climbs_covers [OF this] evolves_mutate.IH k show ?thesis by simp
  qed
  then show ?case using evolves_mutate by (simp add: mutates_def)
qed simp

lemma group_sums_covers: "covers (map int g) rows \<Longrightarrow> group_sums (length g) rows = map int g"
proof (rule nth_equalityI)
  fix i assume c: "covers (map int g) rows" and "i < length (group_sums (length g) rows)"
  then have i: "i < length g" by (simp add: group_sums_def)
  have "map (\<lambda>row. if i < length row then row ! i else 0) rows = map (\<lambda>row. row ! i) rows"
    using c i by (auto simp: covers_def nonneg_rows_def)
  moreover have "group_sums (length g) rows ! i = sum_list (map (\<lambda>row. if i < length row then row ! i else 0) rows)"
    unfolding group_sums_def using i by (subst nth_map) (simp_all cong: if_cong)
  ultimately have "group_sums (length g) rows ! i = column i rows" by (simp only: column_def)
  with c i show "group_sums (length g) rows ! i = map int g ! i" by (simp add: covers_def)
qed (simp add: group_sums_def)

lemma validate_sub_groups_ok:
  "length gs = length initials \<Longrightarrow> \<forall>k < length initials. covers (map int (initials ! k)) (gs ! k) \<and> no_empty_pipeline (gs ! k) \<Longrightarrow>
     validate_sub_groups initials gs same = (if gs = [] then case same of None \<Rightarrow> Inl UnboundLocalError | Some b \<Rightarrow> Inr b else Inr True)"
proof (induction initials gs same rule: validate_sub_groups.induct)
  case (3 initial initials g gs same)
  have g: "covers (map int initial) g" "no_empty_pipeline g" using "3.prems"(2) [rule_format, of 0] by simp_all
  have rest: "\<forall>k < length initials. covers (map int (initials ! k)) (gs ! k) \<and> no_empty_pipeline (gs ! k)"
    using "3.prems"(2) [rule_format, of "Suc k" for k] by auto
  have rows: "\<not> list_ex (\<lambda>row. length initial < length row) g" using g(1) by (auto simp: covers_def nonneg_rows_def list_ex_iff)
  have zero: "\<not> list_ex (list_all (\<lambda>x. x = 0)) g" using g(2) by (force simp: no_empty_pipeline_def list_ex_iff list_all_iff)
  show ?case using "3.IH" [OF rows zero _ rest] "3.prems"(1) rows zero group_sums_covers [OF g(1)] by simp
qed auto

section \<open>Properties\<close>

text \<open>
  The adjustment ends and restores the sums. For a non-empty list of groups with non-negative
  entries and non-negative targets, \<open>validate_and_adjust\<close> returns as many groups, with non-negative entries,
  whose column sums are the targets; groups that have these sums already are not changed.
\<close>

theorem validate_and_adjust_restores:
  assumes "nonneg_rows (length targets) rows" "rows \<noteq> []" "\<forall>t \<in> set targets. 0 \<le> t"
  shows "\<exists>rows'. validate_and_adjust rows targets = Some (Inr rows') \<and> length rows' = length rows \<and>
     nonneg_rows (length targets) rows' \<and> (\<forall>i < length targets. column i rows' = targets ! i) \<and>
     ((\<forall>i < length targets. column i rows = targets ! i) \<longrightarrow> rows' = rows)"
proof -
  obtain rows' where r: "validate_and_adjust rows targets = Some (Inr rows')" "covers targets rows'" "length rows' = length rows"
    by (rule validate_and_adjust_total [OF assms])
  have "rows' = rows" if "\<forall>i < length targets. column i rows = targets ! i"
    using validate_and_adjust_id [of targets rows] that assms(1,2) r(1) by (simp add: covers_def)
  with r show ?thesis unfolding covers_def by blast
qed

theorem validate_and_adjust_restores_witness:
  "\<exists>rows'. validate_and_adjust [[2, 2], [2, 0], [1, 1]] [8, 1] = Some (Inr rows') \<and> column 0 rows' = 8 \<and> column 1 rows' = 1"
  using validate_and_adjust_restores [of "[8, 1]" "[[2, 2], [2, 0], [1, 1]]"]
  by (auto simp: less_Suc_eq dest: spec [where x = 0] spec [where x = 1])

text \<open>
  HexGen distributes all GPUs. In every individual that the genetic algorithm can reach by any
  number of mutations, whatever the random choices, the pipelines of each sub-group use exactly the
  GPUs of every node; after a mutation no pipeline is empty, and the validation of the selection accepts the individual.
\<close>

theorem hexgen_distributes_all_gpus:
  assumes "evolves h n ind"
  shows "length (genes ind) = length (h_initial h) \<and>
     (\<forall>k < length (h_initial h). \<forall>i < length (h_initial h ! k). column i (genes ind ! k) = int (h_initial h ! k ! i)) \<and>
     (0 < n \<and> h_initial h \<noteq> [] \<longrightarrow> validate_individual h ind = Inr True \<and>
        (\<forall>k < length (h_initial h). \<forall>row \<in> set (genes ind ! k). \<exists>x \<in> set row. 0 < x))"
proof -
  note ev = evolves_covers [OF assms]
  have "validate_individual h ind = Inr True" if "0 < n" "h_initial h \<noteq> []"
    unfolding validate_individual_def using ev that validate_sub_groups_ok [of "genes ind" "h_initial h" None] by auto
  with ev show ?thesis by (auto simp: covers_def no_empty_pipeline_def)
qed

definition small_hexgen :: hexgen where
  "small_hexgen = set_cluster_config [[2]] None [[40]] None None 10"

lemma small_mutates:
  "mutates small_hexgen (initialize_individual small_hexgen) ((initialize_individual small_hexgen)\<lparr>genes := [[[1], [1]]]\<rparr>)"
proof -
  have "validate_and_adjust [[2]] [2] = Some (Inr [[2]])" "validate_and_adjust [[1], [1]] [2] = Some (Inr [[1], [1]])"
    by (rule validate_and_adjust_id, simp add: covers_def)+
  moreover from this have "settles (is_group_valid 10 [40]) [2] [[2]] [[1], [1]]"
    by (intro settles_valid [of _ "Split 0 [True]"])
      (simp_all add: mutation_round_def split_group_def split_entry_def is_group_valid_def Let_def)
  moreover have "sub_group_cost small_hexgen 0 [[2]] = Inr (- 10)" "sub_group_cost small_hexgen 0 [[1], [1]] = Inr (- 20)" by code_simp+
  moreover have "(- 20 :: py_float) < - 10" by simp
  ultimately have "climbs (is_group_valid 10 [40]) [2] (sub_group_cost small_hexgen 0) (- 10) (Suc 999) [[2]] [[1], [1]]"
    by (intro climbs_better [of "[[2]]"])
  with \<open>sub_group_cost small_hexgen 0 [[2]] = Inr (- 10)\<close> show ?thesis
    by (simp add: mutates_def initialize_individual_def small_hexgen_def set_cluster_config_def)
qed

theorem hexgen_distributes_all_gpus_witness:
  "validate_individual small_hexgen ((initialize_individual small_hexgen)\<lparr>genes := [[[1], [1]]]\<rparr>) = Inr True"
  using hexgen_distributes_all_gpus [OF evolves_mutate [OF evolves_init small_mutates]]
  by (simp add: small_hexgen_def set_cluster_config_def)

end
