(* ===== verification/HexGenCost.thy ===== *)
theory HexGenCost
  imports HexGen Estimator "HOL-Library.List_Lexorder"
begin

text \<open>
  The evaluation of individuals in the HexGen baseline: the tensor-parallel degrees that the GPUs of a
  node can be grouped into, the cost model, the predicted cost of a plan with its memory penalty, the
  choice of the cheapest plan for each pipeline, and the fitness. Python returns the members of a
  set in an order that is not specified; the order is an argument. The goodput that the
  event simulation returns is an argument as well; \<open>HexGenSim\<close> supplies it. Numbers are exact rationals.
\<close>

section \<open>Tensor-parallel degrees\<close>

function recursive_allocation :: "int \<Rightarrow> int list \<Rightarrow> int list list" where
  "recursive_allocation remaining_gpus current =
     (if remaining_gpus = 0 then [sort current]
      else concat (map (\<lambda>d. if 1 \<le> d \<and> d \<le> remaining_gpus \<and> length current < 8
        then recursive_allocation (remaining_gpus - d) (current @ [d]) else []) [1, 2, 4, 8]))"
  by pat_completeness auto
termination by (relation "measure (\<lambda>(r, c). nat r)") auto

declare recursive_allocation.simps [simp del]

definition generate_unique_combinations :: "int \<Rightarrow> int list set" where
  "generate_unique_combinations num_gpus = set (recursive_allocation num_gpus [])"

section \<open>The cost model\<close>

text \<open>The constants of \<^verbatim>\<open>cost_model_impl.py\<close> and the parameters that \<open>configure\<close> sets.\<close>

record cost_model =
  cm_H :: int
  cm_layers :: int
  cm_in :: int
  cm_out :: int

definition default_cost_model :: cost_model where
  "default_cost_model = \<lparr>cm_H = 8192, cm_layers = 80, cm_in = 763, cm_out = 763 + 232\<rparr>"

definition configure :: "int \<Rightarrow> int \<Rightarrow> int \<Rightarrow> int \<Rightarrow> cost_model" where
  "configure hidden_size num_layers input_len output_len =
     \<lparr>cm_H = hidden_size, cm_layers = num_layers, cm_in = input_len, cm_out = input_len + output_len\<rparr>"

definition c_alpha :: py_float where
  "c_alpha = 1 / 10 ^ 6"

definition c_beta :: py_float where
  "c_beta = 10 ^ 11"

definition B_type :: int where
  "B_type = 2"

definition m_d :: py_float where
  "m_d = 10 ^ 12"

definition prompting_no_tp :: "cost_model \<Rightarrow> int \<Rightarrow> int \<Rightarrow> py_float" where
  "prompting_no_tp c l bsz = (of_int (12 * cm_H c ^ 2 * B_type) / m_d + of_int (24 * bsz * cm_in c * cm_H c ^ 2) / m_d) * of_int l"

definition token_generation_no_tp :: "cost_model \<Rightarrow> int \<Rightarrow> int \<Rightarrow> py_float" where
  "token_generation_no_tp c l bsz = (of_int (12 * cm_H c ^ 2 * B_type) / m_d + of_int (24 * bsz * cm_H c ^ 2) / m_d) * of_int l"

definition prompting_communication_tp :: "cost_model \<Rightarrow> int \<Rightarrow> int \<Rightarrow> int \<Rightarrow> py_float" where
  "prompting_communication_tp c l d bsz =
     2 * of_int (d - 1) * (c_alpha + of_int (bsz * cm_in c * cm_H c * B_type) / (of_int d * c_beta)) * 2 * of_int l"

definition token_generation_communication_tp :: "cost_model \<Rightarrow> int \<Rightarrow> int \<Rightarrow> int \<Rightarrow> py_float" where
  "token_generation_communication_tp c l d bsz =
     2 * of_int (d - 1) * (c_alpha + of_int (bsz * cm_H c * B_type) / (of_int d * c_beta)) * 2 * of_int l"

text \<open>The pipeline communication is only asked for with one device on the other side.\<close>

definition pipeline_prompting :: "cost_model \<Rightarrow> int \<Rightarrow> py_float" where
  "pipeline_prompting c bsz = c_alpha + of_int (bsz * cm_in c * cm_H c * B_type) / c_beta"

definition pipeline_token_generation :: "cost_model \<Rightarrow> int \<Rightarrow> py_float" where
  "pipeline_token_generation c bsz = c_alpha + of_int (bsz * cm_H c * B_type) / c_beta"

definition memory_usage :: "cost_model \<Rightarrow> int \<Rightarrow> int \<Rightarrow> int \<Rightarrow> py_float" where
  "memory_usage c l d bsz =
     ((of_int (12 * cm_H c ^ 2 * B_type) / of_int d + of_int (2 * bsz * (cm_in c + cm_out c) * cm_H c * B_type)) * of_int l +
        of_int (4 * bsz * (cm_in c + cm_out c) * cm_H c * B_type)) / 1024 ^ 3"

definition compute_costs :: "cost_model \<Rightarrow> int list \<Rightarrow> int \<Rightarrow> int \<Rightarrow> (py_float list \<times> py_float list \<times> int list) py option" where
  "compute_costs c config bias bsz =
     bindD (partition_layers (cm_layers c) (length config) bias) (\<lambda>pp_layer_list.
     Some (Inr (map (\<lambda>l. prompting_no_tp c l bsz + token_generation_no_tp c l bsz * of_int (cm_out c - cm_in c)) pp_layer_list,
       concat (map (\<lambda>(l, d). replicate (nat d) (memory_usage c l d bsz)) (zip pp_layer_list config)), pp_layer_list)))"

definition tp_communication_costs :: "cost_model \<Rightarrow> int list \<Rightarrow> int list \<Rightarrow> int \<Rightarrow> py_float list" where
  "tp_communication_costs c pp_layer_list config bsz =
     map (\<lambda>(l, d). prompting_communication_tp c l d bsz + token_generation_communication_tp c l d bsz * of_int (cm_out c - cm_in c))
       (zip pp_layer_list config)"

definition inter_device_communication_cost :: "cost_model \<Rightarrow> int \<Rightarrow> py_float" where
  "inter_device_communication_cost c bsz =
     pipeline_prompting c bsz + pipeline_token_generation c bsz * of_int (cm_out c - cm_in c)"

section \<open>The cost of a plan\<close>

text \<open>
  \<open>predict_cost\<close>. The state of the loops is the total, the index of the stage and the cost of the stage
  that was read last; the communication cost is read at the index \<open>j\<close> within the node.
\<close>

definition stage_step :: "py_float list \<Rightarrow> py_float list \<Rightarrow> py_float \<Rightarrow> py_float \<Rightarrow> py_float \<times> nat \<times> py_float option \<Rightarrow> nat \<times> int \<Rightarrow>
    (py_float \<times> nat \<times> py_float option) py" where
  "stage_step stage_costs comm_costs comp_ability comm_ability st jd =
     (case st of (total_cost, stage_index, last_cost) \<Rightarrow> case jd of (j, d) \<Rightarrow>
      if stage_index < length stage_costs
      then bindE (divE (stage_costs ! stage_index) (of_int d)) (\<lambda>q.
        bindE (if 1 < d then bindE (nthE comm_costs j) (\<lambda>x. Inr (x * comm_ability)) else Inr 0) (\<lambda>comm.
        Inr (total_cost + (q * comp_ability + comm), stage_index + 1, Some (stage_costs ! stage_index))))
      else (case last_cost of
          None \<Rightarrow> Inl UnboundLocalError
        | Some s \<Rightarrow> bindE (divE s (of_int d)) (\<lambda>q.
            bindE (if 1 < d then bindE (nthE comm_costs j) (\<lambda>x. Inr (x * comm_ability * of_int (d - 1))) else Inr 0) (\<lambda>comm.
            Inr (total_cost + (q * comp_ability + comm), stage_index, last_cost)))))"

definition node_step :: "int list list \<Rightarrow> py_float list \<Rightarrow> py_float list \<Rightarrow> py_float list \<Rightarrow> py_float list \<Rightarrow> py_float \<Rightarrow>
    py_float \<times> nat \<times> py_float option \<Rightarrow> nat \<Rightarrow> (py_float \<times> nat \<times> py_float option) py" where
  "node_step allocations comp_abilities comm_abilities stage_costs comm_costs inter_device st i =
     bindE (nthE comp_abilities i) (\<lambda>comp_ability. bindE (nthE comm_abilities i) (\<lambda>comm_ability.
     bindE (foldE (stage_step stage_costs comm_costs comp_ability comm_ability) st (enumerate 0 (allocations ! i))) (\<lambda>(total_cost, rest).
     Inr (if i < length allocations - 1 then total_cost + inter_device else total_cost, rest))))"

definition predict_cost :: "int list list \<Rightarrow> py_float list \<Rightarrow> py_float list \<Rightarrow> py_float list \<Rightarrow> py_float list \<Rightarrow> py_float \<Rightarrow> py_float py" where
  "predict_cost allocations comp_abilities comm_abilities stage_costs comm_costs inter_device =
     bindE (foldE (node_step allocations comp_abilities comm_abilities stage_costs comm_costs inter_device) (0, 0, None)
       [0..<length allocations]) (\<lambda>(total_cost, _). Inr total_cost)"

definition generate_gpu_memory_limits :: "int list list \<Rightarrow> py_float list \<Rightarrow> py_float list py" where
  "generate_gpu_memory_limits gpu_array gpu_limit =
     (if gpu_limit = [] \<and> gpu_array \<noteq> [] then Inl ZeroDivisionError
      else Inr (concat (map (\<lambda>(i, sub). replicate (nat (sum_list sub)) (gpu_limit ! (i mod length gpu_limit))) (enumerate 0 gpu_array))))"

text \<open>The penalty. The arrays are compared entry by entry; an array with one entry is compared with every entry of the other one.\<close>

definition compare_arrays_and_calculate_cost :: "py_float list \<Rightarrow> py_float list \<Rightarrow> py_float py" where
  "compare_arrays_and_calculate_cost array1 array2 =
     (let penalty = (\<lambda>xs ys. Inr (of_nat (length (filter (\<lambda>(a, b). b < a) (zip xs ys))) * 10 ^ 12)) in
      if length array1 = length array2 then penalty array1 array2
      else if length array1 = 1 then penalty (replicate (length array2) (hd array1)) array2
      else if length array2 = 1 then penalty array1 (replicate (length array1) (hd array2))
      else Inl ValueError)"

text \<open>An entry of \<open>cost_list\<close>; the plan without stages has neither memory nor layers.\<close>

type_synonym plan_entry = "py_float \<times> int list list \<times> (py_float list \<times> int list \<times> int) option"

definition plan_cost :: "hexgen \<Rightarrow> cost_model \<Rightarrow> nat \<Rightarrow> int \<Rightarrow> int \<Rightarrow> int list list \<Rightarrow> plan_entry py option" where
  "plan_cost h c k bias bsz alloc =
     (let config = concat alloc in
      if config = [] then Some (Inr (10 ^ 9, alloc, None))
      else bindD (compute_costs c config bias bsz) (\<lambda>(stage_costs, mem_costs, pp_layer_list).
        bindD (Some (nthE (h_comp h) k)) (\<lambda>comp_abilities. bindD (Some (nthE (h_comm h) k)) (\<lambda>comm_abilities.
        bindD (Some (predict_cost alloc comp_abilities comm_abilities stage_costs (tp_communication_costs c pp_layer_list config bsz)
          (inter_device_communication_cost c bsz))) (\<lambda>cost.
        bindD (Some (nthE (h_mem_limits h) k)) (\<lambda>gpu_mem_limit.
        bindD (Some (generate_gpu_memory_limits alloc gpu_mem_limit)) (\<lambda>gpu_limits.
        bindD (Some (compare_arrays_and_calculate_cost mem_costs gpu_limits)) (\<lambda>penalty.
        Some (Inr (cost + penalty, alloc, Some (mem_costs, pp_layer_list, bsz)))))))))))"

text \<open>\<open>min\<close> with a key: the first of the smallest elements.\<close>

definition min_by :: "('a \<Rightarrow> 'k::linorder) \<Rightarrow> 'a list \<Rightarrow> 'a py" where
  "min_by key xs = (case xs of [] \<Rightarrow> Inl ValueError | x # xs \<Rightarrow> Inr (foldl (\<lambda>b y. if key y < key b then y else b) x xs))"

definition best_plan :: "hexgen \<Rightarrow> cost_model \<Rightarrow> (int list set \<Rightarrow> int list list) \<Rightarrow> nat \<Rightarrow> group \<times> int \<times> int \<Rightarrow>
    (py_float \<times> int list \<times> int list) py option" where
  "best_plan h c order k pl =
     (case pl of (sub_group, bias, bsz) \<Rightarrow>
      bindD (mapD (plan_cost h c k bias bsz) (product_lists (map (\<lambda>n. order (generate_unique_combinations n)) sub_group))) (\<lambda>cost_list.
      bindD (Some (min_by fst cost_list)) (\<lambda>(cost, alloc, rest).
      case rest of
        None \<Rightarrow> Some (Inl IndexError)
      | Some (mem, pp_partition, _) \<Rightarrow> Some (Inr (cost, concat alloc, pp_partition)))))"

section \<open>Fitness\<close>

text \<open>The bias and the batch sizes are extended when there are more pipelines than entries.\<close>

definition extend_bias :: "group list \<Rightarrow> individual \<Rightarrow> individual" where
  "extend_bias g ind =
     (if length (pp_bias ind) < length g
      then ind\<lparr>pp_bias := pp_bias ind @ replicate (length g - length (pp_bias ind)) 0,
        batch := batch ind @ replicate (length g - length (batch ind)) BATCH_SIZE\<rparr>
      else ind)"

fun evaluate_groups :: "hexgen \<Rightarrow> cost_model \<Rightarrow> (int list set \<Rightarrow> int list list) \<Rightarrow> nat \<Rightarrow> group list list \<Rightarrow> individual \<Rightarrow>
    ((py_float \<times> int list \<times> int list) list list \<times> individual) py option" where
  "evaluate_groups h c order k [] ind = Some (Inr ([], ind))"
| "evaluate_groups h c order k (g # gs) ind =
     (let ind' = extend_bias g ind in
      bindD (mapD (best_plan h c order k) (zip g (zip (pp_bias ind') (batch ind')))) (\<lambda>plans.
      bindD (evaluate_groups h c order (Suc k) gs ind') (\<lambda>(rest, ind''). Some (Inr (plans # rest, ind'')))))"

text \<open>
  The simulator is an argument: it gets the plans of all pipelines, the bias and the batch sizes, and returns the goodput,
  raises or runs forever. Goodput and average cost are numpy numbers, whose inverse is infinity for zero.
\<close>

definition np_inverse :: "py_float \<Rightarrow> xrat" where
  "np_inverse x = (if x = 0 then PosInf else Fin (1 / x))"

type_synonym goodput_simulator = "int list list \<Rightarrow> int list \<Rightarrow> int list \<Rightarrow> py_float py option"

definition fitness :: "goodput_simulator \<Rightarrow> individual \<Rightarrow> int list list list \<Rightarrow> py_float list list \<Rightarrow> (xrat \<times> individual) py option" where
  "fitness simulate ind plans costs =
     (if 10 ^ 9 < sum_list (map sum_list costs) then Some (Inr (Fin (10 ^ 9), ind))
      else if iteration ind mod 10 = 0 \<and> 100 \<le> iteration ind
      then bindD (simulate (concat plans) (pp_bias ind) (batch ind)) (\<lambda>goodput.
        Some (Inr (np_inverse goodput, ind\<lparr>goodput_store := goodput\<rparr>)))
      else Some (bindE (divE (sum_list (concat costs)) (of_nat (length (concat costs)))) (\<lambda>a. Inr (np_inverse a, ind))))"

definition evaluate :: "hexgen \<Rightarrow> cost_model \<Rightarrow> (int list set \<Rightarrow> int list list) \<Rightarrow> goodput_simulator \<Rightarrow> individual \<Rightarrow>
    (xrat \<times> int list list list \<times> int list list list \<times> individual) py option" where
  "evaluate h c order simulate ind =
     bindD (evaluate_groups h c order 0 (genes ind) ind) (\<lambda>(plans, ind').
     bindD (fitness simulate ind' (map (map (\<lambda>p. fst (snd p))) plans) (map (map fst) plans)) (\<lambda>(f, ind'').
     Some (Inr (f, map (map (\<lambda>p. fst (snd p))) plans, map (map (\<lambda>p. snd (snd p))) plans, ind''))))"

section \<open>Lemmas: degrees\<close>

abbreviation degrees :: "int set" where
  "degrees \<equiv> {1, 2, 4, 8}"

lemma sum_degrees: "set xs \<subseteq> degrees \<Longrightarrow> int (length xs) \<le> sum_list xs"
  by (induction xs) auto

lemma recursive_allocation:
  "length current \<le> 8 \<Longrightarrow> set (recursive_allocation r current) =
     {sort (current @ xs) | xs. set xs \<subseteq> degrees \<and> sum_list xs = r \<and> length current + length xs \<le> 8}"
proof (induction r current rule: recursive_allocation.induct)
  case (1 r current)
  show ?case
  proof (cases "r = 0")
    case True
    have "set xs \<subseteq> degrees \<and> sum_list xs = 0 \<and> length current + length xs \<le> 8 \<longleftrightarrow> xs = []" for xs :: "int list"
      using sum_degrees [of xs] "1.prems" by auto
    with True show ?thesis by (subst recursive_allocation.simps) simp
  next
    case False
    let ?S = "\<lambda>r c. {sort (c @ xs) | xs. set xs \<subseteq> degrees \<and> sum_list xs = r \<and> length c + length xs \<le> 8}"
    have step: "set (recursive_allocation (r - d) (current @ [d])) = ?S (r - d) (current @ [d])"
      if "d \<in> degrees" "d \<le> r" "length current < 8" for d using "1.IH" [of d] False that by auto
    have "set (recursive_allocation r current) =
        (\<Union>d \<in> {d \<in> degrees. d \<le> r \<and> length current < 8}. set (recursive_allocation (r - d) (current @ [d])))"
      using False by (subst recursive_allocation.simps) auto
    also have "\<dots> = (\<Union>d \<in> {d \<in> degrees. d \<le> r \<and> length current < 8}. ?S (r - d) (current @ [d]))"
      using step by (intro SUP_cong) auto
    also have "\<dots> = ?S r current"
    proof (intro equalityI subsetI)
      fix y assume "y \<in> ?S r current"
      then obtain xs where xs: "y = sort (current @ xs)" "set xs \<subseteq> degrees" "sum_list xs = r" "length current + length xs \<le> 8" by blast
      with False obtain d zs where z: "xs = d # zs" by (cases xs) auto
      have "d \<le> r" using sum_degrees [of zs] xs z by auto
      with xs z show "y \<in> (\<Union>d \<in> {d \<in> degrees. d \<le> r \<and> length current < 8}. ?S (r - d) (current @ [d]))"
        by (intro UN_I [of d]) (auto intro!: exI [of _ zs])
    next
      fix y assume "y \<in> (\<Union>d \<in> {d \<in> degrees. d \<le> r \<and> length current < 8}. ?S (r - d) (current @ [d]))"
      then obtain d xs where "d \<in> degrees" "y = sort ((current @ [d]) @ xs)" "set xs \<subseteq> degrees" "sum_list xs = r - d"
        "length (current @ [d]) + length xs \<le> 8" by blast
      then show "y \<in> ?S r current" by (intro CollectI exI [of _ "d # xs"]) auto
    qed
    finally show ?thesis .
  qed
qed

lemma combinations:
  "generate_unique_combinations n = {xs. sorted xs \<and> set xs \<subseteq> degrees \<and> sum_list xs = n \<and> length xs \<le> 8}"
proof -
  have "generate_unique_combinations n = {sort xs | xs. set xs \<subseteq> degrees \<and> sum_list xs = n \<and> length xs \<le> 8}"
    using recursive_allocation [of "[]" n] by (simp add: generate_unique_combinations_def)
  also have "\<dots> = {xs. sorted xs \<and> set xs \<subseteq> degrees \<and> sum_list xs = n \<and> length xs \<le> 8}"
    by (auto intro!: exI [of _ x for x] simp: sorted_sort_id sum_mset_sum_list [symmetric])
  finally show ?thesis .
qed

lemma combinations_small: "0 \<le> n \<Longrightarrow> n \<le> 8 \<Longrightarrow> generate_unique_combinations n \<noteq> {}"
proof -
  assume n: "0 \<le> n" "n \<le> 8"
  then have "replicate (nat n) 1 \<in> generate_unique_combinations n"
    by (auto simp: combinations sum_list_replicate)
  then show ?thesis by blast
qed

section \<open>Lemmas: plans\<close>

text \<open>The plans of a pipeline: for every node a way to group its GPUs.\<close>

definition allocations :: "group \<Rightarrow> int list list set" where
  "allocations g = {alloc. list_all2 (\<lambda>n a. a \<in> generate_unique_combinations n) g alloc}"

lemma alloc_degrees: "alloc \<in> allocations g \<Longrightarrow> set (concat alloc) \<subseteq> degrees"
  by (fastforce simp: allocations_def combinations list_all2_conv_all_nth in_set_conv_nth)

lemma alloc_length: "alloc \<in> allocations g \<Longrightarrow> length alloc = length g"
  by (simp add: allocations_def list_all2_lengthD)

lemma alloc_sum: "alloc \<in> allocations g \<Longrightarrow> sum_list (concat alloc) = sum_list g"
proof -
  have "list_all2 (\<lambda>n a. a \<in> generate_unique_combinations n) g alloc \<Longrightarrow> sum_list (concat alloc) = sum_list g"
    by (induction rule: list_all2_induct) (simp_all add: combinations)
  then show "alloc \<in> allocations g \<Longrightarrow> ?thesis" by (simp add: allocations_def)
qed

lemma alloc_stages: "alloc \<in> allocations g \<Longrightarrow> int (length (concat alloc)) \<le> sum_list g"
  using sum_degrees [OF alloc_degrees] alloc_sum by metis

lemma stage_step_total:
  assumes "stage_costs \<noteq> []" "j < length comm_costs" "d \<in> degrees" "0 < idx \<longrightarrow> last_cost \<noteq> None"
  shows "\<exists>t' idx' last'. stage_step stage_costs comm_costs a b (t, idx, last_cost) (j, d) = Inr (t', idx', last') \<and> (0 < idx' \<longrightarrow> last' \<noteq> None)"
proof -
  have "d \<noteq> 0" "idx < length stage_costs \<or> (\<exists>s. last_cost = Some s)" using assms by (cases "0 < idx"; force)+
  with assms(2) show ?thesis by (auto simp: stage_step_def divE_def nthE_def)
qed

lemma foldE_stages:
  assumes "stage_costs \<noteq> []" "\<forall>(j, d) \<in> set jds. j < length comm_costs \<and> d \<in> degrees" "0 < idx \<longrightarrow> last_cost \<noteq> None"
  shows "\<exists>t' idx' last'. foldE (stage_step stage_costs comm_costs a b) (t, idx, last_cost) jds = Inr (t', idx', last') \<and> (0 < idx' \<longrightarrow> last' \<noteq> None)"
  using assms(2,3)
proof (induction jds arbitrary: t idx last_cost)
  case (Cons jd jds)
  obtain j d where jd: "jd = (j, d)" by fastforce
  from stage_step_total [OF assms(1), of j comm_costs d idx last_cost a b t] Cons.prems obtain t' idx' last' where
    "stage_step stage_costs comm_costs a b (t, idx, last_cost) jd = Inr (t', idx', last')" "0 < idx' \<longrightarrow> last' \<noteq> None" by (auto simp: jd)
  with Cons.IH [of idx' last' t'] Cons.prems show ?case by simp
qed auto

lemma predict_cost_total:
  assumes "stage_costs \<noteq> []" "length comm_costs = length (concat alloc)" "set (concat alloc) \<subseteq> degrees"
    and "length alloc \<le> length comp_ab" "length alloc \<le> length comm_ab"
  shows "\<exists>cost. predict_cost alloc comp_ab comm_ab stage_costs comm_costs idc = Inr cost"
proof -
  have "\<exists>t' idx' last'. foldE (node_step alloc comp_ab comm_ab stage_costs comm_costs idc) (t, idx, last_cost) js = Inr (t', idx', last')"
    if "set js \<subseteq> {..<length alloc}" "0 < idx \<longrightarrow> last_cost \<noteq> None" for t idx last_cost js
    using that
  proof (induction js arbitrary: t idx last_cost)
    case (Cons i js)
    have i: "i < length alloc" using Cons.prems by simp
    have "length (alloc ! i) \<le> length (concat alloc)"
      using i by (simp add: length_concat member_le_sum_list)
    moreover have "alloc ! i ! j \<in> degrees" if "j < length (alloc ! i)" for j
      using that i by (intro subsetD [OF assms(3)]) (auto intro!: bexI [of _ "alloc ! i"])
    ultimately have "\<forall>(j, d) \<in> set (enumerate 0 (alloc ! i)). j < length comm_costs \<and> d \<in> degrees"
      unfolding assms(2) in_set_enumerate_eq Ball_def case_prod_unfold by fastforce
    from foldE_stages [OF assms(1) this Cons.prems(2), of "comp_ab ! i" "comm_ab ! i" t] obtain t1 idx1 last1 where
      f: "foldE (stage_step stage_costs comm_costs (comp_ab ! i) (comm_ab ! i)) (t, idx, last_cost) (enumerate 0 (alloc ! i)) =
        Inr (t1, idx1, last1)" "0 < idx1 \<longrightarrow> last1 \<noteq> None" by blast
    then have "\<exists>t2. node_step alloc comp_ab comm_ab stage_costs comm_costs idc (t, idx, last_cost) i = Inr (t2, idx1, last1)"
      using i assms(4,5) by (simp add: node_step_def nthE_def)
    then obtain t2 where "node_step alloc comp_ab comm_ab stage_costs comm_costs idc (t, idx, last_cost) i = Inr (t2, idx1, last1)" ..
    with Cons.IH [of idx1 last1 t2] Cons.prems f(2) show ?case by simp
  qed auto
  from this [of "[0..<length alloc]" 0 None 0] show ?thesis by (auto simp: predict_cost_def atLeast0LessThan)
qed

lemma min_by_total:
  assumes "xs \<noteq> []"
  obtains m where "min_by key xs = Inr m" "m \<in> set xs" "\<forall>x \<in> set xs. key m \<le> key x"
  using assms smallest.pick [of key "hd xs" "tl xs"] that by (cases xs) (simp_all add: min_by_def not_less)

text \<open>The conditions under which the plans of a pipeline can be evaluated.\<close>

definition evaluable :: "hexgen \<Rightarrow> cost_model \<Rightarrow> nat \<Rightarrow> group \<Rightarrow> int \<Rightarrow> bool" where
  "evaluable h c k g bias \<longleftrightarrow> (\<forall>x \<in> set g. 0 \<le> x \<and> x \<le> 8) \<and> 0 < sum_list g \<and> sum_list g \<le> cm_layers c \<and>
     k < length (h_comp h) \<and> k < length (h_comm h) \<and> k < length (h_mem_limits h) \<and> length g \<le> length (h_comp h ! k) \<and> length g \<le> length (h_comm h ! k) \<and> h_mem_limits h ! k \<noteq> [] \<and>
     (\<forall>s. 1 \<le> s \<and> int s \<le> sum_list g \<longrightarrow> partition_layers (cm_layers c) s bias \<noteq> None)"

lemma partition_layers_evaluable:
  assumes "evaluable h c k g bias" "1 \<le> s" "int s \<le> sum_list g"
  obtains ds where "partition_layers (cm_layers c) s bias = Some (Inr ds)" "distribution s (cm_layers c) ds"
proof (cases "s = 1")
  case True
  then show thesis using that [of "[cm_layers c]"] assms by (auto simp: partition_layers_def distribution_def evaluable_def)
next
  case False
  obtain r where r: "partition_layers (cm_layers c) s bias = Some r" using assms by (auto simp: evaluable_def)
  have "2 \<le> s" "int s \<le> cm_layers c" using False assms by (auto simp: evaluable_def)
  from partition_layers_result [OF this, of bias] r that show thesis by blast
qed

lemma length_mem_costs:
  assumes "length ls = length ds" "\<forall>d \<in> set ds. 0 \<le> d"
  shows "length (concat (map (\<lambda>(l, d). replicate (nat d) (f l d)) (zip ls ds))) = nat (sum_list ds)"
proof -
  have "int (length (concat (map (\<lambda>(l, d). replicate (nat d) (f l d)) (zip ls ds)))) = sum_list ds"
    using assms by (induction ls ds rule: list_induct2) simp_all
  then show ?thesis by simp
qed

lemma length_limits:
  assumes "\<forall>sub \<in> set subs. \<forall>d \<in> set sub. 0 \<le> (d :: int)"
  shows "length (concat (map (\<lambda>(i, sub). replicate (nat (sum_list sub)) (f i)) (enumerate n subs))) = nat (sum_list (concat subs))"
proof -
  have "int (length (concat (map (\<lambda>(i, sub). replicate (nat (sum_list sub)) (f i)) (enumerate n subs)))) = sum_list (concat subs)"
    using assms by (induction subs arbitrary: n) (simp_all add: sum_list_nonneg)
  then show ?thesis by simp
qed

lemma plan_cost_total:
  assumes "evaluable h c k g bias" "alloc \<in> allocations g"
  obtains cost mem layers where "plan_cost h c k bias bsz alloc = Some (Inr (cost, alloc, Some (mem, layers, bsz)))"
    "distribution (length (concat alloc)) (cm_layers c) layers"
proof -
  let ?config = "concat alloc"
  have deg: "set ?config \<subseteq> degrees" and sum: "sum_list ?config = sum_list g" and len: "length alloc = length g"
    using alloc_degrees alloc_sum alloc_length assms(2) by blast+
  have "0 < sum_list ?config" using sum assms(1) by (simp add: evaluable_def)
  then have ne: "?config \<noteq> []" by fastforce
  have "1 \<le> length ?config" using ne by (cases ?config) auto
  then obtain layers where p: "partition_layers (cm_layers c) (length ?config) bias = Some (Inr layers)"
    "distribution (length ?config) (cm_layers c) layers"
    using partition_layers_evaluable [OF assms(1)] alloc_stages [OF assms(2)] by blast
  have ll: "length layers = length ?config" using p(2) by (simp add: distribution_def)
  define stage_costs where "stage_costs = map (\<lambda>l. prompting_no_tp c l bsz + token_generation_no_tp c l bsz * of_int (cm_out c - cm_in c)) layers"
  define mem where "mem = concat (map (\<lambda>(l, d). replicate (nat d) (memory_usage c l d bsz)) (zip layers ?config))"
  have cc: "compute_costs c ?config bias bsz = Some (Inr (stage_costs, mem, layers))"
    by (simp add: compute_costs_def p(1) stage_costs_def mem_def)
  have "stage_costs \<noteq> []" using ne ll by (auto simp: stage_costs_def)
  moreover have "length (tp_communication_costs c layers ?config bsz) = length ?config" by (simp add: tp_communication_costs_def ll)
  moreover have "length alloc \<le> length (h_comp h ! k)" "length alloc \<le> length (h_comm h ! k)"
    using assms(1) len by (simp_all add: evaluable_def)
  ultimately obtain cost where pc: "predict_cost alloc (h_comp h ! k) (h_comm h ! k) stage_costs (tp_communication_costs c layers ?config bsz)
      (inter_device_communication_cost c bsz) = Inr cost" using predict_cost_total deg by blast
  have "\<forall>sub \<in> set alloc. \<forall>d \<in> set sub. 0 \<le> d" using deg by fastforce
  then obtain limits where lim: "generate_gpu_memory_limits alloc (h_mem_limits h ! k) = Inr limits" "length limits = nat (sum_list ?config)"
    using assms(1) length_limits [of alloc "\<lambda>i. h_mem_limits h ! k ! (i mod length (h_mem_limits h ! k))" 0]
    by (simp add: generate_gpu_memory_limits_def evaluable_def)
  have "length mem = nat (sum_list ?config)" unfolding mem_def using deg by (intro length_mem_costs ll) auto
  with lim(2) obtain pen where "compare_arrays_and_calculate_cost mem limits = Inr pen" by (simp add: compare_arrays_and_calculate_cost_def)
  moreover have "k < length (h_comp h)" "k < length (h_comm h)" "k < length (h_mem_limits h)" using assms(1) by (simp_all add: evaluable_def)
  ultimately have "plan_cost h c k bias bsz alloc = Some (Inr (cost + pen, alloc, Some (mem, layers, bsz)))"
    using ne cc pc lim(1) by (simp add: plan_cost_def Let_def nthE_def)
  with p(2) that show thesis by blast
qed

lemma set_allocs:
  assumes "\<And>A. finite A \<Longrightarrow> set (order A) = A"
  shows "set (product_lists (map (\<lambda>n. order (generate_unique_combinations n)) g)) = allocations g"
proof -
  have "set (order (generate_unique_combinations n)) = generate_unique_combinations n" for n
    by (rule assms) (simp add: generate_unique_combinations_def)
  then show ?thesis by (auto simp: product_lists_set allocations_def list_all2_conv_all_nth)
qed

lemma allocations_not_empty: "\<forall>x \<in> set g. 0 \<le> x \<and> x \<le> 8 \<Longrightarrow> allocations g \<noteq> {}"
proof -
  assume "\<forall>x \<in> set g. 0 \<le> x \<and> x \<le> 8"
  then have "\<forall>x \<in> set g. \<exists>a. a \<in> generate_unique_combinations x" using combinations_small by blast
  then have "map (\<lambda>x. SOME a. a \<in> generate_unique_combinations x) g \<in> allocations g"
    by (auto simp: allocations_def list_all2_conv_all_nth intro: someI_ex)
  then show ?thesis by blast
qed

section \<open>Properties\<close>

text \<open>
  The tensor-parallel groupings are complete. \<open>generate_unique_combinations\<close> yields exactly the sorted lists of
  at most eight degrees out of 1, 2, 4 and 8 whose sum is the number of GPUs.
\<close>

theorem unique_combinations_spec:
  "generate_unique_combinations n = {xs. sorted xs \<and> set xs \<subseteq> {1, 2, 4, 8} \<and> sum_list xs = n \<and> length xs \<le> 8}"
  by (rule combinations)

text \<open>
  C23. The evaluation picks the cheapest plan. For a pipeline with GPUs, at most eight on a node and at
  most as many as layers, and a bias for which the distribution of the layers ends, the
  evaluation returns, whatever order Python lists the members of a set in; the plan groups exactly the GPUs of each node, no plan for these GPUs has a lower
  cost, and its stages get all layers, at least one each.
\<close>

theorem best_plan_cheapest:
  assumes "evaluable h c k g bias" "\<And>A. finite A \<Longrightarrow> set (order A) = A"
  shows "\<exists>cost alloc mem layers. best_plan h c order k (g, bias, bsz) = Some (Inr (cost, concat alloc, layers)) \<and>
     list_all2 (\<lambda>n a. set a \<subseteq> {1, 2, 4, 8} \<and> sum_list a = n) g alloc \<and>
     plan_cost h c k bias bsz alloc = Some (Inr (cost, alloc, Some (mem, layers, bsz))) \<and>
     distribution (length (concat alloc)) (cm_layers c) layers \<and>
     (\<forall>alloc' \<in> allocations g. \<exists>cost' rest. plan_cost h c k bias bsz alloc' = Some (Inr (cost', rest)) \<and> cost \<le> cost')"
proof -
  let ?L = "product_lists (map (\<lambda>n. order (generate_unique_combinations n)) g)"
  have L: "set ?L = allocations g" by (rule set_allocs [OF assms(2)])
  have "\<exists>v. plan_cost h c k bias bsz alloc = Some (Inr v) \<and> fst (snd v) = alloc \<and>
      (\<exists>mem layers. snd (snd v) = Some (mem, layers, bsz) \<and> distribution (length (concat alloc)) (cm_layers c) layers)"
    if "alloc \<in> set ?L" for alloc using plan_cost_total [OF assms(1)] that unfolding L by (metis fst_conv snd_conv)
  then obtain v where v: "\<And>alloc. alloc \<in> set ?L \<Longrightarrow> plan_cost h c k bias bsz alloc = Some (Inr (v alloc)) \<and> fst (snd (v alloc)) = alloc \<and>
      (\<exists>mem layers. snd (snd (v alloc)) = Some (mem, layers, bsz) \<and> distribution (length (concat alloc)) (cm_layers c) layers)" by metis
  have md: "mapD (plan_cost h c k bias bsz) ?L = Some (Inr (map v ?L))" using v by (intro mapD_total) blast
  have "allocations g \<noteq> {}" using assms(1) by (intro allocations_not_empty) (simp add: evaluable_def)
  then have "map v ?L \<noteq> []" using L by auto
  then obtain m where m: "min_by fst (map v ?L) = Inr m" "m \<in> set (map v ?L)" "\<forall>x \<in> set (map v ?L). fst m \<le> fst x" by (rule min_by_total)
  then obtain alloc where a: "alloc \<in> set ?L" "m = v alloc" by auto
  with v obtain mem layers where w: "v alloc = (fst (v alloc), alloc, Some (mem, layers, bsz))"
    "distribution (length (concat alloc)) (cm_layers c) layers" by (metis prod.collapse)
  have bp: "best_plan h c order k (g, bias, bsz) = Some (Inr (fst (v alloc), concat alloc, layers))"
    unfolding best_plan_def by (subst w(1)) (simp add: md m(1) a(2), subst w(1), simp)
  have "list_all2 (\<lambda>n a. set a \<subseteq> {1, 2, 4, 8} \<and> sum_list a = n) g alloc"
    using a(1) [unfolded L allocations_def] by (auto simp: combinations elim: list_all2_mono)
  moreover have "\<exists>cost' rest. plan_cost h c k bias bsz alloc' = Some (Inr (cost', rest)) \<and> fst (v alloc) \<le> cost'"
    if "alloc' \<in> allocations g" for alloc'
  proof -
    have "alloc' \<in> set ?L" using that L by blast
    then have "plan_cost h c k bias bsz alloc' = Some (Inr (v alloc'))" "fst (v alloc) \<le> fst (v alloc')" using v m(3) a(2) by auto
    then show ?thesis by (metis prod.collapse)
  qed
  moreover have "plan_cost h c k bias bsz alloc = Some (Inr (fst (v alloc), alloc, Some (mem, layers, bsz)))" using v [OF a(1)] w(1) by metis
  ultimately show ?thesis using bp w(2) by blast
qed

definition small_model :: cost_model where
  "small_model = configure 64 4 8 8"

lemma small_evaluable: "evaluable small_hexgen small_model 0 [2] 0"
proof -
  have "partition_layers 4 1 0 \<noteq> None" "partition_layers 4 2 0 \<noteq> None" by code_simp+
  moreover have "s = 1 \<or> s = 2" if "1 \<le> s" "int s \<le> 2" for s :: nat using that by linarith
  ultimately show ?thesis by (auto simp: evaluable_def small_hexgen_def set_cluster_config_def small_model_def configure_def)
qed

theorem best_plan_cheapest_witness:
  "\<exists>cost plan layers. best_plan small_hexgen small_model (\<lambda>A. sorted_list_of_set A) 0 ([2], 0, 1) = Some (Inr (cost, plan, layers)) \<and> length plan = length layers"
  using best_plan_cheapest [OF small_evaluable, of "\<lambda>A. sorted_list_of_set A" 1]
  by (fastforce simp: distribution_def)

text \<open>
  The fitness is minimised, and it is the inverse of the average cost: of two individuals with as many
  pipelines and with costs below the penalty, the more expensive one is preferred.
\<close>

lemma fitness_prefers_cost:
  assumes "length (concat a) = length (concat b)" "0 < sum_list (concat a)" "0 < sum_list (concat b)" "iteration ind < 100"
    and "sum_list (map sum_list a) \<le> 10 ^ 9" "sum_list (map sum_list b) \<le> 10 ^ 9"
    and "fitness simulate ind plans a = Some (Inr (fa, ind1))" "fitness simulate ind plans' b = Some (Inr (fb, ind2))"
  shows "fa < fb \<longleftrightarrow> sum_list (concat b) < sum_list (concat a)"
proof -
  let ?n = "of_nat (length (concat a)) :: py_float"
  have f: "fa = Fin (?n / sum_list (concat a))" "fb = Fin (?n / sum_list (concat b))" and "length (concat a) \<noteq> 0"
    using assms by (auto simp: fitness_def divE_def np_inverse_def split: if_splits)
  then have "0 < ?n" unfolding of_nat_0_less_iff by blast
  with assms(2,3) show ?thesis unfolding f by (simp add: less_xrat_def divide_simps del: length_concat) linarith
qed

end
