(* ===== verification/HexGenSearch.thy ===== *)
theory HexGenSearch
  imports HexGenCost
begin

text \<open>
  The genetic algorithm of \<^verbatim>\<open>ModelPlacement/hexgen_optimizer.py\<close>: tournament selection among valid individuals, the
  generations with the best individual found so far, and the configuration that \<open>main\<close> builds. The
  library DEAP is a parameter: \<open>varOr\<close> relates a population to its possible offspring and
  \<open>selRandom\<close> a list and a number to the possible random samples. The statistics of the log are left out.
\<close>

section \<open>Evaluated individuals and selection\<close>

record scored =
  ind :: individual
  fit :: xrat
  plan :: "int list list list"
  pp_partition :: "int list list list"

definition max_by :: "('a \<Rightarrow> 'k::linorder) \<Rightarrow> 'a list \<Rightarrow> 'a py" where
  "max_by key xs = (case xs of [] \<Rightarrow> Inl ValueError | x # xs \<Rightarrow> Inr (foldl (\<lambda>b y. if key b < key y then y else b) x xs))"

fun negate :: "xrat \<Rightarrow> xrat" where
  "negate NegInf = PosInf"
| "negate (Fin x) = Fin (- x)"
| "negate PosInf = NegInf"

text \<open>
  One tournament. The fitness has the weight -1, and individuals are compared by their weighted
  fitness. The second sample is only drawn if no aspirant is valid.
\<close>

definition tournament :: "hexgen \<Rightarrow> scored list \<Rightarrow> scored list \<Rightarrow> scored py" where
  "tournament h aspirants fallback =
     bindE (mapE (\<lambda>s. validate_individual h (ind s)) aspirants) (\<lambda>ok.
     let valid_aspirants = map fst (filter snd (zip aspirants ok)) in
     if valid_aspirants \<noteq> [] then max_by (\<lambda>s. negate (fit s)) valid_aspirants else nthE fallback 0)"

inductive selValidTournament ::
  "(scored list \<Rightarrow> nat \<Rightarrow> scored list \<Rightarrow> bool) \<Rightarrow> hexgen \<Rightarrow> scored list \<Rightarrow> nat \<Rightarrow> nat \<Rightarrow> scored list \<Rightarrow> bool"
  for selRandom h individuals tournsize where
  sel_none: "selValidTournament selRandom h individuals tournsize 0 []"
| sel_one: "selValidTournament selRandom h individuals tournsize k chosen \<Longrightarrow> selRandom individuals tournsize aspirants \<Longrightarrow>
    selRandom individuals 1 fallback \<Longrightarrow> tournament h aspirants fallback = Inr s \<Longrightarrow>
    selValidTournament selRandom h individuals tournsize (Suc k) (chosen @ [s])"

section \<open>Generations\<close>

record search_state =
  population :: "individual list"
  best_individual :: "scored option"
  best_fitness :: xrat
  best_gen_iteration :: nat
  best_gen_pp_partition :: "int list list list option"
  logbook :: "(nat \<times> nat \<times> int list list list \<times> int list list list) list"

definition start_search :: "hexgen \<Rightarrow> nat \<Rightarrow> search_state" where
  "start_search h population_size =
     \<lparr>population = replicate population_size (initialize_individual h), best_individual = None, best_fitness = PosInf,
      best_gen_iteration = 0, best_gen_pp_partition = None, logbook = []\<rparr>"

definition score :: "nat \<Rightarrow> xrat \<times> int list list list \<times> int list list list \<times> individual \<Rightarrow> scored" where
  "score gen r = (case r of (f, pl, pp, i) \<Rightarrow> \<lparr>ind = i\<lparr>iteration := gen + 1\<rparr>, fit = f, plan = pl, pp_partition = pp\<rparr>)"

definition track_best :: "search_state \<Rightarrow> scored \<Rightarrow> search_state" where
  "track_best st s =
     (if fit s < best_fitness st
      then st\<lparr>best_fitness := fit s, best_individual := Some s, best_gen_iteration := iteration (ind s),
        best_gen_pp_partition := Some (pp_partition s)\<rparr>
      else st)"

definition record_generation :: "nat \<Rightarrow> nat \<Rightarrow> scored list \<Rightarrow> search_state \<Rightarrow> search_state py" where
  "record_generation gen nevals selected st =
     bindE (min_by fit selected) (\<lambda>m.
     Inr (st\<lparr>population := map ind selected, logbook := logbook st @ [(gen, nevals, plan m, pp_partition m)]\<rparr>))"

text \<open>
  The loop over the generations, for a run that raises no exception. The last argument
  collects all evaluated individuals.
\<close>

inductive generations ::
  "(individual list \<Rightarrow> individual list \<Rightarrow> bool) \<Rightarrow> (scored list \<Rightarrow> nat \<Rightarrow> scored list \<Rightarrow> bool) \<Rightarrow>
   (individual \<Rightarrow> (xrat \<times> int list list list \<times> int list list list \<times> individual) py option) \<Rightarrow>
   hexgen \<Rightarrow> nat \<Rightarrow> nat \<Rightarrow> search_state \<Rightarrow> scored list \<Rightarrow> bool"
  for varOr selRandom eval h population_size where
  gen_start: "generations varOr selRandom eval h population_size 0 (start_search h population_size) []"
| gen_next: "generations varOr selRandom eval h population_size gen st seen \<Longrightarrow> varOr (population st) offspring \<Longrightarrow>
    mapD eval offspring = Some (Inr results) \<Longrightarrow> scores = map (score gen) results \<Longrightarrow>
    selValidTournament selRandom h scores 3 3 selected \<Longrightarrow>
    record_generation gen (length offspring) selected (foldl track_best st scores) = Inr st' \<Longrightarrow>
    generations varOr selRandom eval h population_size (Suc gen) st' (seen @ scores)"

definition run_hexgen_ga ::
  "(individual list \<Rightarrow> individual list \<Rightarrow> bool) \<Rightarrow> (scored list \<Rightarrow> nat \<Rightarrow> scored list \<Rightarrow> bool) \<Rightarrow> (int list set \<Rightarrow> int list list) \<Rightarrow>
   goodput_simulator \<Rightarrow> hexgen \<Rightarrow> cost_model \<Rightarrow> nat \<Rightarrow> nat \<Rightarrow> scored option \<Rightarrow> scored list \<Rightarrow> bool" where
  "run_hexgen_ga varOr selRandom order simulate h c population_size gens best seen \<longleftrightarrow>
     (\<exists>st. generations varOr selRandom (evaluate h c order simulate) h population_size gens st seen \<and> best_individual st = best)"

section \<open>The configuration of a cluster\<close>

record node_info =
  ni_instance_type :: string
  num_instances :: nat
  num_gpu_per_instance :: nat
  memory_limit :: py_float
  computation_ability :: py_float
  communication_ability :: py_float

text \<open>\<open>main\<close>: the lists of the single sub-group have an entry for each instance.\<close>

definition per_instance :: "(node_info \<Rightarrow> 'a) \<Rightarrow> node_info list \<Rightarrow> 'a list" where
  "per_instance f cluster = concat (map (\<lambda>n. replicate (num_instances n) (f n)) cluster)"

definition single_model_config :: "node_info list \<Rightarrow> py_float \<Rightarrow> hexgen" where
  "single_model_config cluster weight =
     set_cluster_config [per_instance num_gpu_per_instance cluster] None [per_instance memory_limit cluster]
       (Some [per_instance computation_ability cluster]) (Some [per_instance communication_ability cluster]) weight"

text \<open>The GPUs of a pipeline per entry of the cluster, as \<open>main\<close> prints them.\<close>

fun usage :: "group \<Rightarrow> nat \<Rightarrow> node_info list \<Rightarrow> (string \<times> int) list" where
  "usage gene offset [] = []"
| "usage gene offset (n # ns) =
     (ni_instance_type n, sum_list (map (\<lambda>x. if 0 < x then x else 0) (take (num_instances n) (drop offset gene)))) #
       usage gene (offset + num_instances n) ns"

section \<open>Lemmas: evaluation and selection\<close>

text \<open>The evaluation changes no genes of the individual.\<close>

lemma evaluate_groups_label:
  "evaluate_groups h c order k gs i = Some (Inr (plans, i')) \<Longrightarrow> \<exists>b bs. i' = i\<lparr>pp_bias := b, batch := bs\<rparr>"
proof (induction gs arbitrary: k i plans)
  case Nil
  then show ?case by (cases i) auto
next
  case (Cons g gs)
  then obtain plans' where "evaluate_groups h c order (Suc k) gs (extend_bias g i) = Some (Inr (plans', i'))"
    by (auto simp: err_simps Let_def split: prod.splits)
  with Cons.IH obtain b bs where "i' = (extend_bias g i)\<lparr>pp_bias := b, batch := bs\<rparr>" by blast
  then show ?case by (auto simp: extend_bias_def)
qed

lemma evaluate_label:
  assumes "evaluate h c order simulate i = Some (Inr (f, pl, pp, i'))"
  shows "\<exists>b bs gp. i' = i\<lparr>pp_bias := b, batch := bs, goodput_store := gp\<rparr>"
proof -
  obtain plans i1 where e: "evaluate_groups h c order 0 (genes i) i = Some (Inr (plans, i1))"
    and f: "fitness simulate i1 (map (map (\<lambda>p. fst (snd p))) plans) (map (map fst) plans) = Some (Inr (f, i'))"
    using assms by (auto simp: evaluate_def err_simps)
  obtain b bs where i1: "i1 = i\<lparr>pp_bias := b, batch := bs\<rparr>" using evaluate_groups_label [OF e] by blast
  have "i' = i1 \<or> (\<exists>gp. i' = i1\<lparr>goodput_store := gp\<rparr>)"
    using f by (auto simp: fitness_def Let_def err_simps split: if_splits)
  then show ?thesis
  proof
    assume "i' = i1"
    with i1 have "i' = i\<lparr>pp_bias := b, batch := bs, goodput_store := goodput_store i\<rparr>" by simp
    then show ?thesis by blast
  qed (use i1 in auto)
qed

lemma evolves_score:
  assumes "evolves h n i" "evaluate h c order simulate i = Some (Inr r)"
  shows "evolves h n (ind (score gen r))"
proof -
  obtain f pl pp i' where r: "r = (f, pl, pp, i')" using prod_cases4 by blast
  obtain b bs gp where "i' = i\<lparr>pp_bias := b, batch := bs, goodput_store := gp\<rparr>" using evaluate_label assms(2) r by blast
  then show ?thesis 
    using evolves_label [OF assms(1), where b = b and bs = bs and i = "gen + 1" and gp = gp] by (cases i) (simp add: score_def r)
qed

lemma tournament_mem:
  assumes "tournament h aspirants fallback = Inr s"
  shows "s \<in> set aspirants \<union> set fallback"
proof -
  obtain ok where "let v = map fst (filter snd (zip aspirants ok)) in (if v \<noteq> [] then max_by (\<lambda>s. negate (fit s)) v else nthE fallback 0) = Inr s"
    using assms by (auto simp: tournament_def err_simps Let_def)
  then consider "s \<in> set (map fst (filter snd (zip aspirants ok)))" | "s \<in> set fallback"
    using largest.pick_mem [where key = "\<lambda>s. negate (fit s)"]
    by (auto simp: Let_def max_by_def nthE_def split: if_splits list.splits simp del: set_map set_filter)
  then show ?thesis by cases (auto dest: set_zip_leftD)
qed

lemma selection_mem:
  assumes "selValidTournament selRandom h xs n k chosen" "\<And>xs k ys. selRandom xs k ys \<Longrightarrow> set ys \<subseteq> set xs"
  shows "set chosen \<subseteq> set xs \<and> length chosen = k"
  using assms(1)
proof induction
  case (sel_one k chosen aspirants fallback s)
  then show ?case using tournament_mem [of h aspirants fallback s] assms(2) by fastforce
qed simp

text \<open>The best individual so far.\<close>

definition best_of :: "search_state \<Rightarrow> scored list \<Rightarrow> bool" where
  "best_of st seen \<longleftrightarrow> (case best_individual st of
      None \<Rightarrow> best_fitness st = PosInf \<and> (\<forall>s \<in> set seen. fit s = PosInf)
    | Some b \<Rightarrow> b \<in> set seen \<and> best_fitness st = fit b \<and> fit b < PosInf \<and> (\<forall>s \<in> set seen. fit b \<le> fit s))"

lemma PosInf_top [simp]: "x \<le> PosInf" "x < PosInf \<longleftrightarrow> x \<noteq> PosInf"
  by (cases x; simp add: less_xrat_def)+

lemma best_of_track:
  assumes "best_of st seen"
  shows "best_of (track_best st s) (seen @ [s])"
proof (cases "best_individual st")
  case None
  then show ?thesis using assms by (auto simp: best_of_def track_best_def)
next
  case (Some b)
  then have b: "b \<in> set seen" "best_fitness st = fit b" "fit b \<noteq> PosInf" "\<forall>s \<in> set seen. fit b \<le> fit s"
    using assms by (simp_all add: best_of_def)
  show ?thesis
  proof (cases "fit s < fit b")
    case True
    moreover from this have "fit s \<le> fit x" if "x \<in> set seen" for x using b(4) that by fastforce
    moreover have "fit s \<noteq> PosInf" using True by (cases "fit b") (auto simp: less_xrat_def)
    ultimately show ?thesis using b(2) by (simp add: best_of_def track_best_def)
  next
    case False
    then have "track_best st s = st" using b(2) by (simp add: track_best_def)
    with Some b False show ?thesis by (simp add: best_of_def not_less)
  qed
qed

lemma best_of_tracks: "best_of st seen \<Longrightarrow> best_of (foldl track_best st ss) (seen @ ss)"
proof (induction ss arbitrary: st seen)
  case (Cons s ss)
  from Cons.IH [OF best_of_track [OF Cons.prems]] show ?case by simp
qed simp

text \<open>An evaluated individual comes from at least one mutation and from the evaluation.\<close>

definition descends :: "(individual \<Rightarrow> (xrat \<times> int list list list \<times> int list list list \<times> individual) py option) \<Rightarrow> hexgen \<Rightarrow> scored \<Rightarrow> bool" where
  "descends eval h s \<longleftrightarrow> (\<exists>k > 0. evolves h k (ind s)) \<and> (\<exists>i gen r. eval i = Some (Inr r) \<and> s = score gen r)"

text \<open>What a run keeps: all individuals descend from the initial one, and the best one is known.\<close>

lemma generations_inv:
  assumes "generations varOr selRandom (evaluate h c order simulate) h m n st seen"
    and "\<And>pop off. varOr pop off \<Longrightarrow> length off = 10 \<and> (\<forall>o' \<in> set off. \<exists>p \<in> set pop. mutates h p o')"
    and "\<And>xs k ys. selRandom xs k ys \<Longrightarrow> set ys \<subseteq> set xs"
  shows "(\<forall>i \<in> set (population st). evolves h n i) \<and> best_of st seen \<and> length seen = 10 * n \<and>
     (\<forall>s \<in> set seen. descends (evaluate h c order simulate) h s)"
  using assms(1)
proof induction
  case gen_start
  then show ?case by (simp add: start_search_def best_of_def evolves_init)
next
  case (gen_next gen st seen offspring results scores selected st')
  have off: "evolves h (Suc gen) i" if "i \<in> set offspring" for i
    using assms(2) [OF gen_next.hyps(2)] that gen_next.IH by (blast intro: evolves_mutate)
  have sc: "evolves h (Suc gen) (ind s) \<and> descends (evaluate h c order simulate) h s" if "s \<in> set scores" for s
  proof -
    have "s \<in> score gen ` set results" using that gen_next.hyps(4) by simp
    then obtain r where r: "s = score gen r" "r \<in> set results" by (rule imageE)
    obtain i where "i \<in> set offspring" "evaluate h c order simulate i = Some (Inr r)"
      using mapD_Inr_mem [OF gen_next.hyps(3) r(2)] by blast
    with r(1) off evolves_score show ?thesis unfolding descends_def by blast
  qed
  have len: "length scores = 10" using mapD_length [OF gen_next.hyps(3)] assms(2) [OF gen_next.hyps(2)] gen_next.hyps(4) by simp
  have sel: "set selected \<subseteq> set scores" using selection_mem [OF gen_next.hyps(5)] assms(3) by blast
  have st': "population st' = map ind selected" "best_individual st' = best_individual (foldl track_best st scores)"
    "best_fitness st' = best_fitness (foldl track_best st scores)" using gen_next.hyps(6) by (auto simp: record_generation_def err_simps)
  have "best_of (foldl track_best st scores) (seen @ scores)" using best_of_tracks gen_next.IH by blast
  then have "best_of st' (seen @ scores)" by (simp only: best_of_def st')
  moreover have "\<forall>i \<in> set (population st'). evolves h (Suc gen) i" using sel sc by (auto simp: st')
  ultimately show ?case using sc len gen_next.IH by auto
qed

lemma evolved_valid:
  assumes "evolves h n i" "0 < n" "h_initial h \<noteq> []"
  shows "validate_individual h i = Inr True"
    and "\<forall>k < length (h_initial h). \<forall>j < length (h_initial h ! k). column j (genes i ! k) = int (h_initial h ! k ! j)"
proof -
  note ev = evolves_covers [OF assms(1)]
  show "validate_individual h i = Inr True"
    unfolding validate_individual_def using ev assms(2,3) validate_sub_groups_ok [of "genes i" "h_initial h" None] by auto
  show "\<forall>k < length (h_initial h). \<forall>j < length (h_initial h ! k). column j (genes i ! k) = int (h_initial h ! k ! j)"
    using ev by (auto simp: covers_def)
qed

section \<open>Lemmas: the configuration of a cluster\<close>

lemma per_instance_Cons [simp]: "per_instance f (n # ns) = replicate (num_instances n) (f n) @ per_instance f ns"
  by (simp add: per_instance_def)

lemma segment_sum:
  assumes "\<forall>row \<in> set rows. off + m \<le> length row \<and> (\<forall>x \<in> set row. (0 :: int) \<le> x)"
  shows "(\<Sum>row\<leftarrow>rows. sum_list (map (\<lambda>x. if 0 < x then x else 0) (take m (drop off row)))) = (\<Sum>j < m. column (off + j) rows)"
  using assms
proof (induction rows)
  case (Cons row rows)
  have "map (\<lambda>x. if 0 < x then x else 0) (take m (drop off row)) = take m (drop off row)"
    using Cons.prems by (intro map_idI) (auto dest!: in_set_takeD in_set_dropD)
  moreover have "sum_list (take m (drop off row)) = (\<Sum>j < m. row ! (off + j))"
  proof -
    have "off + m \<le> length row" using Cons.prems by simp
    then have "length (take m (drop off row)) = m" by simp
    then show ?thesis unfolding sum_list_sum_nth by (simp add: atLeast0LessThan)
  qed
  ultimately show ?case using Cons by (simp add: sum.distrib)
qed simp

text \<open>What is printed for the pipelines of a sub-group adds up to the GPUs of the cluster.\<close>

lemma usage_all_gpus:
  assumes "nonneg_rows (off + length (per_instance num_gpu_per_instance ns)) rows"
    and "\<forall>j < length (per_instance num_gpu_per_instance ns). column (off + j) rows = int (per_instance num_gpu_per_instance ns ! j)"
    and "i < length ns"
  shows "(\<Sum>row\<leftarrow>rows. snd (usage row off ns ! i)) = int (num_instances (ns ! i) * num_gpu_per_instance (ns ! i))"
  using assms
proof (induction ns arbitrary: off i)
  case (Cons n ns)
  show ?case
  proof (cases i)
    case 0
    have "(\<Sum>row\<leftarrow>rows. snd (usage row off (n # ns) ! i)) = (\<Sum>j < num_instances n. column (off + j) rows)"
      using segment_sum [of rows off "num_instances n"] Cons.prems(1) 0 by (fastforce simp: nonneg_rows_def)
    also have "\<dots> = (\<Sum>j < num_instances n. int (num_gpu_per_instance n))"
      using Cons.prems(2) by (intro sum.cong) (auto simp: nth_append)
    finally show ?thesis using 0 by simp
  next
    case (Suc i')
    have "column (off + num_instances n + j) rows = int (per_instance num_gpu_per_instance ns ! j)"
      if "j < length (per_instance num_gpu_per_instance ns)" for j
      using Cons.prems(2) [rule_format, of "num_instances n + j"] that by (simp add: nth_append add.assoc)
    with Cons.IH [of "off + num_instances n" i'] Cons.prems Suc show ?thesis by (simp add: add.assoc)
  qed
qed simp

lemma evolved_usage:
  assumes "evolves (single_model_config cluster w) n i" "k < length cluster"
  shows "(\<Sum>row\<leftarrow>genes i ! 0. snd (usage row 0 cluster ! k)) = int (num_instances (cluster ! k) * num_gpu_per_instance (cluster ! k))"
  using evolves_covers [OF assms(1)] assms(2)
  by (intro usage_all_gpus) (auto simp: single_model_config_def set_cluster_config_def covers_def)

section \<open>Properties\<close>

text \<open>
  C22. The search returns the best individual it has evaluated. After any number of generations in which the library
  mutates ten members of the population and samples members of a list, \<open>run_hexgen_ga\<close> returns no individual exactly if
  the fitness of every evaluated individual is infinite. Otherwise it returns an individual whose fitness is the smallest of
  all that were evaluated; fitness, plan and partition are those of its evaluation, the validation accepts it, and its
  pipelines use exactly the GPUs of every node.
\<close>

theorem run_hexgen_ga_best:
  assumes "run_hexgen_ga varOr selRandom order simulate h c m n best seen" "h_initial h \<noteq> []"
    and "\<And>pop off. varOr pop off \<Longrightarrow> length off = 10 \<and> (\<forall>o' \<in> set off. \<exists>p \<in> set pop. mutates h p o')"
    and "\<And>xs k ys. selRandom xs k ys \<Longrightarrow> set ys \<subseteq> set xs"
  shows "length seen = 10 * n \<and> (best = None \<longleftrightarrow> (\<forall>s \<in> set seen. fit s = PosInf)) \<and>
     (\<forall>b. best = Some b \<longrightarrow> b \<in> set seen \<and> (\<forall>s \<in> set seen. fit b \<le> fit s) \<and>
       (\<exists>i i'. evaluate h c order simulate i = Some (Inr (fit b, plan b, pp_partition b, i')) \<and> genes (ind b) = genes i') \<and>
       validate_individual h (ind b) = Inr True \<and>
       (\<forall>k < length (h_initial h). \<forall>j < length (h_initial h ! k). column j (genes (ind b) ! k) = int (h_initial h ! k ! j)))"
proof -
  obtain st where st: "generations varOr selRandom (evaluate h c order simulate) h m n st seen" "best_individual st = best"
    using assms(1) by (auto simp: run_hexgen_ga_def)
  have inv: "best_of st seen" "length seen = 10 * n"
    "\<forall>s \<in> set seen. descends (evaluate h c order simulate) h s"
    using generations_inv [OF st(1)] assms(3,4) by blast+
  have "best = None \<longleftrightarrow> (\<forall>s \<in> set seen. fit s = PosInf)"
    using inv(1) unfolding best_of_def st(2) by (cases best) (simp_all, blast)
  moreover have "b \<in> set seen \<and> (\<forall>s \<in> set seen. fit b \<le> fit s)" if "best = Some b" for b
    using inv(1) that unfolding best_of_def st(2) by simp
  moreover have "(\<exists>i i'. evaluate h c order simulate i = Some (Inr (fit b, plan b, pp_partition b, i')) \<and> genes (ind b) = genes i') \<and>
       validate_individual h (ind b) = Inr True \<and>
       (\<forall>k < length (h_initial h). \<forall>j < length (h_initial h ! k). column j (genes (ind b) ! k) = int (h_initial h ! k ! j))"
    if b: "b \<in> set seen" for b
  proof -
    obtain k i gen r where k: "0 < k" "evolves h k (ind b)" "evaluate h c order simulate i = Some (Inr r)" "b = score gen r"
      using inv(3) b unfolding descends_def by blast
    obtain f pl pp i' where "r = (f, pl, pp, i')" using prod_cases4 by blast
    with k have "evaluate h c order simulate i = Some (Inr (fit b, plan b, pp_partition b, i')) \<and> genes (ind b) = genes i'"
      by (simp add: score_def)
    with evolved_valid [OF k(2,1) assms(2)] show ?thesis by blast
  qed
  ultimately show ?thesis using inv(2) by blast
qed

text \<open>A run with one generation: every offspring splits the only group of two GPUs.\<close>

definition small_split :: individual where
  "small_split = (initialize_individual small_hexgen)\<lparr>genes := [[[1], [1]]]\<rparr>"

definition small_varOr :: "individual list \<Rightarrow> individual list \<Rightarrow> bool" where
  "small_varOr pop off \<longleftrightarrow> off = replicate 10 small_split \<and> initialize_individual small_hexgen \<in> set pop"

definition small_selRandom :: "scored list \<Rightarrow> nat \<Rightarrow> scored list \<Rightarrow> bool" where
  "small_selRandom xs k ys \<longleftrightarrow> xs \<noteq> [] \<and> ys = replicate k (hd xs)"

definition small_simulate :: goodput_simulator where
  "small_simulate _ _ _ = Some (Inr 1)"

lemma small_evaluate:
  "evaluate small_hexgen small_model sorted_list_of_set small_simulate small_split =
     Some (Inr (Fin (9765625 / 96), [[[1], [1]]], [[[4], [4]]], small_split\<lparr>pp_bias := [0, 0], batch := [1, 1]\<rparr>))"
  by code_simp

lemma small_run:
  "\<exists>best seen. run_hexgen_ga small_varOr small_selRandom sorted_list_of_set small_simulate small_hexgen small_model 1 1 best seen \<and>
     (\<exists>s \<in> set seen. fit s \<noteq> PosInf)"
proof -
  define s where "s = score 0 (Fin (9765625 / 96), [[[1], [1]]], [[[4], [4]]], small_split\<lparr>pp_bias := [0, 0], batch := [1, 1]\<rparr>)"
  have v: "validate_individual small_hexgen (ind s) = Inr True" unfolding s_def by code_simp
  have one: "tournament small_hexgen [s, s, s] [s] = Inr s" by (simp add: tournament_def v max_by_def)
  have sel: "selValidTournament small_selRandom small_hexgen (replicate 10 s) 3 (Suc (Suc (Suc 0))) ((([] @ [s]) @ [s]) @ [s])"
    by (rule sel_one [OF sel_one [OF sel_one [OF sel_none _ _ one] _ _ one] _ _ one])
      (simp_all add: small_selRandom_def numeral_eq_Suc)
  let ?st = "foldl track_best (start_search small_hexgen 1) (replicate 10 s)"
  have rec: "\<exists>st'. record_generation 0 10 [s, s, s] ?st = Inr st'" by (simp add: record_generation_def min_by_def)
  then obtain st' where st': "record_generation 0 10 [s, s, s] ?st = Inr st'" ..
  have "mapD (evaluate small_hexgen small_model sorted_list_of_set small_simulate) (replicate 10 small_split) =
      Some (Inr (replicate 10 (Fin (9765625 / 96), [[[1], [1]]], [[[4], [4]]], small_split\<lparr>pp_bias := [0, 0], batch := [1, 1]\<rparr>)))"
    using mapD_total [of "replicate 10 small_split" "evaluate small_hexgen small_model sorted_list_of_set small_simulate"
      "\<lambda>_. (Fin (9765625 / 96), [[[1], [1]]], [[[4], [4]]], small_split\<lparr>pp_bias := [0, 0], batch := [1, 1]\<rparr>)"]
    by (simp add: small_evaluate map_replicate_const)
  then have "generations small_varOr small_selRandom (evaluate small_hexgen small_model sorted_list_of_set small_simulate) small_hexgen 1 (Suc 0) st'
      ([] @ replicate 10 s)"
    by (rule gen_next [OF gen_start, where selected = "[s, s, s]" and scores = "replicate 10 s", rotated])
      (use sel st' in \<open>simp_all add: small_varOr_def start_search_def s_def numeral_3_eq_3\<close>)
  moreover have "fit s \<noteq> PosInf" by (simp add: s_def score_def)
  ultimately show ?thesis unfolding run_hexgen_ga_def by (intro exI [of _ "best_individual st'"] exI [of _ "replicate 10 s"]) auto
qed

lemma small_varOr_mutates: "small_varOr pop off \<Longrightarrow> length off = 10 \<and> (\<forall>o' \<in> set off. \<exists>p \<in> set pop. mutates small_hexgen p o')"
  using small_mutates by (auto simp: small_varOr_def small_split_def)

lemma small_selRandom_mem: "small_selRandom xs k ys \<Longrightarrow> set ys \<subseteq> set xs"
  by (auto simp: small_selRandom_def)

theorem run_hexgen_ga_best_witness:
  "\<exists>b seen. run_hexgen_ga small_varOr small_selRandom sorted_list_of_set small_simulate small_hexgen small_model 1 1 (Some b) seen \<and>
     validate_individual small_hexgen (ind b) = Inr True"
proof -
  obtain best seen where r: "run_hexgen_ga small_varOr small_selRandom sorted_list_of_set small_simulate small_hexgen small_model 1 1 best seen"
    and fin: "\<exists>s \<in> set seen. fit s \<noteq> PosInf" using small_run by blast
  have "h_initial small_hexgen \<noteq> []" by (simp add: small_hexgen_def set_cluster_config_def)
  have best: "(best = None \<longleftrightarrow> (\<forall>s \<in> set seen. fit s = PosInf)) \<and> (\<forall>b. best = Some b \<longrightarrow> validate_individual small_hexgen (ind b) = Inr True)"
    using run_hexgen_ga_best [OF r \<open>h_initial small_hexgen \<noteq> []\<close>] small_varOr_mutates small_selRandom_mem by blast
  then obtain b where b: "best = Some b" using fin by (cases best) auto
  then have "validate_individual small_hexgen (ind b) = Inr True" using best by blast
  with r b show ?thesis by blast
qed

end
