(* ===== verification/EventSim.thy ===== *)
theory EventSim
  imports SimWorkload Heapq
begin

text \<open>
  The event-driven simulator of \<^verbatim>\<open>ModelPlacement/hexgen/alpa_serve/simulator\<close>: the devices (\<open>cluster.py\<close>), the executables of a
  pipeline (\<open>executable.py\<close>), the controller with its group managers and the client (\<open>controller.py\<close>), and the loop that runs their
  coroutines in the order of simulated time (\<open>event_loop.py\<close>). A coroutine that waits is an entry of the priority queue with the
  point at which it resumes; the coroutines that wait for it are determined by that point. The random overheads are a parameter.
\<close>

section \<open>Devices and replicas\<close>

text \<open>\<open>MeshGroup\<close>: the shapes of the meshes, and the names of the devices of each mesh.\<close>

record mesh_group =
  mg_shapes :: "(int \<times> int) list"
  mg_meshes :: "nat list list"

record group_manager =
  gm_shape :: "int list"
  gm_launched :: "mesh_group option"
  gm_replicas :: "(string, (int, py_float list) dict) dict"

record model_info =
  mi_profile :: para_dict
  mi_group_ids :: "nat list"

record sim_controller =
  sc_models :: "(string, model_info) dict"
  sc_managers :: "(nat, group_manager) dict"
  sc_gpus :: nat

text \<open>New devices get consecutive numbers.\<close>

fun make_meshes :: "nat \<Rightarrow> (int \<times> int) list \<Rightarrow> nat list list" where
  "make_meshes n [] = []"
| "make_meshes n ((a, b) # shapes) = [n..<n + nat a * nat b] # make_meshes (n + nat a * nat b) shapes"

definition launch_mesh_group :: "(int \<times> int) list \<Rightarrow> group_manager \<Rightarrow> nat \<Rightarrow> (group_manager \<times> nat) py" where
  "launch_mesh_group shapes gm n =
     bindE (assertE (gm_launched gm = None) AssertionError) (\<lambda>_.
     bindE (assertE (prod_list (gm_shape gm) = (\<Sum>(a, b)\<leftarrow>shapes. a * b)) AssertionError) (\<lambda>_.
     Inr (gm\<lparr>gm_launched := Some \<lparr>mg_shapes = shapes, mg_meshes = make_meshes n shapes\<rparr>\<rparr>, n + (\<Sum>(a, b)\<leftarrow>shapes. nat a * nat b))))"

text \<open>\<open>Executable\<close>: its latencies by batch size, on the devices of the group.\<close>

definition executable_init :: "para_dict \<Rightarrow> parallel_config \<Rightarrow> group_manager \<Rightarrow> nat \<Rightarrow> ((int, py_float list) dict \<times> group_manager \<times> nat) py" where
  "executable_init prof c gm n =
     bindE (lookupE (dict_get prof) c) (\<lambda>d.
     let shapes = replicate (nat (pc_pp c)) (pc_dp c, pc_op c) in
     case gm_launched gm of
       Some mg \<Rightarrow> bindE (assertE (shapes = mg_shapes mg) AssertionError) (\<lambda>_. Inr (lm_latency d, gm, n))
     | None \<Rightarrow> bindE (launch_mesh_group shapes gm n) (\<lambda>(gm, n). Inr (lm_latency d, gm, n)))"

definition manager_create_replica :: "string \<Rightarrow> para_dict \<Rightarrow> parallel_config \<Rightarrow> group_manager \<Rightarrow> nat \<Rightarrow> (group_manager \<times> nat) py" where
  "manager_create_replica name prof c gm n =
     bindE (assertE (dict_get (gm_replicas gm) name = None) AssertionError) (\<lambda>_.
     bindE (executable_init prof c gm n) (\<lambda>(lat, gm, n). Inr (gm\<lparr>gm_replicas := dict_set name lat (gm_replicas gm)\<rparr>, n)))"

section \<open>Setting up the controller\<close>

definition new_controller :: sim_controller where
  "new_controller = \<lparr>sc_models = [], sc_managers = [], sc_gpus = 0\<rparr>"

definition create_mesh_group_manager :: "nat \<Rightarrow> int list \<Rightarrow> sim_controller \<Rightarrow> sim_controller py" where
  "create_mesh_group_manager g shape C =
     bindE (assertE (dict_get (sc_managers C) g = None) AssertionError) (\<lambda>_.
     Inr (C\<lparr>sc_managers := dict_set g \<lparr>gm_shape = shape, gm_launched = None, gm_replicas = []\<rparr> (sc_managers C)\<rparr>))"

definition register_model :: "string \<Rightarrow> para_dict \<Rightarrow> sim_controller \<Rightarrow> sim_controller py" where
  "register_model name prof C =
     (if dict_get (sc_models C) name \<noteq> None then Inl ValueError
      else Inr (C\<lparr>sc_models := dict_set name \<lparr>mi_profile = prof, mi_group_ids = []\<rparr> (sc_models C)\<rparr>))"

definition create_replica :: "string \<Rightarrow> nat \<Rightarrow> parallel_config \<Rightarrow> sim_controller \<Rightarrow> sim_controller py" where
  "create_replica name g c C =
     bindE (case dict_get (sc_managers C) g of None \<Rightarrow> Inl AssertionError | Some gm \<Rightarrow> Inr gm) (\<lambda>gm.
     bindE (lookupE (dict_get (sc_models C)) name) (\<lambda>m.
     bindE (assertE (g \<notin> set (mi_group_ids m)) AssertionError) (\<lambda>_.
     bindE (manager_create_replica name (mi_profile m) c gm (sc_gpus C)) (\<lambda>(gm, n).
     Inr (C\<lparr>sc_models := dict_set name (m\<lparr>mi_group_ids := mi_group_ids m @ [g]\<rparr>) (sc_models C),
       sc_managers := dict_set g gm (sc_managers C), sc_gpus := n\<rparr>)))))"

section \<open>The coroutines\<close>

text \<open>
  Where a request continues: before and after the client, the controller and the group manager wait for the
  next one, and before each stage of the executable. The last argument says whether the answer is not \<open>None\<close>.
\<close>

datatype point =
    At_client
  | At_controller
  | At_group nat
  | At_stage nat nat
  | Back_group nat
  | Back_controller nat bool
  | Back_client bool

text \<open>What changes in a group while requests are served.\<close>

record group_state =
  gs_queue_size :: int
  gs_num_total :: int
  gs_stage_clock :: "py_float list"
  gs_alpa_calls :: nat

record event_state =
  ev_queue :: "(py_float \<times> nat \<times> point) list"
  ev_clock :: py_float
  ev_streams :: "nat \<Rightarrow> py_float"
  ev_groups :: "nat \<Rightarrow> group_state"
  ev_dispatched :: nat
  ev_start :: "py_float list"
  ev_finish :: "py_float list"
  ev_good :: "bool list"

text \<open>The absolute values of normal random numbers, of which the controller and the groups reuse 2048.\<close>

record overheads =
  oh_http :: "nat \<Rightarrow> py_float"
  oh_dispatch :: "nat \<Rightarrow> py_float"
  oh_alpa :: "nat \<Rightarrow> nat \<Rightarrow> py_float"

definition group_overhead :: py_float where
  "group_overhead = 4 / 1000"

definition put_event :: "py_float \<Rightarrow> nat \<Rightarrow> point \<Rightarrow> event_state \<Rightarrow> event_state" where
  "put_event t i p s = s\<lparr>ev_queue := heappush fst (ev_queue s) (t, i, p)\<rparr>"

definition wait_stream :: "nat \<Rightarrow> py_float \<Rightarrow> nat \<Rightarrow> point \<Rightarrow> event_state \<Rightarrow> event_state py" where
  "wait_stream name duration i p s =
     bindE (assertE (0 \<le> duration) AssertionError) (\<lambda>_.
     let c = max (ev_streams s name) (ev_clock s) + duration in
     bindE (assertE (0 \<le> c - ev_clock s) AssertionError) (\<lambda>_.
     Inr (put_event (ev_clock s + (c - ev_clock s)) i p (s\<lparr>ev_streams := (ev_streams s)(name := c)\<rparr>))))"

definition upd_group :: "nat \<Rightarrow> (group_state \<Rightarrow> group_state) \<Rightarrow> event_state \<Rightarrow> event_state" where
  "upd_group g f s = s\<lparr>ev_groups := (ev_groups s)(g := f (ev_groups s g))\<rparr>"

text \<open>The first of the groups with the shortest queue.\<close>

definition select_group_id :: "(nat \<Rightarrow> int) \<Rightarrow> nat list \<Rightarrow> nat" where
  "select_group_id sizes gs = foldl (\<lambda>b g. if sizes g < sizes b then g else b) (hd gs) (tl gs)"

definition at_controller :: "overheads \<Rightarrow> sim_controller \<Rightarrow> sim_workload \<Rightarrow> nat \<Rightarrow> event_state \<Rightarrow> event_state py" where
  "at_controller oh C w i s =
     bindE (case dict_get (sc_models C) (rq_model (w_requests w ! i)) of None \<Rightarrow> Inl AssertionError | Some m \<Rightarrow> Inr m) (\<lambda>m.
     if mi_group_ids m = [] then Inr (put_event (ev_clock s) i (Back_client False) s)
     else let g = select_group_id (\<lambda>g. gs_queue_size (ev_groups s g)) (mi_group_ids m);
              s = upd_group g (\<lambda>x. x\<lparr>gs_queue_size := gs_queue_size x + 1\<rparr>) s in
          Inr (put_event (oh_dispatch oh (ev_dispatched s mod 2048) + ev_clock s) i (At_group g) (s\<lparr>ev_dispatched := ev_dispatched s + 1\<rparr>)))"

text \<open>The times at which a request would leave the stages.\<close>

fun group_walk :: "py_float \<Rightarrow> py_float list \<Rightarrow> py_float list \<Rightarrow> py_float list py" where
  "group_walk t clocks [] = Inr []"
| "group_walk t [] (l # ls) = Inl IndexError"
| "group_walk t (c # cs) (l # ls) = bindE (group_walk (max c t + l) cs ls) (\<lambda>ts. Inr ((max c t + l) # ts))"

definition replica_latency :: "group_manager \<Rightarrow> string \<Rightarrow> py_float list py" where
  "replica_latency gm name = bindE (lookupE (dict_get (gm_replicas gm)) name) (\<lambda>lat. lookupE (dict_get lat) 1)"

definition admit :: "py_float \<Rightarrow> py_float list \<Rightarrow> sim_request \<Rightarrow> nat \<Rightarrow> event_state \<Rightarrow> event_state option py" where
  "admit submit_time ls r g s =
     (case rq_slo r of None \<Rightarrow> Inr (Some s)
      | Some slo \<Rightarrow>
        bindE (group_walk (ev_clock s) (gs_stage_clock (ev_groups s g)) ls) (\<lambda>ts.
        if ts = [] then Inl IndexError
        else if submit_time + slo < List.last ts + group_overhead then Inr None
        else Inr (Some (upd_group g (\<lambda>x. x\<lparr>gs_stage_clock := ts @ drop (length ts) (gs_stage_clock x)\<rparr>) s))))"

definition at_group :: "overheads \<Rightarrow> sim_controller \<Rightarrow> sim_workload \<Rightarrow> nat \<Rightarrow> nat \<Rightarrow> event_state \<Rightarrow> event_state py" where
  "at_group oh C w i g s =
     bindE (lookupE (dict_get (sc_managers C)) g) (\<lambda>gm.
     bindE (replica_latency gm (rq_model (w_requests w ! i))) (\<lambda>ls.
     bindE (admit (ev_start s ! i) ls (w_requests w ! i) g s) (\<lambda>r.
     case r of
       None \<Rightarrow> Inr (put_event (ev_clock s) i (Back_controller g False) s)
     | Some s \<Rightarrow> Inr (put_event (oh_alpa oh g (gs_alpa_calls (ev_groups s g) mod 2048) + ev_clock s) i (At_stage g 0)
         (upd_group g (\<lambda>x. x\<lparr>gs_alpa_calls := gs_alpa_calls x + 1\<rparr>) s)))))"

definition meshes_of :: "group_manager \<Rightarrow> nat list list" where
  "meshes_of gm = (case gm_launched gm of None \<Rightarrow> [] | Some mg \<Rightarrow> mg_meshes mg)"

definition at_stage :: "sim_controller \<Rightarrow> sim_workload \<Rightarrow> nat \<Rightarrow> nat \<Rightarrow> nat \<Rightarrow> event_state \<Rightarrow> event_state py" where
  "at_stage C w i g k s =
     bindE (lookupE (dict_get (sc_managers C)) g) (\<lambda>gm.
     bindE (replica_latency gm (rq_model (w_requests w ! i))) (\<lambda>ls.
     let stages = zip (meshes_of gm) ls in
     if k < length stages
     then bindE (nthE (fst (stages ! k)) 0) (\<lambda>stream. wait_stream stream (snd (stages ! k)) i (At_stage g (k + 1)) s)
     else Inr (put_event (ev_clock s) i (Back_group g) s)))"

definition back_client :: "sim_workload \<Rightarrow> nat \<Rightarrow> bool \<Rightarrow> event_state \<Rightarrow> event_state py" where
  "back_client w i res s =
     (case rq_slo (w_requests w ! i) of None \<Rightarrow> Inl TypeError
      | Some slo \<Rightarrow> Inr (s\<lparr>ev_finish := (ev_finish s)[i := ev_clock s],
          ev_good := (ev_good s)[i := ev_clock s - ev_start s ! i \<le> slo \<and> res]\<rparr>))"

text \<open>A coroutine runs from a point until it waits again or ends.\<close>

definition resume :: "overheads \<Rightarrow> sim_controller \<Rightarrow> sim_workload \<Rightarrow> nat \<Rightarrow> point \<Rightarrow> event_state \<Rightarrow> event_state py" where
  "resume oh C w i p s =
     (case p of
        At_client \<Rightarrow> Inr (put_event (oh_http oh i + ev_clock s) i At_controller (s\<lparr>ev_start := (ev_start s)[i := ev_clock s]\<rparr>))
      | At_controller \<Rightarrow> at_controller oh C w i s
      | At_group g \<Rightarrow> at_group oh C w i g s
      | At_stage g k \<Rightarrow> at_stage C w i g k s
      | Back_group g \<Rightarrow> Inr (put_event (ev_clock s) i (Back_controller g True) s)
      | Back_controller g res \<Rightarrow> Inr (put_event (ev_clock s) i (Back_client res)
          (upd_group g (\<lambda>x. x\<lparr>gs_queue_size := gs_queue_size x - 1, gs_num_total := gs_num_total x + 1\<rparr>) s))
      | Back_client res \<Rightarrow> back_client w i res s)"

section \<open>The event loop\<close>

definition event_step :: "overheads \<Rightarrow> sim_controller \<Rightarrow> sim_workload \<Rightarrow> event_state \<Rightarrow> event_state py" where
  "event_step oh C w s =
     (case heappop fst (ev_queue s) of ((t, i, p), q) \<Rightarrow> resume oh C w i p (s\<lparr>ev_queue := q, ev_clock := t\<rparr>))"

partial_function (option) event_run :: "overheads \<Rightarrow> sim_controller \<Rightarrow> sim_workload \<Rightarrow> event_state \<Rightarrow> event_state py option" where
  [code]: "event_run oh C w s =
     (if ev_queue s = [] then Some (Inr s)
      else case event_step oh C w s of Inl e \<Rightarrow> Some (Inl e) | Inr s' \<Rightarrow> event_run oh C w s')"

definition group_start :: "sim_controller \<Rightarrow> nat \<Rightarrow> group_state" where
  "group_start C g =
     \<lparr>gs_queue_size = 0, gs_num_total = 0,
      gs_stage_clock = (case dict_get (sc_managers C) g of None \<Rightarrow> [] | Some gm \<Rightarrow> replicate (nat (prod_list (gm_shape gm))) 0),
      gs_alpa_calls = 0\<rparr>"

text \<open>\<open>submit_workload\<close>: all requests are put into the queue, then the loop runs.\<close>

definition submit_workload :: "sim_controller \<Rightarrow> sim_workload \<Rightarrow> event_state" where
  "submit_workload C w =
     (let n = length (w_arrivals w) in
      foldl (\<lambda>s i. put_event (w_arrivals w ! i) i At_client s)
        \<lparr>ev_queue = [], ev_clock = 0, ev_streams = \<lambda>_. 0, ev_groups = group_start C, ev_dispatched = 0,
         ev_start = replicate n 0, ev_finish = replicate n 0, ev_good = replicate n False\<rparr> [0..<n])"

definition run_workload :: "overheads \<Rightarrow> sim_controller \<Rightarrow> sim_workload \<Rightarrow> event_state py option" where
  "run_workload oh C w = event_run oh C w (submit_workload C w)"

section \<open>Lemmas: the controller\<close>

text \<open>A replica has a device for each stage and a clock for each device.\<close>

definition replica_ok :: "group_manager \<Rightarrow> string \<Rightarrow> py_float list \<Rightarrow> bool" where
  "replica_ok gm name ls \<longleftrightarrow> replica_latency gm name = Inr ls \<and> ls \<noteq> [] \<and> (\<forall>l \<in> set ls. 0 \<le> l) \<and>
     length ls \<le> nat (prod_list (gm_shape gm)) \<and> length ls \<le> length (meshes_of gm) \<and> (\<forall>m \<in> set (meshes_of gm). m \<noteq> [])"

definition controller_ok :: "sim_controller \<Rightarrow> bool" where
  "controller_ok C \<longleftrightarrow> (\<forall>name m. dict_get (sc_models C) name = Some m \<longrightarrow>
     (\<forall>g \<in> set (mi_group_ids m). \<exists>gm ls. dict_get (sc_managers C) g = Some gm \<and> replica_ok gm name ls))"

definition workload_ok :: "sim_controller \<Rightarrow> sim_workload \<Rightarrow> bool" where
  "workload_ok C w \<longleftrightarrow> length (w_arrivals w) = length (w_requests w) \<and> (\<forall>a \<in> set (w_arrivals w). 0 \<le> a) \<and>
     (\<forall>r \<in> set (w_requests w). rq_slo r \<noteq> None \<and> dict_get (sc_models C) (rq_model r) \<noteq> None)"

definition overheads_ok :: "overheads \<Rightarrow> bool" where
  "overheads_ok oh \<longleftrightarrow> (\<forall>i. 0 \<le> oh_http oh i) \<and> (\<forall>k. 0 \<le> oh_dispatch oh k) \<and> (\<forall>g k. 0 \<le> oh_alpa oh g k)"

text \<open>The groups of a request, and the latencies of its stages there.\<close>

definition groups_of :: "sim_controller \<Rightarrow> sim_request \<Rightarrow> nat list" where
  "groups_of C r = (case dict_get (sc_models C) (rq_model r) of None \<Rightarrow> [] | Some m \<Rightarrow> mi_group_ids m)"

definition stages_at :: "sim_controller \<Rightarrow> sim_request \<Rightarrow> nat \<Rightarrow> py_float list" where
  "stages_at C r g =
     (case dict_get (sc_managers C) g of None \<Rightarrow> []
      | Some gm \<Rightarrow> (case replica_latency gm (rq_model r) of Inl e \<Rightarrow> [] | Inr ls \<Rightarrow> ls))"

lemma group_manager_of:
  assumes "controller_ok C" "g \<in> set (groups_of C r)"
  obtains gm where "dict_get (sc_managers C) g = Some gm" "replica_ok gm (rq_model r) (stages_at C r g)"
proof -
  obtain m where m: "dict_get (sc_models C) (rq_model r) = Some m" "g \<in> set (mi_group_ids m)"
    using assms(2) by (cases "dict_get (sc_models C) (rq_model r)") (auto simp: groups_of_def)
  then obtain gm ls where gm: "dict_get (sc_managers C) g = Some gm" "replica_ok gm (rq_model r) ls"
    using assms(1) unfolding controller_ok_def by blast
  then have "stages_at C r g = ls" by (simp add: stages_at_def replica_ok_def)
  with gm show thesis using that by blast
qed

lemma select_group_id_mem: "gs \<noteq> [] \<Longrightarrow> select_group_id sizes gs \<in> set gs"
proof -
  have "foldl (\<lambda>b g. if sizes g < sizes b then g else b) b xs \<in> insert b (set xs)" for b xs
    by (induction xs arbitrary: b) auto
  then show "gs \<noteq> [] \<Longrightarrow> select_group_id sizes gs \<in> set gs" unfolding select_group_id_def by (cases gs) fastforce+
qed

lemma group_walk_ok:
  "length ls \<le> length cs \<Longrightarrow> \<exists>ts. group_walk t cs ls = Inr ts \<and> length ts = length ls \<and> (ls \<noteq> [] \<longrightarrow> t + sum_list ls \<le> List.last ts)"
proof (induction t cs ls rule: group_walk.induct)
  case (3 t c cs l ls)
  then obtain ts where ts: "group_walk (max c t + l) cs ls = Inr ts" "length ts = length ls"
    "ls \<noteq> [] \<longrightarrow> max c t + l + sum_list ls \<le> List.last ts" by auto
  then show ?case by (cases "ls = []") (auto simp: max_def split: if_splits)
qed simp_all

section \<open>Lemmas: the invariant of the loop\<close>

text \<open>A request that a group admits can answer in time.\<close>

definition in_time :: "sim_controller \<Rightarrow> sim_request \<Rightarrow> nat \<Rightarrow> bool" where
  "in_time C r g \<longleftrightarrow> g \<in> set (groups_of C r) \<and>
     (case rq_slo r of None \<Rightarrow> False | Some slo \<Rightarrow> sum_list (stages_at C r g) + group_overhead \<le> slo)"

text \<open>What holds for a waiting coroutine of a request that was started at time \<open>a\<close> and resumes at time \<open>t\<close>.\<close>

fun point_ok :: "sim_controller \<Rightarrow> sim_request \<Rightarrow> py_float \<Rightarrow> py_float \<Rightarrow> point \<Rightarrow> bool" where
  "point_ok C r a t At_client \<longleftrightarrow> t = a"
| "point_ok C r a t At_controller \<longleftrightarrow> a \<le> t"
| "point_ok C r a t (At_group g) \<longleftrightarrow> a \<le> t \<and> g \<in> set (groups_of C r)"
| "point_ok C r a t (At_stage g k) \<longleftrightarrow> in_time C r g \<and> k \<le> length (stages_at C r g) \<and> a + sum_list (take k (stages_at C r g)) \<le> t"
| "point_ok C r a t (Back_group g) \<longleftrightarrow> in_time C r g \<and> a + sum_list (stages_at C r g) \<le> t"
| "point_ok C r a t (Back_controller g res) \<longleftrightarrow> a \<le> t \<and> g \<in> set (groups_of C r) \<and>
     (res \<longrightarrow> in_time C r g \<and> a + sum_list (stages_at C r g) \<le> t)"
| "point_ok C r a t (Back_client res) \<longleftrightarrow> a \<le> t \<and> (res \<longrightarrow> (\<exists>g. in_time C r g \<and> a + sum_list (stages_at C r g) \<le> t))"

definition entry_ok :: "sim_controller \<Rightarrow> sim_workload \<Rightarrow> event_state \<Rightarrow> py_float \<times> nat \<times> point \<Rightarrow> bool" where
  "entry_ok C w s e = (case e of (t, i, p) \<Rightarrow>
     i < length (w_requests w) \<and> ev_clock s \<le> t \<and> point_ok C (w_requests w ! i) (w_arrivals w ! i) t p \<and>
     (p \<noteq> At_client \<longrightarrow> ev_start s ! i = w_arrivals w ! i))"

definition answered_ok :: "sim_controller \<Rightarrow> sim_workload \<Rightarrow> event_state \<Rightarrow> nat \<Rightarrow> bool" where
  "answered_ok C w s i \<longleftrightarrow> ev_start s ! i = w_arrivals w ! i \<and> ev_start s ! i \<le> ev_finish s ! i \<and>
     (ev_good s ! i \<longrightarrow> (\<exists>slo. rq_slo (w_requests w ! i) = Some slo \<and> ev_finish s ! i - ev_start s ! i \<le> slo) \<and>
       (\<exists>g. in_time C (w_requests w ! i) g \<and> ev_start s ! i + sum_list (stages_at C (w_requests w ! i) g) \<le> ev_finish s ! i))"

lemma answered_ok_cong:
  "ev_start u ! j = ev_start s ! j \<Longrightarrow> ev_finish u ! j = ev_finish s ! j \<Longrightarrow> ev_good u ! j = ev_good s ! j \<Longrightarrow>
     answered_ok C w u j = answered_ok C w s j"
  unfolding answered_ok_def by simp

abbreviation waiting :: "event_state \<Rightarrow> nat list" where
  "waiting s \<equiv> map (fst \<circ> snd) (ev_queue s)"

text \<open>A group has a clock for each of its devices.\<close>

definition clocks_fit :: "sim_controller \<Rightarrow> event_state \<Rightarrow> bool" where
  "clocks_fit C s \<longleftrightarrow> (\<forall>g gm. dict_get (sc_managers C) g = Some gm \<longrightarrow> length (gs_stage_clock (ev_groups s g)) = nat (prod_list (gm_shape gm)))"

text \<open>The invariant; a request that is just running is left out by its number.\<close>

definition loop_inv :: "sim_controller \<Rightarrow> sim_workload \<Rightarrow> nat option \<Rightarrow> event_state \<Rightarrow> bool" where
  "loop_inv C w running s \<longleftrightarrow> is_heap fst (ev_queue s) \<and> distinct (waiting s) \<and> (\<forall>i \<in> set_option running. i \<notin> set (waiting s)) \<and>
     length (ev_start s) = length (w_requests w) \<and> length (ev_finish s) = length (w_requests w) \<and> length (ev_good s) = length (w_requests w) \<and>
     (\<forall>e \<in> set (ev_queue s). entry_ok C w s e) \<and>
     (\<forall>i < length (w_requests w). i \<notin> set (waiting s) \<longrightarrow> running \<noteq> Some i \<longrightarrow> answered_ok C w s i) \<and>
     clocks_fit C s"

lemma put_event_simps [simp]:
  "ev_clock (put_event t i p s) = ev_clock s" "ev_start (put_event t i p s) = ev_start s" "ev_finish (put_event t i p s) = ev_finish s"
  "ev_good (put_event t i p s) = ev_good s" "ev_groups (put_event t i p s) = ev_groups s"
  "ev_queue (put_event t i p s) = heappush fst (ev_queue s) (t, i, p)"
  "entry_ok C w (put_event t i p s) = entry_ok C w s" "answered_ok C w (put_event t i p s) = answered_ok C w s"
  "clocks_fit C (put_event t i p s) = clocks_fit C s"
  by (simp_all add: put_event_def entry_ok_def answered_ok_def clocks_fit_def fun_eq_iff)

lemma set_heappush [simp]: "set (heappush key xs x) = insert x (set xs)"
  by (metis mset_heappush set_mset_add_mset_insert set_mset_mset)

lemma distinct_heappush: "distinct (map f (heappush key xs x)) \<longleftrightarrow> f x \<notin> f ` set xs \<and> distinct (map f xs)"
proof -
  have "mset (map f (heappush key xs x)) = mset (map f (x # xs))" by simp
  then have "distinct (map f (heappush key xs x)) \<longleftrightarrow> distinct (map f (x # xs))" by (rule mset_eq_imp_distinct_iff)
  then show ?thesis by simp
qed

text \<open>A request that runs is put into the queue again, or is answered.\<close>

lemma loop_inv_put:
  assumes "loop_inv C w (Some i) s" "s' = put_event t i p u" "entry_ok C w u (t, i, p)" "ev_queue u = ev_queue s" "ev_clock u = ev_clock s"
    "ev_finish u = ev_finish s" "ev_good u = ev_good s" "ev_start u = (ev_start s)[i := w_arrivals w ! i] \<or> ev_start u = ev_start s"
    "clocks_fit C u"
  shows "loop_inv C w None s'"
proof -
  have start: "ev_start u ! j = ev_start s ! j" if "j \<noteq> i" for j using assms(8) that by auto
  have "entry_ok C w u e" if "e \<in> set (ev_queue s)" for e
  proof -
    obtain t' j p' where e: "e = (t', j, p')" by (rule prod_cases3)
    have "j \<noteq> i" using assms(1) that by (force simp: loop_inv_def e)
    moreover have "entry_ok C w s e" using assms(1) that by (simp add: loop_inv_def)
    ultimately show ?thesis using start assms(5) by (simp add: entry_ok_def e)
  qed
  moreover have "answered_ok C w u j" if "j < length (w_requests w)" "j \<notin> set (waiting s)" "j \<noteq> i" for j
  proof -
    have "answered_ok C w s j" using assms(1) that unfolding loop_inv_def by blast
    then show ?thesis using answered_ok_cong [of u j s C w] start [OF that(3)] assms(6,7) by simp
  qed
  moreover have "length (ev_start u) = length (ev_start s)" using assms(8) by auto
  ultimately show ?thesis
    using assms(1,3-7,9) unfolding assms(2) loop_inv_def
    by (auto simp: heappush_heap distinct_heappush)
qed

text \<open>A bound on the steps that are left, the group that counts the request as queued, and the group that answers it.\<close>

fun steps_left :: "nat \<Rightarrow> point \<Rightarrow> nat" where
  "steps_left n At_client = n + 7"
| "steps_left n At_controller = n + 6"
| "steps_left n (At_group g) = n + 5"
| "steps_left n (At_stage g k) = n - k + 4"
| "steps_left n (Back_group g) = 3"
| "steps_left n (Back_controller g res) = 2"
| "steps_left n (Back_client res) = 1"

fun occupies :: "point \<Rightarrow> nat \<Rightarrow> int" where
  "occupies (At_group h) g = of_bool (g = h)"
| "occupies (At_stage h k) g = of_bool (g = h)"
| "occupies (Back_group h) g = of_bool (g = h)"
| "occupies (Back_controller h res) g = of_bool (g = h)"
| "occupies _ g = 0"

fun leaves :: "point \<Rightarrow> nat \<Rightarrow> int" where
  "leaves (Back_controller h res) g = of_bool (g = h)"
| "leaves _ g = 0"

definition counted :: "point \<Rightarrow> (nat \<Rightarrow> int) \<Rightarrow> event_state \<Rightarrow> event_state \<Rightarrow> bool" where
  "counted p occ s u \<longleftrightarrow> (\<forall>g. gs_queue_size (ev_groups u g) = gs_queue_size (ev_groups s g) + occ g - occupies p g \<and>
     gs_num_total (ev_groups u g) = gs_num_total (ev_groups s g) + leaves p g)"

text \<open>The results of a step: the request waits at another point, or it is answered.\<close>

definition proceeds :: "sim_controller \<Rightarrow> sim_workload \<Rightarrow> nat \<Rightarrow> nat \<Rightarrow> point \<Rightarrow> event_state \<Rightarrow> event_state \<Rightarrow> bool" where
  "proceeds C w n i p s s' \<longleftrightarrow> (\<exists>t p' u. s' = put_event t i p' u \<and> ev_queue u = ev_queue s \<and> ev_clock u = ev_clock s \<and> entry_ok C w u (t, i, p') \<and>
     ev_finish u = ev_finish s \<and> ev_good u = ev_good s \<and> (ev_start u = (ev_start s)[i := w_arrivals w ! i] \<or> ev_start u = ev_start s) \<and>
     clocks_fit C u \<and> steps_left n p' < steps_left n p \<and> counted p (occupies p') s u \<and>
     (\<forall>res. p' = Back_client res \<longrightarrow> p = At_controller \<and> groups_of C (w_requests w ! i) = [] \<or>
        (\<exists>g res. p = Back_controller g res \<and> g \<in> set (groups_of C (w_requests w ! i)))))"

lemma proceedsI:
  assumes "ev_queue u = ev_queue s" "ev_clock u = ev_clock s" "entry_ok C w u (t, i, p')" "ev_finish u = ev_finish s" "ev_good u = ev_good s"
    "ev_start u = (ev_start s)[i := w_arrivals w ! i] \<or> ev_start u = ev_start s" "clocks_fit C u" "steps_left n p' < steps_left n p"
    "counted p (occupies p') s u"
    "\<And>res. p' = Back_client res \<Longrightarrow> p = At_controller \<and> groups_of C (w_requests w ! i) = [] \<or>
        (\<exists>g res. p = Back_controller g res \<and> g \<in> set (groups_of C (w_requests w ! i)))"
  shows "proceeds C w n i p s (put_event t i p' u)"
  unfolding proceeds_def using assms by blast

lemma upd_group_simps [simp]:
  "ev_queue (upd_group g f s) = ev_queue s" "ev_clock (upd_group g f s) = ev_clock s" "ev_start (upd_group g f s) = ev_start s"
  "ev_finish (upd_group g f s) = ev_finish s" "ev_good (upd_group g f s) = ev_good s" "ev_streams (upd_group g f s) = ev_streams s"
  "ev_dispatched (upd_group g f s) = ev_dispatched s" "ev_groups (upd_group g f s) h = (if h = g then f (ev_groups s g) else ev_groups s h)"
  by (simp_all add: upd_group_def)

lemma at_controller_proceeds:
  assumes "workload_ok C w" "overheads_ok oh" "clocks_fit C s" "entry_ok C w s (ev_clock s, i, At_controller)"
  shows "\<exists>s'. at_controller oh C w i s = Inr s' \<and> proceeds C w n i At_controller s s'"
proof -
  let ?r = "w_requests w ! i"
  have i: "i < length (w_requests w)" "w_arrivals w ! i \<le> ev_clock s" "ev_start s ! i = w_arrivals w ! i" using assms(4) by (simp_all add: entry_ok_def)
  then obtain m where m: "dict_get (sc_models C) (rq_model ?r) = Some m" using assms(1) by (force simp: workload_ok_def)
  then have groups: "groups_of C ?r = mi_group_ids m" by (simp add: groups_of_def)
  show ?thesis
  proof (cases "mi_group_ids m = []")
    case True
    then have "at_controller oh C w i s = Inr (put_event (ev_clock s) i (Back_client False) s)" using m by (simp add: at_controller_def)
    moreover have "proceeds C w n i At_controller s (put_event (ev_clock s) i (Back_client False) s)"
      by (rule proceedsI) (use i True assms(3) in \<open>simp_all add: entry_ok_def counted_def groups\<close>)
    ultimately show ?thesis by blast
  next
    case False
    let ?g = "select_group_id (\<lambda>g. gs_queue_size (ev_groups s g)) (mi_group_ids m)"
    let ?u = "upd_group ?g (\<lambda>x. x\<lparr>gs_queue_size := gs_queue_size x + 1\<rparr>) s"
    let ?t = "oh_dispatch oh (ev_dispatched s mod 2048) + ev_clock s"
    let ?v = "?u\<lparr>ev_dispatched := ev_dispatched s + 1\<rparr>"
    have step: "at_controller oh C w i s = Inr (put_event ?t i (At_group ?g) ?v)" using m False by (simp add: at_controller_def Let_def)
    have "?g \<in> set (groups_of C ?r)" unfolding groups using False by (rule select_group_id_mem)
    moreover have "0 \<le> oh_dispatch oh (ev_dispatched s mod 2048)" using assms(2) by (simp add: overheads_ok_def)
    ultimately have "proceeds C w n i At_controller s (put_event ?t i (At_group ?g) ?v)"
      by (intro proceedsI) (use i assms(3) in \<open>simp_all add: entry_ok_def counted_def clocks_fit_def\<close>)
    with step show ?thesis by blast
  qed
qed

lemma at_group_proceeds:
  assumes "controller_ok C" "workload_ok C w" "overheads_ok oh" "clocks_fit C s" "entry_ok C w s (ev_clock s, i, At_group g)"
    "\<And>gm. gm \<in> set (map snd (sc_managers C)) \<Longrightarrow> length (meshes_of gm) \<le> n"
  shows "\<exists>s'. at_group oh C w i g s = Inr s' \<and> proceeds C w n i (At_group g) s s'"
proof -
  let ?r = "w_requests w ! i"
  let ?ls = "stages_at C ?r g"
  have i: "i < length (w_requests w)" "w_arrivals w ! i \<le> ev_clock s" "g \<in> set (groups_of C ?r)" "ev_start s ! i = w_arrivals w ! i"
    using assms(5) by (simp_all add: entry_ok_def)
  obtain gm where gm: "dict_get (sc_managers C) g = Some gm" "replica_ok gm (rq_model ?r) ?ls" by (rule group_manager_of [OF assms(1) i(3)])
  obtain slo where slo: "rq_slo ?r = Some slo" using assms(2) i(1) by (force simp: workload_ok_def)
  let ?clocks = "gs_stage_clock (ev_groups s g)"
  have ls: "replica_latency gm (rq_model ?r) = Inr ?ls" "?ls \<noteq> []" "length ?ls \<le> length ?clocks"
    using gm assms(4) by (simp_all add: replica_ok_def clocks_fit_def)
  obtain ts where ts: "group_walk (ev_clock s) ?clocks ?ls = Inr ts" "length ts = length ?ls" "ev_clock s + sum_list ?ls \<le> List.last ts"
    using group_walk_ok [OF ls(3)] ls(2) by blast
  have nonempty: "ts \<noteq> []" using ts(2) ls(2) by auto
  show ?thesis
  proof (cases "ev_start s ! i + slo < List.last ts + group_overhead")
    case True
    then have "at_group oh C w i g s = Inr (put_event (ev_clock s) i (Back_controller g False) s)"
      using gm(1) ls(1) ts(1) nonempty slo by (simp add: at_group_def admit_def lookupE_def)
    moreover have "proceeds C w n i (At_group g) s (put_event (ev_clock s) i (Back_controller g False) s)"
      by (rule proceedsI) (use i assms(4) in \<open>simp_all add: entry_ok_def counted_def\<close>)
    ultimately show ?thesis by blast
  next
    case False
    let ?u = "upd_group g (\<lambda>x. x\<lparr>gs_stage_clock := ts @ drop (length ts) (gs_stage_clock x)\<rparr>) s"
    let ?v = "upd_group g (\<lambda>x. x\<lparr>gs_alpa_calls := gs_alpa_calls x + 1\<rparr>) ?u"
    let ?t = "oh_alpa oh g (gs_alpa_calls (ev_groups s g) mod 2048) + ev_clock s"
    have step: "at_group oh C w i g s = Inr (put_event ?t i (At_stage g 0) ?v)"
      using gm(1) ls(1) ts(1) nonempty slo False by (simp add: at_group_def admit_def lookupE_def)
    have "0 \<le> oh_alpa oh g (gs_alpa_calls (ev_groups s g) mod 2048)" using assms(3) by (simp add: overheads_ok_def)
    moreover have "in_time C ?r g" using i ts(3) slo False by (simp add: in_time_def)
    moreover have "length (ts @ drop (length ts) ?clocks) = length ?clocks" using ts(2) ls(3) by simp
    ultimately have "proceeds C w n i (At_group g) s (put_event ?t i (At_stage g 0) ?v)"
      by (intro proceedsI) (use i assms(4) in \<open>auto simp: entry_ok_def counted_def clocks_fit_def\<close>)
    with step show ?thesis by blast
  qed
qed

lemma sum_take_Suc: "k < length xs \<Longrightarrow> sum_list (take (Suc k) xs) = sum_list (take k xs) + (xs ! k :: 'a :: comm_monoid_add)"
  by (simp add: take_Suc_conv_app_nth ac_simps)

lemma at_stage_proceeds:
  assumes "controller_ok C" "clocks_fit C s" "entry_ok C w s (ev_clock s, i, At_stage g k)"
    "\<And>gm. gm \<in> set (map snd (sc_managers C)) \<Longrightarrow> length (meshes_of gm) \<le> n"
  shows "\<exists>s'. at_stage C w i g k s = Inr s' \<and> proceeds C w n i (At_stage g k) s s'"
proof -
  let ?r = "w_requests w ! i"
  let ?ls = "stages_at C ?r g"
  have i: "i < length (w_requests w)" "in_time C ?r g" "k \<le> length ?ls" "w_arrivals w ! i + sum_list (take k ?ls) \<le> ev_clock s"
    "ev_start s ! i = w_arrivals w ! i" using assms(3) by (simp_all add: entry_ok_def)
  have g: "g \<in> set (groups_of C ?r)" using i(2) by (simp add: in_time_def)
  obtain gm where gm: "dict_get (sc_managers C) g = Some gm" "replica_ok gm (rq_model ?r) ?ls" by (rule group_manager_of [OF assms(1) g])
  have ls: "replica_latency gm (rq_model ?r) = Inr ?ls" "length ?ls \<le> length (meshes_of gm)" "\<forall>m \<in> set (meshes_of gm). m \<noteq> []" "\<forall>l \<in> set ?ls. 0 \<le> l"
    using gm by (simp_all add: replica_ok_def)
  have "gm \<in> set (map snd (sc_managers C))" using map_of_SomeD [OF gm(1)] by force
  then have n: "length ?ls \<le> n" using assms(4) ls(2) by fastforce
  show ?thesis
  proof (cases "k < length ?ls")
    case True
    obtain dev devs where dev: "meshes_of gm ! k = dev # devs" using ls(2,3) True by (metis neq_Nil_conv nth_mem order_less_le_trans)
    have l: "0 \<le> ?ls ! k" using ls(4) True by simp
    let ?c = "max (ev_streams s dev) (ev_clock s) + ?ls ! k"
    let ?v = "s\<lparr>ev_streams := (ev_streams s)(dev := ?c)\<rparr>"
    have "0 \<le> ?c - ev_clock s" using l by (simp add: max_def)
    then have step: "at_stage C w i g k s = Inr (put_event ?c i (At_stage g (k + 1)) ?v)"
      using gm(1) ls(1,2) True dev l by (simp add: at_stage_def lookupE_def nthE_def wait_stream_def Let_def)
    have "w_arrivals w ! i + sum_list (take (k + 1) ?ls) \<le> ?c" using i(4) sum_take_Suc [OF True] by (simp add: max_def)
    moreover have "ev_clock s \<le> ?c" using l by (simp add: max_def)
    ultimately have "proceeds C w n i (At_stage g k) s (put_event ?c i (At_stage g (k + 1)) ?v)"
      by (intro proceedsI) (use i assms(2) True n in \<open>simp_all add: entry_ok_def counted_def clocks_fit_def\<close>)
    with step show ?thesis by blast
  next
    case False
    then have t: "w_arrivals w ! i + sum_list ?ls \<le> ev_clock s" using i(3,4) by simp
    have step: "at_stage C w i g k s = Inr (put_event (ev_clock s) i (Back_group g) s)"
      using gm(1) ls(1,2) False by (simp add: at_stage_def lookupE_def)
    moreover have "proceeds C w n i (At_stage g k) s (put_event (ev_clock s) i (Back_group g) s)"
      by (rule proceedsI) (use i(1,2,5) t assms(2) in \<open>simp_all add: entry_ok_def counted_def\<close>)
    ultimately show ?thesis by blast
  qed
qed

definition finishes :: "sim_controller \<Rightarrow> sim_workload \<Rightarrow> nat \<Rightarrow> point \<Rightarrow> event_state \<Rightarrow> event_state \<Rightarrow> bool" where
  "finishes C w i p s s' \<longleftrightarrow> (\<exists>res. p = Back_client res) \<and> ev_queue s' = ev_queue s \<and> ev_groups s' = ev_groups s \<and> loop_inv C w None s'"

lemma back_client_finishes:
  assumes "workload_ok C w" "loop_inv C w (Some i) s" "entry_ok C w s (ev_clock s, i, Back_client res)"
  shows "\<exists>s'. back_client w i res s = Inr s' \<and> finishes C w i (Back_client res) s s'"
proof -
  let ?r = "w_requests w ! i"
  have i: "i < length (w_requests w)" "ev_start s ! i = w_arrivals w ! i" "w_arrivals w ! i \<le> ev_clock s"
    "res \<longrightarrow> (\<exists>g. in_time C ?r g \<and> w_arrivals w ! i + sum_list (stages_at C ?r g) \<le> ev_clock s)"
    using assms(3) by (auto simp: entry_ok_def)
  obtain slo where slo: "rq_slo ?r = Some slo" using assms(1) i(1) by (force simp: workload_ok_def)
  define s' where "s' = s\<lparr>ev_finish := (ev_finish s)[i := ev_clock s], ev_good := (ev_good s)[i := ev_clock s - ev_start s ! i \<le> slo \<and> res]\<rparr>"
  have lens: "length (ev_finish s) = length (w_requests w)" "length (ev_good s) = length (w_requests w)" using assms(2) by (simp_all add: loop_inv_def)
  have fields: "ev_queue s' = ev_queue s" "ev_start s' = ev_start s" "ev_clock s' = ev_clock s" "ev_groups s' = ev_groups s" by (simp_all add: s'_def)
  have this_one: "answered_ok C w s' i" using i slo lens by (auto simp: answered_ok_def s'_def)
  have "answered_ok C w s' j" if "j < length (w_requests w)" "j \<notin> set (waiting s)" "j \<noteq> i" for j
  proof -
    have "answered_ok C w s j" using assms(2) that unfolding loop_inv_def by blast
    moreover have "ev_start s' ! j = ev_start s ! j" "ev_finish s' ! j = ev_finish s ! j" "ev_good s' ! j = ev_good s ! j"
      using that(3) by (simp_all add: s'_def)
    ultimately show ?thesis using answered_ok_cong [of s' j s C w] by blast
  qed
  with this_one have "answered_ok C w s' j" if "j < length (w_requests w)" "j \<notin> set (waiting s)" for j using that by (cases "j = i") auto
  moreover have "entry_ok C w s' e" if "e \<in> set (ev_queue s)" for e
  proof -
    have "entry_ok C w s e" using assms(2) that by (simp add: loop_inv_def)
    then show ?thesis unfolding entry_ok_def fields .
  qed
  moreover have "length (ev_finish s') = length (w_requests w)" "length (ev_good s') = length (w_requests w)" using lens by (simp_all add: s'_def)
  moreover have "is_heap fst (ev_queue s)" "distinct (waiting s)" "length (ev_start s) = length (w_requests w)" "clocks_fit C s'"
    using assms(2) by (simp_all add: loop_inv_def clocks_fit_def fields)
  ultimately have "loop_inv C w None s'" unfolding loop_inv_def fields by simp
  then have "finishes C w i (Back_client res) s s'" using fields by (simp add: finishes_def)
  moreover have "back_client w i res s = Inr s'" using slo by (simp add: back_client_def s'_def)
  ultimately show ?thesis by blast
qed

lemma resume_ok:
  assumes "controller_ok C" "workload_ok C w" "overheads_ok oh" "loop_inv C w (Some i) s" "entry_ok C w s (ev_clock s, i, p)"
    "\<And>gm. gm \<in> set (map snd (sc_managers C)) \<Longrightarrow> length (meshes_of gm) \<le> n"
  shows "\<exists>s'. resume oh C w i p s = Inr s' \<and> (proceeds C w n i p s s' \<or> finishes C w i p s s')"
proof -
  have fit: "clocks_fit C s" using assms(4) by (simp add: loop_inv_def)
  show ?thesis
  proof (cases p)
    case At_client
    let ?u = "s\<lparr>ev_start := (ev_start s)[i := ev_clock s]\<rparr>"
    have i: "i < length (w_requests w)" "ev_clock s = w_arrivals w ! i" "length (ev_start s) = length (w_requests w)"
      using assms(4,5) by (simp_all add: entry_ok_def loop_inv_def At_client)
    have "0 \<le> oh_http oh i" using assms(3) by (simp add: overheads_ok_def)
    then have "proceeds C w n i At_client s (put_event (oh_http oh i + ev_clock s) i At_controller ?u)"
      by (intro proceedsI) (use i fit in \<open>simp_all add: entry_ok_def counted_def clocks_fit_def\<close>)
    then show ?thesis by (simp add: resume_def At_client)
  next
    case At_controller
    with at_controller_proceeds [OF assms(2,3) fit] assms(5) show ?thesis by (fastforce simp: resume_def)
  next
    case (At_group g)
    with at_group_proceeds [OF assms(1-3) fit, of i g n] assms(5,6) show ?thesis by (fastforce simp: resume_def)
  next
    case (At_stage g k)
    with at_stage_proceeds [OF assms(1) fit, of w i g k n] assms(5,6) show ?thesis by (fastforce simp: resume_def)
  next
    case (Back_group g)
    have g: "in_time C (w_requests w ! i) g" "g \<in> set (groups_of C (w_requests w ! i))"
      using assms(5) by (simp_all add: entry_ok_def Back_group in_time_def)
    obtain gm where "replica_ok gm (rq_model (w_requests w ! i)) (stages_at C (w_requests w ! i) g)" by (rule group_manager_of [OF assms(1) g(2)])
    then have "0 \<le> sum_list (stages_at C (w_requests w ! i) g)" by (auto simp: replica_ok_def intro: sum_list_nonneg)
    then have "proceeds C w n i (Back_group g) s (put_event (ev_clock s) i (Back_controller g True) s)"
      by (intro proceedsI) (use assms(5) fit g in \<open>simp_all add: Back_group entry_ok_def counted_def\<close>)
    then show ?thesis by (simp add: resume_def Back_group)
  next
    case (Back_controller g res)
    let ?u = "upd_group g (\<lambda>x. x\<lparr>gs_queue_size := gs_queue_size x - 1, gs_num_total := gs_num_total x + 1\<rparr>) s"
    have "proceeds C w n i (Back_controller g res) s (put_event (ev_clock s) i (Back_client res) ?u)"
      by (rule proceedsI) (use assms(5) fit in \<open>auto simp: Back_controller entry_ok_def counted_def clocks_fit_def\<close>)
    then show ?thesis by (simp add: resume_def Back_controller)
  next
    case (Back_client res)
    with back_client_finishes [OF assms(2,4)] assms(5) show ?thesis by (fastforce simp: resume_def)
  qed
qed

section \<open>Lemmas: counters and the end of the loop\<close>

text \<open>A request that some group will answer.\<close>

definition unanswered :: "sim_controller \<Rightarrow> sim_workload \<Rightarrow> py_float \<times> nat \<times> point \<Rightarrow> bool" where
  "unanswered C w e = (case e of (t, i, p) \<Rightarrow> groups_of C (w_requests w ! i) \<noteq> [] \<and> (case p of Back_client res \<Rightarrow> False | _ \<Rightarrow> True))"

text \<open>The length of every queue is the number of requests in the group; each request that has a group is answered once.\<close>

definition counts_ok :: "sim_controller \<Rightarrow> sim_workload \<Rightarrow> (py_float \<times> nat \<times> point) multiset \<Rightarrow> event_state \<Rightarrow> bool" where
  "counts_ok C w running s \<longleftrightarrow>
     (\<forall>g. gs_queue_size (ev_groups s g) = (\<Sum>e\<in>#mset (ev_queue s) + running. occupies (snd (snd e)) g)) \<and>
     (\<Sum>g\<in>set (dict_keys (sc_managers C)). gs_num_total (ev_groups s g)) + int (size (filter_mset (unanswered C w) (mset (ev_queue s) + running))) =
       int (length (filter (\<lambda>r. groups_of C r \<noteq> []) (w_requests w)))"

lemma counts_proceeds:
  assumes "controller_ok C" "counts_ok C w {#(t, i, p)#} s" "proceeds C w n i p s s'"
  shows "counts_ok C w {#} s'"
proof -
  obtain t' p' u where u: "s' = put_event t' i p' u" "ev_queue u = ev_queue s" "steps_left n p' < steps_left n p" "counted p (occupies p') s u"
    "\<forall>res. p' = Back_client res \<longrightarrow> p = At_controller \<and> groups_of C (w_requests w ! i) = [] \<or>
        (\<exists>g res. p = Back_controller g res \<and> g \<in> set (groups_of C (w_requests w ! i)))"
    using assms(3) unfolding proceeds_def by blast
  have groups: "gs_queue_size (ev_groups s' g) = gs_queue_size (ev_groups s g) + occupies p' g - occupies p g"
    "gs_num_total (ev_groups s' g) = gs_num_total (ev_groups s g) + leaves p g" for g
    using u(4) by (simp_all add: u(1) counted_def)
  have old: "gs_queue_size (ev_groups s g) = (\<Sum>e\<in>#mset (ev_queue s). occupies (snd (snd e)) g) + occupies p g" for g
    using assms(2) by (simp add: counts_ok_def)
  have balance: "(\<Sum>g\<in>set (dict_keys (sc_managers C)). leaves p g) + of_bool (unanswered C w (t', i, p')) = of_bool (unanswered C w (t, i, p))"
  proof (cases "\<exists>h res. p = Back_controller h res")
    case True
    then obtain h res where p: "p = Back_controller h res" by blast
    obtain res' where p': "p' = Back_client res'" using u(3) by (cases p') (simp_all add: p)
    then have h: "h \<in> set (groups_of C (w_requests w ! i))" using u(5) p by auto
    obtain gm where "dict_get (sc_managers C) h = Some gm" by (rule group_manager_of [OF assms(1) h])
    then have "h \<in> set (dict_keys (sc_managers C))" by (force dest: map_of_SomeD)
    then show ?thesis using h by (auto simp: p p' unanswered_def)
  next
    case False
    have "\<not> (\<exists>res. p = Back_client res)" using u(3) by (cases p') auto
    then have "unanswered C w (t', i, p') = unanswered C w (t, i, p)" using u(5) False by (auto simp: unanswered_def split: point.splits)
    moreover have "leaves p g = 0" for g using False by (cases p) auto
    ultimately show ?thesis by simp
  qed
  have "(\<Sum>g\<in>set (dict_keys (sc_managers C)). gs_num_total (ev_groups s' g)) =
      (\<Sum>g\<in>set (dict_keys (sc_managers C)). gs_num_total (ev_groups s g)) + (\<Sum>g\<in>set (dict_keys (sc_managers C)). leaves p g)"
    by (simp add: groups sum.distrib)
  moreover have "int (size (filter_mset (unanswered C w) (add_mset e M))) = int (size (filter_mset (unanswered C w) M)) + of_bool (unanswered C w e)" for e M
    by simp
  ultimately have "(\<Sum>g\<in>set (dict_keys (sc_managers C)). gs_num_total (ev_groups s' g)) +
      int (size (filter_mset (unanswered C w) (mset (ev_queue s') + {#}))) = int (length (filter (\<lambda>r. groups_of C r \<noteq> []) (w_requests w)))"
    using balance assms(2) by (simp only: counts_ok_def u(1,2) put_event_simps mset_heappush add_mset_add_single [symmetric] add_0_right) simp
  moreover have "gs_queue_size (ev_groups s' g) = (\<Sum>e\<in>#mset (ev_queue s') + {#}. occupies (snd (snd e)) g)" for g
    unfolding groups old by (simp add: u(1,2))
  ultimately show ?thesis unfolding counts_ok_def by blast
qed

lemma counts_finishes: "counts_ok C w {#(t, i, p)#} s \<Longrightarrow> finishes C w i p s s' \<Longrightarrow> counts_ok C w {#} s'"
  by (auto simp: counts_ok_def finishes_def unanswered_def)

definition steps_bound :: "nat \<Rightarrow> event_state \<Rightarrow> nat" where
  "steps_bound n s = (\<Sum>e\<in>#mset (ev_queue s). steps_left n (snd (snd e)))"

lemma event_step_ok:
  assumes "controller_ok C" "workload_ok C w" "overheads_ok oh" "loop_inv C w None s" "counts_ok C w {#} s" "ev_queue s \<noteq> []"
    "\<And>gm. gm \<in> set (map snd (sc_managers C)) \<Longrightarrow> length (meshes_of gm) \<le> n"
  shows "\<exists>s'. event_step oh C w s = Inr s' \<and> loop_inv C w None s' \<and> counts_ok C w {#} s' \<and> steps_bound n s' < steps_bound n s"
proof -
  obtain t i p q where pop: "heappop fst (ev_queue s) = ((t, i, p), q)" by (metis prod.collapse)
  note root = heappop_root [OF assms(6) pop]
  let ?s = "s\<lparr>ev_queue := q, ev_clock := t\<rparr>"
  have heap: "is_heap fst (ev_queue s)" and dist: "distinct (waiting s)" using assms(4) by (simp_all add: loop_inv_def)
  have qset: "set (ev_queue s) = insert (t, i, p) (set q)" using arg_cong [OF root(2), of set_mset] by simp
  have "mset (waiting s) = add_mset i (mset (map (fst \<circ> snd) q))" using root(2) by simp
  then have dq: "distinct (map (fst \<circ> snd) q)" "i \<notin> set (map (fst \<circ> snd) q)" "set (waiting s) = insert i (set (map (fst \<circ> snd) q))"
    using dist by (metis distinct.simps(2) mset.simps(2) mset_eq_imp_distinct_iff, metis dist distinct.simps(2) mset.simps(2) mset_eq_imp_distinct_iff,
      metis list.simps(15) mset.simps(2) mset_eq_setD)
  have least: "t \<le> fst e" if "e \<in> set q" for e using heappop_least [OF heap assms(6) pop, of e] that qset by simp
  have entries: "entry_ok C w s e" if "e \<in> set (ev_queue s)" for e using assms(4) that by (simp add: loop_inv_def)
  have "entry_ok C w ?s e" if "e \<in> set q" for e using entries [of e] least [OF that] that qset by (auto simp: entry_ok_def split: prod.splits)
  moreover have "answered_ok C w ?s j = answered_ok C w s j" for j by (simp add: answered_ok_def)
  ultimately have inv: "loop_inv C w (Some i) ?s"
    using assms(4) heappop_heap [OF heap pop] dq unfolding loop_inv_def by (auto simp: clocks_fit_def)
  have entry: "entry_ok C w ?s (ev_clock ?s, i, p)" using entries [of "(t, i, p)"] qset by (auto simp: entry_ok_def)
  have counts: "counts_ok C w {#(t, i, p)#} ?s" using assms(5) root(2) by (simp add: counts_ok_def)
  obtain s' where s': "resume oh C w i p ?s = Inr s'" "proceeds C w n i p ?s s' \<or> finishes C w i p ?s s'"
    using resume_ok [OF assms(1-3) inv entry assms(7)] by blast
  have bound: "steps_bound n s = steps_bound n ?s + steps_left n p" by (simp add: steps_bound_def root(2))
  from s'(2) have "loop_inv C w None s' \<and> counts_ok C w {#} s' \<and> steps_bound n s' < steps_bound n s"
  proof
    assume pr: "proceeds C w n i p ?s s'"
    then obtain t' p' u where u: "s' = put_event t' i p' u" "ev_queue u = q" "steps_left n p' < steps_left n p"
      unfolding proceeds_def by auto
    have "loop_inv C w None s'" using pr unfolding proceeds_def by (elim exE conjE) (rule loop_inv_put [OF inv])
    moreover have "steps_bound n s' < steps_bound n s" using u by (simp add: bound) (simp add: steps_bound_def)
    ultimately show ?thesis using counts_proceeds [OF assms(1) counts pr] by blast
  next
    assume fin: "finishes C w i p ?s s'"
    then have "loop_inv C w None s'" "ev_queue s' = q" "0 < steps_left n p" by (auto simp: finishes_def)
    moreover from this have "steps_bound n s' = steps_bound n ?s" by (simp add: steps_bound_def)
    ultimately show ?thesis using counts_finishes [OF counts fin] bound by simp
  qed
  then show ?thesis using s'(1) pop by (simp add: event_step_def)
qed

lemma event_run_ok:
  assumes "controller_ok C" "workload_ok C w" "overheads_ok oh" "loop_inv C w None s" "counts_ok C w {#} s"
  shows "\<exists>s'. event_run oh C w s = Some (Inr s') \<and> ev_queue s' = [] \<and> loop_inv C w None s' \<and> counts_ok C w {#} s'"
proof -
  let ?n = "sum_list (map (length \<circ> meshes_of) (map snd (sc_managers C)))"
  have n: "length (meshes_of gm) \<le> ?n" if "gm \<in> set (map snd (sc_managers C))" for gm using that by (intro member_le_sum_list) auto
  from assms(4,5) show ?thesis
  proof (induction s rule: measure_induct_rule [of "steps_bound ?n"])
    case (less s)
    show ?case
    proof (cases "ev_queue s = []")
      case True
      with less.prems show ?thesis by (subst event_run.simps) auto
    next
      case False
      obtain s' where s': "event_step oh C w s = Inr s'" "loop_inv C w None s'" "counts_ok C w {#} s'" "steps_bound ?n s' < steps_bound ?n s"
        using event_step_ok [OF assms(1-3) less.prems False n] by blast
      from less.IH [OF s'(4,2,3)] False s'(1) show ?thesis by (subst event_run.simps) simp
    qed
  qed
qed

text \<open>After the submission every request waits for its arrival.\<close>

lemma submit_workload_queue:
  "mset (ev_queue (submit_workload C w)) = {#(w_arrivals w ! i, i, At_client). i \<in># mset [0..<length (w_arrivals w)]#}"
  "is_heap fst (ev_queue (submit_workload C w))" "ev_clock (submit_workload C w) = 0" "ev_groups (submit_workload C w) = group_start C"
  "length (ev_start (submit_workload C w)) = length (w_arrivals w)" "length (ev_finish (submit_workload C w)) = length (w_arrivals w)"
  "length (ev_good (submit_workload C w)) = length (w_arrivals w)"
proof -
  let ?put = "\<lambda>s i. put_event (w_arrivals w ! i) i At_client s"
  have keep: "ev_clock (foldl ?put s is) = ev_clock s" "ev_groups (foldl ?put s is) = ev_groups s" "ev_start (foldl ?put s is) = ev_start s"
    "ev_finish (foldl ?put s is) = ev_finish s" "ev_good (foldl ?put s is) = ev_good s" for s "is" by (induction "is" arbitrary: s) simp_all
  have queue: "mset (ev_queue (foldl ?put s is)) = mset (ev_queue s) + {#(w_arrivals w ! i, i, At_client). i \<in># mset is#}" for s "is"
    by (induction "is" arbitrary: s) simp_all
  have heap: "is_heap fst (ev_queue s) \<Longrightarrow> is_heap fst (ev_queue (foldl ?put s is))" for s "is"
    by (induction "is" arbitrary: s) (simp_all add: heappush_heap)
  show "mset (ev_queue (submit_workload C w)) = {#(w_arrivals w ! i, i, At_client). i \<in># mset [0..<length (w_arrivals w)]#}"
    unfolding submit_workload_def Let_def queue by simp
  show "is_heap fst (ev_queue (submit_workload C w))" unfolding submit_workload_def Let_def by (rule heap) (simp add: is_heap_def)
  show "ev_clock (submit_workload C w) = 0" "ev_groups (submit_workload C w) = group_start C"
    "length (ev_start (submit_workload C w)) = length (w_arrivals w)" "length (ev_finish (submit_workload C w)) = length (w_arrivals w)"
    "length (ev_good (submit_workload C w)) = length (w_arrivals w)"
    by (simp_all add: submit_workload_def Let_def keep)
qed

lemma submit_workload_ok:
  assumes "workload_ok C w"
  shows "loop_inv C w None (submit_workload C w)" "counts_ok C w {#} (submit_workload C w)"
proof -
  let ?s = "submit_workload C w"
  let ?n = "length (w_arrivals w)"
  note q = submit_workload_queue [of C w]
  have n: "length (w_requests w) = ?n" using assms by (simp add: workload_ok_def)
  have "mset (waiting ?s) = mset [0..<?n]"
    using arg_cong [OF q(1), of "image_mset (fst \<circ> snd)"] by (simp add: multiset.map_comp comp_def)
  then have waiting: "distinct (waiting ?s)" "set (waiting ?s) = {0..<?n}" by (metis distinct_upt mset_eq_imp_distinct_iff, metis mset_eq_setD set_upt)
  have entries: "\<exists>i < ?n. e = (w_arrivals w ! i, i, At_client)" if "e \<in> set (ev_queue ?s)" for e
    using that arg_cong [OF q(1), of set_mset] by (auto simp: image_iff)
  have "entry_ok C w ?s e" if e: "e \<in> set (ev_queue ?s)" for e
    using entries [OF e] assms q(3) n by (auto simp: entry_ok_def workload_ok_def)
  moreover have "clocks_fit C ?s" using q(4) by (simp add: clocks_fit_def group_start_def)
  ultimately show "loop_inv C w None ?s" using q(2,5-7) waiting n unfolding loop_inv_def by auto
  have "filter_mset (unanswered C w) (mset (ev_queue ?s)) =
      {#(w_arrivals w ! i, i, At_client). i \<in># mset (filter (\<lambda>i. groups_of C (w_requests w ! i) \<noteq> []) [0..<?n])#}"
    unfolding q(1) by (simp add: filter_mset_image_mset unanswered_def)
  then have "size (filter_mset (unanswered C w) (mset (ev_queue ?s))) = length (filter (\<lambda>i. groups_of C (w_requests w ! i) \<noteq> []) [0..<?n])"
    by (simp only: size_image_mset size_mset)
  also have "\<dots> = length (filter (\<lambda>r. groups_of C r \<noteq> []) (map (nth (w_requests w)) [0..<?n]))" by (simp add: filter_map comp_def)
  also have "\<dots> = length (filter (\<lambda>r. groups_of C r \<noteq> []) (w_requests w))" using n map_nth [of "w_requests w"] by simp
  finally have size: "size (filter_mset (unanswered C w) (mset (ev_queue ?s))) = length (filter (\<lambda>r. groups_of C r \<noteq> []) (w_requests w))" .
  have "(\<Sum>e\<in>#mset (ev_queue ?s). occupies (snd (snd e)) g) = 0" for g unfolding q(1) by (simp add: multiset.map_comp comp_def)
  then show "counts_ok C w {#} ?s" using size q(4) by (simp add: counts_ok_def group_start_def)
qed

section \<open>Lemmas: setting up\<close>

text \<open>The executables of a group run on equal meshes of at least one device each, as many as there are stages at most.\<close>

definition manager_ok :: "group_manager \<Rightarrow> bool" where
  "manager_ok gm \<longleftrightarrow>
     (case gm_launched gm of None \<Rightarrow> gm_replicas gm = []
      | Some mg \<Rightarrow> (\<forall>m \<in> set (mg_meshes mg). m \<noteq> []) \<and> length (mg_meshes mg) = length (mg_shapes mg) \<and>
          length (mg_meshes mg) \<le> nat (prod_list (gm_shape gm)) \<and>
          (\<forall>(name, lat) \<in> set (gm_replicas gm). \<exists>ls. dict_get lat 1 = Some ls \<and> ls \<noteq> [] \<and> (\<forall>l \<in> set ls. 0 \<le> l) \<and> length ls \<le> length (mg_meshes mg)))"

definition setup_ok :: "sim_controller \<Rightarrow> bool" where
  "setup_ok C \<longleftrightarrow> (\<forall>g gm. dict_get (sc_managers C) g = Some gm \<longrightarrow> manager_ok gm) \<and>
     (\<forall>name m. dict_get (sc_models C) name = Some m \<longrightarrow>
       (\<forall>g \<in> set (mi_group_ids m). \<exists>gm. dict_get (sc_managers C) g = Some gm \<and> name \<in> set (dict_keys (gm_replicas gm))))"

text \<open>A profile that has a latency for every stage of a configuration.\<close>

definition profile_fits :: "para_dict \<Rightarrow> parallel_config \<Rightarrow> bool" where
  "profile_fits prof c \<longleftrightarrow> 0 < pc_dp c \<and> 0 < pc_op c \<and>
     (\<exists>d ls. dict_get prof c = Some d \<and> dict_get (lm_latency d) 1 = Some ls \<and> ls \<noteq> [] \<and> (\<forall>l \<in> set ls. 0 \<le> l) \<and> length ls \<le> nat (pc_pp c))"

lemma setup_controller_ok:
  assumes "setup_ok C"
  shows "controller_ok C"
  unfolding controller_ok_def
proof (intro allI impI ballI)
  fix name m g assume m: "dict_get (sc_models C) name = Some m" "g \<in> set (mi_group_ids m)"
  obtain gm where gm: "dict_get (sc_managers C) g = Some gm" "name \<in> set (dict_keys (gm_replicas gm))" using assms m unfolding setup_ok_def by blast
  have ok: "manager_ok gm" using assms gm(1) unfolding setup_ok_def by blast
  obtain lat where lat: "dict_get (gm_replicas gm) name = Some lat" using gm(2) by (metis (mono_tags, lifting) map_of_eq_None_iff not_None_eq set_map)
  then have mem: "(name, lat) \<in> set (gm_replicas gm)" by (rule map_of_SomeD)
  obtain mg where mg: "gm_launched gm = Some mg" using ok mem by (cases "gm_launched gm") (auto simp: manager_ok_def)
  obtain ls where ls: "dict_get lat 1 = Some ls" "ls \<noteq> []" "\<forall>l \<in> set ls. 0 \<le> l" "length ls \<le> length (mg_meshes mg)"
    using ok mem mg by (fastforce simp: manager_ok_def)
  have "replica_ok gm name ls"
    using ok mg lat ls by (auto simp: replica_ok_def replica_latency_def lookupE_def manager_ok_def meshes_of_def)
  with gm(1) show "\<exists>gm ls. dict_get (sc_managers C) g = Some gm \<and> replica_ok gm name ls" by blast
qed

lemma new_controller_ok: "setup_ok new_controller"
  by (simp add: setup_ok_def new_controller_def)

lemma setup_ok_update:
  assumes "setup_ok C" "manager_ok gm'" "dict_get (sc_managers C') = (dict_get (sc_managers C))(g \<mapsto> gm')"
    "\<And>gm. dict_get (sc_managers C) g = Some gm \<Longrightarrow> set (dict_keys (gm_replicas gm)) \<subseteq> set (dict_keys (gm_replicas gm'))"
    "\<And>name m h. dict_get (sc_models C') name = Some m \<Longrightarrow> h \<in> set (mi_group_ids m) \<Longrightarrow>
       (\<exists>m. dict_get (sc_models C) name = Some m \<and> h \<in> set (mi_group_ids m)) \<or> h = g \<and> name \<in> set (dict_keys (gm_replicas gm'))"
  shows "setup_ok C'"
  unfolding setup_ok_def
proof (intro conjI allI impI ballI)
  fix h gm assume "dict_get (sc_managers C') h = Some gm"
  then show "manager_ok gm" using assms(1-3) unfolding setup_ok_def by (auto split: if_splits)
next
  fix name m h assume "dict_get (sc_models C') name = Some m" "h \<in> set (mi_group_ids m)"
  from assms(5) [OF this] show "\<exists>gm. dict_get (sc_managers C') h = Some gm \<and> name \<in> set (dict_keys (gm_replicas gm))"
  proof
    assume "\<exists>m. dict_get (sc_models C) name = Some m \<and> h \<in> set (mi_group_ids m)"
    then obtain gm where "dict_get (sc_managers C) h = Some gm" "name \<in> set (dict_keys (gm_replicas gm))"
      using assms(1) unfolding setup_ok_def by blast
    then show ?thesis using assms(3,4) by (cases "h = g") auto
  qed (use assms(3) in simp)
qed

lemma create_mesh_group_manager_ok:
  assumes "setup_ok C" "create_mesh_group_manager g shape C = Inr C'"
  shows "setup_ok C'"
proof -
  let ?gm = "\<lparr>gm_shape = shape, gm_launched = None, gm_replicas = []\<rparr>"
  have C': "dict_get (sc_managers C) g = None" "C' = C\<lparr>sc_managers := dict_set g ?gm (sc_managers C)\<rparr>"
    using assms(2) by (auto simp: create_mesh_group_manager_def bindE_Inr_iff assertE_Inr_iff)
  show ?thesis by (rule setup_ok_update [OF assms(1), of ?gm _ g]) (auto simp: C' manager_ok_def dict_simps)
qed

lemma register_model_ok:
  assumes "setup_ok C" "register_model name prof C = Inr C'"
  shows "setup_ok C'"
  using assms unfolding setup_ok_def register_model_def by (auto simp: dict_simps split: if_splits)

lemma make_meshes_ok: "\<forall>(a, b) \<in> set shapes. 0 < a \<and> 0 < b \<Longrightarrow> length (make_meshes n shapes) = length shapes \<and> (\<forall>m \<in> set (make_meshes n shapes). m \<noteq> [])"
  by (induction n shapes rule: make_meshes.induct) auto

lemma mem_dict_set: "e \<in> set (dict_set k v d) \<Longrightarrow> e = (k, v) \<or> e \<in> set d"
  by (induction d) (auto split: if_splits)

lemma create_replica_ok:
  assumes "setup_ok C" "create_replica name g c C = Inr C'" "\<And>m. dict_get (sc_models C) name = Some m \<Longrightarrow> profile_fits (mi_profile m) c"
  shows "setup_ok C'"
proof -
  obtain gm m gm' n where r: "dict_get (sc_managers C) g = Some gm" "dict_get (sc_models C) name = Some m"
    "manager_create_replica name (mi_profile m) c gm (sc_gpus C) = Inr (gm', n)"
    "C' = C\<lparr>sc_models := dict_set name (m\<lparr>mi_group_ids := mi_group_ids m @ [g]\<rparr>) (sc_models C), sc_managers := dict_set g gm' (sc_managers C), sc_gpus := n\<rparr>"
    using assms(2) by (auto simp: create_replica_def bindE_Inr_iff lookupE_Inr_iff split: option.splits)
  obtain d ls where prof: "0 < pc_dp c" "0 < pc_op c" "dict_get (mi_profile m) c = Some d" "dict_get (lm_latency d) 1 = Some ls" "ls \<noteq> []"
    "\<forall>l \<in> set ls. 0 \<le> l" "length ls \<le> nat (pc_pp c)" using assms(3) [OF r(2)] unfolding profile_fits_def by blast
  let ?shapes = "replicate (nat (pc_pp c)) (pc_dp c, pc_op c)"
  obtain gm1 where gm1: "executable_init (mi_profile m) c gm (sc_gpus C) = Inr (lm_latency d, gm1, n)"
    "gm' = gm1\<lparr>gm_replicas := dict_set name (lm_latency d) (gm_replicas gm1)\<rparr>"
    using r(3) prof(3) by (auto simp: manager_create_replica_def bindE_Inr_iff executable_init_def lookupE_def Let_def split: option.splits)
  have ok: "manager_ok gm" using assms(1) r(1) unfolding setup_ok_def by blast
  have replicas: "manager_ok (gm0\<lparr>gm_replicas := dict_set name (lm_latency d) (gm_replicas gm0)\<rparr>)"
    if "manager_ok gm0" "gm_launched gm0 = Some mg" "length ls \<le> length (mg_meshes mg)" for gm0 mg
  proof -
    let ?fits = "\<lambda>lat. \<exists>ls. dict_get lat 1 = Some ls \<and> ls \<noteq> [] \<and> (\<forall>l \<in> set ls. 0 \<le> l) \<and> length ls \<le> length (mg_meshes mg)"
    have "?fits (lm_latency d)" using prof(4-6) that(3) by blast
    moreover have "?fits lat" if "(x, lat) \<in> set (gm_replicas gm0)" for x lat
      using \<open>manager_ok gm0\<close> \<open>gm_launched gm0 = Some mg\<close> that unfolding manager_ok_def by auto
    ultimately have "\<forall>(x, lat) \<in> set (dict_set name (lm_latency d) (gm_replicas gm0)). ?fits lat" by (auto dest!: mem_dict_set)
    then show ?thesis using that(1,2) by (simp add: manager_ok_def)
  qed
  have "manager_ok gm' \<and> gm_replicas gm1 = gm_replicas gm"
  proof (cases "gm_launched gm")
    case (Some mg)
    then have "gm1 = gm" "mg_shapes mg = ?shapes" using gm1(1) prof(3) by (auto simp: executable_init_def lookupE_def bindE_Inr_iff assertE_Inr_iff)
    moreover from this have "length ls \<le> length (mg_meshes mg)" using ok Some prof(7) by (simp add: manager_ok_def)
    ultimately show ?thesis using replicas [OF ok Some] by (simp add: gm1(2))
  next
    case None
    let ?mg = "\<lparr>mg_shapes = ?shapes, mg_meshes = make_meshes (sc_gpus C) ?shapes\<rparr>"
    have new: "gm1 = gm\<lparr>gm_launched := Some ?mg\<rparr>" "prod_list (gm_shape gm) = (\<Sum>(a, b)\<leftarrow>?shapes. a * b)"
      using None gm1(1) prof(3) by (auto simp: executable_init_def launch_mesh_group_def lookupE_def bindE_Inr_iff assertE_Inr_iff Let_def)
    have meshes: "length (make_meshes (sc_gpus C) ?shapes) = nat (pc_pp c)" "\<forall>m \<in> set (make_meshes (sc_gpus C) ?shapes). m \<noteq> []"
      using make_meshes_ok [of ?shapes "sc_gpus C"] prof(1,2) by auto
    have "int (nat (pc_pp c)) \<le> int (nat (pc_pp c)) * (pc_dp c * pc_op c)" using mult_left_mono [of 1 "pc_dp c * pc_op c" "int (nat (pc_pp c))"] mult_pos_pos [OF prof(1,2)] by simp
    then have "nat (pc_pp c) \<le> nat (prod_list (gm_shape gm))" unfolding new(2) by (auto simp: sum_list_replicate split: if_splits intro: nat_mono)
    then have "manager_ok gm1" using ok None meshes by (simp add: new(1) manager_ok_def)
    then show ?thesis using replicas [of gm1 ?mg] prof(7) meshes(1) by (simp add: new(1) gm1(2))
  qed
  then have "manager_ok gm'" "set (dict_keys (gm_replicas gm')) = insert name (set (dict_keys (gm_replicas gm)))"
    using set_keys_dict_set [of name "lm_latency d" "gm_replicas gm"] by (auto simp: gm1(2))
  then show ?thesis
    by (intro setup_ok_update [OF assms(1), of gm' _ g]) (use r(1,2) in \<open>auto simp: r(4) dict_simps split: if_splits\<close>)
qed

section \<open>Properties\<close>

text \<open>C14. The event-driven simulation ends, for every controller that is set up correctly, every workload with objectives for
  registered models, and all overheads that are not negative. Every request is started when it arrives, and answered not
  earlier. A request counts as good only if it is answered within its objective by a group with a replica of its
  model, after the latencies of all stages. In the end no request is queued in any group, and the groups
  together have answered each request that has a group exactly once.\<close>

theorem event_simulation_answers:
  assumes "controller_ok C" "workload_ok C w" "overheads_ok oh"
  shows "\<exists>s. run_workload oh C w = Some (Inr s) \<and> ev_queue s = [] \<and> ev_start s = w_arrivals w \<and>
    (\<forall>i < length (w_requests w). ev_start s ! i \<le> ev_finish s ! i \<and> (ev_good s ! i \<longrightarrow>
       (\<exists>slo g. rq_slo (w_requests w ! i) = Some slo \<and> ev_finish s ! i - ev_start s ! i \<le> slo \<and> g \<in> set (groups_of C (w_requests w ! i)) \<and>
          ev_start s ! i + sum_list (stages_at C (w_requests w ! i) g) \<le> ev_finish s ! i))) \<and>
    (\<forall>g. gs_queue_size (ev_groups s g) = 0) \<and>
    (\<Sum>g\<in>set (dict_keys (sc_managers C)). gs_num_total (ev_groups s g)) = int (length (filter (\<lambda>r. groups_of C r \<noteq> []) (w_requests w)))"
proof -
  obtain s where s: "run_workload oh C w = Some (Inr s)" "ev_queue s = []" "loop_inv C w None s" "counts_ok C w {#} s"
    using event_run_ok [OF assms submit_workload_ok [OF assms(2)]] unfolding run_workload_def by blast
  have ok: "answered_ok C w s i" if "i < length (w_requests w)" for i using s(2,3) that by (simp add: loop_inv_def)
  have "length (ev_start s) = length (w_arrivals w)" using s(3) assms(2) by (simp add: loop_inv_def workload_ok_def)
  then have "ev_start s = w_arrivals w" using ok assms(2) by (intro nth_equalityI) (simp_all add: answered_ok_def workload_ok_def)
  moreover have "ev_start s ! i \<le> ev_finish s ! i \<and> (ev_good s ! i \<longrightarrow>
       (\<exists>slo g. rq_slo (w_requests w ! i) = Some slo \<and> ev_finish s ! i - ev_start s ! i \<le> slo \<and> g \<in> set (groups_of C (w_requests w ! i)) \<and>
          ev_start s ! i + sum_list (stages_at C (w_requests w ! i) g) \<le> ev_finish s ! i))" if "i < length (w_requests w)" for i
    using ok [OF that] unfolding answered_ok_def in_time_def by blast
  moreover have "\<forall>g. gs_queue_size (ev_groups s g) = 0" using s(2,4) by (simp add: counts_ok_def)
  moreover have "(\<Sum>g\<in>set (dict_keys (sc_managers C)). gs_num_total (ev_groups s g)) = int (length (filter (\<lambda>r. groups_of C r \<noteq> []) (w_requests w)))"
    using s(2,4) by (simp add: counts_ok_def)
  ultimately show ?thesis using s(1,2) by blast
qed

text \<open>A group does not admit a request whose stages take longer than the objective.\<close>

lemma slow_groups_never_good:
  assumes "controller_ok C" "workload_ok C w" "overheads_ok oh" "run_workload oh C w = Some (Inr s)" "i < length (w_requests w)"
    "\<And>g slo. g \<in> set (groups_of C (w_requests w ! i)) \<Longrightarrow> rq_slo (w_requests w ! i) = Some slo \<Longrightarrow>
       slo < sum_list (stages_at C (w_requests w ! i) g) + group_overhead"
  shows "\<not> ev_good s ! i"
proof
  assume good: "ev_good s ! i"
  have "ev_queue s = []" "loop_inv C w None s"
    using event_run_ok [OF assms(1-3) submit_workload_ok [OF assms(2)]] assms(4) unfolding run_workload_def by auto
  then have "answered_ok C w s i" using assms(5) by (simp add: loop_inv_def)
  then obtain g where "in_time C (w_requests w ! i) g" using good unfolding answered_ok_def by blast
  then show False using assms(6) [of g] by (auto simp: in_time_def split: option.splits)
qed

definition demo_controller :: "sim_controller py" where
  "demo_controller =
     bindE (register_model ''a'' [(\<lparr>pc_dp = 1, pc_op = 1, pc_pp = 2\<rparr>, \<lparr>lm_latency = [(1, [1, 2])], lm_act_mem = [], lm_weight_mem = [3, 3]\<rparr>)] new_controller) (\<lambda>C.
     bindE (create_mesh_group_manager 0 [1, 2] C) (create_replica ''a'' 0 \<lparr>pc_dp = 1, pc_op = 1, pc_pp = 2\<rparr>))"

definition no_overheads :: overheads where
  "no_overheads = \<lparr>oh_http = \<lambda>_. 0, oh_dispatch = \<lambda>_. 0, oh_alpa = \<lambda>_ _. 0\<rparr>"

theorem event_simulation_answers_witness:
  "\<exists>C s. demo_controller = Inr C \<and>
     run_workload no_overheads C \<lparr>w_arrivals = [1, 1], w_requests = request_list ''a'' (Some 5) 2\<rparr> = Some (Inr s) \<and> ev_queue s = [] \<and> ev_start s = [1, 1]"
proof -
  let ?c = "\<lparr>pc_dp = 1, pc_op = 1, pc_pp = 2\<rparr>"
  let ?prof = "[(?c, \<lparr>lm_latency = [(1, [1, 2])], lm_act_mem = [], lm_weight_mem = [3, 3]\<rparr>)] :: para_dict"
  let ?w = "\<lparr>w_arrivals = [1, 1], w_requests = request_list ''a'' (Some 5) 2\<rparr> :: sim_workload"
  have "case demo_controller of Inl e \<Rightarrow> False | Inr C \<Rightarrow> dict_get (sc_models C) ''a'' \<noteq> None" by code_simp
  then obtain C where C: "demo_controller = Inr C" "dict_get (sc_models C) ''a'' \<noteq> None" by (auto split: sum.splits)
  then obtain C1 C2 where s: "register_model ''a'' ?prof new_controller = Inr C1" "create_mesh_group_manager 0 [1, 2] C1 = Inr C2"
    "create_replica ''a'' 0 ?c C2 = Inr C" unfolding demo_controller_def bindE_Inr_iff by blast
  have "sc_models C2 = [(''a'', \<lparr>mi_profile = ?prof, mi_group_ids = []\<rparr>)]"
    using s(1,2) by (auto simp: register_model_def create_mesh_group_manager_def new_controller_def bindE_Inr_iff)
  then have m: "dict_get (sc_models C2) ''a'' = Some \<lparr>mi_profile = ?prof, mi_group_ids = []\<rparr>" by simp
  have "setup_ok C2" by (intro create_mesh_group_manager_ok [OF _ s(2)] register_model_ok [OF new_controller_ok s(1)])
  then have "setup_ok C" by (rule create_replica_ok [OF _ s(3)]) (use m in \<open>auto simp: profile_fits_def\<close>)
  moreover have "workload_ok C ?w" using C(2) by (simp add: workload_ok_def request_list_def)
  moreover have "overheads_ok no_overheads" by (simp add: overheads_ok_def no_overheads_def)
  ultimately show ?thesis using event_simulation_answers [OF setup_controller_ok] C(1) by fastforce
qed

end
