(* ===== verification/HexGenSim.thy ===== *)
theory HexGenSim
  imports HexGenCost EventSim
begin

text \<open>
  The goodput of a plan in HexGen: the class \<open>Simulator\<close> of \<^verbatim>\<open>ModelPlacement/hexgen/simulator_v2.py\<close> sets up the event-driven
  simulation of \<open>EventSim\<close> with one group and one model for each pipeline, the test profile of \<^verbatim>\<open>alpa_serve/profiling.py\<close>
  and the workload that \<^verbatim>\<open>alpa_serve/simulator/workload.py\<close> generates. The random numbers, \<open>np.argsort\<close>, the standard deviation and the
  overheads are parameters.
\<close>

section \<open>Stage costs and profile\<close>

record sim_numpy =
  sn_gamma :: gamma_source
  sn_argsort :: "py_float list \<Rightarrow> nat list"
  sn_std :: "py_float list \<Rightarrow> py_float"
  sn_overheads :: overheads

fun foldD :: "('s \<Rightarrow> 'a \<Rightarrow> 's py option) \<Rightarrow> 's \<Rightarrow> 'a list \<Rightarrow> 's py option" where
  "foldD f s [] = Some (Inr s)"
| "foldD f s (x # xs) = bindD (f s x) (\<lambda>s'. foldD f s' xs)"

text \<open>There is a cost for each stage, and a stage has at least one device.\<close>

definition calculate_stage_costs :: "cost_model \<Rightarrow> int list \<Rightarrow> int \<Rightarrow> int \<Rightarrow> py_float list py option" where
  "calculate_stage_costs c plan bias bsz =
     bindD (compute_costs c plan bias bsz) (\<lambda>(stage_costs, mem_costs, pp_layer_list).
     let stage_costs_tp = map2 (\<lambda>x d. x / of_int d) stage_costs plan;
         comm_costs = tp_communication_costs c pp_layer_list plan bsz in
     Some (Inr (map (\<lambda>x. x * (1 / 1000)) (map2 (+) stage_costs_tp comm_costs))))"

text \<open>The activation memory, a list of the word TODO that nothing reads, is left out.\<close>

definition load_test_prof_result :: "string \<Rightarrow> py_float list \<Rightarrow> para_dict py" where
  "load_test_prof_result name costs =
     (let para_dict = foldl (\<lambda>d n. dict_set \<lparr>pc_dp = 1, pc_op = 1, pc_pp = n\<rparr>
           \<lparr>lm_latency = [(1, costs)], lm_act_mem = [], lm_weight_mem = replicate (nat n) (1 / of_int n * 2 ^ 30)\<rparr> d) [] [1..64] in
      if name = ''Llama-70b'' then Inr para_dict else Inl ValueError)"

section \<open>The simulator\<close>

definition model_name :: "nat \<Rightarrow> string" where
  "model_name i = ''model_'' @ str_nat i"

text \<open>What every stage is said to take, whatever its costs are.\<close>

definition constant_stage_latency :: py_float where
  "constant_stage_latency = 10137 / 1000000"

definition register_pipeline :: "cost_model \<Rightarrow> string \<Rightarrow> int list list \<Rightarrow> int list \<Rightarrow> int list \<Rightarrow> sim_controller \<Rightarrow> nat \<Rightarrow> sim_controller py option" where
  "register_pipeline c name plans bias bsz C i =
     bindD (Some (nthE bias 0)) (\<lambda>b. bindD (Some (nthE bsz 0)) (\<lambda>s.
     bindD (calculate_stage_costs c (plans ! i) b s) (\<lambda>stage_costs.
     Some (bindE (load_test_prof_result name (replicate (length stage_costs) constant_stage_latency)) (\<lambda>prof.
       bindE (register_model (model_name i) prof C) (\<lambda>C.
       bindE (create_mesh_group_manager i [1, int (length (plans ! i))] C) (\<lambda>C.
       create_replica (model_name i) i \<lparr>pc_dp = 1, pc_op = 1, pc_pp = int (length (plans ! i))\<rparr> C)))))))"

definition register_models :: "cost_model \<Rightarrow> string \<Rightarrow> int list list \<Rightarrow> int list \<Rightarrow> int list \<Rightarrow> sim_controller py option" where
  "register_models c name plans bias bsz = foldD (register_pipeline c name plans bias bsz) new_controller [0..<length plans]"

text \<open>\<open>PoissonProcess.generate_workload\<close>, which keeps the first of the ticks only.\<close>

definition poisson_workload :: "gamma_source \<Rightarrow> py_float \<Rightarrow> nat \<Rightarrow> string \<Rightarrow> py_float \<Rightarrow> py_float \<Rightarrow> py_float option \<Rightarrow> int \<Rightarrow> sim_workload py option" where
  "poisson_workload gamma rate plan_num name start duration slo seed =
     bindD (generate_arrivals gamma rate 1 start duration seed) (\<lambda>ticks.
     if plan_num = 0 then Some (Inl ZeroDivisionError)
     else let n = length ticks div plan_num in Some (make_workload (take n ticks) (request_list name slo n)))"

definition gen_workload :: "sim_numpy \<Rightarrow> nat \<Rightarrow> py_float \<Rightarrow> sim_workload py option" where
  "gen_workload np num_plans slo =
     bindD (mapD (\<lambda>i. poisson_workload (sn_gamma np) 100 num_plans (model_name i) 0 30 (Some slo) 0) [0..<num_plans]) (\<lambda>ws.
     Some (merge_workloads (sn_argsort np) ws))"

definition simulator_exec :: "sim_numpy \<Rightarrow> cost_model \<Rightarrow> string \<Rightarrow> int list list \<Rightarrow> int list \<Rightarrow> int list \<Rightarrow> py_float \<Rightarrow> py_float py option" where
  "simulator_exec np c name plans bias bsz slo =
     bindD (register_models c name plans bias bsz) (\<lambda>C.
     bindD (gen_workload np (length plans) slo) (\<lambda>w.
     bindD (run_workload (sn_overheads np) C w) (\<lambda>s.
     Some (bindE (compute_stats (sn_std np) w (ev_start s) (ev_finish s) (ev_good s) 1) (\<lambda>st. Inr (st_goodput st))))))"

text \<open>How the fitness calls it.\<close>

definition hexgen_goodput :: "sim_numpy \<Rightarrow> cost_model \<Rightarrow> goodput_simulator" where
  "hexgen_goodput np c plans bias bsz = simulator_exec np c ''Llama-70b'' plans bias bsz (5 / 100)"

section \<open>Lemmas: registering the pipelines\<close>

lemma dict_get_foldl:
  "inj k \<Longrightarrow> dict_get (foldl (\<lambda>d x. dict_set (k x) (v x) d) [] xs) (k y) = (if y \<in> set xs then Some (v y) else None)"
  by (induction xs rule: rev_induct) (auto simp: dict_simps inj_eq)

lemma test_profile:
  assumes "1 \<le> n" "n \<le> 64"
  obtains prof d where "load_test_prof_result ''Llama-70b'' ls = Inr prof" "dict_get prof \<lparr>pc_dp = 1, pc_op = 1, pc_pp = n\<rparr> = Some d"
    "lm_latency d = [(1, ls)]"
proof -
  let ?k = "\<lambda>n :: int. \<lparr>pc_dp = 1, pc_op = 1, pc_pp = n\<rparr>"
  let ?v = "\<lambda>n. \<lparr>lm_latency = [(1, ls)], lm_act_mem = [], lm_weight_mem = replicate (nat n) (1 / of_int n * 2 ^ 30)\<rparr> :: latency_mem"
  let ?d = "foldl (\<lambda>d n. dict_set (?k n) (?v n) d) [] [1..64]"
  have "inj ?k" by (rule injI) simp
  then have "dict_get ?d (?k n) = (if n \<in> set [1..64] then Some (?v n) else None)" by (rule dict_get_foldl)
  also have "\<dots> = Some (?v n)" using assms by (simp del: upto_rec_numeral)
  finally have "dict_get ?d (?k n) = Some (?v n)" .
  moreover have "load_test_prof_result ''Llama-70b'' ls = Inr ?d" by (simp only: load_test_prof_result_def Let_def if_True refl)
  ultimately show thesis using that by simp
qed

text \<open>A plan for which the layers can be distributed and the test profile has an entry.\<close>

definition plan_ok :: "cost_model \<Rightarrow> int \<Rightarrow> int list \<Rightarrow> bool" where
  "plan_ok c bias p \<longleftrightarrow> 1 \<le> length p \<and> length p \<le> 64 \<and> int (length p) \<le> cm_layers c \<and> partition_layers (cm_layers c) (length p) bias \<noteq> None"

lemma stage_costs_length:
  assumes "plan_ok c bias p"
  shows "\<exists>xs. calculate_stage_costs c p bias bsz = Some (Inr xs) \<and> length xs = length p"
proof -
  have "\<exists>ls. partition_layers (cm_layers c) (length p) bias = Some (Inr ls) \<and> length ls = length p"
  proof (cases "length p = 1")
    case True
    then show ?thesis by (simp add: partition_layers_def)
  next
    case False
    then have "2 \<le> length p" "int (length p) \<le> cm_layers c" using assms by (auto simp: plan_ok_def)
    from partition_layers_result [OF this, of bias] show ?thesis using assms by (auto simp: plan_ok_def distribution_def)
  qed
  then show ?thesis by (auto simp: calculate_stage_costs_def compute_costs_def tp_communication_costs_def)
qed

text \<open>Only the number of stages of a plan is used.\<close>

definition register_stages :: "sim_controller \<Rightarrow> nat \<times> nat \<Rightarrow> sim_controller py" where
  "register_stages C = (\<lambda>(i, n).
     bindE (load_test_prof_result ''Llama-70b'' (replicate n constant_stage_latency)) (\<lambda>prof.
     bindE (register_model (model_name i) prof C) (\<lambda>C.
     bindE (create_mesh_group_manager i [1, int n] C) (\<lambda>C.
     create_replica (model_name i) i \<lparr>pc_dp = 1, pc_op = 1, pc_pp = int n\<rparr> C))))"

lemma register_pipeline_stages:
  assumes "bias \<noteq> []" "bsz \<noteq> []" "plan_ok c (hd bias) (plans ! i)"
  shows "register_pipeline c ''Llama-70b'' plans bias bsz C i = Some (register_stages C (i, length (plans ! i)))"
proof -
  obtain xs where "calculate_stage_costs c (plans ! i) (hd bias) (hd bsz) = Some (Inr xs)" "length xs = length (plans ! i)"
    using stage_costs_length [OF assms(3)] by blast
  then show ?thesis using assms(1,2) by (simp add: register_pipeline_def register_stages_def nthE_def flip: hd_conv_nth)
qed

lemma foldD_foldE: "(\<And>s x. x \<in> set xs \<Longrightarrow> f s x = Some (g s (h x))) \<Longrightarrow> foldD f s xs = Some (foldE g s (map h xs))"
proof (induction xs arbitrary: s)
  case (Cons x xs)
  then show ?case by (cases "g s (h x)") simp_all
qed simp

lemma register_models_stages:
  assumes "bias \<noteq> []" "bsz \<noteq> []" "\<forall>p \<in> set plans. plan_ok c (hd bias) p"
  shows "register_models c ''Llama-70b'' plans bias bsz = Some (foldE register_stages new_controller (enumerate 0 (map length plans)))"
proof -
  have "register_models c ''Llama-70b'' plans bias bsz = Some (foldE register_stages new_controller (map (\<lambda>i. (i, length (plans ! i))) [0..<length plans]))"
    unfolding register_models_def by (intro foldD_foldE register_pipeline_stages) (use assms in auto)
  moreover have "map (\<lambda>i. (i, length (plans ! i))) [0..<length plans] = enumerate 0 (map length plans)"
    by (rule nth_equalityI) (simp_all add: nth_enumerate_eq)
  ultimately show ?thesis by simp
qed

text \<open>The controller after the first \<open>k\<close> registrations.\<close>

definition registered :: "nat list \<Rightarrow> nat \<Rightarrow> sim_controller \<Rightarrow> bool" where
  "registered ns k C \<longleftrightarrow> setup_ok C \<and>
     (\<forall>i. k \<le> i \<longrightarrow> dict_get (sc_models C) (model_name i) = None \<and> dict_get (sc_managers C) i = None) \<and>
     (\<forall>i < k. (\<exists>m gm. dict_get (sc_models C) (model_name i) = Some m \<and> mi_group_ids m = [i] \<and> dict_get (sc_managers C) i = Some gm \<and>
        replica_latency gm (model_name i) = Inr (replicate (ns ! i) constant_stage_latency)))"

lemma inj_model_name: "model_name i = model_name j \<longleftrightarrow> i = j"
  by (simp add: model_name_def)

lemma register_stages_step:
  assumes "registered ns k C" "1 \<le> ns ! k" "ns ! k \<le> 64"
  shows "\<exists>C'. register_stages C (k, ns ! k) = Inr C' \<and> registered ns (Suc k) C'"
proof -
  let ?n = "ns ! k" and ?name = "model_name k" and ?ls = "replicate (ns ! k) constant_stage_latency"
  let ?c = "\<lparr>pc_dp = 1, pc_op = 1, pc_pp = int ?n\<rparr>"
  have free: "dict_get (sc_models C) ?name = None" "dict_get (sc_managers C) k = None" and ok: "setup_ok C"
    using assms(1) by (simp_all add: registered_def)
  obtain prof d where prof: "load_test_prof_result ''Llama-70b'' ?ls = Inr prof" "dict_get prof ?c = Some d" "lm_latency d = [(1, ?ls)]"
    using test_profile [of "int ?n" ?ls] assms(2,3) by auto
  define C1 where "C1 = C\<lparr>sc_models := dict_set ?name \<lparr>mi_profile = prof, mi_group_ids = []\<rparr> (sc_models C)\<rparr>"
  define C2 where "C2 = C1\<lparr>sc_managers := dict_set k \<lparr>gm_shape = [1, int ?n], gm_launched = None, gm_replicas = []\<rparr> (sc_managers C1)\<rparr>"
  have C1: "register_model ?name prof C = Inr C1" using free by (simp add: register_model_def C1_def)
  have C2: "create_mesh_group_manager k [1, int ?n] C1 = Inr C2" using free by (simp add: create_mesh_group_manager_def C1_def C2_def)
  let ?shapes = "replicate ?n (1 :: int, 1 :: int)"
  let ?gm = "\<lparr>gm_shape = [1, int ?n], gm_launched = Some \<lparr>mg_shapes = ?shapes, mg_meshes = make_meshes (sc_gpus C) ?shapes\<rparr>, gm_replicas = [(?name, [(1, ?ls)])]\<rparr>"
  let ?C3 = "C2\<lparr>sc_models := dict_set ?name \<lparr>mi_profile = prof, mi_group_ids = [k]\<rparr> (sc_models C2), sc_managers := dict_set k ?gm (sc_managers C2), sc_gpus := sc_gpus C + ?n\<rparr>"
  have C3: "create_replica ?name k ?c C2 = Inr ?C3"
    using prof(2,3) by (simp add: create_replica_def C2_def C1_def dict_simps lookupE_def manager_create_replica_def executable_init_def
      launch_mesh_group_def Let_def sum_list_replicate)
  have "setup_ok ?C3"
    by (rule create_replica_ok [OF create_mesh_group_manager_ok [OF register_model_ok [OF ok C1] C2] C3])
      (use prof assms(2) in \<open>auto simp: C2_def C1_def dict_simps profile_fits_def constant_stage_latency_def\<close>)
  moreover have "dict_get (sc_models ?C3) (model_name i) = (if i = k then Some \<lparr>mi_profile = prof, mi_group_ids = [k]\<rparr> else dict_get (sc_models C) (model_name i))"
    "dict_get (sc_managers ?C3) i = (if i = k then Some ?gm else dict_get (sc_managers C) i)" for i
    by (simp_all add: C2_def C1_def dict_simps inj_model_name)
  moreover have "replica_latency ?gm ?name = Inr ?ls" by (simp add: replica_latency_def lookupE_def)
  ultimately have "registered ns (Suc k) ?C3" using assms(1) unfolding registered_def by (simp add: less_Suc_eq)
  moreover have "register_stages C (k, ?n) = Inr ?C3" using prof(1) C1 C2 C3 by (simp add: register_stages_def)
  ultimately show ?thesis by blast
qed

lemma register_stages_all:
  "\<forall>n \<in> set ns. 1 \<le> n \<and> n \<le> 64 \<Longrightarrow> k \<le> length ns \<Longrightarrow>
     \<exists>C. foldE register_stages new_controller (enumerate 0 (take k ns)) = Inr C \<and> registered ns k C"
proof (induction k)
  case 0
  have "registered ns 0 new_controller" by (simp add: registered_def new_controller_ok) (simp add: new_controller_def)
  then show ?case by simp
next
  case (Suc k)
  then obtain C where C: "foldE register_stages new_controller (enumerate 0 (take k ns)) = Inr C" "registered ns k C" by auto
  obtain C' where "register_stages C (k, ns ! k) = Inr C'" "registered ns (Suc k) C'"
    using register_stages_step [OF C(2)] Suc.prems by auto
  moreover have "enumerate 0 (take (Suc k) ns) = enumerate 0 (take k ns) @ [(k, ns ! k)]"
    using Suc.prems by (simp add: take_Suc_conv_app_nth enumerate_append_eq)
  ultimately show ?case using C(1) by (simp add: foldE_append)
qed

section \<open>Lemmas: the workload\<close>

text \<open>Gaps between the arrivals that are not negative and reach the end of the thirty seconds.\<close>

definition gaps_ok :: "sim_numpy \<Rightarrow> bool" where
  "gaps_ok np \<longleftrightarrow> (let b = gamma_batch 100 30; draw = sn_gamma np 0 1 (1 / 100) b in
     (\<forall>i. 0 \<le> gap draw b i) \<and> (\<exists>n. 30 \<le> tick draw b 0 n))"

definition requests_ok :: "(string \<times> py_float option \<Rightarrow> bool) \<Rightarrow> sim_workload \<Rightarrow> bool" where
  "requests_ok P w \<longleftrightarrow> length (w_arrivals w) = length (w_requests w) \<and> (\<forall>a \<in> set (w_arrivals w). 0 \<le> a) \<and>
     (\<forall>r \<in> set (w_requests w). P (rq_content r))"

lemma arrivals_ok:
  assumes "gaps_ok np"
  shows "\<exists>ts. generate_arrivals (sn_gamma np) 100 1 0 30 0 = Some (Inr ts) \<and> (\<forall>t \<in> set ts. 0 \<le> t \<and> t < 30) \<and> sorted ts"
proof -
  let ?b = "gamma_batch 100 30"
  let ?draw = "sn_gamma np 0 1 (1 / 100) ?b"
  let ?t = "tick ?draw ?b 0"
  have gaps: "\<forall>i. 0 \<le> gap ?draw ?b i" "\<exists>n. 30 \<le> ?t n" using assms by (simp_all add: gaps_ok_def Let_def)
  obtain n where n: "30 \<le> ?t n" "\<forall>k < n. \<not> 30 \<le> ?t k" using gaps(2) exists_least_iff [of "\<lambda>n. 30 \<le> ?t n"] by blast
  have "generate_arrivals (sn_gamma np) 100 1 0 30 0 = Some (Inr (map ?t [0..<n]))"
    using generate_arrivals_run [of 100 1 n "sn_gamma np" 0 30 0] n by (simp add: not_le)
  moreover have "0 \<le> ?t k" for k unfolding tick_def using gaps(1) by (simp add: sum_nonneg)
  moreover have "sorted (map ?t [0..<n])" using gaps(1) by (intro sorted_ticks) simp
  ultimately show ?thesis using n(2) by (intro exI [of _ "map ?t [0..<n]"]) (auto simp: not_le)
qed

lemma poisson_workload_ok:
  assumes "generate_arrivals (sn_gamma np) 100 1 0 30 0 = Some (Inr ts)" "\<forall>t \<in> set ts. 0 \<le> t" "0 < n"
  shows "\<exists>w. poisson_workload (sn_gamma np) 100 n name 0 30 slo 0 = Some (Inr w) \<and> requests_ok (\<lambda>x. x = (name, slo)) w \<and>
    w_arrivals w = take (length ts div n) ts"
  using assms by (auto simp: poisson_workload_def Let_def make_workload_def request_list_def requests_ok_def rq_content_def dest: in_set_takeD)

lemma merge_workloads_ok:
  assumes "argsort_ok f" "ws \<noteq> []" "\<forall>w \<in> set ws. requests_ok P w" "\<forall>w \<in> set ws. sorted (w_arrivals w)"
  shows "\<exists>w. merge_workloads f ws = Inr w \<and> requests_ok P w \<and> mset (w_arrivals w) = (\<Sum>v\<leftarrow>ws. mset (w_arrivals v)) \<and> sorted (w_arrivals w)"
proof (cases "length ws = 1")
  case True
  then obtain w where "ws = [w]" by (cases ws) auto
  then show ?thesis using assms(3,4) by (simp add: merge_workloads_def)
next
  case False
  then have two: "2 \<le> length ws" using assms(2) by (cases ws) (auto simp: Suc_le_eq)
  have "\<forall>w \<in> set ws. length (w_arrivals w) = length (w_requests w)" using assms(3) by (simp add: requests_ok_def)
  from merge_workloads_spec [OF assms(1) two this] obtain w where w: "merge_workloads f ws = Inr w" "w_content w = (\<Sum>v\<leftarrow>ws. w_content v)"
    "sorted (w_arrivals w)" by blast
  have len: "length (w_arrivals w) = length (w_requests w)"
    using w(1) False assms(2) by (auto simp: merge_workloads_def make_workload_def Let_def bindE_Inr_iff assertE_Inr_iff split: list.splits)
  have "0 \<le> a \<and> P x" if "(a, x) \<in> set (zip (w_arrivals w) (map rq_content (w_requests w)))" for a x
  proof -
    have "(a, x) \<in># w_content w" using that by (simp add: w_content_def)
    then obtain v where "v \<in> set ws" "(a, x) \<in># w_content v" unfolding w(2) by auto
    then show ?thesis using assms(3) by (force simp: w_content_def requests_ok_def dest: set_zip_leftD set_zip_rightD)
  qed
  note content = this
  have requests: "requests_ok P w"
    unfolding requests_ok_def
  proof (intro conjI ballI len)
    show "0 \<le> a" if "a \<in> set (w_arrivals w)" for a
      using in_set_impl_in_set_zip1 [of "w_arrivals w" "map rq_content (w_requests w)" a] that len content by auto
    show "P (rq_content r)" if "r \<in> set (w_requests w)" for r
    proof -
      have "rq_content r \<in> set (map rq_content (w_requests w))" using that by simp
      then obtain a where "(a, rq_content r) \<in> set (zip (w_arrivals w) (map rq_content (w_requests w)))"
        using len by (metis in_set_impl_in_set_zip2 length_map)
      then show ?thesis using content by blast
    qed
  qed
  have arr: "mset (w_arrivals v) = image_mset fst (w_content v)" if "length (w_arrivals v) = length (w_requests v)" for v
    using that by (simp add: w_content_def flip: mset_map)
  have "mset (w_arrivals w) = (\<Sum>v\<leftarrow>ws. image_mset fst (w_content v))" unfolding arr [OF len] w(2)
    by (induction ws) simp_all
  also have "\<dots> = (\<Sum>v\<leftarrow>ws. mset (w_arrivals v))"
    using assms(3) by (intro arg_cong [of _ _ sum_list] map_cong) (simp_all add: arr requests_ok_def)
  finally have "mset (w_arrivals w) = (\<Sum>v\<leftarrow>ws. mset (w_arrivals v))" .
  with requests show ?thesis using w(1,3) by blast
qed

text \<open>All pipelines get the same arrivals, since every process starts with the same seed.\<close>

lemma gen_workload_ok:
  assumes "generate_arrivals (sn_gamma np) 100 1 0 30 0 = Some (Inr ts)" "\<forall>t \<in> set ts. 0 \<le> t" "sorted ts" "argsort_ok (sn_argsort np)" "0 < n"
  shows "\<exists>w. gen_workload np n slo = Some (Inr w) \<and> requests_ok (\<lambda>x. \<exists>i < n. x = (model_name i, Some slo)) w \<and>
    sorted (w_arrivals w) \<and> set (w_arrivals w) = set (take (length ts div n) ts) \<and> length (w_arrivals w) = n * (length ts div n)"
proof -
  let ?ts = "take (length ts div n) ts"
  let ?P = "\<lambda>x. \<exists>i < n. x = (model_name i, Some slo)"
  have "\<forall>i. \<exists>w. poisson_workload (sn_gamma np) 100 n (model_name i) 0 30 (Some slo) 0 = Some (Inr w) \<and> requests_ok (\<lambda>x. x = (model_name i, Some slo)) w \<and>
      w_arrivals w = ?ts"
    using poisson_workload_ok [OF assms(1,2,5)] by blast
  then obtain v where v: "\<And>i. poisson_workload (sn_gamma np) 100 n (model_name i) 0 30 (Some slo) 0 = Some (Inr (v i))"
    "\<And>i. requests_ok (\<lambda>x. x = (model_name i, Some slo)) (v i)"
    "\<And>i. w_arrivals (v i) = ?ts" by metis
  have "requests_ok ?P (v i)" if "i < n" for i using v(2) [of i] that by (auto simp: requests_ok_def)
  moreover have "sorted ?ts" using assms(3) by (simp add: sorted_wrt_take)
  ultimately obtain w where w: "merge_workloads (sn_argsort np) (map v [0..<n]) = Inr w" "requests_ok ?P w" "sorted (w_arrivals w)"
    "mset (w_arrivals w) = (\<Sum>u\<leftarrow>map v [0..<n]. mset (w_arrivals u))"
    using merge_workloads_ok [OF assms(4), of "map v [0..<n]" ?P] assms(5) v(3) by auto
  have "mset (w_arrivals w) = (\<Sum>i\<leftarrow>[0..<n]. mset ?ts)" unfolding w(4) by (simp add: v(3) o_def)
  also have "(\<Sum>i\<leftarrow>[0..<k]. M) = repeat_mset k M" for k and M :: "py_float multiset" by (induction k) simp_all
  finally have all: "mset (w_arrivals w) = repeat_mset n (mset ?ts)" .
  have "set (w_arrivals w) = set_mset (mset (w_arrivals w))" by simp
  also have "\<dots> = set ?ts"
  proof -
    have "set_mset (repeat_mset (Suc k) M) = set_mset M" for k and M :: "py_float multiset" by (induction k) auto
    then show ?thesis unfolding all using assms(5) by (metis Suc_pred set_mset_mset)
  qed
  finally have "set (w_arrivals w) = set ?ts" .
  moreover have "length (w_arrivals w) = n * (length ts div n)"
  proof -
    have "length (w_arrivals w) = size (repeat_mset n (mset ?ts))" unfolding all [symmetric] by simp
    also have "\<dots> = n * length ?ts" by (induction n) simp_all
    finally show ?thesis by (simp add: min_absorb2)
  qed
  ultimately show ?thesis using mapD_total [where xs = "[0..<n]", OF v(1)] w(1-3) by (simp add: gen_workload_def)
qed

section \<open>Lemmas: the run\<close>

definition simulation_ok :: "sim_numpy \<Rightarrow> cost_model \<Rightarrow> int list list \<Rightarrow> int list \<Rightarrow> int list \<Rightarrow> bool" where
  "simulation_ok np c plans bias bsz \<longleftrightarrow> plans \<noteq> [] \<and> bias \<noteq> [] \<and> bsz \<noteq> [] \<and> (\<forall>p \<in> set plans. plan_ok c (hd bias) p) \<and>
     gaps_ok np \<and> argsort_ok (sn_argsort np) \<and> overheads_ok (sn_overheads np)"

text \<open>The pipeline with five stages or more takes longer than the objective.\<close>

lemma five_stages_too_slow: "5 \<le> n \<Longrightarrow> 5 / 100 < sum_list (replicate n constant_stage_latency) + group_overhead"
proof -
  assume "5 \<le> n"
  then have "5 * constant_stage_latency \<le> of_nat n * constant_stage_latency" by (intro mult_right_mono) (simp_all add: constant_stage_latency_def)
  then show ?thesis by (simp add: sum_list_replicate constant_stage_latency_def group_overhead_def)
qed

lemma simulation_runs:
  assumes "simulation_ok np c plans bias bsz"
  obtains w :: sim_workload and s :: event_state and ts :: "py_float list" where "hexgen_goodput np c plans bias bsz = Some (bindE (compute_stats (sn_std np) w (ev_start s) (ev_finish s) (ev_good s) 1) (\<lambda>st. Inr (st_goodput st)))"
    "(\<forall>p \<in> set plans. 5 \<le> length p) \<longrightarrow> (\<forall>x \<in> set (ev_good s). \<not> x)"
    "generate_arrivals (sn_gamma np) 100 1 0 30 0 = Some (Inr ts)" "\<forall>t \<in> set ts. 0 \<le> t \<and> t < 30" "sorted ts" "sorted (w_arrivals w)"
    "set (w_arrivals w) = set (take (length ts div length plans) ts)" "length (w_arrivals w) = length plans * (length ts div length plans)"
    "length (ev_start s) = length (w_arrivals w)" "length (ev_good s) = length (w_arrivals w)"
proof -
  let ?ns = "map length plans" and ?n = "length plans"
  have ok: "plans \<noteq> []" "bias \<noteq> []" "bsz \<noteq> []" "\<forall>p \<in> set plans. plan_ok c (hd bias) p" "gaps_ok np" "argsort_ok (sn_argsort np)"
    "overheads_ok (sn_overheads np)" using assms by (simp_all add: simulation_ok_def)
  have "\<forall>n \<in> set ?ns. 1 \<le> n \<and> n \<le> 64" using ok(4) by (auto simp: plan_ok_def)
  from register_stages_all [OF this, of ?n] obtain C where
    C: "foldE register_stages new_controller (enumerate 0 ?ns) = Inr C" "registered ?ns ?n C" by auto
  have reg: "register_models c ''Llama-70b'' plans bias bsz = Some (Inr C)" using register_models_stages [OF ok(2-4)] C(1) by simp
  have models: "\<exists>m gm. dict_get (sc_models C) (model_name i) = Some m \<and> mi_group_ids m = [i] \<and> dict_get (sc_managers C) i = Some gm \<and>
      replica_latency gm (model_name i) = Inr (replicate (length (plans ! i)) constant_stage_latency)" if "i < ?n" for i
    using C(2) that unfolding registered_def by auto
  have ctl: "controller_ok C" using C(2) setup_controller_ok by (simp add: registered_def)
  obtain ts where ts: "generate_arrivals (sn_gamma np) 100 1 0 30 0 = Some (Inr ts)" "\<forall>t \<in> set ts. 0 \<le> t \<and> t < 30" "sorted ts"
    using arrivals_ok [OF ok(5)] by blast
  then have nonneg: "\<forall>t \<in> set ts. 0 \<le> t" "0 < ?n" using ok(1) by simp_all
  from gen_workload_ok [OF ts(1) nonneg(1) ts(3) ok(6) nonneg(2), of "5 / 100"]
  obtain w where w: "gen_workload np ?n (5 / 100) = Some (Inr w)" "requests_ok (\<lambda>x. \<exists>i < ?n. x = (model_name i, Some (5 / 100))) w"
    "sorted (w_arrivals w)" "set (w_arrivals w) = set (take (length ts div ?n) ts)" "length (w_arrivals w) = ?n * (length ts div ?n)" by blast
  have rq: "\<exists>i < ?n. rq_model r = model_name i \<and> rq_slo r = Some (5 / 100)" if "r \<in> set (w_requests w)" for r
    using w(2) that by (auto simp: requests_ok_def rq_content_def)
  have wl: "workload_ok C w"
    unfolding workload_ok_def using w(2) rq models by (fastforce simp: requests_ok_def)
  obtain s where s: "run_workload (sn_overheads np) C w = Some (Inr s)" "loop_inv C w None s"
    using event_run_ok [OF ctl wl ok(7) submit_workload_ok [OF wl]] unfolding run_workload_def by blast
  show thesis
  proof (rule that [of w s ts, OF _ _ ts w(3-5)])
    show "hexgen_goodput np c plans bias bsz = Some (bindE (compute_stats (sn_std np) w (ev_start s) (ev_finish s) (ev_good s) 1) (\<lambda>st. Inr (st_goodput st)))"
      by (simp only: hexgen_goodput_def simulator_exec_def reg w(1) s(1) bindD_simps)
    have len: "length (ev_good s) = length (w_requests w)" "length (ev_start s) = length (w_requests w)" "length (w_arrivals w) = length (w_requests w)"
      using s(2) w(2) by (simp_all add: loop_inv_def requests_ok_def)
    then show "length (ev_start s) = length (w_arrivals w)" "length (ev_good s) = length (w_arrivals w)" by simp_all
    have "\<not> ev_good s ! i" if long: "\<forall>p \<in> set plans. 5 \<le> length p" and i: "i < length (w_requests w)" for i
    proof (rule slow_groups_never_good [OF ctl wl ok(7) s(1) i])
      fix g slo assume g: "g \<in> set (groups_of C (w_requests w ! i))" "rq_slo (w_requests w ! i) = Some slo"
      obtain j where j: "j < ?n" "rq_model (w_requests w ! i) = model_name j" "rq_slo (w_requests w ! i) = Some (5 / 100)" using rq i nth_mem by blast
      from models [OF j(1)] obtain m gm where "dict_get (sc_models C) (model_name j) = Some m" "mi_group_ids m = [j]" "dict_get (sc_managers C) j = Some gm"
        "replica_latency gm (model_name j) = Inr (replicate (length (plans ! j)) constant_stage_latency)" by blast
      then have "stages_at C (w_requests w ! i) g = replicate (length (plans ! j)) constant_stage_latency"
        using g(1) by (simp add: groups_of_def stages_at_def j(2))
      moreover have "5 \<le> length (plans ! j)" using long j(1) by simp
      ultimately show "slo < sum_list (stages_at C (w_requests w ! i) g) + group_overhead"
        using five_stages_too_slow [of "length (plans ! j)"] g(2) j(3) by (simp only: option.inject)
    qed
    with len(1) show "(\<forall>p \<in> set plans. 5 \<le> length p) \<longrightarrow> (\<forall>x \<in> set (ev_good s). \<not> x)" by (auto simp: in_set_conv_nth)
  qed
qed

lemma compute_stats_goodput:
  assumes "compute_stats np_std w start finish good warmup = Inr st"
  shows "0 \<le> st_goodput st \<and> st_goodput st \<le> 1 \<and> ((\<forall>x \<in> set good. \<not> x) \<longrightarrow> st_goodput st = 0)"
proof -
  obtain k where "st_goodput st = of_nat (length (filter id (inner_slice k good))) / of_nat (length (inner_slice k good))"
    using assms by (auto simp: compute_stats_def bindE_Inr_iff Let_def split: if_splits)
  moreover have "length (filter id (inner_slice k good)) \<le> length (inner_slice k good)" by simp
  moreover have "filter id (inner_slice k good) = []" if "\<forall>x \<in> set good. \<not> x"
    using that by (auto simp: filter_empty_conv inner_slice_def py_slice_def dest!: in_set_takeD in_set_dropD)
  ultimately show ?thesis by (simp add: divide_le_eq_1)
qed

lemma compute_stats_errors:
  "compute_stats np_std w start finish good 1 = Inl e \<Longrightarrow> e \<in> {UnboundLocalError, OverflowError, IndexError}"
  by (auto simp: compute_stats_def skip_count_def bindE_def Let_def split: if_splits sum.splits)

lemma sorted_ends:
  assumes "sorted xs" "sorted ys" "set xs = set ys" "xs \<noteq> []"
  shows "hd xs = hd ys \<and> List.last xs = List.last (ys :: py_float list)"
proof -
  have least: "hd zs \<le> z" if "sorted zs" "z \<in> set zs" for zs :: "py_float list" and z using that by (cases zs) auto
  have greatest: "z \<le> List.last zs" if "sorted zs" "z \<in> set zs" for zs :: "py_float list" and z
    using that by (induction zs) (auto split: if_splits)
  have "ys \<noteq> []" using assms(3,4) by auto
  then have mem: "hd xs \<in> set ys" "hd ys \<in> set xs" "List.last xs \<in> set ys" "List.last ys \<in> set xs"
    using hd_in_set [OF assms(4)] hd_in_set [of ys] last_in_set [OF assms(4)] last_in_set [of ys] assms(3) by simp_all
  have "hd xs = hd ys" by (rule order_antisym [OF least [OF assms(1) mem(2)] least [OF assms(2) mem(1)]])
  moreover have "List.last xs = List.last ys" by (rule order_antisym [OF greatest [OF assms(2) mem(3)] greatest [OF assms(1) mem(4)]])
  ultimately show ?thesis ..
qed

text \<open>Enough requests over more than two seconds: some are skipped at both ends, and some are left.\<close>

lemma compute_stats_succeeds:
  assumes "length start = length (w_arrivals w)" "length good = length (w_arrivals w)"
    "2 < List.last (w_arrivals w) - hd (w_arrivals w)" "List.last (w_arrivals w) - hd (w_arrivals w) \<le> of_nat (length (w_arrivals w))"
  shows "\<exists>st. compute_stats np_std w start finish good 1 = Inr st"
proof -
  let ?m = "length (w_arrivals w)" and ?span = "List.last (w_arrivals w) - hd (w_arrivals w)"
  let ?skip = "py_trunc (1 / ?span * of_nat ?m)"
  have "2 < (of_nat ?m :: py_float)" using assms(3,4) by linarith
  then have m: "2 < ?m" by (metis of_nat_less_iff of_nat_numeral)
  have span: "0 < ?span" using assms(3) by linarith
  have skip: "?skip = \<lfloor>of_nat ?m / ?span\<rfloor>" using span by (simp add: py_trunc_def)
  have "1 \<le> of_nat ?m / ?span" using span assms(4) by (simp add: le_divide_eq_1)
  then have pos: "1 \<le> ?skip" unfolding skip by (simp add: le_floor_iff)
  have "of_nat ?m / ?span < of_nat ?m / 2" using assms(3) m by (intro divide_strict_left_mono) auto
  moreover have "of_int ?skip \<le> of_nat ?m / ?span" unfolding skip by (rule of_int_floor_le)
  ultimately have "of_int ?skip < of_nat ?m / (2 :: py_float)" by (rule le_less_trans [rotated])
  then have "of_int (2 * ?skip) < (of_nat ?m :: py_float)" by simp
  then have "2 * ?skip < int ?m" by (metis of_int_less_iff of_int_of_nat_eq)
  then have "2 * nat ?skip < ?m" using pos by linarith
  then have "inner_slice (nat ?skip) start \<noteq> []" using assms(1) by (simp add: inner_slice_def py_slice_def)
  then show ?thesis using m span pos by (simp add: compute_stats_def skip_count_def Let_def)
qed

section \<open>Properties\<close>

text \<open>C15. The goodput of the simulation. For plans of at most 64 stages over which the layers can be distributed, arrivals that
  reach the end of the period and overheads that are not negative, the simulation ends: with a goodput between
  zero and one, or with one of the errors of the statistics. There is no error if the pipelines together get thirty requests or more
  which arrive over more than two seconds. If all pipelines have five stages or more the goodput is zero,
  whatever the model and the devices are.\<close>

theorem simulator_goodput:
  assumes "simulation_ok np c plans bias bsz"
  shows "\<exists>r ts. hexgen_goodput np c plans bias bsz = Some r \<and> generate_arrivals (sn_gamma np) 100 1 0 30 0 = Some (Inr ts) \<and>
    (\<forall>e. r = Inl e \<longrightarrow> e \<in> {UnboundLocalError, OverflowError, IndexError} \<and>
      \<not> (let k = length ts div length plans in 30 \<le> length plans * k \<and> 2 < ts ! (k - 1) - ts ! 0)) \<and>
    (\<forall>g. r = Inr g \<longrightarrow> 0 \<le> g \<and> g \<le> 1 \<and> ((\<forall>p \<in> set plans. 5 \<le> length p) \<longrightarrow> g = 0))"
proof -
  obtain w :: sim_workload and s :: event_state and ts where
    run: "hexgen_goodput np c plans bias bsz = Some (bindE (compute_stats (sn_std np) w (ev_start s) (ev_finish s) (ev_good s) 1) (\<lambda>st. Inr (st_goodput st)))"
    and slow: "(\<forall>p \<in> set plans. 5 \<le> length p) \<longrightarrow> (\<forall>x \<in> set (ev_good s). \<not> x)"
    and ts: "generate_arrivals (sn_gamma np) 100 1 0 30 0 = Some (Inr ts)" "\<forall>t \<in> set ts. 0 \<le> t \<and> t < 30" "sorted ts" "sorted (w_arrivals w)"
      "set (w_arrivals w) = set (take (length ts div length plans) ts)" "length (w_arrivals w) = length plans * (length ts div length plans)"
    and len: "length (ev_start s) = length (w_arrivals w)" "length (ev_good s) = length (w_arrivals w)"
    using simulation_runs [OF assms] by metis
  let ?k = "length ts div length plans"
  have "\<exists>st. compute_stats (sn_std np) w (ev_start s) (ev_finish s) (ev_good s) 1 = Inr st"
    if many: "30 \<le> length plans * ?k" "2 < ts ! (?k - 1) - ts ! 0"
  proof (rule compute_stats_succeeds [OF len])
    have k: "0 < ?k" "?k \<le> length ts" using many(1) by (auto intro: Nat.gr0I)
    have "w_arrivals w \<noteq> []" using many(1) ts(6) by auto
    then have "hd (w_arrivals w) = hd (take ?k ts)" "List.last (w_arrivals w) = List.last (take ?k ts)"
      using sorted_ends [OF ts(4) sorted_wrt_take [OF ts(3)] ts(5)] by simp_all
    moreover have first: "take ?k ts \<noteq> []" "length (take ?k ts) = ?k" using k by auto
    moreover have "hd (take ?k ts) = ts ! 0" unfolding hd_conv_nth [OF first(1)] using k by simp
    moreover have "List.last (take ?k ts) = ts ! (?k - 1)" unfolding last_conv_nth [OF first(1)] first(2) using k by simp
    ultimately have ends: "hd (w_arrivals w) = ts ! 0" "List.last (w_arrivals w) = ts ! (?k - 1)" by simp_all
    show "2 < List.last (w_arrivals w) - hd (w_arrivals w)" unfolding ends by (rule many(2))
    have "?k - 1 < length ts" "0 < length ts" using k by linarith+
    then have "ts ! (?k - 1) \<in> set ts" "ts ! 0 \<in> set ts" by (blast intro: nth_mem)+
    then have "ts ! (?k - 1) < 30" "0 \<le> ts ! 0" using ts(2) by blast+
    moreover have "(30 :: py_float) \<le> of_nat (length (w_arrivals w))" using many(1) unfolding ts(6) by (metis of_nat_le_iff of_nat_numeral)
    ultimately show "List.last (w_arrivals w) - hd (w_arrivals w) \<le> of_nat (length (w_arrivals w))" unfolding ends by linarith
  qed
  then have fail: "\<not> (30 \<le> length plans * ?k \<and> 2 < ts ! (?k - 1) - ts ! 0)"
    if "compute_stats (sn_std np) w (ev_start s) (ev_finish s) (ev_good s) 1 = Inl e" for e using that by auto
  show ?thesis
  proof (cases "compute_stats (sn_std np) w (ev_start s) (ev_finish s) (ev_good s) 1")
    case (Inl e)
    show ?thesis unfolding run ts(1) Inl Let_def using compute_stats_errors [OF Inl] fail [OF Inl] by auto
  next
    case (Inr st)
    show ?thesis unfolding run ts(1) Inr using compute_stats_goodput [OF Inr] slow by auto
  qed
qed

text \<open>The goodput depends on the numbers of stages only: not on the model, the devices, the bias and the batch sizes.\<close>

lemma goodput_depends_on_stages:
  assumes "map length plans = map length plans'" "bias \<noteq> []" "bsz \<noteq> []" "bias' \<noteq> []" "bsz' \<noteq> []"
    "\<forall>p \<in> set plans. plan_ok c (hd bias) p" "\<forall>p \<in> set plans'. plan_ok c' (hd bias') p"
  shows "hexgen_goodput np c plans bias bsz = hexgen_goodput np c' plans' bias' bsz'"
proof -
  have "register_models c ''Llama-70b'' plans bias bsz = register_models c' ''Llama-70b'' plans' bias' bsz'"
    using register_models_stages [OF assms(2,3,6)] register_models_stages [OF assms(4,5,7)] assms(1) by simp
  moreover have "length plans = length plans'" using assms(1) by (rule map_eq_imp_length_eq)
  ultimately show ?thesis by (simp only: hexgen_goodput_def simulator_exec_def)
qed

text \<open>
  In a generation that is evaluated by the goodput, an individual whose pipelines all have five stages or more gets an infinite
  fitness if the statistics can be computed.
\<close>

lemma long_pipelines_infinite:
  assumes "simulation_ok np c (concat plans) (pp_bias i) (batch i)" "\<forall>p \<in> set (concat plans). 5 \<le> length p"
    "sum_list (map sum_list costs) \<le> 10 ^ 9" "iteration i mod 10 = 0" "100 \<le> iteration i"
    "fitness (hexgen_goodput np c) i plans costs = Some (Inr (f, i'))"
  shows "f = PosInf \<and> i' = i\<lparr>goodput_store := 0\<rparr>"
proof -
  obtain w :: sim_workload and s :: event_state where
    run: "hexgen_goodput np c (concat plans) (pp_bias i) (batch i) =
      Some (bindE (compute_stats (sn_std np) w (ev_start s) (ev_finish s) (ev_good s) 1) (\<lambda>st. Inr (st_goodput st)))"
    and "(\<forall>p \<in> set (concat plans). 5 \<le> length p) \<longrightarrow> (\<forall>x \<in> set (ev_good s). \<not> x)" using simulation_runs [OF assms(1)] by metis
  then have slow: "\<forall>x \<in> set (ev_good s). \<not> x" using assms(2) by blast
  have "\<not> 10 ^ 9 < sum_list (map sum_list costs)" using assms(3) by simp
  then obtain g where g: "hexgen_goodput np c (concat plans) (pp_bias i) (batch i) = Some (Inr g)" "f = np_inverse g" "i' = i\<lparr>goodput_store := g\<rparr>"
    using assms(4-6) unfolding fitness_def by (auto simp: bindD_Inr_iff)
  have "g = 0" using g(1) slow compute_stats_goodput unfolding run by (fastforce simp: bindE_Inr_iff)
  with g(2,3) show ?thesis by (simp add: np_inverse_def)
qed

text \<open>Requests that arrive every half second.\<close>

definition half_second_numpy :: sim_numpy where
  "half_second_numpy = \<lparr>sn_gamma = \<lambda>_ _ _ size _. replicate size (1 / 2), sn_argsort = stable_argsort, sn_std = \<lambda>_. 0, sn_overheads = no_overheads\<rparr>"

lemma half_second_ticks: "gap (sn_gamma half_second_numpy 0 1 (1 / 100) (gamma_batch 100 30)) (gamma_batch 100 30) i = 1 / 2"
    "tick (sn_gamma half_second_numpy 0 1 (1 / 100) (gamma_batch 100 30)) (gamma_batch 100 30) 0 n = of_nat (Suc n) / 2"
proof -
  have "0 < gamma_batch 100 30" by (simp add: gamma_batch_def)
  then show gap: "gap (sn_gamma half_second_numpy 0 1 (1 / 100) (gamma_batch 100 30)) (gamma_batch 100 30) i = 1 / 2" for i
    by (simp add: gap_def half_second_numpy_def)
  show "tick (sn_gamma half_second_numpy 0 1 (1 / 100) (gamma_batch 100 30)) (gamma_batch 100 30) 0 n = of_nat (Suc n) / 2"
    by (simp add: tick_def gap)
qed

lemma half_second_arrivals: "generate_arrivals (sn_gamma half_second_numpy) 100 1 0 30 0 = Some (Inr (map (\<lambda>n. of_nat (Suc n) / 2) [0..<59]))"
  using generate_arrivals_run [of 100 1 59 "sn_gamma half_second_numpy" 0 30 0] by (simp add: half_second_ticks)

theorem simulator_goodput_witness:
  "hexgen_goodput half_second_numpy (configure 64 8 8 8) [[1, 1, 1, 1, 1], [2, 1, 1, 1, 1, 1]] [0] [1] = Some (Inr 0)"
proof -
  let ?plans = "[[1, 1, 1, 1, 1], [2, 1, 1, 1, 1, 1]] :: int list list"
  have "partition_layers 8 5 0 \<noteq> None" "partition_layers 8 6 0 \<noteq> None" by code_simp+
  then have "\<forall>p \<in> set ?plans. plan_ok (configure 64 8 8 8) 0 p" by (simp add: plan_ok_def configure_def numeral_eq_Suc)
  moreover have "\<exists>n. 30 \<le> (of_nat (Suc n) / 2 :: py_float)" by (rule exI [of _ 59]) simp
  then have "gaps_ok half_second_numpy" by (simp only: gaps_ok_def Let_def half_second_ticks) simp
  ultimately have "simulation_ok half_second_numpy (configure 64 8 8 8) ?plans [0] [1]"
    by (simp add: simulation_ok_def) (simp add: half_second_numpy_def stable_argsort_ok overheads_ok_def no_overheads_def)
  from simulator_goodput [OF this] obtain r ts where r: "hexgen_goodput half_second_numpy (configure 64 8 8 8) ?plans [0] [1] = Some r"
    "generate_arrivals (sn_gamma half_second_numpy) 100 1 0 30 0 = Some (Inr ts)"
    "\<forall>e. r = Inl e \<longrightarrow> \<not> (let k = length ts div length ?plans in 30 \<le> length ?plans * k \<and> 2 < ts ! (k - 1) - ts ! 0)"
    "\<forall>g. r = Inr g \<longrightarrow> ((\<forall>p \<in> set ?plans. 5 \<le> length p) \<longrightarrow> g = 0)" by blast
  have ts: "ts = map (\<lambda>n. of_nat (Suc n) / 2) [0..<59]" using r(2) unfolding half_second_arrivals by simp
  have two: "length ?plans = 2" by simp
  have "length ts div 2 = 29" by (simp add: ts)
  moreover have "2 < ts ! (29 - 1) - ts ! 0" by (simp add: ts)
  ultimately have "r \<noteq> Inl e" for e using r(3) unfolding two Let_def by auto
  moreover have "g = 0" if "r = Inr g" for g using r(4) that by simp
  ultimately show ?thesis using r(1) by (cases r) auto
qed

end
