(* ===== verification/Benchmark.thy ===== *)
theory Benchmark
  imports RequestHandler Commands
begin

text \<open>
  The benchmarks of the global server, \<^verbatim>\<open>GlobalServer/benchmark_utils.py\<close> and \<^verbatim>\<open>GlobalServer/evaluation_utils.py\<close>: loading a trace
  of requests, generating prompts, replaying the trace, the metrics, and the rows of the saved
  trace. Numpy's random offsets, means, medians and percentiles and the tokenizer are arguments;
  what the server does with a request is the outcome of a task. Numbers are exact rationals; the rows
  of the saved trace hold the texts that the code writes, times with six decimals.
\<close>

section \<open>Timestamps\<close>

text \<open>Dates and times as microseconds; \<open>fromisoformat\<close> for strings without a time zone.\<close>

definition is_leap :: "int \<Rightarrow> bool" where
  "is_leap y \<longleftrightarrow> y mod 4 = 0 \<and> (y mod 100 \<noteq> 0 \<or> y mod 400 = 0)"

definition days_in_month :: "int \<Rightarrow> int \<Rightarrow> int" where
  "days_in_month y m = (if m = 2 then (if is_leap y then 29 else 28) else if m \<in> {4, 6, 9, 11} then 30 else 31)"

definition days_before_year :: "int \<Rightarrow> int" where
  "days_before_year y = (y - 1) * 365 + (y - 1) div 4 - (y - 1) div 100 + (y - 1) div 400"

definition ordinal :: "int \<Rightarrow> int \<Rightarrow> int \<Rightarrow> int" where
  "ordinal y m d = days_before_year y + sum_list (map (days_in_month y) [1..m - 1]) + d"

definition digitsE :: "string \<Rightarrow> int py" where
  "digitsE s = (if s \<noteq> [] \<and> list_all is_digit s then Inr (foldl (\<lambda>n c. 10 * n + int (digit_val c)) 0 s) else Inl ValueError)"

definition clock :: "int \<Rightarrow> int \<Rightarrow> int \<Rightarrow> int \<Rightarrow> int py" where
  "clock hh mm ss us =
     bindE (assertE (hh < 24 \<and> mm < 60 \<and> ss < 60) ValueError) (\<lambda>_. Inr (((hh * 60 + mm) * 60 + ss) * 1000000 + us))"

definition time_fromisoformat :: "string \<Rightarrow> int py" where
  "time_fromisoformat s =
     (if s = [] then Inr 0
      else bindE (digitsE (take 2 s)) (\<lambda>hh.
        if length s = 2 then clock hh 0 0 0
        else if length s < 5 \<or> s ! 2 \<noteq> CHR '':'' then Inl ValueError
        else bindE (digitsE (py_slice 3 5 s)) (\<lambda>mm.
          if length s = 5 then clock hh mm 0 0
          else if length s < 8 \<or> s ! 5 \<noteq> CHR '':'' then Inl ValueError
          else bindE (digitsE (py_slice 6 8 s)) (\<lambda>ss.
            if length s = 8 then clock hh mm ss 0
            else if s ! 8 \<noteq> CHR ''.'' \<or> length s \<notin> {12, 15} then Inl ValueError
            else bindE (digitsE (drop 9 s)) (\<lambda>fraction. clock hh mm ss (if length s = 12 then fraction * 1000 else fraction))))))"

definition fromisoformat :: "string \<Rightarrow> int py" where
  "fromisoformat s =
     (if length s < 10 \<or> s ! 4 \<noteq> CHR ''-'' \<or> s ! 7 \<noteq> CHR ''-'' then Inl ValueError
      else bindE (digitsE (take 4 s)) (\<lambda>y. bindE (digitsE (py_slice 5 7 s)) (\<lambda>m. bindE (digitsE (py_slice 8 10 s)) (\<lambda>d.
        bindE (time_fromisoformat (drop 11 s)) (\<lambda>t.
        bindE (assertE (1 \<le> y \<and> 1 \<le> m \<and> m \<le> 12 \<and> 1 \<le> d \<and> d \<le> days_in_month y m) ValueError) (\<lambda>_.
        Inr (ordinal y m d * 86400000000 + t)))))))"

text \<open>Fractions of a second are cut to six digits.\<close>

definition truncate_fraction :: "string \<Rightarrow> string" where
  "truncate_fraction s =
     (if CHR ''.'' \<in> set s then let parts = split_on CHR ''.'' s in join_with ''.'' (parts[1 := take 6 (parts ! 1)]) else s)"

section \<open>Loading a trace\<close>

type_synonym csv_row = "(string, string) dict"
type_synonym trace_entry = "py_float \<times> int \<times> int"

record trace_filter =
  max_requests :: "int option"
  max_context_tokens :: "int option"
  max_generated_tokens :: "int option"
  start_time :: "py_float option"
  end_time :: "py_float option"

definition over :: "'a::linorder option \<Rightarrow> 'a \<Rightarrow> bool" where
  "over limit x = (case limit of None \<Rightarrow> False | Some m \<Rightarrow> m < x)"

definition under :: "'a::linorder option \<Rightarrow> 'a \<Rightarrow> bool" where
  "under limit x = (case limit of None \<Rightarrow> False | Some m \<Rightarrow> x < m)"

definition passes :: "trace_filter \<Rightarrow> trace_entry \<Rightarrow> bool" where
  "passes f e = (case e of (arrival_time, context_tokens, generated_tokens) \<Rightarrow>
     \<not> over (max_context_tokens f) context_tokens \<and> \<not> over (max_generated_tokens f) generated_tokens \<and>
     \<not> under (start_time f) arrival_time \<and> \<not> over (end_time f) arrival_time)"

text \<open>A timestamp and the two token counts of a row.\<close>

definition parse_timestamp :: "csv_row \<Rightarrow> int py" where
  "parse_timestamp row = bindE (lookupE (dict_get row) ''TIMESTAMP'') (\<lambda>s. fromisoformat (truncate_fraction s))"

definition parse_tokens :: "string \<Rightarrow> csv_row \<Rightarrow> int py" where
  "parse_tokens name row = bindE (lookupE (dict_get row) name) py_int"

definition arrival :: "int \<Rightarrow> int \<Rightarrow> py_float" where
  "arrival first_timestamp t = of_int (t - first_timestamp) / 1000000"

fun load_rows :: "trace_filter \<Rightarrow> nat \<Rightarrow> int option \<Rightarrow> csv_row list \<Rightarrow> trace_entry list py" where
  "load_rows f i first_timestamp [] = Inr []"
| "load_rows f i first_timestamp (row # rows) =
     (if (case max_requests f of None \<Rightarrow> False | Some m \<Rightarrow> m \<le> int i) then Inr []
      else bindE (parse_timestamp row) (\<lambda>t.
        let t0 = (case first_timestamp of None \<Rightarrow> t | Some t0 \<Rightarrow> t0) in
        bindE (parse_tokens ''ContextTokens'' row) (\<lambda>context_tokens. bindE (parse_tokens ''GeneratedTokens'' row) (\<lambda>generated_tokens.
        let e = (arrival t0 t, context_tokens, generated_tokens) in
        bindE (load_rows f (Suc i) (Some t0) rows) (\<lambda>rest. Inr (if passes f e then e # rest else rest))))))"

definition load_azure_trace :: "trace_filter \<Rightarrow> csv_row list \<Rightarrow> trace_entry list py" where
  "load_azure_trace f rows = load_rows f 0 None rows"

section \<open>Generated requests\<close>

text \<open>The tokens of a prompt; \<open>offset\<close> is the random number drawn for it.\<close>

definition prompt_token_ids :: "int \<Rightarrow> int \<Rightarrow> nat \<Rightarrow> int \<Rightarrow> int list" where
  "prompt_token_ids vocab_size offset i prompt_tokens =
     map (\<lambda>j. (offset + int i + int j) mod vocab_size) [0..<nat prompt_tokens]"

definition make_request ::
  "(int list \<Rightarrow> string) \<Rightarrow> int \<Rightarrow> (nat \<Rightarrow> int) \<Rightarrow> string \<Rightarrow> bool \<Rightarrow> nat \<Rightarrow> int \<Rightarrow> int \<Rightarrow> request_input py" where
  "make_request decode vocab_size offsets model_name eos i prompt_tokens out_tokens =
     bindE (assertE (0 < vocab_size) ValueError) (\<lambda>_.
     Inr \<lparr>prompt = decode (prompt_token_ids vocab_size (offsets i) i prompt_tokens), prompt_len = prompt_tokens,
       expected_output_len = out_tokens, api_url = '''', model = model_name, ignore_eos = eos\<rparr>)"

definition generate_random_requests ::
  "(int list \<Rightarrow> string) \<Rightarrow> int \<Rightarrow> (nat \<Rightarrow> int) \<Rightarrow> string \<Rightarrow> bool \<Rightarrow> nat \<Rightarrow> int \<Rightarrow> int \<Rightarrow> request_input list py" where
  "generate_random_requests decode vocab_size offsets model_name eos num_prompts input_len output_len =
     mapE (\<lambda>i. make_request decode vocab_size offsets model_name eos i input_len output_len) [0..<num_prompts]"

definition generate_requests_from_trace ::
  "(int list \<Rightarrow> string) \<Rightarrow> int \<Rightarrow> (nat \<Rightarrow> int) \<Rightarrow> string \<Rightarrow> bool \<Rightarrow> trace_entry list \<Rightarrow> (py_float \<times> request_input) list py" where
  "generate_requests_from_trace decode vocab_size offsets model_name eos trace_data =
     mapE (\<lambda>(i, arrival_time, prompt_tokens, out_tokens).
       bindE (make_request decode vocab_size offsets model_name eos i prompt_tokens out_tokens) (\<lambda>r. Inr (arrival_time, r)))
       (enumerate 0 trace_data)"

section \<open>Metrics\<close>

record numpy =
  np_mean :: "py_float list \<Rightarrow> py_float"
  np_median :: "py_float list \<Rightarrow> py_float"
  np_percentile :: "py_float list \<Rightarrow> py_float \<Rightarrow> py_float"

record totals =
  completed :: nat
  total_input :: int
  total_output :: int
  ttfts :: "py_float list"
  tpots :: "py_float list"
  itls :: "py_float list"
  e2els :: "py_float list"

definition no_totals :: totals where
  "no_totals = \<lparr>completed = 0, total_input = 0, total_output = 0, ttfts = [], tpots = [], itls = [], e2els = []\<rparr>"

definition tpot_of :: "request_output \<Rightarrow> py_float" where
  "tpot_of out = (latency out - ttft out) / of_int (output_tokens out - 1)"

definition add_output :: "totals \<Rightarrow> request_output \<Rightarrow> totals" where
  "add_output a out = a\<lparr>completed := completed a + 1, total_input := total_input a + out_prompt_len out,
     total_output := total_output a + output_tokens out, ttfts := ttfts a @ [ttft out],
     tpots := (if 1 < output_tokens out then tpots a @ [tpot_of out] else tpots a),
     itls := itls a @ itl out, e2els := e2els a @ [latency out]\<rparr>"

definition add_request_totals :: "totals \<Rightarrow> request \<Rightarrow> totals" where
  "add_request_totals a r = (case req_output r of None \<Rightarrow> a | Some out \<Rightarrow> if success out then add_output a out else a)"

record latency_stats =
  mean_ms :: py_float
  median_ms :: py_float
  percentiles_ms :: "(py_float \<times> py_float) list"

record benchmark_metrics =
  m_completed :: nat
  m_total_input :: int
  m_total_output :: int
  request_throughput :: py_float
  output_throughput :: py_float
  total_token_throughput :: py_float
  m_ttft :: latency_stats
  m_tpot :: latency_stats
  m_itl :: latency_stats
  m_e2el :: latency_stats
  benchmark_duration :: py_float

definition rate_of :: "py_float \<Rightarrow> py_float \<Rightarrow> py_float" where
  "rate_of duration x = (if 0 < duration then x / duration else 0)"

definition stats_of :: "numpy \<Rightarrow> py_float list \<Rightarrow> py_float list \<Rightarrow> latency_stats" where
  "stats_of np percentiles data =
     (if data = [] then \<lparr>mean_ms = 0, median_ms = 0, percentiles_ms = map (\<lambda>p. (p, 0)) percentiles\<rparr>
      else \<lparr>mean_ms = np_mean np data * 1000, median_ms = np_median np data * 1000,
        percentiles_ms = map (\<lambda>p. (p, np_percentile np data p * 1000)) percentiles\<rparr>)"

definition default_percentiles :: "py_float list" where
  "default_percentiles = [25, 50, 75, 99]"

definition metrics_of_totals :: "numpy \<Rightarrow> py_float \<Rightarrow> py_float list \<Rightarrow> totals \<Rightarrow> benchmark_metrics" where
  "metrics_of_totals np duration ps a =
     \<lparr>m_completed = completed a, m_total_input = total_input a, m_total_output = total_output a,
      request_throughput = rate_of duration (of_nat (completed a)), output_throughput = rate_of duration (of_int (total_output a)),
      total_token_throughput = rate_of duration (of_int (total_input a + total_output a)),
      m_ttft = stats_of np ps (ttfts a), m_tpot = stats_of np ps (tpots a), m_itl = stats_of np ps (itls a),
      m_e2el = stats_of np ps (e2els a), benchmark_duration = duration\<rparr>"

definition calculate_benchmark_metrics :: "numpy \<Rightarrow> request list \<Rightarrow> py_float \<Rightarrow> py_float list option \<Rightarrow> benchmark_metrics" where
  "calculate_benchmark_metrics np requests duration percentiles =
     metrics_of_totals np duration (case percentiles of None \<Rightarrow> default_percentiles | Some ps \<Rightarrow> ps)
       (foldl add_request_totals no_totals requests)"

section \<open>The saved trace\<close>

text \<open>
  Formatting with six decimals, \<open>f"{x:.6f}"\<close>: the decimal number nearest to \<open>x\<close>, of two equally near ones
  the one with an even last digit; a negative number keeps its sign if it is rounded to zero.
\<close>

definition round_half_even :: "py_float \<Rightarrow> int" where
  "round_half_even x =
     (let d = x - of_int \<lfloor>x\<rfloor> in
      if d < 1 / 2 \<or> d = 1 / 2 \<and> even \<lfloor>x\<rfloor> then \<lfloor>x\<rfloor> else \<lfloor>x\<rfloor> + 1)"

fun fixed_digits :: "nat \<Rightarrow> int \<Rightarrow> string" where
  "fixed_digits 0 n = []"
| "fixed_digits (Suc k) n = fixed_digits k (n div 10) @ [digit_char (nat (n mod 10))]"

definition format6 :: "py_float \<Rightarrow> string" where
  "format6 x =
     (let n = round_half_even (\<bar>x\<bar> * 1000000) in
      (if x < 0 then ''-'' else []) @ str_int (n div 1000000) @ ''.'' @ fixed_digits 6 (n mod 1000000))"

text \<open>A row of the saved trace; whole numbers and truth values are kept as such.\<close>

record trace_row =
  RequestID :: nat
  ArrivalTime :: string
  CompletionTime :: string
  InputTokens :: int
  OutputTokens :: int
  Latency :: string
  TTFT :: string
  TPOT :: string
  Success :: bool
  QueueingDelay :: string
  SendCount :: nat

fun trace_row_of :: "request \<times> py_float \<times> py_float \<Rightarrow> trace_row" where
  "trace_row_of (r, arrival_ts, completion_ts) =
     (case req_output r of
       Some out \<Rightarrow> \<lparr>RequestID = request_id r, ArrivalTime = format6 arrival_ts, CompletionTime = format6 completion_ts,
         InputTokens = prompt_len (input r), OutputTokens = output_tokens out, Latency = format6 (latency out), TTFT = format6 (ttft out),
         TPOT = format6 (if 1 < output_tokens out then (latency out - ttft out) / of_int (output_tokens out - 1) else 0),
         Success = success out, QueueingDelay = format6 ((completion_ts - arrival_ts) - latency out), SendCount = retry_count r + 1\<rparr>
     | None \<Rightarrow> \<lparr>RequestID = request_id r, ArrivalTime = format6 arrival_ts, CompletionTime = format6 completion_ts,
         InputTokens = prompt_len (input r), OutputTokens = 0, Latency = format6 (completion_ts - arrival_ts), TTFT = ''0.0'',
         TPOT = ''0.0'', Success = False, QueueingDelay = format6 (completion_ts - arrival_ts), SendCount = retry_count r + 1\<rparr>)"

declare trace_row_of.simps [simp del]

definition save_request_trace :: "(request \<times> py_float \<times> py_float) list \<Rightarrow> trace_row list" where
  "save_request_trace request_datas = map trace_row_of request_datas"

section \<open>Tasks\<close>

text \<open>What becomes of a task: it returns or raises at some time, or never ends.\<close>

datatype 'a task_outcome = Finished py_float 'a | Raised py_float py_error | Never

fun first_raised :: "'a task_outcome list \<Rightarrow> (py_float \<times> py_error) option" where
  "first_raised [] = None"
| "first_raised (Raised t e # os) = (case first_raised os of None \<Rightarrow> Some (t, e) | Some (t', e') \<Rightarrow> if t' < t then Some (t', e') else Some (t, e))"
| "first_raised (_ # os) = first_raised os"

fun results :: "'a task_outcome list \<Rightarrow> 'a list" where
  "results [] = []"
| "results (Finished t x # os) = x # results os"
| "results (_ # os) = results os"

text \<open>\<open>asyncio.gather\<close>: the results in the order of the tasks, or the exception that is raised first.\<close>

definition gather :: "'a task_outcome list \<Rightarrow> 'a list py option" where
  "gather os = (case first_raised os of
      Some (t, e) \<Rightarrow> Some (Inl e)
    | None \<Rightarrow> if list_ex (\<lambda>x. case x of Never \<Rightarrow> True | _ \<Rightarrow> False) os then None else Some (Inr (results os)))"

fun ended_within :: "py_float \<Rightarrow> 'a task_outcome \<Rightarrow> bool" where
  "ended_within timeout (Finished t x) \<longleftrightarrow> t \<le> timeout"
| "ended_within timeout (Raised t e) \<longleftrightarrow> t \<le> timeout"
| "ended_within timeout Never \<longleftrightarrow> False"

text \<open>
  The replay of a trace. With a maximal duration only the tasks that return in time count;
  \<open>asyncio.wait\<close> yields them as a set, and \<open>order\<close> is the order in which they are listed. The argument \<open>serve\<close> says
  what becomes of the task with an index, a request and a delay.
\<close>

definition run_trace_replay_benchmark ::
  "numpy \<Rightarrow> (nat \<Rightarrow> request_input \<Rightarrow> py_float \<Rightarrow> (request \<times> py_float \<times> py_float) task_outcome) \<Rightarrow>
   ((request \<times> py_float \<times> py_float) list \<Rightarrow> (request \<times> py_float \<times> py_float) list) \<Rightarrow> py_float \<Rightarrow> py_float \<Rightarrow> py_float list option \<Rightarrow>
   py_float option \<Rightarrow> (py_float \<times> request_input) list \<Rightarrow> (benchmark_metrics \<times> trace_row list) py option" where
  "run_trace_replay_benchmark np serve order duration time_scale percentiles max_duration trace_requests =
     (let tasks = map (\<lambda>(i, arrival_time, inp). serve i inp (arrival_time * time_scale)) (enumerate 0 trace_requests) in
      bindD (case max_duration of None \<Rightarrow> gather tasks | Some d \<Rightarrow> Some (Inr (order (results (filter (ended_within d) tasks))))) (\<lambda>request_datas.
      Some (Inr (calculate_benchmark_metrics np (map fst request_datas) duration percentiles, save_request_trace request_datas))))"

text \<open>The times at which the tasks of a benchmark are created; a non-positive delay does not wait.\<close>

definition creation_times :: "xrat \<Rightarrow> nat \<Rightarrow> py_float list py" where
  "creation_times request_rate n =
     (case request_rate of
        Fin r \<Rightarrow> if r = 0 then Inl ZeroDivisionError else Inr (map (\<lambda>i. of_nat i * max 0 (1 / r)) [0..<n])
      | _ \<Rightarrow> Inr (replicate n 0))"

definition run_benchmark_requests_with_trace ::
  "(nat \<Rightarrow> request_input \<Rightarrow> py_float \<Rightarrow> (request \<times> py_float \<times> py_float) task_outcome) \<Rightarrow> xrat \<Rightarrow> request_input list \<Rightarrow>
   (request list \<times> trace_row list) py option" where
  "run_benchmark_requests_with_trace serve request_rate request_inputs =
     bindD (Some (creation_times request_rate (length request_inputs))) (\<lambda>times.
     bindD (gather (map (\<lambda>(i, inp, t). serve i inp t) (enumerate 0 (zip request_inputs times)))) (\<lambda>request_datas.
     Some (Inr (map fst request_datas, save_request_trace request_datas))))"

definition run_benchmark_requests ::
  "(nat \<Rightarrow> request_input \<Rightarrow> py_float \<Rightarrow> request task_outcome) \<Rightarrow> xrat \<Rightarrow> request_input list \<Rightarrow> request list py option" where
  "run_benchmark_requests serve request_rate request_inputs =
     bindD (Some (creation_times request_rate (length request_inputs))) (\<lambda>times.
     gather (map (\<lambda>(i, inp, t). serve i inp t) (enumerate 0 (zip request_inputs times))))"

section \<open>Benchmarks\<close>

definition succeeded :: "request \<Rightarrow> bool" where
  "succeeded r = (case req_output r of None \<Rightarrow> False | Some out \<Rightarrow> success out)"

text \<open>The initial test sends its requests one after the other; \<open>send\<close> gives the request or says that it never returns.\<close>

definition initial_test :: "(request_input \<Rightarrow> request py option) \<Rightarrow> request_input list \<Rightarrow> unit py option" where
  "initial_test send test_inputs =
     bindD (mapD send test_inputs) (\<lambda>test_requests.
     Some (assertE (length (filter (\<lambda>r. \<not> succeeded r) test_requests) = 0) ValueError))"

record harness =
  hn_np :: numpy
  hn_decode :: "int list \<Rightarrow> string"
  hn_vocab_size :: int
  hn_offsets :: "nat \<Rightarrow> int"
  hn_send :: "request_input \<Rightarrow> request py option"
  hn_serve :: "nat \<Rightarrow> request_input \<Rightarrow> py_float \<Rightarrow> (request \<times> py_float \<times> py_float) task_outcome"
  hn_order :: "(request \<times> py_float \<times> py_float) list \<Rightarrow> (request \<times> py_float \<times> py_float) list"
  hn_duration :: py_float

definition run_trace_benchmark ::
  "harness \<Rightarrow> nat \<Rightarrow> nat option \<Rightarrow> string \<Rightarrow> trace_filter \<Rightarrow> csv_row list \<Rightarrow> py_float \<Rightarrow> py_float list option \<Rightarrow> py_float option \<Rightarrow>
   (benchmark_metrics \<times> trace_row list) py option" where
  "run_trace_benchmark hn num_pipelines tests model_name f rows time_scale percentiles max_duration =
     bindD (case tests of
         None \<Rightarrow> Some (Inr ())
       | Some per_pipeline \<Rightarrow>
           bindD (Some (generate_random_requests (hn_decode hn) (hn_vocab_size hn) (hn_offsets hn) model_name True (per_pipeline * num_pipelines) 512 128))
             (initial_test (hn_send hn))) (\<lambda>_.
     bindD (Some (load_azure_trace f rows)) (\<lambda>trace_data.
     bindD (Some (assertE (trace_data \<noteq> []) ValueError)) (\<lambda>_.
     bindD (Some (generate_requests_from_trace (hn_decode hn) (hn_vocab_size hn) (hn_offsets hn) model_name True trace_data)) (\<lambda>trace_requests.
     run_trace_replay_benchmark (hn_np hn) (hn_serve hn) (hn_order hn) (hn_duration hn) time_scale percentiles max_duration trace_requests))))"

definition run_latency_benchmark ::
  "harness \<Rightarrow> (nat \<Rightarrow> request_input \<Rightarrow> py_float \<Rightarrow> request task_outcome) \<Rightarrow> nat \<Rightarrow> nat option \<Rightarrow> string \<Rightarrow> nat \<Rightarrow> int \<Rightarrow> int \<Rightarrow> xrat \<Rightarrow> py_float list option \<Rightarrow>
   benchmark_metrics py option" where
  "run_latency_benchmark hn serve num_pipelines tests model_name num_requests input_len output_len request_rate percentiles =
     (let generate = (\<lambda>n. generate_random_requests (hn_decode hn) (hn_vocab_size hn) (hn_offsets hn) model_name True n input_len output_len) in
      bindD (Some (generate num_requests)) (\<lambda>request_inputs.
      bindD (case tests of
          None \<Rightarrow> Some (Inr ())
        | Some per_pipeline \<Rightarrow>
            let test_count = per_pipeline * num_pipelines in
            bindD (Some (if test_count \<le> length request_inputs then Inr (take test_count request_inputs) else generate test_count))
              (initial_test (hn_send hn))) (\<lambda>_.
      bindD (run_benchmark_requests serve request_rate request_inputs) (\<lambda>requests.
      Some (Inr (calculate_benchmark_metrics (hn_np hn) requests (hn_duration hn) percentiles))))))"

section \<open>Lemmas: loading\<close>

text \<open>The reference: parse the rows up to the limit, make the times relative to the first one, and filter.\<close>

definition parse_row :: "csv_row \<Rightarrow> (int \<times> int \<times> int) py" where
  "parse_row row = bindE (parse_timestamp row) (\<lambda>t. bindE (parse_tokens ''ContextTokens'' row) (\<lambda>context_tokens.
     bindE (parse_tokens ''GeneratedTokens'' row) (\<lambda>generated_tokens. Inr (t, context_tokens, generated_tokens))))"

definition limited :: "trace_filter \<Rightarrow> nat \<Rightarrow> 'a list \<Rightarrow> 'a list" where
  "limited f i rows = (case max_requests f of None \<Rightarrow> rows | Some m \<Rightarrow> take (nat m - i) rows)"

definition relative_to :: "int \<Rightarrow> int \<times> int \<times> int \<Rightarrow> trace_entry" where
  "relative_to t0 p = (arrival t0 (fst p), snd p)"

lemma relative_to_pair: "relative_to t0 (t, x) = (arrival t0 t, x)"
  by (simp add: relative_to_def)

lemma limited_Cons:
  "limited f i (x # xs) = (if (case max_requests f of None \<Rightarrow> False | Some m \<Rightarrow> m \<le> int i) then [] else x # limited f (Suc i) xs)"
proof (cases "max_requests f")
  case (Some m)
  show ?thesis
  proof (cases "m \<le> int i")
    case False
    then have "nat m - i = Suc (nat m - Suc i)" by linarith
    with False Some show ?thesis by (simp add: limited_def)
  qed (simp add: limited_def Some)
qed (simp add: limited_def)

lemma load_rows_later:
  "load_rows f i (Some t0) rows = bindE (mapE parse_row (limited f i rows)) (\<lambda>ps. Inr (filter (passes f) (map (relative_to t0) ps)))"
proof (induction rows arbitrary: i)
  case Nil
  then show ?case by (simp add: limited_def split: option.split)
next
  case (Cons row rows)
  show ?case
    by (cases "parse_timestamp row"; cases "parse_tokens ''ContextTokens'' row"; cases "parse_tokens ''GeneratedTokens'' row";
        cases "mapE parse_row (limited f (Suc i) rows)")
      (simp_all add: limited_Cons Cons parse_row_def [of row] relative_to_pair Let_def cong: if_cong)
qed

lemma load_azure_trace_eq:
  "load_azure_trace f rows =
     bindE (mapE parse_row (limited f 0 rows)) (\<lambda>ps. Inr (filter (passes f) (map (relative_to (fst (hd ps))) ps)))"
proof (cases rows)
  case Nil
  then show ?thesis by (simp add: load_azure_trace_def limited_def split: option.split)
next
  case (Cons row rows')
  show ?thesis unfolding load_azure_trace_def Cons
    by (cases "parse_timestamp row"; cases "parse_tokens ''ContextTokens'' row"; cases "parse_tokens ''GeneratedTokens'' row";
        cases "mapE parse_row (limited f (Suc 0) rows')")
      (simp_all add: limited_Cons load_rows_later parse_row_def [of row] relative_to_pair Let_def cong: if_cong)
qed

lemma relative_sorted:
  assumes "sorted (map fst ps)"
  shows "sorted (map fst (map (relative_to t0) ps))"
proof -
  have "mono (arrival t0)" by (auto simp: mono_def arrival_def divide_right_mono)
  with assms have "sorted (map (arrival t0) (map fst ps))" by (auto simp: sorted_map monoD elim: sorted_wrt_mono_rel [rotated])
  then show ?thesis by (simp add: relative_to_def comp_def)
qed

lemma arrival_nonneg: "sorted (map fst ps) \<Longrightarrow> p \<in> set ps \<Longrightarrow> 0 \<le> arrival (fst (hd ps)) (fst p)"
  by (cases ps) (auto simp: arrival_def)

section \<open>Lemmas: metrics\<close>

definition outputs :: "request list \<Rightarrow> request_output list" where
  "outputs rs = map (\<lambda>r. the (req_output r)) (filter succeeded rs)"

lemma foldl_totals: "foldl add_request_totals a rs = foldl add_output a (outputs rs)"
  by (induction rs arbitrary: a) (auto simp: outputs_def succeeded_def add_request_totals_def split: option.splits)

lemma totals_of_outputs:
  "foldl add_output no_totals outs =
     \<lparr>completed = length outs, total_input = sum_list (map out_prompt_len outs), total_output = sum_list (map output_tokens outs),
      ttfts = map ttft outs, tpots = map tpot_of (filter (\<lambda>o'. 1 < output_tokens o') outs), itls = concat (map itl outs), e2els = map latency outs\<rparr>"
  by (induction outs rule: rev_induct) (simp_all add: no_totals_def add_output_def)

lemmas metrics_simps = calculate_benchmark_metrics_def metrics_of_totals_def foldl_totals totals_of_outputs

text \<open>The number that a decimal text denotes.\<close>

definition digits_number :: "string \<Rightarrow> nat" where
  "digits_number s = foldl (\<lambda>n c. 10 * n + digit_val c) 0 s"

definition read_decimal :: "string \<Rightarrow> py_float" where
  "read_decimal s =
     (let neg = (s \<noteq> [] \<and> hd s = CHR ''-''); body = (if neg then tl s else s);
          whole = takeWhile (\<lambda>c. c \<noteq> CHR ''.'') body; fraction = drop (Suc (length whole)) body in
      (if neg then - 1 else 1) * of_nat (digits_number (whole @ fraction)) / 10 ^ length fraction)"

lemma read_decimal_parts:
  assumes "CHR ''.'' \<notin> set w"
  shows "read_decimal (CHR ''-'' # w @ CHR ''.'' # f) = - (of_nat (digits_number (w @ f)) / 10 ^ length f)"
    and "w \<noteq> [] \<Longrightarrow> hd w \<noteq> CHR ''-'' \<Longrightarrow> read_decimal (w @ CHR ''.'' # f) = of_nat (digits_number (w @ f)) / 10 ^ length f"
proof -
  have "takeWhile (\<lambda>c. c \<noteq> CHR ''.'') (w @ CHR ''.'' # f) = w"
    using assms by (subst takeWhile_append2) auto
  then show "read_decimal (CHR ''-'' # w @ CHR ''.'' # f) = - (of_nat (digits_number (w @ f)) / 10 ^ length f)"
    "w \<noteq> [] \<Longrightarrow> hd w \<noteq> CHR ''-'' \<Longrightarrow> read_decimal (w @ CHR ''.'' # f) = of_nat (digits_number (w @ f)) / 10 ^ length f"
    by (simp_all add: read_decimal_def)
qed

lemma digits_number_snoc [simp]: "digits_number (s @ [c]) = 10 * digits_number s + digit_val c"
  by (simp add: digits_number_def)

lemma digits_number_str_nat [simp]: "digits_number (str_nat n) = n"
proof (induction n rule: str_nat.induct)
  case (1 n)
  then show ?case by (cases "n < 10") (simp_all add: str_nat.simps [of n] digits_number_def)
qed

lemma fixed_digits_length [simp]: "length (fixed_digits k n) = k"
  by (induction k arbitrary: n) auto

lemma digits_number_fixed: "digits_number (s @ fixed_digits k (int n)) = digits_number s * 10 ^ k + n mod 10 ^ k"
proof (induction k arbitrary: n)
  case (Suc k)
  have "int n div 10 = int (n div 10)" "nat (int n mod 10) = n mod 10" by (simp_all add: zdiv_int nat_mod_distrib)
  moreover have "n mod 10 ^ Suc k = 10 * (n div 10 mod 10 ^ k) + n mod 10" by (simp add: mod_mult2_eq)
  ultimately show ?case using Suc [of "n div 10"] by (simp add: algebra_simps flip: append_assoc)
qed simp

text \<open>A formatted number is the nearest multiple of a millionth; formatting keeps the order of numbers.\<close>

definition rounded :: "py_float \<Rightarrow> py_float" where
  "rounded x = (if x < 0 then - 1 else 1) * of_int (round_half_even (\<bar>x\<bar> * 1000000)) / 1000000"

lemma round_half_even_close: "\<bar>of_int (round_half_even x) - x\<bar> \<le> 1 / 2"
proof -
  have "of_int \<lfloor>x\<rfloor> \<le> x" "x < of_int \<lfloor>x\<rfloor> + 1" by linarith+
  then show ?thesis by (auto simp: round_half_even_def Let_def abs_le_iff)
qed

lemma round_half_even_mono: "x \<le> y \<Longrightarrow> round_half_even x \<le> round_half_even y"
proof -
  assume le: "x \<le> y"
  then have f: "\<lfloor>x\<rfloor> \<le> \<lfloor>y\<rfloor>" by (rule floor_mono)
  have b: "\<lfloor>z\<rfloor> \<le> round_half_even z \<and> round_half_even z \<le> \<lfloor>z\<rfloor> + 1" for z by (simp add: round_half_even_def Let_def)
  show ?thesis
  proof (cases "\<lfloor>x\<rfloor> = \<lfloor>y\<rfloor>")
    case True
    with le show ?thesis by (auto simp: round_half_even_def Let_def)
  next
    case False
    with f b [of x] b [of y] show ?thesis by linarith
  qed
qed

lemma round_half_even_nonneg: "0 \<le> x \<Longrightarrow> 0 \<le> round_half_even x"
  using round_half_even_mono [of 0 x] by (simp add: round_half_even_def)

lemma rounded_close: "\<bar>rounded x - x\<bar> \<le> 1 / 2000000"
  using round_half_even_close [of "\<bar>x\<bar> * 1000000", unfolded abs_le_iff]
  unfolding abs_le_iff by (cases "x < 0") (simp_all add: rounded_def field_simps)

lemma rounded_mono: "x \<le> y \<Longrightarrow> rounded x \<le> rounded y"
proof -
  assume le: "x \<le> y"
  have n: "0 \<le> round_half_even (\<bar>z\<bar> * 1000000)" for z by (rule round_half_even_nonneg) simp
  consider "0 \<le> x" | "x < 0" "0 \<le> y" | "y < 0" using le by linarith
  then show ?thesis
  proof cases
    case 1
    then have "round_half_even (\<bar>x\<bar> * 1000000) \<le> round_half_even (\<bar>y\<bar> * 1000000)" using le by (intro round_half_even_mono) simp
    with 1 le show ?thesis by (simp add: rounded_def divide_right_mono)
  next
    case 2
    with n [of x] n [of y] show ?thesis by (simp add: rounded_def)
  next
    case 3
    then have "round_half_even (\<bar>y\<bar> * 1000000) \<le> round_half_even (\<bar>x\<bar> * 1000000)" using le by (intro round_half_even_mono) simp
    with 3 le show ?thesis by (simp add: rounded_def divide_right_mono)
  qed
qed

lemma read_format6 [simp]: "read_decimal (format6 x) = rounded x"
proof -
  define n where "n = nat (round_half_even (\<bar>x\<bar> * 1000000))"
  have n: "round_half_even (\<bar>x\<bar> * 1000000) = int n"
    using round_half_even_nonneg [of "\<bar>x\<bar> * 1000000"] by (simp add: n_def)
  let ?w = "str_nat (n div 1000000)" and ?f = "fixed_digits 6 (int (n mod 1000000))"
  have v: "digits_number (?w @ ?f) = n" by (simp only: digits_number_fixed digits_number_str_nat) simp
  have h: "hd ?w \<noteq> CHR ''-''" using str_nat_digits [of "hd ?w"] is_digit_neq by (metis hd_in_set str_nat_not_Nil)
  note r = read_decimal_parts [OF str_nat_no_sep(1) [of "n div 1000000"], of ?f, unfolded v fixed_digits_length]
  have "read_decimal (?w @ CHR ''.'' # ?f) = of_nat n / 1000000" "read_decimal (CHR ''-'' # ?w @ CHR ''.'' # ?f) = - (of_nat n / 1000000)"
    using r(1) r(2) [OF str_nat_not_Nil h] by simp_all
  moreover have "int n div 1000000 = int (n div 1000000)" "int n mod 1000000 = int (n mod 1000000)" by (simp_all add: zdiv_int zmod_int)
  ultimately show ?thesis by (simp add: format6_def rounded_def n del: fixed_digits.simps)
qed

section \<open>Lemmas: statistics of rounded data\<close>

text \<open>
  What numpy computes, as documented: the mean; the middle of the sorted data, or the mean of the two
  middle ones; and the percentiles by linear interpolation between the sorted data.
\<close>

definition median :: "py_float list \<Rightarrow> py_float" where
  "median d = (let s = sort d; n = length d in if odd n then s ! (n div 2) else (s ! (n div 2 - 1) + s ! (n div 2)) / 2)"

definition percentile :: "py_float list \<Rightarrow> py_float \<Rightarrow> py_float" where
  "percentile d p =
     (let s = sort d; h = of_nat (length d - 1) * p / 100; i = nat \<lfloor>h\<rfloor> in
      if Suc i < length d then s ! i + (h - of_nat i) * (s ! Suc i - s ! i) else last s)"

definition numpy_ok :: "numpy \<Rightarrow> bool" where
  "numpy_ok np \<longleftrightarrow> (\<forall>d. d \<noteq> [] \<longrightarrow> np_mean np d = sum_list d / of_nat (length d) \<and> np_median np d = median d \<and>
     (\<forall>p. 0 \<le> p \<and> p \<le> 100 \<longrightarrow> np_percentile np d p = percentile d p))"

text \<open>Statistics, in milliseconds, that differ by at most half a microsecond.\<close>

definition near :: "latency_stats \<Rightarrow> latency_stats \<Rightarrow> bool" where
  "near a b \<longleftrightarrow> \<bar>mean_ms a - mean_ms b\<bar> \<le> 1 / 2000 \<and> \<bar>median_ms a - median_ms b\<bar> \<le> 1 / 2000 \<and>
     list_all2 (\<lambda>(p, x) (q, y). p = q \<and> \<bar>x - y\<bar> \<le> 1 / 2000) (percentiles_ms a) (percentiles_ms b)"

lemma sort_rounded: "sort (map rounded d) = map rounded (sort d)"
proof (rule properties_for_sort)
  show "sorted (map rounded (sort d))"
    using rounded_mono by (auto simp: sorted_map intro: sorted_wrt_mono_rel [of _ "(\<le>)"])
qed simp

lemma close_between:
  fixes a b c d w e :: py_float
  assumes "\<bar>a - c\<bar> \<le> e" "\<bar>b - d\<bar> \<le> e" "0 \<le> w" "w \<le> 1"
  shows "\<bar>(a + w * (b - a)) - (c + w * (d - c))\<bar> \<le> e"
proof -
  have "(a + w * (b - a)) - (c + w * (d - c)) = (1 - w) * (a - c) + w * (b - d)" by (simp add: algebra_simps)
  also have "\<bar>\<dots>\<bar> \<le> (1 - w) * \<bar>a - c\<bar> + w * \<bar>b - d\<bar>"
    using assms(3,4) abs_triangle_ineq [of "(1 - w) * (a - c)" "w * (b - d)"] by (simp add: abs_mult)
  also have "\<dots> \<le> (1 - w) * e + w * e" using assms by (intro add_mono mult_left_mono) simp_all
  finally show ?thesis by (simp add: algebra_simps)
qed

lemma mean_rounded:
  assumes "d \<noteq> []"
  shows "\<bar>sum_list (map rounded d) / of_nat (length d) - sum_list d / of_nat (length d)\<bar> \<le> 1 / 2000000"
proof -
  have "\<bar>sum_list (map rounded d) - sum_list d\<bar> \<le> of_nat (length d) * (1 / 2000000)"
  proof (induction d)
    case (Cons x d)
    have "\<bar>(rounded x - x) + (sum_list (map rounded d) - sum_list d)\<bar> \<le> 1 / 2000000 + of_nat (length d) * (1 / 2000000)"
      using abs_triangle_ineq rounded_close [of x] Cons by (rule order_trans [OF _ add_mono])
    then show ?case by (simp add: algebra_simps)
  qed simp
  then have "\<bar>sum_list (map rounded d) - sum_list d\<bar> / of_nat (length d) \<le> 1 / 2000000"
    using assms by (simp add: divide_le_eq mult.commute)
  then show ?thesis by (simp flip: diff_divide_distrib)
qed

lemma median_rounded:
  assumes "d \<noteq> []"
  shows "\<bar>median (map rounded d) - median d\<bar> \<le> 1 / 2000000"
proof -
  have n: "\<bar>map rounded (sort d) ! i - sort d ! i\<bar> \<le> 1 / 2000000" if "i < length d" for i
    using that rounded_close by simp
  have i: "length d div 2 < length d" "length d div 2 - 1 < length d" using assms by (auto simp: Suc_le_eq less_imp_diff_less)
  show ?thesis
    using n [OF i(1), unfolded abs_le_iff] n [OF i(2), unfolded abs_le_iff]
    unfolding median_def sort_rounded Let_def abs_le_iff length_map by (simp add: field_simps)
qed

lemma percentile_rounded:
  assumes "d \<noteq> []" "0 \<le> p"
  shows "\<bar>percentile (map rounded d) p - percentile d p\<bar> \<le> 1 / 2000000"
proof -
  define h where "h = of_nat (length d - 1) * p / 100"
  have pc: "percentile e p = (if Suc (nat \<lfloor>h\<rfloor>) < length e
      then sort e ! nat \<lfloor>h\<rfloor> + (h - of_nat (nat \<lfloor>h\<rfloor>)) * (sort e ! Suc (nat \<lfloor>h\<rfloor>) - sort e ! nat \<lfloor>h\<rfloor>) else last (sort e))"
    if "length e = length d" for e
    unfolding percentile_def Let_def that h_def by (rule refl)
  have n: "\<bar>map rounded (sort d) ! i - sort d ! i\<bar> \<le> 1 / 2000000" if "i < length d" for i
    using that rounded_close by simp
  have "0 \<le> h" using assms(2) by (simp add: h_def)
  then have w: "0 \<le> h - of_nat (nat \<lfloor>h\<rfloor>)" "h - of_nat (nat \<lfloor>h\<rfloor>) \<le> 1" by linarith+
  have l: "last (map rounded (sort d)) = rounded (last (sort d))" using assms(1) by (intro last_map) (metis length_0_conv length_sort)
  show ?thesis
  proof (cases "Suc (nat \<lfloor>h\<rfloor>) < length d")
    case True
    then show ?thesis
      using close_between [OF n n w, of "nat \<lfloor>h\<rfloor>" "Suc (nat \<lfloor>h\<rfloor>)"] unfolding pc [OF refl] pc [OF length_map] sort_rounded by simp
  next
    case False
    then show ?thesis using rounded_close unfolding pc [OF refl] pc [OF length_map] sort_rounded by (simp add: l)
  qed
qed

text \<open>So the statistics of the rounded times are near those of the exact ones.\<close>

lemma stats_near:
  assumes "numpy_ok np" and "\<forall>p \<in> set ps. 0 \<le> p \<and> p \<le> 100"
  shows "near (stats_of np ps (map rounded d)) (stats_of np ps d)"
proof (cases "d = []")
  case True
  then show ?thesis by (simp add: near_def stats_of_def list_all2_same)
next
  case False
  have scale: "\<bar>x * 1000 - y * 1000\<bar> \<le> 1 / 2000" if "\<bar>x - y\<bar> \<le> 1 / 2000000" for x y :: py_float
  proof -
    have "\<bar>x * 1000 - y * 1000\<bar> = \<bar>x - y\<bar> * 1000" by (simp only: abs_mult left_diff_distrib [symmetric] abs_numeral)
    then show ?thesis using that by simp
  qed
  have "list_all2 (\<lambda>(p, x) (q, y). p = q \<and> \<bar>x - y\<bar> \<le> 1 / 2000)
      (map (\<lambda>p. (p, percentile (map rounded d) p * 1000)) ps) (map (\<lambda>p. (p, percentile d p * 1000)) ps)"
    using assms(2) scale [OF percentile_rounded [OF False]] by (auto simp: list_all2_conv_all_nth)
  moreover have "stats_of np ps e = \<lparr>mean_ms = sum_list e / of_nat (length e) * 1000, median_ms = median e * 1000,
      percentiles_ms = map (\<lambda>p. (p, percentile e p * 1000)) ps\<rparr>" if "e \<noteq> []" for e
    using assms that by (simp add: stats_of_def numpy_ok_def)
  ultimately show ?thesis
    using False scale [OF mean_rounded [OF False]] scale [OF median_rounded [OF False]] by (simp add: near_def)
qed

text \<open>The columns of the rows of successful requests.\<close>

lemma trace_row_success: "Success (trace_row_of (r, a, c)) \<longleftrightarrow> succeeded r"
  by (simp add: trace_row_of.simps succeeded_def split: option.split)

lemma trace_row_fields:
  assumes "succeeded r"
  shows "OutputTokens (trace_row_of (r, a, c)) = output_tokens (the (req_output r))"
    and "read_decimal (TTFT (trace_row_of (r, a, c))) = rounded (ttft (the (req_output r)))"
    and "read_decimal (Latency (trace_row_of (r, a, c))) = rounded (latency (the (req_output r)))"
    and "1 < output_tokens (the (req_output r)) \<Longrightarrow> read_decimal (TPOT (trace_row_of (r, a, c))) = rounded (tpot_of (the (req_output r)))"
  using assms by (simp_all add: trace_row_of.simps succeeded_def tpot_of_def split: option.splits)

lemma success_columns:
  "map OutputTokens (filter Success (save_request_trace ds)) = map output_tokens (outputs (map fst ds))"
  "map (\<lambda>r. read_decimal (TTFT r)) (filter Success (save_request_trace ds)) = map rounded (map ttft (outputs (map fst ds)))"
  "map (\<lambda>r. read_decimal (Latency r)) (filter Success (save_request_trace ds)) = map rounded (map latency (outputs (map fst ds)))"
  "map (\<lambda>r. read_decimal (TPOT r)) (filter (\<lambda>r. 1 < OutputTokens r) (filter Success (save_request_trace ds))) =
     map rounded (map tpot_of (filter (\<lambda>o'. 1 < output_tokens o') (outputs (map fst ds))))"
  by (induction ds) (simp_all add: save_request_trace_def outputs_def trace_row_success trace_row_fields split_paired_all)

text \<open>A request whose output has the length of its prompt; the handler starts every output with it (\<open>fresh_output\<close>).\<close>

definition prompt_counted :: "request \<Rightarrow> bool" where
  "prompt_counted r \<longleftrightarrow> (\<forall>out. req_output r = Some out \<longrightarrow> out_prompt_len out = prompt_len (input r))"

lemma input_column:
  "\<forall>d \<in> set ds. prompt_counted (fst d) \<Longrightarrow>
     map InputTokens (filter Success (save_request_trace ds)) = map out_prompt_len (outputs (map fst ds))"
  by (induction ds) (auto simp: save_request_trace_def outputs_def succeeded_def trace_row_of.simps prompt_counted_def split: option.splits prod.splits)

lemma gather_Inr: "gather os = Some (Inr xs) \<Longrightarrow> length xs = length os"
proof -
  have "first_raised os = None \<Longrightarrow> \<not> list_ex (\<lambda>x. case x of Never \<Rightarrow> True | _ \<Rightarrow> False) os \<Longrightarrow> length (results os) = length os"
    by (induction os rule: results.induct) (auto split: option.splits if_splits)
  then show "gather os = Some (Inr xs) \<Longrightarrow> ?thesis" by (auto simp: gather_def split: option.splits if_splits)
qed

lemma results_length: "length (results os) \<le> length os"
  by (induction os rule: results.induct) auto

text \<open>The replay lists the rows of the tasks that returned, and computes the metrics from their requests.\<close>

lemma gather_results: "gather os = Some (Inr xs) \<Longrightarrow> xs = results os"
  by (auto simp: gather_def split: option.splits if_splits)

lemma results_set: "x \<in> set (results os) \<Longrightarrow> \<exists>t. Finished t x \<in> set os"
  by (induction os rule: results.induct) auto

definition replay_tasks ::
  "(nat \<Rightarrow> request_input \<Rightarrow> py_float \<Rightarrow> (request \<times> py_float \<times> py_float) task_outcome) \<Rightarrow> py_float \<Rightarrow>
   (py_float \<times> request_input) list \<Rightarrow> (request \<times> py_float \<times> py_float) task_outcome list" where
  "replay_tasks serve time_scale trs = map (\<lambda>(i, arrival_time, inp). serve i inp (arrival_time * time_scale)) (enumerate 0 trs)"

lemma replay_cases:
  assumes "run_trace_replay_benchmark np serve order duration time_scale percentiles max_duration trs = Some (Inr (m, rows))"
    and "\<And>xs. mset (order xs) = mset xs"
  obtains ds where "m = calculate_benchmark_metrics np (map fst ds) duration percentiles" "rows = save_request_trace ds"
    "length ds = (case max_duration of None \<Rightarrow> length trs
       | Some d \<Rightarrow> length (results (filter (ended_within d) (replay_tasks serve time_scale trs))))"
    "length ds \<le> length trs" "\<forall>d \<in> set ds. \<exists>t i inp delay. serve i inp delay = Finished t d"
proof -
  let ?tasks = "replay_tasks serve time_scale trs"
  obtain ds where ds: "m = calculate_benchmark_metrics np (map fst ds) duration percentiles" "rows = save_request_trace ds"
    "(case max_duration of None \<Rightarrow> gather ?tasks | Some d \<Rightarrow> Some (Inr (order (results (filter (ended_within d) ?tasks))))) = Some (Inr ds)"
    using assms(1) unfolding run_trace_replay_benchmark_def Let_def replay_tasks_def [symmetric] by (auto simp: err_simps)
  have l: "length ?tasks = length trs" by (simp add: replay_tasks_def)
  have "length ds = (case max_duration of None \<Rightarrow> length trs | Some d \<Rightarrow> length (results (filter (ended_within d) ?tasks))) \<and>
      length ds \<le> length ?tasks \<and> set ds \<subseteq> set (results ?tasks)"
  proof (cases max_duration)
    case None
    with ds(3) gather_Inr [of ?tasks ds] gather_results [of ?tasks ds] l show ?thesis by simp
  next
    case (Some d)
    have o: "ds = order (results (filter (ended_within d) ?tasks))" using ds(3) Some by simp
    have "length ds = length (results (filter (ended_within d) ?tasks))" using o assms(2) [THEN mset_eq_length] by simp
    moreover have "\<dots> \<le> length ?tasks" using results_length length_filter_le order_trans by blast
    moreover have "set (results (filter P os)) \<subseteq> set (results os)" for P and os :: "(request \<times> py_float \<times> py_float) task_outcome list"
      by (induction os rule: results.induct) auto
    then have "set ds \<subseteq> set (results ?tasks)" using o assms(2) [THEN mset_eq_setD] by simp
    ultimately show ?thesis using Some by simp
  qed
  moreover have "\<exists>t i inp delay. serve i inp delay = Finished t d" if "d \<in> set (results ?tasks)" for d
    using results_set [OF that] by (auto simp: replay_tasks_def) metis
  ultimately show thesis using ds(1,2) l by (intro that [of ds]) auto
qed

text \<open>Arrival, queueing delay and latency of a row add up to the completion, up to the rounding of the four.\<close>

lemma trace_row_queueing:
  assumes "r \<in> set (save_request_trace ds)" and "Success r"
  shows "\<bar>read_decimal (ArrivalTime r) + read_decimal (QueueingDelay r) + read_decimal (Latency r) -
     read_decimal (CompletionTime r)\<bar> \<le> 1 / 500000"
proof -
  obtain q a c out where r: "r = trace_row_of (q, a, c)" "req_output q = Some out"
    using assms by (auto simp: save_request_trace_def trace_row_of.simps split: option.splits)
  have *: "\<bar>a' + q' + l' - c'\<bar> \<le> 4 * e"
    if "\<bar>a' - a\<bar> \<le> e" "\<bar>q' - (c - a - l)\<bar> \<le> e" "\<bar>l' - l\<bar> \<le> e" "\<bar>c' - c\<bar> \<le> e" for a' q' l' c' l e :: py_float
    using that by linarith
  show ?thesis
    using * [OF rounded_close [of a] rounded_close [of "c - a - latency out"] rounded_close [of "latency out"] rounded_close [of c]]
    by (simp add: r trace_row_of.simps)
qed

text \<open>The generated requests have the lengths of the trace, and their tokens are in the vocabulary.\<close>

lemma generated_requests:
  "generate_requests_from_trace decode vocab_size offsets model_name eos trace_data = Inr trs \<Longrightarrow>
     map (\<lambda>(a, r). (a, prompt_len r, expected_output_len r)) trs = trace_data"
proof -
  have "mapE (\<lambda>(i, arrival_time, prompt_tokens, out_tokens).
       bindE (make_request decode vocab_size offsets model_name eos i prompt_tokens out_tokens) (\<lambda>r. Inr (arrival_time, r)))
       (enumerate n trace_data) = Inr trs \<Longrightarrow> map (\<lambda>(a, r). (a, prompt_len r, expected_output_len r)) trs = trace_data" for n
    by (induction trace_data arbitrary: n trs) (auto simp: err_simps make_request_def)
  then show "generate_requests_from_trace decode vocab_size offsets model_name eos trace_data = Inr trs \<Longrightarrow> ?thesis"
    by (simp add: generate_requests_from_trace_def)
qed

lemma prompt_tokens_in_vocabulary:
  "0 < vocab_size \<Longrightarrow> t \<in> set (prompt_token_ids vocab_size offset i n) \<Longrightarrow> 0 \<le> t \<and> t < vocab_size"
  by (auto simp: prompt_token_ids_def)

text \<open>The initial test passes exactly if every request returns and succeeds.\<close>

lemma initial_test_passes: "initial_test send inps = Some (Inr ()) \<longleftrightarrow> (\<exists>rs. mapD send inps = Some (Inr rs) \<and> (\<forall>r \<in> set rs. succeeded r))"
  by (auto simp: initial_test_def err_simps filter_empty_conv)

text \<open>In the row of a request without an output the waiting time counts twice: as latency and as queueing delay.\<close>

lemma failed_row_counts_twice:
  "req_output r = None \<Longrightarrow>
     Latency (trace_row_of (r, a, c)) = format6 (c - a) \<and> QueueingDelay (trace_row_of (r, a, c)) = format6 (c - a)"
  by (simp add: trace_row_of.simps)

section \<open>Properties\<close>

text \<open>
  Loading a trace is parsing, shifting and filtering. \<open>load_azure_trace\<close> raises exactly when a row up to the limit cannot
  be parsed, and else yields the entries that pass the filters, in the order of the file, with times
  relative to the first row of the file, whether that row passes or not; if the timestamps of the file ascend, the arrival times ascend from zero.
\<close>

theorem load_azure_trace_spec:
  "(case mapE parse_row (case max_requests f of None \<Rightarrow> rows | Some m \<Rightarrow> take (nat m) rows) of
      Inl e \<Rightarrow> load_azure_trace f rows = Inl e
    | Inr ps \<Rightarrow> let entries = map (\<lambda>(t, context_tokens, generated_tokens). (of_int (t - fst (hd ps)) / 1000000, context_tokens, generated_tokens)) ps in
        load_azure_trace f rows = Inr (filter (passes f) entries) \<and>
        (sorted (map fst ps) \<longrightarrow> sorted (map fst (filter (passes f) entries)) \<and> (\<forall>e \<in> set entries. 0 \<le> fst e)))"
proof -
  have lim: "(case max_requests f of None \<Rightarrow> rows | Some m \<Rightarrow> take (nat m) rows) = limited f 0 rows"
    by (simp add: limited_def split: option.split)
  show ?thesis
  proof (cases "mapE parse_row (limited f 0 rows)")
    case (Inl e)
    then show ?thesis by (simp add: lim load_azure_trace_eq)
  next
    case (Inr ps)
    have e: "map (\<lambda>(t, context_tokens, generated_tokens). (of_int (t - fst (hd ps)) / 1000000, context_tokens, generated_tokens)) ps =
        map (relative_to (fst (hd ps))) ps" by (auto simp: relative_to_def arrival_def)
    have "sorted (map fst (filter (passes f) (map (relative_to (fst (hd ps))) ps)))" if "sorted (map fst ps)"
      using relative_sorted [OF that] by (rule sorted_filter)
    moreover have "0 \<le> fst x" if "sorted (map fst ps)" "x \<in> set (map (relative_to (fst (hd ps))) ps)" for x
      using that arrival_nonneg by (auto simp: relative_to_def)
    ultimately show ?thesis by (simp only: lim Inr sum.case e Let_def) (simp add: load_azure_trace_eq Inr)
  qed
qed

definition demo_csv :: "csv_row list" where
  "demo_csv = [[(''TIMESTAMP'', ''2024-02-28 23:59:59.5000009''), (''ContextTokens'', ''374''), (''GeneratedTokens'', ''44'')],
     [(''TIMESTAMP'', ''2024-02-29 00:00:01''), (''ContextTokens'', ''4000''), (''GeneratedTokens'', ''9'')],
     [(''TIMESTAMP'', ''2024-03-01 00:00:00.250''), (''ContextTokens'', ''12''), (''GeneratedTokens'', ''3'')]]"

definition demo_filter :: trace_filter where
  "demo_filter = \<lparr>max_requests = Some 3, max_context_tokens = Some 2048, max_generated_tokens = None, start_time = Some 0, end_time = None\<rparr>"

lemma demo_parsed: "mapE parse_row demo_csv = Inr [(63844847999500000, 374, 44), (63844848001000000, 4000, 9), (63844934400250000, 12, 3)]"
  by code_simp

theorem load_azure_trace_spec_witness:
  "load_azure_trace demo_filter demo_csv = Inr [(0, 374, 44), (345603 / 4, 12, 3)]"
proof -
  have "load_azure_trace demo_filter demo_csv = Inr (filter (passes demo_filter) [(0, 374, 44), (3 / 2, 4000, 9), (345603 / 4, 12, 3)])"
  proof -
    have "(case max_requests demo_filter of None \<Rightarrow> demo_csv | Some m \<Rightarrow> take (nat m) demo_csv) = demo_csv"
      by (simp add: demo_filter_def demo_csv_def)
    then show ?thesis using load_azure_trace_spec [of demo_filter demo_csv] by (simp add: demo_parsed Let_def)
  qed
  then show ?thesis by (simp add: passes_def demo_filter_def over_def under_def)
qed

text \<open>
  C35. The metrics can be computed from the saved trace. Whenever the benchmark of a trace returns, the number of completed
  requests, the numbers of input and output tokens and the three throughputs are exactly those of the rows of the saved trace with
  success. The times in the rows are rounded to six decimals: the statistics of time to first token, time per output token and latency
  computed from the texts are within half a microsecond of the reported ones, and arrival, queueing delay and latency of such a row add up to its completion within
  two microseconds. There is a row for each entry of the trace, or with a maximal duration one for each task that returns in
  time. Assumed are numpy's documented mean, median and percentiles, percentiles between 0 and 100, and that an output
  counts the tokens of its prompt. The gaps between tokens are not saved, so their statistics are not covered.
\<close>

theorem metrics_match_trace:
  assumes "run_trace_benchmark hn num_pipelines tests model_name f csv time_scale (Some ps) max_duration = Some (Inr (m, rows))"
    and "\<And>xs. mset (hn_order hn xs) = mset xs" and "numpy_ok (hn_np hn)" and "\<forall>p \<in> set ps. 0 \<le> p \<and> p \<le> 100"
    and "\<And>i inp delay t r a c. hn_serve hn i inp delay = Finished t (r, a, c) \<Longrightarrow> prompt_counted r"
  shows "(let ok = filter Success rows; stats = stats_of (hn_np hn) ps; rate = rate_of (hn_duration hn) in
     m_completed m = length ok \<and> m_total_input m = sum_list (map InputTokens ok) \<and> m_total_output m = sum_list (map OutputTokens ok) \<and>
     request_throughput m = rate (of_nat (length ok)) \<and> output_throughput m = rate (of_int (sum_list (map OutputTokens ok))) \<and>
     total_token_throughput m = rate (of_int (sum_list (map InputTokens ok) + sum_list (map OutputTokens ok))) \<and>
     near (stats (map (\<lambda>r. read_decimal (TTFT r)) ok)) (m_ttft m) \<and> near (stats (map (\<lambda>r. read_decimal (Latency r)) ok)) (m_e2el m) \<and>
     near (stats (map (\<lambda>r. read_decimal (TPOT r)) (filter (\<lambda>r. 1 < OutputTokens r) ok))) (m_tpot m) \<and>
     (\<forall>r \<in> set ok. \<bar>read_decimal (ArrivalTime r) + read_decimal (QueueingDelay r) + read_decimal (Latency r) -
        read_decimal (CompletionTime r)\<bar> \<le> 1 / 500000)) \<and>
     (\<exists>entries trs. load_azure_trace f csv = Inr entries \<and> entries \<noteq> [] \<and>
        generate_requests_from_trace (hn_decode hn) (hn_vocab_size hn) (hn_offsets hn) model_name True entries = Inr trs \<and>
        length rows = (case max_duration of None \<Rightarrow> length entries
          | Some d \<Rightarrow> length (results (filter (ended_within d) (replay_tasks (hn_serve hn) time_scale trs)))) \<and> length rows \<le> length entries)"
proof -
  obtain entries trs where e: "load_azure_trace f csv = Inr entries" "entries \<noteq> []"
    and g: "generate_requests_from_trace (hn_decode hn) (hn_vocab_size hn) (hn_offsets hn) model_name True entries = Inr trs"
    and r: "run_trace_replay_benchmark (hn_np hn) (hn_serve hn) (hn_order hn) (hn_duration hn) time_scale (Some ps) max_duration trs = Some (Inr (m, rows))"
    using assms(1) by (auto simp: run_trace_benchmark_def err_simps)
  obtain ds where ds: "m = calculate_benchmark_metrics (hn_np hn) (map fst ds) (hn_duration hn) (Some ps)" "rows = save_request_trace ds"
    "length ds = (case max_duration of None \<Rightarrow> length trs
       | Some d \<Rightarrow> length (results (filter (ended_within d) (replay_tasks (hn_serve hn) time_scale trs))))"
    "length ds \<le> length trs" "\<forall>d \<in> set ds. \<exists>t i inp delay. hn_serve hn i inp delay = Finished t d"
    by (rule replay_cases [OF r assms(2)])
  have "\<forall>d \<in> set ds. prompt_counted (fst d)" using ds(5) assms(5) by (metis prod.collapse)
  note columns = success_columns [of ds, folded ds(2)] input_column [OF this, folded ds(2)]
  have ok: "length (filter Success rows) = length (outputs (map fst ds))" using arg_cong [OF columns(1), of length] by simp
  have "length trs = length entries" using mapE_length [OF g [unfolded generate_requests_from_trace_def]] by simp
  then have rows: "length rows = (case max_duration of None \<Rightarrow> length entries
      | Some d \<Rightarrow> length (results (filter (ended_within d) (replay_tasks (hn_serve hn) time_scale trs)))) \<and> length rows \<le> length entries"
    using ds(3,4) by (simp add: ds(2) save_request_trace_def split: option.split)
  have q: "\<forall>r \<in> set (filter Success rows). \<bar>read_decimal (ArrivalTime r) + read_decimal (QueueingDelay r) + read_decimal (Latency r) -
      read_decimal (CompletionTime r)\<bar> \<le> 1 / 500000"
    using trace_row_queueing [of _ ds] by (simp add: ds(2))
  let ?o = "outputs (map fst ds)" and ?np = "hn_np hn"
  have m: "m_completed m = length ?o" "m_total_input m = sum_list (map out_prompt_len ?o)" "m_total_output m = sum_list (map output_tokens ?o)"
    "request_throughput m = rate_of (hn_duration hn) (of_nat (length ?o))"
    "output_throughput m = rate_of (hn_duration hn) (of_int (sum_list (map output_tokens ?o)))"
    "total_token_throughput m = rate_of (hn_duration hn) (of_int (sum_list (map out_prompt_len ?o) + sum_list (map output_tokens ?o)))"
    "m_ttft m = stats_of ?np ps (map ttft ?o)" "m_e2el m = stats_of ?np ps (map latency ?o)"
    "m_tpot m = stats_of ?np ps (map tpot_of (filter (\<lambda>o'. 1 < output_tokens o') ?o))"
    by (simp_all add: ds(1) metrics_simps)
  show ?thesis
    unfolding Let_def m columns ok using e g rows q stats_near [OF assms(3,4)] by blast
qed

definition demo_output :: request_output where
  "demo_output = RequestOutput_init\<lparr>success := True, latency := 10 / 3, output_tokens := 5, ttft := 1, out_prompt_len := 374\<rparr>"

definition demo_serve :: "nat \<Rightarrow> request_input \<Rightarrow> py_float \<Rightarrow> (request \<times> py_float \<times> py_float) task_outcome" where
  "demo_serve i inp delay = Finished (delay + 4)
     ((fst (Request_create i inp))\<lparr>req_output := Some (demo_output\<lparr>out_prompt_len := prompt_len inp\<rparr>)\<rparr>, delay, delay + 4)"

definition demo_harness :: harness where
  "demo_harness = \<lparr>hn_np = \<lparr>np_mean = (\<lambda>d. sum_list d / of_nat (length d)), np_median = median, np_percentile = percentile\<rparr>,
     hn_decode = (\<lambda>_. ''text''), hn_vocab_size = 100, hn_offsets = (\<lambda>_. 7),
     hn_send = (\<lambda>inp. Some (Inr ((fst (Request_create 0 inp))\<lparr>req_output := Some demo_output\<rparr>))),
     hn_serve = demo_serve, hn_order = (\<lambda>xs. xs), hn_duration = 10\<rparr>"

theorem metrics_match_trace_witness:
  "\<exists>m rows. run_trace_benchmark demo_harness 1 (Some 1) ''model'' demo_filter demo_csv 1 (Some [50]) (Some 10) = Some (Inr (m, rows)) \<and>
     m_completed m = 1 \<and> m_total_input m = 374 \<and> m_total_output m = 5 \<and> map Latency rows = [''3.333333'']"
proof -
  have "case run_trace_benchmark demo_harness 1 (Some 1) ''model'' demo_filter demo_csv 1 (Some [50]) (Some 10) of
      Some (Inr (m, rows)) \<Rightarrow> map Success rows = [True] \<and> map InputTokens rows = [374] \<and> map OutputTokens rows = [5] \<and>
        map Latency rows = [''3.333333''] | _ \<Rightarrow> False" by code_simp
  then obtain m rows where r: "run_trace_benchmark demo_harness 1 (Some 1) ''model'' demo_filter demo_csv 1 (Some [50]) (Some 10) = Some (Inr (m, rows))"
    and rows: "map Success rows = [True]" "map InputTokens rows = [374]" "map OutputTokens rows = [5]" "map Latency rows = [''3.333333'']"
    by (auto split: option.splits sum.splits)
  from rows have "filter Success rows = rows" "length rows = 1" by (cases rows; auto)+
  moreover have "numpy_ok (hn_np demo_harness)" by (simp add: numpy_ok_def demo_harness_def)
  moreover have "prompt_counted r" if "hn_serve demo_harness i inp delay = Finished t (r, a, c)" for i inp delay t r a c
    using that by (auto simp: demo_harness_def demo_serve_def Request_create_def prompt_counted_def)
  ultimately show ?thesis using metrics_match_trace [OF r] rows r by (auto simp: demo_harness_def Let_def)
qed

end
