(* ===== verification/Spec2Isabelle.thy ===== *)
theory Spec2Isabelle
  imports TensorStore GlobalServer Placement Optimizer AlpaSearch HexGenSearch HexGenSim Benchmark
begin

text \<open>
  A verification of ShuntServe, a system that serves large language models on heterogeneous spot
  instances (sources under \<^verbatim>\<open>src/\<close>).

  \<^bold>\<open>The program and its parts.\<close> A model is first cut into tensor-parallel shards and uploaded to object storage
  (\<^verbatim>\<open>TensorStore/raw_s3_model_uploader.py\<close>). On each GPU a tensor store process loads the shards of its pipeline
  stage, allocates the KV cache and answers status requests (\<^verbatim>\<open>TensorStore/raw_s3_tensor_store_server.py\<close>,
  \<^verbatim>\<open>protocols.py\<close>); inference engines attach to it, so that an engine can be replaced without loading again. A cluster holds pipelines of
  virtual nodes (\<^verbatim>\<open>GlobalServer/VNode.py\<close>, commands from \<^verbatim>\<open>GlobalServer/command.py\<close>), which start, check, stop and
  replace the processes on the machines; \<^verbatim>\<open>utils.py\<close> places the ranks of a pipeline on its nodes. The global server
  (\<^verbatim>\<open>GlobalServer/global_server.py\<close>) queues requests, selects a pipeline and hands the request to a client
  (\<^verbatim>\<open>GlobalServer/request_handler.py\<close>) that resumes or restarts an interrupted generation. The benchmarks replay traces against it
  (\<^verbatim>\<open>GlobalServer/benchmark_utils.py\<close>, \<^verbatim>\<open>GlobalServer/evaluation_utils.py\<close>). Offline, an optimizer searches for pipelines on the
  instances that a budget allows (\<^verbatim>\<open>ModelPlacement/shuntserve_optimizer.py\<close>, \<^verbatim>\<open>cluster_pool.py\<close>, \<^verbatim>\<open>hardware_specs.py\<close>,
  \<^verbatim>\<open>estimator_utils.py\<close>), and two baselines are compared with it: \<^verbatim>\<open>alpaserve_optimizer.py\<close>, which calls the placement search and the
  simulator of \<^verbatim>\<open>ModelPlacement/alpaserve_lib/\<close>, and \<^verbatim>\<open>hexgen_optimizer.py\<close> with \<^verbatim>\<open>hexgen/\<close>, whose evaluation runs the event-driven
  simulator of \<^verbatim>\<open>hexgen/alpa_serve/simulator/\<close>.

  \<^bold>\<open>Theories.\<close>
  \<^item> \<open>Prelude\<close>: Python's exceptions as values of a sum type (\<open>'a py\<close>), methods on objects as state-passing
    functions (\<open>proc\<close>), computations that may run forever (\<open>'a py option\<close>, \<open>bindD\<close>), dictionaries that keep insertion
    order, strings, slices, floats with an infinity, ranges that tile an interval, and their lemmas.
    The locale \<open>py_dict\<close> states what clients rely on in a dictionary, \<open>selection\<close> what \<open>min\<close> and \<open>max\<close> with a key need of
    an order; both are interpreted there.
  \<^item> \<open>TensorFormat\<close>, \<open>TensorPartition\<close>, \<open>S3Layout\<close>: the binary tensor format, the shards, the keys in the bucket and the loops of the
    uploader. Reading inverts writing, proper prefixes are rejected, whatever is accepted is an encoding of a well-formed
    tensor; the shards put together are the weight; after an upload every shard loads to its partition.
  \<^item> \<open>Protocols\<close>, \<open>TensorStore\<close>: the status protocol and the store. Each layer is loaded by exactly one stage, fusion replaces exactly
    the projections, the KV cache fits in the memory, a serving store is complete, and the status
    server answers READY exactly after the main thread finished. Threads run one tensor at a time in an arbitrary order.
  \<^item> \<open>Commands\<close>, \<open>VNode\<close>, \<open>Pipeline\<close>, \<open>Cluster\<close>: the shell commands, the virtual nodes as objects in a store (references are shared, as in
    the code), pipelines and the cluster. A world of replies, indexed by a clock, stands for the machines; what is done
    to them is a trace of actions. Created pipelines are ready and use no GPU twice, their layer ranges tile the model,
    a switch checks the health of the new server before the old one stops, the wait for the services ends exactly if the polled ports
    are served, and the invariant of the cluster holds after any sequence of operations, raising or not.
  \<^item> \<open>RequestHandler\<close>, \<open>GlobalServer\<close>: the clients and the server as a step relation (\<open>gs_step\<close>) on records with stores of requests and
    tasks. The server refines an abstract life cycle of requests, conserves requests, counts the
    requests in flight exactly and loses none while no pipeline is removed; migration accounts for text, tokens and latencies. The
    queues satisfy the locale \<open>fifo\<close>.
  \<^item> \<open>Placement\<close>: the bundles of a placement group; every rank of a pipeline gets a bundle on its node.
  \<^item> \<open>ClusterPool\<close>, \<open>Estimator\<close>, \<open>Heapq\<close>, \<open>Optimizer\<close>: hardware tables, pool, performance model, the binary heap of the standard library,
    and the beam search with its caches. The estimates return positive values, the batch size is the largest that
    fits, the search returns complete, affordable and available pipelines in order, and the bounded heap keeps what sorting would keep;
    the heap is interpreted in the locale \<open>bounded_heap\<close>.
  \<^item> \<open>AlpaServe\<close>: the dynamic program that splits layers into stages; its result is an optimal split. The search is an argument there.
  \<^item> \<open>GroupConfigs\<close>, \<open>SimWorkload\<close>, \<open>ReplicaPlacement\<close>, \<open>FastSimulator\<close>, \<open>EvoSearch\<close>, \<open>AlpaSearch\<close>: the search that the AlpaServe baseline
    calls. \<open>GroupConfigs\<close> has the number functions and the enumerations of group configurations: every enumerated placement uses each
    device once. \<open>SimWorkload\<close> has arrival processes and workloads: generating the arrivals ends exactly if the gaps
    add up to the end of the period. \<open>ReplicaPlacement\<close> has the round-robin and the greedy placement of replicas. Its locale \<open>placement_evaluator\<close> states what
    the greedy search relies on in a scorer; \<open>FastSimulator\<close> interprets it with the fast simulator, whose good
    requests meet their objectives and whose counters agree. \<open>EvoSearch\<close> has the evolutionary search: it
    returns, keeps the devices and is not worse than its starts. \<open>AlpaSearch\<close> puts them together and runs the optimizer with the search.
  \<^item> \<open>EventSim\<close>: the event-driven simulator that HexGen brings along: devices, executables, group managers, controller, client and the
    event loop over the heap of \<open>Heapq\<close>. A waiting coroutine is an entry of the queue with the point at which it resumes. The loop ends for
    every workload, every request is then answered once, and a good answer keeps its objective and passes all stages of a replica.
  \<^item> \<open>HexGenSim\<close>: the script that sets up this simulation for the plans of an individual. It is the goodput simulator that is an
    argument of \<open>HexGenCost\<close>; the goodput depends on the numbers of stages only, and is zero for pipelines of five stages or more.
  \<^item> \<open>LayerSplit\<close>, \<open>HexGen\<close>, \<open>HexGenCost\<close>, \<open>HexGenSearch\<close>: the distribution of layers with a bias (the locale \<open>direction\<close> covers both
    directions), the mutation of individuals as step relations over all random choices, the evaluation, and the search.
    The distribution ends exactly for a bias that the layers admit, the evaluation picks the cheapest plan, and the
    search returns the best individual it evaluated, if any has a finite fitness; it uses exactly the GPUs of the cluster.
  \<^item> \<open>Benchmark\<close>: loading and replaying traces, metrics, and the saved trace, whose texts have six decimals and from
    which the metrics can be computed again up to this rounding.

  \<^bold>\<open>Interaction.\<close> A pipeline generates the rank mapping that \<open>Placement\<close> distributes; it starts tensor stores with the commands of
  \<open>Commands\<close> and polls them with the messages of \<open>Protocols\<close>; the store reads the keys that \<open>S3Layout\<close> writes;
  the global server owns a cluster and runs its operations between the steps of the tasks; the
  optimizers call the estimator. The properties that span components stand in the theory of the component that
  uses the other ones.

  \<^bold>\<open>Numbers, loops and bounds.\<close> Python integers are \<open>int\<close> or \<open>nat\<close>, bytes are 8-bit words, floats are exact rationals, with an infinity where the
  code has one; rounding is not modelled. Loops over data are structural or have a termination proof. Loops that wait for machines
  take a number of rounds as fuel (\<open>pollS\<close>, \<open>services_loop\<close>); the liveness theorem of the services states how many rounds are enough.
  Loops that may run forever (\<open>shift_loop\<close>, \<open>adjust_loop\<close>, \<open>gamma_loop\<close>, \<open>event_run\<close>) are partial functions with values in
  an option type, and the theorems say when they return. Randomness, times and the order of sets are arguments or
  nondeterministic choices; a theorem holds for all of them.

  \<^bold>\<open>Parameters.\<close> Code that is not part of the sources is an argument, with what is relied on as a hypothesis: S3 (an object read
  after an upload is the uploaded one), Ray (the bundles of a group are the requested ones), torch and CUDA calls,
  DEAP (offspring are mutated members of the population, samples are members of the list), numpy (random numbers, the order of
  equal keys in a sort), the random overheads of the event-driven simulator, and the tokenizer. The theorems on the search of HexGen hold for any goodput simulator.

  \<^bold>\<open>Not modelled.\<close> The vendored vLLM engine and the web server around it (\<^verbatim>\<open>InferenceServer/api_server.py\<close>), the part of
  \<^verbatim>\<open>alpaserve_lib\<close> that the optimizer does not reach (the serving runtime on Ray, HTTP, readers of published traces, simulation with
  batching, beam search, replacement placements, the integer programs), HexGen scripts that the optimizer does not call, the download
  from the model hub, argument parsers, log streaming, printed reports, infrastructure and
  experiment scripts: they call libraries, format text or start processes and hold no state of the system.
\<close>

end
